(* ===== verification/Prelude.thy ===== *)
theory Prelude
  imports Main "HOL-Library.Word"
begin

text \<open>
  Shared vocabulary of the libstatgrab development: the C integer types at their LP64 widths, the
  outcome of a C computation (a value, or the undefined behaviour it runs into), NUL-terminated
  strings, the C library's comparison and search routines, and the list lemmas the component
  theories share.
\<close>

section \<open>Machine types\<close>

type_synonym size_t = "64 word"
type_synonym ull = "64 word"         \<comment> \<open>unsigned long long\<close>
type_synonym time_t = "64 word"      \<comment> \<open>subtraction is two's complement, as in the LP64 ABI\<close>
type_synonym u32 = "32 word"         \<comment> \<open>unsigned\<close>
type_synonym addr = nat              \<comment> \<open>0 is NULL\<close>

named_theorems step_simps \<open>one step of a C computation\<close>
named_theorems mem_simps \<open>reads and writes of the vector heap\<close>
named_theorems frame_simps \<open>what an operation leaves unchanged\<close>

section \<open>Outcomes\<close>

text \<open>
  A C function either returns (with the new state) or runs into undefined behaviour or a failed
  \<^verbatim>\<open>assert\<close>; the second is a value of the model, so that "never happens" is a theorem and not an
  omission of the model.
\<close>

datatype fault =
    NullDeref                 \<comment> \<open>a NULL pointer is dereferenced\<close>
  | UseAfterFree addr         \<comment> \<open>a block that is not allocated is read, written or freed\<close>
  | OutOfBounds addr nat      \<comment> \<open>an item outside the memory of its block is touched\<close>
  | DanglingString            \<comment> \<open>a string that was freed is read or freed again\<close>
  | AssertFailed string       \<comment> \<open>\<^verbatim>\<open>assert\<close> does not hold\<close>
  | ShiftTooWide nat          \<comment> \<open>a shift by the width of its operand or more\<close>
  | Deadlock string           \<comment> \<open>a thread waits for a lock it holds itself\<close>
  | Waits string              \<comment> \<open>the call does not return while another thread holds the lock\<close>
  | BadMutex string           \<comment> \<open>a mutex that is not initialised is used\<close>
  | NonTermination            \<comment> \<open>a loop makes no progress\<close>
  | SignedOverflow            \<comment> \<open>signed arithmetic leaves its range\<close>
  | DivideByZero              \<comment> \<open>an integer is divided by 0\<close>
  | WrongType                 \<comment> \<open>memory is read at another type than it was written at\<close>

datatype 'a outcome = Done 'a | Fault fault

fun andthen :: "'a outcome \<Rightarrow> ('a \<Rightarrow> 'b outcome) \<Rightarrow> 'b outcome" where
  "andthen (Done x) f = f x"
| "andthen (Fault e) f = Fault e"

definition c_assert :: "string \<Rightarrow> bool \<Rightarrow> unit outcome" where
  "c_assert what b = (if b then Done () else Fault (AssertFailed what))"

lemma andthen_Done_iff [step_simps]:
  "andthen m f = Done y \<longleftrightarrow> (\<exists>x. m = Done x \<and> f x = Done y)"
  by (cases m) auto

lemma andthen_Fault_iff:
  "andthen m f = Fault e \<longleftrightarrow> m = Fault e \<or> (\<exists>x. m = Done x \<and> f x = Fault e)"
  by (cases m) auto

lemma andthen_assoc: "andthen (andthen m f) g = andthen m (\<lambda>x. andthen (f x) g)"
  by (cases m) auto

lemma andthen_cong [fundef_cong]:
  "m = m' \<Longrightarrow> (\<And>x. m' = Done x \<Longrightarrow> f x = f' x) \<Longrightarrow> andthen m f = andthen m' f'"
  by (cases m') auto

lemma c_assert_True [simp, step_simps]: "c_assert what True = Done ()"
  by (simp add: c_assert_def)

lemma c_assert_False [simp]: "c_assert what False = Fault (AssertFailed what)"
  by (simp add: c_assert_def)

section \<open>C strings\<close>

text \<open>A C string in memory is a list of bytes that holds a NUL; its value is what stands before it.\<close>

abbreviation NUL :: char where "NUL \<equiv> CHR 0x00"

definition strval :: "char list \<Rightarrow> string" where
  "strval buf = takeWhile (\<lambda>c. c \<noteq> NUL) buf"

definition nul_free :: "string \<Rightarrow> bool" where
  "nul_free s = list_all (\<lambda>c. c \<noteq> NUL) s"

lemma strval_nul_free [simp]: "nul_free (strval buf)"
  by (auto simp: nul_free_def strval_def list_all_iff dest: set_takeWhileD)

lemma nul_free_Nil [simp]: "nul_free []"
  by (simp add: nul_free_def)

lemma nul_free_Cons [simp]: "nul_free (c # s) \<longleftrightarrow> c \<noteq> NUL \<and> nul_free s"
  by (simp add: nul_free_def)

lemma nul_free_append [simp]: "nul_free (s @ t) \<longleftrightarrow> nul_free s \<and> nul_free t"
  by (simp add: nul_free_def)

lemma nul_free_take: "nul_free s \<Longrightarrow> nul_free (take n s)"
  by (auto simp: nul_free_def list_all_iff dest: in_set_takeD)

lemma strval_append_NUL [simp]: "nul_free s \<Longrightarrow> strval (s @ NUL # rest) = s"
  by (induction s) (auto simp: strval_def nul_free_def)

lemma strval_id: "nul_free s \<Longrightarrow> strval s = s"
  by (induction s) (auto simp: strval_def nul_free_def)

text \<open>\<^verbatim>\<open>strcmp\<close>: the sign of the first difference of the bytes, the end counting as NUL.\<close>

fun strcmp :: "string \<Rightarrow> string \<Rightarrow> int" where
  "strcmp [] [] = 0"
| "strcmp [] (b # bs) = - 1"
| "strcmp (a # as) [] = 1"
| "strcmp (a # as) (b # bs) =
     (if a = b then strcmp as bs
      else if (of_char a :: nat) < of_char b then - 1 else 1)"

lemma strcmp_eq_0_iff [simp]: "strcmp a b = 0 \<longleftrightarrow> a = b"
  by (induction a b rule: strcmp.induct) auto

lemma strcmp_refl [simp]: "strcmp a a = 0"
  by simp

lemma strcmp_antisym: "strcmp b a = - strcmp a b"
proof (induction a b rule: strcmp.induct)
  case (4 a as b bs)
  then show ?case
    by (cases "(of_char a :: nat) = of_char b") auto
qed auto

lemma strcmp_trans:
  "strcmp a b < 0 \<Longrightarrow> strcmp b c < 0 \<Longrightarrow> strcmp a c < 0"
proof (induction a b arbitrary: c rule: strcmp.induct)
  case (4 a as b bs)
  then show ?case
    by (cases c) (auto split: if_splits)
next
  case (2 b bs)
  then show ?case by (cases c) auto
qed auto

definition INT_MAX :: int where "INT_MAX = 2147483647"

text \<open>\<^verbatim>\<open>strncmp(p, s, strlen(p)) == 0\<close>: does \<open>s\<close> start with \<open>p\<close>?\<close>

fun has_prefix :: "string \<Rightarrow> string \<Rightarrow> bool" where
  "has_prefix [] s = True"
| "has_prefix (p # ps) [] = False"
| "has_prefix (p # ps) (c # s) = (p = c \<and> has_prefix ps s)"

lemma has_prefix_iff: "has_prefix p s \<longleftrightarrow> (\<exists>t. s = p @ t)"
  by (induction p s rule: has_prefix.induct) auto

text \<open>\<^verbatim>\<open>%lu\<close>: the decimal digits of a number.\<close>

fun dec_string :: "nat \<Rightarrow> string" where
  "dec_string n =
     (if n < 10 then [char_of (48 + n)] else dec_string (n div 10) @ [char_of (48 + n mod 10)])"

declare dec_string.simps [simp del]

section \<open>Words\<close>

lemma unat_pow2: "n < LENGTH('a) \<Longrightarrow> unat (2 ^ n :: 'a::len word) = 2 ^ n"
  using unat_of_nat [of "2 ^ n", where ?'a = 'a] by simp

lemma unat_min: "unat (min a b) = min (unat a) (unat b)"
  by (simp add: min_def word_le_nat_alt)

lemma unat_max: "unat (max a b) = max (unat a) (unat b)"
  by (simp add: max_def word_le_nat_alt)

section \<open>Lists\<close>

lemma list_update_append_length [simp]: "(xs @ y # ys)[length xs := z] = xs @ z # ys"
  by (induction xs) auto

lemma take_Suc_update: "i < length xs \<Longrightarrow> take (Suc i) (xs[i := x]) = take i xs @ [x]"
  by (simp add: take_Suc_conv_app_nth)

lemma nth_take_eqI: "take n xs = take n ys \<Longrightarrow> i < n \<Longrightarrow> xs ! i = ys ! i"
  by (metis nth_take)

end
