(* ===== verification/Errors.thy ===== *)
theory Errors
  imports Prelude
begin

text \<open>
  The error component (\<^verbatim>\<open>src/libstatgrab/error.c\<close>, \<^verbatim>\<open>error.h\<close> and the \<^verbatim>\<open>sg_error\<close> enumeration of
  \<^verbatim>\<open>statgrab.h.in\<close>): the error codes and their messages, the per-thread record of the last error, the
  routines that set, clear and read it, and \<^verbatim>\<open>sg_strperror\<close>. The process environment the other
  components share (the allocator, \<^verbatim>\<open>errno\<close>, the last error) is declared here too.
\<close>

section \<open>Codes and messages\<close>

datatype (plugins only: code size) sg_error =
    SG_ERROR_NONE | SG_ERROR_INVALID_ARGUMENT | SG_ERROR_ASPRINTF
  | SG_ERROR_SPRINTF | SG_ERROR_DEVICES | SG_ERROR_DEVSTAT_GETDEVS
  | SG_ERROR_DEVSTAT_SELECTDEVS | SG_ERROR_DISKINFO | SG_ERROR_ENOENT
  | SG_ERROR_GETIFADDRS | SG_ERROR_GETMNTINFO | SG_ERROR_GETPAGESIZE
  | SG_ERROR_HOST | SG_ERROR_KSTAT_DATA_LOOKUP | SG_ERROR_KSTAT_LOOKUP
  | SG_ERROR_KSTAT_OPEN | SG_ERROR_KSTAT_READ | SG_ERROR_KVM_GETSWAPINFO
  | SG_ERROR_KVM_OPENFILES | SG_ERROR_MALLOC | SG_ERROR_MEMSTATUS
  | SG_ERROR_OPEN | SG_ERROR_OPENDIR | SG_ERROR_READDIR
  | SG_ERROR_PARSE | SG_ERROR_PDHADD | SG_ERROR_PDHCOLLECT
  | SG_ERROR_PDHOPEN | SG_ERROR_PDHREAD | SG_ERROR_PERMISSION
  | SG_ERROR_PSTAT | SG_ERROR_SETEGID | SG_ERROR_SETEUID
  | SG_ERROR_SETMNTENT | SG_ERROR_SOCKET | SG_ERROR_SWAPCTL
  | SG_ERROR_SYSCONF | SG_ERROR_SYSCTL | SG_ERROR_SYSCTLBYNAME
  | SG_ERROR_SYSCTLNAMETOMIB | SG_ERROR_SYSINFO | SG_ERROR_MACHCALL
  | SG_ERROR_IOKIT | SG_ERROR_UNAME | SG_ERROR_UNSUPPORTED
  | SG_ERROR_XSW_VER_MISMATCH | SG_ERROR_GETMSG | SG_ERROR_PUTMSG
  | SG_ERROR_INITIALISATION | SG_ERROR_MUTEX_LOCK | SG_ERROR_MUTEX_UNLOCK
  | SG_ERROR_unlisted nat   \<comment> \<open>a value of the C enum's integer type outside its enumerators\<close>

fun sg_str_error :: "sg_error \<Rightarrow> string" where
  "sg_str_error SG_ERROR_NONE = ''no error''"
| "sg_str_error SG_ERROR_INVALID_ARGUMENT = ''invalid argument''"
| "sg_str_error SG_ERROR_ASPRINTF = ''asprintf failed''"
| "sg_str_error SG_ERROR_SPRINTF = ''sprintf failed''"
| "sg_str_error SG_ERROR_DEVSTAT_GETDEVS = ''devstat_getdevs failed''"
| "sg_str_error SG_ERROR_DEVSTAT_SELECTDEVS = ''devstat_selectdevs failed''"
| "sg_str_error SG_ERROR_ENOENT = ''system call received ENOENT''"
| "sg_str_error SG_ERROR_GETIFADDRS = ''getifaddress failed''"
| "sg_str_error SG_ERROR_GETMNTINFO = ''getmntinfo failed''"
| "sg_str_error SG_ERROR_GETPAGESIZE = ''getpagesize failed''"
| "sg_str_error SG_ERROR_HOST = ''gather host information faile''"
| "sg_str_error SG_ERROR_KSTAT_DATA_LOOKUP = ''kstat_data_lookup failed''"
| "sg_str_error SG_ERROR_KSTAT_LOOKUP = ''kstat_lookup failed''"
| "sg_str_error SG_ERROR_KSTAT_OPEN = ''kstat_open failed''"
| "sg_str_error SG_ERROR_KSTAT_READ = ''kstat_read failed''"
| "sg_str_error SG_ERROR_KVM_GETSWAPINFO = ''kvm_getswapinfo failed''"
| "sg_str_error SG_ERROR_KVM_OPENFILES = ''kvm_openfiles failed''"
| "sg_str_error SG_ERROR_MALLOC = ''malloc failed''"
| "sg_str_error SG_ERROR_OPEN = ''failed to open file''"
| "sg_str_error SG_ERROR_OPENDIR = ''failed to open directory''"
| "sg_str_error SG_ERROR_READDIR = ''failed to read directory''"
| "sg_str_error SG_ERROR_PARSE = ''failed to parse input''"
| "sg_str_error SG_ERROR_SETEGID = ''setegid failed''"
| "sg_str_error SG_ERROR_SETEUID = ''seteuid failed''"
| "sg_str_error SG_ERROR_SETMNTENT = ''setmntent failed''"
| "sg_str_error SG_ERROR_SOCKET = ''socket failed''"
| "sg_str_error SG_ERROR_SWAPCTL = ''swapctl failed''"
| "sg_str_error SG_ERROR_SYSINFO = ''sysinfo failed''"
| "sg_str_error SG_ERROR_SYSCONF = ''sysconf failed''"
| "sg_str_error SG_ERROR_SYSCTL = ''sysctl failed''"
| "sg_str_error SG_ERROR_SYSCTLBYNAME = ''sysctlbyname failed''"
| "sg_str_error SG_ERROR_SYSCTLNAMETOMIB = ''sysctlnametomib failed''"
| "sg_str_error SG_ERROR_MACHCALL = ''mach kernel operation failed''"
| "sg_str_error SG_ERROR_IOKIT = ''I/O Kit operation failed''"
| "sg_str_error SG_ERROR_UNAME = ''uname failed''"
| "sg_str_error SG_ERROR_UNSUPPORTED = ''unsupported function''"
| "sg_str_error SG_ERROR_XSW_VER_MISMATCH = ''XSW version mismatch''"
| "sg_str_error SG_ERROR_PSTAT = ''pstat failed''"
| "sg_str_error SG_ERROR_PDHOPEN = ''PDH open failed''"
| "sg_str_error SG_ERROR_PDHCOLLECT = ''PDH snapshot failed''"
| "sg_str_error SG_ERROR_PDHADD = ''PDH add counter failed''"
| "sg_str_error SG_ERROR_PDHREAD = ''PDH read counter failed''"
| "sg_str_error SG_ERROR_DEVICES = ''failed to get device list''"
| "sg_str_error SG_ERROR_PERMISSION = ''access violation''"
| "sg_str_error SG_ERROR_DISKINFO = ''disk function failed''"
| "sg_str_error SG_ERROR_MEMSTATUS = ''memory status failed''"
| "sg_str_error SG_ERROR_GETMSG = ''getmsg failed''"
| "sg_str_error SG_ERROR_PUTMSG = ''putmsg failed''"
| "sg_str_error SG_ERROR_INITIALISATION = ''initialization error''"
| "sg_str_error SG_ERROR_MUTEX_LOCK = ''lock mutex failed''"
| "sg_str_error SG_ERROR_MUTEX_UNLOCK = ''unlock mutex failed''"
| "sg_str_error (SG_ERROR_unlisted n) = ''unknown error''"

text \<open>The enumerators of the C enum, in its order.\<close>

definition sg_error_all :: "sg_error list" where
  "sg_error_all =
    [SG_ERROR_NONE, SG_ERROR_INVALID_ARGUMENT, SG_ERROR_ASPRINTF,
     SG_ERROR_SPRINTF, SG_ERROR_DEVICES, SG_ERROR_DEVSTAT_GETDEVS,
     SG_ERROR_DEVSTAT_SELECTDEVS, SG_ERROR_DISKINFO, SG_ERROR_ENOENT,
     SG_ERROR_GETIFADDRS, SG_ERROR_GETMNTINFO, SG_ERROR_GETPAGESIZE,
     SG_ERROR_HOST, SG_ERROR_KSTAT_DATA_LOOKUP, SG_ERROR_KSTAT_LOOKUP,
     SG_ERROR_KSTAT_OPEN, SG_ERROR_KSTAT_READ, SG_ERROR_KVM_GETSWAPINFO,
     SG_ERROR_KVM_OPENFILES, SG_ERROR_MALLOC, SG_ERROR_MEMSTATUS,
     SG_ERROR_OPEN, SG_ERROR_OPENDIR, SG_ERROR_READDIR,
     SG_ERROR_PARSE, SG_ERROR_PDHADD, SG_ERROR_PDHCOLLECT,
     SG_ERROR_PDHOPEN, SG_ERROR_PDHREAD, SG_ERROR_PERMISSION,
     SG_ERROR_PSTAT, SG_ERROR_SETEGID, SG_ERROR_SETEUID,
     SG_ERROR_SETMNTENT, SG_ERROR_SOCKET, SG_ERROR_SWAPCTL,
     SG_ERROR_SYSCONF, SG_ERROR_SYSCTL, SG_ERROR_SYSCTLBYNAME,
     SG_ERROR_SYSCTLNAMETOMIB, SG_ERROR_SYSINFO, SG_ERROR_MACHCALL,
     SG_ERROR_IOKIT, SG_ERROR_UNAME, SG_ERROR_UNSUPPORTED,
     SG_ERROR_XSW_VER_MISMATCH, SG_ERROR_GETMSG, SG_ERROR_PUTMSG,
     SG_ERROR_INITIALISATION, SG_ERROR_MUTEX_LOCK, SG_ERROR_MUTEX_UNLOCK]"

lemma sg_error_all_complete:
  "c \<in> set sg_error_all \<longleftrightarrow> (\<forall>n. c \<noteq> SG_ERROR_unlisted n)"
  by (cases c) (simp_all add: sg_error_all_def)

section \<open>The environment\<close>

text \<open>
  What an allocation request does: it fails, it succeeds at a fresh address, or (for a
  \<^verbatim>\<open>realloc\<close> of an existing block) it succeeds in place. A schedule lists the answers in the order
  of the requests; when it is used up, every further request succeeds with a fresh address.
\<close>

datatype alloc_choice = AFail | AMove | AInPlace

record sg_error_glob =
  error :: sg_error
  errno_value :: int
  error_arg :: string      \<comment> \<open>the value of the NUL-terminated buffer of \<open>ERROR_ARG_MAX\<close> bytes\<close>

record env =
  sched :: "alloc_choice list"
  junk_char :: char        \<comment> \<open>what a fresh byte holds\<close>
  errno :: int
  err :: sg_error_glob     \<comment> \<open>the record \<^verbatim>\<open>sg_get_error_glob\<close> finds for the running thread\<close>

definition ENOMEM :: int where "ENOMEM = 12"
definition EAGAIN :: int where "EAGAIN = 11"
definition EINVAL :: int where "EINVAL = 22"

definition next_choice :: "env \<Rightarrow> alloc_choice \<times> env" where
  "next_choice e = (case sched e of
      [] \<Rightarrow> (AMove, e)
    | c # cs \<Rightarrow> (c, e\<lparr>sched := cs, errno := (if c = AFail then ENOMEM else errno e)\<rparr>))"

lemma next_choice_err [frame_simps]: "err (snd (next_choice e)) = err e"
  by (simp add: next_choice_def split: list.splits)

lemma next_choice_junk [frame_simps]: "junk_char (snd (next_choice e)) = junk_char e"
  by (simp add: next_choice_def split: list.splits)

section \<open>Setting, clearing and reading the last error\<close>

definition ERROR_ARG_MAX :: nat where "ERROR_ARG_MAX = 4096"

definition pre_init_errs :: sg_error_glob where
  "pre_init_errs = \<lparr>error = SG_ERROR_NONE, errno_value = 0, error_arg = []\<rparr>"

text \<open>
  The argument is the text \<^verbatim>\<open>vsnprintf\<close> makes of the format and its arguments (\<open>None\<close> for a NULL
  format); the buffer takes all but its last byte of it.
\<close>

definition sg_set_error_int ::
  "sg_error \<Rightarrow> int \<Rightarrow> string option \<Rightarrow> env \<Rightarrow> sg_error \<times> env" where
  "sg_set_error_int code ev arg e =
     (let g = (err e)\<lparr>errno_value := ev, error := code\<rparr>;
          g = (case arg of
                 Some s \<Rightarrow> g\<lparr>error_arg := take (ERROR_ARG_MAX - 1) s\<rparr>
               | None \<Rightarrow> g\<lparr>error_arg := []\<rparr>)
      in (code, e\<lparr>err := g\<rparr>))"

definition sg_clear_error :: "env \<Rightarrow> env" where
  "sg_clear_error e =
     e\<lparr>err := (err e)\<lparr>error := SG_ERROR_NONE, errno_value := 0, error_arg := []\<rparr>\<rparr>"

definition sg_set_error_fmt :: "sg_error \<Rightarrow> string option \<Rightarrow> env \<Rightarrow> sg_error \<times> env" where
  "sg_set_error_fmt code arg e = sg_set_error_int code 0 arg e"

definition sg_set_error_with_errno_fmt :: "sg_error \<Rightarrow> string option \<Rightarrow> env \<Rightarrow> sg_error \<times> env" where
  "sg_set_error_with_errno_fmt code arg e = sg_set_error_int code (errno e) arg e"

definition sg_set_error_with_errno_code_fmt ::
  "sg_error \<Rightarrow> int \<Rightarrow> string option \<Rightarrow> env \<Rightarrow> sg_error \<times> env" where
  "sg_set_error_with_errno_code_fmt code ev arg e = sg_set_error_int code ev arg e"

text \<open>
  \<^verbatim>\<open>SET_ERROR\<close> and \<^verbatim>\<open>SET_ERROR_WITH_ERRNO\<close>: the default build's \<^verbatim>\<open>ERROR_LOG_FMT\<close> does not evaluate
  its arguments, so what is left of the macros is the call that records the error.
\<close>

definition SET_ERROR :: "sg_error \<Rightarrow> string option \<Rightarrow> env \<Rightarrow> env" where
  "SET_ERROR code arg e = snd (sg_set_error_fmt code arg e)"

definition SET_ERROR_WITH_ERRNO :: "sg_error \<Rightarrow> string option \<Rightarrow> env \<Rightarrow> env" where
  "SET_ERROR_WITH_ERRNO code arg e = snd (sg_set_error_with_errno_fmt code arg e)"

definition SET_ERROR_WITH_ERRNO_CODE :: "sg_error \<Rightarrow> int \<Rightarrow> string option \<Rightarrow> env \<Rightarrow> env" where
  "SET_ERROR_WITH_ERRNO_CODE code ev arg e = snd (sg_set_error_with_errno_code_fmt code ev arg e)"

text \<open>
  The readers get the pointer \<^verbatim>\<open>sg_get_error_glob\<close> returns, \<open>None\<close> for NULL; on the record of the
  running thread they are used as \<open>sg_get_error (Some (err e))\<close>.
\<close>

definition sg_get_error :: "sg_error_glob option \<Rightarrow> sg_error" where
  "sg_get_error g = (case g of None \<Rightarrow> SG_ERROR_MEMSTATUS | Some g \<Rightarrow> error g)"

definition sg_get_error_arg :: "sg_error_glob option \<Rightarrow> string option" where
  "sg_get_error_arg g = map_option error_arg g"

definition sg_get_error_errno :: "sg_error_glob option \<Rightarrow> int" where
  "sg_get_error_errno g = (case g of None \<Rightarrow> EAGAIN | Some g \<Rightarrow> errno_value g)"

record sg_error_details =
  det_error :: sg_error
  det_errno_value :: int
  det_error_arg :: "string option"

text \<open>The first argument says whether \<^verbatim>\<open>err_details\<close> is NULL; the details are the struct it fills.\<close>

definition sg_get_error_details ::
  "bool \<Rightarrow> sg_error_glob option \<Rightarrow> env \<Rightarrow> sg_error \<times> sg_error_details option \<times> env" where
  "sg_get_error_details isnull g e =
     (if isnull then
        (let (c, e') = sg_set_error_int SG_ERROR_INVALID_ARGUMENT 0 (Some ''sg_get_error_details'') e
         in (c, None, e'))
      else case g of
        None \<Rightarrow>
          (SG_ERROR_MEMSTATUS,
           Some \<lparr>det_error = SG_ERROR_MEMSTATUS, det_errno_value = EINVAL,
                 det_error_arg = Some ''Can't get tls buffer''\<rparr>, e)
      | Some g \<Rightarrow>
          (SG_ERROR_NONE,
           Some \<lparr>det_error = error g, det_errno_value = errno_value g,
                 det_error_arg = Some (error_arg g)\<rparr>, e))"

definition SG_STRPERROR_BUF_SIZE :: nat where "SG_STRPERROR_BUF_SIZE = 1024"

text \<open>
  \<^verbatim>\<open>sg_strperror(char **buf, const sg_error_details *err_details)\<close>. \<open>buf\<close> is \<open>None\<close> for NULL and
  otherwise holds \<^verbatim>\<open>*buf\<close> (\<open>None\<close> for NULL); the result is the returned string, the new \<open>buf\<close> and
  the environment. \<open>strerror_r\<close> is the C library's: the message of an errno, or \<open>None\<close> if it fails.
\<close>

definition sg_strperror ::
  "(int \<Rightarrow> string option) \<Rightarrow> string option option \<Rightarrow> sg_error_details option \<Rightarrow> env
     \<Rightarrow> string option \<times> string option option \<times> env" where
  "sg_strperror strerror_r buf err_details e =
     (case buf of
        Some None \<Rightarrow>
          (let (det, e) = (case err_details of
                   None \<Rightarrow> (let (c, d, e) = sg_get_error_details False (Some (err e)) e in (the d, e))
                 | Some d \<Rightarrow> (d, e));
               (c, e) = next_choice e
           in if c = AFail then
                (let (_, e) = sg_set_error_int SG_ERROR_MALLOC 0 (Some ''sg_strperror'') e
                 in (None, Some None, e))
              else if det_errno_value det \<noteq> 0 \<and> strerror_r (det_errno_value det) = None then
                (let (_, e) = sg_set_error_int SG_ERROR_MALLOC (errno e) (Some ''strerror_r'') e
                 in (None, Some None, e))
              else
                (let errno_msg = (if det_errno_value det \<noteq> 0
                                  then the (strerror_r (det_errno_value det)) @ '': '' else []);
                     arg = (case det_error_arg det of None \<Rightarrow> [] | Some a \<Rightarrow> a);
                     msg = take (SG_STRPERROR_BUF_SIZE - 1)
                             (sg_str_error (det_error det) @ '' ('' @ errno_msg @ arg @ '')'')
                 in (Some msg, Some (Some msg), e)))
      | _ \<Rightarrow>
          (let (_, e) = sg_set_error_int SG_ERROR_INVALID_ARGUMENT 0 (Some ''strperror'') e
           in (None, buf, e)))"

section \<open>Lemmas\<close>

lemma sg_set_error_int_code [simp]: "fst (sg_set_error_int code ev arg e) = code"
  by (simp add: sg_set_error_int_def Let_def)

lemma error_sg_set_error_int [simp]: "error (err (snd (sg_set_error_int code ev arg e))) = code"
  by (simp add: sg_set_error_int_def Let_def split: option.splits)

lemma sched_sg_set_error_int [frame_simps]: "sched (snd (sg_set_error_int code ev arg e)) = sched e"
  by (simp add: sg_set_error_int_def Let_def)

lemma junk_sg_set_error_int [frame_simps]:
  "junk_char (snd (sg_set_error_int code ev arg e)) = junk_char e"
  by (simp add: sg_set_error_int_def Let_def)

lemmas set_error_defs =
  SET_ERROR_def SET_ERROR_WITH_ERRNO_def SET_ERROR_WITH_ERRNO_CODE_def
  sg_set_error_fmt_def sg_set_error_with_errno_fmt_def sg_set_error_with_errno_code_fmt_def

lemma error_SET_ERROR [simp]:
  "error (err (SET_ERROR code arg e)) = code"
  "error (err (SET_ERROR_WITH_ERRNO code arg e)) = code"
  "error (err (SET_ERROR_WITH_ERRNO_CODE code ev arg e)) = code"
  by (simp_all add: set_error_defs)

lemma frame_SET_ERROR [frame_simps]:
  "sched (SET_ERROR code arg e) = sched e"
  "sched (SET_ERROR_WITH_ERRNO code arg e) = sched e"
  "junk_char (SET_ERROR code arg e) = junk_char e"
  "junk_char (SET_ERROR_WITH_ERRNO code arg e) = junk_char e"
  by (simp_all add: set_error_defs frame_simps)

lemma sg_get_error_Some [simp]: "sg_get_error (Some g) = error g"
  by (simp add: sg_get_error_def)

lemma error_sg_clear_error [simp]: "error (err (sg_clear_error e)) = SG_ERROR_NONE"
  by (simp add: sg_clear_error_def)

lemma frame_sg_clear_error [frame_simps]:
  "sched (sg_clear_error e) = sched e" "junk_char (sg_clear_error e) = junk_char e"
  by (simp_all add: sg_clear_error_def)

text \<open>The table that inverts \<open>sg_str_error\<close>.\<close>

definition sg_error_of_str :: "string \<rightharpoonup> sg_error" where
  "sg_error_of_str = map_of (map (\<lambda>c. (sg_str_error c, c)) sg_error_all)"

lemma distinct_messages: "distinct (map sg_str_error sg_error_all)"
  by (simp add: sg_error_all_def)

lemma sg_str_error_known: "c \<in> set sg_error_all \<Longrightarrow> sg_str_error c \<noteq> ''unknown error''"
  by (cases c) (simp_all add: sg_error_all_def)

end
