(* ===== verification/Cstring.thy ===== *)
theory Cstring
  imports Prelude
begin

text \<open>
  The C library replacements of \<^verbatim>\<open>src/libstatgrab/tools.c\<close> (\<^verbatim>\<open>strlcpy\<close>, \<^verbatim>\<open>strlcat\<close>, \<^verbatim>\<open>sg_strnlen\<close>,
  \<^verbatim>\<open>atoll\<close>) as loops over byte buffers. A buffer is the list of all bytes of the object; reading
  or writing past its end is an \<open>OutOfBounds\<close> fault. The lemmas say what the loops compute on
  NUL-terminated input.
\<close>

section \<open>strlcpy\<close>

text \<open>\<^verbatim>\<open>while (--n) { if ((*d++ = *s++) == '\0') break; }\<close>; both pointers are at index \<open>k\<close>.\<close>

fun strlcpy_loop ::
  "char list \<Rightarrow> char list \<Rightarrow> nat \<Rightarrow> nat \<Rightarrow> (char list \<times> nat \<times> nat) outcome" where
  "strlcpy_loop dst src k 0 = Done (dst, k, 0)"
| "strlcpy_loop dst src k (Suc n) =
     (if n = 0 then Done (dst, k, 0)
      else if length src \<le> k \<or> length dst \<le> k then Fault (OutOfBounds 0 k)
      else if src ! k = NUL then Done (dst[k := NUL], Suc k, n)
      else strlcpy_loop (dst[k := src ! k]) src (Suc k) n)"

text \<open>\<^verbatim>\<open>while (*s++);\<close>: the index after the NUL.\<close>

fun scan_nul :: "char list \<Rightarrow> nat \<Rightarrow> nat outcome" where
  "scan_nul [] k = Fault (OutOfBounds 0 k)"
| "scan_nul (c # cs) k = (if c = NUL then Done (Suc k) else scan_nul cs (Suc k))"

definition strlcpy :: "char list \<Rightarrow> char list \<Rightarrow> nat \<Rightarrow> (char list \<times> nat) outcome" where
  "strlcpy dst src siz =
     andthen (if siz \<noteq> 0 then strlcpy_loop dst src 0 siz else Done (dst, 0, 0)) (\<lambda>(dst, k, n).
       if n = 0 then
         andthen (if siz \<noteq> 0
                  then (if k < length dst then Done (dst[k := NUL]) else Fault (OutOfBounds 0 k))
                  else Done dst) (\<lambda>dst.
         andthen (scan_nul (drop k src) k) (\<lambda>s. Done (dst, s - 1)))
       else Done (dst, k - 1))"

section \<open>strlcat\<close>

text \<open>\<^verbatim>\<open>while (n-- && *d != '\0') d++;\<close>\<close>

fun strlcat_end :: "char list \<Rightarrow> nat \<Rightarrow> nat \<Rightarrow> nat outcome" where
  "strlcat_end dst d 0 = Done d"
| "strlcat_end dst d (Suc n) =
     (if length dst \<le> d then Fault (OutOfBounds 0 d)
      else if dst ! d = NUL then Done d else strlcat_end dst (Suc d) n)"

text \<open>\<^verbatim>\<open>while (*s != '\0') { if (n != 1) { *d++ = *s; n--; } s++; }\<close>; the source is consumed.\<close>

fun strlcat_loop ::
  "char list \<Rightarrow> nat \<Rightarrow> nat \<Rightarrow> char list \<Rightarrow> nat \<Rightarrow> (char list \<times> nat \<times> nat) outcome" where
  "strlcat_loop dst d n [] i = Fault (OutOfBounds 0 i)"
| "strlcat_loop dst d n (c # cs) i =
     (if c = NUL then Done (dst, d, i)
      else if n \<noteq> 1 then
        (if d < length dst then strlcat_loop (dst[d := c]) (Suc d) (n - 1) cs (Suc i)
         else Fault (OutOfBounds 0 d))
      else strlcat_loop dst d n cs (Suc i))"

definition strlcat :: "char list \<Rightarrow> char list \<Rightarrow> nat \<Rightarrow> (char list \<times> nat) outcome" where
  "strlcat dst src siz =
     andthen (strlcat_end dst 0 siz) (\<lambda>dlen.
       if siz - dlen = 0 then
         andthen (scan_nul src 0) (\<lambda>s. Done (dst, dlen + (s - 1)))
       else
         andthen (strlcat_loop dst dlen (siz - dlen) src 0) (\<lambda>(dst, d, i).
           if d < length dst then Done (dst[d := NUL], dlen + i) else Fault (OutOfBounds 0 d)))"

section \<open>sg_strnlen\<close>

fun sg_strnlen_loop :: "char list \<Rightarrow> nat \<Rightarrow> nat \<Rightarrow> nat outcome" where
  "sg_strnlen_loop [] maxlen n = Fault (OutOfBounds 0 n)"
| "sg_strnlen_loop (c # cs) maxlen n =
     (if c = NUL then Done n
      else if maxlen = n then Done n
      else sg_strnlen_loop cs maxlen (Suc n))"

definition sg_strnlen :: "char list \<Rightarrow> nat \<Rightarrow> nat outcome" where
  "sg_strnlen s maxlen = (if maxlen = 0 then Done maxlen else sg_strnlen_loop s maxlen 0)"

text \<open>POSIX \<^verbatim>\<open>strnlen\<close>, which reads at most \<open>maxlen\<close> bytes.\<close>

definition strnlen :: "char list \<Rightarrow> nat \<Rightarrow> nat outcome" where
  "strnlen s maxlen =
     (if length s < maxlen \<and> NUL \<notin> set s then Fault (OutOfBounds 0 (length s))
      else Done (length (strval (take maxlen s))))"

section \<open>atoll\<close>

definition is_space :: "char \<Rightarrow> bool" where
  "is_space c = (c \<in> set [CHR '' '', CHR 0x09, CHR 0x0A, CHR 0x0B, CHR 0x0C, CHR 0x0D])"

definition is_digit :: "char \<Rightarrow> bool" where
  "is_digit c = (48 \<le> (of_char c :: nat) \<and> (of_char c :: nat) \<le> 57)"

definition digit_val :: "char \<Rightarrow> int" where
  "digit_val c = int (of_char c) - 48"

text \<open>\<^verbatim>\<open>while (*s >= '0' && *s <= '9') value = (10 * value) + (*s - '0')\<close> on a 64-bit signed value.\<close>

fun atoll_digits :: "int \<Rightarrow> string \<Rightarrow> int outcome" where
  "atoll_digits v [] = Done v"
| "atoll_digits v (c # cs) =
     (if is_digit c then
        (let v' = 10 * v + digit_val c in
         if v' < 2 ^ 63 then atoll_digits v' cs else Fault SignedOverflow)
      else Done v)"

definition atoll :: "string \<Rightarrow> int outcome" where
  "atoll s =
     (let s = dropWhile is_space s;
          isneg = (s \<noteq> [] \<and> hd s = CHR ''-'');
          s = (if isneg then tl s else s)
      in andthen (atoll_digits 0 s) (\<lambda>v. Done (if isneg then - v else v)))"

section \<open>What the loops compute\<close>

lemma scan_nul_eq: "nul_free s \<Longrightarrow> scan_nul (s @ NUL # r) k = Done (Suc (k + length s))"
  by (induction s arbitrary: k) (auto simp: nul_free_def)

lemma scan_nul_unterminated: "nul_free s \<Longrightarrow> scan_nul s k = Fault (OutOfBounds 0 (k + length s))"
  by (induction s arbitrary: k) (auto simp: nul_free_def)

lemma strlcpy_loop_full:
  assumes "length p = length q" "nul_free s" "m \<le> length s" "m \<le> length d"
  shows "strlcpy_loop (p @ d) (q @ s @ t) (length p) (Suc m) =
     Done (p @ take m s @ drop m d, length p + m, 0)"
  using assms
proof (induction s arbitrary: p q d m)
  case (Cons c s)
  show ?case
  proof (cases m)
    case (Suc m')
    with Cons.prems obtain x d' where d: "d = x # d'" by (cases d) auto
    have "strlcpy_loop ((p @ [c]) @ d') ((q @ [c]) @ s @ t) (length (p @ [c])) (Suc m') =
      Done ((p @ [c]) @ take m' s @ drop m' d', length (p @ [c]) + m', 0)"
      by (rule Cons.IH) (use Cons.prems Suc d in auto)
    with Cons.prems Suc d show ?thesis
      by (simp add: nth_append list_update_append)
  qed simp
qed simp

lemma strlcpy_loop_fits:
  assumes "length p = length q" "nul_free s" "length s < m" "length s < length d"
  shows "strlcpy_loop (p @ d) (q @ s @ NUL # r) (length p) (Suc m) =
     Done (p @ s @ NUL # drop (Suc (length s)) d, Suc (length p + length s), m - length s)"
  using assms
proof (induction s arbitrary: p q d m)
  case Nil
  then show ?case
    by (cases d) (auto simp: nth_append list_update_append)
next
  case (Cons c s)
  then obtain x d' m' where d: "d = x # d'" and m: "m = Suc m'"
    by (cases d; cases m) auto
  have "strlcpy_loop ((p @ [c]) @ d') ((q @ [c]) @ s @ NUL # r) (length (p @ [c])) (Suc m') =
      Done ((p @ [c]) @ s @ NUL # drop (Suc (length s)) d',
            Suc (length (p @ [c]) + length s), m' - length s)"
    by (rule Cons.IH) (use Cons.prems m d in auto)
  with Cons.prems m d show ?case
    by (simp add: nth_append list_update_append)
qed

text \<open>
  \<^verbatim>\<open>strlcpy\<close> on a terminated source: what fits before the last byte is copied, the result is
  terminated, nothing past it is touched, and the length of the whole source is returned.
\<close>

lemma nul_free_drop: "nul_free s \<Longrightarrow> nul_free (drop n s)"
  by (auto simp: nul_free_def list_all_iff dest: in_set_dropD)

lemma strlcpy_eq:
  assumes "nul_free s" "0 < siz" "siz \<le> length dst"
  shows "strlcpy dst (s @ NUL # r) siz =
     Done (take (siz - 1) s @ NUL # drop (Suc (min (siz - 1) (length s))) dst, length s)"
proof -
  obtain m where m: "siz = Suc m" using assms(2) by (cases siz) auto
  show ?thesis
  proof (cases "m \<le> length s")
    case True
    have loop: "strlcpy_loop dst (s @ NUL # r) 0 (Suc m) = Done (take m s @ drop m dst, m, 0)"
      using strlcpy_loop_full [of "[]" "[]" s m dst "NUL # r"] assms m True by simp
    have upd: "(take m s @ drop m dst)[m := NUL] = take m s @ NUL # drop (Suc m) dst"
      using True assms m by (simp add: upd_conv_take_nth_drop)
    have "scan_nul (drop m s @ NUL # r) m = Done (Suc (length s))"
      using scan_nul_eq [OF nul_free_drop [OF assms(1)], of m r m] True by simp
    with True upd assms m loop show ?thesis
      by (simp add: strlcpy_def min_absorb1)
  next
    case False
    then have "strlcpy_loop dst (s @ NUL # r) 0 (Suc m) =
        Done (s @ NUL # drop (Suc (length s)) dst, Suc (length s), m - length s)"
      using strlcpy_loop_fits [of "[]" "[]" s m dst r] assms m by simp
    with False assms m show ?thesis by (simp add: strlcpy_def min_absorb2)
  qed
qed

lemma strlcpy_unterminated:
  assumes "nul_free s" "0 < siz" "siz \<le> Suc (length s)" "siz \<le> length dst"
  shows "strlcpy dst s siz = Fault (OutOfBounds 0 (length s))"
proof -
  obtain m where m: "siz = Suc m" using assms(2) by (cases siz) auto
  have "strlcpy_loop dst s 0 (Suc m) = Done (take m s @ drop m dst, m, 0)"
    using strlcpy_loop_full [of "[]" "[]" s m dst "[]"] assms m by simp
  moreover have "scan_nul (drop m s) m = Fault (OutOfBounds 0 (length s))"
    using scan_nul_unterminated [OF nul_free_drop [OF assms(1)], of m m] assms m by simp
  ultimately show ?thesis using assms m by (simp add: strlcpy_def)
qed

text \<open>\<^verbatim>\<open>strlcat\<close> on two terminated strings.\<close>

lemma strlcat_end_eq:
  assumes "nul_free a" "length a < n"
  shows "strlcat_end (p @ a @ NUL # r) (length p) n = Done (length p + length a)"
  using assms
proof (induction a arbitrary: p n)
  case Nil
  then show ?case by (cases n) auto
next
  case (Cons c a)
  then obtain n' where n: "n = Suc n'" by (cases n) auto
  have "strlcat_end ((p @ [c]) @ a @ NUL # r) (length (p @ [c])) n' = Done (length (p @ [c]) + length a)"
    by (rule Cons.IH) (use Cons.prems n in auto)
  with Cons.prems n show ?case by (simp add: nth_append)
qed

lemma strlcat_end_full:
  assumes "nul_free a" "n \<le> length a"
  shows "strlcat_end (p @ a @ t) (length p) n = Done (length p + n)"
  using assms
proof (induction a arbitrary: p n)
  case (Cons c a)
  show ?case
  proof (cases n)
    case (Suc n')
    have "strlcat_end ((p @ [c]) @ a @ t) (length (p @ [c])) n' = Done (length (p @ [c]) + n')"
      by (rule Cons.IH) (use Cons.prems Suc in auto)
    with Cons.prems Suc show ?thesis by (simp add: nth_append)
  qed simp
qed simp

lemma strlcat_loop_eq:
  assumes "nul_free s" "0 < n" "n \<le> length d"
  shows "strlcat_loop (p @ d) (length p) n (s @ NUL # r) i =
     Done (p @ take (n - 1) s @ drop (min (n - 1) (length s)) d,
           length p + min (n - 1) (length s), i + length s)"
  using assms
proof (induction s arbitrary: p d n i)
  case (Cons c s)
  show ?case
  proof (cases "n = 1")
    case True
    then show ?thesis using Cons.IH [of 1 d p "Suc i"] Cons.prems by simp
  next
    case False
    with Cons.prems obtain x d' n' where d: "d = x # d'" and n: "n = Suc n'" "0 < n'"
      by (cases d; cases n) auto
    have "strlcat_loop ((p @ [c]) @ d') (length (p @ [c])) n' (s @ NUL # r) (Suc i) =
        Done ((p @ [c]) @ take (n' - 1) s @ drop (min (n' - 1) (length s)) d',
              length (p @ [c]) + min (n' - 1) (length s), Suc i + length s)"
      by (rule Cons.IH) (use Cons.prems n d in auto)
    moreover obtain n'' where "n' = Suc n''" using n(2) by (cases n') auto
    ultimately show ?thesis
      using Cons.prems n d by (simp add: list_update_append)
  qed
qed simp

lemma strlcat_eq:
  assumes "nul_free a" "nul_free s" "length a < siz" "siz \<le> length (a @ NUL # rest)"
  shows "strlcat (a @ NUL # rest) (s @ NUL # r) siz =
     Done (a @ take (siz - length a - 1) s @
             NUL # drop (Suc (min (siz - length a - 1) (length s))) (NUL # rest),
           length a + length s)"
proof -
  let ?k = "min (siz - length a - 1) (length s)"
  have "strlcat_loop (a @ NUL # rest) (length a) (siz - length a) (s @ NUL # r) 0 =
     Done (a @ take (siz - length a - 1) s @ drop ?k (NUL # rest), length a + ?k, length s)"
    using strlcat_loop_eq [of s "siz - length a" "NUL # rest" a r 0] assms by simp
  moreover have "strlcat_end (a @ NUL # rest) 0 siz = Done (length a)"
    using strlcat_end_eq [of a siz "[]" rest] assms by simp
  moreover have "(a @ take (siz - length a - 1) s @ drop ?k (NUL # rest))[length a + ?k := NUL]
      = a @ take (siz - length a - 1) s @ NUL # drop (Suc ?k) (NUL # rest)"
  proof -
    have "drop ?k (NUL # rest) = (NUL # rest) ! ?k # drop (Suc ?k) (NUL # rest)"
      by (rule Cons_nth_drop_Suc [symmetric]) (use assms in simp)
    then show ?thesis
      using list_update_append_length [of "a @ take (siz - length a - 1) s"]
      by (simp add: min.commute)
  qed
  ultimately show ?thesis using assms by (simp add: strlcat_def)
qed

text \<open>On a destination with no NUL in its first \<open>siz\<close> bytes nothing is appended.\<close>

lemma strlcat_unterminated_dst:
  assumes "nul_free s" "nul_free (take siz dst)" "siz \<le> length dst"
  shows "strlcat dst (s @ NUL # r) siz = Done (dst, siz + length s)"
proof -
  have "strlcat_end dst 0 siz = Done siz"
    using strlcat_end_full [of "take siz dst" siz "[]" "drop siz dst"] assms by simp
  then show ?thesis using scan_nul_eq [OF assms(1), of r 0] by (simp add: strlcat_def)
qed

text \<open>\<^verbatim>\<open>sg_strnlen\<close> agrees with \<^verbatim>\<open>strnlen\<close> on a terminated string.\<close>

lemma sg_strnlen_loop_eq:
  "nul_free s \<Longrightarrow> n \<le> maxlen \<Longrightarrow>
   sg_strnlen_loop (s @ NUL # r) maxlen n = Done (min maxlen (n + length s))"
proof (induction s arbitrary: n)
  case (Cons c s)
  then show ?case using Cons.IH [of "Suc n"] by (cases "maxlen = n") auto
qed auto

lemma strnlen_eq: "nul_free s \<Longrightarrow> strnlen (s @ NUL # r) maxlen = Done (min maxlen (length s))"
proof -
  assume s: "nul_free s"
  have "strval (take maxlen (s @ NUL # r)) = take maxlen s"
  proof (cases "maxlen \<le> length s")
    case True
    then show ?thesis using s by (simp add: strval_id nul_free_take)
  next
    case False
    then obtain k where "maxlen = length s + Suc k" by (metis less_natE linorder_not_le add_Suc_right)
    then show ?thesis using s by simp
  qed
  then show ?thesis by (simp add: strnlen_def min.commute)
qed

lemma sg_strnlen_overread:
  assumes "nul_free s" "s \<noteq> []"
  shows "sg_strnlen s (length s) = Fault (OutOfBounds 0 (length s))"
proof -
  have "nul_free s \<Longrightarrow> n + length s = m \<Longrightarrow> sg_strnlen_loop s m n = Fault (OutOfBounds 0 m)" for n m
    by (induction s arbitrary: n) auto
  from this [of 0 "length s"] assms show ?thesis by (simp add: sg_strnlen_def)
qed

end
