(* ===== verification/Tools.thy ===== *)
theory Tools
  imports Errors Cstring
begin

text \<open>
  The tools of \<^verbatim>\<open>src/libstatgrab/tools.c\<close> and \<^verbatim>\<open>tools.h\<close> on the shared environment: \<^verbatim>\<open>sg_realloc\<close>, the
  string updaters every item type uses for its fields, line reading, the Solaris device map,
  dropping of privileges, and the bit arrays of \<^verbatim>\<open>sg_vector_compute_diff\<close> (as an interface with the
  32-bit implementation as its instance).
\<close>

unbundle bit_operations_syntax

section \<open>Allocated bytes\<close>

text \<open>
  A \<^verbatim>\<open>char *\<close> field that owns its memory: NULL, a block with all its bytes, or a block that has
  been freed while the pointer still refers to it.
\<close>

datatype cstr = CNull | CStr "char list" | CFreed

definition c_free :: "cstr \<Rightarrow> unit outcome" where
  "c_free p = (if p = CFreed then Fault DanglingString else Done ())"

text \<open>
  \<^verbatim>\<open>sg_realloc\<close> for a non-zero size: the allocator's answer, with the error recorded when it says no.
  The typed callers apply the answer to their own memory.
\<close>

definition sg_realloc_choice :: "size_t \<Rightarrow> env \<Rightarrow> alloc_choice \<times> env" where
  "sg_realloc_choice sz e =
     (let (c, e) = next_choice e in
      if c = AFail then
        (AFail, SET_ERROR_WITH_ERRNO SG_ERROR_MALLOC
                  (Some (''sg_realloc: couldn't realloc(to '' @ dec_string (unat sz) @ '' bytes)'')) e)
      else (c, e))"

definition resize_bytes :: "char \<Rightarrow> nat \<Rightarrow> char list \<Rightarrow> char list" where
  "resize_bytes junk n bs = take n bs @ replicate (n - length bs) junk"

definition sg_realloc :: "cstr \<Rightarrow> size_t \<Rightarrow> env \<Rightarrow> (cstr \<times> env) outcome" where
  "sg_realloc ptr sz e =
     (if sz = 0 then andthen (c_free ptr) (\<lambda>_. Done (CNull, e))
      else if ptr = CFreed then Fault DanglingString
      else
        (let (c, e) = sg_realloc_choice sz e;
             old = (case ptr of CStr bs \<Rightarrow> bs | _ \<Rightarrow> [])
         in Done (if c = AFail then CNull else CStr (resize_bytes (junk_char e) (unat sz) old), e)))"

section \<open>String updates\<close>

text \<open>
  \<^verbatim>\<open>sg_update_string(char **dest, const char *src)\<close>: the code, the new \<^verbatim>\<open>*dest\<close> and the environment.
  \<^verbatim>\<open>src\<close> is \<open>CNull\<close> or the bytes it points to.
\<close>

definition src_bytes :: "cstr \<Rightarrow> char list outcome" where
  "src_bytes p = (case p of CNull \<Rightarrow> Fault NullDeref | CStr bs \<Rightarrow> Done bs | CFreed \<Rightarrow> Fault DanglingString)"

definition strlen :: "cstr \<Rightarrow> nat outcome" where
  "strlen p = andthen (src_bytes p) (\<lambda>bs. andthen (scan_nul bs 0) (\<lambda>k. Done (k - 1)))"

definition sg_update_string :: "cstr \<Rightarrow> cstr \<Rightarrow> env \<Rightarrow> (sg_error \<times> cstr \<times> env) outcome" where
  "sg_update_string dest src e =
     (if src = CNull then andthen (c_free dest) (\<lambda>_. Done (SG_ERROR_NONE, CNull, e))
      else
        andthen (strlen src) (\<lambda>n.
        andthen (sg_realloc dest (word_of_nat (n + 1)) e) (\<lambda>(new, e).
          case new of
            CStr buf \<Rightarrow>
              andthen (src_bytes src) (\<lambda>s.
              andthen (strlcpy buf s (unat (word_of_nat (n + 1) :: size_t))) (\<lambda>(buf, _).
                Done (SG_ERROR_NONE, CStr buf, e)))
          | _ \<Rightarrow> Done (sg_get_error (Some (err e)), dest, e))))"

definition sg_lupdate_string ::
  "cstr \<Rightarrow> cstr \<Rightarrow> nat \<Rightarrow> env \<Rightarrow> (sg_error \<times> cstr \<times> env) outcome" where
  "sg_lupdate_string dest src maxlen e =
     (if src = CNull then andthen (c_free dest) (\<lambda>_. Done (SG_ERROR_NONE, CNull, e))
      else
        andthen (src_bytes src) (\<lambda>s.
        andthen (strnlen s maxlen) (\<lambda>n.
        andthen (sg_realloc dest (word_of_nat (n + 1)) e) (\<lambda>(new, e).
          case new of
            CStr buf \<Rightarrow>
              andthen (strlcpy buf s (unat (word_of_nat (n + 1) :: size_t))) (\<lambda>(buf, _).
                Done (SG_ERROR_NONE, CStr buf, e))
          | _ \<Rightarrow> Done (sg_get_error (Some (err e)), dest, e)))))"

definition sg_update_mem ::
  "cstr \<Rightarrow> cstr \<Rightarrow> size_t \<Rightarrow> env \<Rightarrow> (sg_error \<times> cstr \<times> env) outcome" where
  "sg_update_mem dest src len e =
     (if src = CNull then andthen (c_free dest) (\<lambda>_. Done (SG_ERROR_NONE, CNull, e))
      else
        andthen (sg_realloc dest len e) (\<lambda>(new, e).
          case new of
            CStr buf \<Rightarrow>
              andthen (src_bytes src) (\<lambda>s.
                if length s < unat len then Fault (OutOfBounds 0 (length s))
                else Done (SG_ERROR_NONE, CStr (take (unat len) s @ drop (unat len) buf), e))
          | _ \<Rightarrow> Done (sg_get_error (Some (err e)), dest, e)))"

text \<open>\<^verbatim>\<open>sg_concat_string\<close>; \<open>None\<close> for a NULL \<^verbatim>\<open>dest\<close>.\<close>

definition sg_concat_string ::
  "cstr option \<Rightarrow> cstr \<Rightarrow> env \<Rightarrow> (sg_error \<times> cstr option \<times> env) outcome" where
  "sg_concat_string dest src e =
     (case dest of
        None \<Rightarrow> Done (SG_ERROR_INVALID_ARGUMENT, None, SET_ERROR SG_ERROR_INVALID_ARGUMENT (Some ''dest'') e)
      | Some d \<Rightarrow>
          andthen (if d = CNull then Done 0 else strlen d) (\<lambda>dl.
          andthen (if src = CNull then Done 0 else strlen src) (\<lambda>sl.
          andthen (sg_realloc d (word_of_nat (dl + sl + 1)) e) (\<lambda>(new, e).
            case new of
              CStr buf \<Rightarrow>
                andthen (src_bytes src) (\<lambda>s.
                andthen (strlcat buf s (unat (word_of_nat (dl + sl + 1) :: size_t))) (\<lambda>(buf, _).
                  Done (SG_ERROR_NONE, Some (CStr buf), e)))
            | _ \<Rightarrow> Done (sg_get_error (Some (err e)), Some d, e)))))"

section \<open>Files and matches\<close>

text \<open>
  An open file: the bytes still to be read, and whether the read after them fails (then
  \<^verbatim>\<open>feof\<close> stays false when \<^verbatim>\<open>fgets\<close> returns NULL).
\<close>

record cfile =
  fbytes :: string
  fbad :: bool

fun fgets_take :: "nat \<Rightarrow> string \<Rightarrow> string \<times> string" where
  "fgets_take 0 s = ([], s)"
| "fgets_take (Suc n) [] = ([], [])"
| "fgets_take (Suc n) (c # s) =
     (if c = CHR 0x0A then ([c], s) else (let (l, r) = fgets_take n s in (c # l, r)))"

definition fgets :: "nat \<Rightarrow> cfile \<Rightarrow> (string \<times> cfile) option" where
  "fgets bufsize f =
     (if fbytes f = [] then None
      else let (l, r) = fgets_take (bufsize - 1) (fbytes f) in Some (l, f\<lparr>fbytes := r\<rparr>))"

lemma fgets_take_append: "fgets_take n s = (l, r) \<Longrightarrow> s = l @ r"
  by (induction n s arbitrary: l r rule: fgets_take.induct) (auto split: if_splits prod.splits)

lemma fgets_take_progress: "s \<noteq> [] \<Longrightarrow> 0 < n \<Longrightarrow> fst (fgets_take n s) \<noteq> []"
  by (cases n; cases s) (auto split: prod.splits)

lemma fgets_decreases:
  "fgets n f = Some (l, f') \<Longrightarrow> 1 < n \<Longrightarrow> length (fbytes f') < length (fbytes f)"
proof -
  assume a: "fgets n f = Some (l, f')" and n: "1 < n"
  obtain l' r where lr: "fgets_take (n - 1) (fbytes f) = (l', r)" by fastforce
  with a have ne: "fbytes f \<noteq> []" and f': "fbytes f' = r"
    by (auto simp: fgets_def split: if_splits)
  from lr have "fbytes f = l' @ r" by (rule fgets_take_append)
  moreover have "l' \<noteq> []" using fgets_take_progress [OF ne, of "n - 1"] n lr by simp
  ultimately show ?thesis using f' by (cases l') auto
qed

text \<open>
  \<^verbatim>\<open>sg_f_read_line\<close>: the next line (of at most \<open>bufsize - 1\<close> bytes) that starts with the string; a
  NULL string matches no line. With a buffer of one byte \<^verbatim>\<open>fgets\<close> would read nothing forever (the
  callers pass arrays of 256 bytes and more).
\<close>

function sg_f_read_line ::
  "nat \<Rightarrow> string option \<Rightarrow> cfile \<Rightarrow> env \<Rightarrow> (string option \<times> cfile \<times> env) outcome" where
  "sg_f_read_line bufsize str f e =
     (if bufsize \<le> 1 then Fault NonTermination
      else case fgets bufsize f of
        None \<Rightarrow>
          Done (None, f,
           if fbad f then
             SET_ERROR_WITH_ERRNO SG_ERROR_PARSE
               (Some (''sg_f_read_line(string = '' @
                      (case str of None \<Rightarrow> ''<NULL>'' | Some s \<Rightarrow> s) @ '')'')) e
           else e)
      | Some (line, f') \<Rightarrow>
          (case str of
             Some s \<Rightarrow> if has_prefix s line then Done (Some line, f', e) else sg_f_read_line bufsize str f' e
           | None \<Rightarrow> sg_f_read_line bufsize str f' e))"
  by pat_completeness auto
termination
  by (relation "measure (\<lambda>(n, s, f, e). length (fbytes f))") (auto dest: fgets_decreases)

declare sg_f_read_line.simps [simp del]

record regmatch =
  rm_so :: nat
  rm_eo :: nat

definition sg_get_string_match :: "string \<Rightarrow> regmatch \<Rightarrow> env \<Rightarrow> string option \<times> env" where
  "sg_get_string_match line m e =
     (let (c, e) = next_choice e in
      if c = AFail then
        (None, SET_ERROR_WITH_ERRNO SG_ERROR_MALLOC (Some ''sg_get_string_match: couldn't strndup()'') e)
      else (Some (take (rm_eo m - rm_so m) (drop (rm_so m) line)), e))"

definition sg_get_ll_match :: "string \<Rightarrow> regmatch \<Rightarrow> int outcome" where
  "sg_get_ll_match line m = atoll (drop (rm_so m) line)"

section \<open>The Solaris device map\<close>

text \<open>The linked list of \<^verbatim>\<open>mapping_t\<close>, from its head.\<close>

type_synonym device_map = "(cstr \<times> cstr) list"

fun sg_get_svr_from_bsd :: "device_map \<Rightarrow> string \<Rightarrow> string outcome" where
  "sg_get_svr_from_bsd [] bsd = Done bsd"
| "sg_get_svr_from_bsd ((b, s) # ms) bsd =
     andthen (src_bytes b) (\<lambda>bb.
       if strval bb = bsd then andthen (src_bytes s) (\<lambda>ss. Done (strval ss))
       else sg_get_svr_from_bsd ms bsd)"

fun map_known :: "device_map \<Rightarrow> string \<Rightarrow> string \<Rightarrow> bool outcome" where
  "map_known [] bsd svr = Done False"
| "map_known ((b, s) # ms) bsd svr =
     andthen (src_bytes b) (\<lambda>bb.
       if strcmp (strval bb) bsd = 0 then Done True
       else andthen (src_bytes s) (\<lambda>ss.
         if strcmp (strval ss) svr = 0 then Done True else map_known ms bsd svr))"

text \<open>The size of a \<^verbatim>\<open>mapping_t\<close>: three pointers.\<close>

definition sizeof_mapping_t :: size_t where "sizeof_mapping_t = 24"

definition add_mapping ::
  "device_map \<Rightarrow> string \<Rightarrow> string \<Rightarrow> env \<Rightarrow> (device_map \<times> env) outcome" where
  "add_mapping ms bsd svr e =
     andthen (map_known ms bsd svr) (\<lambda>known.
       if known then Done (ms, e)
       else
         (let (c, e) = sg_realloc_choice sizeof_mapping_t e in
          if c = AFail then Done (ms, e)
          else
            andthen (sg_update_string CNull (CStr (bsd @ [NUL])) e) (\<lambda>(rc, b, e).
              if rc \<noteq> SG_ERROR_NONE then Done (ms @ [(b, CNull)], e)
              else andthen (sg_update_string CNull (CStr (svr @ [NUL])) e) (\<lambda>(rc, s, e).
                Done (ms @ [(b, s)], e)))))"

section \<open>Privileges and file locks\<close>

text \<open>
  \<^verbatim>\<open>sg_drop_privileges\<close> where \<^verbatim>\<open>setegid\<close> and \<^verbatim>\<open>seteuid\<close> exist. The two system calls take the id to set
  and the process credentials and answer success and the new credentials.
\<close>

record creds =
  c_uid :: nat
  c_euid :: nat
  c_gid :: nat
  c_egid :: nat

definition sg_drop_privileges ::
  "(nat \<Rightarrow> creds \<Rightarrow> bool \<times> creds) \<Rightarrow> (nat \<Rightarrow> creds \<Rightarrow> bool \<times> creds) \<Rightarrow> creds \<Rightarrow> env
     \<Rightarrow> sg_error \<times> creds \<times> env" where
  "sg_drop_privileges setegid seteuid c e =
     (let (ok, c) = setegid (c_gid c) c in
      if \<not> ok then (SG_ERROR_SETEGID, c, SET_ERROR_WITH_ERRNO SG_ERROR_SETEGID None e)
      else
        (let (ok, c) = seteuid (c_uid c) c in
         if \<not> ok then (SG_ERROR_SETEUID, c, SET_ERROR_WITH_ERRNO SG_ERROR_SETEUID None e)
         else (SG_ERROR_NONE, c, e)))"

datatype flock_type = F_RDLCK | F_WRLCK | F_UNLCK
datatype flock_cmd = F_SETLK | F_SETLKW

text \<open>The replacement of \<^verbatim>\<open>flock\<close>: the \<^verbatim>\<open>fcntl\<close> request it makes, or \<open>None\<close> with \<^verbatim>\<open>EINVAL\<close>.\<close>

definition flock_request :: "u32 \<Rightarrow> (flock_cmd \<times> flock_type) option" where
  "flock_request op =
     (let try_lock = (op AND 8 \<noteq> 0);
          op = op AND NOT 8;
          cmd = (if try_lock then F_SETLK else F_SETLKW)
      in if op = 1 then Some (cmd, F_RDLCK)
         else if op = 2 then Some (cmd, F_WRLCK)
         else if op = 3 then Some (cmd, F_UNLCK)
         else None)"

section \<open>Bit arrays\<close>

definition BITS_PER_ITEM :: nat where "BITS_PER_ITEM = 32"

definition BIT_SET :: "u32 list \<Rightarrow> nat \<Rightarrow> u32 list" where
  "BIT_SET v b =
     v[b div BITS_PER_ITEM := v ! (b div BITS_PER_ITEM) OR push_bit (b mod BITS_PER_ITEM) 1]"

definition BIT_ISSET :: "u32 list \<Rightarrow> nat \<Rightarrow> bool" where
  "BIT_ISSET v b = (v ! (b div BITS_PER_ITEM) AND push_bit (b mod BITS_PER_ITEM) 1 \<noteq> 0)"

definition BIT_GET :: "u32 list \<Rightarrow> nat \<Rightarrow> u32" where
  "BIT_GET v b =
     drop_bit (b mod BITS_PER_ITEM)
       (v ! (b div BITS_PER_ITEM) AND push_bit (b mod BITS_PER_ITEM) 1)"

text \<open>\<^verbatim>\<open>unsigned matched[count / (8 * sizeof(unsigned)) + 1]\<close>, all zero.\<close>

definition bits_new :: "nat \<Rightarrow> u32 list" where
  "bits_new count = replicate (count div BITS_PER_ITEM + 1) 0"

section \<open>Bit arrays implement sets of indices\<close>

text \<open>What a client of a bit array relies on: a new array of \<open>n\<close> bits is empty, setting adds one index.\<close>

locale bit_array =
  fixes new :: "nat \<Rightarrow> 'v"
    and isset :: "'v \<Rightarrow> nat \<Rightarrow> bool"
    and setb :: "'v \<Rightarrow> nat \<Rightarrow> 'v"
    and capacity :: "'v \<Rightarrow> nat"
  assumes capacity_new: "n < capacity (new n)"
    and isset_new: "b < capacity (new n) \<Longrightarrow> \<not> isset (new n) b"
    and capacity_set: "capacity (setb v b) = capacity v"
    and isset_set: "b < capacity v \<Longrightarrow> c < capacity v \<Longrightarrow> isset (setb v b) c \<longleftrightarrow> c = b \<or> isset v c"
begin

lemma capacity_fold: "capacity (fold (\<lambda>b v. setb v b) bs v) = capacity v"
  by (induction bs arbitrary: v) (auto simp: capacity_set)

lemma isset_fold:
  "set bs \<subseteq> {..<capacity v} \<Longrightarrow> c < capacity v \<Longrightarrow>
   isset (fold (\<lambda>b v. setb v b) bs v) c \<longleftrightarrow> c \<in> set bs \<or> isset v c"
  by (induction bs arbitrary: v) (auto simp: capacity_set isset_set)

end

lemma length_BIT_SET: "length (BIT_SET v b) = length v"
  by (simp add: BIT_SET_def)

lemma BIT_ISSET_bit: "BIT_ISSET v b \<longleftrightarrow> bit (v ! (b div 32)) (b mod 32)"
  by (simp add: BIT_ISSET_def BITS_PER_ITEM_def bit_iff_and_push_bit_not_eq_0)

lemma div_mod_32_eq: "(b::nat) div 32 = c div 32 \<Longrightarrow> b mod 32 = c mod 32 \<Longrightarrow> b = c"
  by (metis div_mult_mod_eq)

lemma BIT_ISSET_BIT_SET:
  assumes "b < 32 * length v"
  shows "BIT_ISSET (BIT_SET v b) c \<longleftrightarrow> c = b \<or> BIT_ISSET v c"
proof -
  have len: "b div 32 < length v" using assms by auto
  show ?thesis
  proof (cases "b div 32 = c div 32")
    case True
    then have "c = b \<longleftrightarrow> c mod 32 = b mod 32" using div_mod_32_eq by metis
    then show ?thesis
      using True len by (auto simp: BIT_ISSET_bit BIT_SET_def BITS_PER_ITEM_def bit_simps)
  next
    case False
    then show ?thesis
      using len by (auto simp: BIT_ISSET_bit BIT_SET_def BITS_PER_ITEM_def)
  qed
qed

interpretation bits: bit_array bits_new BIT_ISSET BIT_SET "\<lambda>v. 32 * length v"
proof unfold_locales
  fix n b :: nat
  show "n < 32 * length (bits_new n)"
    by (simp add: bits_new_def BITS_PER_ITEM_def)
  show "b < 32 * length (bits_new n) \<Longrightarrow> \<not> BIT_ISSET (bits_new n) b"
    by (auto simp: BIT_ISSET_bit bits_new_def BITS_PER_ITEM_def nth_append simp del: replicate_Suc
        split: nat.splits)
qed (simp_all add: length_BIT_SET BIT_ISSET_BIT_SET)

section \<open>Allocation\<close>

lemma sg_realloc_choice_ok: "sched e = [] \<Longrightarrow> sg_realloc_choice n e = (AMove, e)"
  by (simp add: sg_realloc_choice_def next_choice_def)

lemma sg_realloc_choice_fail:
  "sg_realloc_choice n e = (AFail, e') \<Longrightarrow>
   error (err e') = SG_ERROR_MALLOC \<and> errno_value (err e') = ENOMEM \<and> sched e = AFail # sched e'"
  by (auto simp: sg_realloc_choice_def next_choice_def set_error_defs sg_set_error_int_def Let_def
      split: list.splits if_splits)

lemma sg_realloc_choice_succeed:
  "sg_realloc_choice n e = (c, e') \<Longrightarrow> c \<noteq> AFail \<Longrightarrow> err e' = err e \<and> sched e' = tl (sched e)"
  by (auto simp: sg_realloc_choice_def next_choice_def Let_def split: list.splits if_splits)

lemma sg_realloc_choice_fst: "sg_realloc_choice n e = (c, e') \<Longrightarrow> (c = AFail) = (fst (next_choice e) = AFail)"
  by (auto simp: sg_realloc_choice_def Let_def split: prod.splits if_splits)

lemma length_resize_bytes [simp]: "length (resize_bytes j n bs) = n"
  by (simp add: resize_bytes_def)

section \<open>The string updaters\<close>

text \<open>A pointer that may be given to the updaters: NULL or a live, terminated string.\<close>

definition cstr_ok :: "cstr \<Rightarrow> bool" where
  "cstr_ok p = (case p of CNull \<Rightarrow> True | CStr b \<Rightarrow> NUL \<in> set b \<and> length b < 2 ^ 64 | CFreed \<Rightarrow> False)"

definition cstr_val :: "cstr \<Rightarrow> string option" where
  "cstr_val p = (case p of CStr b \<Rightarrow> Some (strval b) | _ \<Rightarrow> None)"

text \<open>A fresh copy of a string: its value and the terminator.\<close>

definition cstr_copy :: "cstr \<Rightarrow> cstr" where
  "cstr_copy p = (case p of CStr b \<Rightarrow> CStr (strval b @ [NUL]) | _ \<Rightarrow> p)"

lemma cstr_ok_simps [simp]:
  "cstr_ok CNull" "\<not> cstr_ok CFreed" "cstr_ok (CStr b) \<longleftrightarrow> NUL \<in> set b \<and> length b < 2 ^ 64"
  by (simp_all add: cstr_ok_def)

lemma cstr_val_simps [simp]:
  "cstr_val CNull = None" "cstr_val CFreed = None" "cstr_val (CStr b) = Some (strval b)"
  by (simp_all add: cstr_val_def)

lemma terminated_split: "NUL \<in> set b \<Longrightarrow> \<exists>r. b = strval b @ NUL # r"
proof (induction b)
  case (Cons c b)
  then show ?case by (cases "c = NUL") (auto simp: strval_def)
qed simp

lemma length_strval: "NUL \<in> set b \<Longrightarrow> length (strval b) < length b"
proof -
  assume "NUL \<in> set b"
  then obtain r where "b = strval b @ NUL # r" using terminated_split by blast
  from arg_cong [OF this, of length] show ?thesis by simp
qed

lemma cstr_val_copy [simp]: "cstr_val (cstr_copy p) = cstr_val p"
  by (cases p) (simp_all add: cstr_copy_def)

lemma cstr_ok_copy: "cstr_ok p \<Longrightarrow> cstr_ok (cstr_copy p)"
  by (cases p) (auto simp: cstr_copy_def dest: length_strval)

lemma strlen_eq: "NUL \<in> set b \<Longrightarrow> strlen (CStr b) = Done (length (strval b))"
proof -
  assume "NUL \<in> set b"
  then obtain r where "b = strval b @ NUL # r" using terminated_split by blast
  then have "scan_nul b 0 = Done (Suc (length (strval b)))"
    by (metis add_0 scan_nul_eq strval_nul_free)
  then show ?thesis by (simp add: strlen_def src_bytes_def)
qed

lemma strlcpy_exact:
  assumes "NUL \<in> set b" "length buf = Suc (length (strval b))"
  shows "strlcpy buf b (Suc (length (strval b))) = Done (strval b @ [NUL], length (strval b))"
proof -
  obtain r where b: "b = strval b @ NUL # r" using terminated_split [OF assms(1)] by blast
  have "strlcpy buf (strval b @ NUL # r) (Suc (length (strval b))) =
      Done (strval b @ [NUL], length (strval b))"
    using strlcpy_eq [of "strval b" "Suc (length (strval b))" buf r] assms(2) by simp
  with b show ?thesis by metis
qed

lemma unat_of_nat_size: "n < 2 ^ 64 \<Longrightarrow> unat (word_of_nat n :: size_t) = n"
  by (simp add: unat_of_nat)

lemma sg_update_string_eq:
  assumes "cstr_ok dest" "cstr_ok src" "src \<noteq> CNull"
  shows "sg_update_string dest src e =
     (let (c, e') = sg_realloc_choice (word_of_nat (length (the (cstr_val src)) + 1)) e
      in Done (if c = AFail then (SG_ERROR_MALLOC, dest, e') else (SG_ERROR_NONE, cstr_copy src, e')))"
proof -
  obtain b where src: "src = CStr b" and nul: "NUL \<in> set b" and len: "length b < 2 ^ 64"
    using assms by (cases src) auto
  let ?n = "Suc (length (strval b))"
  have n: "?n < 2 ^ 64" using length_strval [OF nul] len by simp
  have un: "unat (word_of_nat ?n :: size_t) = ?n" by (rule unat_of_nat_size [OF n])
  then have nz: "(word_of_nat ?n :: size_t) \<noteq> 0" by (metis unat_0 nat.distinct(1))
  obtain c e' where c: "sg_realloc_choice (word_of_nat ?n) e = (c, e')" by fastforce
  show ?thesis
  proof (cases "c = AFail")
    case True
    with c have "error (err e') = SG_ERROR_MALLOC" using sg_realloc_choice_fail by blast
    with c True nz src nul assms(1) show ?thesis
      by (auto simp: sg_update_string_def strlen_eq sg_realloc_def simp del: of_nat_Suc)
  next
    case False
    with c nz un src nul assms(1) show ?thesis
      by (auto simp: sg_update_string_def strlen_eq sg_realloc_def src_bytes_def strlcpy_exact
          cstr_copy_def simp del: of_nat_Suc)
  qed
qed

lemma sg_update_string_Null: "dest \<noteq> CFreed \<Longrightarrow> sg_update_string dest CNull e = Done (SG_ERROR_NONE, CNull, e)"
  by (simp add: sg_update_string_def c_free_def)

lemma sg_update_string_nofail:
  assumes "cstr_ok dest" "cstr_ok src" "sched e = []"
  shows "sg_update_string dest src e = Done (SG_ERROR_NONE, cstr_copy src, e)"
proof (cases "src = CNull")
  case True
  with assms show ?thesis by (cases dest) (auto simp: sg_update_string_Null cstr_copy_def)
next
  case False
  then show ?thesis using assms by (simp add: sg_update_string_eq sg_realloc_choice_ok)
qed

text \<open>C11: After \<^verbatim>\<open>sg_update_string\<close> on live arguments there is no memory fault. When the source is NULL or the
  allocator grants the request, the code is \<^verbatim>\<open>SG_ERROR_NONE\<close>, the field holds a fresh copy of the source and the
  last error is what it was; when the allocator refuses, and only then, the code is \<^verbatim>\<open>SG_ERROR_MALLOC\<close>, that is
  the last error with \<^verbatim>\<open>ENOMEM\<close>, and the field is what it was before.\<close>

theorem sg_update_string_correct:
  assumes "cstr_ok dest" "cstr_ok src"
  shows "\<exists>rc dest' e'. sg_update_string dest src e = Done (rc, dest', e') \<and> cstr_ok dest' \<and>
     (if src \<noteq> CNull \<and> fst (next_choice e) = AFail
      then rc = SG_ERROR_MALLOC \<and> dest' = dest \<and> error (err e') = SG_ERROR_MALLOC \<and> errno_value (err e') = ENOMEM
      else rc = SG_ERROR_NONE \<and> cstr_val dest' = cstr_val src \<and> err e' = err e)"
proof (cases "src = CNull")
  case True
  with assms show ?thesis by (cases dest) (auto simp: sg_update_string_Null)
next
  case False
  obtain c e' where c: "sg_realloc_choice (word_of_nat (length (the (cstr_val src)) + 1)) e = (c, e')"
    by fastforce
  show ?thesis
  proof (cases "c = AFail")
    case True
    with c have "error (err e') = SG_ERROR_MALLOC" "errno_value (err e') = ENOMEM" "fst (next_choice e) = AFail"
      using sg_realloc_choice_fail sg_realloc_choice_fst by blast+
    with True c False assms show ?thesis by (simp add: sg_update_string_eq)
  next
    case ok: False
    with c have "err e' = err e" "fst (next_choice e) \<noteq> AFail"
      using sg_realloc_choice_succeed sg_realloc_choice_fst by blast+
    with ok c False assms show ?thesis by (simp add: sg_update_string_eq cstr_ok_copy)
  qed
qed

lemma sg_update_string_correct_witness:
  "cstr_ok CNull \<and> cstr_ok (CStr (''sda'' @ [NUL])) \<and>
   (\<exists>rc dest' e'. sg_update_string CNull (CStr (''sda'' @ [NUL]))
        \<lparr>sched = [AFail], junk_char = CHR ''x'', errno = 0, err = pre_init_errs\<rparr> = Done (rc, dest', e') \<and>
      rc = SG_ERROR_MALLOC \<and> dest' = CNull \<and> error (err e') = SG_ERROR_MALLOC) \<and>
   (\<exists>rc dest' e'. sg_update_string CNull (CStr (''sda'' @ [NUL]))
        \<lparr>sched = [], junk_char = CHR ''x'', errno = 0, err = pre_init_errs\<rparr> = Done (rc, dest', e') \<and>
      rc = SG_ERROR_NONE \<and> cstr_val dest' = Some ''sda'' \<and> err e' = pre_init_errs)"
proof -
  have ok: "cstr_ok CNull" "cstr_ok (CStr (''sda'' @ [NUL]))" by simp_all
  have v: "cstr_val (CStr (''sda'' @ [NUL])) = Some ''sda''" by (simp add: strval_def)
  have n: "CStr (''sda'' @ [NUL]) \<noteq> CNull" by simp
  show ?thesis
    using ok n sg_update_string_correct [OF ok, of "\<lparr>sched = [AFail], junk_char = CHR ''x'', errno = 0, err = pre_init_errs\<rparr>"]
      sg_update_string_correct [OF ok, of "\<lparr>sched = [], junk_char = CHR ''x'', errno = 0, err = pre_init_errs\<rparr>"]
    unfolding v by (simp add: next_choice_def) metis
qed

lemma strlcpy_prefix:
  assumes "NUL \<in> set b" "n \<le> length (strval b)" "length buf = Suc n"
  shows "\<exists>k. strlcpy buf b (Suc n) = Done (take n (strval b) @ [NUL], k)"
proof -
  obtain r where b: "b = strval b @ NUL # r" using terminated_split [OF assms(1)] by blast
  have "strlcpy buf (strval b @ NUL # r) (Suc n) = Done (take n (strval b) @ [NUL], length (strval b))"
    using strlcpy_eq [of "strval b" "Suc n" buf r] assms(2,3) by (simp add: min_absorb1)
  with b show ?thesis by metis
qed

text \<open>\<^verbatim>\<open>sg_lupdate_string\<close> with an allocator that does not fail stores the first \<open>maxlen\<close> bytes of a
  terminated source (the whole of a shorter one), terminated.\<close>

theorem sg_lupdate_string_correct:
  assumes "cstr_ok dest" "NUL \<in> set b" "length b < 2 ^ 64" "sched e = []"
  shows "sg_lupdate_string dest (CStr b) maxlen e =
     Done (SG_ERROR_NONE, CStr (take maxlen (strval b) @ [NUL]), e)"
proof -
  let ?n = "min maxlen (length (strval b))"
  obtain r where b: "b = strval b @ NUL # r" using terminated_split [OF assms(2)] by blast
  have sn: "strnlen b maxlen = Done ?n" using strnlen_eq [of "strval b" r maxlen] b by simp
  have n: "Suc ?n < 2 ^ 64" using length_strval [OF assms(2)] assms(3) by simp
  have un: "unat (word_of_nat (Suc ?n) :: size_t) = Suc ?n" by (rule unat_of_nat_size [OF n])
  then have nz: "(word_of_nat (Suc ?n) :: size_t) \<noteq> 0" by (metis unat_0 nat.distinct(1))
  let ?buf = "resize_bytes (junk_char e) (Suc ?n) (case dest of CStr bs \<Rightarrow> bs | _ \<Rightarrow> [])"
  obtain k where "strlcpy ?buf b (Suc ?n) = Done (take ?n (strval b) @ [NUL], k)"
    using strlcpy_prefix [OF assms(2), of ?n ?buf] by auto
  moreover have "take ?n (strval b) = take maxlen (strval b)" by (simp add: min_def)
  moreover have "dest \<noteq> CFreed" using assms(1) by auto
  ultimately show ?thesis
    using sn un nz assms(4)
    by (simp add: sg_lupdate_string_def src_bytes_def sg_realloc_def sg_realloc_choice_ok del: of_nat_Suc)
qed

lemma sg_lupdate_string_correct_witness:
  "sg_lupdate_string CNull (CStr (''tty1'' @ [NUL])) 3
     \<lparr>sched = [], junk_char = CHR ''x'', errno = 0, err = pre_init_errs\<rparr> =
   Done (SG_ERROR_NONE, CStr (''tty'' @ [NUL]),
         \<lparr>sched = [], junk_char = CHR ''x'', errno = 0, err = pre_init_errs\<rparr>)"
  using sg_lupdate_string_correct [of CNull "''tty1'' @ [NUL]"
      "\<lparr>sched = [], junk_char = CHR ''x'', errno = 0, err = pre_init_errs\<rparr>" 3]
  by (simp add: strval_def)

text \<open>
  The bound of \<^verbatim>\<open>sg_lupdate_string\<close> does not protect against an unterminated source: \<^verbatim>\<open>strlcpy\<close> walks on to
  the terminator of its source whatever the size it is given.
\<close>

lemma sg_lupdate_string_unterminated:
  assumes "cstr_ok dest" "nul_free s" "length s < 2 ^ 64 - 1" "sched e = []"
  shows "sg_lupdate_string dest (CStr s) (length s) e = Fault (OutOfBounds 0 (length s))"
proof -
  have sn: "strnlen s (length s) = Done (length s)"
    using assms(2) by (simp add: strnlen_def strval_id)
  have un: "unat (word_of_nat (Suc (length s)) :: size_t) = Suc (length s)"
    by (rule unat_of_nat_size) (use assms(3) in simp)
  then have nz: "(word_of_nat (Suc (length s)) :: size_t) \<noteq> 0" by (metis unat_0 nat.distinct(1))
  have "dest \<noteq> CFreed" using assms(1) by auto
  then show ?thesis
    using sn un nz assms(2,4)
    by (simp add: sg_lupdate_string_def src_bytes_def sg_realloc_def sg_realloc_choice_ok
        strlcpy_unterminated del: of_nat_Suc)
qed

text \<open>\<^verbatim>\<open>sg_concat_string\<close> on two live strings.\<close>

lemma strlcat_exact:
  assumes "NUL \<in> set a" "NUL \<in> set b" "n = Suc (length (strval a) + length (strval b))"
    and "buf = resize_bytes j n a"
  shows "\<exists>k. strlcat buf b n = Done (strval a @ strval b @ [NUL], k)"
proof -
  obtain ra where a: "a = strval a @ NUL # ra" using terminated_split [OF assms(1)] by blast
  obtain rb where b: "b = strval b @ NUL # rb" using terminated_split [OF assms(2)] by blast
  define rest where "rest = drop (Suc (length (strval a))) buf"
  have "take (Suc (length (strval a))) a = strval a @ [NUL]"
    by (subst a) simp
  then have "take (Suc (length (strval a))) buf = strval a @ [NUL]"
    using assms(3,4) length_strval [OF assms(1)] by (simp add: resize_bytes_def min_def)
  then have buf: "buf = strval a @ NUL # rest"
    using append_take_drop_id [of "Suc (length (strval a))" buf] by (simp add: rest_def)
  have len: "length buf = n" using assms(4) by simp
  have "strlcat (strval a @ NUL # rest) (strval b @ NUL # rb) n =
      Done (strval a @ strval b @ NUL # drop (Suc (length (strval b))) (NUL # rest),
            length (strval a) + length (strval b))"
    using strlcat_eq [of "strval a" "strval b" n rest rb] assms(3) len buf by simp
  moreover have "drop (Suc (length (strval b))) (NUL # rest) = []"
    using len assms(3) arg_cong [OF buf, of length] by simp
  ultimately show ?thesis using buf b by metis
qed

text \<open>\<^verbatim>\<open>sg_concat_string\<close> on two live strings, with an allocator that does not fail, appends the source
  to the destination and terminates the result.\<close>

theorem sg_concat_string_correct:
  assumes "NUL \<in> set a" "NUL \<in> set b" "length a + length b < 2 ^ 64" "sched e = []"
  shows "sg_concat_string (Some (CStr a)) (CStr b) e =
     Done (SG_ERROR_NONE, Some (CStr (strval a @ strval b @ [NUL])), e)"
proof -
  let ?n = "Suc (length (strval a) + length (strval b))"
  have n: "?n < 2 ^ 64"
    using length_strval [OF assms(1)] length_strval [OF assms(2)] assms(3) by simp
  have un: "unat (word_of_nat ?n :: size_t) = ?n" by (rule unat_of_nat_size [OF n])
  then have nz: "(word_of_nat ?n :: size_t) \<noteq> 0" by (metis unat_0 nat.distinct(1))
  obtain k where "strlcat (resize_bytes (junk_char e) ?n a) b ?n = Done (strval a @ strval b @ [NUL], k)"
    using strlcat_exact [OF assms(1,2) refl refl] by blast
  then show ?thesis
    using un nz assms(1,2,4)
    by (simp add: sg_concat_string_def strlen_eq sg_realloc_def sg_realloc_choice_ok src_bytes_def
        del: of_nat_Suc)
qed

lemma sg_concat_string_correct_witness:
  "sg_concat_string (Some (CStr (''eth'' @ [NUL]))) (CStr (''0'' @ [NUL]))
     \<lparr>sched = [], junk_char = CHR ''x'', errno = 0, err = pre_init_errs\<rparr> =
   Done (SG_ERROR_NONE, Some (CStr (''eth0'' @ [NUL])),
         \<lparr>sched = [], junk_char = CHR ''x'', errno = 0, err = pre_init_errs\<rparr>)"
  using sg_concat_string_correct [of "''eth'' @ [NUL]" "''0'' @ [NUL]"
      "\<lparr>sched = [], junk_char = CHR ''x'', errno = 0, err = pre_init_errs\<rparr>"]
  by (simp add: strval_def)

text \<open>
  With a NULL destination the fresh block is searched for a terminator it does not have: the source
  is not appended, and the code is \<^verbatim>\<open>SG_ERROR_NONE\<close> all the same.
\<close>

lemma sg_concat_string_null_dest:
  assumes "NUL \<in> set b" "length b < 2 ^ 64" "sched e = []" "junk_char e \<noteq> NUL"
  shows "sg_concat_string (Some CNull) (CStr b) e =
     Done (SG_ERROR_NONE, Some (CStr (replicate (Suc (length (strval b))) (junk_char e))), e)"
proof -
  let ?n = "Suc (length (strval b))"
  have un: "unat (word_of_nat ?n :: size_t) = ?n"
    by (rule unat_of_nat_size) (use length_strval [OF assms(1)] assms(2) in simp)
  then have nz: "(word_of_nat ?n :: size_t) \<noteq> 0" by (metis unat_0 nat.distinct(1))
  obtain r where b: "b = strval b @ NUL # r" using terminated_split [OF assms(1)] by blast
  let ?buf = "replicate ?n (junk_char e)"
  have "nul_free (take ?n ?buf)" using assms(4) by (simp add: nul_free_def list_all_iff)
  then have "strlcat ?buf (strval b @ NUL # r) ?n = Done (?buf, ?n + length (strval b))"
    by (intro strlcat_unterminated_dst) simp_all
  then have "strlcat ?buf b ?n = Done (?buf, ?n + length (strval b))" using b by metis
  then show ?thesis
    using un nz assms(1,3)
    by (simp add: sg_concat_string_def strlen_eq sg_realloc_def sg_realloc_choice_ok src_bytes_def
        resize_bytes_def del: of_nat_Suc replicate_Suc)
qed

section \<open>Reading lines\<close>

text \<open>The pieces \<^verbatim>\<open>fgets\<close> delivers of a file until its end.\<close>

function file_lines :: "nat \<Rightarrow> string \<Rightarrow> string list" where
  "file_lines n s = (if n = 0 \<or> s = [] then []
                     else let (l, r) = fgets_take n s in l # file_lines n r)"
  by pat_completeness auto
termination
proof (relation "measure (\<lambda>(n, s). length s)", goal_cases)
  case (2 n s x l r)
  from 2 have lr: "fgets_take n s = (l, r)" by simp
  then have "s = l @ r" by (rule fgets_take_append)
  moreover have "l \<noteq> []" using fgets_take_progress [of s n] 2(1) lr by simp
  ultimately show ?case by (cases l) auto
qed simp

declare file_lines.simps [simp del]

lemma file_lines_step:
  "0 < n \<Longrightarrow> s \<noteq> [] \<Longrightarrow> fgets_take n s = (l, r) \<Longrightarrow> file_lines n s = l # file_lines n r"
  by (subst file_lines.simps) simp

lemma concat_file_lines: "0 < n \<Longrightarrow> concat (file_lines n s) = s"
proof (induction n s rule: file_lines.induct)
  case (1 n s)
  show ?case
  proof (cases "s = []")
    case False
    obtain l r where lr: "fgets_take n s = (l, r)" by fastforce
    then have "s = l @ r" by (rule fgets_take_append)
    moreover have "concat (file_lines n r) = r"
      using "1.IH" [OF _ lr [symmetric] refl] "1.prems" False by simp
    ultimately show ?thesis using file_lines_step [OF "1.prems" False lr] by simp
  qed (simp add: file_lines.simps)
qed

lemma sg_f_read_line_reads:
  assumes "1 < n"
  shows "\<exists>f'. sg_f_read_line n (Some str) f e =
           Done (find (has_prefix str) (file_lines (n - 1) (fbytes f)), f',
             if (\<forall>l \<in> set (file_lines (n - 1) (fbytes f)). \<not> has_prefix str l) \<and> fbad f
             then SET_ERROR_WITH_ERRNO SG_ERROR_PARSE (Some (''sg_f_read_line(string = '' @ str @ '')'')) e else e) \<and>
         file_lines (n - 1) (fbytes f') = tl (dropWhile (\<lambda>l. \<not> has_prefix str l) (file_lines (n - 1) (fbytes f))) \<and>
         fbad f' = fbad f"
  using assms
proof (induction "length (fbytes f)" arbitrary: f rule: less_induct)
  case less
  show ?case
  proof (cases "fbytes f = []")
    case True
    with less.prems show ?thesis
      by (simp add: sg_f_read_line.simps [of n] fgets_def file_lines.simps)
  next
    case False
    obtain l r where lr: "fgets_take (n - 1) (fbytes f) = (l, r)" by fastforce
    let ?f' = "f\<lparr>fbytes := r\<rparr>"
    have g: "fgets n f = Some (l, ?f')" using False lr by (simp add: fgets_def)
    then have "length (fbytes ?f') < length (fbytes f)" using less.prems by (rule fgets_decreases)
    note ih = less.hyps [OF this less.prems]
    have "file_lines (n - 1) (fbytes f) = l # file_lines (n - 1) r"
      by (rule file_lines_step) (use False lr less.prems in auto)
    with ih g less.prems show ?thesis
      by (simp add: sg_f_read_line.simps [of n _ f])
  qed
qed

lemma sg_f_read_line_finds:
  assumes "1 < n"
  shows "\<exists>f' e'. sg_f_read_line n (Some str) f e =
           Done (find (has_prefix str) (file_lines (n - 1) (fbytes f)), f', e') \<and>
         (\<not> fbad f \<longrightarrow> e' = e)"
  using sg_f_read_line_reads [OF assms, of str f e] by auto



section \<open>Dropping privileges\<close>

text \<open>C12: When \<^verbatim>\<open>sg_drop_privileges\<close> reports success, both effective ids are the real ones, provided the two
  system calls set what POSIX says they set and leave the real ids alone.\<close>

theorem sg_drop_privileges_sound:
  assumes "\<And>g c c'. setegid g c = (True, c') \<Longrightarrow> c' = c\<lparr>c_egid := g\<rparr>"
    and "\<And>u c c'. seteuid u c = (True, c') \<Longrightarrow> c' = c\<lparr>c_euid := u\<rparr>"
    and "sg_drop_privileges setegid seteuid c e = (SG_ERROR_NONE, c', e')"
  shows "c_euid c' = c_uid c \<and> c_egid c' = c_gid c \<and> c_uid c' = c_uid c \<and> c_gid c' = c_gid c \<and> e' = e"
proof -
  obtain c1 where 1: "setegid (c_gid c) c = (True, c1)"
    using assms(3) by (auto simp: sg_drop_privileges_def split: prod.splits if_splits)
  then have c1: "c1 = c\<lparr>c_egid := c_gid c\<rparr>" by (rule assms(1))
  obtain c2 where 2: "seteuid (c_uid c1) c1 = (True, c2)"
    using assms(3) 1 by (auto simp: sg_drop_privileges_def split: prod.splits if_splits)
  then have "c2 = c1\<lparr>c_euid := c_uid c1\<rparr>" by (rule assms(2))
  with assms(3) 1 2 c1 show ?thesis by (auto simp: sg_drop_privileges_def)
qed

lemma sg_drop_privileges_sound_witness:
  "\<exists>c'. sg_drop_privileges (\<lambda>g c. (True, c\<lparr>c_egid := g\<rparr>)) (\<lambda>u c. (True, c\<lparr>c_euid := u\<rparr>))
       \<lparr>c_uid = 1000, c_euid = 0, c_gid = 100, c_egid = 2\<rparr>
       \<lparr>sched = [], junk_char = NUL, errno = 0, err = pre_init_errs\<rparr> =
     (SG_ERROR_NONE, c', \<lparr>sched = [], junk_char = NUL, errno = 0, err = pre_init_errs\<rparr>) \<and>
     c_euid c' = 1000 \<and> c_egid c' = 100"
proof -
  let ?g = "\<lambda>g c. (True, c\<lparr>c_egid := g\<rparr>)" and ?u = "\<lambda>u c. (True, c\<lparr>c_euid := u\<rparr>)"
  let ?c = "\<lparr>c_uid = 1000, c_euid = 0, c_gid = 100, c_egid = 2\<rparr> :: creds"
  let ?e = "\<lparr>sched = [], junk_char = NUL, errno = 0, err = pre_init_errs\<rparr>"
  have r: "sg_drop_privileges ?g ?u ?c ?e = (SG_ERROR_NONE, ?c\<lparr>c_egid := 100, c_euid := 1000\<rparr>, ?e)"
    by (simp add: sg_drop_privileges_def)
  then show ?thesis
    using sg_drop_privileges_sound [OF _ _ r] by auto
qed

section \<open>The device map is a partial bijection\<close>

definition map_names :: "device_map \<Rightarrow> (string \<times> string) list" where
  "map_names ms = map (\<lambda>(b, s). (the (cstr_val b), the (cstr_val s))) ms"

definition map_ok :: "device_map \<Rightarrow> bool" where
  "map_ok ms \<longleftrightarrow>
     list_all (\<lambda>(b, s). cstr_ok b \<and> b \<noteq> CNull \<and> cstr_ok s \<and> s \<noteq> CNull) ms \<and>
     distinct (map fst (map_names ms)) \<and> distinct (map snd (map_names ms))"

lemma live_cases: "cstr_ok p \<Longrightarrow> p \<noteq> CNull \<Longrightarrow> (\<And>b. p = CStr b \<Longrightarrow> NUL \<in> set b \<Longrightarrow> P) \<Longrightarrow> P"
  by (cases p) auto

lemma map_known_eq:
  "list_all (\<lambda>(b, s). cstr_ok b \<and> b \<noteq> CNull \<and> cstr_ok s \<and> s \<noteq> CNull) ms \<Longrightarrow>
   map_known ms bsd svr =
     Done (bsd \<in> fst ` set (map_names ms) \<or> svr \<in> snd ` set (map_names ms))"
  by (induction ms) (auto simp: map_names_def src_bytes_def elim!: live_cases)

lemma sg_get_svr_from_bsd_eq:
  "list_all (\<lambda>(b, s). cstr_ok b \<and> b \<noteq> CNull \<and> cstr_ok s \<and> s \<noteq> CNull) ms \<Longrightarrow>
   sg_get_svr_from_bsd ms bsd = Done (case map_of (map_names ms) bsd of None \<Rightarrow> bsd | Some s \<Rightarrow> s)"
  by (induction ms) (auto simp: map_names_def src_bytes_def elim!: live_cases)

text \<open>Adding a device to the Solaris map (allocations succeeding) keeps the map a partial bijection
  with live names; a new pair becomes the answer for its BSD name, a pair one of whose names is
  known is ignored, and no other answer changes.\<close>

theorem add_mapping_correct:
  assumes "map_ok ms" "nul_free bsd" "nul_free svr" "length bsd < 2 ^ 64 - 1" "length svr < 2 ^ 64 - 1"
    and "sched e = []"
  shows "\<exists>ms'. add_mapping ms bsd svr e = Done (ms', e) \<and> map_ok ms' \<and>
     (\<forall>b. sg_get_svr_from_bsd ms' b =
        (if b = bsd \<and> bsd \<notin> fst ` set (map_names ms) \<and> svr \<notin> snd ` set (map_names ms)
         then Done svr else sg_get_svr_from_bsd ms b))"
proof -
  have live: "list_all (\<lambda>(b, s). cstr_ok b \<and> b \<noteq> CNull \<and> cstr_ok s \<and> s \<noteq> CNull) ms"
    using assms(1) by (simp add: map_ok_def)
  show ?thesis
  proof (cases "bsd \<in> fst ` set (map_names ms) \<or> svr \<in> snd ` set (map_names ms)")
    case True
    with assms(1) show ?thesis by (auto simp: add_mapping_def map_known_eq [OF live])
  next
    case False
    let ?new = "(CStr (bsd @ [NUL]), CStr (svr @ [NUL]))"
    have ok: "cstr_ok (CStr (bsd @ [NUL]))" "cstr_ok (CStr (svr @ [NUL]))"
      using assms(4,5) by simp_all
    have add: "add_mapping ms bsd svr e = Done (ms @ [?new], e)"
      using False assms ok
      by (simp add: add_mapping_def map_known_eq [OF live] sg_realloc_choice_ok
          sg_update_string_nofail cstr_copy_def)
    have names: "map_names (ms @ [?new]) = map_names ms @ [(bsd, svr)]"
      using assms(2,3) by (simp add: map_names_def)
    have ok': "map_ok (ms @ [?new])"
      using assms(1) False names ok by (auto simp: map_ok_def)
    have "sg_get_svr_from_bsd (ms @ [?new]) b =
        (if b = bsd then Done svr else sg_get_svr_from_bsd ms b)" for b
    proof -
      have "list_all (\<lambda>(b, s). cstr_ok b \<and> b \<noteq> CNull \<and> cstr_ok s \<and> s \<noteq> CNull) (ms @ [?new])"
        using ok' by (simp add: map_ok_def)
      then have "sg_get_svr_from_bsd (ms @ [?new]) b =
          Done (case map_of (map_names ms @ [(bsd, svr)]) b of None \<Rightarrow> b | Some s \<Rightarrow> s)"
        using names by (simp only: sg_get_svr_from_bsd_eq)
      moreover have "map_of (map_names ms) bsd = None"
        using False by (auto simp: map_of_eq_None_iff)
      ultimately show ?thesis
        using live by (auto simp: sg_get_svr_from_bsd_eq map_add_def split: option.splits)
    qed
    with add ok' False show ?thesis by auto
  qed
qed

lemma add_mapping_correct_witness:
  "\<exists>ms'. add_mapping [] ''sd0'' ''c0t0d0'' \<lparr>sched = [], junk_char = NUL, errno = 0, err = pre_init_errs\<rparr> =
       Done (ms', \<lparr>sched = [], junk_char = NUL, errno = 0, err = pre_init_errs\<rparr>) \<and>
     map_ok ms' \<and> sg_get_svr_from_bsd ms' ''sd0'' = Done ''c0t0d0'' \<and>
     sg_get_svr_from_bsd ms' ''sd1'' = Done ''sd1''"
proof -
  have "map_ok []" by (simp add: map_ok_def map_names_def)
  from add_mapping_correct [OF this, of "''sd0''" "''c0t0d0''"
      "\<lparr>sched = [], junk_char = NUL, errno = 0, err = pre_init_errs\<rparr>"]
  obtain ms' where
    "add_mapping [] ''sd0'' ''c0t0d0'' \<lparr>sched = [], junk_char = NUL, errno = 0, err = pre_init_errs\<rparr> =
       Done (ms', \<lparr>sched = [], junk_char = NUL, errno = 0, err = pre_init_errs\<rparr>)" "map_ok ms'"
    "\<forall>b. sg_get_svr_from_bsd ms' b = (if b = ''sd0'' then Done ''c0t0d0'' else Done b)"
    by (auto simp: map_names_def)
  then show ?thesis by auto
qed

text \<open>
  When the name of a new entry cannot be allocated the entry stays in the list with a NULL name, and
  the next lookup dereferences it.
\<close>

lemma add_mapping_oom_poisons:
  "\<exists>e'. add_mapping [] ''sd0'' ''c0t0d0'' \<lparr>sched = [AMove, AFail], junk_char = NUL, errno = 0, err = pre_init_errs\<rparr> =
      Done ([(CNull, CNull)], e') \<and> sg_get_svr_from_bsd [(CNull, CNull)] bsd = Fault NullDeref"
proof -
  have "strval (''sd0'' @ [NUL]) = ''sd0''" by (simp add: strval_def)
  then show ?thesis
    by (simp add: add_mapping_def sg_realloc_choice_def next_choice_def sg_update_string_eq src_bytes_def)
qed

end
