(* ===== verification/Vector.thy ===== *)
theory Vector
  imports Tools
begin

text \<open>
  The typed vectors of \<^verbatim>\<open>src/libstatgrab/vector.c\<close> and \<^verbatim>\<open>vector.h\<close>, the container every statistic of the
  library is returned in. Vectors live in an explicit heap: a block holds the header
  (\<^verbatim>\<open>struct sg_vector\<close>), the number of bytes the allocator gave and the items that fit behind the
  header in these bytes. Addresses are never reused, so every access through a stale pointer shows
  up as \<open>UseAfterFree\<close>, every access behind the allocated bytes as \<open>OutOfBounds\<close>. The build modelled
  is the default one, with assertions.
\<close>

unbundle bit_operations_syntax

section \<open>Headers, blocks, the heap\<close>

text \<open>A function pointer: NULL, or the address (here: the name) of a function and what it does.\<close>

datatype 'f fnptr = NullFn | Fn string 'f

fun fn_same :: "'f fnptr \<Rightarrow> 'f fnptr \<Rightarrow> bool" where
  "fn_same NullFn NullFn = True"
| "fn_same (Fn a f) (Fn b g) = (a = b)"
| "fn_same p q = False"

fun fn_set :: "'f fnptr \<Rightarrow> bool" where
  "fn_set NullFn = False"
| "fn_set (Fn a f) = True"

type_synonym 'a vector_init_function = "'a \<Rightarrow> 'a"
type_synonym 'a vector_copy_function = "'a \<Rightarrow> 'a \<Rightarrow> env \<Rightarrow> (sg_error \<times> 'a \<times> 'a \<times> env) outcome"
type_synonym 'a vector_compute_diff_function = "'a \<Rightarrow> 'a \<Rightarrow> (sg_error \<times> 'a) outcome"
type_synonym 'a vector_compare_function = "'a \<Rightarrow> 'a \<Rightarrow> int outcome"
type_synonym 'a vector_destroy_function = "'a \<Rightarrow> 'a outcome"

record 'a sg_vector_init_info =
  item_size :: size_t
  init_fn :: "'a vector_init_function fnptr"
  copy_fn :: "'a vector_copy_function fnptr"
  compute_diff_fn :: "'a vector_compute_diff_function fnptr"
  compare_fn :: "'a vector_compare_function fnptr"
  destroy_fn :: "'a vector_destroy_function fnptr"

definition VECTOR_INIT_INFO_EMPTY_INIT :: "size_t \<Rightarrow> 'a sg_vector_init_info" where
  "VECTOR_INIT_INFO_EMPTY_INIT sz =
     \<lparr>item_size = sz, init_fn = NullFn, copy_fn = NullFn, compute_diff_fn = NullFn,
      compare_fn = NullFn, destroy_fn = NullFn\<rparr>"

record 'a sg_vector =
  start_eye :: size_t
  used_count :: size_t
  alloc_count :: size_t
  block_shift :: size_t
  info :: "'a sg_vector_init_info"
  final_eye :: size_t

definition MAGIC_EYE :: "char \<Rightarrow> char \<Rightarrow> char \<Rightarrow> char \<Rightarrow> u32" where
  "MAGIC_EYE a b c d =
     (of_char a AND 0xFF) + push_bit 8 (of_char b AND 0xFF) +
     push_bit 16 (of_char c AND 0xFF) + push_bit 24 (of_char d AND 0xFF)"

definition SG_VECTOR_START_EYE :: size_t where
  "SG_VECTOR_START_EYE = ucast (MAGIC_EYE CHR ''s'' CHR ''g'' CHR ''v'' CHR ''s'')"

definition SG_VECTOR_FINAL_EYE :: size_t where
  "SG_VECTOR_FINAL_EYE = ucast (MAGIC_EYE CHR ''f'' CHR ''v'' CHR ''g'' CHR ''s'')"

text \<open>The size of the header: five \<^verbatim>\<open>size_t\<close> and the six words of the init info.\<close>

definition VECTOR_SIZE :: size_t where "VECTOR_SIZE = 88"

record 'a vblock =
  hdr :: "'a sg_vector"
  bytes :: size_t
  slots :: "'a list"

record 'a world =
  wenv :: env
  blocks :: "addr \<rightharpoonup> 'a vblock"
  next_addr :: addr
  junk_item :: 'a          \<comment> \<open>what a fresh slot holds\<close>

text \<open>How many whole items fit behind the header.\<close>

definition slot_count :: "size_t \<Rightarrow> size_t \<Rightarrow> nat" where
  "slot_count bs sz = (unat bs - unat VECTOR_SIZE) div unat sz"

definition vload :: "addr \<Rightarrow> 'a world \<Rightarrow> 'a vblock outcome" where
  "vload v w = (if v = 0 then Fault NullDeref
                else case blocks w v of None \<Rightarrow> Fault (UseAfterFree v) | Some b \<Rightarrow> Done b)"

definition vstore :: "addr \<Rightarrow> 'a vblock \<Rightarrow> 'a world \<Rightarrow> 'a world" where
  "vstore v b w = w\<lparr>blocks := (blocks w)(v \<mapsto> b)\<rparr>"

definition vfree :: "addr \<Rightarrow> 'a world \<Rightarrow> 'a world outcome" where
  "vfree v w = andthen (vload v w) (\<lambda>_. Done (w\<lparr>blocks := (blocks w)(v := None)\<rparr>))"

definition read_item :: "addr \<Rightarrow> nat \<Rightarrow> 'a world \<Rightarrow> 'a outcome" where
  "read_item v i w = andthen (vload v w) (\<lambda>b.
     if i < length (slots b) then Done (slots b ! i) else Fault (OutOfBounds v i))"

definition write_item :: "addr \<Rightarrow> nat \<Rightarrow> 'a \<Rightarrow> 'a world \<Rightarrow> 'a world outcome" where
  "write_item v i x w = andthen (vload v w) (\<lambda>b.
     if i < length (slots b) then Done (vstore v (b\<lparr>slots := (slots b)[i := x]\<rparr>) w)
     else Fault (OutOfBounds v i))"

definition set_env :: "env \<Rightarrow> 'a world \<Rightarrow> 'a world" where
  "set_env e w = w\<lparr>wenv := e\<rparr>"

text \<open>\<^verbatim>\<open>sg_realloc(NULL, size)\<close> for a vector whose header the caller writes at once.\<close>

definition valloc :: "'a sg_vector \<Rightarrow> size_t \<Rightarrow> 'a world \<Rightarrow> addr \<times> 'a world" where
  "valloc h sz w =
     (if sz = 0 then (0, w)
      else
        (let (c, e) = sg_realloc_choice sz (wenv w);
             w = set_env e w;
             v = next_addr w
         in if c = AFail then (0, w)
            else (v, w\<lparr>next_addr := Suc v,
                       blocks := (blocks w)(v \<mapsto>
                         \<lparr>hdr = h, bytes = sz,
                          slots = replicate (slot_count sz (item_size (info h))) (junk_item w)\<rparr>)\<rparr>)))"

definition resize_slots :: "'a \<Rightarrow> nat \<Rightarrow> 'a list \<Rightarrow> 'a list" where
  "resize_slots junk n xs = take n xs @ replicate (n - length xs) junk"

text \<open>\<^verbatim>\<open>sg_realloc(vector, size)\<close>: refused, moved or done in place.\<close>

definition vrealloc :: "addr \<Rightarrow> size_t \<Rightarrow> 'a world \<Rightarrow> (addr \<times> 'a world) outcome" where
  "vrealloc v sz w =
     (if sz = 0 then andthen (vfree v w) (\<lambda>w. Done (0, w))
      else andthen (vload v w) (\<lambda>b.
        (let (c, e) = sg_realloc_choice sz (wenv w);
             w = set_env e w;
             b' = b\<lparr>bytes := sz,
                    slots := resize_slots (junk_item w) (slot_count sz (item_size (info (hdr b)))) (slots b)\<rparr>;
             v' = next_addr w
         in case c of
              AFail \<Rightarrow> Done (0, w)
            | AInPlace \<Rightarrow> Done (v, vstore v b' w)
            | AMove \<Rightarrow> Done (v', w\<lparr>next_addr := Suc v',
                                    blocks := (blocks w)(v := None, v' \<mapsto> b')\<rparr>))))"

section \<open>The operations of vector.c\<close>

text \<open>\<^verbatim>\<open>while( i > new_count ) { --i; destroy_fn(data + i * item_size); }\<close>\<close>

fun destroy_slots ::
  "'a vector_destroy_function \<Rightarrow> addr \<Rightarrow> nat \<Rightarrow> nat \<Rightarrow> 'a list \<Rightarrow> 'a list outcome" where
  "destroy_slots f v 0 n xs = Done xs"
| "destroy_slots f v (Suc i) n xs =
     (if n < Suc i then
        (if i < length xs
         then andthen (f (xs ! i)) (\<lambda>x. destroy_slots f v i n (xs[i := x]))
         else Fault (OutOfBounds v i))
      else Done xs)"

definition sg_vector_destroy_unused :: "addr \<Rightarrow> size_t \<Rightarrow> 'a world \<Rightarrow> 'a world outcome" where
  "sg_vector_destroy_unused v new_count w =
     andthen (vload v w) (\<lambda>b.
     andthen (case destroy_fn (info (hdr b)) of
                Fn _ f \<Rightarrow>
                  if new_count < used_count (hdr b)
                  then destroy_slots f v (unat (used_count (hdr b))) (unat new_count) (slots b)
                  else Done (slots b)
              | NullFn \<Rightarrow> Done (slots b)) (\<lambda>xs.
       let h = (if new_count < used_count (hdr b) then (hdr b)\<lparr>used_count := new_count\<rparr> else hdr b)
       in Done (vstore v (b\<lparr>hdr := h, slots := xs\<rparr>) w)))"

text \<open>\<^verbatim>\<open>for( i = used_count; i < new_count; ++i ) init_fn(data + i * item_size);\<close> with \<open>k\<close> rounds to go.\<close>

fun init_slots :: "'a vector_init_function \<Rightarrow> addr \<Rightarrow> nat \<Rightarrow> nat \<Rightarrow> 'a list \<Rightarrow> 'a list outcome" where
  "init_slots f v i 0 xs = Done xs"
| "init_slots f v i (Suc k) xs =
     (if i < length xs then init_slots f v (Suc i) k (xs[i := f (xs ! i)])
      else Fault (OutOfBounds v i))"

definition sg_vector_init_new :: "addr \<Rightarrow> size_t \<Rightarrow> 'a world \<Rightarrow> 'a world outcome" where
  "sg_vector_init_new v new_count w =
     andthen (vload v w) (\<lambda>b.
     andthen (case init_fn (info (hdr b)) of
                Fn _ f \<Rightarrow>
                  if used_count (hdr b) < new_count
                  then init_slots f v (unat (used_count (hdr b)))
                         (unat new_count - unat (used_count (hdr b))) (slots b)
                  else Done (slots b)
              | NullFn \<Rightarrow> Done (slots b)) (\<lambda>xs.
       let h = (if used_count (hdr b) < new_count then (hdr b)\<lparr>used_count := new_count\<rparr> else hdr b)
       in Done (vstore v (b\<lparr>hdr := h, slots := xs\<rparr>) w)))"

definition sg_prove_vector :: "addr \<Rightarrow> 'a world \<Rightarrow> sg_error outcome" where
  "sg_prove_vector v w =
     andthen (vload v w) (\<lambda>b.
     andthen (c_assert ''SG_VECTOR_START_EYE == vec->start_eye'' (SG_VECTOR_START_EYE = start_eye (hdr b))) (\<lambda>_.
     andthen (c_assert ''SG_VECTOR_FINAL_EYE == vec->final_eye'' (SG_VECTOR_FINAL_EYE = final_eye (hdr b))) (\<lambda>_.
     Done SG_ERROR_NONE)))"

definition sg_prove_vector_compat :: "addr \<Rightarrow> addr \<Rightarrow> 'a world \<Rightarrow> sg_error outcome" where
  "sg_prove_vector_compat one two w =
     andthen (c_assert ''one'' (one \<noteq> 0)) (\<lambda>_.
     andthen (c_assert ''two'' (two \<noteq> 0)) (\<lambda>_.
     andthen (vload one w) (\<lambda>b1.
     andthen (vload two w) (\<lambda>b2.
       (let i1 = info (hdr b1); i2 = info (hdr b2) in
        andthen (c_assert ''one->info == two->info''
          (item_size i1 = item_size i2 \<and> fn_same (init_fn i1) (init_fn i2) \<and>
           fn_same (copy_fn i1) (copy_fn i2) \<and>
           fn_same (compute_diff_fn i1) (compute_diff_fn i2) \<and>
           fn_same (compare_fn i1) (compare_fn i2) \<and>
           fn_same (destroy_fn i1) (destroy_fn i2))) (\<lambda>_.
        Done SG_ERROR_NONE))))))"

definition NEXT_POWER2_IN :: "size_t \<Rightarrow> nat \<Rightarrow> size_t" where
  "NEXT_POWER2_IN x bs = push_bit bs (drop_bit bs (x - 1) + 1)"

definition sg_vector_create_int ::
  "size_t \<Rightarrow> size_t \<Rightarrow> size_t \<Rightarrow> 'a sg_vector_init_info \<Rightarrow> 'a world \<Rightarrow> (addr \<times> 'a world) outcome" where
  "sg_vector_create_int bshift alloc initial_used ty w =
     (let round_count = NEXT_POWER2_IN (max alloc initial_used) (unat bshift);
          h = \<lparr>start_eye = SG_VECTOR_START_EYE, used_count = 0,
               alloc_count = push_bit (unat bshift) 1, block_shift = bshift,
               info = ty, final_eye = SG_VECTOR_FINAL_EYE\<rparr>;
          (v, w) = valloc h (VECTOR_SIZE + round_count * item_size ty) w
      in if v \<noteq> 0 then andthen (sg_vector_init_new v initial_used w) (\<lambda>w. Done (v, w))
         else Done (v, w))"

text \<open>
  \<^verbatim>\<open>while( ((unsigned)1 << block_shift) < block_size ) ++block_shift;\<close>: the shifted operand has 32
  bits, so a block size above \<open>2 ^ 31\<close> runs into a shift by the width of its type.
\<close>

function block_shift_loop :: "size_t \<Rightarrow> nat \<Rightarrow> nat outcome" where
  "block_shift_loop block_size s =
     (if 32 \<le> s then Fault (ShiftTooWide s)
      else if ucast (push_bit s (1 :: u32)) < block_size then block_shift_loop block_size (Suc s)
      else Done s)"
  by pat_completeness auto
termination
  by (relation "measure (\<lambda>(b, s). 32 - s)") auto

declare block_shift_loop.simps [simp del]

definition sg_vector_create ::
  "size_t \<Rightarrow> size_t \<Rightarrow> size_t \<Rightarrow> 'a sg_vector_init_info \<Rightarrow> 'a world \<Rightarrow> (addr \<times> 'a world) outcome" where
  "sg_vector_create block_size alloc initial_used ty w =
     andthen (block_shift_loop block_size 0) (\<lambda>s.
       sg_vector_create_int (word_of_nat s) alloc initial_used ty w)"

definition VECTOR_CREATE :: "'a sg_vector_init_info \<Rightarrow> size_t \<Rightarrow> 'a world \<Rightarrow> (addr \<times> 'a world) outcome" where
  "VECTOR_CREATE ty block_size w = sg_vector_create block_size block_size 0 ty w"

definition sg_vector_free :: "addr \<Rightarrow> 'a world \<Rightarrow> 'a world outcome" where
  "sg_vector_free v w =
     (if v = 0 then Done w
      else andthen (sg_prove_vector v w) (\<lambda>rc.
        if rc = SG_ERROR_NONE then andthen (sg_vector_destroy_unused v 0 w) (vfree v) else Done w))"

definition sg_vector_clear :: "addr \<Rightarrow> 'a world \<Rightarrow> 'a world outcome" where
  "sg_vector_clear v w =
     (if v = 0 then Done w
      else andthen (sg_prove_vector v w) (\<lambda>rc.
        if rc = SG_ERROR_NONE then sg_vector_destroy_unused v 0 w else Done w))"

definition sg_vector_resize :: "addr \<Rightarrow> size_t \<Rightarrow> 'a world \<Rightarrow> (addr \<times> 'a world) outcome" where
  "sg_vector_resize v new_count w =
     andthen (c_assert ''vector'' (v \<noteq> 0)) (\<lambda>_.
     andthen (sg_prove_vector v w) (\<lambda>rc.
       if rc \<noteq> SG_ERROR_NONE then
         Done (0, set_env (SET_ERROR SG_ERROR_INVALID_ARGUMENT (Some ''sg_vector_resize: invalid vector'') (wenv w)) w)
       else if new_count = 0 then
         andthen (sg_vector_free v w) (\<lambda>w. Done (0, set_env (sg_clear_error (wenv w)) w))
       else
         andthen (sg_vector_destroy_unused v new_count w) (\<lambda>w.
         andthen (vload v w) (\<lambda>b.
           (let round_count = NEXT_POWER2_IN new_count (unat (block_shift (hdr b))) in
            if round_count \<noteq> alloc_count (hdr b) then
              andthen (vrealloc v (VECTOR_SIZE + round_count * item_size (info (hdr b))) w) (\<lambda>(v', w).
                if v' = 0 \<and> round_count \<noteq> 0 then
                  andthen (sg_vector_free v w) (\<lambda>w. Done (0, w))
                else
                  andthen (vload v' w) (\<lambda>b.
                  andthen (sg_vector_init_new v' new_count
                             (vstore v' (b\<lparr>hdr := (hdr b)\<lparr>alloc_count := round_count\<rparr>\<rparr>) w)) (\<lambda>w.
                    Done (v', w))))
            else andthen (sg_vector_init_new v new_count w) (\<lambda>w. Done (v, w)))))))"

definition VECTOR_CREATE_OR_RESIZE ::
  "addr \<Rightarrow> size_t \<Rightarrow> 'a sg_vector_init_info \<Rightarrow> 'a world \<Rightarrow> (addr \<times> 'a world) outcome" where
  "VECTOR_CREATE_OR_RESIZE v new_count ty w =
     (if v \<noteq> 0 then sg_vector_resize v new_count w
      else sg_vector_create new_count new_count new_count ty w)"

text \<open>
  \<^verbatim>\<open>VECTOR_UPDATE\<close>: \<open>Inl\<close> is the \<^verbatim>\<open>return sg_get_error()\<close> of the macro, \<open>Inr\<close> the vector the
  surrounding function goes on with; both come with the new \<^verbatim>\<open>*vectorptr\<close>.
\<close>

definition VECTOR_UPDATE ::
  "addr \<Rightarrow> size_t \<Rightarrow> 'a sg_vector_init_info \<Rightarrow> 'a world \<Rightarrow> ((sg_error + unit) \<times> addr \<times> 'a world) outcome" where
  "VECTOR_UPDATE v new_count ty w =
     andthen (VECTOR_CREATE_OR_RESIZE v new_count ty w) (\<lambda>(v', w).
       if v' \<noteq> 0 then
         andthen (vload v' w) (\<lambda>b.
         andthen (c_assert ''VECTOR_ITEM_COUNT == new_count'' (used_count (hdr b) = new_count)) (\<lambda>_.
           Done (Inr (), v', w)))
       else if new_count = 0 then Done (Inr (), v', w)
       else Done (Inl (sg_get_error (Some (err (wenv w)))), v', w))"

text \<open>The data pointer of a vector is its address plus the header; the model keeps the address.\<close>

definition VECTOR_ITEM_COUNT :: "addr \<Rightarrow> 'a world \<Rightarrow> size_t outcome" where
  "VECTOR_ITEM_COUNT v w =
     (if v = 0 then Done 0 else andthen (vload v w) (\<lambda>b. Done (used_count (hdr b))))"

definition VECTOR_ADDRESS :: "addr \<Rightarrow> 'a world \<Rightarrow> addr outcome" where
  "VECTOR_ADDRESS d w =
     (if d = 0 then Done 0
      else andthen (sg_prove_vector d w) (\<lambda>rc. Done (if rc = SG_ERROR_NONE then d else 0)))"

definition sg_get_nelements :: "addr \<Rightarrow> 'a world \<Rightarrow> size_t outcome" where
  "sg_get_nelements d w = andthen (VECTOR_ADDRESS d w) (\<lambda>v. VECTOR_ITEM_COUNT v w)"

definition sg_free_stats_buf :: "addr \<Rightarrow> 'a world \<Rightarrow> (sg_error \<times> 'a world) outcome" where
  "sg_free_stats_buf d w =
     (if d \<noteq> 0 then
        andthen (VECTOR_ADDRESS d w) (\<lambda>v. andthen (sg_vector_free v w) (\<lambda>w. Done (SG_ERROR_NONE, w)))
      else Done (SG_ERROR_NONE, w))"

section \<open>Cloning\<close>

text \<open>
  The copy loop, with \<open>k\<close> items to go; it stops at the first error code. Both items are written
  back: which of its two arguments a copy function changes is the function's affair.
\<close>

fun copy_loop ::
  "'a vector_copy_function \<Rightarrow> addr \<Rightarrow> addr \<Rightarrow> nat \<Rightarrow> nat \<Rightarrow> 'a world \<Rightarrow> (sg_error \<times> 'a world) outcome" where
  "copy_loop f src dst i 0 w = Done (SG_ERROR_NONE, w)"
| "copy_loop f src dst i (Suc k) w =
     andthen (read_item src i w) (\<lambda>s.
     andthen (read_item dst i w) (\<lambda>d.
     andthen (f s d (wenv w)) (\<lambda>(rc, s', d', e).
     andthen (write_item src i s' (set_env e w)) (\<lambda>w.
     andthen (write_item dst i d' w) (\<lambda>w.
       if rc \<noteq> SG_ERROR_NONE then Done (rc, w) else copy_loop f src dst (Suc i) k w)))))"

text \<open>The code, the new \<^verbatim>\<open>*dest\<close> and the state.\<close>

definition sg_vector_clone_into_int ::
  "addr \<Rightarrow> addr \<Rightarrow> 'a world \<Rightarrow> (sg_error \<times> addr \<times> 'a world) outcome" where
  "sg_vector_clone_into_int dest src w =
     andthen (vload dest w) (\<lambda>bd.
     andthen (vload src w) (\<lambda>bs.
     andthen (if used_count (hdr bd) = used_count (hdr bs) then Done (dest, w)
              else sg_vector_resize dest (used_count (hdr bs)) w) (\<lambda>(tmp, w).
     andthen (c_assert ''src->info.copy_fn'' (fn_set (copy_fn (info (hdr bs))))) (\<lambda>_.
       if tmp = 0 then Done (sg_get_error (Some (err (wenv w))), dest, w)
       else
         case copy_fn (info (hdr bs)) of
           NullFn \<Rightarrow> Fault NullDeref
         | Fn _ f \<Rightarrow>
             andthen (copy_loop f src tmp 0 (unat (used_count (hdr bs))) w) (\<lambda>(rc, w).
               if rc \<noteq> SG_ERROR_NONE then andthen (sg_vector_free tmp w) (\<lambda>w. Done (rc, 0, w))
               else Done (SG_ERROR_NONE, tmp, w))))))"

definition sg_vector_clone :: "addr \<Rightarrow> 'a world \<Rightarrow> (addr \<times> 'a world) outcome" where
  "sg_vector_clone src w =
     (if src = 0 then Done (0, w)
      else
        andthen (sg_prove_vector src w) (\<lambda>rc.
          if rc \<noteq> SG_ERROR_NONE then andthen (sg_vector_free 0 w) (\<lambda>w. Done (0, w))
          else
            andthen (vload src w) (\<lambda>b.
            andthen (sg_vector_create_int (block_shift (hdr b)) (alloc_count (hdr b)) (used_count (hdr b))
                       (info (hdr b)) w) (\<lambda>(dest, w).
              if dest = 0 then andthen (sg_vector_free dest w) (\<lambda>w. Done (0, w))
              else
                andthen (sg_vector_clone_into_int dest src w) (\<lambda>(rc, dest, w).
                  if rc = SG_ERROR_NONE then Done (dest, w)
                  else andthen (sg_vector_free dest w) (\<lambda>w. Done (0, w)))))))"

text \<open>\<open>None\<close> is a NULL \<^verbatim>\<open>dest\<close>; \<open>Some d\<close> a pointer to \<^verbatim>\<open>*dest = d\<close>.\<close>

definition sg_vector_clone_into ::
  "addr option \<Rightarrow> addr \<Rightarrow> 'a world \<Rightarrow> (sg_error \<times> addr option \<times> 'a world) outcome" where
  "sg_vector_clone_into dest src w =
     (case dest of
        None \<Rightarrow>
          Done (SG_ERROR_INVALID_ARGUMENT, None,
                set_env (SET_ERROR SG_ERROR_INVALID_ARGUMENT (Some ''dest'') (wenv w)) w)
      | Some d \<Rightarrow>
          if src = 0 then
            (if d \<noteq> 0 then andthen (sg_vector_free d w) (\<lambda>w. Done (SG_ERROR_NONE, Some 0, w))
             else Done (SG_ERROR_NONE, Some d, w))
          else
            andthen (sg_prove_vector src w) (\<lambda>rc.
              if rc \<noteq> SG_ERROR_NONE then
                Done (SG_ERROR_INVALID_ARGUMENT, dest,
                      set_env (SET_ERROR SG_ERROR_INVALID_ARGUMENT (Some ''src'') (wenv w)) w)
              else
                andthen
                  (if d = 0 then
                     andthen (sg_vector_clone src w) (\<lambda>(d, w). Done (d \<noteq> 0, d, w))
                   else
                     andthen (sg_prove_vector d w) (\<lambda>rc.
                     andthen (if rc = SG_ERROR_NONE then sg_prove_vector_compat d src w else Done rc) (\<lambda>rc.
                       if rc = SG_ERROR_NONE then
                         andthen (sg_vector_clone_into_int d src w) (\<lambda>(rc, d, w).
                           Done (rc = SG_ERROR_NONE, d, w))
                       else Done (False, d, w)))) (\<lambda>(ok, d, w).
                if ok then Done (SG_ERROR_NONE, Some d, w)
                else
                  andthen (sg_vector_free d w) (\<lambda>w.
                    Done (sg_get_error (Some (err (wenv w))), Some 0, w)))))"

section \<open>Differences\<close>

text \<open>
  The inner loop over the items \<open>j\<close> of the last vector (\<open>k\<close> to go) for the item \<open>i\<close> of the
  difference vector: every item not matched yet that compares equal is marked and subtracted.
\<close>

fun diff_inner ::
  "'a vector_compare_function \<Rightarrow> 'a vector_compute_diff_function \<Rightarrow> addr \<Rightarrow> addr \<Rightarrow> nat \<Rightarrow> nat \<Rightarrow> nat
     \<Rightarrow> u32 list \<Rightarrow> 'a world \<Rightarrow> (u32 list \<times> 'a world) outcome" where
  "diff_inner cmp cd lst diff i j 0 matched w = Done (matched, w)"
| "diff_inner cmp cd lst diff i j (Suc k) matched w =
     (if BIT_ISSET matched j then diff_inner cmp cd lst diff i (Suc j) k matched w
      else
        andthen (read_item lst j w) (\<lambda>l.
        andthen (read_item diff i w) (\<lambda>d.
        andthen (cmp l d) (\<lambda>c.
          if c = 0 then
            andthen (cd l d) (\<lambda>(_, d').
            andthen (write_item diff i d' w) (\<lambda>w.
              diff_inner cmp cd lst diff i (Suc j) k (BIT_SET matched j) w))
          else diff_inner cmp cd lst diff i (Suc j) k matched w))))"

fun diff_outer ::
  "'a vector_compare_function \<Rightarrow> 'a vector_compute_diff_function \<Rightarrow> addr \<Rightarrow> addr \<Rightarrow> nat \<Rightarrow> nat \<Rightarrow> nat
     \<Rightarrow> u32 list \<Rightarrow> 'a world \<Rightarrow> 'a world outcome" where
  "diff_outer cmp cd lst diff lastn i 0 matched w = Done w"
| "diff_outer cmp cd lst diff lastn i (Suc k) matched w =
     andthen (diff_inner cmp cd lst diff i 0 lastn matched w) (\<lambda>(matched, w).
       diff_outer cmp cd lst diff lastn (Suc i) k matched w)"

definition sg_vector_compute_diff ::
  "addr option \<Rightarrow> addr \<Rightarrow> addr \<Rightarrow> 'a world \<Rightarrow> (sg_error \<times> addr option \<times> 'a world) outcome" where
  "sg_vector_compute_diff dest cur lst w =
     (case dest of
        None \<Rightarrow>
          Done (SG_ERROR_INVALID_ARGUMENT, None,
                set_env (SET_ERROR SG_ERROR_INVALID_ARGUMENT
                           (Some ''sg_vector_compute_diff(dest_vector_ptr)'') (wenv w)) w)
      | Some d \<Rightarrow>
          if cur \<noteq> 0 then
            andthen (sg_vector_clone_into (Some d) cur w) (\<lambda>(rc, dest, w).
              if rc \<noteq> SG_ERROR_NONE then Done (rc, dest, w)
              else if dest = Some 0 then Done (SG_ERROR_NONE, dest, w)
              else
                andthen (vload cur w) (\<lambda>bc.
                andthen (c_assert ''cur_vector->info.compute_diff_fn'' (fn_set (compute_diff_fn (info (hdr bc))))) (\<lambda>_.
                andthen (c_assert ''cur_vector->info.compare_fn'' (fn_set (compare_fn (info (hdr bc))))) (\<lambda>_.
                  if lst = 0 then Done (SG_ERROR_NONE, dest, w)
                  else
                    andthen (sg_prove_vector lst w) (\<lambda>rc.
                    andthen (if rc = SG_ERROR_NONE then sg_prove_vector_compat cur lst w else Done rc) (\<lambda>rc.
                      if rc \<noteq> SG_ERROR_NONE then Done (SG_ERROR_NONE, dest, w)
                      else
                        andthen (vload lst w) (\<lambda>bl.
                        andthen (vload (the dest) w) (\<lambda>bd.
                          case (compare_fn (info (hdr bl)), compute_diff_fn (info (hdr bl))) of
                            (Fn _ cmp, Fn _ cd) \<Rightarrow>
                              andthen (diff_outer cmp cd lst (the dest) (unat (used_count (hdr bl))) 0
                                         (unat (used_count (hdr bd)))
                                         (bits_new (unat (used_count (hdr bl)))) w) (\<lambda>w.
                                Done (SG_ERROR_NONE, dest, w))
                          | _ \<Rightarrow> Fault NullDeref))))))))
          else
            andthen (sg_vector_free d w) (\<lambda>w.
              Done (SG_ERROR_INVALID_ARGUMENT, Some 0,
                    set_env (SET_ERROR SG_ERROR_INVALID_ARGUMENT
                               (Some ''sg_vector_compute_diff(cur_vector)'') (wenv w)) w)))"

end
