(* ===== verification/Vector_Safety.thy ===== *)
theory Vector_Safety
  imports Vector
begin

text \<open>
  Memory safety and behaviour of the vector operations. The interface of an item type is a locale
  (\<open>vec_items\<close>): its size, and an invariant of its items that its init function establishes and
  under which its destroy function is safe. For every item type that meets it, the locale gives the
  contract of destroying, initialising, creating, freeing, clearing and resizing: no fault, the
  block invariant kept, the contents, and no other block touched.
\<close>

section \<open>Rounding of counts\<close>

definition rounded :: "nat \<Rightarrow> nat \<Rightarrow> nat" where
  "rounded n bs = ((n - 1) div 2 ^ bs + 1) * 2 ^ bs"

lemma rounded_ge: "n \<le> rounded n bs"
proof -
  have "n - 1 < 2 ^ bs + (n - 1) div 2 ^ bs * 2 ^ bs"
    by (rule dividend_less_div_times) simp
  then show ?thesis by (simp add: rounded_def)
qed

lemma rounded_less: "0 < n \<Longrightarrow> rounded n bs < n + 2 ^ bs"
proof -
  assume "0 < n"
  have "(n - 1) div 2 ^ bs * 2 ^ bs \<le> n - 1" by (rule div_times_less_eq_dividend)
  with \<open>0 < n\<close> have "(n - 1) div 2 ^ bs * 2 ^ bs < n" by linarith
  then show ?thesis by (simp add: rounded_def)
qed

lemma rounded_ge_block: "2 ^ bs \<le> rounded n bs"
  by (simp add: rounded_def)

lemma rounded_dvd: "2 ^ bs dvd rounded n bs"
  by (simp add: rounded_def)

lemma unat_NEXT_POWER2_IN:
  assumes "x \<noteq> 0" "bs < 64" "rounded (unat x) bs < 2 ^ 64"
  shows "unat (NEXT_POWER2_IN x bs) = rounded (unat x) bs"
proof -
  let ?q = "drop_bit bs (x - 1) :: size_t"
  have "unat ?q = drop_bit bs (unat x - 1)"
    using unat_minus_one [OF assms(1)] by (simp only: unat_drop_bit_eq)
  then have q: "unat ?q = (unat x - 1) div 2 ^ bs" by (simp add: drop_bit_eq_div)
  have le: "(unat x - 1) div 2 ^ bs + 1 \<le> rounded (unat x) bs"
    unfolding rounded_def using mult_le_mono2 [of 1 "2 ^ bs" "(unat x - 1) div 2 ^ bs + 1"] by simp
  have "unat (?q + 1) = (unat x - 1) div 2 ^ bs + 1"
    using q le assms(3) by (simp add: unat_word_ariths)
  then show ?thesis
    using assms(2,3) by (simp add: NEXT_POWER2_IN_def push_bit_eq_mult unat_word_ariths unat_pow2 rounded_def)
qed

text \<open>The rounding macro of the vectors delivers, while nothing overflows, the least multiple of the
  block size that holds the requested number of items.\<close>

theorem NEXT_POWER2_IN_correct:
  assumes "x \<noteq> 0" "bs < 64" "unat x + 2 ^ bs \<le> 2 ^ 64"
  shows "2 ^ bs dvd unat (NEXT_POWER2_IN x bs) \<and> unat x \<le> unat (NEXT_POWER2_IN x bs) \<and>
     unat (NEXT_POWER2_IN x bs) < unat x + 2 ^ bs"
proof -
  have pos: "0 < unat x" using assms(1) by (simp add: unat_gt_0)
  have "rounded (unat x) bs < 2 ^ 64"
    using rounded_less [OF pos, of bs] assms(3) by simp
  then have "unat (NEXT_POWER2_IN x bs) = rounded (unat x) bs"
    using assms by (simp add: unat_NEXT_POWER2_IN)
  then show ?thesis by (simp add: rounded_dvd rounded_ge rounded_less [OF pos])
qed

lemma NEXT_POWER2_IN_correct_witness:
  "2 ^ 4 dvd unat (NEXT_POWER2_IN 17 4) \<and> 17 \<le> unat (NEXT_POWER2_IN 17 4) \<and>
   unat (NEXT_POWER2_IN 17 4) < 17 + 2 ^ 4"
  using NEXT_POWER2_IN_correct [of 17 4] by simp

text \<open>For a count of zero the subtraction wraps and the rounded count is zero.\<close>

lemma drop_bit_max: "drop_bit bs (- 1 :: 'a::len word) = mask (LENGTH('a) - bs)"
  by (rule bit_word_eqI) (auto simp: bit_simps)

lemma NEXT_POWER2_IN_0: "bs < 64 \<Longrightarrow> NEXT_POWER2_IN 0 bs = 0"
proof -
  assume b: "bs < 64"
  have "drop_bit bs (0 - 1 :: size_t) + 1 = 2 ^ (64 - bs)"
    by (simp add: drop_bit_max mask_eq_exp_minus_1)
  then have "NEXT_POWER2_IN 0 bs = 2 ^ (64 - bs) * 2 ^ bs"
    by (simp add: NEXT_POWER2_IN_def push_bit_eq_mult)
  also have "\<dots> = (2 ^ 64 :: size_t)" using b by (simp flip: power_add)
  finally show ?thesis by simp
qed

section \<open>The block shift\<close>

lemma block_shift_loop_correct:
  assumes "unat bs \<le> 2 ^ 31" "s \<le> 31" "\<forall>t < s. 2 ^ t < unat bs"
  shows "\<exists>r. block_shift_loop bs s = Done r \<and> r \<le> 31 \<and> unat bs \<le> 2 ^ r \<and> (\<forall>t < r. 2 ^ t < unat bs)"
  using assms
proof (induction bs s rule: block_shift_loop.induct)
  case (1 bs s)
  have p: "unat (ucast (push_bit s (1 :: u32)) :: size_t) = 2 ^ s"
    using "1.prems"(2) by (simp add: push_bit_eq_mult unsigned_ucast_eq unat_pow2)
  show ?case
  proof (cases "2 ^ s < unat bs")
    case True
    have s: "s \<noteq> 31" using True "1.prems"(1) by (auto simp: not_less)
    with "1.prems" True have "\<forall>t<Suc s. 2 ^ t < unat bs" by (auto simp: less_Suc_eq)
    with "1.IH" "1.prems" True s p show ?thesis
      by (subst block_shift_loop.simps) (simp add: word_less_nat_alt)
  next
    case False
    with "1.prems" p show ?thesis
      by (subst block_shift_loop.simps) (simp add: word_less_nat_alt)
  qed
qed

section \<open>The heap\<close>

lemma vload_Done_iff: "vload v w = Done b \<longleftrightarrow> v \<noteq> 0 \<and> blocks w v = Some b"
  by (simp add: vload_def split: option.splits)

lemma vload_vstore [mem_simps]: "vload u (vstore v b w) = (if u = 0 then Fault NullDeref else if u = v then Done b else vload u w)"
  by (simp add: vload_def vstore_def)

lemma vstore_vstore [mem_simps]: "vstore v b (vstore v b' w) = vstore v b w"
  by (simp add: vstore_def)

lemma vstore_simps [simp]:
  "wenv (vstore v b w) = wenv w" "next_addr (vstore v b w) = next_addr w"
  "junk_item (vstore v b w) = junk_item w" "blocks (vstore v b w) = (blocks w)(v \<mapsto> b)"
  by (simp_all add: vstore_def)

lemma set_env_simps [simp]:
  "wenv (set_env e w) = e" "next_addr (set_env e w) = next_addr w"
  "junk_item (set_env e w) = junk_item w" "blocks (set_env e w) = blocks w"
  by (simp_all add: set_env_def)

lemma vload_set_env [mem_simps]: "vload v (set_env e w) = vload v w"
  by (simp add: vload_def)

text \<open>Addresses in use are below the next fresh one, and NULL is not in use.\<close>

definition heap_ok :: "'a world \<Rightarrow> bool" where
  "heap_ok w \<longleftrightarrow> 0 < next_addr w \<and> blocks w 0 = None \<and> (\<forall>v. blocks w v \<noteq> None \<longrightarrow> v < next_addr w)"

lemma heap_ok_vstore: "heap_ok w \<Longrightarrow> blocks w v \<noteq> None \<Longrightarrow> heap_ok (vstore v b w)"
  by (cases "v = 0") (auto simp: heap_ok_def)

lemma heap_ok_set_env [simp]: "heap_ok (set_env e w) = heap_ok w"
  by (simp add: heap_ok_def)

lemma heap_ok_free: "heap_ok w \<Longrightarrow> heap_ok (w\<lparr>blocks := (blocks w)(v := None)\<rparr>)"
  by (auto simp: heap_ok_def)

lemma heap_ok_fresh: "heap_ok w \<Longrightarrow> blocks w (next_addr w) = None"
  by (auto simp: heap_ok_def)

section \<open>The block invariant\<close>

text \<open>
  Magic numbers in place, the items in use inside the memory of the block and meeting the item
  invariant, and the recorded allocation not larger than the real one.
\<close>

definition vec_ok :: "'a sg_vector_init_info \<Rightarrow> ('a \<Rightarrow> bool) \<Rightarrow> 'a vblock \<Rightarrow> bool" where
  "vec_ok ty ok b \<longleftrightarrow>
     start_eye (hdr b) = SG_VECTOR_START_EYE \<and> final_eye (hdr b) = SG_VECTOR_FINAL_EYE \<and>
     info (hdr b) = ty \<and>
     length (slots b) = slot_count (bytes b) (item_size ty) \<and>
     unat (used_count (hdr b)) \<le> length (slots b) \<and>
     (\<forall>i < unat (used_count (hdr b)). ok (slots b ! i)) \<and>
     alloc_count (hdr b) \<noteq> 0 \<and> unat (alloc_count (hdr b)) \<le> length (slots b) \<and>
     unat (block_shift (hdr b)) < 32"

definition contents :: "'a vblock \<Rightarrow> 'a list" where
  "contents b = take (unat (used_count (hdr b))) (slots b)"

lemma length_contents: "vec_ok ty ok b \<Longrightarrow> length (contents b) = unat (used_count (hdr b))"
  by (simp add: contents_def vec_ok_def)

lemma vec_ok_contents: "vec_ok ty ok b \<Longrightarrow> x \<in> set (contents b) \<Longrightarrow> ok x"
  by (auto simp: contents_def vec_ok_def in_set_conv_nth)

lemma sg_prove_vector_ok: "vload v w = Done b \<Longrightarrow> vec_ok ty ok b \<Longrightarrow> sg_prove_vector v w = Done SG_ERROR_NONE"
  by (simp add: sg_prove_vector_def vec_ok_def)

lemma nth_in_set_take: "i < n \<Longrightarrow> n \<le> length xs \<Longrightarrow> xs ! i \<in> set (take n xs)"
  by (auto simp: in_set_conv_nth intro: exI [of _ i])

section \<open>The loops over slots\<close>

lemma destroy_slots_safe:
  assumes "\<And>x. ok x \<Longrightarrow> \<exists>y. f x = Done y" "i \<le> length xs" "\<forall>j < i. n \<le> j \<longrightarrow> ok (xs ! j)"
  shows "\<exists>ys. destroy_slots f v i n xs = Done ys \<and> length ys = length xs \<and>
     take n ys = take n xs \<and> drop i ys = drop i xs"
  using assms(2,3)
proof (induction i arbitrary: xs)
  case (Suc i)
  show ?case
  proof (cases "n < Suc i")
    case True
    then have "ok (xs ! i)" using Suc.prems(2) by auto
    then obtain y where y: "f (xs ! i) = Done y" using assms(1) by blast
    obtain ys where ys: "destroy_slots f v i n (xs[i := y]) = Done ys" "length ys = length xs"
        "take n ys = take n (xs[i := y])" "drop i ys = drop i (xs[i := y])"
      using Suc.IH [of "xs[i := y]"] Suc.prems by auto
    have "drop (Suc i) ys = drop (Suc i) xs"
      using arg_cong [OF ys(4), of "drop 1"] by simp
    with True y ys Suc.prems show ?thesis by simp
  qed simp
qed simp

lemma init_slots_eq:
  "i + k \<le> length xs \<Longrightarrow>
   init_slots f v i k xs = Done (take i xs @ map f (take k (drop i xs)) @ drop (i + k) xs)"
proof (induction k arbitrary: i xs)
  case (Suc k)
  then have i: "i < length xs" by simp
  have "init_slots f v i (Suc k) xs =
      Done (take (Suc i) (xs[i := f (xs ! i)]) @ map f (take k (drop (Suc i) xs)) @ drop (Suc i + k) xs)"
    using i Suc.IH [of "Suc i" "xs[i := f (xs ! i)]"] Suc.prems by simp
  also have "\<dots> = Done (take i xs @ map f (take (Suc k) (drop i xs)) @ drop (i + Suc k) xs)"
    using i by (simp add: take_Suc_update flip: Cons_nth_drop_Suc)
  finally show ?case .
qed simp

lemma init_slots_overflow:
  "i < length xs + 1 \<Longrightarrow> length xs < i + k \<Longrightarrow> init_slots f v i k xs = Fault (OutOfBounds v (length xs))"
proof (induction k arbitrary: i xs)
  case (Suc k)
  then show ?case using Suc.IH [of "Suc i" "xs[i := f (xs ! i)]"] by auto
qed simp

section \<open>The contract of an item type and of the operations on its vectors\<close>

definition raw_init :: "'a sg_vector_init_info \<Rightarrow> 'a \<Rightarrow> 'a" where
  "raw_init ty x = (case init_fn ty of NullFn \<Rightarrow> x | Fn _ f \<Rightarrow> f x)"

text \<open>Enough address space for \<open>n\<close> items of the type: the byte count does not wrap.\<close>

definition room :: "'a sg_vector_init_info \<Rightarrow> nat \<Rightarrow> bool" where
  "room ty n \<longleftrightarrow> 88 + n * unat (item_size ty) < 2 ^ 64"

lemma unat_VECTOR_SIZE: "unat VECTOR_SIZE = 88"
  by (simp add: VECTOR_SIZE_def)

lemma VECTOR_SIZE_room:
  "room ty (unat r) \<Longrightarrow> unat (VECTOR_SIZE + r * item_size ty) = 88 + unat r * unat (item_size ty)"
proof -
  assume r: "room ty (unat r)"
  then have "unat (r * item_size ty) = unat r * unat (item_size ty)"
    by (intro unat_mult_lem [THEN iffD1]) (simp add: room_def)
  with r show ?thesis
    using unat_add_lem [of VECTOR_SIZE "r * item_size ty"] by (simp add: VECTOR_SIZE_def room_def)
qed

lemma slot_count_room:
  "room ty (unat r) \<Longrightarrow> item_size ty \<noteq> 0 \<Longrightarrow>
   slot_count (VECTOR_SIZE + r * item_size ty) (item_size ty) = unat r"
  by (simp add: slot_count_def VECTOR_SIZE_room unat_VECTOR_SIZE unat_gt_0)

lemma VECTOR_SIZE_nonzero: "room ty (unat r) \<Longrightarrow> VECTOR_SIZE + r * item_size ty \<noteq> 0"
  using VECTOR_SIZE_room by fastforce

locale vec_items =
  fixes ty :: "'a sg_vector_init_info"
    and ok :: "'a \<Rightarrow> bool"
  assumes item_size_pos: "item_size ty \<noteq> 0"
    and init_ok: "init_fn ty = Fn n f \<Longrightarrow> ok (f x)"
    and raw_ok: "init_fn ty = NullFn \<Longrightarrow> ok x"
    and destroy_ok: "destroy_fn ty = Fn n g \<Longrightarrow> ok x \<Longrightarrow> \<exists>y. g x = Done y"
begin

lemma raw_init_ok: "ok (raw_init ty x)"
  by (cases "init_fn ty") (auto simp: raw_init_def init_ok raw_ok)

lemma destroy_unused_block:
  assumes b: "vload v w = Done b" and inv: "vec_ok ty ok b"
  shows "\<exists>b'. sg_vector_destroy_unused v n w = Done (vstore v b' w) \<and> vec_ok ty ok b' \<and>
     hdr b' = (hdr b)\<lparr>used_count := min (used_count (hdr b)) n\<rparr> \<and> bytes b' = bytes b \<and>
     length (slots b') = length (slots b) \<and> contents b' = take (unat n) (contents b)"
proof -
  let ?u = "used_count (hdr b)"
  let ?h = "(hdr b)\<lparr>used_count := min ?u n\<rparr>"
  have ty: "info (hdr b) = ty" using inv by (simp add: vec_ok_def)
  have h: "(if n < ?u then (hdr b)\<lparr>used_count := n\<rparr> else hdr b) = ?h"
    by (auto simp: min_def not_less)
  have "\<exists>ys. (case destroy_fn ty of
        Fn _ f \<Rightarrow> if n < ?u then destroy_slots f v (unat ?u) (unat n) (slots b) else Done (slots b)
      | NullFn \<Rightarrow> Done (slots b)) = Done ys \<and> length ys = length (slots b) \<and>
      take (min (unat ?u) (unat n)) ys = take (min (unat ?u) (unat n)) (slots b)"
  proof (cases "destroy_fn ty")
    case (Fn nm f)
    have "\<exists>ys. destroy_slots f v (unat ?u) (unat n) (slots b) = Done ys \<and> length ys = length (slots b) \<and>
        take (unat n) ys = take (unat n) (slots b) \<and> drop (unat ?u) ys = drop (unat ?u) (slots b)"
      by (rule destroy_slots_safe [where ok = ok, OF destroy_ok [OF Fn]]) (use inv in \<open>auto simp: vec_ok_def\<close>)
    with Fn show ?thesis by (auto simp: word_less_nat_alt min_def)
  qed simp
  then obtain ys where ys: "(case destroy_fn ty of
        Fn _ f \<Rightarrow> if n < ?u then destroy_slots f v (unat ?u) (unat n) (slots b) else Done (slots b)
      | NullFn \<Rightarrow> Done (slots b)) = Done ys" "length ys = length (slots b)"
      "take (min (unat ?u) (unat n)) ys = take (min (unat ?u) (unat n)) (slots b)"
    by blast
  let ?b = "b\<lparr>hdr := ?h, slots := ys\<rparr>"
  have "sg_vector_destroy_unused v n w = Done (vstore v ?b w)"
    using b ty ys(1) h by (simp add: sg_vector_destroy_unused_def)
  moreover have "contents ?b = take (unat n) (contents b)"
    using ys(3) by (simp add: contents_def unat_min min.commute)
  moreover have "vec_ok ty ok ?b"
    using inv ys(2) nth_take_eqI [OF ys(3)] by (auto simp: vec_ok_def unat_min)
  ultimately show ?thesis using ys(2) by (intro exI [of _ ?b]) simp
qed

lemma init_new_block:
  assumes b: "vload v w = Done b" and inv: "vec_ok ty ok b" and fits: "unat n \<le> length (slots b)"
  shows "\<exists>b'. sg_vector_init_new v n w = Done (vstore v b' w) \<and> vec_ok ty ok b' \<and>
     hdr b' = (hdr b)\<lparr>used_count := max (used_count (hdr b)) n\<rparr> \<and> bytes b' = bytes b \<and>
     length (slots b') = length (slots b) \<and>
     contents b' = contents b @ map (raw_init ty)
       (take (unat n - unat (used_count (hdr b))) (drop (unat (used_count (hdr b))) (slots b)))"
proof -
  let ?u = "unat (used_count (hdr b))"
  let ?ys = "take ?u (slots b) @ map (raw_init ty) (take (unat n - ?u) (drop ?u (slots b))) @
     drop (max ?u (unat n)) (slots b)"
  let ?b = "b\<lparr>hdr := (hdr b)\<lparr>used_count := max (used_count (hdr b)) n\<rparr>, slots := ?ys\<rparr>"
  have ty: "info (hdr b) = ty" and u: "?u \<le> length (slots b)" using inv by (auto simp: vec_ok_def)
  have h: "(if used_count (hdr b) < n then (hdr b)\<lparr>used_count := n\<rparr> else hdr b) =
      (hdr b)\<lparr>used_count := max (used_count (hdr b)) n\<rparr>"
    by (auto simp: max_def not_less)
  have id: "?ys = slots b" if "init_fn ty = NullFn \<or> \<not> used_count (hdr b) < n"
  proof (cases "?u < unat n")
    case True
    then have "raw_init ty = id" using that by (auto simp: raw_init_def word_less_nat_alt)
    moreover have "take (unat n - ?u) (drop ?u (slots b)) @ drop (unat n) (slots b) = drop ?u (slots b)"
      using True append_take_drop_id [of "unat n - ?u" "drop ?u (slots b)"] by simp
    ultimately show ?thesis using True by (simp add: max_absorb2)
  qed (simp add: max_absorb1)
  have "(case init_fn ty of
        Fn _ f \<Rightarrow> if used_count (hdr b) < n then init_slots f v ?u (unat n - ?u) (slots b) else Done (slots b)
      | NullFn \<Rightarrow> Done (slots b)) = Done ?ys"
  proof (cases "init_fn ty")
    case (Fn nm f)
    then have "f = raw_init ty" by (simp add: raw_init_def fun_eq_iff)
    then show ?thesis
      using Fn id fits u by (auto simp: init_slots_eq word_less_nat_alt max_absorb2)
  qed (simp add: id)
  then have "sg_vector_init_new v n w = Done (vstore v ?b w)"
    using b ty h by (simp add: sg_vector_init_new_def)
  moreover have cont: "contents ?b = contents b @ map (raw_init ty) (take (unat n - ?u) (drop ?u (slots b)))"
    using fits u by (simp add: contents_def unat_max)
  moreover have len: "length ?ys = length (slots b)" using fits u by (simp add: max_def)
  moreover have "vec_ok ty ok ?b"
  proof -
    have "ok (?ys ! i)" if i: "i < unat (max (used_count (hdr b)) n)" for i
    proof -
      have "?ys ! i \<in> set (take (unat (max (used_count (hdr b)) n)) ?ys)"
        using i by (rule nth_in_set_take) (use len fits u in \<open>simp add: unat_max\<close>)
      then have "?ys ! i \<in> set (contents ?b)" by (simp add: contents_def)
      then show ?thesis
        using cont vec_ok_contents [OF inv] raw_init_ok by auto
    qed
    then show ?thesis using inv len fits by (simp add: vec_ok_def unat_max)
  qed
  ultimately show ?thesis by (intro exI [of _ ?b]) simp
qed

lemma free_block:
  assumes "vload v w = Done b" "vec_ok ty ok b"
  shows "sg_vector_free v w = Done (w\<lparr>blocks := (blocks w)(v := None)\<rparr>)"
proof -
  obtain b' where d: "sg_vector_destroy_unused v 0 w = Done (vstore v b' w)"
    using destroy_unused_block [OF assms, of 0] by blast
  have v: "v \<noteq> 0" using assms(1) by (simp add: vload_Done_iff)
  have "vfree v (vstore v b' w) = Done (w\<lparr>blocks := (blocks w)(v := None)\<rparr>)"
    using v by (simp add: vfree_def vload_def vstore_def)
  with d v show ?thesis
    by (simp add: sg_vector_free_def sg_prove_vector_ok [OF assms])
qed

lemma clear_block:
  assumes "vload v w = Done b" "vec_ok ty ok b"
  shows "\<exists>b'. sg_vector_clear v w = Done (vstore v b' w) \<and> vec_ok ty ok b' \<and>
     hdr b' = (hdr b)\<lparr>used_count := 0\<rparr> \<and> length (slots b') = length (slots b) \<and> contents b' = []"
proof -
  have v: "v \<noteq> 0" using assms(1) by (simp add: vload_Done_iff)
  have m: "min x 0 = (0 :: size_t)" for x by (simp add: min_def)
  obtain b' where "sg_vector_destroy_unused v 0 w = Done (vstore v b' w)" "vec_ok ty ok b'"
      "hdr b' = (hdr b)\<lparr>used_count := min (used_count (hdr b)) 0\<rparr>" "length (slots b') = length (slots b)"
      "contents b' = take (unat (0 :: size_t)) (contents b)"
    using destroy_unused_block [OF assms, of 0] by blast
  then show ?thesis
    using v m by (auto simp: sg_vector_clear_def sg_prove_vector_ok [OF assms])
qed

text \<open>Creation: a fresh vector whose items in use are initialised, or NULL and the error of the allocator.\<close>

lemma create_int_len:
  assumes w: "heap_ok w" and bs: "unat bshift < 32"
    and n: "max alloc initial \<noteq> 0"
    and r: "room ty (rounded (unat (max alloc initial)) (unat bshift))"
  shows "\<exists>v w'. sg_vector_create_int bshift alloc initial ty w = Done (v, w') \<and> heap_ok w' \<and>
     junk_item w' = junk_item w \<and>
     (v = 0 \<and> blocks w' = blocks w \<and> error (err (wenv w')) = SG_ERROR_MALLOC \<and> sched (wenv w) \<noteq> [] \<or>
      v = next_addr w \<and> err (wenv w') = err (wenv w) \<and> (sched (wenv w) = [] \<longrightarrow> wenv w' = wenv w) \<and>
      (\<exists>b. blocks w' = (blocks w)(v \<mapsto> b) \<and> vec_ok ty ok b \<and> used_count (hdr b) = initial \<and>
           block_shift (hdr b) = bshift \<and> alloc_count (hdr b) = push_bit (unat bshift) 1 \<and>
           contents b = replicate (unat initial) (raw_init ty (junk_item w)) \<and>
           length (slots b) = rounded (unat (max alloc initial)) (unat bshift)))"
proof -
  let ?n = "max alloc initial" and ?bs = "unat bshift"
  let ?rc = "NEXT_POWER2_IN ?n ?bs"
  let ?sz = "VECTOR_SIZE + ?rc * item_size ty"
  let ?h = "\<lparr>start_eye = SG_VECTOR_START_EYE, used_count = 0, alloc_count = push_bit ?bs 1,
     block_shift = bshift, info = ty, final_eye = SG_VECTOR_FINAL_EYE\<rparr>"
  have "rounded (unat ?n) ?bs \<le> rounded (unat ?n) ?bs * unat (item_size ty)"
    using item_size_pos by (simp add: unat_gt_0 Suc_le_eq)
  then have "rounded (unat ?n) ?bs < 2 ^ 64" using r unfolding room_def by linarith
  then have rc: "unat ?rc = rounded (unat ?n) ?bs"
    using n bs by (simp add: unat_NEXT_POWER2_IN)
  have room: "room ty (unat ?rc)" using r rc by simp
  have slots: "slot_count ?sz (item_size ty) = unat ?rc"
    using slot_count_room [OF room item_size_pos] .
  have nz: "?sz \<noteq> 0" using VECTOR_SIZE_nonzero [OF room] .
  obtain c e where c: "sg_realloc_choice ?sz (wenv w) = (c, e)" by fastforce
  show ?thesis
  proof (cases "c = AFail")
    case True
    with c have "error (err e) = SG_ERROR_MALLOC" "sched (wenv w) \<noteq> []"
      using sg_realloc_choice_fail by fastforce+
    then show ?thesis
      using True c nz w by (simp add: sg_vector_create_int_def valloc_def Let_def)
  next
    case False
    let ?v = "next_addr w"
    let ?b = "\<lparr>hdr = ?h, bytes = ?sz, slots = replicate (unat ?rc) (junk_item w)\<rparr>"
    let ?w = "(set_env e w)\<lparr>next_addr := Suc ?v, blocks := (blocks w)(?v \<mapsto> ?b)\<rparr>"
    have v: "?v \<noteq> 0" using w by (simp add: heap_ok_def)
    have al: "valloc ?h ?sz w = (?v, ?w)"
      using False c nz slots by (simp add: valloc_def Let_def)
    have ld: "vload ?v ?w = Done ?b" using v by (simp add: vload_Done_iff)
    have p: "unat (push_bit ?bs 1 :: size_t) = 2 ^ ?bs"
      using bs by (simp add: push_bit_eq_mult unat_pow2)
    have okb: "vec_ok ty ok ?b"
      using slots p rc rounded_ge_block bs by (auto simp: vec_ok_def unat_eq_zero simp flip: unat_eq_0)
    have fits: "unat initial \<le> length (slots ?b)"
      using rc rounded_ge [of "unat ?n" ?bs] by (simp add: unat_max)
    obtain b' where b': "sg_vector_init_new ?v initial ?w = Done (vstore ?v b' ?w)" "vec_ok ty ok b'"
        "hdr b' = (hdr ?b)\<lparr>used_count := max 0 initial\<rparr>"
        "contents b' = map (raw_init ty) (replicate (unat initial) (junk_item w))"
        "length (slots b') = rounded (unat ?n) ?bs"
      using init_new_block [OF ld okb fits] fits rc by (auto simp: contents_def min_absorb1)
    have m: "max 0 initial = initial" by (simp add: max_def)
    have e: "err e = err (wenv w)" using sg_realloc_choice_succeed [OF c False] by simp
    have e': "sched (wenv w) = [] \<Longrightarrow> e = wenv w" using c by (simp add: sg_realloc_choice_ok)
    have "sg_vector_create_int bshift alloc initial ty w = Done (?v, vstore ?v b' ?w)"
      using al b'(1) v by (simp add: sg_vector_create_int_def)
    moreover have "heap_ok (vstore ?v b' ?w)" using w by (auto simp: heap_ok_def less_Suc_eq)
    ultimately show ?thesis using b' m e e' by auto
  qed
qed

lemma create_int_ok:
  assumes w: "heap_ok w" and bs: "unat bshift < 32"
    and n: "max alloc initial \<noteq> 0"
    and r: "room ty (rounded (unat (max alloc initial)) (unat bshift))"
  shows "\<exists>v w'. sg_vector_create_int bshift alloc initial ty w = Done (v, w') \<and> heap_ok w' \<and>
     junk_item w' = junk_item w \<and>
     (v = 0 \<and> blocks w' = blocks w \<and> error (err (wenv w')) = SG_ERROR_MALLOC \<and> sched (wenv w) \<noteq> [] \<or>
      v = next_addr w \<and> err (wenv w') = err (wenv w) \<and> (sched (wenv w) = [] \<longrightarrow> wenv w' = wenv w) \<and>
      (\<exists>b. blocks w' = (blocks w)(v \<mapsto> b) \<and> vec_ok ty ok b \<and> used_count (hdr b) = initial \<and>
           block_shift (hdr b) = bshift \<and> alloc_count (hdr b) = push_bit (unat bshift) 1 \<and>
           contents b = replicate (unat initial) (raw_init ty (junk_item w))))"
  using create_int_len [OF assms] by (elim exE conjE disjE) blast+

text \<open>Reallocation of a vector that is to keep its items in use.\<close>

lemma realloc_block:
  assumes w: "heap_ok w" and b: "vload v w = Done b" and inv: "vec_ok ty ok b"
    and rm: "room ty (unat rc)" and fits: "unat (used_count (hdr b)) \<le> unat rc" "rc \<noteq> 0"
  shows "\<exists>v' w'. vrealloc v (VECTOR_SIZE + rc * item_size ty) w = Done (v', w') \<and> heap_ok w' \<and>
     junk_item w' = junk_item w \<and>
     (v' = 0 \<and> w' = set_env (wenv w') w \<and> error (err (wenv w')) = SG_ERROR_MALLOC \<and> sched (wenv w) \<noteq> [] \<or>
      v' \<noteq> 0 \<and> (v' = v \<or> v' = next_addr w) \<and> err (wenv w') = err (wenv w) \<and>
      (sched (wenv w) = [] \<longrightarrow> wenv w' = wenv w) \<and>
      (\<exists>b'. blocks w' = (blocks w)(v := None, v' \<mapsto> b') \<and> hdr b' = hdr b \<and>
         vec_ok ty ok (b'\<lparr>hdr := (hdr b')\<lparr>alloc_count := rc\<rparr>\<rparr>) \<and>
         length (slots b') = unat rc \<and> contents b' = contents b))"
proof -
  let ?sz = "VECTOR_SIZE + rc * item_size ty"
  let ?b = "b\<lparr>bytes := ?sz, slots := resize_slots (junk_item w) (unat rc) (slots b)\<rparr>"
  have ty: "info (hdr b) = ty" using inv by (simp add: vec_ok_def)
  have v: "v \<noteq> 0" "v < next_addr w" using b w by (auto simp: vload_Done_iff heap_ok_def)
  have sc: "slot_count ?sz (item_size ty) = unat rc" using slot_count_room [OF rm item_size_pos] .
  have nz: "?sz \<noteq> 0" using VECTOR_SIZE_nonzero [OF rm] .
  have u: "unat (used_count (hdr b)) \<le> length (slots b)" using inv by (simp add: vec_ok_def)
  have len: "length (slots ?b) = unat rc" by (simp add: resize_slots_def)
  have cont: "contents ?b = contents b"
    using fits u by (simp add: contents_def resize_slots_def min_absorb1)
  have "\<forall>i < unat (used_count (hdr b)). ok (slots ?b ! i)"
    using inv fits u by (auto simp: vec_ok_def resize_slots_def nth_append)
  then have okb: "vec_ok ty ok (?b\<lparr>hdr := (hdr ?b)\<lparr>alloc_count := rc\<rparr>\<rparr>)"
    using inv fits len sc by (simp add: vec_ok_def)
  obtain c e where c: "sg_realloc_choice ?sz (wenv w) = (c, e)" by fastforce
  have good: "c \<noteq> AFail \<Longrightarrow> err e = err (wenv w)"
    using sg_realloc_choice_succeed [OF c] by simp
  have quiet: "sched (wenv w) = [] \<Longrightarrow> c = AMove \<and> e = wenv w" using c by (simp add: sg_realloc_choice_ok)
  show ?thesis
  proof (cases c)
    case AFail
    with c have f: "error (err e) = SG_ERROR_MALLOC" "sched (wenv w) \<noteq> []"
      using sg_realloc_choice_fail by fastforce+
    have "vrealloc v ?sz w = Done (0, set_env e w)"
      using AFail c nz b by (simp add: vrealloc_def)
    with f w show ?thesis by auto
  next
    case AMove
    let ?v = "next_addr w"
    let ?w = "(set_env e w)\<lparr>next_addr := Suc ?v, blocks := (blocks w)(v := None, ?v \<mapsto> ?b)\<rparr>"
    have "vrealloc v ?sz w = Done (?v, ?w)"
      using AMove c nz b ty sc by (simp add: vrealloc_def Let_def)
    moreover have "heap_ok ?w" using w v by (auto simp: heap_ok_def less_Suc_eq)
    ultimately show ?thesis using good quiet AMove okb len cont v by auto
  next
    case AInPlace
    let ?w = "vstore v ?b (set_env e w)"
    have "vrealloc v ?sz w = Done (v, ?w)"
      using AInPlace c nz b ty sc by (simp add: vrealloc_def Let_def)
    moreover have "heap_ok ?w"
      using w b by (intro heap_ok_vstore) (auto simp: vload_Done_iff)
    ultimately show ?thesis using good quiet AInPlace okb len cont v by auto
  qed
qed

text \<open>Resizing: the items that stay keep their values, new ones are initialised, or the vector is gone.\<close>

lemma resize_len:
  assumes w: "heap_ok w" and b: "vload v w = Done b" and inv: "vec_ok ty ok b" and n: "n \<noteq> 0"
    and r: "room ty (rounded (unat n) (unat (block_shift (hdr b))))"
  shows "\<exists>v' w'. sg_vector_resize v n w = Done (v', w') \<and> heap_ok w' \<and> junk_item w' = junk_item w \<and>
     (v' = 0 \<and> blocks w' = (blocks w)(v := None) \<and> error (err (wenv w')) = SG_ERROR_MALLOC \<and>
        sched (wenv w) \<noteq> [] \<or>
      v' \<noteq> 0 \<and> (v' = v \<or> v' = next_addr w) \<and> err (wenv w') = err (wenv w) \<and>
      (sched (wenv w) = [] \<longrightarrow> wenv w' = wenv w) \<and>
      (\<exists>b' ys. blocks w' = (blocks w)(v := None, v' \<mapsto> b') \<and> vec_ok ty ok b' \<and>
         used_count (hdr b') = n \<and> block_shift (hdr b') = block_shift (hdr b) \<and>
         contents b' = take (unat n) (contents b) @ map (raw_init ty) ys \<and>
         (length (slots b') = length (slots b) \<or>
          length (slots b') = rounded (unat n) (unat (block_shift (hdr b))))))"
proof -
  let ?rc = "NEXT_POWER2_IN n (unat (block_shift (hdr b)))"
  have bs: "unat (block_shift (hdr b)) < 32" and ty: "info (hdr b) = ty" using inv by (auto simp: vec_ok_def)
  have "rounded (unat n) (unat (block_shift (hdr b))) \<le>
      rounded (unat n) (unat (block_shift (hdr b))) * unat (item_size ty)"
    using item_size_pos by (simp add: unat_gt_0 Suc_le_eq)
  then have "rounded (unat n) (unat (block_shift (hdr b))) < 2 ^ 64" using r unfolding room_def by linarith
  then have rc: "unat ?rc = rounded (unat n) (unat (block_shift (hdr b)))"
    using n bs by (simp add: unat_NEXT_POWER2_IN)
  have le: "unat n \<le> unat ?rc" using rc rounded_ge by simp
  have rc0: "?rc \<noteq> 0" using le n by (metis unat_0 le_zero_eq unat_eq_zero)
  have rm: "room ty (unat ?rc)" using r rc by simp
  have v: "v \<noteq> 0" using b by (simp add: vload_Done_iff)
  obtain b1 where d: "sg_vector_destroy_unused v n w = Done (vstore v b1 w)" and b1: "vec_ok ty ok b1"
      "hdr b1 = (hdr b)\<lparr>used_count := min (used_count (hdr b)) n\<rparr>" "contents b1 = take (unat n) (contents b)"
      "length (slots b1) = length (slots b)"
    using destroy_unused_block [OF b inv, of n] by blast
  let ?w1 = "vstore v b1 w"
  have ld1: "vload v ?w1 = Done b1" using v by (simp add: vload_vstore)
  have w1: "heap_ok ?w1" using w b by (intro heap_ok_vstore) (auto simp: vload_Done_iff)
  have mx: "max (min u n) n = n" for u :: size_t by (simp add: max_def min_def)
  show ?thesis
  proof (cases "?rc = alloc_count (hdr b)")
    case True
    have fits: "unat n \<le> length (slots b1)" using b1(1,2) le True by (simp add: vec_ok_def)
    obtain b2 ys where i: "sg_vector_init_new v n ?w1 = Done (vstore v b2 ?w1)" "vec_ok ty ok b2"
        "hdr b2 = (hdr b1)\<lparr>used_count := max (used_count (hdr b1)) n\<rparr>"
        "contents b2 = contents b1 @ map (raw_init ty) ys" "length (slots b2) = length (slots b1)"
      using init_new_block [OF ld1 b1(1) fits] by blast
    have "sg_vector_resize v n w = Done (v, vstore v b2 w)"
      using v n d ld1 b1(2) True i(1)
      by (simp add: sg_vector_resize_def sg_prove_vector_ok [OF b inv] vstore_vstore)
    moreover have "heap_ok (vstore v b2 w)" using w b by (intro heap_ok_vstore) (auto simp: vload_Done_iff)
    moreover have "blocks (vstore v b2 w) = (blocks w)(v := None, v \<mapsto> b2) \<and> vec_ok ty ok b2 \<and>
        used_count (hdr b2) = n \<and> block_shift (hdr b2) = block_shift (hdr b) \<and>
        contents b2 = take (unat n) (contents b) @ map (raw_init ty) ys \<and> length (slots b2) = length (slots b)"
      using i b1 mx by simp
    ultimately show ?thesis using v by (metis vstore_simps(1,3))
  next
    case False
    have un: "unat (used_count (hdr b1)) \<le> unat ?rc" using b1(2) le by (simp add: unat_min)
    obtain v' w' where re: "vrealloc v (VECTOR_SIZE + ?rc * item_size ty) ?w1 = Done (v', w')" "heap_ok w'"
        "junk_item w' = junk_item w"
      and alt: "v' = 0 \<and> w' = set_env (wenv w') ?w1 \<and> error (err (wenv w')) = SG_ERROR_MALLOC \<and> sched (wenv w) \<noteq> [] \<or>
        v' \<noteq> 0 \<and> (v' = v \<or> v' = next_addr w) \<and> err (wenv w') = err (wenv w) \<and>
        (sched (wenv w) = [] \<longrightarrow> wenv w' = wenv w) \<and>
        (\<exists>b'. blocks w' = (blocks ?w1)(v := None, v' \<mapsto> b') \<and> hdr b' = hdr b1 \<and>
           vec_ok ty ok (b'\<lparr>hdr := (hdr b')\<lparr>alloc_count := ?rc\<rparr>\<rparr>) \<and>
           length (slots b') = unat ?rc \<and> contents b' = contents b1)"
      using realloc_block [OF w1 ld1 b1(1) rm un rc0] by auto
    have go: "sg_vector_resize v n w =
        (if v' = 0 then andthen (sg_vector_free v w') (\<lambda>w. Done (0, w))
         else andthen (vload v' w') (\<lambda>b.
           andthen (sg_vector_init_new v' n (vstore v' (b\<lparr>hdr := (hdr b)\<lparr>alloc_count := ?rc\<rparr>\<rparr>) w')) (\<lambda>w. Done (v', w))))"
      using v n d ld1 b1(2) ty False re(1) rc0
      by (simp add: sg_vector_resize_def sg_prove_vector_ok [OF b inv])
    show ?thesis
    proof (cases "v' = 0")
      case v0: True
      with alt have w': "w' = set_env (wenv w') ?w1"
        and er: "error (err (wenv w')) = SG_ERROR_MALLOC" "sched (wenv w) \<noteq> []" by blast+
      have "vload v w' = Done b1" using ld1 w' vload_set_env by metis
      then have "sg_vector_free v w' = Done (w'\<lparr>blocks := (blocks w')(v := None)\<rparr>)"
        using b1(1) by (rule free_block)
      moreover have "blocks w' = (blocks w)(v \<mapsto> b1)" using w' by (metis set_env_simps(4) vstore_simps(4))
      ultimately show ?thesis using go v0 er re heap_ok_free [OF re(2), of v] by auto
    next
      case v': False
      with alt have vv: "v' = v \<or> v' = next_addr w" and e': "err (wenv w') = err (wenv w)"
        "sched (wenv w) = [] \<longrightarrow> wenv w' = wenv w" by blast+
      from alt v' obtain b' where bl: "blocks w' = (blocks ?w1)(v := None, v' \<mapsto> b')" and b': "hdr b' = hdr b1"
          "vec_ok ty ok (b'\<lparr>hdr := (hdr b')\<lparr>alloc_count := ?rc\<rparr>\<rparr>)"
          "length (slots b') = unat ?rc" "contents b' = contents b1" by blast
      let ?b2 = "b'\<lparr>hdr := (hdr b')\<lparr>alloc_count := ?rc\<rparr>\<rparr>"
      have ld: "vload v' w' = Done b'" using bl v' by (simp add: vload_Done_iff)
      have ld2: "vload v' (vstore v' ?b2 w') = Done ?b2" using v' by (simp add: vload_vstore)
      have fits2: "unat n \<le> length (slots ?b2)" using b'(3) le by simp
      obtain b3 ys where i: "sg_vector_init_new v' n (vstore v' ?b2 w') = Done (vstore v' b3 w')" "vec_ok ty ok b3"
          "hdr b3 = (hdr ?b2)\<lparr>used_count := max (used_count (hdr ?b2)) n\<rparr>"
          "contents b3 = contents ?b2 @ map (raw_init ty) ys" "length (slots b3) = length (slots ?b2)"
        using init_new_block [OF ld2 b'(2) fits2] unfolding vstore_vstore by blast
      have "contents ?b2 = contents b'" by (simp add: contents_def)
      moreover have "heap_ok (vstore v' b3 w')" using re(2) bl by (intro heap_ok_vstore) auto
      moreover have "blocks (vstore v' b3 w') = (blocks w)(v := None, v' \<mapsto> b3)" using bl by auto
      moreover have "length (slots b3) = rounded (unat n) (unat (block_shift (hdr b)))" using i(5) b'(3) rc by simp
      ultimately show ?thesis using go v' vv ld i b' b1 mx e' re(3) by auto
    qed
  qed
qed

lemma resize_ok:
  assumes w: "heap_ok w" and b: "vload v w = Done b" and inv: "vec_ok ty ok b" and n: "n \<noteq> 0"
    and r: "room ty (rounded (unat n) (unat (block_shift (hdr b))))"
  shows "\<exists>v' w'. sg_vector_resize v n w = Done (v', w') \<and> heap_ok w' \<and> junk_item w' = junk_item w \<and>
     (v' = 0 \<and> blocks w' = (blocks w)(v := None) \<and> error (err (wenv w')) = SG_ERROR_MALLOC \<and>
        sched (wenv w) \<noteq> [] \<or>
      v' \<noteq> 0 \<and> (v' = v \<or> v' = next_addr w) \<and> err (wenv w') = err (wenv w) \<and>
      (sched (wenv w) = [] \<longrightarrow> wenv w' = wenv w) \<and>
      (\<exists>b' ys. blocks w' = (blocks w)(v := None, v' \<mapsto> b') \<and> vec_ok ty ok b' \<and>
         used_count (hdr b') = n \<and> block_shift (hdr b') = block_shift (hdr b) \<and>
         contents b' = take (unat n) (contents b) @ map (raw_init ty) ys))"
  using resize_len [OF assms] by (elim exE conjE disjE) blast+

end

end
