(* ===== verification/Vector_Clone.thy ===== *)
theory Vector_Clone
  imports Vector_Safety
begin

text \<open>
  Cloning of vectors and computing the difference of two snapshots. The interface of an item type
  that can be cloned (\<open>copy_items\<close>) adds the law of its copy function to \<open>vec_items\<close>, the interface of
  one that can be subtracted (\<open>diff_items\<close>) the laws of its compare and compute-diff functions. For
  every such type, \<^verbatim>\<open>sg_vector_compute_diff\<close> implements the abstract \<open>diff_spec\<close>.
\<close>

section \<open>Helpers\<close>

lemma vstore_same: "vload v w = Done b \<Longrightarrow> vstore v b w = w"
  by (simp add: vload_Done_iff vstore_def fun_upd_idem)

lemma vstore_set_env: "vstore v b (set_env e w) = set_env e (vstore v b w)"
  by (simp add: vstore_def set_env_def)

lemma set_env_set_env [simp]: "set_env e (set_env e' w) = set_env e w"
  by (simp add: set_env_def)

lemma set_env_id [simp]: "set_env (wenv w) w = w"
  by (simp add: set_env_def)

lemma write_item_Done:
  "vload v w = Done b \<Longrightarrow> i < length (slots b) \<Longrightarrow>
   write_item v i x w = Done (vstore v (b\<lparr>slots := (slots b)[i := x]\<rparr>) w)"
  by (simp add: write_item_def)

lemma read_item_Done:
  "vload v w = Done b \<Longrightarrow> i < length (slots b) \<Longrightarrow> read_item v i w = Done (slots b ! i)"
  by (simp add: read_item_def)

lemma rewrite_item:
  "vload v w = Done b \<Longrightarrow> i < length (slots b) \<Longrightarrow> write_item v i (slots b ! i) (set_env e w) = Done (set_env e w)"
  by (simp add: write_item_Done vload_set_env vstore_same)

lemma filter_map_nth: "map ((!) xs) (filter (\<lambda>i. P (xs ! i)) [0..<length xs]) = filter P xs"
proof -
  have "filter P (map ((!) xs) [0..<length xs]) = map ((!) xs) (filter (P \<circ> (!) xs) [0..<length xs])"
    by (rule filter_map)
  then show ?thesis by (simp add: map_nth comp_def)
qed

lemma take_update_beyond: "n \<le> i \<Longrightarrow> take n (xs[i := x]) = take n xs"
  by simp

text \<open>Room for a copy of a vector whatever its block shift.\<close>

definition room_for :: "'a sg_vector_init_info \<Rightarrow> 'a vblock \<Rightarrow> bool" where
  "room_for ty b \<longleftrightarrow> room ty (length (slots b) + 2 ^ 32)"

lemma room_mono: "room ty n \<Longrightarrow> m \<le> n \<Longrightarrow> room ty m"
  unfolding room_def by (meson add_le_mono le_less_trans mult_le_mono1 order_refl)

lemma room_for_rounded:
  assumes "room_for ty b" "0 < n" "n \<le> length (slots b)" "bs < 32"
  shows "room ty (rounded n bs)"
proof -
  have "(2::nat) ^ bs \<le> 2 ^ 32" using assms(4) by (intro power_increasing) auto
  then have "rounded n bs \<le> length (slots b) + 2 ^ 32"
    using rounded_less [OF assms(2), of bs] assms(3) by linarith
  with assms(1) show ?thesis unfolding room_for_def by (rule room_mono)
qed

text \<open>The targets of \<^verbatim>\<open>sg_vector_clone_into\<close>: NULL, a vector of the size of the source, or one that can be resized without failing.\<close>

definition clone_target ::
  "'a sg_vector_init_info \<Rightarrow> ('a \<Rightarrow> bool) \<Rightarrow> addr \<Rightarrow> addr \<Rightarrow> 'a vblock \<Rightarrow> 'a world \<Rightarrow> bool" where
  "clone_target ty ok d src bs w \<longleftrightarrow> d = 0 \<or>
     d \<noteq> src \<and> (\<exists>bd. vload d w = Done bd \<and> vec_ok ty ok bd \<and>
       (used_count (hdr bd) = used_count (hdr bs) \<or> used_count (hdr bs) \<noteq> 0 \<and> sched (wenv w) = []))"

lemma fn_same_refl [simp]: "fn_same p p"
  by (cases p) auto

lemma compat_ok:
  "vload one w = Done b1 \<Longrightarrow> vload two w = Done b2 \<Longrightarrow> vec_ok ty ok b1 \<Longrightarrow> vec_ok ty ok b2 \<Longrightarrow>
   sg_prove_vector_compat one two w = Done SG_ERROR_NONE"
  by (frule vload_Done_iff [THEN iffD1, of one], frule vload_Done_iff [THEN iffD1, of two])
    (simp add: sg_prove_vector_compat_def Let_def vec_ok_def)

section \<open>Cloning\<close>

locale copy_items = vec_items ty ok
  for ty :: "'a sg_vector_init_info" and ok :: "'a \<Rightarrow> bool" +
  fixes view :: "'a \<Rightarrow> 'v"
  assumes copy_set: "fn_set (copy_fn ty)"
    and copy_law: "copy_fn ty = Fn n f \<Longrightarrow> ok s \<Longrightarrow> ok d \<Longrightarrow>
      \<exists>rc d' e'. f s d e = Done (rc, s, d', e') \<and> ok d' \<and> (sched e = [] \<longrightarrow> rc = SG_ERROR_NONE \<and> e' = e) \<and>
        (if rc = SG_ERROR_NONE then view d' = view s \<and> err e' = err e else error (err e') = rc)"
begin

text \<open>The copy loop: the destination items become copies, up to the first one that fails.\<close>

lemma copy_loop_ok:
  assumes f: "copy_fn ty = Fn n f" and ne: "src \<noteq> dst"
    and ls: "vload src w = Done bs" and ld: "vload dst w = Done bd"
    and len: "i + k \<le> length (slots bs)" "i + k \<le> length (slots bd)"
    and okS: "\<forall>j < i + k. ok (slots bs ! j)" and okD: "\<forall>j < i + k. ok (slots bd ! j)"
  shows "\<exists>rc ys e'. copy_loop f src dst i k w = Done (rc, set_env e' (vstore dst (bd\<lparr>slots := ys\<rparr>) w)) \<and>
     length ys = length (slots bd) \<and> (\<forall>j < i + k. ok (ys ! j)) \<and>
     (sched (wenv w) = [] \<longrightarrow> rc = SG_ERROR_NONE \<and> e' = wenv w) \<and>
     (if rc = SG_ERROR_NONE then err e' = err (wenv w) \<and>
        (\<forall>j < i + k. view (ys ! j) = view (if j < i then slots bd ! j else slots bs ! j))
      else error (err e') = rc)"
  using ls ld len okS okD
proof (induction k arbitrary: i w bd)
  case 0
  then show ?case
    by (auto intro!: exI [of _ "slots bd"] exI [of _ "wenv w"] simp: vstore_same)
next
  case (Suc k)
  let ?s = "slots bs ! i" and ?d = "slots bd ! i"
  have i: "i < length (slots bs)" "i < length (slots bd)" and okSD: "ok ?s" "ok ?d" using Suc.prems by auto
  obtain rc d' e where c: "f ?s ?d (wenv w) = Done (rc, ?s, d', e)" "ok d'"
      "sched (wenv w) = [] \<longrightarrow> rc = SG_ERROR_NONE \<and> e = wenv w"
      "if rc = SG_ERROR_NONE then view d' = view ?s \<and> err e = err (wenv w) else error (err e) = rc"
    using copy_law [OF f okSD, of "wenv w"] by blast
  let ?bd = "bd\<lparr>slots := (slots bd)[i := d']\<rparr>"
  let ?w = "set_env e (vstore dst ?bd w)"
  have step: "copy_loop f src dst i (Suc k) w =
      (if rc \<noteq> SG_ERROR_NONE then Done (rc, ?w) else copy_loop f src dst (Suc i) k ?w)"
    using Suc.prems i c(1)
    by (simp add: read_item_Done rewrite_item write_item_Done vload_set_env vstore_set_env vstore_same)
  show ?case
  proof (cases "rc = SG_ERROR_NONE")
    case False
    then have "copy_loop f src dst i (Suc k) w = Done (rc, ?w)" using step by simp
    moreover have "\<forall>j < i + Suc k. ok ((slots bd)[i := d'] ! j)"
      using Suc.prems(6) c(2) i by (simp add: nth_list_update)
    ultimately show ?thesis using False c(3,4)
      by (intro exI [of _ rc] exI [of _ "(slots bd)[i := d']"] exI [of _ e]) simp
  next
    case True
    have nz: "dst \<noteq> 0" "src \<noteq> 0" using Suc.prems by (auto simp: vload_Done_iff)
    have l': "vload src ?w = Done bs" "vload dst ?w = Done ?bd"
      using Suc.prems(1,2) ne nz by (simp_all add: vload_set_env vload_vstore)
    have oks: "\<forall>j < Suc i + k. ok (slots bs ! j)" "\<forall>j < Suc i + k. ok (slots ?bd ! j)"
      using Suc.prems(5,6) c(2) i by (simp_all add: nth_list_update)
    have lens: "Suc i + k \<le> length (slots bs)" "Suc i + k \<le> length (slots ?bd)" using Suc.prems(3,4) by simp_all
    have "wenv ?w = e" "length (slots ?bd) = length (slots bd)" by simp_all
    with Suc.IH [OF l' lens oks]
    obtain rc' ys e' where ih: "copy_loop f src dst (Suc i) k ?w = Done (rc', set_env e' (vstore dst (?bd\<lparr>slots := ys\<rparr>) ?w))"
        "length ys = length (slots bd)" "\<forall>j < Suc i + k. ok (ys ! j)"
        "sched e = [] \<longrightarrow> rc' = SG_ERROR_NONE \<and> e' = e"
        "if rc' = SG_ERROR_NONE then err e' = err e \<and>
           (\<forall>j < Suc i + k. view (ys ! j) = view (if j < Suc i then slots ?bd ! j else slots bs ! j))
         else error (err e') = rc'"
      by metis
    have "view (ys ! j) = view (if j < i then slots bd ! j else slots bs ! j)"
      if "rc' = SG_ERROR_NONE" "j < i + Suc k" for j
      using ih(5) that c(4) True i by (cases "j = i") (auto simp: less_Suc_eq)
    then have "if rc' = SG_ERROR_NONE then err e' = err (wenv w) \<and>
           (\<forall>j < i + Suc k. view (ys ! j) = view (if j < i then slots bd ! j else slots bs ! j))
         else error (err e') = rc'"
      using ih(5) c(4) True by auto
    then show ?thesis
      using True step ih c(3)
      by (intro exI [of _ rc'] exI [of _ ys] exI [of _ e']) (simp add: vstore_set_env vstore_vstore)
  qed
qed

text \<open>The whole loop over two vectors of one size.\<close>

lemma copy_all:
  assumes f: "copy_fn ty = Fn n f" and ne: "src \<noteq> dst"
    and ls: "vload src w = Done bs" and ld: "vload dst w = Done bd"
    and inv: "vec_ok ty ok bs" "vec_ok ty ok bd" and eq: "used_count (hdr bd) = used_count (hdr bs)"
  shows "\<exists>rc b' e'. copy_loop f src dst 0 (unat (used_count (hdr bs))) w = Done (rc, set_env e' (vstore dst b' w)) \<and>
     vec_ok ty ok b' \<and> hdr b' = hdr bd \<and> (sched (wenv w) = [] \<longrightarrow> rc = SG_ERROR_NONE \<and> e' = wenv w) \<and>
     (if rc = SG_ERROR_NONE then err e' = err (wenv w) \<and> map view (contents b') = map view (contents bs)
      else error (err e') = rc)"
proof -
  let ?u = "unat (used_count (hdr bs))"
  have len: "0 + ?u \<le> length (slots bs)" "0 + ?u \<le> length (slots bd)" using inv eq by (simp_all add: vec_ok_def)
  have oks: "\<forall>j < 0 + ?u. ok (slots bs ! j)" "\<forall>j < 0 + ?u. ok (slots bd ! j)"
    using inv eq by (simp_all add: vec_ok_def)
  obtain rc ys e' where c: "copy_loop f src dst 0 ?u w = Done (rc, set_env e' (vstore dst (bd\<lparr>slots := ys\<rparr>) w))"
      "length ys = length (slots bd)" "\<forall>j < ?u. ok (ys ! j)"
      "sched (wenv w) = [] \<longrightarrow> rc = SG_ERROR_NONE \<and> e' = wenv w"
      "if rc = SG_ERROR_NONE then err e' = err (wenv w) \<and>
         (\<forall>j < ?u. view (ys ! j) = view (slots bs ! j))
       else error (err e') = rc"
    using copy_loop_ok [OF f ne ls ld len oks] by auto
  have ok': "vec_ok ty ok (bd\<lparr>slots := ys\<rparr>)" using inv(2) eq c(2,3) by (simp add: vec_ok_def)
  have "map view (contents (bd\<lparr>slots := ys\<rparr>)) = map view (contents bs)"
    if "rc = SG_ERROR_NONE"
    using that c(2,5) len eq by (intro nth_equalityI) (auto simp: contents_def)
  with c ok' show ?thesis
    by (intro exI [of _ rc] exI [of _ "bd\<lparr>slots := ys\<rparr>"] exI [of _ e']) auto
qed

text \<open>Cloning into an existing vector of the same size, or into one that can be resized.\<close>

lemma clone_into_int_ok:
  assumes w: "heap_ok w" and ne: "src \<noteq> dst"
    and ls: "vload src w = Done bs" and ld: "vload dst w = Done bd"
    and inv: "vec_ok ty ok bs" "vec_ok ty ok bd" and rm: "room_for ty bs"
    and siz: "used_count (hdr bd) = used_count (hdr bs) \<or> used_count (hdr bs) \<noteq> 0 \<and> sched (wenv w) = []"
  shows "\<exists>rc v w'. sg_vector_clone_into_int dst src w = Done (rc, v, w') \<and> heap_ok w' \<and>
     (sched (wenv w) = [] \<longrightarrow> rc = SG_ERROR_NONE \<and> wenv w' = wenv w) \<and>
     (if rc = SG_ERROR_NONE then
        v \<noteq> 0 \<and> (v = dst \<or> used_count (hdr bd) \<noteq> used_count (hdr bs) \<and> v = next_addr w) \<and>
        err (wenv w') = err (wenv w) \<and>
        (\<exists>b'. blocks w' = (blocks w)(dst := None, v \<mapsto> b') \<and> vec_ok ty ok b' \<and>
              map view (contents b') = map view (contents bs))
      else v = 0 \<and> blocks w' = (blocks w)(dst := None) \<and> error (err (wenv w')) = rc)"
proof -
  obtain n f where f: "copy_fn ty = Fn n f" using copy_set by (cases "copy_fn ty") auto
  let ?u = "used_count (hdr bs)"
  let ?re = "if used_count (hdr bd) = ?u then Done (dst, w) else sg_vector_resize dst ?u w"
  have tys: "info (hdr bs) = ty" using inv by (simp add: vec_ok_def)
  have nz: "src \<noteq> 0" "dst \<noteq> 0" "src < next_addr w"
    using ls ld w by (auto simp: vload_Done_iff heap_ok_def)
  have "\<exists>v w1 b1. ?re = Done (v, w1) \<and> heap_ok w1 \<and> v \<noteq> 0 \<and>
      (v = dst \<or> used_count (hdr bd) \<noteq> ?u \<and> v = next_addr w) \<and>
      wenv w1 = wenv w \<and> blocks w1 = (blocks w)(dst := None, v \<mapsto> b1) \<and>
      vec_ok ty ok b1 \<and> used_count (hdr b1) = ?u"
  proof (cases "used_count (hdr bd) = ?u")
    case True
    then show ?thesis using w inv ld nz
      by (intro exI [of _ dst] exI [of _ w] exI [of _ bd]) (auto simp: vload_Done_iff fun_upd_idem)
  next
    case False
    then have u: "?u \<noteq> 0" "sched (wenv w) = []" using siz by auto
    have "room ty (rounded (unat ?u) (unat (block_shift (hdr bd))))"
      using inv u by (intro room_for_rounded [OF rm]) (auto simp: vec_ok_def unat_gt_0)
    from resize_ok [OF w ld inv(2) u(1) this] u False show ?thesis by auto
  qed
  then obtain v w1 b1 where re: "?re = Done (v, w1)" "heap_ok w1" "v \<noteq> 0"
      "v = dst \<or> used_count (hdr bd) \<noteq> ?u \<and> v = next_addr w" "wenv w1 = wenv w" "blocks w1 = (blocks w)(dst := None, v \<mapsto> b1)" "vec_ok ty ok b1"
      "used_count (hdr b1) = ?u"
    by blast
  have sv: "src \<noteq> v" using ne nz re(4) by auto
  have ls1: "vload src w1 = Done bs" using ls re(6) sv ne by (simp add: vload_Done_iff)
  have ld1: "vload v w1 = Done b1" using re(3,6) by (simp add: vload_Done_iff)
  obtain rc b' e' where c: "copy_loop f src v 0 (unat ?u) w1 = Done (rc, set_env e' (vstore v b' w1))"
      "vec_ok ty ok b'" "sched (wenv w1) = [] \<longrightarrow> rc = SG_ERROR_NONE \<and> e' = wenv w1"
      "if rc = SG_ERROR_NONE then err e' = err (wenv w1) \<and> map view (contents b') = map view (contents bs)
       else error (err e') = rc"
    using copy_all [OF f sv ls1 ld1 inv(1) re(7,8)] by blast
  let ?w2 = "set_env e' (vstore v b' w1)"
  have w2: "heap_ok ?w2" using heap_ok_vstore [OF re(2), of v] re(6) by simp
  have go: "sg_vector_clone_into_int dst src w =
      (if rc \<noteq> SG_ERROR_NONE then andthen (sg_vector_free v ?w2) (\<lambda>w. Done (rc, 0, w))
       else Done (SG_ERROR_NONE, v, ?w2))"
    using ls ld re(1,3) c(1) f tys by (simp add: sg_vector_clone_into_int_def split del: if_split)
  show ?thesis
  proof (cases "rc = SG_ERROR_NONE")
    case True
    with go w2 re c show ?thesis
      by (intro exI [of _ rc] exI [of _ v] exI [of _ ?w2]) auto
  next
    case False
    have "vload v ?w2 = Done b'" using re(3) by (simp add: vload_set_env vload_vstore)
    then have "sg_vector_free v ?w2 = Done (?w2\<lparr>blocks := (blocks ?w2)(v := None)\<rparr>)"
      using c(2) by (rule free_block)
    moreover have "(blocks ?w2)(v := None) = (blocks w)(dst := None)"
      using re(4,6) heap_ok_fresh [OF w] by auto
    ultimately show ?thesis using False go re(5) c(3,4) heap_ok_free [OF w2, of v]
      by (intro exI [of _ rc] exI [of _ 0] exI [of _ "?w2\<lparr>blocks := (blocks ?w2)(v := None)\<rparr>"]) auto
  qed
qed

text \<open>A clone is a fresh vector with equal contents; a failed clone leaves the heap as it was.\<close>

lemma clone_ok:
  assumes w: "heap_ok w" and ls: "vload src w = Done bs" and inv: "vec_ok ty ok bs" and rm: "room_for ty bs"
  shows "\<exists>v w'. sg_vector_clone src w = Done (v, w') \<and> heap_ok w' \<and>
     (sched (wenv w) = [] \<longrightarrow> v \<noteq> 0 \<and> wenv w' = wenv w) \<and>
     (v = 0 \<and> blocks w' = blocks w \<and> error (err (wenv w')) \<noteq> SG_ERROR_NONE \<or>
      v = next_addr w \<and> err (wenv w') = err (wenv w) \<and>
      (\<exists>b'. blocks w' = (blocks w)(v \<mapsto> b') \<and> vec_ok ty ok b' \<and>
            map view (contents b') = map view (contents bs)))"
proof -
  let ?h = "hdr bs"
  let ?n = "max (alloc_count ?h) (used_count ?h)"
  have h: "info ?h = ty" "unat (block_shift ?h) < 32" "alloc_count ?h \<noteq> 0" using inv by (auto simp: vec_ok_def)
  have nz: "src \<noteq> 0" "src < next_addr w" using ls w by (auto simp: vload_Done_iff heap_ok_def)
  have n0: "?n \<noteq> 0" using h(3) by (auto simp: max_def)
  have "room ty (rounded (unat ?n) (unat (block_shift ?h)))"
  proof (rule room_for_rounded [OF rm])
    show "0 < unat ?n" using n0 by (simp only: unat_gt_0 not_False_eq_True)
    show "unat ?n \<le> length (slots bs)" using inv by (simp add: vec_ok_def unat_max)
  qed (use h in simp)
  from create_int_ok [OF w h(2) n0 this] obtain v w1 where
    cr: "sg_vector_create_int (block_shift ?h) (alloc_count ?h) (used_count ?h) ty w = Done (v, w1)" "heap_ok w1"
    and alt: "v = 0 \<and> blocks w1 = blocks w \<and> error (err (wenv w1)) = SG_ERROR_MALLOC \<and> sched (wenv w) \<noteq> [] \<or>
      v = next_addr w \<and> err (wenv w1) = err (wenv w) \<and> (sched (wenv w) = [] \<longrightarrow> wenv w1 = wenv w) \<and>
      (\<exists>b. blocks w1 = (blocks w)(v \<mapsto> b) \<and> vec_ok ty ok b \<and> used_count (hdr b) = used_count ?h)"
    by blast
  have pr: "sg_prove_vector src w = Done SG_ERROR_NONE" by (rule sg_prove_vector_ok [OF ls inv])
  show ?thesis
  proof (cases "v = 0")
    case True
    then have "sg_vector_clone src w = Done (0, w1)"
      using nz pr ls cr(1) h by (simp add: sg_vector_clone_def sg_vector_free_def)
    with True alt cr(2) nz(2) show ?thesis by auto
  next
    case False
    with alt obtain b where v: "v = next_addr w" "err (wenv w1) = err (wenv w)"
        "sched (wenv w) = [] \<longrightarrow> wenv w1 = wenv w" "blocks w1 = (blocks w)(v \<mapsto> b)" "vec_ok ty ok b"
        "used_count (hdr b) = used_count ?h"
      by blast
    have sv: "src \<noteq> v" using nz v(1) by simp
    have ld: "vload v w1 = Done b" "vload src w1 = Done bs"
      using v(4) False ls sv by (auto simp: vload_Done_iff)
    obtain rc v' w' where c: "sg_vector_clone_into_int v src w1 = Done (rc, v', w')" "heap_ok w'"
        "sched (wenv w1) = [] \<longrightarrow> rc = SG_ERROR_NONE \<and> wenv w' = wenv w1"
        "if rc = SG_ERROR_NONE then
           v' \<noteq> 0 \<and> (v' = v \<or> used_count (hdr b) \<noteq> used_count (hdr bs) \<and> v' = next_addr w1) \<and>
           err (wenv w') = err (wenv w1) \<and>
           (\<exists>b'. blocks w' = (blocks w1)(v := None, v' \<mapsto> b') \<and> vec_ok ty ok b' \<and>
                 map view (contents b') = map view (contents bs))
         else v' = 0 \<and> blocks w' = (blocks w1)(v := None) \<and> error (err (wenv w')) = rc"
      using clone_into_int_ok [OF cr(2) sv ld(2,1) inv v(5) rm disjI1 [OF v(6)]] by blast
    have "sg_vector_clone src w = Done (if rc = SG_ERROR_NONE then v' else 0, w')"
      using nz pr ls cr(1) h c(1,4) False by (auto simp: sg_vector_clone_def sg_vector_free_def)
    moreover have "(blocks w1)(v := None) = blocks w" using v(4) heap_ok_fresh [OF w] v(1) by auto
    moreover have "(blocks w1)(v := None, v \<mapsto> b') = (blocks w)(v \<mapsto> b')" for b' using v(4) by auto
    ultimately show ?thesis using c v False
      by (cases "rc = SG_ERROR_NONE") auto
  qed
qed

text \<open>
  \<^verbatim>\<open>sg_vector_clone_into\<close> on such a target: the target becomes a clone, or it is released, set to NULL
  and the error is returned.
\<close>

lemma clone_into_ok:
  assumes w: "heap_ok w" and ls: "vload src w = Done bs" and inv: "vec_ok ty ok bs" and rm: "room_for ty bs"
    and tgt: "clone_target ty ok d src bs w"
  shows "\<exists>rc v w'. sg_vector_clone_into (Some d) src w = Done (rc, Some v, w') \<and> heap_ok w' \<and>
     (sched (wenv w) = [] \<longrightarrow> rc = SG_ERROR_NONE \<and> wenv w' = wenv w) \<and>
     (if rc = SG_ERROR_NONE then
        v \<noteq> 0 \<and> v \<noteq> src \<and> (v = d \<or> v = next_addr w) \<and> err (wenv w') = err (wenv w) \<and>
        (\<exists>b'. blocks w' = (blocks w)(d := None, v \<mapsto> b') \<and> vec_ok ty ok b' \<and>
              map view (contents b') = map view (contents bs))
      else v = 0 \<and> blocks w' = (blocks w)(d := None) \<and> error (err (wenv w')) = rc)"
proof -
  have nz: "src \<noteq> 0" "src < next_addr w" "next_addr w \<noteq> 0" "blocks w 0 = None"
    using ls w by (auto simp: vload_Done_iff heap_ok_def)
  have pr: "sg_prove_vector src w = Done SG_ERROR_NONE" by (rule sg_prove_vector_ok [OF ls inv])
  show ?thesis
  proof (cases "d = 0")
    case True
    obtain v w' where c: "sg_vector_clone src w = Done (v, w')" "heap_ok w'"
        "sched (wenv w) = [] \<longrightarrow> v \<noteq> 0 \<and> wenv w' = wenv w"
      and alt: "v = 0 \<and> blocks w' = blocks w \<and> error (err (wenv w')) \<noteq> SG_ERROR_NONE \<or>
      v = next_addr w \<and> err (wenv w') = err (wenv w) \<and>
      (\<exists>b'. blocks w' = (blocks w)(v \<mapsto> b') \<and> vec_ok ty ok b' \<and>
            map view (contents b') = map view (contents bs))"
      using clone_ok [OF w ls inv rm] by blast
    have b0: "(blocks w)(0 := None) = blocks w" using nz(4) by (simp add: fun_upd_idem)
    show ?thesis
      using True c alt nz pr b0 by (auto simp: sg_vector_clone_into_def sg_vector_free_def)
  next
    case False
    with tgt obtain bd where t: "src \<noteq> d" "vload d w = Done bd" "vec_ok ty ok bd"
        "used_count (hdr bd) = used_count (hdr bs) \<or> used_count (hdr bs) \<noteq> 0 \<and> sched (wenv w) = []"
      by (auto simp: clone_target_def)
    obtain rc v w' where c: "sg_vector_clone_into_int d src w = Done (rc, v, w')" "heap_ok w'"
        "sched (wenv w) = [] \<longrightarrow> rc = SG_ERROR_NONE \<and> wenv w' = wenv w"
        "if rc = SG_ERROR_NONE then
        v \<noteq> 0 \<and> (v = d \<or> used_count (hdr bd) \<noteq> used_count (hdr bs) \<and> v = next_addr w) \<and>
        err (wenv w') = err (wenv w) \<and>
        (\<exists>b'. blocks w' = (blocks w)(d := None, v \<mapsto> b') \<and> vec_ok ty ok b' \<and>
              map view (contents b') = map view (contents bs))
      else v = 0 \<and> blocks w' = (blocks w)(d := None) \<and> error (err (wenv w')) = rc"
      using clone_into_int_ok [OF w t(1) ls t(2) inv t(3) rm t(4)] by blast
    have go: "sg_vector_clone_into (Some d) src w =
        (if rc = SG_ERROR_NONE then Done (SG_ERROR_NONE, Some v, w')
         else andthen (sg_vector_free v w') (\<lambda>w. Done (sg_get_error (Some (err (wenv w))), Some 0, w)))"
      using nz pr False c(1) compat_ok [OF t(2) ls t(3) inv] sg_prove_vector_ok [OF t(2,3)]
      by (simp add: sg_vector_clone_into_def)
    show ?thesis
      using go c t(1) nz by (cases "rc = SG_ERROR_NONE") (auto simp: sg_vector_free_def)
  qed
qed

end

section \<open>Differences\<close>

text \<open>
  The abstract difference of two snapshots: from every current item, every item of the last snapshot
  with its key that no earlier item has taken is subtracted.
\<close>

fun diff_spec :: "('v \<Rightarrow> 'k) \<Rightarrow> ('v \<Rightarrow> 'v \<Rightarrow> 'v) \<Rightarrow> 'v list \<Rightarrow> 'v list \<Rightarrow> 'v list" where
  "diff_spec key sub lst [] = []"
| "diff_spec key sub lst (c # cs) =
     fold sub (filter (\<lambda>l. key l = key c) lst) c # diff_spec key sub (filter (\<lambda>l. key l \<noteq> key c) lst) cs"

lemma length_diff_spec [simp]: "length (diff_spec key sub lst cs) = length cs"
  by (induction cs arbitrary: lst) auto

text \<open>With distinct keys on both sides it is the subtraction of the item with the same key, if any.\<close>

lemma filter_key_distinct:
  "distinct (map key lst) \<Longrightarrow> filter (\<lambda>l. key l = k) lst = (case find (\<lambda>l. key l = k) lst of None \<Rightarrow> [] | Some l \<Rightarrow> [l])"
proof (induction lst)
  case (Cons l lst)
  show ?case
  proof (cases "key l = k")
    case True
    moreover have "\<forall>x \<in> set lst. key x \<noteq> key l" using Cons.prems by (auto simp: image_iff)
    ultimately have "filter (\<lambda>l. key l = k) lst = []" by (auto simp: filter_empty_conv)
    with True show ?thesis by simp
  qed (use Cons in simp)
qed simp

lemma find_filter_other: "(\<And>x. P x \<Longrightarrow> Q x) \<Longrightarrow> find P (filter Q xs) = find P xs"
  by (induction xs) auto

lemma distinct_map_filter_key: "distinct (map key lst) \<Longrightarrow> distinct (map key (filter P lst))"
  by (induction lst) auto

lemma diff_spec_distinct:
  assumes "distinct (map key lst)" "distinct (map key cs)"
  shows "diff_spec key sub lst cs =
     map (\<lambda>c. case find (\<lambda>l. key l = key c) lst of None \<Rightarrow> c | Some l \<Rightarrow> sub l c) cs"
  using assms
proof (induction cs arbitrary: lst)
  case (Cons c cs)
  have "find (\<lambda>l. key l = key x) (filter (\<lambda>l. key l \<noteq> key c) lst) = find (\<lambda>l. key l = key x) lst"
    if "x \<in> set cs" for x
    using that Cons.prems(2) by (intro find_filter_other) force
  moreover have "fold sub (filter (\<lambda>l. key l = key c) lst) c =
      (case find (\<lambda>l. key l = key c) lst of None \<Rightarrow> c | Some l \<Rightarrow> sub l c)"
    using Cons.prems(1) by (simp add: filter_key_distinct split: option.splits)
  ultimately show ?case
    using Cons.prems Cons.IH [of "filter (\<lambda>l. key l \<noteq> key c) lst"]
    by (simp add: distinct_map_filter_key cong: map_cong)
qed simp

locale diff_items = copy_items ty ok view
  for ty :: "'a sg_vector_init_info" and ok :: "'a \<Rightarrow> bool" and view :: "'a \<Rightarrow> 'v" +
  fixes full :: "'v \<Rightarrow> bool" and key :: "'v \<Rightarrow> 'k" and sub :: "'v \<Rightarrow> 'v \<Rightarrow> 'v"
  assumes fns_set: "fn_set (compare_fn ty)" "fn_set (compute_diff_fn ty)"
    and compare_law: "compare_fn ty = Fn n cmp \<Longrightarrow> ok a \<Longrightarrow> ok b \<Longrightarrow> full (view a) \<Longrightarrow> full (view b) \<Longrightarrow>
      \<exists>c. cmp a b = Done c \<and> (c = 0 \<longleftrightarrow> key (view a) = key (view b))"
    and diff_law: "compute_diff_fn ty = Fn n cd \<Longrightarrow> ok l \<Longrightarrow> ok d \<Longrightarrow>
      \<exists>d'. cd l d = Done (SG_ERROR_NONE, d') \<and> ok d' \<and> view d' = sub (view l) (view d)"
    and sub_full: "full y \<Longrightarrow> full (sub x y)"
    and sub_key: "key (sub x y) = key y"
begin

lemma diff_inner_ok:
  assumes cmp: "compare_fn ty = Fn nc cmp" and cd: "compute_diff_fn ty = Fn nd cd" and ne: "lst \<noteq> dv"
    and ll: "vload lst w = Done bl" and ld: "vload dv w = Done bd"
    and len: "i < length (slots bd)" "j + k \<le> length (slots bl)" "j + k \<le> 32 * length m"
    and okl: "\<forall>x < j + k. ok (slots bl ! x) \<and> full (view (slots bl ! x))"
    and okd: "ok (slots bd ! i)" "full (view (slots bd ! i))"
  shows "\<exists>m' d'. diff_inner cmp cd lst dv i j k m w = Done (m', vstore dv (bd\<lparr>slots := (slots bd)[i := d']\<rparr>) w) \<and>
     ok d' \<and> full (view d') \<and> length m' = length m \<and>
     view d' = fold sub (map (\<lambda>x. view (slots bl ! x))
        (filter (\<lambda>x. \<not> BIT_ISSET m x \<and> key (view (slots bl ! x)) = key (view (slots bd ! i))) [j..<j + k]))
        (view (slots bd ! i)) \<and>
     (\<forall>x < 32 * length m. BIT_ISSET m' x \<longleftrightarrow> BIT_ISSET m x \<or>
        j \<le> x \<and> x < j + k \<and> key (view (slots bl ! x)) = key (view (slots bd ! i)))"
  using ll ld len okl okd
proof (induction k arbitrary: j m w bd)
  case 0
  then show ?case
    by (intro exI [of _ m] exI [of _ "slots bd ! i"]) (auto simp: vstore_same)
next
  case (Suc k)
  let ?l = "slots bl ! j" and ?d = "slots bd ! i"
  have j: "j < length (slots bl)" "ok ?l" "full (view ?l)" "j < 32 * length m" using Suc.prems by auto
  have up: "[j..<j + Suc k] = j # [Suc j..<Suc j + k]" by (simp add: upt_conv_Cons)
  have rng: "j \<le> x \<and> x < j + Suc k \<longleftrightarrow> x = j \<or> Suc j \<le> x \<and> x < Suc j + k" for x by auto
  have prems: "Suc j + k \<le> length (slots bl)" "Suc j + k \<le> 32 * length m"
    "\<forall>x < Suc j + k. ok (slots bl ! x) \<and> full (view (slots bl ! x))" using Suc.prems by simp_all
  have nz: "lst \<noteq> 0" "dv \<noteq> 0" using Suc.prems by (auto simp: vload_Done_iff)
  obtain c where c: "cmp ?l ?d = Done c" "c = 0 \<longleftrightarrow> key (view ?l) = key (view ?d)"
    using compare_law [OF cmp j(2) Suc.prems(7) j(3) Suc.prems(8)] by blast
  consider (skip) "BIT_ISSET m j \<or> key (view ?l) \<noteq> key (view ?d)"
    | (hit) "\<not> BIT_ISSET m j" "key (view ?l) = key (view ?d)" by blast
  then show ?case
  proof cases
    case skip
    have "diff_inner cmp cd lst dv i j (Suc k) m w = diff_inner cmp cd lst dv i (Suc j) k m w"
      using skip c Suc.prems(1,2,3) j by (auto simp: read_item_Done)
    moreover have "filter (\<lambda>x. \<not> BIT_ISSET m x \<and> key (view (slots bl ! x)) = key (view ?d)) [j..<j + Suc k] =
        filter (\<lambda>x. \<not> BIT_ISSET m x \<and> key (view (slots bl ! x)) = key (view ?d)) [Suc j..<Suc j + k]"
      unfolding up using skip by auto
    moreover have "BIT_ISSET m x \<or> j \<le> x \<and> x < j + Suc k \<and> key (view (slots bl ! x)) = key (view ?d) \<longleftrightarrow>
        BIT_ISSET m x \<or> Suc j \<le> x \<and> x < Suc j + k \<and> key (view (slots bl ! x)) = key (view ?d)" for x
      using skip by (cases "x = j") auto
    ultimately show ?thesis using Suc.IH [OF Suc.prems(1-3) prems Suc.prems(7,8)] by presburger
  next
    case hit
    obtain d' where d': "cd ?l ?d = Done (SG_ERROR_NONE, d')" "ok d'" "view d' = sub (view ?l) (view ?d)"
      using diff_law [OF cd j(2) Suc.prems(7)] by blast
    let ?bd = "bd\<lparr>slots := (slots bd)[i := d']\<rparr>" and ?m = "BIT_SET m j"
    let ?w = "vstore dv ?bd w"
    have i: "slots ?bd ! i = d'" using Suc.prems(3) by simp
    have f': "full (view d')" using d'(3) sub_full Suc.prems(8) by simp
    have k': "key (view d') = key (view ?d)" using d'(3) sub_key by simp
    have go: "diff_inner cmp cd lst dv i j (Suc k) m w = diff_inner cmp cd lst dv i (Suc j) k ?m ?w"
      using hit c d'(1) Suc.prems(1,2,3) j by (simp add: read_item_Done write_item_Done)
    have l': "vload lst ?w = Done bl" "vload dv ?w = Done ?bd"
      using Suc.prems(1) ne nz by (simp_all add: vload_vstore)
    obtain m2 d2 where ih: "diff_inner cmp cd lst dv i (Suc j) k ?m ?w =
          Done (m2, vstore dv (?bd\<lparr>slots := (slots ?bd)[i := d2]\<rparr>) ?w)"
        "ok d2" "full (view d2)" "length m2 = length ?m"
        "view d2 = fold sub (map (\<lambda>x. view (slots bl ! x))
          (filter (\<lambda>x. \<not> BIT_ISSET ?m x \<and> key (view (slots bl ! x)) = key (view (slots ?bd ! i))) [Suc j..<Suc j + k]))
          (view (slots ?bd ! i))"
        "\<forall>x < 32 * length ?m. BIT_ISSET m2 x \<longleftrightarrow> BIT_ISSET ?m x \<or>
          Suc j \<le> x \<and> x < Suc j + k \<and> key (view (slots bl ! x)) = key (view (slots ?bd ! i))"
      using Suc.IH [OF l', of "Suc j" ?m] Suc.prems(3) prems d'(2) f' i by (auto simp: length_BIT_SET)
    have set': "x < 32 * length m \<Longrightarrow> BIT_ISSET ?m x \<longleftrightarrow> x = j \<or> BIT_ISSET m x" for x
      using BIT_ISSET_BIT_SET [OF j(4)] by blast
    have fl: "filter (\<lambda>x. \<not> BIT_ISSET ?m x \<and> key (view (slots bl ! x)) = key (view ?d)) [Suc j..<Suc j + k] =
        filter (\<lambda>x. \<not> BIT_ISSET m x \<and> key (view (slots bl ! x)) = key (view ?d)) [Suc j..<Suc j + k]"
      using prems(2) set' by (intro filter_cong) auto
    have "view d2 = fold sub (map (\<lambda>x. view (slots bl ! x))
        (filter (\<lambda>x. \<not> BIT_ISSET m x \<and> key (view (slots bl ! x)) = key (view ?d)) [j..<j + Suc k])) (view ?d)"
      using ih(5) i k' fl hit d'(3) up by simp
    moreover have "\<forall>x < 32 * length m. BIT_ISSET m2 x \<longleftrightarrow> BIT_ISSET m x \<or>
        j \<le> x \<and> x < j + Suc k \<and> key (view (slots bl ! x)) = key (view ?d)"
      using ih(6) i k' set' hit(2) rng by (auto simp: length_BIT_SET)
    ultimately show ?thesis using go ih(1-4)
      by (intro exI [of _ m2] exI [of _ d2]) (simp add: length_BIT_SET vstore_vstore)
  qed
qed

lemma diff_outer_ok:
  assumes cmp: "compare_fn ty = Fn nc cmp" and cd: "compute_diff_fn ty = Fn nd cd" and ne: "lst \<noteq> dv"
    and ll: "vload lst w = Done bl" and ld: "vload dv w = Done bd"
    and len: "i + k \<le> length (slots bd)" "n \<le> length (slots bl)" "n \<le> 32 * length m"
    and okl: "\<forall>x < n. ok (slots bl ! x) \<and> full (view (slots bl ! x))"
    and okd: "\<forall>x < i + k. ok (slots bd ! x) \<and> full (view (slots bd ! x))"
    and m: "\<forall>x < n. BIT_ISSET m x \<longleftrightarrow> key (view (slots bl ! x)) \<in> K"
  shows "\<exists>ys. diff_outer cmp cd lst dv n i k m w = Done (vstore dv (bd\<lparr>slots := ys\<rparr>) w) \<and>
     length ys = length (slots bd) \<and> take i ys = take i (slots bd) \<and>
     (\<forall>x < i + k. ok (ys ! x) \<and> full (view (ys ! x))) \<and>
     map view (take k (drop i ys)) =
       diff_spec key sub (filter (\<lambda>l. key l \<notin> K) (map view (take n (slots bl)))) (map view (take k (drop i (slots bd))))"
  using ll ld len okd m
proof (induction k arbitrary: i m w bd K)
  case 0
  then show ?case by (intro exI [of _ "slots bd"]) (simp add: vstore_same)
next
  case (Suc k)
  let ?L = "map view (take n (slots bl))" and ?d = "slots bd ! i"
  have i: "i < length (slots bd)" "ok ?d" "full (view ?d)" using Suc.prems by auto
  obtain m' d' where inn: "diff_inner cmp cd lst dv i 0 n m w = Done (m', vstore dv (bd\<lparr>slots := (slots bd)[i := d']\<rparr>) w)"
      "ok d'" "full (view d')" "length m' = length m"
      "view d' = fold sub (map (\<lambda>x. view (slots bl ! x))
        (filter (\<lambda>x. \<not> BIT_ISSET m x \<and> key (view (slots bl ! x)) = key (view ?d)) [0..<0 + n])) (view ?d)"
      "\<forall>x < 32 * length m. BIT_ISSET m' x \<longleftrightarrow> BIT_ISSET m x \<or>
        0 \<le> x \<and> x < 0 + n \<and> key (view (slots bl ! x)) = key (view ?d)"
    using diff_inner_ok [OF cmp cd ne Suc.prems(1,2) i(1), of 0 n m] Suc.prems(4,5) okl i by auto
  let ?bd = "bd\<lparr>slots := (slots bd)[i := d']\<rparr>" and ?K = "insert (key (view ?d)) K"
  let ?w = "vstore dv ?bd w"
  have nz: "lst \<noteq> 0" "dv \<noteq> 0" using Suc.prems by (auto simp: vload_Done_iff)
  have l': "vload lst ?w = Done bl" "vload dv ?w = Done ?bd"
    using Suc.prems(1) ne nz by (simp_all add: vload_vstore)
  have m': "\<forall>x < n. BIT_ISSET m' x \<longleftrightarrow> key (view (slots bl ! x)) \<in> ?K"
    using inn(6) Suc.prems(5,7) by auto
  have oks: "\<forall>x < Suc i + k. ok (slots ?bd ! x) \<and> full (view (slots ?bd ! x))"
    using Suc.prems(6) inn(2,3) i(1) by (simp add: nth_list_update)
  obtain ys where ih: "diff_outer cmp cd lst dv n (Suc i) k m' ?w = Done (vstore dv (?bd\<lparr>slots := ys\<rparr>) ?w)"
      "length ys = length (slots ?bd)" "take (Suc i) ys = take (Suc i) (slots ?bd)"
      "\<forall>x < Suc i + k. ok (ys ! x) \<and> full (view (ys ! x))"
      "map view (take k (drop (Suc i) ys)) =
       diff_spec key sub (filter (\<lambda>l. key l \<notin> ?K) ?L) (map view (take k (drop (Suc i) (slots ?bd))))"
    using Suc.IH [OF l' _ Suc.prems(4) _ oks m'] Suc.prems(3,5) inn(4) by auto
  have lenL: "length ?L = n" using Suc.prems(4) by simp
  have "map (\<lambda>x. view (slots bl ! x))
        (filter (\<lambda>x. \<not> BIT_ISSET m x \<and> key (view (slots bl ! x)) = key (view ?d)) [0..<0 + n]) =
      map ((!) ?L) (filter (\<lambda>x. key (?L ! x) \<notin> K \<and> key (?L ! x) = key (view ?d)) [0..<length ?L])"
    using Suc.prems(4,7) by (intro map_cong filter_cong) (auto simp: lenL)
  then have hd': "view d' = fold sub (filter (\<lambda>l. key l \<notin> K \<and> key l = key (view ?d)) ?L) (view ?d)"
    using inn(5) filter_map_nth [of ?L "\<lambda>l. key l \<notin> K \<and> key l = key (view ?d)"] by simp
  have ysi: "ys ! i = d'"
    using ih(2,3) i(1) nth_take [of i "Suc i" ys] nth_take [of i "Suc i" "slots ?bd"] by simp
  have dr: "drop i ys = d' # drop (Suc i) ys" "drop i (slots bd) = ?d # drop (Suc i) (slots bd)"
    using Cons_nth_drop_Suc [of i ys] Cons_nth_drop_Suc [of i "slots bd"] ih(2) i(1) ysi by simp_all
  have ti: "take i ys = take i (slots bd)"
    using arg_cong [OF ih(3), of "take i"] by simp
  have fK: "filter (\<lambda>l. key l = key (view ?d)) (filter (\<lambda>l. key l \<notin> K) ?L) =
      filter (\<lambda>l. key l \<notin> K \<and> key l = key (view ?d)) ?L"
    "filter (\<lambda>l. key l \<noteq> key (view ?d)) (filter (\<lambda>l. key l \<notin> K) ?L) = filter (\<lambda>l. key l \<notin> ?K) ?L"
    by (simp_all add: conj_commute)
  have "map view (take (Suc k) (drop i ys)) =
      diff_spec key sub (filter (\<lambda>l. key l \<notin> K) ?L) (map view (take (Suc k) (drop i (slots bd))))"
    using ih(5) hd' by (simp only: dr take_Suc_Cons list.map diff_spec.simps fK) simp
  moreover have "diff_outer cmp cd lst dv n i (Suc k) m w = Done (vstore dv (bd\<lparr>slots := ys\<rparr>) w)"
    using inn(1) ih(1) by (simp add: vstore_vstore)
  ultimately show ?case using ih(2,4) ti
    by (intro exI [of _ ys]) simp
qed

text \<open>The difference of two snapshots, on every target that can be cloned into.\<close>

lemma compute_diff_ok:
  assumes w: "heap_ok w" and lc: "vload cur w = Done bc" and ll: "vload lst w = Done bl" and dl: "d \<noteq> lst"
    and inv: "vec_ok ty ok bc" "vec_ok ty ok bl" and rm: "room_for ty bc" and tgt: "clone_target ty ok d cur bc w"
    and full: "\<forall>x \<in> set (contents bc) \<union> set (contents bl). full (view x)"
  shows "\<exists>rc v w'. sg_vector_compute_diff (Some d) cur lst w = Done (rc, Some v, w') \<and> heap_ok w' \<and>
     (sched (wenv w) = [] \<longrightarrow> rc = SG_ERROR_NONE \<and> wenv w' = wenv w) \<and>
     (if rc = SG_ERROR_NONE then
        v \<noteq> 0 \<and> v \<noteq> cur \<and> v \<noteq> lst \<and>
        (\<exists>b'. blocks w' = (blocks w)(d := None, v \<mapsto> b') \<and> vec_ok ty ok b' \<and>
              map view (contents b') = diff_spec key sub (map view (contents bl)) (map view (contents bc)))
      else v = 0 \<and> blocks w' = (blocks w)(d := None) \<and> error (err (wenv w')) = rc)"
proof -
  obtain nc cmp nd cd where cmp: "compare_fn ty = Fn nc cmp" and cd: "compute_diff_fn ty = Fn nd cd"
    using fns_set by (cases "compare_fn ty"; cases "compute_diff_fn ty") auto
  have nz: "cur \<noteq> 0" "lst \<noteq> 0" "lst < next_addr w" using lc ll w by (auto simp: vload_Done_iff heap_ok_def)
  have tys: "info (hdr bc) = ty" "info (hdr bl) = ty" using inv by (auto simp: vec_ok_def)
  obtain rc v w1 where c: "sg_vector_clone_into (Some d) cur w = Done (rc, Some v, w1)" "heap_ok w1"
     "sched (wenv w) = [] \<longrightarrow> rc = SG_ERROR_NONE \<and> wenv w1 = wenv w"
     "if rc = SG_ERROR_NONE then
        v \<noteq> 0 \<and> v \<noteq> cur \<and> (v = d \<or> v = next_addr w) \<and> err (wenv w1) = err (wenv w) \<and>
        (\<exists>b'. blocks w1 = (blocks w)(d := None, v \<mapsto> b') \<and> vec_ok ty ok b' \<and>
              map view (contents b') = map view (contents bc))
      else v = 0 \<and> blocks w1 = (blocks w)(d := None) \<and> error (err (wenv w1)) = rc"
    using clone_into_ok [OF w lc inv(1) rm tgt] by blast
  show ?thesis
  proof (cases "rc = SG_ERROR_NONE")
    case False
    with c nz show ?thesis by (auto simp: sg_vector_compute_diff_def)
  next
    case True
    with c(4) obtain b1 where v: "v \<noteq> 0" "v \<noteq> cur" "v = d \<or> v = next_addr w"
        and b1: "blocks w1 = (blocks w)(d := None, v \<mapsto> b1)" "vec_ok ty ok b1"
        "map view (contents b1) = map view (contents bc)"
      by auto
    have vl: "lst \<noteq> v" using v(3) dl nz(3) by auto
    have dc: "d \<noteq> cur" using tgt nz(1) by (auto simp: clone_target_def)
    have l1: "vload cur w1 = Done bc" "vload lst w1 = Done bl" "vload v w1 = Done b1"
      using lc ll v b1(1) dc dl vl by (auto simp: vload_Done_iff)
    let ?n = "unat (used_count (hdr bl))" and ?u = "unat (used_count (hdr b1))"
    have okl: "\<forall>x < ?n. ok (slots bl ! x) \<and> full (view (slots bl ! x))"
      using inv(2) full nth_in_set_take [of _ ?n "slots bl"] by (auto simp: vec_ok_def contents_def)
    have "\<forall>y \<in> set (map view (contents b1)). full y" using full b1(3) by auto
    then have okd: "\<forall>x < 0 + ?u. ok (slots b1 ! x) \<and> full (view (slots b1 ! x))"
      using b1(2) nth_in_set_take [of _ ?u "slots b1"] by (auto simp: vec_ok_def contents_def)
    have lens: "0 + ?u \<le> length (slots b1)" "?n \<le> length (slots bl)" "?n \<le> 32 * length (bits_new ?n)"
      using b1(2) inv(2) bits.capacity_new [of ?n] by (auto simp: vec_ok_def)
    have m: "\<forall>x < ?n. BIT_ISSET (bits_new ?n) x \<longleftrightarrow> key (view (slots bl ! x)) \<in> {}"
      using bits.isset_new bits.capacity_new [of ?n] by auto
    obtain ys where o: "diff_outer cmp cd lst v ?n 0 ?u (bits_new ?n) w1 = Done (vstore v (b1\<lparr>slots := ys\<rparr>) w1)"
        "length ys = length (slots b1)" "\<forall>x < 0 + ?u. ok (ys ! x) \<and> full (view (ys ! x))"
        "map view (take ?u (drop 0 ys)) =
         diff_spec key sub (filter (\<lambda>l. key l \<notin> {}) (map view (take ?n (slots bl)))) (map view (take ?u (drop 0 (slots b1))))"
      using diff_outer_ok [OF cmp cd vl l1(2,3) lens okl okd m] by blast
    let ?b = "b1\<lparr>slots := ys\<rparr>" and ?w = "vstore v (b1\<lparr>slots := ys\<rparr>) w1"
    have "vec_ok ty ok ?b" using b1(2) o(2,3) by (simp add: vec_ok_def)
    moreover have "map view (contents ?b) = diff_spec key sub (map view (contents bl)) (map view (contents bc))"
      using o(4) b1(3) by (simp add: contents_def)
    moreover have "blocks ?w = (blocks w)(d := None, v \<mapsto> ?b)" using b1(1) by simp
    moreover have "heap_ok ?w" using heap_ok_vstore [OF c(2), of v] b1(1) by simp
    moreover have "sg_vector_compute_diff (Some d) cur lst w = Done (SG_ERROR_NONE, Some v, ?w)"
      using True c(1) nz v(1) l1 tys cmp cd sg_prove_vector_ok [OF l1(2) inv(2)] compat_ok [OF l1(1,2) inv] o(1)
      by (simp add: sg_vector_compute_diff_def)
    ultimately show ?thesis using True v vl c(3)
      by (intro exI [of _ rc] exI [of _ v] exI [of _ ?w]) auto
  qed
qed

end

end
