(* ===== verification/Items.thy ===== *)
theory Items
  imports Vector_Clone
begin

text \<open>
  What the item functions of all statistics share: releasing a string field, comparing two of them,
  updating one inside a copy function, and the lemmas that carry the proofs that an item type meets
  the interfaces of the vectors.
\<close>

section \<open>String fields\<close>

text \<open>\<^verbatim>\<open>free(d->field)\<close> without resetting the pointer: afterwards it dangles, unless it was NULL.\<close>

definition free_field :: "cstr \<Rightarrow> cstr outcome" where
  "free_field p = andthen (c_free p) (\<lambda>_. Done (if p = CNull then CNull else CFreed))"

text \<open>\<^verbatim>\<open>free(d->field); d->field = NULL;\<close>\<close>

definition clear_field :: "cstr \<Rightarrow> cstr outcome" where
  "clear_field p = andthen (c_free p) (\<lambda>_. Done CNull)"

text \<open>\<^verbatim>\<open>strcmp\<close> on two fields.\<close>

definition cmp_field :: "cstr \<Rightarrow> cstr \<Rightarrow> int outcome" where
  "cmp_field p q = andthen (src_bytes p) (\<lambda>a. andthen (src_bytes q) (\<lambda>b. Done (strcmp (strval a) (strval b))))"

lemma free_field_ok: "cstr_ok p \<Longrightarrow> free_field p = Done (if p = CNull then CNull else CFreed)"
  by (cases p) (auto simp: free_field_def c_free_def)

lemma clear_field_ok: "cstr_ok p \<Longrightarrow> clear_field p = Done CNull"
  by (cases p) (auto simp: clear_field_def c_free_def)

lemma cstr_copy_eq_iff:
  "cstr_copy (CStr a) = cstr_copy (CStr b) \<longleftrightarrow> strval a = strval b"
  by (simp add: cstr_copy_def)

lemma cstr_copy_CNull_iff [simp]: "cstr_copy p = CNull \<longleftrightarrow> p = CNull"
  by (cases p) (simp_all add: cstr_copy_def)

lemma cstr_copy_CNull [simp]: "cstr_copy CNull = CNull"
  by simp

lemma strval_terminated: "strval (strval b @ [NUL]) = strval b"
  by (rule strval_append_NUL) (rule strval_nul_free)

lemma cstr_copy_idem [simp]: "cstr_copy (cstr_copy p) = cstr_copy p"
  by (cases p) (simp_all add: cstr_copy_def strval_terminated)

lemma cmp_field_ok:
  assumes "cstr_ok p" "cstr_ok q" "p \<noteq> CNull" "q \<noteq> CNull"
  shows "\<exists>c. cmp_field p q = Done c \<and> (c = 0 \<longleftrightarrow> cstr_copy p = cstr_copy q)"
  using assms by (cases p; cases q) (auto simp: cmp_field_def src_bytes_def cstr_copy_def)

section \<open>One string update inside a copy function\<close>

lemma sg_update_string_step:
  assumes "cstr_ok d" "cstr_ok s"
  shows "\<exists>rc p e'. sg_update_string d s e = Done (rc, p, e') \<and> cstr_ok p \<and>
     (sched e = [] \<longrightarrow> rc = SG_ERROR_NONE \<and> e' = e) \<and>
     (if rc = SG_ERROR_NONE then p = cstr_copy s \<and> err e' = err e else error (err e') = rc)"
proof (cases "s = CNull")
  case True
  with assms show ?thesis by (cases d) (auto simp: sg_update_string_Null)
next
  case False
  obtain c e' where c: "sg_realloc_choice (word_of_nat (length (the (cstr_val s)) + 1)) e = (c, e')" by fastforce
  show ?thesis
  proof (cases "c = AFail")
    case True
    then have "error (err e') = SG_ERROR_MALLOC" "sched e \<noteq> []" using c sg_realloc_choice_fail by fastforce+
    with True c False assms show ?thesis by (auto simp: sg_update_string_eq)
  next
    case ok: False
    then have "err e' = err e" using c sg_realloc_choice_succeed by blast
    moreover have "sched e = [] \<Longrightarrow> e' = e" using c by (simp add: sg_realloc_choice_ok)
    ultimately show ?thesis using ok c False assms by (auto simp: sg_update_string_eq cstr_ok_copy)
  qed
qed

text \<open>Names that a caller or the system hands over.\<close>

definition name_ok :: "string \<Rightarrow> bool" where
  "name_ok s \<longleftrightarrow> nul_free s \<and> length s < 2 ^ 63"

lemma name_ok_cstr: "name_ok s \<Longrightarrow> cstr_ok (CStr (s @ [NUL]))" "name_ok s \<Longrightarrow> cstr_val (CStr (s @ [NUL])) = Some s"
  by (simp_all add: name_ok_def)

lemma name_update:
  assumes "cstr_ok p" "name_ok s"
  shows "\<exists>rc q e'. sg_update_string p (CStr (s @ [NUL])) e = Done (rc, q, e') \<and> cstr_ok q \<and>
     (sched e = [] \<longrightarrow> rc = SG_ERROR_NONE \<and> e' = e) \<and>
     (if rc = SG_ERROR_NONE then q = CStr (s @ [NUL]) else error (err e') = rc)"
proof -
  have "cstr_copy (CStr (s @ [NUL])) = CStr (s @ [NUL])" using assms(2) by (simp add: cstr_copy_def name_ok_def)
  with sg_update_string_step [OF assms(1) name_ok_cstr(1) [OF assms(2)], of e] show ?thesis
    by (elim exE conjE) (intro exI conjI, auto split: if_splits)
qed

end
