(* ===== verification/Disk_Items.thy ===== *)
theory Disk_Items
  imports Items
begin

text \<open>
  The two item types of \<^verbatim>\<open>src/libstatgrab/disk_stats.c\<close>, file systems and disk traffic, with the five
  functions that vectors call on them, and the proof that both meet the interface \<open>diff_items\<close>.
\<close>

section \<open>File systems\<close>

type_synonym sg_fs_device_type = u32

record sg_fs_stats =
  device_name :: cstr
  device_canonical :: cstr
  fs_type :: cstr
  mnt_point :: cstr
  device_type :: sg_fs_device_type
  fs_size :: ull
  fs_used :: ull
  fs_free :: ull
  fs_avail :: ull
  total_inodes :: ull
  used_inodes :: ull
  free_inodes :: ull
  avail_inodes :: ull
  io_size :: ull
  block_size :: ull
  total_blocks :: ull
  free_blocks :: ull
  used_blocks :: ull
  avail_blocks :: ull
  fs_systime :: time_t

definition sg_fs_stats_item_init :: "sg_fs_stats \<Rightarrow> sg_fs_stats" where
  "sg_fs_stats_item_init d =
     d\<lparr>device_name := CNull, device_canonical := CNull, fs_type := CNull, mnt_point := CNull\<rparr>"

text \<open>The assignments of \<^verbatim>\<open>sg_fs_stats_item_copy\<close> behind the four string updates.\<close>

definition sg_fs_stats_copy_numbers :: "sg_fs_stats \<Rightarrow> sg_fs_stats \<Rightarrow> sg_fs_stats" where
  "sg_fs_stats_copy_numbers s d =
     d\<lparr>device_type := device_type s, fs_size := fs_size s, fs_used := fs_used s, fs_free := fs_free s,
       fs_avail := fs_avail s, total_inodes := total_inodes s, used_inodes := used_inodes s,
       free_inodes := free_inodes s, avail_inodes := avail_inodes s, io_size := io_size s,
       block_size := block_size s, total_blocks := total_blocks s, free_blocks := free_blocks s,
       used_blocks := used_blocks s, avail_blocks := avail_blocks s, fs_systime := fs_systime s\<rparr>"

definition sg_fs_stats_item_copy :: "sg_fs_stats vector_copy_function" where
  "sg_fs_stats_item_copy s d e =
     andthen (sg_update_string (device_name d) (device_name s) e) (\<lambda>(rc, p, e).
       let d = d\<lparr>device_name := p\<rparr> in
       if rc \<noteq> SG_ERROR_NONE then Done (sg_get_error (Some (err e)), s, d, e) else
     andthen (sg_update_string (device_canonical d) (device_canonical s) e) (\<lambda>(rc, p, e).
       let d = d\<lparr>device_canonical := p\<rparr> in
       if rc \<noteq> SG_ERROR_NONE then Done (sg_get_error (Some (err e)), s, d, e) else
     andthen (sg_update_string (fs_type d) (fs_type s) e) (\<lambda>(rc, p, e).
       let d = d\<lparr>fs_type := p\<rparr> in
       if rc \<noteq> SG_ERROR_NONE then Done (sg_get_error (Some (err e)), s, d, e) else
     andthen (sg_update_string (mnt_point d) (mnt_point s) e) (\<lambda>(rc, p, e).
       let d = d\<lparr>mnt_point := p\<rparr> in
       if rc \<noteq> SG_ERROR_NONE then Done (sg_get_error (Some (err e)), s, d, e) else
       Done (SG_ERROR_NONE, s, sg_fs_stats_copy_numbers s d, e)))))"

text \<open>What the code subtracts: all counters but \<open>fs_free\<close>; the time stamp stays that of the target.\<close>

definition sg_fs_stats_item_compute_diff :: "sg_fs_stats vector_compute_diff_function" where
  "sg_fs_stats_item_compute_diff s d =
     Done (SG_ERROR_NONE,
       d\<lparr>fs_size := fs_size d - fs_size s, fs_used := fs_used d - fs_used s,
         fs_avail := fs_avail d - fs_avail s,
         total_inodes := total_inodes d - total_inodes s, used_inodes := used_inodes d - used_inodes s,
         free_inodes := free_inodes d - free_inodes s, avail_inodes := avail_inodes d - avail_inodes s,
         io_size := io_size d - io_size s, block_size := block_size d - block_size s,
         total_blocks := total_blocks d - total_blocks s, free_blocks := free_blocks d - free_blocks s,
         used_blocks := used_blocks d - used_blocks s, avail_blocks := avail_blocks d - avail_blocks s\<rparr>)"

definition sg_fs_stats_item_compare :: "sg_fs_stats vector_compare_function" where
  "sg_fs_stats_item_compare a b =
     andthen (cmp_field (device_name a) (device_name b)) (\<lambda>rc. if 0 \<noteq> rc then Done rc else
     andthen (cmp_field (device_canonical a) (device_canonical b)) (\<lambda>rc. if 0 \<noteq> rc then Done rc else
     andthen (cmp_field (mnt_point a) (mnt_point b)) (\<lambda>rc. if 0 \<noteq> rc then Done rc else
     andthen (cmp_field (fs_type a) (fs_type b)) (\<lambda>rc. if 0 \<noteq> rc then Done rc else
     Done 0))))"

definition sg_fs_stats_item_destroy :: "sg_fs_stats vector_destroy_function" where
  "sg_fs_stats_item_destroy d =
     andthen (free_field (device_name d)) (\<lambda>p. let d = d\<lparr>device_name := p\<rparr> in
     andthen (free_field (device_canonical d)) (\<lambda>p. let d = d\<lparr>device_canonical := p\<rparr> in
     andthen (free_field (fs_type d)) (\<lambda>p. let d = d\<lparr>fs_type := p\<rparr> in
     andthen (free_field (mnt_point d)) (\<lambda>p. Done (d\<lparr>mnt_point := p\<rparr>)))))"

definition sg_fs_stats_vector_init_info :: "sg_fs_stats sg_vector_init_info" where
  "sg_fs_stats_vector_init_info =
     \<lparr>item_size = 160,
      init_fn = Fn ''sg_fs_stats_item_init'' sg_fs_stats_item_init,
      copy_fn = Fn ''sg_fs_stats_item_copy'' sg_fs_stats_item_copy,
      compute_diff_fn = Fn ''sg_fs_stats_item_compute_diff'' sg_fs_stats_item_compute_diff,
      compare_fn = Fn ''sg_fs_stats_item_compare'' sg_fs_stats_item_compare,
      destroy_fn = Fn ''sg_fs_stats_item_destroy'' sg_fs_stats_item_destroy\<rparr>"

section \<open>Disk traffic\<close>

record sg_disk_io_stats =
  disk_name :: cstr
  read_bytes :: ull
  write_bytes :: ull
  dio_systime :: time_t

definition sg_disk_io_stats_item_init :: "sg_disk_io_stats \<Rightarrow> sg_disk_io_stats" where
  "sg_disk_io_stats_item_init d = d\<lparr>disk_name := CNull\<rparr>"

definition sg_disk_io_stats_item_copy :: "sg_disk_io_stats vector_copy_function" where
  "sg_disk_io_stats_item_copy s d e =
     andthen (sg_update_string (disk_name d) (disk_name s) e) (\<lambda>(rc, p, e).
       let d = d\<lparr>disk_name := p\<rparr> in
       if rc \<noteq> SG_ERROR_NONE then Done (sg_get_error (Some (err e)), s, d, e)
       else Done (SG_ERROR_NONE, s,
              d\<lparr>read_bytes := read_bytes s, write_bytes := write_bytes s, dio_systime := dio_systime s\<rparr>, e))"

definition sg_disk_io_stats_item_compute_diff :: "sg_disk_io_stats vector_compute_diff_function" where
  "sg_disk_io_stats_item_compute_diff s d =
     Done (SG_ERROR_NONE,
       d\<lparr>read_bytes := read_bytes d - read_bytes s, write_bytes := write_bytes d - write_bytes s,
         dio_systime := dio_systime d - dio_systime s\<rparr>)"

definition sg_disk_io_stats_item_compare :: "sg_disk_io_stats vector_compare_function" where
  "sg_disk_io_stats_item_compare a b = cmp_field (disk_name a) (disk_name b)"

definition sg_disk_io_stats_item_destroy :: "sg_disk_io_stats vector_destroy_function" where
  "sg_disk_io_stats_item_destroy d = andthen (clear_field (disk_name d)) (\<lambda>p. Done (d\<lparr>disk_name := p\<rparr>))"

definition sg_disk_io_stats_vector_init_info :: "sg_disk_io_stats sg_vector_init_info" where
  "sg_disk_io_stats_vector_init_info =
     \<lparr>item_size = 32,
      init_fn = Fn ''sg_disk_io_stats_item_init'' sg_disk_io_stats_item_init,
      copy_fn = Fn ''sg_disk_io_stats_item_copy'' sg_disk_io_stats_item_copy,
      compute_diff_fn = Fn ''sg_disk_io_stats_item_compute_diff'' sg_disk_io_stats_item_compute_diff,
      compare_fn = Fn ''sg_disk_io_stats_item_compare'' sg_disk_io_stats_item_compare,
      destroy_fn = Fn ''sg_disk_io_stats_item_destroy'' sg_disk_io_stats_item_destroy\<rparr>"

section \<open>The orders offered to callers\<close>

definition sg_disk_io_compare_name :: "sg_disk_io_stats \<Rightarrow> sg_disk_io_stats \<Rightarrow> int outcome" where
  "sg_disk_io_compare_name a b = cmp_field (disk_name a) (disk_name b)"

definition sg_disk_io_compare_traffic :: "sg_disk_io_stats \<Rightarrow> sg_disk_io_stats \<Rightarrow> int" where
  "sg_disk_io_compare_traffic a b =
     (let tot_a = read_bytes a + write_bytes a; tot_b = read_bytes b + write_bytes b
      in if tot_a = tot_b then 0 else if tot_b < tot_a then - 1 else 1)"

section \<open>File systems meet the interface\<close>

definition fs_ok :: "sg_fs_stats \<Rightarrow> bool" where
  "fs_ok d \<longleftrightarrow> cstr_ok (device_name d) \<and> cstr_ok (device_canonical d) \<and> cstr_ok (fs_type d) \<and> cstr_ok (mnt_point d)"

definition fs_view :: "sg_fs_stats \<Rightarrow> sg_fs_stats" where
  "fs_view d = d\<lparr>device_name := cstr_copy (device_name d), device_canonical := cstr_copy (device_canonical d),
     fs_type := cstr_copy (fs_type d), mnt_point := cstr_copy (mnt_point d)\<rparr>"

definition fs_named :: "sg_fs_stats \<Rightarrow> bool" where
  "fs_named d \<longleftrightarrow> device_name d \<noteq> CNull \<and> device_canonical d \<noteq> CNull \<and> fs_type d \<noteq> CNull \<and> mnt_point d \<noteq> CNull"

definition fs_key :: "sg_fs_stats \<Rightarrow> cstr \<times> cstr \<times> cstr \<times> cstr" where
  "fs_key d = (device_name d, device_canonical d, mnt_point d, fs_type d)"

definition fs_sub :: "sg_fs_stats \<Rightarrow> sg_fs_stats \<Rightarrow> sg_fs_stats" where
  "fs_sub s d = (case sg_fs_stats_item_compute_diff s d of Done (_, d') \<Rightarrow> d' | Fault _ \<Rightarrow> d)"

lemma sg_fs_stats_item_copy_law:
  assumes "fs_ok s" "fs_ok d"
  shows "\<exists>rc d' e'. sg_fs_stats_item_copy s d e = Done (rc, s, d', e') \<and> fs_ok d' \<and>
     (sched e = [] \<longrightarrow> rc = SG_ERROR_NONE \<and> e' = e) \<and>
     (if rc = SG_ERROR_NONE then fs_view d' = fs_view s \<and> err e' = err e else error (err e') = rc)"
proof -
  have s: "cstr_ok (device_name s)" "cstr_ok (device_canonical s)" "cstr_ok (fs_type s)" "cstr_ok (mnt_point s)"
    and d: "cstr_ok (device_name d)" "cstr_ok (device_canonical d)" "cstr_ok (fs_type d)" "cstr_ok (mnt_point d)"
    using assms by (simp_all add: fs_ok_def)
  obtain r1 p1 e1 where u1: "sg_update_string (device_name d) (device_name s) e = Done (r1, p1, e1)" "cstr_ok p1"
    "sched e = [] \<longrightarrow> r1 = SG_ERROR_NONE \<and> e1 = e"
    "if r1 = SG_ERROR_NONE then p1 = cstr_copy (device_name s) \<and> err e1 = err e else error (err e1) = r1"
    using sg_update_string_step [OF d(1) s(1), of e] by blast
  obtain r2 p2 e2 where u2: "sg_update_string (device_canonical d) (device_canonical s) e1 = Done (r2, p2, e2)" "cstr_ok p2"
    "sched e1 = [] \<longrightarrow> r2 = SG_ERROR_NONE \<and> e2 = e1"
    "if r2 = SG_ERROR_NONE then p2 = cstr_copy (device_canonical s) \<and> err e2 = err e1 else error (err e2) = r2"
    using sg_update_string_step [OF d(2) s(2), of e1] by blast
  obtain r3 p3 e3 where u3: "sg_update_string (fs_type d) (fs_type s) e2 = Done (r3, p3, e3)" "cstr_ok p3"
    "sched e2 = [] \<longrightarrow> r3 = SG_ERROR_NONE \<and> e3 = e2"
    "if r3 = SG_ERROR_NONE then p3 = cstr_copy (fs_type s) \<and> err e3 = err e2 else error (err e3) = r3"
    using sg_update_string_step [OF d(3) s(3), of e2] by blast
  obtain r4 p4 e4 where u4: "sg_update_string (mnt_point d) (mnt_point s) e3 = Done (r4, p4, e4)" "cstr_ok p4"
    "sched e3 = [] \<longrightarrow> r4 = SG_ERROR_NONE \<and> e4 = e3"
    "if r4 = SG_ERROR_NONE then p4 = cstr_copy (mnt_point s) \<and> err e4 = err e3 else error (err e4) = r4"
    using sg_update_string_step [OF d(4) s(4), of e3] by blast
  consider "r1 \<noteq> SG_ERROR_NONE" | "r1 = SG_ERROR_NONE" "r2 \<noteq> SG_ERROR_NONE"
    | "r1 = SG_ERROR_NONE" "r2 = SG_ERROR_NONE" "r3 \<noteq> SG_ERROR_NONE"
    | "r1 = SG_ERROR_NONE" "r2 = SG_ERROR_NONE" "r3 = SG_ERROR_NONE" "r4 \<noteq> SG_ERROR_NONE"
    | "r1 = SG_ERROR_NONE" "r2 = SG_ERROR_NONE" "r3 = SG_ERROR_NONE" "r4 = SG_ERROR_NONE" by blast
  then show ?thesis
    using u1 u2 u3 u4 d
    by cases (auto simp: sg_fs_stats_item_copy_def fs_ok_def fs_view_def sg_fs_stats_copy_numbers_def Let_def)
qed

lemma sg_fs_stats_item_compare_law:
  assumes "fs_ok a" "fs_ok b" "fs_named (fs_view a)" "fs_named (fs_view b)"
  shows "\<exists>c. sg_fs_stats_item_compare a b = Done c \<and> (c = 0 \<longleftrightarrow> fs_key (fs_view a) = fs_key (fs_view b))"
proof -
  have c: "\<exists>c. cmp_field (g a) (g b) = Done c \<and> (c = 0 \<longleftrightarrow> cstr_copy (g a) = cstr_copy (g b))"
    if "cstr_ok (g a)" "cstr_ok (g b)" "g a \<noteq> CNull" "g b \<noteq> CNull" for g
    using that by (rule cmp_field_ok)
  have "fs_named a" "fs_named b" using assms(3,4) by (simp_all add: fs_named_def fs_view_def)
  with assms(1,2) c [of device_name] c [of device_canonical] c [of mnt_point] c [of fs_type]
  obtain c1 c2 c3 c4 where
    "cmp_field (device_name a) (device_name b) = Done c1" "c1 = 0 \<longleftrightarrow> cstr_copy (device_name a) = cstr_copy (device_name b)"
    "cmp_field (device_canonical a) (device_canonical b) = Done c2"
    "c2 = 0 \<longleftrightarrow> cstr_copy (device_canonical a) = cstr_copy (device_canonical b)"
    "cmp_field (mnt_point a) (mnt_point b) = Done c3" "c3 = 0 \<longleftrightarrow> cstr_copy (mnt_point a) = cstr_copy (mnt_point b)"
    "cmp_field (fs_type a) (fs_type b) = Done c4" "c4 = 0 \<longleftrightarrow> cstr_copy (fs_type a) = cstr_copy (fs_type b)"
    unfolding fs_ok_def fs_named_def by blast
  then show ?thesis by (simp add: sg_fs_stats_item_compare_def fs_view_def fs_key_def)
qed

interpretation fs: diff_items sg_fs_stats_vector_init_info fs_ok fs_view fs_named fs_key fs_sub
proof unfold_locales
  show "\<exists>rc d' e'. f s d e = Done (rc, s, d', e') \<and> fs_ok d' \<and> (sched e = [] \<longrightarrow> rc = SG_ERROR_NONE \<and> e' = e) \<and>
      (if rc = SG_ERROR_NONE then fs_view d' = fs_view s \<and> err e' = err e else error (err e') = rc)"
    if "copy_fn sg_fs_stats_vector_init_info = Fn n f" "fs_ok s" "fs_ok d" for n f s d e
    using that sg_fs_stats_item_copy_law by (simp add: sg_fs_stats_vector_init_info_def)
  show "\<exists>c. cmp a b = Done c \<and> (c = 0 \<longleftrightarrow> fs_key (fs_view a) = fs_key (fs_view b))"
    if "compare_fn sg_fs_stats_vector_init_info = Fn n cmp" "fs_ok a" "fs_ok b"
      "fs_named (fs_view a)" "fs_named (fs_view b)" for n cmp a b
    using that sg_fs_stats_item_compare_law by (simp add: sg_fs_stats_vector_init_info_def)
qed (auto simp: sg_fs_stats_vector_init_info_def fs_ok_def sg_fs_stats_item_init_def
    sg_fs_stats_item_destroy_def free_field_ok Let_def
    sg_fs_stats_item_compute_diff_def fs_sub_def fs_view_def fs_named_def fs_key_def)

section \<open>Disk traffic meets the interface\<close>

definition dio_ok :: "sg_disk_io_stats \<Rightarrow> bool" where
  "dio_ok d \<longleftrightarrow> cstr_ok (disk_name d)"

definition dio_view :: "sg_disk_io_stats \<Rightarrow> sg_disk_io_stats" where
  "dio_view d = d\<lparr>disk_name := cstr_copy (disk_name d)\<rparr>"

definition dio_sub :: "sg_disk_io_stats \<Rightarrow> sg_disk_io_stats \<Rightarrow> sg_disk_io_stats" where
  "dio_sub s d = d\<lparr>read_bytes := read_bytes d - read_bytes s, write_bytes := write_bytes d - write_bytes s,
     dio_systime := dio_systime d - dio_systime s\<rparr>"

lemma sg_disk_io_stats_item_copy_law:
  assumes "dio_ok s" "dio_ok d"
  shows "\<exists>rc d' e'. sg_disk_io_stats_item_copy s d e = Done (rc, s, d', e') \<and> dio_ok d' \<and>
     (sched e = [] \<longrightarrow> rc = SG_ERROR_NONE \<and> e' = e) \<and>
     (if rc = SG_ERROR_NONE then dio_view d' = dio_view s \<and> err e' = err e else error (err e') = rc)"
  using sg_update_string_step [of "disk_name d" "disk_name s" e] assms
  by (auto simp: sg_disk_io_stats_item_copy_def dio_ok_def dio_view_def Let_def split: if_splits)

interpretation dio: diff_items sg_disk_io_stats_vector_init_info dio_ok dio_view "\<lambda>d. disk_name d \<noteq> CNull" disk_name dio_sub
proof unfold_locales
  show "\<exists>c. cmp a b = Done c \<and> (c = 0 \<longleftrightarrow> disk_name (dio_view a) = disk_name (dio_view b))"
    if "compare_fn sg_disk_io_stats_vector_init_info = Fn n cmp" "dio_ok a" "dio_ok b"
      "disk_name (dio_view a) \<noteq> CNull" "disk_name (dio_view b) \<noteq> CNull" for n cmp a b
    using that cmp_field_ok [of "disk_name a" "disk_name b"]
    by (auto simp: sg_disk_io_stats_vector_init_info_def sg_disk_io_stats_item_compare_def dio_ok_def dio_view_def)
  show "\<exists>rc d' e'. f s d e = Done (rc, s, d', e') \<and> dio_ok d' \<and> (sched e = [] \<longrightarrow> rc = SG_ERROR_NONE \<and> e' = e) \<and>
      (if rc = SG_ERROR_NONE then dio_view d' = dio_view s \<and> err e' = err e else error (err e') = rc)"
    if "copy_fn sg_disk_io_stats_vector_init_info = Fn n f" "dio_ok s" "dio_ok d" for n f s d e
    using that sg_disk_io_stats_item_copy_law by (simp add: sg_disk_io_stats_vector_init_info_def)
qed (auto simp: sg_disk_io_stats_vector_init_info_def dio_ok_def sg_disk_io_stats_item_init_def
    sg_disk_io_stats_item_destroy_def clear_field_ok
    sg_disk_io_stats_item_compute_diff_def dio_sub_def dio_view_def)

end
