(* ===== verification/Network_Items.thy ===== *)
theory Network_Items
  imports Items
begin

text \<open>
  The item types of \<^verbatim>\<open>src/libstatgrab/network_stats.c\<close>: traffic counters, which are compared with wrap
  around at 32 bits on the platforms that deliver 32-bit counters, and interface states. The former
  meet \<open>diff_items\<close>; the latter meet \<open>vec_items\<close> only, because the copy function of the interface
  states has its arguments swapped.
\<close>

section \<open>Traffic counters\<close>

record sg_network_io_stats =
  interface_name :: cstr
  tx :: ull
  rx :: ull
  ipackets :: ull
  opackets :: ull
  ierrors :: ull
  oerrors :: ull
  collisions :: ull
  nio_systime :: time_t

definition sg_network_io_stats_item_init :: "sg_network_io_stats \<Rightarrow> sg_network_io_stats" where
  "sg_network_io_stats_item_init d =
     \<lparr>interface_name = CNull, tx = 0, rx = 0, ipackets = 0, opackets = 0, ierrors = 0, oerrors = 0,
      collisions = 0, nio_systime = 0\<rparr>"

definition sg_network_io_stats_item_copy :: "sg_network_io_stats vector_copy_function" where
  "sg_network_io_stats_item_copy s d e =
     andthen (sg_update_string (interface_name d) (interface_name s) e) (\<lambda>(rc, p, e).
       let d = d\<lparr>interface_name := p\<rparr> in
       if rc \<noteq> SG_ERROR_NONE then Done (sg_get_error (Some (err e)), s, d, e)
       else Done (SG_ERROR_NONE, s,
              d\<lparr>tx := tx s, rx := rx s, ipackets := ipackets s, opackets := opackets s, ierrors := ierrors s,
                oerrors := oerrors s, collisions := collisions s, nio_systime := nio_systime s\<rparr>, e))"

text \<open>
  \<^verbatim>\<open>transfer_diff\<close>, with \<open>wrap32\<close> for the platforms of the first branch. There the counters are
  compared as \<^verbatim>\<open>long long\<close>; the sum \<^verbatim>\<open>MAXVAL + cmp_new - cmp_old\<close> is one of signed 64-bit values.
\<close>

definition transfer_diff :: "bool \<Rightarrow> ull \<Rightarrow> ull \<Rightarrow> ull" where
  "transfer_diff wrap32 new old =
     (if wrap32 then
        (if sint old \<le> sint new then new - old
         else word_of_int (0x100000000 + sint new - sint old))
      else new - old)"

definition sg_network_io_stats_item_compute_diff :: "bool \<Rightarrow> sg_network_io_stats vector_compute_diff_function" where
  "sg_network_io_stats_item_compute_diff wrap32 s d =
     Done (SG_ERROR_NONE,
       d\<lparr>tx := transfer_diff wrap32 (tx d) (tx s), rx := transfer_diff wrap32 (rx d) (rx s),
         ipackets := transfer_diff wrap32 (ipackets d) (ipackets s),
         opackets := transfer_diff wrap32 (opackets d) (opackets s),
         ierrors := transfer_diff wrap32 (ierrors d) (ierrors s),
         oerrors := transfer_diff wrap32 (oerrors d) (oerrors s),
         collisions := transfer_diff wrap32 (collisions d) (collisions s),
         nio_systime := nio_systime d - nio_systime s\<rparr>)"

definition sg_network_io_stats_item_compare :: "sg_network_io_stats vector_compare_function" where
  "sg_network_io_stats_item_compare a b = cmp_field (interface_name a) (interface_name b)"

definition sg_network_io_stats_item_destroy :: "sg_network_io_stats vector_destroy_function" where
  "sg_network_io_stats_item_destroy d =
     andthen (clear_field (interface_name d)) (\<lambda>p. Done (d\<lparr>interface_name := p\<rparr>))"

definition sg_network_io_stats_vector_init_info :: "bool \<Rightarrow> sg_network_io_stats sg_vector_init_info" where
  "sg_network_io_stats_vector_init_info wrap32 =
     \<lparr>item_size = 72,
      init_fn = Fn ''sg_network_io_stats_item_init'' sg_network_io_stats_item_init,
      copy_fn = Fn ''sg_network_io_stats_item_copy'' sg_network_io_stats_item_copy,
      compute_diff_fn = Fn ''sg_network_io_stats_item_compute_diff'' (sg_network_io_stats_item_compute_diff wrap32),
      compare_fn = Fn ''sg_network_io_stats_item_compare'' sg_network_io_stats_item_compare,
      destroy_fn = Fn ''sg_network_io_stats_item_destroy'' sg_network_io_stats_item_destroy\<rparr>"

definition sg_network_io_compare_name :: "sg_network_io_stats \<Rightarrow> sg_network_io_stats \<Rightarrow> int outcome" where
  "sg_network_io_compare_name a b = cmp_field (interface_name a) (interface_name b)"

section \<open>Interface states\<close>

datatype sg_iface_duplex = SG_IFACE_DUPLEX_FULL | SG_IFACE_DUPLEX_HALF | SG_IFACE_DUPLEX_UNKNOWN

datatype sg_iface_updown = SG_IFACE_DOWN | SG_IFACE_UP

record sg_network_iface_stats =
  iface_name :: cstr
  speed :: ull
  factor :: ull
  duplex :: sg_iface_duplex
  up :: sg_iface_updown
  ifc_systime :: time_t

definition sg_network_iface_stats_item_init :: "sg_network_iface_stats \<Rightarrow> sg_network_iface_stats" where
  "sg_network_iface_stats_item_init d =
     \<lparr>iface_name = CNull, speed = 0, factor = 0, duplex = SG_IFACE_DUPLEX_UNKNOWN, up = SG_IFACE_DOWN,
      ifc_systime = 0\<rparr>"

text \<open>
  The function is declared with the target first, and stored as a \<^verbatim>\<open>vector_copy_function\<close>, which is
  called with the source first: the first argument is the one it overwrites.
\<close>

definition sg_network_iface_stats_item_copy :: "sg_network_iface_stats vector_copy_function" where
  "sg_network_iface_stats_item_copy d s e =
     andthen (sg_update_string (iface_name d) (iface_name s) e) (\<lambda>(rc, p, e).
       let d = d\<lparr>iface_name := p\<rparr> in
       if rc \<noteq> SG_ERROR_NONE then Done (sg_get_error (Some (err e)), d, s, e)
       else Done (SG_ERROR_NONE,
              d\<lparr>speed := speed s, factor := factor s, duplex := duplex s, up := up s, ifc_systime := ifc_systime s\<rparr>,
              s, e))"

definition sg_network_iface_stats_item_destroy :: "sg_network_iface_stats vector_destroy_function" where
  "sg_network_iface_stats_item_destroy d =
     andthen (free_field (iface_name d)) (\<lambda>p. Done (d\<lparr>iface_name := p\<rparr>))"

definition sg_network_iface_stats_vector_init_info :: "sg_network_iface_stats sg_vector_init_info" where
  "sg_network_iface_stats_vector_init_info =
     \<lparr>item_size = 40,
      init_fn = Fn ''sg_network_iface_stats_item_init'' sg_network_iface_stats_item_init,
      copy_fn = Fn ''sg_network_iface_stats_item_copy'' sg_network_iface_stats_item_copy,
      compute_diff_fn = NullFn, compare_fn = NullFn,
      destroy_fn = Fn ''sg_network_iface_stats_item_destroy'' sg_network_iface_stats_item_destroy\<rparr>"

definition sg_network_iface_compare_name :: "sg_network_iface_stats \<Rightarrow> sg_network_iface_stats \<Rightarrow> int outcome" where
  "sg_network_iface_compare_name a b = cmp_field (iface_name a) (iface_name b)"

section \<open>Traffic counters meet the interface\<close>

definition nio_ok :: "sg_network_io_stats \<Rightarrow> bool" where
  "nio_ok d \<longleftrightarrow> cstr_ok (interface_name d)"

definition nio_view :: "sg_network_io_stats \<Rightarrow> sg_network_io_stats" where
  "nio_view d = d\<lparr>interface_name := cstr_copy (interface_name d)\<rparr>"

definition nio_sub :: "bool \<Rightarrow> sg_network_io_stats \<Rightarrow> sg_network_io_stats \<Rightarrow> sg_network_io_stats" where
  "nio_sub wrap32 s d =
     d\<lparr>tx := transfer_diff wrap32 (tx d) (tx s), rx := transfer_diff wrap32 (rx d) (rx s),
       ipackets := transfer_diff wrap32 (ipackets d) (ipackets s),
       opackets := transfer_diff wrap32 (opackets d) (opackets s),
       ierrors := transfer_diff wrap32 (ierrors d) (ierrors s),
       oerrors := transfer_diff wrap32 (oerrors d) (oerrors s),
       collisions := transfer_diff wrap32 (collisions d) (collisions s),
       nio_systime := nio_systime d - nio_systime s\<rparr>"

lemma sg_network_io_stats_item_copy_law:
  assumes "nio_ok s" "nio_ok d"
  shows "\<exists>rc d' e'. sg_network_io_stats_item_copy s d e = Done (rc, s, d', e') \<and> nio_ok d' \<and>
     (sched e = [] \<longrightarrow> rc = SG_ERROR_NONE \<and> e' = e) \<and>
     (if rc = SG_ERROR_NONE then nio_view d' = nio_view s \<and> err e' = err e else error (err e') = rc)"
  using sg_update_string_step [of "interface_name d" "interface_name s" e] assms
  by (auto simp: sg_network_io_stats_item_copy_def nio_ok_def nio_view_def Let_def split: if_splits)

interpretation nio: diff_items "sg_network_io_stats_vector_init_info wrap32" nio_ok nio_view
  "\<lambda>d. interface_name d \<noteq> CNull" interface_name "nio_sub wrap32" for wrap32
proof unfold_locales
  show "\<exists>c. cmp a b = Done c \<and> (c = 0 \<longleftrightarrow> interface_name (nio_view a) = interface_name (nio_view b))"
    if "compare_fn (sg_network_io_stats_vector_init_info wrap32) = Fn n cmp" "nio_ok a" "nio_ok b"
      "interface_name (nio_view a) \<noteq> CNull" "interface_name (nio_view b) \<noteq> CNull" for n cmp a b
    using that cmp_field_ok [of "interface_name a" "interface_name b"]
    by (auto simp: sg_network_io_stats_vector_init_info_def sg_network_io_stats_item_compare_def nio_ok_def nio_view_def)
  show "\<exists>rc d' e'. f s d e = Done (rc, s, d', e') \<and> nio_ok d' \<and> (sched e = [] \<longrightarrow> rc = SG_ERROR_NONE \<and> e' = e) \<and>
      (if rc = SG_ERROR_NONE then nio_view d' = nio_view s \<and> err e' = err e else error (err e') = rc)"
    if "copy_fn (sg_network_io_stats_vector_init_info wrap32) = Fn n f" "nio_ok s" "nio_ok d" for n f s d e
    using that sg_network_io_stats_item_copy_law by (simp add: sg_network_io_stats_vector_init_info_def)
qed (auto simp: sg_network_io_stats_vector_init_info_def nio_ok_def sg_network_io_stats_item_init_def
    sg_network_io_stats_item_destroy_def clear_field_ok
    sg_network_io_stats_item_compute_diff_def nio_sub_def nio_view_def)

section \<open>The difference of wrapping counters\<close>

lemma sint_small: "unat (x :: ull) < 2 ^ 63 \<Longrightarrow> sint x = int (unat x)"
proof -
  assume "unat x < 2 ^ 63"
  then have "int (unat x) < int (2 ^ 63)" by (simp only: of_nat_less_iff)
  then have "uint x < 2 ^ 63" by (simp only: uint_nat of_nat_power of_nat_numeral)
  moreover have "- (2 ^ 63) \<le> uint x" by (rule order_trans [OF _ uint_ge_0]) simp
  ultimately have "signed_take_bit 63 (uint x) = uint x" by (intro signed_take_bit_int_eq_self)
  moreover have "sint x = signed_take_bit 63 (uint x)" by (simp add: sint_uint)
  ultimately show ?thesis by (simp only: uint_nat)
qed

lemma sint_of_nat_small: "n < 2 ^ 63 \<Longrightarrow> sint (word_of_nat n :: ull) = int n"
  by (simp add: sint_small unat_of_nat)

text \<open>C13: On the platforms that handle the wrap of counters of 32 bits, \<^verbatim>\<open>transfer_diff\<close> of two values of such a counter
  between which it counted fewer than \<open>2 ^ 32\<close> units, so that it wrapped at most once, is the number of units
  counted.\<close>

theorem transfer_diff_wraps:
  assumes "old < 2 ^ 32" "delta < 2 ^ 32" "new = (old + delta) mod 2 ^ 32"
  shows "unat (transfer_diff True (word_of_nat new) (word_of_nat old)) = delta"
proof -
  have new: "new < 2 ^ 32" using assms(3) by simp
  have si: "sint (word_of_nat new :: ull) = int new" "sint (word_of_nat old :: ull) = int old"
    using new assms(1) by (intro sint_of_nat_small; simp)+
  show ?thesis
  proof (cases "old + delta < 2 ^ 32")
    case True
    then have n: "new = old + delta" using assms(3) by simp
    then have "(word_of_nat new :: ull) - word_of_nat old = word_of_nat delta" by simp
    with n si assms(2) show ?thesis by (simp add: transfer_diff_def unat_of_nat)
  next
    case False
    then have n: "int new = int old + int delta - 2 ^ 32"
    proof -
      have "new = old + delta - 2 ^ 32"
        using assms False mod_less [of "old + delta - 2 ^ 32" "2 ^ 32"] by (simp add: le_mod_geq)
      then show ?thesis using False by simp
    qed
    then have "\<not> int old \<le> int new" "0x100000000 + int new - int old = int delta" using assms(2) by simp_all
    with si assms(2) show ?thesis by (simp add: transfer_diff_def unat_of_nat)
  qed
qed

lemma transfer_diff_wraps_witness:
  "unat (transfer_diff True (word_of_nat 500) (word_of_nat 4294967200)) = 596"
  using transfer_diff_wraps [of 4294967200 596 500] by simp

text \<open>
  A counter that has grown beyond \<open>2 ^ 32\<close> and is reset (an interface that is taken down and up again)
  yields a difference close to \<open>2 ^ 64\<close>: the wrap is assumed to be at 32 bits whatever the width.
\<close>

lemma transfer_diff_wide_counter: "transfer_diff True 0 0x200000000 = - 0x100000000"
  by (simp add: transfer_diff_def sint_of_nat_small [of 8589934592, simplified])

section \<open>Interface states\<close>

definition ifc_ok :: "sg_network_iface_stats \<Rightarrow> bool" where
  "ifc_ok d \<longleftrightarrow> cstr_ok (iface_name d)"

interpretation ifc: vec_items sg_network_iface_stats_vector_init_info ifc_ok
  by unfold_locales
    (auto simp: sg_network_iface_stats_vector_init_info_def ifc_ok_def sg_network_iface_stats_item_init_def
      sg_network_iface_stats_item_destroy_def free_field_ok)

text \<open>
  A call through the vector's pointer, with the source first, destroys the source: it receives the
  values of the target, and the target stays as it was.
\<close>

lemma sg_network_iface_stats_item_copy_swapped:
  assumes "ifc_ok src" "ifc_ok dst" "sched e = []"
  shows "sg_network_iface_stats_item_copy src dst e =
     Done (SG_ERROR_NONE, dst\<lparr>iface_name := cstr_copy (iface_name dst)\<rparr>, dst, e)"
  using assms
  by (simp add: sg_network_iface_stats_item_copy_def ifc_ok_def sg_update_string_nofail Let_def)

end
