(* ===== verification/Snapshots.thy ===== *)
theory Snapshots
  imports Disk_Items Network_Items
begin

text \<open>
  The contract of the vectors on the item types of the library: what callers of the snapshot and
  difference functions rely on. Every theorem is the instance of a lemma of the interfaces
  \<open>vec_items\<close>, \<open>copy_items\<close> and \<open>diff_items\<close>. The last section holds the inputs on which the operations
  break their contract.
\<close>

section \<open>Vectors that hold given items\<close>

definition block_of :: "'a sg_vector_init_info \<Rightarrow> 'a list \<Rightarrow> 'a vblock" where
  "block_of ty xs =
     \<lparr>hdr = \<lparr>start_eye = SG_VECTOR_START_EYE, used_count = word_of_nat (length xs),
             alloc_count = word_of_nat (length xs), block_shift = 0, info = ty, final_eye = SG_VECTOR_FINAL_EYE\<rparr>,
      bytes = VECTOR_SIZE + word_of_nat (length xs) * item_size ty,
      slots = xs\<rparr>"

definition fresh_env :: "alloc_choice list \<Rightarrow> env" where
  "fresh_env cs = \<lparr>sched = cs, junk_char = CHR ''x'', errno = 0, err = pre_init_errs\<rparr>"

definition world_of :: "'a vblock list \<Rightarrow> 'a \<Rightarrow> 'a world" where
  "world_of bs junk =
     \<lparr>wenv = fresh_env [], blocks = (\<lambda>v. if 0 < v \<and> v \<le> length bs then Some (bs ! (v - 1)) else None),
      next_addr = Suc (length bs), junk_item = junk\<rparr>"

lemma block_of_ok:
  assumes "item_size ty \<noteq> 0" "xs \<noteq> []" "list_all ok xs" "room ty (length xs)" "length xs < 2 ^ 64"
  shows "vec_ok ty ok (block_of ty xs)" "contents (block_of ty xs) = xs"
proof -
  have u: "unat (word_of_nat (length xs) :: size_t) = length xs" using assms(5) by (rule unat_of_nat_size)
  then have "(word_of_nat (length xs) :: size_t) \<noteq> 0" using assms(2) by (metis length_0_conv unat_0)
  moreover have "slot_count (VECTOR_SIZE + word_of_nat (length xs) * item_size ty) (item_size ty) = length xs"
    using slot_count_room [of ty "word_of_nat (length xs)"] assms(1,4) u by simp
  ultimately show "vec_ok ty ok (block_of ty xs)"
    using u assms(3) by (simp add: vec_ok_def block_of_def list_all_length)
  show "contents (block_of ty xs) = xs" using u by (simp add: contents_def block_of_def)
qed

lemma world_of_ok: "heap_ok (world_of bs junk)"
  by (auto simp: heap_ok_def world_of_def)

lemma vload_world_of: "0 < v \<Longrightarrow> v \<le> length bs \<Longrightarrow> vload v (world_of bs junk) = Done (bs ! (v - 1))"
  by (simp add: vload_def world_of_def)

section \<open>The difference of two snapshots\<close>

text \<open>What a difference function delivers for snapshots in which no key occurs twice.\<close>

definition subtract_matching :: "('v \<Rightarrow> 'k) \<Rightarrow> ('v \<Rightarrow> 'v \<Rightarrow> 'v) \<Rightarrow> 'v list \<Rightarrow> 'v list \<Rightarrow> 'v list" where
  "subtract_matching key sub lst cur =
     map (\<lambda>c. case find (\<lambda>l. key l = key c) lst of None \<Rightarrow> c | Some l \<Rightarrow> sub l c) cur"

text \<open>C1: The difference of two snapshots of the disk traffic that name every disk, and none twice, and whose items the
  address space has room for, is computed into a target that is NULL, has as many items as the current
  snapshot, or, when the current snapshot is not empty and memory suffices, has any number of items: the
  result has one item per disk of the current snapshot, with the counters of the disk of that name in the
  last snapshot (if it has one) subtracted modulo \<open>2 ^ 64\<close>; both snapshots and all other vectors are left
  alone. When an allocation fails the code says so and the target is released and NULL.\<close>

theorem disk_io_diff_correct:
  assumes "heap_ok w" "vload cur w = Done bc" "vload lst w = Done bl" "d \<noteq> lst"
    and "vec_ok sg_disk_io_stats_vector_init_info dio_ok bc" "vec_ok sg_disk_io_stats_vector_init_info dio_ok bl"
    and "room_for sg_disk_io_stats_vector_init_info bc" "clone_target sg_disk_io_stats_vector_init_info dio_ok d cur bc w"
    and "\<forall>x \<in> set (contents bc) \<union> set (contents bl). disk_name x \<noteq> CNull"
    and "distinct (map disk_name (map dio_view (contents bc)))" "distinct (map disk_name (map dio_view (contents bl)))"
  shows "\<exists>rc v w'. sg_vector_compute_diff (Some d) cur lst w = Done (rc, Some v, w') \<and> heap_ok w' \<and>
     (sched (wenv w) = [] \<longrightarrow> rc = SG_ERROR_NONE \<and> wenv w' = wenv w) \<and>
     (if rc = SG_ERROR_NONE then
        v \<noteq> 0 \<and> v \<noteq> cur \<and> v \<noteq> lst \<and>
        (\<exists>b'. blocks w' = (blocks w)(d := None, v \<mapsto> b') \<and> vec_ok sg_disk_io_stats_vector_init_info dio_ok b' \<and>
              map dio_view (contents b') =
                subtract_matching disk_name dio_sub (map dio_view (contents bl)) (map dio_view (contents bc)))
      else v = 0 \<and> blocks w' = (blocks w)(d := None) \<and> error (err (wenv w')) = rc)"
proof -
  have "\<forall>x \<in> set (contents bc) \<union> set (contents bl). disk_name (dio_view x) \<noteq> CNull"
    using assms(9) by (simp add: dio_view_def)
  from dio.compute_diff_ok [OF assms(1-8) this] show ?thesis
    unfolding subtract_matching_def diff_spec_distinct [OF assms(11,10)] .
qed

lemma disk_io_diff_correct_witness:
  "\<exists>rc v w'. sg_vector_compute_diff (Some 0) 1 2
       (world_of [block_of sg_disk_io_stats_vector_init_info
                    [\<lparr>disk_name = CStr (''sda'' @ [NUL]), read_bytes = 100, write_bytes = 7, dio_systime = 60\<rparr>],
                  block_of sg_disk_io_stats_vector_init_info
                    [\<lparr>disk_name = CStr (''sda'' @ [NUL]), read_bytes = 30, write_bytes = 7, dio_systime = 50\<rparr>]]
          \<lparr>disk_name = CFreed, read_bytes = 0, write_bytes = 0, dio_systime = 0\<rparr>) =
     Done (SG_ERROR_NONE, Some v, w') \<and> rc = SG_ERROR_NONE \<and>
     (\<exists>b'. blocks w' v = Some b' \<and>
        map dio_view (contents b') =
          [\<lparr>disk_name = CStr (''sda'' @ [NUL]), read_bytes = 70, write_bytes = 0, dio_systime = 10\<rparr>])"
proof -
  let ?ty = sg_disk_io_stats_vector_init_info
  let ?c = "\<lparr>disk_name = CStr (''sda'' @ [NUL]), read_bytes = 100, write_bytes = 7, dio_systime = 60\<rparr>"
  let ?l = "\<lparr>disk_name = CStr (''sda'' @ [NUL]), read_bytes = 30, write_bytes = 7, dio_systime = 50\<rparr>"
  let ?bc = "block_of ?ty [?c]" and ?bl = "block_of ?ty [?l]"
  let ?w = "world_of [?bc, ?bl] \<lparr>disk_name = CFreed, read_bytes = 0, write_bytes = 0, dio_systime = 0\<rparr>"
  have isz: "item_size ?ty = 32" by (simp add: sg_disk_io_stats_vector_init_info_def)
  have ok: "vec_ok ?ty dio_ok ?bc" "vec_ok ?ty dio_ok ?bl" and ct: "contents ?bc = [?c]" "contents ?bl = [?l]"
    by (intro block_of_ok; simp add: isz room_def dio_ok_def)+
  have vw: "dio_view ?c = ?c" "dio_view ?l = ?l"
    by (simp_all add: dio_view_def cstr_copy_def strval_def)
  have rm: "room_for ?ty ?bc" by (simp add: room_for_def room_def isz block_of_def)
  have ld: "vload 1 ?w = Done ?bc" "vload 2 ?w = Done ?bl" by (simp_all add: vload_world_of)
  have tg: "clone_target ?ty dio_ok 0 1 ?bc ?w" by (simp add: clone_target_def)
  have sc: "sched (wenv ?w) = []" by (simp add: world_of_def fresh_env_def)
  have sub: "subtract_matching disk_name dio_sub [?l] [?c] =
      [\<lparr>disk_name = CStr (''sda'' @ [NUL]), read_bytes = 70, write_bytes = 0, dio_systime = 10\<rparr>]"
    by (simp add: subtract_matching_def dio_sub_def)
  from disk_io_diff_correct [OF world_of_ok ld _ ok rm tg] ct vw sc sub show ?thesis by auto
qed

text \<open>The same for the traffic counters of the network interfaces, on platforms with and without 32-bit
  counters: from every current interface the last reading of the interface of that name is subtracted
  with \<^verbatim>\<open>transfer_diff\<close>.\<close>

theorem network_io_diff_correct:
  assumes "heap_ok w" "vload cur w = Done bc" "vload lst w = Done bl" "d \<noteq> lst"
    and "vec_ok (sg_network_io_stats_vector_init_info wrap32) nio_ok bc"
    and "vec_ok (sg_network_io_stats_vector_init_info wrap32) nio_ok bl"
    and "room_for (sg_network_io_stats_vector_init_info wrap32) bc"
    and "clone_target (sg_network_io_stats_vector_init_info wrap32) nio_ok d cur bc w"
    and "\<forall>x \<in> set (contents bc) \<union> set (contents bl). interface_name x \<noteq> CNull"
    and "distinct (map interface_name (map nio_view (contents bc)))"
    and "distinct (map interface_name (map nio_view (contents bl)))"
  shows "\<exists>rc v w'. sg_vector_compute_diff (Some d) cur lst w = Done (rc, Some v, w') \<and> heap_ok w' \<and>
     (sched (wenv w) = [] \<longrightarrow> rc = SG_ERROR_NONE \<and> wenv w' = wenv w) \<and>
     (if rc = SG_ERROR_NONE then
        v \<noteq> 0 \<and> v \<noteq> cur \<and> v \<noteq> lst \<and>
        (\<exists>b'. blocks w' = (blocks w)(d := None, v \<mapsto> b') \<and>
              vec_ok (sg_network_io_stats_vector_init_info wrap32) nio_ok b' \<and>
              map nio_view (contents b') =
                subtract_matching interface_name (nio_sub wrap32) (map nio_view (contents bl)) (map nio_view (contents bc)))
      else v = 0 \<and> blocks w' = (blocks w)(d := None) \<and> error (err (wenv w')) = rc)"
proof -
  have "\<forall>x \<in> set (contents bc) \<union> set (contents bl). interface_name (nio_view x) \<noteq> CNull"
    using assms(9) by (simp add: nio_view_def)
  from nio.compute_diff_ok [OF assms(1-8) this] show ?thesis
    unfolding subtract_matching_def diff_spec_distinct [OF assms(11,10)] .
qed

definition eth0_stats :: "ull \<Rightarrow> ull \<Rightarrow> time_t \<Rightarrow> sg_network_io_stats" where
  "eth0_stats t r now = \<lparr>interface_name = CStr (''eth0'' @ [NUL]), tx = t, rx = r, ipackets = 0, opackets = 0,
     ierrors = 0, oerrors = 0, collisions = 0, nio_systime = now\<rparr>"

lemma eth0_view: "nio_view (eth0_stats t r now) = eth0_stats t r now" "interface_name (eth0_stats t r now) = CStr (''eth0'' @ [NUL])"
  by (simp_all add: eth0_stats_def nio_view_def cstr_copy_def strval_def)

lemma network_io_diff_correct_witness:
  "\<exists>v w' b'. sg_vector_compute_diff (Some 0) 1 2
       (world_of [block_of (sg_network_io_stats_vector_init_info False) [eth0_stats 900 80 20],
                  block_of (sg_network_io_stats_vector_init_info False) [eth0_stats 500 80 15]] (eth0_stats 0 0 0)) =
     Done (SG_ERROR_NONE, Some v, w') \<and> blocks w' v = Some b' \<and>
     map nio_view (contents b') = [eth0_stats 400 0 5]"
proof -
  let ?ty = "sg_network_io_stats_vector_init_info False"
  let ?bc = "block_of ?ty [eth0_stats 900 80 20]" and ?bl = "block_of ?ty [eth0_stats 500 80 15]"
  let ?w = "world_of [?bc, ?bl] (eth0_stats 0 0 0)"
  have isz: "item_size ?ty = 72" by (simp add: sg_network_io_stats_vector_init_info_def)
  have ok: "vec_ok ?ty nio_ok ?bc" "vec_ok ?ty nio_ok ?bl"
    and ct: "contents ?bc = [eth0_stats 900 80 20]" "contents ?bl = [eth0_stats 500 80 15]"
    by (intro block_of_ok; simp add: isz room_def nio_ok_def eth0_view)+
  have rm: "room_for ?ty ?bc" by (simp add: room_for_def room_def isz block_of_def)
  have ld: "vload 1 ?w = Done ?bc" "vload 2 ?w = Done ?bl" by (simp_all add: vload_world_of)
  have tg: "clone_target ?ty nio_ok 0 1 ?bc ?w" by (simp add: clone_target_def)
  have sc: "sched (wenv ?w) = []" by (simp add: world_of_def fresh_env_def)
  have sub: "subtract_matching interface_name (nio_sub False) [eth0_stats 500 80 15] [eth0_stats 900 80 20] = [eth0_stats 400 0 5]"
    by (simp add: subtract_matching_def nio_sub_def transfer_diff_def eth0_stats_def)
  from network_io_diff_correct [OF world_of_ok ld _ ok rm tg] ct eth0_view sc sub show ?thesis by auto
qed

section \<open>Cloning and resizing\<close>

text \<open>C7: Cloning a vector of file systems never faults: it delivers a fresh vector whose items have the same
  names and numbers and leaves the source and all other vectors alone, or NULL with the heap as it was
  and an error recorded.\<close>

theorem fs_clone_correct:
  assumes "heap_ok w" "vload src w = Done bs" "vec_ok sg_fs_stats_vector_init_info fs_ok bs"
    and "room_for sg_fs_stats_vector_init_info bs"
  shows "\<exists>v w'. sg_vector_clone src w = Done (v, w') \<and> heap_ok w' \<and>
     (sched (wenv w) = [] \<longrightarrow> v \<noteq> 0 \<and> wenv w' = wenv w) \<and>
     (v = 0 \<and> blocks w' = blocks w \<and> error (err (wenv w')) \<noteq> SG_ERROR_NONE \<or>
      v = next_addr w \<and> err (wenv w') = err (wenv w) \<and>
      (\<exists>b'. blocks w' = (blocks w)(v \<mapsto> b') \<and> vec_ok sg_fs_stats_vector_init_info fs_ok b' \<and>
            map fs_view (contents b') = map fs_view (contents bs)))"
  using assms by (rule fs.clone_ok)

definition root_fs :: sg_fs_stats where
  "root_fs = \<lparr>device_name = CStr (''sda1'' @ [NUL]), device_canonical = CStr (''sda1'' @ [NUL]),
     fs_type = CStr (''ext4'' @ [NUL]), mnt_point = CStr (''/'' @ [NUL]), device_type = 1,
     fs_size = 1000, fs_used = 400, fs_free = 600, fs_avail = 550, total_inodes = 64, used_inodes = 4,
     free_inodes = 60, avail_inodes = 60, io_size = 4096, block_size = 4096, total_blocks = 10,
     free_blocks = 6, used_blocks = 4, avail_blocks = 5, fs_systime = 7\<rparr>"

lemma fs_clone_correct_witness:
  "\<exists>w'. sg_vector_clone 1 (world_of [block_of sg_fs_stats_vector_init_info [root_fs]] root_fs) = Done (2, w') \<and>
     (\<exists>b'. blocks w' 2 = Some b' \<and> map fs_view (contents b') = [fs_view root_fs])"
proof -
  let ?ty = sg_fs_stats_vector_init_info
  let ?b = "block_of ?ty [root_fs]" and ?w = "world_of [block_of ?ty [root_fs]] root_fs"
  have isz: "item_size ?ty = 160" by (simp add: sg_fs_stats_vector_init_info_def)
  have ok: "vec_ok ?ty fs_ok ?b" and ct: "contents ?b = [root_fs]"
    by (intro block_of_ok; simp add: isz room_def fs_ok_def root_fs_def)+
  have rm: "room_for ?ty ?b" by (simp add: room_for_def room_def isz block_of_def)
  have ld: "vload 1 ?w = Done ?b" by (simp add: vload_world_of)
  have sc: "sched (wenv ?w) = []" "next_addr ?w = 2" by (simp_all add: world_of_def fresh_env_def)
  from fs_clone_correct [OF world_of_ok ld ok rm] ct sc show ?thesis by auto
qed

text \<open>Resizing a vector of disks to a size other than zero never faults: the items that stay keep their
  place and value, new ones are initialised, the vector stays within its memory whether the block is
  moved or not, and all other vectors are left alone; when memory runs out the vector has been
  released and \<^verbatim>\<open>SG_ERROR_MALLOC\<close> is the last error.\<close>

theorem disk_io_resize_correct:
  assumes "heap_ok w" "vload v w = Done b" "vec_ok sg_disk_io_stats_vector_init_info dio_ok b" "n \<noteq> 0"
    and "room sg_disk_io_stats_vector_init_info (rounded (unat n) (unat (block_shift (hdr b))))"
  shows "\<exists>v' w'. sg_vector_resize v n w = Done (v', w') \<and> heap_ok w' \<and> junk_item w' = junk_item w \<and>
     (v' = 0 \<and> blocks w' = (blocks w)(v := None) \<and> error (err (wenv w')) = SG_ERROR_MALLOC \<and>
        sched (wenv w) \<noteq> [] \<or>
      v' \<noteq> 0 \<and> (v' = v \<or> v' = next_addr w) \<and> err (wenv w') = err (wenv w) \<and>
      (sched (wenv w) = [] \<longrightarrow> wenv w' = wenv w) \<and>
      (\<exists>b' ys. blocks w' = (blocks w)(v := None, v' \<mapsto> b') \<and>
         vec_ok sg_disk_io_stats_vector_init_info dio_ok b' \<and>
         used_count (hdr b') = n \<and> block_shift (hdr b') = block_shift (hdr b) \<and>
         contents b' = take (unat n) (contents b) @ map sg_disk_io_stats_item_init ys))"
proof -
  have "raw_init sg_disk_io_stats_vector_init_info = sg_disk_io_stats_item_init"
    by (simp add: fun_eq_iff raw_init_def sg_disk_io_stats_vector_init_info_def)
  with dio.resize_ok [OF assms] show ?thesis by simp
qed

definition sda_stats :: "ull \<Rightarrow> sg_disk_io_stats" where
  "sda_stats r = \<lparr>disk_name = CStr (''sda'' @ [NUL]), read_bytes = r, write_bytes = 0, dio_systime = 0\<rparr>"

lemma disk_io_resize_correct_witness:
  "\<exists>v' w' b' y. sg_vector_resize 1 2 (world_of [block_of sg_disk_io_stats_vector_init_info [sda_stats 5]] (sda_stats 0)) = Done (v', w') \<and>
     blocks w' v' = Some b' \<and> contents b' = [sda_stats 5, sg_disk_io_stats_item_init y]"
proof -
  let ?ty = sg_disk_io_stats_vector_init_info
  let ?b = "block_of ?ty [sda_stats 5]" and ?w = "world_of [block_of ?ty [sda_stats 5]] (sda_stats 0)"
  have isz: "item_size ?ty = 32" by (simp add: sg_disk_io_stats_vector_init_info_def)
  have ok: "vec_ok ?ty dio_ok ?b" and ct: "contents ?b = [sda_stats 5]"
    by (intro block_of_ok; simp add: isz room_def dio_ok_def sda_stats_def)+
  have rm: "room ?ty (rounded (unat (2 :: size_t)) (unat (block_shift (hdr ?b))))"
    by (simp add: room_def isz block_of_def rounded_def)
  have ld: "vload 1 ?w = Done ?b" by (simp add: vload_world_of)
  have sc: "sched (wenv ?w) = []" by (simp add: world_of_def fresh_env_def)
  obtain v' w' b' ys where r: "sg_vector_resize 1 2 ?w = Done (v', w')" "blocks w' v' = Some b'"
      "vec_ok ?ty dio_ok b'" "used_count (hdr b') = 2"
      "contents b' = take (unat (2 :: size_t)) (contents ?b) @ map sg_disk_io_stats_item_init ys"
    using disk_io_resize_correct [OF world_of_ok ld ok _ rm] sc by auto
  then have "length (contents b') = 2" using length_contents [OF r(3)] by simp
  with r(5) ct have "length ys = 1" by simp
  then obtain y where "ys = [y]" by (auto simp: length_Suc_conv)
  with r ct show ?thesis by auto
qed

section \<open>Where the contract does not hold\<close>

text \<open>
  A vector created for zero items has room for none, but its header says that a block of items has
  been allocated: the first growth by one item writes behind the allocated memory.
\<close>

lemma block_shift_loop_0: "block_shift_loop 0 0 = Done 0"
  by (simp add: block_shift_loop.simps)

lemma empty_vector_overflows:
  assumes w: "heap_ok w" and s: "sched (wenv w) = []" and f: "init_fn ty = Fn n f"
  shows "\<exists>v w'. VECTOR_CREATE ty 0 w = Done (v, w') \<and> v \<noteq> 0 \<and> sg_vector_resize v 1 w' = Fault (OutOfBounds v 0)"
proof -
  let ?v = "next_addr w"
  let ?h = "\<lparr>start_eye = SG_VECTOR_START_EYE, used_count = 0, alloc_count = 1, block_shift = 0, info = ty,
     final_eye = SG_VECTOR_FINAL_EYE\<rparr>"
  let ?b = "\<lparr>hdr = ?h, bytes = VECTOR_SIZE, slots = []\<rparr>"
  let ?w = "w\<lparr>next_addr := Suc ?v, blocks := (blocks w)(?v \<mapsto> ?b)\<rparr>"
  have v: "?v \<noteq> 0" using w by (simp add: heap_ok_def)
  have ld: "vload ?v ?w = Done ?b" using v by (simp add: vload_Done_iff)
  have al: "valloc ?h VECTOR_SIZE w = (?v, ?w)"
    using s by (simp add: valloc_def sg_realloc_choice_ok slot_count_def VECTOR_SIZE_def Let_def set_env_def)
  have e: "NEXT_POWER2_IN 0 0 = 0" "NEXT_POWER2_IN 1 0 = 1"
    using NEXT_POWER2_IN_0 [of 0] by (simp_all add: NEXT_POWER2_IN_def)
  have i0: "sg_vector_init_new ?v 0 ?w = Done ?w"
    using ld f by (simp add: sg_vector_init_new_def vstore_same)
  have "VECTOR_CREATE ty 0 w = Done (?v, ?w)"
    using al i0 v by (simp add: VECTOR_CREATE_def sg_vector_create_def block_shift_loop_0 sg_vector_create_int_def e)
  moreover have d: "sg_vector_destroy_unused ?v 1 ?w = Done ?w"
    using ld by (simp add: sg_vector_destroy_unused_def vstore_same split: fnptr.splits)
  have "sg_vector_init_new ?v 1 ?w = Fault (OutOfBounds ?v 0)"
    using ld f by (simp add: sg_vector_init_new_def)
  then have "sg_vector_resize ?v 1 ?w = Fault (OutOfBounds ?v 0)"
    using v ld d e by (simp add: sg_vector_resize_def sg_prove_vector_def)
  ultimately show ?thesis using v by blast
qed

text \<open>
  An empty current snapshot and a target that still holds items: the target is released by the resize
  to zero items, the released address is kept as the new target, and the code is \<^verbatim>\<open>SG_ERROR_NONE\<close>.
  With a last snapshot present the released vector is read.
\<close>

lemma sg_vector_resize_0:
  assumes "vload v w = Done b" "vec_ok sg_disk_io_stats_vector_init_info dio_ok b"
  shows "sg_vector_resize v 0 w =
     Done (0, set_env (sg_clear_error (wenv w)) (w\<lparr>blocks := (blocks w)(v := None)\<rparr>))"
  using assms dio.free_block [OF assms] sg_prove_vector_ok [OF assms]
  by (simp add: sg_vector_resize_def vload_Done_iff)

lemma clone_empty_dangles:
  assumes "vload d w = Done bd" "vload cur w = Done bc" "d \<noteq> cur"
    and "vec_ok sg_disk_io_stats_vector_init_info dio_ok bd" "vec_ok sg_disk_io_stats_vector_init_info dio_ok bc"
    and "used_count (hdr bc) = 0" "used_count (hdr bd) \<noteq> 0"
  shows "\<exists>w'. sg_vector_clone_into (Some d) cur w = Done (SG_ERROR_NONE, Some d, w') \<and> blocks w' d = None \<and>
     (\<forall>v. v \<noteq> d \<longrightarrow> blocks w' v = blocks w v)"
proof -
  let ?w = "set_env (sg_clear_error (wenv w)) (w\<lparr>blocks := (blocks w)(d := None)\<rparr>)"
  have ty: "info (hdr bc) = sg_disk_io_stats_vector_init_info" using assms(5) by (simp add: vec_ok_def)
  have err: "error (err (sg_clear_error (wenv w))) = SG_ERROR_NONE" by (simp add: sg_clear_error_def)
  have int: "sg_vector_clone_into_int d cur w = Done (SG_ERROR_NONE, d, ?w)"
    using assms(1,2,6,7) ty err sg_vector_resize_0 [OF assms(1,4)]
    by (simp add: sg_vector_clone_into_int_def sg_disk_io_stats_vector_init_info_def)
  have "sg_vector_clone_into (Some d) cur w = Done (SG_ERROR_NONE, Some d, ?w)"
    using int assms(1,2) sg_prove_vector_ok [OF assms(2,5)] sg_prove_vector_ok [OF assms(1,4)]
      compat_ok [OF assms(1,2,4,5)]
    by (simp add: sg_vector_clone_into_def vload_Done_iff)
  then show ?thesis by auto
qed

lemma diff_of_empty_snapshot_uses_freed_target:
  assumes "vload d w = Done bd" "vload cur w = Done bc" "vload lst w = Done bl" "d \<noteq> cur" "d \<noteq> lst"
    and "vec_ok sg_disk_io_stats_vector_init_info dio_ok bd" "vec_ok sg_disk_io_stats_vector_init_info dio_ok bc"
      "vec_ok sg_disk_io_stats_vector_init_info dio_ok bl"
    and "used_count (hdr bc) = 0" "used_count (hdr bd) \<noteq> 0"
  shows "sg_vector_compute_diff (Some d) cur lst w = Fault (UseAfterFree d)"
proof -
  obtain w' where c: "sg_vector_clone_into (Some d) cur w = Done (SG_ERROR_NONE, Some d, w')" "blocks w' d = None"
      "\<forall>v. v \<noteq> d \<longrightarrow> blocks w' v = blocks w v"
    using clone_empty_dangles [OF assms(1,2,4,6,7,9,10)] by blast
  have l: "vload cur w' = Done bc" "vload lst w' = Done bl" "vload d w' = Fault (UseAfterFree d)"
    "cur \<noteq> 0" "lst \<noteq> 0" "d \<noteq> 0"
    using assms c by (auto simp: vload_def split: if_splits option.splits)
  have ty: "info (hdr bc) = sg_disk_io_stats_vector_init_info" using assms(7) by (simp add: vec_ok_def)
  show ?thesis
    using c(1) l ty sg_prove_vector_ok [OF l(2) assms(8)] compat_ok [OF l(1,2) assms(7,8)]
    by (simp add: sg_vector_compute_diff_def sg_disk_io_stats_vector_init_info_def)
qed

end
