(* ===== verification/C_Search.thy ===== *)
theory C_Search
  imports Prelude "HOL-Library.Multiset"
begin

text \<open>
  \<^verbatim>\<open>bsearch\<close> and \<^verbatim>\<open>qsort\<close> of the C library, which keep the table of named locks and the list of file
  systems searchable. A comparison function that is an order (up to ties) makes them work together:
  the interface is the locale \<open>cmp_order\<close>.
\<close>

section \<open>The two functions\<close>

text \<open>The search among the elements \<open>lo \<le> i < hi\<close>.\<close>

function bsearch_from :: "('k \<Rightarrow> 'k \<Rightarrow> int) \<Rightarrow> 'k \<Rightarrow> 'k list \<Rightarrow> nat \<Rightarrow> nat \<Rightarrow> nat option" where
  "bsearch_from cmp key xs lo hi =
     (if hi \<le> lo then None
      else
        (let mid = (lo + hi) div 2; c = cmp key (xs ! mid) in
         if c < 0 then bsearch_from cmp key xs lo mid
         else if 0 < c then bsearch_from cmp key xs (Suc mid) hi
         else Some mid))"
  by pat_completeness auto
termination
  by (relation "measure (\<lambda>(cmp, key, xs, lo, hi). hi - lo)") auto

declare bsearch_from.simps [simp del]

definition bsearch :: "('k \<Rightarrow> 'k \<Rightarrow> int) \<Rightarrow> 'k \<Rightarrow> 'k list \<Rightarrow> nat option" where
  "bsearch cmp key xs = bsearch_from cmp key xs 0 (length xs)"

text \<open>Any sorted permutation may be the result of \<^verbatim>\<open>qsort\<close>; the stable one is taken.\<close>

fun insert_by :: "('k \<Rightarrow> 'k \<Rightarrow> int) \<Rightarrow> ('a \<Rightarrow> 'k) \<Rightarrow> 'a \<Rightarrow> 'a list \<Rightarrow> 'a list" where
  "insert_by cmp f x [] = [x]"
| "insert_by cmp f x (y # ys) = (if cmp (f x) (f y) \<le> 0 then x # y # ys else y # insert_by cmp f x ys)"

definition qsort :: "('k \<Rightarrow> 'k \<Rightarrow> int) \<Rightarrow> ('a \<Rightarrow> 'k) \<Rightarrow> 'a list \<Rightarrow> 'a list" where
  "qsort cmp f xs = foldr (insert_by cmp f) xs []"

lemma mset_insert_by [simp]: "mset (insert_by cmp f x xs) = add_mset x (mset xs)"
  by (induction xs) auto

lemma mset_qsort [simp]: "mset (qsort cmp f xs) = mset xs"
  by (induction xs) (simp_all add: qsort_def)

lemma set_insert_by [simp]: "set (insert_by cmp f x xs) = insert x (set xs)"
  using mset_insert_by [of cmp f x xs] by (metis set_mset_add_mset_insert set_mset_mset)

lemma set_qsort [simp]: "set (qsort cmp f xs) = set xs"
  by (metis mset_qsort set_mset_mset)

lemma length_qsort [simp]: "length (qsort cmp f xs) = length xs"
  by (metis mset_qsort size_mset)

section \<open>Orders\<close>

definition cmp_sorted :: "('k \<Rightarrow> 'k \<Rightarrow> int) \<Rightarrow> 'k list \<Rightarrow> bool" where
  "cmp_sorted cmp xs \<longleftrightarrow> sorted_wrt (\<lambda>a b. cmp a b \<le> 0) xs"

locale cmp_order =
  fixes cmp :: "'k \<Rightarrow> 'k \<Rightarrow> int"
  assumes cmp_flip: "cmp b a < 0 \<longleftrightarrow> 0 < cmp a b"
    and cmp_trans: "cmp a b \<le> 0 \<Longrightarrow> cmp b c \<le> 0 \<Longrightarrow> cmp a c \<le> 0"
begin

lemma cmp_total: "cmp a b \<le> 0 \<or> cmp b a \<le> 0"
  using cmp_flip [of a b] by linarith

lemma sorted_insert_by: "cmp_sorted cmp (map f xs) \<Longrightarrow> cmp_sorted cmp (map f (insert_by cmp f x xs))"
proof (induction xs)
  case (Cons y ys)
  show ?case
  proof (cases "cmp (f x) (f y) \<le> 0")
    case True
    with Cons.prems show ?thesis by (auto simp: cmp_sorted_def intro: cmp_trans)
  next
    case False
    then have "cmp (f y) (f x) \<le> 0" using cmp_total [of "f x" "f y"] by blast
    with Cons False show ?thesis by (auto simp: cmp_sorted_def)
  qed
qed (simp add: cmp_sorted_def)

lemma sorted_qsort: "cmp_sorted cmp (map f (qsort cmp f xs))"
proof (induction xs)
  case (Cons x xs)
  then show ?case using sorted_insert_by [of f "qsort cmp f xs" x] by (simp add: qsort_def)
qed (simp add: qsort_def cmp_sorted_def)

lemma bsearch_from_sound:
  "bsearch_from cmp key xs lo hi = Some i \<Longrightarrow> lo \<le> i \<and> i < hi \<and> cmp key (xs ! i) = 0"
proof (induction cmp key xs lo hi rule: bsearch_from.induct)
  case (1 cmp key xs lo hi)
  show ?case
  proof (cases "hi \<le> lo")
    case True
    with 1(3) show ?thesis by (simp add: bsearch_from.simps [of cmp key xs lo hi])
  next
    case False
    let ?mid = "(lo + hi) div 2"
    consider "cmp key (xs ! ?mid) < 0" | "0 < cmp key (xs ! ?mid)" | "cmp key (xs ! ?mid) = 0" by linarith
    then show ?thesis
    proof cases
      case c: 1
      then have "bsearch_from cmp key xs lo ?mid = Some i"
        using 1(3) False by (simp add: bsearch_from.simps [of cmp key xs lo hi] Let_def)
      from 1(1) [OF False refl refl c this] show ?thesis using False by auto
    next
      case c: 2
      then have r: "bsearch_from cmp key xs (Suc ?mid) hi = Some i"
        using 1(3) False by (simp add: bsearch_from.simps [of cmp key xs lo hi] Let_def)
      have "\<not> cmp key (xs ! ?mid) < 0" using c by simp
      from 1(2) [OF False refl refl this c r] show ?thesis by auto
    next
      case 3
      then show ?thesis using 1(3) False by (auto simp: bsearch_from.simps [of cmp key xs lo hi] Let_def)
    qed
  qed
qed

lemma bsearch_from_complete:
  assumes "cmp_sorted cmp xs" "hi \<le> length xs" "lo \<le> i" "i < hi" "cmp key (xs ! i) = 0"
  shows "bsearch_from cmp key xs lo hi \<noteq> None"
  using assms(2-4)
proof (induction "hi - lo" arbitrary: lo hi rule: less_induct)
  case less
  let ?mid = "(lo + hi) div 2"
  have ord: "cmp (xs ! a) (xs ! b) \<le> 0" if "a < b" "b < length xs" for a b
    using assms(1) that by (simp add: cmp_sorted_def sorted_wrt_iff_nth_less)
  have m: "lo \<le> ?mid" "?mid < hi" using less.prems by auto
  consider "cmp key (xs ! ?mid) < 0" | "0 < cmp key (xs ! ?mid)" | "cmp key (xs ! ?mid) = 0" by linarith
  then show ?case
  proof cases
    case 1
    have "i < ?mid"
    proof (rule ccontr)
      assume "\<not> i < ?mid"
      then have "?mid = i \<or> ?mid < i" by auto
      then have "cmp (xs ! ?mid) (xs ! i) \<le> 0" if "?mid \<noteq> i" using that ord [of ?mid i] less.prems by auto
      moreover have "cmp (xs ! i) key \<le> 0" using assms(5) cmp_flip [of key "xs ! i"] by linarith
      ultimately have "cmp (xs ! ?mid) key \<le> 0" using cmp_trans [of "xs ! ?mid" "xs ! i" key] by (cases "?mid = i") auto
      then show False using 1 cmp_flip [of key "xs ! ?mid"] by linarith
    qed
    then have "bsearch_from cmp key xs lo ?mid \<noteq> None"
      using less.hyps [of ?mid lo] m less.prems by auto
    with 1 m show ?thesis by (simp add: bsearch_from.simps [of cmp key xs lo hi] Let_def)
  next
    case 2
    have "?mid < i"
    proof (rule ccontr)
      assume "\<not> ?mid < i"
      then have "cmp (xs ! i) (xs ! ?mid) \<le> 0" if "?mid \<noteq> i" using that ord [of i ?mid] less.prems m by auto
      then have "cmp key (xs ! ?mid) \<le> 0"
        using assms(5) cmp_trans [of key "xs ! i" "xs ! ?mid"] by (cases "?mid = i") auto
      then show False using 2 by simp
    qed
    then have "bsearch_from cmp key xs (Suc ?mid) hi \<noteq> None"
      using less.hyps [of hi "Suc ?mid"] m less.prems by auto
    with 2 m show ?thesis by (simp add: bsearch_from.simps [of cmp key xs lo hi] Let_def)
  next
    case 3
    with m show ?thesis by (simp add: bsearch_from.simps [of cmp key xs lo hi] Let_def)
  qed
qed

lemma bsearch_Some: "bsearch cmp key xs = Some i \<Longrightarrow> i < length xs \<and> cmp key (xs ! i) = 0"
  using bsearch_from_sound by (auto simp: bsearch_def)

lemma bsearch_None_iff: "cmp_sorted cmp xs \<Longrightarrow> bsearch cmp key xs = None \<longleftrightarrow> (\<forall>x \<in> set xs. cmp key x \<noteq> 0)"
proof
  assume s: "cmp_sorted cmp xs" and n: "bsearch cmp key xs = None"
  show "\<forall>x \<in> set xs. cmp key x \<noteq> 0"
  proof (intro ballI notI)
    fix x assume "x \<in> set xs" "cmp key x = 0"
    then obtain i where i: "i < length xs" "cmp key (xs ! i) = 0" by (auto simp: in_set_conv_nth)
    with bsearch_from_complete [OF s order_refl le0 i] n show False by (simp add: bsearch_def)
  qed
next
  assume a: "\<forall>x \<in> set xs. cmp key x \<noteq> 0"
  show "bsearch cmp key xs = None"
  proof (cases "bsearch cmp key xs")
    case (Some i)
    with bsearch_Some [OF Some] a show ?thesis by auto
  qed
qed

end

section \<open>The order of names\<close>

lemma strcmp_le_trans: "strcmp a b \<le> 0 \<Longrightarrow> strcmp b c \<le> 0 \<Longrightarrow> strcmp a c \<le> 0"
  using strcmp_trans [of a b c] by (cases "a = b"; cases "b = c") (auto simp: le_less)

interpretation names: cmp_order strcmp
proof
  show "strcmp b a < 0 \<longleftrightarrow> 0 < strcmp a b" for a b
    using strcmp_antisym [of b a] by simp
qed (rule strcmp_le_trans)

lemma bsearch_names_iff: "cmp_sorted strcmp xs \<Longrightarrow> bsearch strcmp key xs = None \<longleftrightarrow> key \<notin> set xs"
  using names.bsearch_None_iff [of xs key] by auto

end
