(* ===== verification/Globals.thy ===== *)
theory Globals
  imports Vector C_Search
begin

text \<open>
  The component manager of \<^verbatim>\<open>src/libstatgrab/globals.c\<close> and \<^verbatim>\<open>globals.h\<close> in its threaded build: the
  table of components, their slices of the thread-local block, the named locks, the reference-counted
  initialisation and destruction, and the place of the last error of a thread
  (\<^verbatim>\<open>sg_get_error_glob\<close> of \<^verbatim>\<open>error.c\<close>). The functions take the calling thread; a call that would not
  return is \<open>Waits\<close>, \<open>Deadlock\<close> or \<open>NonTermination\<close>.
\<close>

section \<open>Mutexes\<close>

type_synonym thread = nat

datatype mutex_kind = MX_DEFAULT | MX_RECURSIVE

text \<open>A mutex: memory that was never initialised, or its kind and its owner with the depth of locking.\<close>

datatype pmutex = MxNone | Mx mutex_kind "(thread \<times> nat) option"

definition EPERM :: int where "EPERM = 1"

definition MAX_RECURSION :: nat where "MAX_RECURSION = 2 ^ 32 - 1"

definition pthread_mutex_lock :: "string \<Rightarrow> thread \<Rightarrow> pmutex \<Rightarrow> (int \<times> pmutex) outcome" where
  "pthread_mutex_lock nm t m =
     (case m of
        MxNone \<Rightarrow> Fault (BadMutex nm)
      | Mx k None \<Rightarrow> Done (0, Mx k (Some (t, 1)))
      | Mx k (Some (u, n)) \<Rightarrow>
          if u \<noteq> t then Fault (Waits nm)
          else if k = MX_DEFAULT then Fault (Deadlock nm)
          else if n < MAX_RECURSION then Done (0, Mx k (Some (t, Suc n)))
          else Done (EAGAIN, m))"

definition pthread_mutex_unlock :: "string \<Rightarrow> thread \<Rightarrow> pmutex \<Rightarrow> (int \<times> pmutex) outcome" where
  "pthread_mutex_unlock nm t m =
     (case m of
        MxNone \<Rightarrow> Fault (BadMutex nm)
      | Mx k None \<Rightarrow> if k = MX_DEFAULT then Fault (BadMutex nm) else Done (EPERM, m)
      | Mx k (Some (u, n)) \<Rightarrow>
          if u \<noteq> t then (if k = MX_DEFAULT then Fault (BadMutex nm) else Done (EPERM, m))
          else Done (0, Mx k (if n \<le> 1 then None else Some (u, n - 1))))"

record sg_named_mutex =
  mx_name :: string
  mx :: pmutex

section \<open>Components and the state of the manager\<close>

text \<open>What the manager uses of a \<^verbatim>\<open>struct sg_comp_init\<close> beside its functions.\<close>

record comp_init =
  comp_name :: string
  static_buf_size :: size_t
  comp_locks :: "string list"

text \<open>
  The table \<^verbatim>\<open>comp_info\<close>. A component of \<open>n\<close> vectors has a slice of \<open>n\<close> pointers; the slice of the error
  component holds its record. Whether the host and the user component require the lock of the utmp
  file depends on the platform.
\<close>

definition vectors_comp :: "string \<Rightarrow> nat \<Rightarrow> string list \<Rightarrow> comp_init" where
  "vectors_comp nm n ls = \<lparr>comp_name = nm, static_buf_size = 8 * word_of_nat n, comp_locks = ls\<rparr>"

definition comp_info :: "bool \<Rightarrow> bool \<Rightarrow> comp_init list" where
  "comp_info os_utmp user_utmp =
     [\<lparr>comp_name = ''error'', static_buf_size = 4104, comp_locks = []\<rparr>,
      vectors_comp ''cpu'' 3 [], vectors_comp ''disk'' 4 [], vectors_comp ''load'' 1 [],
      vectors_comp ''mem'' 1 [], vectors_comp ''network'' 3 [],
      vectors_comp ''os'' 1 (if os_utmp then [''utmp''] else []),
      vectors_comp ''page'' 2 [], vectors_comp ''process'' 2 [], vectors_comp ''swap'' 1 [],
      vectors_comp ''user'' 1 (if user_utmp then [''utmp''] else [])]"

definition GLOB_MASK :: u32 where
  "GLOB_MASK = MAGIC_EYE CHR ''g'' CHR ''l'' CHR ''o'' CHR ''b''"

record tls_block =
  tls_err :: sg_error_glob
  tls_vectors :: "nat \<Rightarrow> nat \<Rightarrow> addr"     \<comment> \<open>component and index of the vector\<close>

datatype gcall = CInit nat | CDestroy nat | CCleanup nat

text \<open>
  The static variables. \<open>genv\<close> holds the allocator and, as its last error, \<^verbatim>\<open>pre_init_errs\<close>. The array
  \<^verbatim>\<open>required_locks\<close> is the list of its elements in use and its allocated length. \<open>calls\<close> records the
  calls of component functions.
\<close>

record gstate =
  genv :: env
  initialized :: u32
  glob_size :: size_t
  glob_ofs :: "size_t list"
  glob_ids :: "nat \<Rightarrow> u32"
  init_errors :: "nat \<Rightarrow> sg_error"
  glob_lock :: pmutex
  required_locks :: "sg_named_mutex list"
  locks_alloc :: nat
  once_done :: bool
  tls :: "thread \<rightharpoonup> tls_block"
  calls :: "gcall list"

definition zero_block :: tls_block where
  "zero_block = \<lparr>tls_err = pre_init_errs, tls_vectors = (\<lambda>_ _. 0)\<rparr>"

section \<open>The last error of a thread\<close>

datatype err_loc = InTls thread | PreInit

definition at_err :: "err_loc \<Rightarrow> (env \<Rightarrow> env) \<Rightarrow> gstate \<Rightarrow> gstate" where
  "at_err loc f s =
     (case loc of
        PreInit \<Rightarrow> s\<lparr>genv := f (genv s)\<rparr>
      | InTls t \<Rightarrow>
          (case tls s t of
             None \<Rightarrow> s
           | Some b \<Rightarrow>
               (let e = f ((genv s)\<lparr>err := tls_err b\<rparr>)
                in s\<lparr>genv := e\<lparr>err := err (genv s)\<rparr>, tls := (tls s)(t \<mapsto> b\<lparr>tls_err := err e\<rparr>)\<rparr>)))"

definition id_valid :: "comp_init list \<Rightarrow> u32 \<Rightarrow> bool" where
  "id_valid ct cid \<longleftrightarrow> unat (cid - GLOB_MASK) < length ct"

definition tls_oom_msg :: string where
  "tls_oom_msg = ''sg_alloc_globals: malloc() failed or no components registered''"

text \<open>
  \<^verbatim>\<open>sg_get_error_glob\<close> asks \<^verbatim>\<open>sg_comp_get_tls\<close>, which allocates the block of a thread that has none, and
  both report their failures through \<^verbatim>\<open>sg_get_error_glob\<close>. The recursion consumes the allocator's
  refusals; with a block but no valid id of the error component it never ends. \<^verbatim>\<open>pthread_setspecific\<close>
  may be refused memory too.
\<close>

function sg_get_error_glob :: "comp_init list \<Rightarrow> thread \<Rightarrow> gstate \<Rightarrow> (err_loc \<times> gstate) outcome" where
  "sg_get_error_glob ct t s =
     (case tls s t of
        Some b \<Rightarrow> if id_valid ct (glob_ids s 0) then Done (InTls t, s) else Fault NonTermination
      | None \<Rightarrow>
          if glob_size s = 0 then Done (PreInit, s)
          else
            (let (c, e) = next_choice (genv s); s = s\<lparr>genv := e\<rparr> in
             if c = AFail then
               andthen (sg_get_error_glob ct t s) (\<lambda>(loc, s).
                 Done (PreInit, at_err loc (SET_ERROR SG_ERROR_MALLOC (Some tls_oom_msg)) s))
             else
               (let (c, e) = next_choice (genv s); s = s\<lparr>genv := e\<rparr> in
                if c = AFail then Done (PreInit, s)
                else if id_valid ct (glob_ids s 0) then Done (InTls t, s\<lparr>tls := (tls s)(t \<mapsto> zero_block)\<rparr>)
                else Fault NonTermination)))"
  by pat_completeness auto
termination
  by (relation "measure (\<lambda>(ct, t, s). length (sched (genv s)))")
    (auto simp: next_choice_def split: list.splits)

declare sg_get_error_glob.simps [simp del]

definition set_error :: "comp_init list \<Rightarrow> thread \<Rightarrow> (env \<Rightarrow> env) \<Rightarrow> gstate \<Rightarrow> gstate outcome" where
  "set_error ct t f s = andthen (sg_get_error_glob ct t s) (\<lambda>(loc, s). Done (at_err loc f s))"

section \<open>The thread-local block\<close>

text \<open>Whether the calling thread has a block now.\<close>

definition sg_alloc_globals :: "comp_init list \<Rightarrow> thread \<Rightarrow> gstate \<Rightarrow> (bool \<times> gstate) outcome" where
  "sg_alloc_globals ct t s =
     (if glob_size s = 0 then Done (False, s)
      else
        (let (c, e) = next_choice (genv s); s = s\<lparr>genv := e\<rparr> in
         if c = AFail then
           andthen (set_error ct t (SET_ERROR SG_ERROR_MALLOC (Some tls_oom_msg)) s) (\<lambda>s. Done (False, s))
         else
           (let (c, e) = next_choice (genv s); s = s\<lparr>genv := e\<rparr> in
            if c = AFail then Done (False, s) else Done (True, s\<lparr>tls := (tls s)(t \<mapsto> zero_block)\<rparr>))))"

text \<open>The index of the component whose slice is returned (its offset is in \<open>glob_ofs\<close>), or NULL.\<close>

definition sg_comp_get_tls :: "comp_init list \<Rightarrow> thread \<Rightarrow> u32 \<Rightarrow> gstate \<Rightarrow> (nat option \<times> gstate) outcome" where
  "sg_comp_get_tls ct t cid s =
     andthen (case tls s t of Some b \<Rightarrow> Done (True, s) | None \<Rightarrow> sg_alloc_globals ct t s) (\<lambda>(present, s).
       if \<not> present then Done (None, s)
       else if \<not> id_valid ct cid then
         andthen (set_error ct t (SET_ERROR SG_ERROR_INVALID_ARGUMENT
             (Some (''sg_comp_get_tls: invalid id ('' @ dec_string (unat (cid - GLOB_MASK)) @ '')''))) s)
           (\<lambda>s. Done (None, s))
       else Done (Some (unat (cid - GLOB_MASK)), s))"

text \<open>The destructor of the thread key: the cleanup functions from the last component to the first.\<close>

definition sg_destroy_globals :: "comp_init list \<Rightarrow> thread \<Rightarrow> gstate \<Rightarrow> gstate" where
  "sg_destroy_globals ct t s =
     (case tls s t of
        None \<Rightarrow> s
      | Some b \<Rightarrow> s\<lparr>calls := calls s @ map CCleanup (rev [0..<length ct]), tls := (tls s)(t := None)\<rparr>)"

definition sg_destroy_main_globals :: "comp_init list \<Rightarrow> thread \<Rightarrow> gstate \<Rightarrow> gstate" where
  "sg_destroy_main_globals ct t s = sg_destroy_globals ct t s"

section \<open>Locks\<close>

text \<open>The error arguments of these functions, which name the thread by an address, are abbreviated.\<close>

definition set_lock :: "nat \<Rightarrow> pmutex \<Rightarrow> gstate \<Rightarrow> gstate" where
  "set_lock i m s = s\<lparr>required_locks := (required_locks s)[i := (required_locks s ! i)\<lparr>mx := m\<rparr>]\<rparr>"

definition sg_lock_mutex :: "comp_init list \<Rightarrow> thread \<Rightarrow> string \<Rightarrow> gstate \<Rightarrow> (sg_error \<times> gstate) outcome" where
  "sg_lock_mutex ct t nm s =
     (case bsearch strcmp nm (map mx_name (required_locks s)) of
        None \<Rightarrow>
          andthen (set_error ct t (SET_ERROR SG_ERROR_INVALID_ARGUMENT (Some nm)) s) (\<lambda>s.
            Done (SG_ERROR_INVALID_ARGUMENT, s))
      | Some i \<Rightarrow>
          andthen (pthread_mutex_lock nm t (mx (required_locks s ! i))) (\<lambda>(rc, m).
            if rc \<noteq> 0 then
              andthen (set_error ct t (SET_ERROR_WITH_ERRNO_CODE SG_ERROR_MUTEX_LOCK rc (Some ''locking mutex'')) s) (\<lambda>s.
                Done (SG_ERROR_MUTEX_LOCK, s))
            else Done (SG_ERROR_NONE, set_lock i m s)))"

definition sg_unlock_mutex :: "comp_init list \<Rightarrow> thread \<Rightarrow> string \<Rightarrow> gstate \<Rightarrow> (sg_error \<times> gstate) outcome" where
  "sg_unlock_mutex ct t nm s =
     (case bsearch strcmp nm (map mx_name (required_locks s)) of
        None \<Rightarrow>
          andthen (set_error ct t (SET_ERROR SG_ERROR_INVALID_ARGUMENT (Some nm)) s) (\<lambda>s.
            Done (SG_ERROR_INVALID_ARGUMENT, s))
      | Some i \<Rightarrow>
          andthen (pthread_mutex_unlock nm t (mx (required_locks s ! i))) (\<lambda>(rc, m).
            if rc \<noteq> 0 then
              andthen (set_error ct t (SET_ERROR_WITH_ERRNO_CODE SG_ERROR_MUTEX_LOCK rc (Some ''unlocking mutex'')) s) (\<lambda>s.
                Done (SG_ERROR_MUTEX_LOCK, s))
            else Done (SG_ERROR_NONE, set_lock i m s)))"

definition sg_global_lock :: "comp_init list \<Rightarrow> thread \<Rightarrow> gstate \<Rightarrow> (sg_error \<times> gstate) outcome" where
  "sg_global_lock ct t s =
     andthen (pthread_mutex_lock ''statgrab'' t (glob_lock s)) (\<lambda>(rc, m).
       if rc \<noteq> 0 then
         andthen (set_error ct t (SET_ERROR_WITH_ERRNO_CODE SG_ERROR_MUTEX_LOCK rc (Some ''locking mutex'')) s) (\<lambda>s.
           Done (SG_ERROR_MUTEX_LOCK, s))
       else Done (SG_ERROR_NONE, s\<lparr>glob_lock := m\<rparr>))"

definition sg_global_unlock :: "comp_init list \<Rightarrow> thread \<Rightarrow> gstate \<Rightarrow> (sg_error \<times> gstate) outcome" where
  "sg_global_unlock ct t s =
     andthen (pthread_mutex_unlock ''statgrab'' t (glob_lock s)) (\<lambda>(rc, m).
       if rc \<noteq> 0 then
         andthen (set_error ct t (SET_ERROR_WITH_ERRNO_CODE SG_ERROR_MUTEX_LOCK rc (Some ''unlocking mutex'')) s) (\<lambda>s.
           Done (SG_ERROR_MUTEX_LOCK, s))
       else Done (SG_ERROR_NONE, s\<lparr>glob_lock := m\<rparr>))"

section \<open>Initialisation\<close>

text \<open>\<^verbatim>\<open>pthread_once\<close> with \<^verbatim>\<open>sg_first_init\<close>, whose failures abort the process.\<close>

definition sg_init_thread_local :: "gstate \<Rightarrow> gstate" where
  "sg_init_thread_local s = (if once_done s then s else s\<lparr>once_done := True, glob_lock := Mx MX_DEFAULT None\<rparr>)"

text \<open>The offsets of the slices, from the size so far, and the total size.\<close>

fun layout :: "comp_init list \<Rightarrow> size_t \<Rightarrow> size_t list \<times> size_t" where
  "layout [] g = ([], g)"
| "layout (c # cs) g = (let (os, g') = layout cs (g + static_buf_size c) in (g # os, g'))"

definition sg_error_init_comp :: "comp_init list \<Rightarrow> thread \<Rightarrow> u32 \<Rightarrow> gstate \<Rightarrow> (sg_error \<times> gstate) outcome" where
  "sg_error_init_comp ct t cid s =
     andthen (sg_comp_get_tls ct t cid s) (\<lambda>(p, s).
       let s = s\<lparr>glob_ids := (glob_ids s)(0 := cid)\<rparr> in
       Done (SG_ERROR_NONE,
         case (p, tls s t) of
           (Some _, Some b) \<Rightarrow>
             if error (err (genv s)) \<noteq> SG_ERROR_NONE
             then s\<lparr>tls := (tls s)(t \<mapsto> b\<lparr>tls_err := err (genv s)\<rparr>)\<rparr> else s
         | _ \<Rightarrow> s))"

text \<open>
  The init functions of the other components store their id and prepare what their platform needs;
  \<open>ans\<close> says with which code and error argument that ends.
\<close>

definition comp_init_fn ::
  "comp_init list \<Rightarrow> (nat \<Rightarrow> sg_error \<times> string option) \<Rightarrow> thread \<Rightarrow> nat \<Rightarrow> gstate \<Rightarrow> (sg_error \<times> gstate) outcome" where
  "comp_init_fn ct ans t i s =
     (let cid = word_of_nat i + GLOB_MASK; s = s\<lparr>calls := calls s @ [CInit i]\<rparr> in
      if i = 0 then sg_error_init_comp ct t cid s
      else
        (let s = s\<lparr>glob_ids := (glob_ids s)(i := cid)\<rparr>; (code, arg) = ans i in
         if code = SG_ERROR_NONE then Done (SG_ERROR_NONE, s)
         else andthen (set_error ct t (SET_ERROR code arg) s) (\<lambda>s. Done (code, s))))"

definition lock_known :: "string \<Rightarrow> sg_named_mutex list \<Rightarrow> bool" where
  "lock_known nm ls = (bsearch strcmp nm (map mx_name ls) \<noteq> None)"

text \<open>The loop that stores the names that are not known yet, in an array of \<open>cap\<close> elements.\<close>

fun add_locks :: "nat \<Rightarrow> string list \<Rightarrow> sg_named_mutex list \<Rightarrow> sg_named_mutex list outcome" where
  "add_locks cap [] ls = Done ls"
| "add_locks cap (nm # nms) ls =
     (if lock_known nm ls then add_locks cap nms ls
      else if length ls < cap
      then add_locks cap nms (qsort strcmp mx_name (ls @ [\<lparr>mx_name = nm, mx = MxNone\<rparr>]))
      else Fault (OutOfBounds 0 (length ls)))"

text \<open>The error that a refused \<^verbatim>\<open>sg_realloc\<close> of an array of \<open>n\<close> named locks of 48 bytes records, and the one its caller records over it.\<close>

definition locks_oom :: "comp_init list \<Rightarrow> thread \<Rightarrow> nat \<Rightarrow> gstate \<Rightarrow> gstate outcome" where
  "locks_oom ct t n s =
     andthen (set_error ct t (SET_ERROR_WITH_ERRNO SG_ERROR_MALLOC
         (Some (''sg_realloc: couldn't realloc(to '' @ dec_string (48 * n) @ '' bytes)''))) s)
       (set_error ct t (SET_ERROR SG_ERROR_MALLOC (Some ''sg_comp_init'')))"

text \<open>The loop over the components; \<open>Inl\<close> is a return from the middle of \<^verbatim>\<open>sg_comp_init\<close>.\<close>

fun comp_loop ::
  "comp_init list \<Rightarrow> bool \<Rightarrow> (nat \<Rightarrow> sg_error \<times> string option) \<Rightarrow> thread \<Rightarrow> nat \<Rightarrow> comp_init list \<Rightarrow> sg_error
     \<Rightarrow> gstate \<Rightarrow> ((sg_error + sg_error) \<times> gstate) outcome" where
  "comp_loop ct ign ans t i [] errc s = Done (Inr errc, s)"
| "comp_loop ct ign ans t i (c # cs) errc s =
     andthen (comp_init_fn ct ans t i s) (\<lambda>(rc, s).
       if rc \<noteq> SG_ERROR_NONE \<and> \<not> ign then Done (Inl rc, s)
       else
         (let (errc, s) = (if rc \<noteq> SG_ERROR_NONE
                           then (SG_ERROR_INITIALISATION, s\<lparr>init_errors := (init_errors s)(i := rc)\<rparr>)
                           else (errc, s));
              new = length (filter (\<lambda>nm. \<not> lock_known nm (required_locks s)) (comp_locks c))
          in if new = 0 then comp_loop ct ign ans t (Suc i) cs errc s
             else
               (let cap = length (required_locks s) + new; (ch, e) = next_choice (genv s); s = s\<lparr>genv := e\<rparr> in
                if ch = AFail then
                  andthen (locks_oom ct t cap s) (\<lambda>s. Done (Inl SG_ERROR_MALLOC, s))
                else
                  andthen (add_locks cap (comp_locks c) (required_locks s)) (\<lambda>ls.
                    comp_loop ct ign ans t (Suc i) cs errc (s\<lparr>required_locks := ls, locks_alloc := cap\<rparr>)))))"

definition init_lock :: "sg_named_mutex \<Rightarrow> sg_named_mutex" where
  "init_lock m = (if mx_name m = ''statgrab'' then m else m\<lparr>mx := Mx MX_RECURSIVE None\<rparr>)"

definition sg_comp_init ::
  "comp_init list \<Rightarrow> bool \<Rightarrow> (nat \<Rightarrow> sg_error \<times> string option) \<Rightarrow> thread \<Rightarrow> gstate \<Rightarrow> (sg_error \<times> gstate) outcome" where
  "sg_comp_init ct ign ans t s =
     andthen (sg_global_lock ct t (sg_init_thread_local s)) (\<lambda>(_, s).
       let old = initialized s; s = s\<lparr>initialized := old + 1\<rparr> in
       if old \<noteq> 0 then sg_global_unlock ct t s
       else
         (let (os, sz) = layout ct 0; s = s\<lparr>glob_ofs := os, glob_size := sz\<rparr>;
              (c, e) = next_choice (genv s); s = s\<lparr>genv := e\<rparr>
          in if c = AFail then
               andthen (locks_oom ct t 1 s) (\<lambda>s. Done (SG_ERROR_MALLOC, s))
             else
               (let s = s\<lparr>required_locks := [\<lparr>mx_name = ''statgrab'', mx = glob_lock s\<rparr>], locks_alloc := 1\<rparr> in
                andthen (comp_loop ct ign ans t 0 ct SG_ERROR_NONE s) (\<lambda>(r, s).
                  case r of
                    Inl rc \<Rightarrow> Done (rc, s)
                  | Inr errc \<Rightarrow>
                      (let (c, e) = next_choice (genv s); s = s\<lparr>genv := e\<rparr> in
                       if c = AFail then Done (SG_ERROR_INITIALISATION, s)
                       else
                         (let s = s\<lparr>required_locks := map init_lock (required_locks s)\<rparr> in
                          andthen (sg_global_unlock ct t s) (\<lambda>(_, s). Done (errc, s))))))))"

section \<open>Destruction\<close>

text \<open>\<^verbatim>\<open>pthread_mutex_destroy\<close> on all named locks but the copy of the global one; a locked mutex must not be destroyed.\<close>

fun destroy_locks :: "sg_named_mutex list \<Rightarrow> unit outcome" where
  "destroy_locks [] = Done ()"
| "destroy_locks (m # ms) =
     (if mx_name m = ''statgrab'' then destroy_locks ms
      else case mx m of
             Mx k None \<Rightarrow> destroy_locks ms
           | _ \<Rightarrow> Fault (BadMutex (mx_name m)))"

definition sg_comp_destroy :: "comp_init list \<Rightarrow> thread \<Rightarrow> gstate \<Rightarrow> (sg_error \<times> gstate) outcome" where
  "sg_comp_destroy ct t s =
     andthen (sg_global_lock ct t s) (\<lambda>(_, s).
       let s = s\<lparr>initialized := initialized s - 1\<rparr> in
       if initialized s \<noteq> 0 then sg_global_unlock ct t s
       else
         (let s = s\<lparr>glob_size := 0, calls := calls s @ map CDestroy (rev [0..<length ct])\<rparr> in
          andthen (destroy_locks (required_locks s)) (\<lambda>_.
            sg_global_unlock ct t (s\<lparr>required_locks := [], locks_alloc := 0\<rparr>))))"

text \<open>The public entry points of \<^verbatim>\<open>tools.c\<close> (on platforms without a device map or a snapshot to prepare).\<close>

definition sg_init ::
  "comp_init list \<Rightarrow> bool \<Rightarrow> (nat \<Rightarrow> sg_error \<times> string option) \<Rightarrow> thread \<Rightarrow> gstate \<Rightarrow> (sg_error \<times> gstate) outcome" where
  "sg_init ct ign ans t s = sg_comp_init ct ign ans t s"

definition sg_shutdown :: "comp_init list \<Rightarrow> thread \<Rightarrow> gstate \<Rightarrow> (sg_error \<times> gstate) outcome" where
  "sg_shutdown ct t s = sg_comp_destroy ct t s"

definition sg_snapshot :: sg_error where
  "sg_snapshot = SG_ERROR_NONE"

text \<open>The state of the static variables at the start of the program.\<close>

definition start_state :: "alloc_choice list \<Rightarrow> gstate" where
  "start_state cs =
     \<lparr>genv = \<lparr>sched = cs, junk_char = NUL, errno = 0, err = pre_init_errs\<rparr>,
      initialized = 0, glob_size = 0, glob_ofs = [], glob_ids = (\<lambda>_. 0), init_errors = (\<lambda>_. SG_ERROR_NONE),
      glob_lock = Mx MX_DEFAULT None, required_locks = [], locks_alloc = 0, once_done = False,
      tls = Map.empty, calls = []\<rparr>"

end
