(* ===== verification/Globals_Safety.thy ===== *)
theory Globals_Safety
  imports Globals
begin

text \<open>
  Correctness of the component manager: the slices of the thread-local block, the table of named
  locks, initialisation and destruction as a reference count, and mutual exclusion.
\<close>

section \<open>Recording errors leaves the manager alone\<close>

definition core :: "gstate \<Rightarrow> u32 \<times> size_t \<times> size_t list \<times> (nat \<Rightarrow> u32) \<times> (nat \<Rightarrow> sg_error) \<times> pmutex \<times>
    sg_named_mutex list \<times> nat \<times> bool \<times> gcall list" where
  "core s = (initialized s, glob_size s, glob_ofs s, glob_ids s, init_errors s, glob_lock s, required_locks s,
     locks_alloc s, once_done s, calls s)"

lemma core_at_err [simp]: "core (at_err loc f s) = core s"
  by (simp add: core_def at_err_def Let_def split: err_loc.splits option.splits)

lemma core_genv [simp]: "core (s\<lparr>genv := e\<rparr>) = core s"
  by (simp add: core_def)

lemma core_tls [simp]: "core (s\<lparr>tls := m\<rparr>) = core s"
  by (simp add: core_def)

lemma core_fields:
  assumes "core s' = core s"
  shows "initialized s' = initialized s" "glob_size s' = glob_size s" "glob_ofs s' = glob_ofs s"
    "glob_ids s' = glob_ids s" "init_errors s' = init_errors s" "glob_lock s' = glob_lock s"
    "required_locks s' = required_locks s" "locks_alloc s' = locks_alloc s" "once_done s' = once_done s"
    "calls s' = calls s"
  using assms by (simp_all add: core_def)

text \<open>With a valid id of the error component the search for the record always ends, whatever the allocator does.\<close>

lemma sg_get_error_glob_ok:
  assumes "id_valid ct (glob_ids s 0)"
  shows "\<exists>loc s'. sg_get_error_glob ct t s = Done (loc, s') \<and> core s' = core s \<and>
     (sched (genv s) = [] \<longrightarrow> sched (genv s') = [])"
  using assms
proof (induction ct t s rule: sg_get_error_glob.induct)
  case (1 ct t s)
  obtain c e where c: "next_choice (genv s) = (c, e)" by fastforce
  obtain c2 e2 where c2: "next_choice e = (c2, e2)" by fastforce
  have q: "sched (genv s) = [] \<Longrightarrow> c = AMove \<and> e = genv s \<and> c2 = AMove \<and> e2 = genv s"
    using c c2 by (auto simp: next_choice_def)
  show ?case
  proof (cases "tls s t \<noteq> None \<or> glob_size s = 0")
    case True
    with "1.prems" show ?thesis
      by (auto simp: sg_get_error_glob.simps [of ct t s] split: option.splits)
  next
    case False
    then have n: "tls s t = None" "glob_size s \<noteq> 0" by auto
    show ?thesis
    proof (cases "c = AFail")
      case True
      from "1.IH" [OF n refl c [symmetric] refl True] "1.prems"
      obtain loc s' where r: "sg_get_error_glob ct t (s\<lparr>genv := e\<rparr>) = Done (loc, s')" "core s' = core s" by auto
      have "sched (genv s) \<noteq> []" using q True by auto
      with r n c True show ?thesis by (simp add: sg_get_error_glob.simps [of ct t s] Let_def)
    next
      case False
      with n c c2 q "1.prems" show ?thesis
        by (auto simp: sg_get_error_glob.simps [of ct t s] Let_def core_def)
    qed
  qed
qed

lemma sched_at_err: "(\<And>e. sched (f e) = sched e) \<Longrightarrow> sched (genv (at_err loc f s)) = sched (genv s)"
  by (simp add: at_err_def Let_def split: err_loc.splits option.splits)

lemma set_error_ok:
  assumes "id_valid ct (glob_ids s 0)" "\<And>e. sched (f e) = sched e"
  shows "\<exists>s'. set_error ct t f s = Done s' \<and> core s' = core s \<and> (sched (genv s) = [] \<longrightarrow> sched (genv s') = [])"
  using sg_get_error_glob_ok [OF assms(1), of t] sched_at_err [of f, OF assms(2)] by (auto simp: set_error_def)

text \<open>
  \<^verbatim>\<open>sg_get_error_glob\<close> is what the code says: the slice \<^verbatim>\<open>sg_comp_get_tls\<close> finds for the error component,
  else the static record.
\<close>

lemma sg_get_error_glob_code:
  "sg_get_error_glob ct t s =
     andthen (sg_comp_get_tls ct t (glob_ids s 0) s) (\<lambda>(p, s). Done (if p = None then PreInit else InTls t, s))"
proof -
  obtain c e where c: "next_choice (genv s) = (c, e)" by fastforce
  obtain c2 e2 where c2: "next_choice e = (c2, e2)" by fastforce
  have inv: "sg_get_error_glob ct t s' = Fault NonTermination"
    if "tls s' t \<noteq> None" "\<not> id_valid ct (glob_ids s' 0)" for s'
    using that by (auto simp: sg_get_error_glob.simps [of ct t s'])
  show ?thesis
  proof (cases "tls s t")
    case None
    show ?thesis
    proof (cases "sg_get_error_glob ct t (s\<lparr>genv := e\<rparr>)")
      case (Done r)
      with None c c2 inv show ?thesis
        by (cases r) (auto simp: sg_get_error_glob.simps [of ct t s] sg_comp_get_tls_def sg_alloc_globals_def set_error_def Let_def)
    next
      case (Fault f)
      with None c c2 inv show ?thesis
        by (auto simp: sg_get_error_glob.simps [of ct t s] sg_comp_get_tls_def sg_alloc_globals_def set_error_def Let_def)
    qed
  next
    case (Some b)
    with inv [of s] show ?thesis
      by (auto simp: sg_get_error_glob.simps [of ct t s] sg_comp_get_tls_def set_error_def)
  qed
qed

section \<open>The slices of the block\<close>

definition sizes :: "comp_init list \<Rightarrow> nat" where
  "sizes cs = sum_list (map (\<lambda>c. unat (static_buf_size c)) cs)"

lemma sizes_simps [simp]: "sizes [] = 0" "sizes (c # cs) = unat (static_buf_size c) + sizes cs"
  by (simp_all add: sizes_def)

lemma sizes_take_le: "sizes (take i cs) \<le> sizes cs"
  by (induction cs arbitrary: i) (auto simp: take_Cons' )

lemma layout_spec:
  "layout cs g = (os, g') \<Longrightarrow> unat g + sizes cs < 2 ^ 64 \<Longrightarrow>
   length os = length cs \<and> unat g' = unat g + sizes cs \<and>
   (\<forall>i < length cs. unat (os ! i) = unat g + sizes (take i cs))"
proof (induction cs arbitrary: g os g')
  case (Cons c cs)
  obtain os1 g1 where l: "layout cs (g + static_buf_size c) = (os1, g1)" by fastforce
  have add: "unat (g + static_buf_size c) = unat g + unat (static_buf_size c)"
    using Cons.prems(2) by (intro unat_add_lem [THEN iffD1]) simp
  have os: "os = g # os1" "g' = g1" using Cons.prems(1) l by auto
  have ih: "length os1 = length cs" "unat g1 = unat g + unat (static_buf_size c) + sizes cs"
    "\<forall>i < length cs. unat (os1 ! i) = unat g + unat (static_buf_size c) + sizes (take i cs)"
    using Cons.IH [OF l] Cons.prems(2) add by auto
  have "unat (os ! i) = unat g + sizes (take i (c # cs))" if "i < length (c # cs)" for i
    using that ih(3) os by (cases i) auto
  with ih os show ?case by auto
qed simp

text \<open>The slices of the components in the thread-local block do not overlap and fill the block: slice \<open>i\<close> starts
  where slice \<open>i - 1\<close> ends, and the last one ends at \<^verbatim>\<open>glob_size\<close>, as long as the sizes add up within \<^verbatim>\<open>size_t\<close>.\<close>

theorem layout_slices:
  assumes "layout cs 0 = (os, sz)" "sizes cs < 2 ^ 64" "i < length cs"
  shows "unat (os ! i) + unat (static_buf_size (cs ! i)) =
     (if Suc i < length cs then unat (os ! Suc i) else unat sz)"
proof -
  have sp: "unat sz = sizes cs" "\<forall>i < length cs. unat (os ! i) = sizes (take i cs)"
    using layout_spec [OF assms(1)] assms(2) by auto
  have "sizes (take (Suc i) cs) = sizes (take i cs) + unat (static_buf_size (cs ! i))"
    using assms(3) by (simp add: take_Suc_conv_app_nth sizes_def)
  then show ?thesis using sp assms(3) by auto
qed

lemma layout_slices_witness:
  "unat (fst (layout (comp_info True True) 0) ! 2) + 32 = unat (fst (layout (comp_info True True) 0) ! 3)"
proof -
  let ?l = "layout (comp_info True True) 0"
  have "layout (comp_info True True) 0 = (fst ?l, snd ?l)" by simp
  moreover have "sizes (comp_info True True) < 2 ^ 64" by (simp add: comp_info_def vectors_comp_def sizes_def)
  moreover have "static_buf_size (comp_info True True ! 2) = 32" "length (comp_info True True) = 11"
    by (simp_all add: comp_info_def vectors_comp_def)
  ultimately show ?thesis using layout_slices [of "comp_info True True" "fst ?l" "snd ?l" 2] by simp
qed

section \<open>The table of named locks\<close>

definition locks_ok :: "sg_named_mutex list \<Rightarrow> bool" where
  "locks_ok ls \<longleftrightarrow> cmp_sorted strcmp (map mx_name ls) \<and> distinct (map mx_name ls)"

lemma lock_known_iff: "locks_ok ls \<Longrightarrow> lock_known nm ls \<longleftrightarrow> nm \<in> mx_name ` set ls"
  by (simp add: lock_known_def locks_ok_def bsearch_names_iff)

lemma locks_ok_single: "locks_ok [m]"
  by (simp add: locks_ok_def cmp_sorted_def)

lemma locks_ok_insert:
  assumes "locks_ok ls" "mx_name m \<notin> mx_name ` set ls"
  shows "locks_ok (qsort strcmp mx_name (ls @ [m]))"
proof -
  have "mset (map mx_name (qsort strcmp mx_name (ls @ [m]))) = mset (map mx_name (ls @ [m]))" by simp
  then have "distinct (map mx_name (qsort strcmp mx_name (ls @ [m]))) = distinct (map mx_name (ls @ [m]))"
    by (rule mset_eq_imp_distinct_iff)
  with assms show ?thesis by (simp add: locks_ok_def names.sorted_qsort)
qed

lemma length_filter_new_mono:
  assumes "locks_ok ls" "locks_ok ls'" "mx_name ` set ls \<subseteq> mx_name ` set ls'"
  shows "length (filter (\<lambda>nm. \<not> lock_known nm ls') nms) \<le> length (filter (\<lambda>nm. \<not> lock_known nm ls) nms)"
  using assms(3) by (induction nms) (auto simp: lock_known_iff [OF assms(1)] lock_known_iff [OF assms(2)])

text \<open>The space that has been counted is enough, and the table stays sorted and without doubles.\<close>

lemma add_locks_ok:
  "locks_ok ls \<Longrightarrow> length ls + length (filter (\<lambda>nm. \<not> lock_known nm ls) nms) \<le> cap \<Longrightarrow>
   \<exists>ls'. add_locks cap nms ls = Done ls' \<and> locks_ok ls' \<and> length ls' \<le> cap \<and>
     mx_name ` set ls' = mx_name ` set ls \<union> set nms \<and>
     (\<forall>m \<in> set ls'. m \<in> set ls \<or> mx m = MxNone \<and> mx_name m \<notin> mx_name ` set ls)"
proof (induction nms arbitrary: ls)
  case (Cons nm nms)
  show ?case
  proof (cases "lock_known nm ls")
    case True
    then have "nm \<in> mx_name ` set ls" using lock_known_iff [OF Cons.prems(1)] by simp
    then have "mx_name ` set ls \<union> set (nm # nms) = mx_name ` set ls \<union> set nms" by auto
    moreover have "length ls + length (filter (\<lambda>nm. \<not> lock_known nm ls) nms) \<le> cap"
      using Cons.prems(2) True by simp
    ultimately show ?thesis using Cons.IH [OF Cons.prems(1)] True by simp
  next
    case False
    let ?m = "\<lparr>mx_name = nm, mx = MxNone\<rparr>"
    let ?ls = "qsort strcmp mx_name (ls @ [?m])"
    have new: "nm \<notin> mx_name ` set ls" using False lock_known_iff [OF Cons.prems(1)] by simp
    then have ok: "locks_ok ?ls" using locks_ok_insert [OF Cons.prems(1), of ?m] by simp
    have "length (filter (\<lambda>nm. \<not> lock_known nm ?ls) nms) \<le> length (filter (\<lambda>nm. \<not> lock_known nm ls) nms)"
      by (rule length_filter_new_mono [OF Cons.prems(1) ok]) auto
    then have "length ?ls + length (filter (\<lambda>nm. \<not> lock_known nm ?ls) nms) \<le> cap"
      using Cons.prems(2) False by simp
    from Cons.IH [OF ok this] obtain ls' where r: "add_locks cap nms ?ls = Done ls'" "locks_ok ls'"
        "length ls' \<le> cap" "mx_name ` set ls' = mx_name ` set ?ls \<union> set nms"
        "\<forall>m \<in> set ls'. m \<in> set ?ls \<or> mx m = MxNone \<and> mx_name m \<notin> mx_name ` set ?ls"
      by blast
    have "length ls < cap" using Cons.prems(2) False by simp
    with False r new show ?thesis by (intro exI [of _ ls']) auto
  qed
qed simp

text \<open>C8: When the locks a component requires are added to the table, in the space reserved for those the
  table does not hold yet, no element is written behind the array, the table stays sorted by name and
  free of doubles, its names are the old ones and the required ones, and every lock that was in the table
  is still in it unchanged.\<close>

theorem add_locks_correct:
  assumes "locks_ok ls" "cap = length ls + length (filter (\<lambda>nm. \<not> lock_known nm ls) nms)"
  shows "\<exists>ls'. add_locks cap nms ls = Done ls' \<and> locks_ok ls' \<and> length ls' \<le> cap \<and>
     mx_name ` set ls' = mx_name ` set ls \<union> set nms \<and> set ls \<subseteq> set ls'"
proof -
  obtain ls' where r: "add_locks cap nms ls = Done ls'" "locks_ok ls'" "length ls' \<le> cap"
      "mx_name ` set ls' = mx_name ` set ls \<union> set nms"
      "\<forall>m \<in> set ls'. m \<in> set ls \<or> mx m = MxNone \<and> mx_name m \<notin> mx_name ` set ls"
    using add_locks_ok [OF assms(1), of nms cap] assms(2) by auto
  have "m \<in> set ls'" if m: "m \<in> set ls" for m
  proof -
    have "mx_name m \<in> mx_name ` set ls'" unfolding r(4) using imageI [OF m] by (rule UnI1)
    then obtain m' where m': "mx_name m' = mx_name m" "m' \<in> set ls'" by (metis imageE)
    have "mx_name m' \<in> mx_name ` set ls" unfolding m'(1) using m by (rule imageI)
    then have "m' \<in> set ls" using r(5) m'(2) by blast
    moreover have "inj_on mx_name (set ls)" using assms(1) by (simp add: locks_ok_def distinct_map)
    ultimately have "m' = m" using m m'(1) by (simp add: inj_on_def)
    with m' show ?thesis by simp
  qed
  with r show ?thesis by blast
qed

lemma add_locks_correct_witness:
  "\<exists>ls'. add_locks 3 [''utmp'', ''utmp''] [\<lparr>mx_name = ''statgrab'', mx = MxNone\<rparr>] = Done ls' \<and> locks_ok ls' \<and>
     mx_name ` set ls' = {''statgrab'', ''utmp''}"
proof -
  let ?m = "\<lparr>mx_name = ''statgrab'', mx = MxNone\<rparr>"
  have "\<not> lock_known ''utmp'' [?m]" using lock_known_iff [OF locks_ok_single, of "''utmp''" ?m] by simp
  then have "3 = length [?m] + length (filter (\<lambda>nm. \<not> lock_known nm [?m]) [''utmp'', ''utmp''])" by simp
  from add_locks_correct [OF locks_ok_single this]
  obtain ls' where "add_locks 3 [''utmp'', ''utmp''] [?m] = Done ls'" "locks_ok ls'"
      "mx_name ` set ls' = mx_name ` set [?m] \<union> set [''utmp'', ''utmp'']" by blast
  moreover have "mx_name ` set [?m] \<union> set [''utmp'', ''utmp''] = {''statgrab'', ''utmp''}" by auto
  ultimately show ?thesis by metis
qed

section \<open>Initialisation\<close>

definition comp_id :: "nat \<Rightarrow> u32" where
  "comp_id i = word_of_nat i + GLOB_MASK"

lemma id_valid_comp_id: "i < length ct \<Longrightarrow> length ct < 2 ^ 32 \<Longrightarrow> id_valid ct (comp_id i)"
  by (simp add: id_valid_def comp_id_def unat_of_nat)

lemma unat_comp_id: "i < 2 ^ 32 \<Longrightarrow> unat (comp_id i - GLOB_MASK) = i"
  by (simp add: comp_id_def unat_of_nat)

lemma next_choice_quiet: "sched e = [] \<Longrightarrow> next_choice e = (AMove, e)"
  by (simp add: next_choice_def)

lemma comp_init_fn_ok:
  assumes "sched (genv s) = []" "glob_size s \<noteq> 0" "i < length ct" "length ct < 2 ^ 32"
    and "0 < i \<longrightarrow> id_valid ct (glob_ids s 0)"
  shows "\<exists>s'. comp_init_fn ct ans t i s = Done (if i = 0 then SG_ERROR_NONE else fst (ans i), s') \<and>
     sched (genv s') = [] \<and>
     core s' = core (s\<lparr>glob_ids := (glob_ids s)(i := comp_id i), calls := calls s @ [CInit i]\<rparr>)"
proof (cases "i = 0")
  case True
  let ?s = "s\<lparr>calls := calls s @ [CInit 0]\<rparr>"
  let ?b = "case tls s t of Some b \<Rightarrow> b | None \<Rightarrow> zero_block"
  have v: "id_valid ct (comp_id 0)" using assms by (intro id_valid_comp_id) auto
  have u: "unat (comp_id 0 - GLOB_MASK) = 0" by (simp add: comp_id_def)
  have "sg_comp_get_tls ct t (comp_id 0) ?s = Done (Some 0, ?s\<lparr>tls := (tls s)(t \<mapsto> ?b)\<rparr>)"
    using assms(1,2) v u
    by (auto simp: sg_comp_get_tls_def sg_alloc_globals_def next_choice_quiet Let_def fun_upd_idem split: option.splits)
  then show ?thesis
    using True assms(1)
    by (auto simp: comp_init_fn_def sg_error_init_comp_def core_def Let_def comp_id_def [of 0, symmetric, simplified])
next
  case False
  let ?s = "s\<lparr>calls := calls s @ [CInit i], glob_ids := (glob_ids s)(i := comp_id i)\<rparr>"
  have v: "id_valid ct (glob_ids ?s 0)" using False assms(5) by simp
  obtain code arg where a: "ans i = (code, arg)" by fastforce
  have q: "sched (SET_ERROR code arg e) = sched e" for e by (simp add: frame_simps)
  obtain s' where s': "set_error ct t (SET_ERROR code arg) ?s = Done s'" "core s' = core ?s" "sched (genv s') = []"
    using set_error_ok [where f = "SET_ERROR code arg", OF v q, of t] assms(1) by auto
  show ?thesis
    using False a s' assms(1) by (auto simp: comp_init_fn_def Let_def comp_id_def [symmetric] core_def)
qed

text \<open>One round of the loop.\<close>

lemma comp_step_ok:
  assumes "sched (genv s) = []" "glob_size s \<noteq> 0" "i < length ct" "length ct < 2 ^ 32"
    and "0 < i \<longrightarrow> id_valid ct (glob_ids s 0)" "locks_ok (required_locks s)"
    and "ign \<or> i = 0 \<or> fst (ans i) = SG_ERROR_NONE"
  shows "\<exists>s'. (\<forall>cs errc. comp_loop ct ign ans t i (c # cs) errc s =
        comp_loop ct ign ans t (Suc i) cs
          (if 0 < i \<and> fst (ans i) \<noteq> SG_ERROR_NONE then SG_ERROR_INITIALISATION else errc) s') \<and>
     sched (genv s') = [] \<and> initialized s' = initialized s \<and> glob_size s' = glob_size s \<and>
     glob_ofs s' = glob_ofs s \<and> glob_lock s' = glob_lock s \<and> once_done s' = once_done s \<and>
     calls s' = calls s @ [CInit i] \<and> glob_ids s' = (glob_ids s)(i := comp_id i) \<and>
     locks_ok (required_locks s') \<and>
     mx_name ` set (required_locks s') = mx_name ` set (required_locks s) \<union> set (comp_locks c) \<and>
     (\<forall>m \<in> set (required_locks s'). m \<in> set (required_locks s) \<or>
        mx m = MxNone \<and> mx_name m \<notin> mx_name ` set (required_locks s))"
proof -
  let ?rc = "if i = 0 then SG_ERROR_NONE else fst (ans i)"
  obtain s1 where s1: "comp_init_fn ct ans t i s = Done (?rc, s1)" "sched (genv s1) = []"
      "core s1 = core (s\<lparr>glob_ids := (glob_ids s)(i := comp_id i), calls := calls s @ [CInit i]\<rparr>)"
    using comp_init_fn_ok [OF assms(1-5)] by blast
  note f1 = core_fields [OF s1(3), simplified]
  define s2 where "s2 = (if ?rc \<noteq> SG_ERROR_NONE then s1\<lparr>init_errors := (init_errors s1)(i := ?rc)\<rparr> else s1)"
  have f2: "genv s2 = genv s1" "initialized s2 = initialized s" "glob_size s2 = glob_size s" "glob_ofs s2 = glob_ofs s"
    "glob_lock s2 = glob_lock s" "once_done s2 = once_done s" "required_locks s2 = required_locks s"
    "calls s2 = calls s @ [CInit i]" "glob_ids s2 = (glob_ids s)(i := comp_id i)"
    using f1 by (simp_all add: s2_def)
  let ?new = "length (filter (\<lambda>nm. \<not> lock_known nm (required_locks s)) (comp_locks c))"
  let ?cap = "length (required_locks s) + ?new"
  have go: "comp_loop ct ign ans t i (c # cs) errc s =
      (if ?new = 0 then comp_loop ct ign ans t (Suc i) cs (if ?rc \<noteq> SG_ERROR_NONE then SG_ERROR_INITIALISATION else errc) s2
       else andthen (add_locks ?cap (comp_locks c) (required_locks s)) (\<lambda>ls.
         comp_loop ct ign ans t (Suc i) cs (if ?rc \<noteq> SG_ERROR_NONE then SG_ERROR_INITIALISATION else errc)
           (s2\<lparr>required_locks := ls, locks_alloc := ?cap\<rparr>)))" for cs errc
    using s1(1,2) f2(1,7) assms(7)
    by (cases "?rc = SG_ERROR_NONE") (auto simp: Let_def next_choice_quiet s2_def)
  have rc: "?rc \<noteq> SG_ERROR_NONE \<longleftrightarrow> 0 < i \<and> fst (ans i) \<noteq> SG_ERROR_NONE" by simp
  show ?thesis
  proof (cases "?new = 0")
    case True
    then have "set (comp_locks c) \<subseteq> mx_name ` set (required_locks s)"
      using lock_known_iff [OF assms(6)] by (simp add: filter_empty_conv subset_iff)
    then have "mx_name ` set (required_locks s2) = mx_name ` set (required_locks s) \<union> set (comp_locks c)"
      unfolding f2(7) by blast
    with True go f2 s1(2) assms(6) rc show ?thesis by (intro exI [of _ s2]) simp
  next
    case False
    obtain ls where ls: "add_locks ?cap (comp_locks c) (required_locks s) = Done ls" "locks_ok ls"
      "mx_name ` set ls = mx_name ` set (required_locks s) \<union> set (comp_locks c)"
      "\<forall>m \<in> set ls. m \<in> set (required_locks s) \<or> mx m = MxNone \<and> mx_name m \<notin> mx_name ` set (required_locks s)"
      using add_locks_ok [OF assms(6) order_refl, of "comp_locks c"] by blast
    with False go f2 s1(2) rc show ?thesis
      by (intro exI [of _ "s2\<lparr>required_locks := ls, locks_alloc := ?cap\<rparr>"]) simp
  qed
qed

lemma comp_loop_ok:
  assumes "sched (genv s) = []" "glob_size s \<noteq> 0" "i + length cs = length ct" "length ct < 2 ^ 32"
    and "0 < i \<longrightarrow> id_valid ct (glob_ids s 0)" "locks_ok (required_locks s)"
    and "ign \<or> (\<forall>j > 0. fst (ans j) = SG_ERROR_NONE)"
  shows "\<exists>s'. comp_loop ct ign ans t i cs errc s =
       Done (Inr (if \<exists>j > 0. i \<le> j \<and> j < i + length cs \<and> fst (ans j) \<noteq> SG_ERROR_NONE
                  then SG_ERROR_INITIALISATION else errc), s') \<and>
     sched (genv s') = [] \<and> initialized s' = initialized s \<and> glob_size s' = glob_size s \<and>
     glob_ofs s' = glob_ofs s \<and> glob_lock s' = glob_lock s \<and> once_done s' = once_done s \<and>
     calls s' = calls s @ map CInit [i..<i + length cs] \<and>
     (\<forall>j. glob_ids s' j = (if i \<le> j \<and> j < i + length cs then comp_id j else glob_ids s j)) \<and>
     locks_ok (required_locks s') \<and>
     mx_name ` set (required_locks s') = mx_name ` set (required_locks s) \<union> (\<Union>c \<in> set cs. set (comp_locks c)) \<and>
     (\<forall>m \<in> set (required_locks s'). m \<in> set (required_locks s) \<or>
        mx m = MxNone \<and> mx_name m \<notin> mx_name ` set (required_locks s))"
  using assms
proof (induction cs arbitrary: i errc s)
  case Nil
  then show ?case by auto
next
  case (Cons c cs)
  let ?bad = "\<lambda>j. fst (ans j) \<noteq> SG_ERROR_NONE"
  have i: "i < length ct" "Suc i + length cs = length ct" using Cons.prems(3) by auto
  have st: "ign \<or> i = 0 \<or> fst (ans i) = SG_ERROR_NONE" using Cons.prems(7) by auto
  obtain s1 where s1: "\<forall>cs errc. comp_loop ct ign ans t i (c # cs) errc s =
        comp_loop ct ign ans t (Suc i) cs (if 0 < i \<and> ?bad i then SG_ERROR_INITIALISATION else errc) s1"
     "sched (genv s1) = []" "initialized s1 = initialized s" "glob_size s1 = glob_size s"
     "glob_ofs s1 = glob_ofs s" "glob_lock s1 = glob_lock s" "once_done s1 = once_done s"
     "calls s1 = calls s @ [CInit i]" "glob_ids s1 = (glob_ids s)(i := comp_id i)"
     "locks_ok (required_locks s1)"
     "mx_name ` set (required_locks s1) = mx_name ` set (required_locks s) \<union> set (comp_locks c)"
     "\<forall>m \<in> set (required_locks s1). m \<in> set (required_locks s) \<or>
        mx m = MxNone \<and> mx_name m \<notin> mx_name ` set (required_locks s)"
    using comp_step_ok [where ans = ans, OF Cons.prems(1,2) i(1) Cons.prems(4-6) st, of t c] by (elim exE conjE)
  have v1: "0 < Suc i \<longrightarrow> id_valid ct (glob_ids s1 0)"
    using s1(9) Cons.prems(4,5) id_valid_comp_id [of 0 ct] i by (cases "i = 0") auto
  have gs: "glob_size s1 \<noteq> 0" using s1(4) Cons.prems(2) by simp
  let ?errc = "if 0 < i \<and> ?bad i then SG_ERROR_INITIALISATION else errc"
  obtain s' where r: "comp_loop ct ign ans t (Suc i) cs ?errc s1 =
       Done (Inr (if \<exists>j > 0. Suc i \<le> j \<and> j < Suc i + length cs \<and> ?bad j then SG_ERROR_INITIALISATION else ?errc), s')"
     "sched (genv s') = []" "initialized s' = initialized s1" "glob_size s' = glob_size s1"
     "glob_ofs s' = glob_ofs s1" "glob_lock s' = glob_lock s1" "once_done s' = once_done s1"
     "calls s' = calls s1 @ map CInit [Suc i..<Suc i + length cs]"
     "\<forall>j. glob_ids s' j = (if Suc i \<le> j \<and> j < Suc i + length cs then comp_id j else glob_ids s1 j)"
     "locks_ok (required_locks s')"
     "mx_name ` set (required_locks s') = mx_name ` set (required_locks s1) \<union> (\<Union>c \<in> set cs. set (comp_locks c))"
     "\<forall>m \<in> set (required_locks s'). m \<in> set (required_locks s1) \<or>
        mx m = MxNone \<and> mx_name m \<notin> mx_name ` set (required_locks s1)"
    using Cons.IH [OF s1(2) gs i(2) Cons.prems(4) v1 s1(10) Cons.prems(7), of ?errc] by (elim exE conjE)
  have rng: "i \<le> j \<and> j < i + length (c # cs) \<longleftrightarrow> j = i \<or> Suc i \<le> j \<and> j < Suc i + length cs" for j by auto
  have "(\<exists>j > 0. i \<le> j \<and> j < i + length (c # cs) \<and> ?bad j) \<longleftrightarrow>
      0 < i \<and> ?bad i \<or> (\<exists>j > 0. Suc i \<le> j \<and> j < Suc i + length cs \<and> ?bad j)" (is "?L \<longleftrightarrow> ?R")
  proof
    assume ?L
    then obtain j where "0 < j" "i \<le> j" "j < Suc i + length cs" "?bad j" by auto
    then show ?R by (cases "j = i") auto
  next
    assume ?R
    then show ?L
    proof (elim disjE exE conjE)
      fix j assume "0 < j" "Suc i \<le> j" "j < Suc i + length cs" "?bad j"
      then show ?L by (intro exI [of _ j]) simp
    qed (intro exI [of _ i], simp)
  qed
  then have "(if \<exists>j > 0. Suc i \<le> j \<and> j < Suc i + length cs \<and> ?bad j then SG_ERROR_INITIALISATION else ?errc) =
      (if \<exists>j > 0. i \<le> j \<and> j < i + length (c # cs) \<and> ?bad j then SG_ERROR_INITIALISATION else errc)"
    by (simp only: split: if_split) blast
  with r(1) spec [OF spec [OF s1(1), of cs], of errc] have "comp_loop ct ign ans t i (c # cs) errc s =
      Done (Inr (if \<exists>j > 0. i \<le> j \<and> j < i + length (c # cs) \<and> ?bad j then SG_ERROR_INITIALISATION else errc), s')"
    by (simp only:)
  moreover have "calls s' = calls s @ map CInit [i..<i + length (c # cs)]"
    using r(8) s1(8) upt_conv_Cons [of i "i + length (c # cs)"] by simp
  moreover have "\<forall>j. glob_ids s' j = (if i \<le> j \<and> j < i + length (c # cs) then comp_id j else glob_ids s j)"
    unfolding rng using r(9) s1(9) by simp
  moreover have "mx_name ` set (required_locks s') =
      mx_name ` set (required_locks s) \<union> (\<Union>c \<in> set (c # cs). set (comp_locks c))"
    unfolding r(11) s1(11) by (simp add: Un_assoc)
  moreover have "\<forall>m \<in> set (required_locks s'). m \<in> set (required_locks s) \<or>
        mx m = MxNone \<and> mx_name m \<notin> mx_name ` set (required_locks s)"
    using r(12) s1(11,12) by blast
  ultimately show ?case using r(2-7,10) s1(3-7) by (intro exI [of _ s']) simp
qed

lemma sg_global_lock_free:
  "glob_lock s = Mx MX_DEFAULT None \<Longrightarrow> sg_global_lock ct t s = Done (SG_ERROR_NONE, s\<lparr>glob_lock := Mx MX_DEFAULT (Some (t, 1))\<rparr>)"
  by (simp add: sg_global_lock_def pthread_mutex_lock_def)

lemma sg_global_unlock_held:
  "glob_lock s = Mx MX_DEFAULT (Some (t, 1)) \<Longrightarrow> sg_global_unlock ct t s = Done (SG_ERROR_NONE, s\<lparr>glob_lock := Mx MX_DEFAULT None\<rparr>)"
  by (simp add: sg_global_unlock_def pthread_mutex_unlock_def)

lemma sg_init_thread_local_free:
  "glob_lock s = Mx MX_DEFAULT None \<Longrightarrow> sg_init_thread_local s = s\<lparr>once_done := True\<rparr>"
  by (simp add: sg_init_thread_local_def)

lemma mx_name_init_lock [simp]: "mx_name (init_lock m) = mx_name m"
  by (simp add: init_lock_def)

lemma locks_ok_init: "locks_ok (map init_lock ls) = locks_ok ls"
  by (simp add: locks_ok_def comp_def)

text \<open>Every named lock but the copy of the global one is initialised and free.\<close>

definition locks_free :: "sg_named_mutex list \<Rightarrow> bool" where
  "locks_free ls \<longleftrightarrow> (\<forall>m \<in> set ls. mx_name m \<noteq> ''statgrab'' \<longrightarrow> mx m = Mx MX_RECURSIVE None)"

text \<open>What a successful first initialisation makes of the state \<open>s\<close>.\<close>

definition init_result :: "comp_init list \<Rightarrow> gstate \<Rightarrow> gstate \<Rightarrow> bool" where
  "init_result ct s s' \<longleftrightarrow>
     initialized s' = 1 \<and> glob_lock s' = Mx MX_DEFAULT None \<and> once_done s' \<and> unat (glob_size s') = sizes ct \<and>
     calls s' = calls s @ map CInit [0..<length ct] \<and> (\<forall>i < length ct. glob_ids s' i = comp_id i) \<and>
     locks_ok (required_locks s') \<and> locks_free (required_locks s') \<and>
     mx_name ` set (required_locks s') = insert ''statgrab'' (\<Union>c \<in> set ct. set (comp_locks c)) \<and> sched (genv s') = []"

lemma sg_comp_init_ok:
  assumes "initialized s = 0" "glob_lock s = Mx MX_DEFAULT None" "sched (genv s) = []"
    and "0 < sizes ct" "sizes ct < 2 ^ 64" "length ct < 2 ^ 32"
    and "ign \<or> (\<forall>j > 0. fst (ans j) = SG_ERROR_NONE)"
  shows "\<exists>s'. sg_comp_init ct ign ans t s =
       Done (if \<exists>j > 0. j < length ct \<and> fst (ans j) \<noteq> SG_ERROR_NONE then SG_ERROR_INITIALISATION else SG_ERROR_NONE, s') \<and>
     init_result ct s s'"
proof -
  obtain os sz where l: "layout ct 0 = (os, sz)" by fastforce
  then have sz: "unat sz = sizes ct" using layout_spec [OF l] assms(5) by simp
  then have sz0: "sz \<noteq> 0" using assms(4) by auto
  let ?g = "\<lparr>mx_name = ''statgrab'', mx = Mx MX_DEFAULT (Some (t, 1))\<rparr>"
  let ?s = "s\<lparr>once_done := True, glob_lock := Mx MX_DEFAULT (Some (t, 1)), initialized := 1, glob_ofs := os,
     glob_size := sz, required_locks := [?g], locks_alloc := 1\<rparr>"
  have pre: "sched (genv ?s) = []" "glob_size ?s \<noteq> 0" "0 + length ct = length ct"
    "(0 :: nat) < 0 \<longrightarrow> id_valid ct (glob_ids ?s 0)" "locks_ok (required_locks ?s)"
    using assms(3) sz0 locks_ok_single by simp_all
  obtain s1 where r: "comp_loop ct ign ans t 0 ct SG_ERROR_NONE ?s =
       Done (Inr (if \<exists>j > 0. 0 \<le> j \<and> j < 0 + length ct \<and> fst (ans j) \<noteq> SG_ERROR_NONE
                  then SG_ERROR_INITIALISATION else SG_ERROR_NONE), s1)"
     "sched (genv s1) = []" "initialized s1 = initialized ?s" "glob_size s1 = glob_size ?s"
     "glob_ofs s1 = glob_ofs ?s" "glob_lock s1 = glob_lock ?s" "once_done s1 = once_done ?s"
     "calls s1 = calls ?s @ map CInit [0..<0 + length ct]"
     "\<forall>j. glob_ids s1 j = (if 0 \<le> j \<and> j < 0 + length ct then comp_id j else glob_ids ?s j)"
     "locks_ok (required_locks s1)"
     "mx_name ` set (required_locks s1) = mx_name ` set (required_locks ?s) \<union> (\<Union>c \<in> set ct. set (comp_locks c))"
     "\<forall>m \<in> set (required_locks s1). m \<in> set (required_locks ?s) \<or>
        mx m = MxNone \<and> mx_name m \<notin> mx_name ` set (required_locks ?s)"
    using comp_loop_ok [OF pre(1-3) assms(6) pre(4,5) assms(7), of t SG_ERROR_NONE] by (elim exE conjE)
  let ?s' = "s1\<lparr>required_locks := map init_lock (required_locks s1), glob_lock := Mx MX_DEFAULT None\<rparr>"
  have "sg_comp_init ct ign ans t s =
      Done (if \<exists>j > 0. j < length ct \<and> fst (ans j) \<noteq> SG_ERROR_NONE then SG_ERROR_INITIALISATION else SG_ERROR_NONE, ?s')"
    using assms(1-3) l r(1,2,6)
    by (simp add: sg_comp_init_def sg_init_thread_local_free sg_global_lock_free next_choice_quiet
        sg_global_unlock_held split del: if_split)
  moreover have "locks_free (map init_lock (required_locks s1))"
    by (auto simp: locks_free_def init_lock_def)
  moreover have "mx_name ` set (map init_lock (required_locks s1)) = insert ''statgrab'' (\<Union>c \<in> set ct. set (comp_locks c))"
    using r(11) by (simp add: image_image)
  ultimately show ?thesis using r(2-10) sz locks_ok_init
    by (intro exI [of _ ?s']) (simp add: init_result_def)
qed

text \<open>C2: The first initialisation, when memory suffices and component failures are ignored or do not occur,
  ends with the global lock free, the count at one and every component's init function called once, in
  the order of the table; every component has its id; the lock table is sorted and free of doubles, holds
  exactly the global lock and the locks the components require, all of them ready; the code is
  \<^verbatim>\<open>SG_ERROR_INITIALISATION\<close> exactly when a component failed.\<close>

theorem sg_comp_init_correct:
  assumes "initialized s = 0" "glob_lock s = Mx MX_DEFAULT None" "sched (genv s) = []"
    and "0 < sizes ct" "sizes ct < 2 ^ 64" "length ct < 2 ^ 32"
    and "ign \<or> (\<forall>j > 0. fst (ans j) = SG_ERROR_NONE)"
  shows "\<exists>s'. sg_comp_init ct ign ans t s =
       Done (if \<exists>j > 0. j < length ct \<and> fst (ans j) \<noteq> SG_ERROR_NONE then SG_ERROR_INITIALISATION else SG_ERROR_NONE, s') \<and>
     initialized s' = 1 \<and> glob_lock s' = Mx MX_DEFAULT None \<and> unat (glob_size s') = sizes ct \<and>
     calls s' = calls s @ map CInit [0..<length ct] \<and> (\<forall>i < length ct. glob_ids s' i = comp_id i) \<and>
     locks_ok (required_locks s') \<and> locks_free (required_locks s') \<and>
     mx_name ` set (required_locks s') = insert ''statgrab'' (\<Union>c \<in> set ct. set (comp_locks c)) \<and> sched (genv s') = []"
  using sg_comp_init_ok [OF assms, of t] unfolding init_result_def by (elim exE conjE) (intro exI conjI, assumption+)

lemma sg_comp_init_correct_witness:
  "\<exists>s'. sg_comp_init (comp_info True True) True (\<lambda>i. if i = 2 then (SG_ERROR_MALLOC, None) else (SG_ERROR_NONE, None)) 7 (start_state []) =
     Done (SG_ERROR_INITIALISATION, s') \<and> initialized s' = 1 \<and> glob_lock s' = Mx MX_DEFAULT None \<and>
     mx_name ` set (required_locks s') = {''statgrab'', ''utmp''}"
proof -
  let ?ct = "comp_info True True"
  let ?ans = "\<lambda>i :: nat. if i = 2 then (SG_ERROR_MALLOC, None) else (SG_ERROR_NONE, None)"
  have st: "initialized (start_state []) = 0" "glob_lock (start_state []) = Mx MX_DEFAULT None" "sched (genv (start_state [])) = []"
    by (simp_all add: start_state_def)
  have ct: "sizes ?ct = 4256" "length ?ct = 11" by (simp_all add: comp_info_def vectors_comp_def sizes_def)
  have lk: "(\<Union>c \<in> set ?ct. set (comp_locks c)) = {''utmp''}" by (simp add: comp_info_def vectors_comp_def)
  have ex: "\<exists>j > 0. j < length ?ct \<and> fst (?ans j) \<noteq> SG_ERROR_NONE" using ct by (intro exI [of _ 2]) simp
  have "0 < sizes ?ct" "sizes ?ct < 2 ^ 64" "length ?ct < 2 ^ 32"
    "True \<or> (\<forall>j > 0. fst (?ans j) = SG_ERROR_NONE)" using ct by simp_all
  from sg_comp_init_correct [OF st this, of 7] show ?thesis
    unfolding if_P [OF ex] lk by (elim exE conjE) (intro exI conjI, assumption+)
qed

end
