(* ===== verification/Globals_Protocol.thy ===== *)
theory Globals_Protocol
  imports Globals_Safety
begin

text \<open>
  The protocols of the component manager over several calls: initialisation and shutdown as a reference
  count, the lock table as mutual exclusion between threads (a step relation with ghost counts), the
  place of errors before and after initialisation, and the calls after which the manager is stuck.
\<close>

section \<open>Reference counting\<close>

lemma sg_comp_init_again:
  assumes "glob_lock s = Mx MX_DEFAULT None" "once_done s" "initialized s \<noteq> 0"
  shows "sg_comp_init ct ign ans t s = Done (SG_ERROR_NONE, s\<lparr>initialized := initialized s + 1\<rparr>)"
proof -
  have "s\<lparr>once_done := True\<rparr> = s" "s\<lparr>glob_lock := Mx MX_DEFAULT None\<rparr> = s" using assms by auto
  with assms show ?thesis
    by (simp add: sg_comp_init_def sg_init_thread_local_def sg_global_lock_free sg_global_unlock_held Let_def)
qed

lemma sg_comp_destroy_nested:
  assumes "glob_lock s = Mx MX_DEFAULT None" "initialized s - 1 \<noteq> 0"
  shows "sg_comp_destroy ct t s = Done (SG_ERROR_NONE, s\<lparr>initialized := initialized s - 1\<rparr>)"
proof -
  have "s\<lparr>glob_lock := Mx MX_DEFAULT None\<rparr> = s" using assms by simp
  with assms show ?thesis
    by (simp add: sg_comp_destroy_def sg_global_lock_free sg_global_unlock_held Let_def)
qed

lemma destroy_locks_free: "locks_free ls \<Longrightarrow> destroy_locks ls = Done ()"
  by (induction ls) (auto simp: locks_free_def)

lemma sg_comp_destroy_last:
  assumes "glob_lock s = Mx MX_DEFAULT None" "initialized s = 1" "locks_free (required_locks s)"
  shows "sg_comp_destroy ct t s =
     Done (SG_ERROR_NONE, s\<lparr>initialized := 0, glob_size := 0, calls := calls s @ map CDestroy (rev [0..<length ct]),
       required_locks := [], locks_alloc := 0\<rparr>)"
proof -
  have "s\<lparr>glob_lock := Mx MX_DEFAULT None\<rparr> = s" using assms by simp
  with assms show ?thesis
    by (simp add: sg_comp_destroy_def sg_global_lock_free sg_global_unlock_held Let_def destroy_locks_free)
qed

text \<open>\<open>n\<close> further calls of \<^verbatim>\<open>sg_init\<close>, and \<open>n\<close> calls of \<^verbatim>\<open>sg_shutdown\<close>, by the threads \<open>who 0, who 1, \<dots>\<close>.\<close>

fun init_times :: "comp_init list \<Rightarrow> bool \<Rightarrow> (nat \<Rightarrow> sg_error \<times> string option) \<Rightarrow> (nat \<Rightarrow> thread) \<Rightarrow> nat \<Rightarrow> gstate \<Rightarrow> gstate outcome" where
  "init_times ct ign ans who 0 s = Done s"
| "init_times ct ign ans who (Suc n) s =
     andthen (sg_init ct ign ans (who n) s) (\<lambda>(_, s). init_times ct ign ans who n s)"

fun shutdown_times :: "comp_init list \<Rightarrow> (nat \<Rightarrow> thread) \<Rightarrow> nat \<Rightarrow> gstate \<Rightarrow> gstate outcome" where
  "shutdown_times ct who 0 s = Done s"
| "shutdown_times ct who (Suc n) s =
     andthen (sg_shutdown ct (who n) s) (\<lambda>(_, s). shutdown_times ct who n s)"

lemma init_times_nested:
  "glob_lock s = Mx MX_DEFAULT None \<Longrightarrow> once_done s \<Longrightarrow> initialized s \<noteq> 0 \<Longrightarrow> unat (initialized s) + n < 2 ^ 32 \<Longrightarrow>
   init_times ct ign ans who n s = Done (s\<lparr>initialized := initialized s + word_of_nat n\<rparr>)"
proof (induction n arbitrary: s)
  case (Suc n)
  let ?s = "s\<lparr>initialized := initialized s + 1\<rparr>"
  have u: "unat (initialized s + 1) = unat (initialized s) + 1"
    using Suc.prems(4) by (simp add: unat_word_ariths)
  then have "initialized s + 1 \<noteq> 0" by (metis Suc_eq_plus1 nat.distinct(1) unat_0)
  with Suc.IH [of ?s] Suc.prems u sg_comp_init_again [OF Suc.prems(1-3)] show ?case
    by (simp add: sg_init_def add.assoc)
qed simp

lemma shutdown_times_all:
  "glob_lock s = Mx MX_DEFAULT None \<Longrightarrow> unat (initialized s) = Suc n \<Longrightarrow> locks_free (required_locks s) \<Longrightarrow>
   shutdown_times ct who (Suc n) s =
     Done (s\<lparr>initialized := 0, glob_size := 0, calls := calls s @ map CDestroy (rev [0..<length ct]),
       required_locks := [], locks_alloc := 0\<rparr>)"
proof (induction n arbitrary: s)
  case 0
  have "initialized s = 1" using "0.prems"(2) by (metis One_nat_def unat_1 unsigned_word_eqI)
  with 0 show ?case by (simp add: sg_shutdown_def sg_comp_destroy_last)
next
  case (Suc n)
  let ?s = "s\<lparr>initialized := initialized s - 1\<rparr>"
  have "initialized s \<noteq> 0" using Suc.prems(2) by auto
  then have u: "unat (initialized s - 1) = Suc n" using Suc.prems(2) unat_minus_one by fastforce
  then have "initialized s - 1 \<noteq> 0" by auto
  then have "sg_shutdown ct (who (Suc n)) s = Done (SG_ERROR_NONE, ?s)"
    using sg_comp_destroy_nested [OF Suc.prems(1)] by (simp add: sg_shutdown_def)
  with Suc.IH [of ?s] Suc.prems u show ?case by simp
qed

text \<open>C4: From an uninitialised component manager, memory sufficing and component failures ignored or absent,
  \<open>n + 1\<close> initialisations by whichever threads followed by \<open>n + 1\<close> shutdowns by whichever threads all
  return: the components' init functions have been called once each, in the order of the table, and then
  their destroy functions once each, in the reverse order; at the end the count is zero, the global lock is
  free, the lock table is empty and no thread-local space is reserved.\<close>

theorem init_shutdown_balanced:
  assumes "initialized s = 0" "glob_lock s = Mx MX_DEFAULT None" "sched (genv s) = []"
    and "0 < sizes ct" "sizes ct < 2 ^ 64" "length ct < 2 ^ 32"
    and "ign \<or> (\<forall>j > 0. fst (ans j) = SG_ERROR_NONE)" "Suc n < 2 ^ 32"
  shows "\<exists>s'. andthen (init_times ct ign ans who (Suc n) s) (shutdown_times ct who' (Suc n)) = Done s' \<and>
     initialized s' = 0 \<and> glob_lock s' = Mx MX_DEFAULT None \<and> required_locks s' = [] \<and> glob_size s' = 0 \<and>
     calls s' = calls s @ map CInit [0..<length ct] @ map CDestroy (rev [0..<length ct])"
proof -
  obtain s1 rc where c: "sg_comp_init ct ign ans (who n) s = Done (rc, s1)" and r: "init_result ct s s1"
    using sg_comp_init_ok [OF assms(1-7), of "who n"] by blast
  note s1 = r [unfolded init_result_def]
  let ?m = "s1\<lparr>initialized := 1 + word_of_nat n\<rparr>"
  have u: "unat (1 + word_of_nat n :: u32) = Suc n"
    using assms(8) by (simp add: unat_word_ariths unat_of_nat)
  have "init_times ct ign ans who (Suc n) s = Done ?m"
    using c s1 assms(8) init_times_nested [of s1 n ct ign ans who] by (simp add: sg_init_def)
  moreover have "shutdown_times ct who' (Suc n) ?m = Done (s1\<lparr>initialized := 0, glob_size := 0,
      calls := calls s1 @ map CDestroy (rev [0..<length ct]), required_locks := [], locks_alloc := 0\<rparr>)"
    using shutdown_times_all [of ?m n ct who'] s1 u by simp
  ultimately show ?thesis using s1 by simp
qed

lemma init_shutdown_balanced_witness:
  "\<exists>s'. andthen (init_times (comp_info False True) False (\<lambda>_. (SG_ERROR_NONE, None)) (\<lambda>i. i) 3 (start_state []))
       (shutdown_times (comp_info False True) (\<lambda>_. 5) 3) = Done s' \<and> initialized s' = 0"
proof -
  have st: "initialized (start_state []) = 0" "glob_lock (start_state []) = Mx MX_DEFAULT None" "sched (genv (start_state [])) = []"
    by (simp_all add: start_state_def)
  have "0 < sizes (comp_info False True)" "sizes (comp_info False True) < 2 ^ 64" "length (comp_info False True) < 2 ^ 32"
    by (simp_all add: comp_info_def vectors_comp_def sizes_def)
  from init_shutdown_balanced [OF st this, of False "\<lambda>_. (SG_ERROR_NONE, None)" 2] show ?thesis
    by (simp only: Suc_numeral) (fastforce simp: numeral_3_eq_3 [symmetric])
qed

section \<open>A failed initialisation keeps the global lock\<close>

lemma comp_loop_fails:
  assumes "sched (genv s) = []" "glob_size s \<noteq> 0" "i + length cs = length ct" "length ct < 2 ^ 32"
    and "0 < i \<longrightarrow> id_valid ct (glob_ids s 0)" "locks_ok (required_locks s)"
    and "0 < j" "i \<le> j" "j < i + length cs" "fst (ans j) \<noteq> SG_ERROR_NONE"
    and "\<forall>k. i \<le> k \<and> 0 < k \<and> k < j \<longrightarrow> fst (ans k) = SG_ERROR_NONE"
  shows "\<exists>s'. comp_loop ct False ans t i cs errc s = Done (Inl (fst (ans j)), s') \<and>
     glob_lock s' = glob_lock s \<and> once_done s' = once_done s \<and>
     calls s' = calls s @ map CInit [i..<Suc j]"
  using assms
proof (induction cs arbitrary: i errc s)
  case (Cons c cs)
  have i: "i < length ct" "Suc i + length cs = length ct" using Cons.prems(3) by auto
  show ?case
  proof (cases "i = j")
    case False
    then have ij: "Suc i \<le> j" "j < Suc i + length cs" using Cons.prems(8,9) by auto
    then have st: "False \<or> i = 0 \<or> fst (ans i) = SG_ERROR_NONE" using Cons.prems(11) by auto
    obtain s1 where s1: "\<forall>cs errc. comp_loop ct False ans t i (c # cs) errc s =
        comp_loop ct False ans t (Suc i) cs
          (if 0 < i \<and> fst (ans i) \<noteq> SG_ERROR_NONE then SG_ERROR_INITIALISATION else errc) s1"
      "sched (genv s1) = []" "glob_size s1 = glob_size s" "glob_lock s1 = glob_lock s" "once_done s1 = once_done s"
      "calls s1 = calls s @ [CInit i]" "glob_ids s1 = (glob_ids s)(i := comp_id i)" "locks_ok (required_locks s1)"
      using comp_step_ok [where ans = ans, OF Cons.prems(1,2) i(1) Cons.prems(4-6) st, of t c] by (elim exE conjE)
    have v1: "0 < Suc i \<longrightarrow> id_valid ct (glob_ids s1 0)"
      using s1(7) Cons.prems(4,5) id_valid_comp_id [of 0 ct] i by (cases "i = 0") auto
    have f: "\<forall>k. Suc i \<le> k \<and> 0 < k \<and> k < j \<longrightarrow> fst (ans k) = SG_ERROR_NONE" using Cons.prems(11) by auto
    have "glob_size s1 \<noteq> 0" using s1(3) Cons.prems(2) by simp
    from Cons.IH [OF s1(2) this i(2) Cons.prems(4) v1 s1(8) Cons.prems(7) ij Cons.prems(10) f] s1(1,4,5,6) ij
    show ?thesis by (simp add: upt_conv_Cons [of i])
  next
    case True
    obtain s1 where "comp_init_fn ct ans t i s = Done (fst (ans i), s1)"
      "core s1 = core (s\<lparr>glob_ids := (glob_ids s)(i := comp_id i), calls := calls s @ [CInit i]\<rparr>)"
      using comp_init_fn_ok [OF Cons.prems(1,2) i(1) Cons.prems(4,5), of ans t] True Cons.prems(7) by auto
    with True Cons.prems(7,10) core_fields(6,9,10) [of s1] show ?thesis by simp
  qed
qed auto

text \<open>C9: When memory suffices, the first initialisation does not ignore component failures and the component of
  index \<open>j\<close> is the first to fail, the code of that component is returned after the init functions of the
  components up to it have been called, and the global lock is still held: every later initialisation
  deadlocks in the same thread, and waits for ever in any other.\<close>

theorem failed_init_blocks:
  assumes "initialized s = 0" "glob_lock s = Mx MX_DEFAULT None" "sched (genv s) = []"
    and "0 < sizes ct" "sizes ct < 2 ^ 64" "length ct < 2 ^ 32"
    and "0 < j" "j < length ct" "fst (ans j) \<noteq> SG_ERROR_NONE"
    and "\<forall>k. 0 < k \<and> k < j \<longrightarrow> fst (ans k) = SG_ERROR_NONE"
  shows "\<exists>s'. sg_comp_init ct False ans t s = Done (fst (ans j), s') \<and>
     calls s' = calls s @ map CInit [0..<Suc j] \<and> glob_lock s' = Mx MX_DEFAULT (Some (t, 1)) \<and>
     sg_comp_init ct ign ans' u s' = Fault (if u = t then Deadlock ''statgrab'' else Waits ''statgrab'')"
proof -
  obtain os sz where l: "layout ct 0 = (os, sz)" by fastforce
  then have "unat sz = sizes ct" using layout_spec [OF l] assms(5) by simp
  then have sz0: "sz \<noteq> 0" using assms(4) by auto
  let ?g = "\<lparr>mx_name = ''statgrab'', mx = Mx MX_DEFAULT (Some (t, 1))\<rparr>"
  let ?s = "s\<lparr>once_done := True, glob_lock := Mx MX_DEFAULT (Some (t, 1)), initialized := 1, glob_ofs := os,
     glob_size := sz, required_locks := [?g], locks_alloc := 1\<rparr>"
  have pre: "sched (genv ?s) = []" "glob_size ?s \<noteq> 0" "0 + length ct = length ct"
    "(0 :: nat) < 0 \<longrightarrow> id_valid ct (glob_ids ?s 0)" "locks_ok (required_locks ?s)" "0 \<le> j" "j < 0 + length ct"
    "\<forall>k. 0 \<le> k \<and> 0 < k \<and> k < j \<longrightarrow> fst (ans k) = SG_ERROR_NONE"
    using assms(3,8,10) sz0 locks_ok_single by auto
  obtain s1 where r: "comp_loop ct False ans t 0 ct SG_ERROR_NONE ?s = Done (Inl (fst (ans j)), s1)"
      "glob_lock s1 = Mx MX_DEFAULT (Some (t, 1))" "once_done s1" "calls s1 = calls s @ map CInit [0..<Suc j]"
    using comp_loop_fails [OF pre(1-3) assms(6) pre(4,5) assms(7) pre(6,7) assms(9) pre(8), of t SG_ERROR_NONE]
    by auto
  have "sg_comp_init ct False ans t s = Done (fst (ans j), s1)"
    using assms(1-3) l r(1)
    by (simp add: sg_comp_init_def sg_init_thread_local_free sg_global_lock_free next_choice_quiet)
  moreover have "sg_comp_init ct ign ans' u s1 = Fault (if u = t then Deadlock ''statgrab'' else Waits ''statgrab'')"
    using r(2,3) by (simp add: sg_comp_init_def sg_init_thread_local_def sg_global_lock_def pthread_mutex_lock_def)
  ultimately show ?thesis using r(2,4) by blast
qed

lemma failed_init_blocks_witness:
  "\<exists>s'. sg_comp_init (comp_info True True) False (\<lambda>i. if i = 5 then (SG_ERROR_PARSE, Some ''regcomp'') else (SG_ERROR_NONE, None)) 1
        (start_state []) = Done (SG_ERROR_PARSE, s') \<and> glob_lock s' = Mx MX_DEFAULT (Some (1, 1)) \<and>
     sg_comp_init (comp_info True True) False (\<lambda>i. (SG_ERROR_NONE, None)) 1 s' = Fault (Deadlock ''statgrab'')"
proof -
  let ?ans = "\<lambda>i :: nat. if i = 5 then (SG_ERROR_PARSE, Some ''regcomp'') else (SG_ERROR_NONE, None)"
  have st: "initialized (start_state []) = 0" "glob_lock (start_state []) = Mx MX_DEFAULT None" "sched (genv (start_state [])) = []"
    by (simp_all add: start_state_def)
  have "0 < sizes (comp_info True True)" "sizes (comp_info True True) < 2 ^ 64" "length (comp_info True True) < 2 ^ 32"
    "(0 :: nat) < 5" "5 < length (comp_info True True)" "fst (?ans 5) \<noteq> SG_ERROR_NONE"
    by (simp_all add: comp_info_def vectors_comp_def sizes_def)
  moreover have "\<forall>k. 0 < k \<and> k < 5 \<longrightarrow> fst (?ans k) = SG_ERROR_NONE" by simp
  ultimately have "\<exists>s'. sg_comp_init (comp_info True True) False ?ans 1 (start_state []) = Done (fst (?ans 5), s') \<and>
     calls s' = calls (start_state []) @ map CInit [0..<Suc 5] \<and> glob_lock s' = Mx MX_DEFAULT (Some (1, 1)) \<and>
     sg_comp_init (comp_info True True) False (\<lambda>i. (SG_ERROR_NONE, None)) 1 s' =
       Fault (if (1 :: nat) = 1 then Deadlock ''statgrab'' else Waits ''statgrab'')"
    by (rule failed_init_blocks [where ans = ?ans and j = 5, OF st])
  then show ?thesis by (simp only: if_True refl fst_conv) blast
qed

section \<open>Mutual exclusion\<close>

lemma sg_get_error_glob_core: "sg_get_error_glob ct t s = Done (loc, s') \<Longrightarrow> core s' = core s"
proof (induction ct t s arbitrary: loc s' rule: sg_get_error_glob.induct)
  case (1 ct t s)
  obtain c e where c: "next_choice (genv s) = (c, e)" by fastforce
  obtain c2 e2 where c2: "next_choice e = (c2, e2)" by fastforce
  show ?case
  proof (cases "tls s t = None \<and> glob_size s \<noteq> 0 \<and> c = AFail")
    case True
    then have n: "tls s t = None" "glob_size s \<noteq> 0" "c = AFail" by auto
    show ?thesis
    proof (cases "sg_get_error_glob ct t (s\<lparr>genv := e\<rparr>)")
      case (Done r)
      obtain l s1 where r: "r = (l, s1)" by fastforce
      with Done "1.IH" [OF n(1,2) refl c [symmetric] refl n(3)] have "core s1 = core s" by simp
      with "1.prems" n c Done r show ?thesis by (auto simp: sg_get_error_glob.simps [of ct t s] Let_def)
    qed (use "1.prems" n c in \<open>simp add: sg_get_error_glob.simps [of ct t s] Let_def\<close>)
  next
    case False
    with "1.prems" c c2 show ?thesis
      by (auto simp: sg_get_error_glob.simps [of ct t s] Let_def split: option.splits if_splits)
  qed
qed

lemma set_error_core: "set_error ct t f s = Done s' \<Longrightarrow> core s' = core s"
  by (cases "sg_get_error_glob ct t s") (auto simp: set_error_def dest: sg_get_error_glob_core)

text \<open>
  The calls threads make on a named lock, with ghost counts: how often a thread has locked the name
  successfully more often than it has unlocked it.
\<close>

datatype lock_op = OpLock | OpUnlock

type_synonym lock_state = "gstate \<times> (thread \<Rightarrow> string \<Rightarrow> nat)"

inductive lock_step :: "comp_init list \<Rightarrow> lock_state \<Rightarrow> thread \<times> lock_op \<times> string \<Rightarrow> lock_state \<Rightarrow> bool" for ct where
  lock_done: "sg_lock_mutex ct t nm s = Done (SG_ERROR_NONE, s') \<Longrightarrow>
    lock_step ct (s, h) (t, OpLock, nm) (s', h(t := (h t)(nm := Suc (h t nm))))"
| lock_error: "sg_lock_mutex ct t nm s = Done (rc, s') \<Longrightarrow> rc \<noteq> SG_ERROR_NONE \<Longrightarrow>
    lock_step ct (s, h) (t, OpLock, nm) (s', h)"
| unlock_done: "sg_unlock_mutex ct t nm s = Done (SG_ERROR_NONE, s') \<Longrightarrow>
    lock_step ct (s, h) (t, OpUnlock, nm) (s', h(t := (h t)(nm := h t nm - 1)))"
| unlock_error: "sg_unlock_mutex ct t nm s = Done (rc, s') \<Longrightarrow> rc \<noteq> SG_ERROR_NONE \<Longrightarrow>
    lock_step ct (s, h) (t, OpUnlock, nm) (s', h)"

inductive_cases lock_stepE: "lock_step ct (s, h) (t, a, nm) (s', h')"

inductive lock_run :: "comp_init list \<Rightarrow> lock_state \<Rightarrow> lock_state \<Rightarrow> bool" for ct st0 where
  run_start: "lock_run ct st0 st0"
| run_step: "lock_run ct st0 st \<Longrightarrow> lock_step ct st a st' \<Longrightarrow> lock_run ct st0 st'"

text \<open>The counts agree with the mutexes.\<close>

fun depth :: "(thread \<times> nat) option \<Rightarrow> thread \<Rightarrow> nat" where
  "depth None = (\<lambda>_. 0)"
| "depth (Some (u, n)) = (\<lambda>_. 0)(u := n)"

definition counts_ok :: "sg_named_mutex \<Rightarrow> (thread \<Rightarrow> string \<Rightarrow> nat) \<Rightarrow> bool" where
  "counts_ok m h \<longleftrightarrow>
     (\<exists>owner. mx m = Mx MX_RECURSIVE owner \<and> owner \<notin> range (\<lambda>u. Some (u, 0)) \<and> (\<lambda>t. h t (mx_name m)) = depth owner)"

definition lock_inv :: "lock_state \<Rightarrow> bool" where
  "lock_inv st \<longleftrightarrow> (case st of (s, h) \<Rightarrow>
     locks_ok (required_locks s) \<and>
     (\<forall>m \<in> set (required_locks s). mx_name m \<noteq> ''statgrab'' \<longrightarrow> counts_ok m h) \<and>
     (\<forall>t nm. nm \<notin> mx_name ` set (required_locks s) \<longrightarrow> h t nm = 0))"

lemma counts_ok_cong: "(\<And>t. h' t (mx_name m) = h t (mx_name m)) \<Longrightarrow> counts_ok m h' = counts_ok m h"
  by (simp add: counts_ok_def)

lemma bsearch_lock:
  "bsearch strcmp nm (map mx_name ls) = Some i \<Longrightarrow> i < length ls \<and> mx_name (ls ! i) = nm"
  using names.bsearch_Some [of nm "map mx_name ls" i] by auto

lemma set_lock_inv:
  assumes inv: "lock_inv (s, h)" and i: "i < length (required_locks s)" "mx_name (required_locks s ! i) = nm"
    and other: "\<And>t nm'. nm' \<noteq> nm \<Longrightarrow> h' t nm' = h t nm'"
    and new: "nm \<noteq> ''statgrab'' \<Longrightarrow> counts_ok ((required_locks s ! i)\<lparr>mx := m'\<rparr>) h'"
  shows "lock_inv (set_lock i m' s, h')"
proof -
  let ?ls = "required_locks s"
  let ?ls' = "?ls[i := (?ls ! i)\<lparr>mx := m'\<rparr>]"
  have nms: "map mx_name ?ls' = map mx_name ?ls"
    using i by (intro nth_equalityI) (auto simp: nth_list_update)
  then have img: "mx_name ` set ?ls' = mx_name ` set ?ls" by (metis list.set_map)
  have dis: "distinct (map mx_name ?ls)" using inv by (simp add: lock_inv_def locks_ok_def)
  have "counts_ok m h'" if m: "m \<in> set ?ls'" "mx_name m \<noteq> ''statgrab''" for m
  proof -
    obtain j where j: "j < length ?ls" "m = ?ls' ! j" using m(1) by (auto simp: in_set_conv_nth)
    show ?thesis
    proof (cases "j = i")
      case True
      with j i m(2) new show ?thesis by simp
    next
      case False
      then have mj: "m = ?ls ! j" using j by simp
      have "mx_name (?ls ! j) \<noteq> nm"
        using False dis j(1) i nth_eq_iff_index_eq [OF dis, of j i] by auto
      then have "h' t (mx_name m) = h t (mx_name m)" for t using other mj by simp
      moreover have "counts_ok m h" using inv m(2) mj j(1) by (auto simp: lock_inv_def)
      ultimately show ?thesis using counts_ok_cong [of h' m h] by blast
    qed
  qed
  moreover have "h' t nm' = 0" if "nm' \<notin> mx_name ` set ?ls" for t nm'
  proof -
    have "nm' \<noteq> nm" using that i by auto
    with other inv that show ?thesis by (simp add: lock_inv_def)
  qed
  ultimately show ?thesis
    using inv nms img by (auto simp: lock_inv_def set_lock_def locks_ok_def)
qed

lemma lock_inv_core: "core s' = core s \<Longrightarrow> lock_inv (s', h) = lock_inv (s, h)"
  by (simp add: lock_inv_def core_fields(7) [of s' s])

text \<open>What the two functions did when they returned.\<close>

lemma sg_lock_mutex_returns:
  assumes "sg_lock_mutex ct t nm s = Done (rc, s')"
  shows "rc \<noteq> SG_ERROR_NONE \<and> core s' = core s \<or>
     rc = SG_ERROR_NONE \<and> (\<exists>i m'. bsearch strcmp nm (map mx_name (required_locks s)) = Some i \<and>
       pthread_mutex_lock nm t (mx (required_locks s ! i)) = Done (0, m') \<and> s' = set_lock i m' s)"
proof (cases "bsearch strcmp nm (map mx_name (required_locks s))")
  case None
  then obtain s1 where "set_error ct t (SET_ERROR SG_ERROR_INVALID_ARGUMENT (Some nm)) s = Done s1" "rc = SG_ERROR_INVALID_ARGUMENT" "s' = s1"
    using assms by (cases "set_error ct t (SET_ERROR SG_ERROR_INVALID_ARGUMENT (Some nm)) s") (auto simp: sg_lock_mutex_def)
  then show ?thesis using set_error_core by simp
next
  case (Some i)
  obtain e m' where p: "pthread_mutex_lock nm t (mx (required_locks s ! i)) = Done (e, m')"
    using assms Some by (cases "pthread_mutex_lock nm t (mx (required_locks s ! i))") (auto simp: sg_lock_mutex_def)
  let ?f = "SET_ERROR_WITH_ERRNO_CODE SG_ERROR_MUTEX_LOCK e (Some ''locking mutex'')"
  show ?thesis
  proof (cases "e = 0")
    case True
    with assms Some p show ?thesis by (auto simp: sg_lock_mutex_def)
  next
    case False
    with assms Some p have "set_error ct t ?f s = Done s'" "rc = SG_ERROR_MUTEX_LOCK"
      by (cases "set_error ct t ?f s"; auto simp: sg_lock_mutex_def)+
    then show ?thesis using set_error_core by simp
  qed
qed

lemma sg_unlock_mutex_returns:
  assumes "sg_unlock_mutex ct t nm s = Done (rc, s')"
  shows "rc \<noteq> SG_ERROR_NONE \<and> core s' = core s \<or>
     rc = SG_ERROR_NONE \<and> (\<exists>i m'. bsearch strcmp nm (map mx_name (required_locks s)) = Some i \<and>
       pthread_mutex_unlock nm t (mx (required_locks s ! i)) = Done (0, m') \<and> s' = set_lock i m' s)"
proof (cases "bsearch strcmp nm (map mx_name (required_locks s))")
  case None
  then obtain s1 where "set_error ct t (SET_ERROR SG_ERROR_INVALID_ARGUMENT (Some nm)) s = Done s1" "rc = SG_ERROR_INVALID_ARGUMENT" "s' = s1"
    using assms by (cases "set_error ct t (SET_ERROR SG_ERROR_INVALID_ARGUMENT (Some nm)) s") (auto simp: sg_unlock_mutex_def)
  then show ?thesis using set_error_core by simp
next
  case (Some i)
  obtain e m' where p: "pthread_mutex_unlock nm t (mx (required_locks s ! i)) = Done (e, m')"
    using assms Some by (cases "pthread_mutex_unlock nm t (mx (required_locks s ! i))") (auto simp: sg_unlock_mutex_def)
  let ?f = "SET_ERROR_WITH_ERRNO_CODE SG_ERROR_MUTEX_LOCK e (Some ''unlocking mutex'')"
  show ?thesis
  proof (cases "e = 0")
    case True
    with assms Some p show ?thesis by (auto simp: sg_unlock_mutex_def)
  next
    case False
    with assms Some p have "set_error ct t ?f s = Done s'" "rc = SG_ERROR_MUTEX_LOCK"
      by (cases "set_error ct t ?f s"; auto simp: sg_unlock_mutex_def)+
    then show ?thesis using set_error_core by simp
  qed
qed

text \<open>A successful lock or unlock keeps a mutex and its counts together.\<close>

lemma lock_depth:
  "pthread_mutex_lock nm t (Mx MX_RECURSIVE owner) = Done (0, m') \<Longrightarrow>
   \<exists>owner'. m' = Mx MX_RECURSIVE owner' \<and> owner' \<notin> range (\<lambda>u. Some (u, 0)) \<and> depth owner' = (depth owner)(t := Suc (depth owner t))"
  by (cases owner) (auto simp: pthread_mutex_lock_def EAGAIN_def split: if_splits)

lemma unlock_depth:
  "pthread_mutex_unlock nm t (Mx MX_RECURSIVE owner) = Done (0, m') \<Longrightarrow> owner \<notin> range (\<lambda>u. Some (u, 0)) \<Longrightarrow>
   \<exists>owner'. m' = Mx MX_RECURSIVE owner' \<and> owner' \<notin> range (\<lambda>u. Some (u, 0)) \<and> depth owner' = (depth owner)(t := depth owner t - 1)"
  by (cases owner) (auto simp: pthread_mutex_unlock_def EPERM_def fun_eq_iff split: if_splits)

lemma counts_ok_lock:
  assumes "counts_ok m h" "pthread_mutex_lock nm t (mx m) = Done (0, m')" "mx_name m = nm"
  shows "counts_ok (m\<lparr>mx := m'\<rparr>) (h(t := (h t)(nm := Suc (h t nm))))"
proof -
  obtain ow where o: "mx m = Mx MX_RECURSIVE ow" "(\<lambda>t. h t nm) = depth ow"
    using assms(1,3) by (auto simp: counts_ok_def)
  obtain ow' where o': "m' = Mx MX_RECURSIVE ow'" "ow' \<notin> range (\<lambda>u. Some (u, 0))" "depth ow' = (depth ow)(t := Suc (depth ow t))"
    using lock_depth assms(2) o(1) by metis
  have "(\<lambda>u. (h(t := (h t)(nm := Suc (h t nm)))) u nm) = depth ow'"
    unfolding o'(3) o(2) [symmetric] by (simp add: fun_eq_iff)
  with o' assms(3) show ?thesis by (simp add: counts_ok_def)
qed

lemma counts_ok_unlock:
  assumes "counts_ok m h" "pthread_mutex_unlock nm t (mx m) = Done (0, m')" "mx_name m = nm"
  shows "counts_ok (m\<lparr>mx := m'\<rparr>) (h(t := (h t)(nm := h t nm - 1)))"
proof -
  obtain ow where o: "mx m = Mx MX_RECURSIVE ow" "ow \<notin> range (\<lambda>u. Some (u, 0))" "(\<lambda>t. h t nm) = depth ow"
    using assms(1,3) by (auto simp: counts_ok_def)
  obtain ow' where o': "m' = Mx MX_RECURSIVE ow'" "ow' \<notin> range (\<lambda>u. Some (u, 0))" "depth ow' = (depth ow)(t := depth ow t - 1)"
    using unlock_depth [OF _ o(2)] assms(2) o(1) by metis
  have "(\<lambda>u. (h(t := (h t)(nm := h t nm - 1))) u nm) = depth ow'"
    unfolding o'(3) o(3) [symmetric] by (simp add: fun_eq_iff)
  with o' assms(3) show ?thesis by (simp add: counts_ok_def)
qed

lemma depth_unique: "0 < depth owner t \<Longrightarrow> 0 < depth owner u \<Longrightarrow> t = u"
  by (cases owner) (auto split: if_splits)

lemma lock_inv_step:
  assumes inv: "lock_inv (s, h)" and st: "lock_step ct (s, h) (t, a, nm) (s', h')"
  shows "lock_inv (s', h')"
proof (rule lock_stepE [OF st])
  assume h': "h' = h(t := (h t)(nm := Suc (h t nm)))" and "sg_lock_mutex ct t nm s = Done (SG_ERROR_NONE, s')"
  then obtain i m' where i: "bsearch strcmp nm (map mx_name (required_locks s)) = Some i"
      "pthread_mutex_lock nm t (mx (required_locks s ! i)) = Done (0, m')" "s' = set_lock i m' s"
    using sg_lock_mutex_returns by blast
  note f = bsearch_lock [OF i(1)]
  have "counts_ok ((required_locks s ! i)\<lparr>mx := m'\<rparr>) h'" if "nm \<noteq> ''statgrab''"
    unfolding h' using inv f that by (intro counts_ok_lock [OF _ i(2)]) (auto simp: lock_inv_def)
  then show ?thesis unfolding i(3) using f h' by (intro set_lock_inv [OF inv]) auto
next
  fix rc assume "h' = h" "sg_lock_mutex ct t nm s = Done (rc, s')" "rc \<noteq> SG_ERROR_NONE"
  moreover from this have "core s' = core s" using sg_lock_mutex_returns by blast
  ultimately show ?thesis using inv by (simp add: lock_inv_core [of s' s])
next
  assume h1: "h' = h(t := (h t)(nm := h t nm - Suc 0))" and "sg_unlock_mutex ct t nm s = Done (SG_ERROR_NONE, s')"
  then have h': "h' = h(t := (h t)(nm := h t nm - 1))" and "sg_unlock_mutex ct t nm s = Done (SG_ERROR_NONE, s')"
    by simp_all
  then obtain i m' where i: "bsearch strcmp nm (map mx_name (required_locks s)) = Some i"
      "pthread_mutex_unlock nm t (mx (required_locks s ! i)) = Done (0, m')" "s' = set_lock i m' s"
    using sg_unlock_mutex_returns by blast
  note f = bsearch_lock [OF i(1)]
  have "counts_ok ((required_locks s ! i)\<lparr>mx := m'\<rparr>) h'" if "nm \<noteq> ''statgrab''"
    unfolding h' using inv f that by (intro counts_ok_unlock [OF _ i(2)]) (auto simp: lock_inv_def)
  then show ?thesis unfolding i(3) using f h' by (intro set_lock_inv [OF inv]) auto
next
  fix rc assume "h' = h" "sg_unlock_mutex ct t nm s = Done (rc, s')" "rc \<noteq> SG_ERROR_NONE"
  moreover from this have "core s' = core s" using sg_unlock_mutex_returns by blast
  ultimately show ?thesis using inv by (simp add: lock_inv_core [of s' s])
qed

lemma lock_inv_run: "lock_run ct st0 st \<Longrightarrow> lock_inv st0 \<Longrightarrow> lock_inv st"
proof (induction rule: lock_run.induct)
  case (run_step st a st')
  obtain s h where "st = (s, h)" by fastforce
  moreover obtain s' h' where "st' = (s', h')" by fastforce
  moreover obtain t b nm where "a = (t, b, nm)" by (cases a) auto
  ultimately show ?case using run_step lock_inv_step by blast
qed

text \<open>C3: Mutual exclusion. Start with the lock table an initialisation leaves, and let threads lock and unlock
  named locks in any order, with calls that fail among them: at no time do two threads hold the same
  named lock (have locked it successfully more often than unlocked it).\<close>

theorem named_locks_exclude:
  assumes "locks_ok (required_locks s)" "locks_free (required_locks s)"
    and "lock_run ct (s, \<lambda>_ _. 0) (s', h)" "nm \<noteq> ''statgrab''" "0 < h t nm" "0 < h u nm"
  shows "t = u"
proof -
  have "lock_inv (s, \<lambda>_ _. 0)"
    using assms(1,2) by (auto simp: lock_inv_def locks_free_def counts_ok_def intro!: exI [of _ None])
  then have inv: "lock_inv (s', h)" using assms(3) lock_inv_run by blast
  then have "nm \<notin> mx_name ` set (required_locks s') \<longrightarrow> h t nm = 0" by (simp add: lock_inv_def)
  then have "nm \<in> mx_name ` set (required_locks s')" using assms(5) by (metis less_numeral_extra(3))
  then obtain m where "m \<in> set (required_locks s')" "mx_name m = nm" by blast
  with inv assms(4) have "counts_ok m h" by (auto simp: lock_inv_def)
  then obtain ow where "(\<lambda>t. h t nm) = depth ow" using \<open>mx_name m = nm\<close> by (auto simp: counts_ok_def)
  with assms(5,6) show ?thesis using depth_unique [of ow t u] by metis
qed

lemma named_locks_exclude_witness:
  "lock_run (comp_info True True)
     ((start_state [])\<lparr>required_locks := [\<lparr>mx_name = ''utmp'', mx = Mx MX_RECURSIVE None\<rparr>]\<rparr>, \<lambda>_ _. 0)
     ((start_state [])\<lparr>required_locks := [\<lparr>mx_name = ''utmp'', mx = Mx MX_RECURSIVE (Some (3, 1))\<rparr>]\<rparr>,
      (\<lambda>_ _. 0)(3 := (\<lambda>_. 0)(''utmp'' := Suc 0))) \<and>
   (\<forall>u :: thread. u = 3 \<or> ((\<lambda>_ _. 0)(3 := (\<lambda>_. 0)(''utmp'' := Suc 0))) u ''utmp'' = 0)"
proof -
  define s where "s = (start_state [])\<lparr>required_locks := [\<lparr>mx_name = ''utmp'', mx = Mx MX_RECURSIVE None\<rparr>]\<rparr>"
  define s' where "s' = (start_state [])\<lparr>required_locks := [\<lparr>mx_name = ''utmp'', mx = Mx MX_RECURSIVE (Some (3, 1))\<rparr>]\<rparr>"
  define h where "h = (\<lambda>_ _. 0)(3 :: thread := (\<lambda>_. 0)(''utmp'' := Suc 0))"
  have ok: "locks_ok (required_locks s)" "locks_free (required_locks s)"
    by (simp_all add: s_def locks_ok_single locks_free_def)
  have b: "bsearch strcmp ''utmp'' [''utmp''] = Some 0" by (simp add: bsearch_def bsearch_from.simps)
  have "sg_lock_mutex (comp_info True True) 3 ''utmp'' s = Done (SG_ERROR_NONE, s')"
    by (simp add: sg_lock_mutex_def s_def s'_def b pthread_mutex_lock_def set_lock_def)
  from lock_done [OF this, of "\<lambda>_ _. 0"]
  have "lock_step (comp_info True True) (s, \<lambda>_ _. 0) (3, OpLock, ''utmp'') (s', h)"
    by (simp only: h_def)
  with run_start have run: "lock_run (comp_info True True) (s, \<lambda>_ _. 0) (s', h)" by (rule run_step)
  have "0 < h 3 ''utmp''" by (simp add: h_def)
  then have "u = 3 \<or> h u ''utmp'' = 0" for u
    using named_locks_exclude [OF ok run, of "''utmp''" u 3] by auto
  with run show ?thesis by (simp only: s_def s'_def h_def simp_thms)
qed

end
