(* ===== verification/Access.thy ===== *)
theory Access
  imports Vector_Clone
begin

text \<open>
  The access functions that the macros of \<^verbatim>\<open>globals.h\<close> generate for every component: the thread's own
  snapshot (\<^verbatim>\<open>fn\<close>), a snapshot the caller owns (\<^verbatim>\<open>fn_r\<close>), the difference to the previous snapshot and
  the difference between two given ones, each for components of one item (\<^verbatim>\<open>EASY_\<close>) and of many
  (\<^verbatim>\<open>MULTI_\<close>). Parameters are what the macros paste in: the init info of the item type, the gathering
  function \<^verbatim>\<open>fn_int\<close> and the indices of the vectors.

  The thread's slice of the component is the function from indices to vectors, or \<open>None\<close> when
  \<^verbatim>\<open>GLOBAL_GET_TLS\<close> delivers NULL. All functions return the data pointer and the number of entries (for
  a caller that passes no \<^verbatim>\<open>entries\<close> the number is dropped). Vectors of one item type form a heap of
  their own.
\<close>

section \<open>The generated functions\<close>

type_synonym glob = "nat \<Rightarrow> addr"
type_synonym 'a access = "glob option \<Rightarrow> 'a world \<Rightarrow> ((addr \<times> size_t) \<times> glob option \<times> 'a world) outcome"
type_synonym 'a easy_int = "'a \<Rightarrow> env \<Rightarrow> (sg_error \<times> 'a \<times> env) outcome"
type_synonym 'a multi_int = "addr \<Rightarrow> 'a world \<Rightarrow> (sg_error \<times> addr \<times> 'a world) outcome"
type_synonym 'a diff_int = "'a \<Rightarrow> 'a option \<Rightarrow> 'a option \<Rightarrow> env \<Rightarrow> (sg_error \<times> 'a \<times> env) outcome"

definition clear_error :: "'a world \<Rightarrow> 'a world" where
  "clear_error w = set_env (sg_clear_error (wenv w)) w"

text \<open>A call of \<^verbatim>\<open>fn_int\<close> on the first item of a vector.\<close>

definition call_int :: "'a easy_int \<Rightarrow> addr \<Rightarrow> 'a world \<Rightarrow> (sg_error \<times> 'a world) outcome" where
  "call_int fn_int v w =
     andthen (read_item v 0 w) (\<lambda>x.
     andthen (fn_int x (wenv w)) (\<lambda>(rc, x, e).
     andthen (write_item v 0 x (set_env e w)) (\<lambda>w. Done (rc, w))))"

text \<open>\<^verbatim>\<open>if(!vectors[idx]) vectors[idx] = sg_vector_create(1, 1, 1, ...)\<close>\<close>

definition ensure_one :: "'a sg_vector_init_info \<Rightarrow> nat \<Rightarrow> glob \<Rightarrow> 'a world \<Rightarrow> (glob \<times> 'a world) outcome" where
  "ensure_one ty idx g w =
     (if g idx = 0 then andthen (sg_vector_create 1 1 1 ty w) (\<lambda>(v, w). Done (g(idx := v), w))
      else Done (g, w))"

definition EASY_COMP_ACCESS :: "'a sg_vector_init_info \<Rightarrow> 'a easy_int \<Rightarrow> nat \<Rightarrow> 'a access" where
  "EASY_COMP_ACCESS ty fn_int idx gl w =
     (case gl of
        None \<Rightarrow> Done ((0, 0), None, w)
      | Some g \<Rightarrow>
          andthen (ensure_one ty idx g w) (\<lambda>(g, w).
            if g idx \<noteq> 0 then
              andthen (call_int fn_int (g idx) w) (\<lambda>(rc, w).
                if rc = SG_ERROR_NONE then
                  andthen (VECTOR_ITEM_COUNT (g idx) w) (\<lambda>n. Done ((g idx, n), Some g, clear_error w))
                else Done ((0, 0), Some g, w))
            else Done ((0, 0), Some g, w)))"

definition EASY_COMP_ACCESS_r ::
  "'a sg_vector_init_info \<Rightarrow> 'a easy_int \<Rightarrow> 'a world \<Rightarrow> ((addr \<times> size_t) \<times> 'a world) outcome" where
  "EASY_COMP_ACCESS_r ty fn_int w =
     andthen (sg_vector_create 1 1 1 ty w) (\<lambda>(v, w).
       if v \<noteq> 0 then
         andthen (call_int fn_int v w) (\<lambda>(rc, w).
           if rc = SG_ERROR_NONE then
             andthen (VECTOR_ITEM_COUNT v w) (\<lambda>n. Done ((v, n), clear_error w))
           else andthen (sg_vector_free v w) (\<lambda>w. Done ((0, 0), w)))
       else Done ((0, 0), w))"

text \<open>\<^verbatim>\<open>if(!vectors[idx]) vectors[idx] = VECTOR_CREATE(..., 16); else VECTOR_CLEAR(vectors[idx]);\<close>\<close>

definition open_many :: "'a sg_vector_init_info \<Rightarrow> nat \<Rightarrow> glob \<Rightarrow> 'a world \<Rightarrow> (glob \<times> 'a world) outcome" where
  "open_many ty idx g w =
     (if g idx = 0 then andthen (VECTOR_CREATE ty 16 w) (\<lambda>(v, w). Done (g(idx := v), w))
      else andthen (sg_vector_clear (g idx) w) (\<lambda>w. Done (g, w)))"

definition MULTI_COMP_ACCESS :: "'a sg_vector_init_info \<Rightarrow> 'a multi_int \<Rightarrow> nat \<Rightarrow> 'a access" where
  "MULTI_COMP_ACCESS ty fn_int idx gl w =
     (case gl of
        None \<Rightarrow> Done ((0, 0), None, w)
      | Some g \<Rightarrow>
          andthen (open_many ty idx g w) (\<lambda>(g, w).
            if g idx \<noteq> 0 then
              andthen (fn_int (g idx) w) (\<lambda>(rc, v, w).
                let g = g(idx := v) in
                if rc = SG_ERROR_NONE then
                  andthen (VECTOR_ITEM_COUNT v w) (\<lambda>n. Done ((v, n), Some g, clear_error w))
                else Done ((0, 0), Some g, w))
            else Done ((0, 0), Some g, w)))"

definition MULTI_COMP_ACCESS_r ::
  "'a sg_vector_init_info \<Rightarrow> 'a multi_int \<Rightarrow> 'a world \<Rightarrow> ((addr \<times> size_t) \<times> 'a world) outcome" where
  "MULTI_COMP_ACCESS_r ty fn_int w =
     andthen (VECTOR_CREATE ty 16 w) (\<lambda>(v, w).
       if v \<noteq> 0 then
         andthen (fn_int v w) (\<lambda>(rc, v, w).
           if rc = SG_ERROR_NONE then
             andthen (VECTOR_ITEM_COUNT v w) (\<lambda>n. Done ((v, n), clear_error w))
           else andthen (sg_vector_free v w) (\<lambda>w. Done ((0, 0), w)))
       else Done ((0, 0), w))"

text \<open>
  The difference functions. In \<^verbatim>\<open>EASY_COMP_DIFF\<close> the last snapshot is copied before \<^verbatim>\<open>getfn\<close> overwrites
  it; \<^verbatim>\<open>fn_int\<close> of the difference writes its first argument.
\<close>

definition EASY_COMP_DIFF ::
  "'a sg_vector_init_info \<Rightarrow> 'a diff_int \<Rightarrow> 'a access \<Rightarrow> nat \<Rightarrow> nat \<Rightarrow> 'a access" where
  "EASY_COMP_DIFF ty fn_int getfn diffidx nowidx gl w =
     (case gl of
        None \<Rightarrow> Done ((0, 0), None, w)
      | Some g \<Rightarrow>
          if g nowidx = 0 then getfn (Some g) w
          else
            andthen (ensure_one ty diffidx g w) (\<lambda>(g, w).
              if g diffidx \<noteq> 0 then
                andthen (read_item (g nowidx) 0 w) (\<lambda>lst.
                andthen (getfn (Some g) w) (\<lambda>((now, _), gl, w).
                  if now = 0 then Done ((0, 0), gl, w)
                  else
                    andthen (read_item now 0 w) (\<lambda>cur.
                    andthen (call_int (\<lambda>d. fn_int d (Some cur) (Some lst)) (g diffidx) w) (\<lambda>(rc, w).
                      if rc = SG_ERROR_NONE then
                        andthen (VECTOR_ITEM_COUNT (g diffidx) w) (\<lambda>n. Done ((g diffidx, n), gl, clear_error w))
                      else Done ((0, 0), gl, w)))))
              else Done ((0, 0), Some g, w)))"

definition EASY_COMP_DIFF_between ::
  "'a sg_vector_init_info \<Rightarrow> 'a diff_int \<Rightarrow> 'a option \<Rightarrow> 'a option \<Rightarrow> 'a world \<Rightarrow> ((addr \<times> size_t) \<times> 'a world) outcome" where
  "EASY_COMP_DIFF_between ty fn_int now lst w =
     andthen (sg_vector_create 1 1 1 ty w) (\<lambda>(v, w).
       if v \<noteq> 0 then
         andthen (call_int (\<lambda>d. fn_int d now lst) v w) (\<lambda>(rc, w).
           if rc = SG_ERROR_NONE then
             andthen (VECTOR_ITEM_COUNT v w) (\<lambda>n. Done ((v, n), clear_error w))
           else andthen (sg_vector_free v w) (\<lambda>w. Done ((0, 0), w)))
       else Done ((0, 0), w))"

text \<open>
  \<^verbatim>\<open>MULTI_COMP_DIFF\<close> does not look at what \<^verbatim>\<open>getfn\<close> returns, only at the vector it leaves in the slice.
  \<^verbatim>\<open>getfn\<close> finds the slice that the function has found.
\<close>

definition MULTI_COMP_DIFF ::
  "'a sg_vector_init_info \<Rightarrow> 'a access \<Rightarrow> nat \<Rightarrow> nat \<Rightarrow> 'a access" where
  "MULTI_COMP_DIFF ty getfn diffidx nowidx gl w =
     (case gl of
        None \<Rightarrow> Done ((0, 0), None, w)
      | Some g \<Rightarrow>
          if g nowidx = 0 then getfn (Some g) w
          else
            andthen (if g diffidx = 0
                     then andthen (vload (g nowidx) w) (\<lambda>b.
                            andthen (VECTOR_CREATE ty (used_count (hdr b)) w) (\<lambda>(v, w). Done (g(diffidx := v), w)))
                     else Done (g, w)) (\<lambda>(g, w).
              if g diffidx \<noteq> 0 then
                andthen (sg_vector_clone (g nowidx) w) (\<lambda>(lst, w).
                  if lst = 0 then Done ((0, 0), Some g, w)
                  else
                    andthen (getfn (Some g) w) (\<lambda>(_, gl, w).
                      let g = the gl in
                      andthen (sg_vector_compute_diff (Some (g diffidx)) (g nowidx) lst w) (\<lambda>(rc, d, w).
                        let g = g(diffidx := the d) in
                        andthen (sg_vector_free lst w) (\<lambda>w.
                          if rc = SG_ERROR_NONE then
                            andthen (VECTOR_ITEM_COUNT (g diffidx) w) (\<lambda>n.
                              Done ((g diffidx, n), Some g, clear_error w))
                          else Done ((0, 0), Some g, w)))))
              else Done ((0, 0), Some g, w)))"

definition MULTI_COMP_DIFF_between ::
  "'a sg_vector_init_info \<Rightarrow> addr \<Rightarrow> addr \<Rightarrow> 'a world \<Rightarrow> ((addr \<times> size_t) \<times> 'a world) outcome" where
  "MULTI_COMP_DIFF_between ty cur lst w =
     andthen (VECTOR_CREATE ty 1 w) (\<lambda>(v, w).
       if v \<noteq> 0 then
         andthen (VECTOR_ADDRESS cur w) (\<lambda>cur. andthen (VECTOR_ADDRESS lst w) (\<lambda>lst.
         andthen (sg_vector_compute_diff (Some v) cur lst w) (\<lambda>(rc, d, w).
           let v = the d in
           if rc = SG_ERROR_NONE then
             andthen (VECTOR_ITEM_COUNT v w) (\<lambda>n. Done ((v, n), clear_error w))
           else andthen (sg_vector_free v w) (\<lambda>w. Done ((0, 0), w)))))
       else Done ((0, 0), w))"

text \<open>\<^verbatim>\<open>EASY_COMP_CLEANUP_FN\<close>: the end of a thread releases the vectors of its slice.\<close>

fun free_vectors :: "nat \<Rightarrow> nat \<Rightarrow> glob \<Rightarrow> 'a world \<Rightarrow> 'a world outcome" where
  "free_vectors i 0 g w = Done w"
| "free_vectors i (Suc k) g w = andthen (sg_vector_free (g i) w) (\<lambda>w. free_vectors (Suc i) k g w)"

definition EASY_COMP_CLEANUP_FN :: "nat \<Rightarrow> glob option \<Rightarrow> 'a world \<Rightarrow> (glob option \<times> 'a world) outcome" where
  "EASY_COMP_CLEANUP_FN nvect gl w =
     (case gl of
        None \<Rightarrow> Fault (AssertFailed ''glob'')
      | Some g \<Rightarrow>
          andthen (free_vectors 0 nvect g w) (\<lambda>w. Done (Some (\<lambda>i. if i < nvect then 0 else g i), w)))"

end
