(* ===== verification/Access_Easy.thy ===== *)
theory Access_Easy
  imports Access
begin

text \<open>
  The contract of the access functions of components with one item: the interface \<open>easy_source\<close> says
  what a gathering function owes, \<open>easy_diff\<close> adds the function that subtracts two items. The lemmas say
  which vector is returned, what it holds, that the error state tells success from failure and that no
  other vector changes.
\<close>

section \<open>Vectors with one item\<close>

definition holds :: "'a sg_vector_init_info \<Rightarrow> ('a \<Rightarrow> bool) \<Rightarrow> addr \<Rightarrow> 'a \<Rightarrow> 'a world \<Rightarrow> bool" where
  "holds ty ok v x w \<longleftrightarrow> (\<exists>b. vload v w = Done b \<and> vec_ok ty ok b \<and> contents b = [x])"

definition holder :: "'a sg_vector_init_info \<Rightarrow> ('a \<Rightarrow> bool) \<Rightarrow> addr \<Rightarrow> 'a world \<Rightarrow> bool" where
  "holder ty ok v w \<longleftrightarrow> v = 0 \<or> (\<exists>x. holds ty ok v x w)"

lemma contents_single:
  assumes "vec_ok ty ok b" "contents b = [x]"
  shows "used_count (hdr b) = 1" "0 < length (slots b)" "slots b ! 0 = x" "ok x"
proof -
  have "unat (used_count (hdr b)) = 1" using length_contents [OF assms(1)] assms(2) by simp
  then show u: "used_count (hdr b) = 1" by (metis unsigned_1 word_unat_eq_iff)
  then show "0 < length (slots b)" using assms(1) by (auto simp: vec_ok_def)
  then show "slots b ! 0 = x" using assms(2) u by (cases "slots b") (auto simp: contents_def)
  show "ok x" using vec_ok_contents [OF assms(1)] assms(2) by simp
qed

lemma single_update:
  assumes "vec_ok ty ok b" "contents b = [x]" "ok y"
  shows "vec_ok ty ok (b\<lparr>slots := (slots b)[0 := y]\<rparr>)" "contents (b\<lparr>slots := (slots b)[0 := y]\<rparr>) = [y]"
proof -
  note s = contents_single [OF assms(1,2)]
  show "vec_ok ty ok (b\<lparr>slots := (slots b)[0 := y]\<rparr>)"
    using assms(1,3) s(1,2) by (simp add: vec_ok_def)
  show "contents (b\<lparr>slots := (slots b)[0 := y]\<rparr>) = [y]"
    using s(1,2) by (cases "slots b") (simp_all add: contents_def)
qed

lemma holds_frame: "holds ty ok v x w \<Longrightarrow> blocks w' v = blocks w v \<Longrightarrow> holds ty ok v x w'"
  by (auto simp: holds_def vload_Done_iff)

lemma holds_nonnull: "holds ty ok v x w \<Longrightarrow> v \<noteq> 0"
  by (auto simp: holds_def vload_Done_iff)

lemma holds_count: "holds ty ok v x w \<Longrightarrow> VECTOR_ITEM_COUNT v w = Done 1"
  by (frule holds_nonnull) (auto simp: holds_def VECTOR_ITEM_COUNT_def contents_single(1))

lemma holds_read: "holds ty ok v x w \<Longrightarrow> read_item v 0 w = Done x"
  using contents_single by (fastforce simp: holds_def read_item_def)

lemma clear_error_simps [simp]:
  "blocks (clear_error w) = blocks w" "error (err (wenv (clear_error w))) = SG_ERROR_NONE"
  "heap_ok (clear_error w) = heap_ok w" "holds ty ok v x (clear_error w) = holds ty ok v x w"
  "next_addr (clear_error w) = next_addr w" "sched (wenv (clear_error w)) = sched (wenv w)"
  by (simp_all add: clear_error_def holds_def vload_set_env frame_simps)

section \<open>Gathering\<close>

locale easy_source = vec_items ty ok
  for ty :: "'a sg_vector_init_info" and ok :: "'a \<Rightarrow> bool" +
  fixes fn_int :: "'a easy_int"
  assumes fits: "room ty 1"
    and fn_law: "ok x \<Longrightarrow> \<exists>rc y e'. fn_int x e = Done (rc, y, e') \<and> ok y \<and>
      (rc \<noteq> SG_ERROR_NONE \<longrightarrow> error (err e') = rc)"
begin

lemma create_one:
  assumes "heap_ok w"
  shows "\<exists>v w'. sg_vector_create 1 1 1 ty w = Done (v, w') \<and> heap_ok w' \<and>
     (sched (wenv w) = [] \<longrightarrow> v \<noteq> 0 \<and> sched (wenv w') = []) \<and>
     (v = 0 \<and> blocks w' = blocks w \<and> error (err (wenv w')) = SG_ERROR_MALLOC \<or>
      v = next_addr w \<and> err (wenv w') = err (wenv w) \<and> (\<forall>u. u \<noteq> v \<longrightarrow> blocks w' u = blocks w u) \<and>
      (\<exists>x. holds ty ok v x w'))"
proof -
  have c: "sg_vector_create 1 1 1 ty w = sg_vector_create_int 0 1 1 ty w"
    by (simp add: sg_vector_create_def block_shift_loop.simps)
  have "room ty (rounded (unat (max 1 1 :: size_t)) (unat (0 :: size_t)))"
    using fits by (simp add: rounded_def)
  from create_int_ok [OF assms _ _ this] obtain v w' where
    "sg_vector_create_int 0 1 1 ty w = Done (v, w')" "heap_ok w'"
    "v = 0 \<and> blocks w' = blocks w \<and> error (err (wenv w')) = SG_ERROR_MALLOC \<and> sched (wenv w) \<noteq> [] \<or>
      v = next_addr w \<and> err (wenv w') = err (wenv w) \<and> (sched (wenv w) = [] \<longrightarrow> wenv w' = wenv w) \<and>
      (\<exists>b. blocks w' = (blocks w)(v \<mapsto> b) \<and> vec_ok ty ok b \<and> contents b = [raw_init ty (junk_item w)])"
    by auto
  moreover have "next_addr w \<noteq> 0" using assms by (simp add: heap_ok_def)
  ultimately show ?thesis using c by (fastforce simp: holds_def vload_def)
qed

text \<open>A call writes the item that the gathering function delivers, whatever its code.\<close>

lemma call_ok:
  assumes h: "heap_ok w" "holds ty ok v x w" and f: "fn x (wenv w) = Done (rc, y, e)" "ok y"
  shows "\<exists>w'. call_int fn v w = Done (rc, w') \<and> heap_ok w' \<and> wenv w' = e \<and> next_addr w' = next_addr w \<and>
     (\<forall>u. u \<noteq> v \<longrightarrow> blocks w' u = blocks w u) \<and> holds ty ok v y w'"
proof -
  obtain b where b: "vload v w = Done b" "vec_ok ty ok b" "contents b = [x]" using h(2) by (auto simp: holds_def)
  note s = contents_single [OF b(2,3)]
  let ?b = "b\<lparr>slots := (slots b)[0 := y]\<rparr>" and ?w = "vstore v (b\<lparr>slots := (slots b)[0 := y]\<rparr>) (set_env e w)"
  have v: "v \<noteq> 0" "blocks w v \<noteq> None" using b(1) by (auto simp: vload_Done_iff)
  have "call_int fn v w = Done (rc, ?w)"
    using b(1) s(2,3) f(1) by (simp add: call_int_def read_item_def write_item_def vload_set_env)
  moreover have "heap_ok ?w" using h(1) v by (simp add: heap_ok_vstore)
  moreover have "holds ty ok v y ?w"
    using single_update [OF b(2,3) f(2)] v(1) by (auto simp: holds_def vload_vstore)
  ultimately show ?thesis by simp
qed

lemma ensure_ok:
  assumes w: "heap_ok w" and g: "holder ty ok (g idx) w"
  shows "\<exists>g1 w1. ensure_one ty idx g w = Done (g1, w1) \<and> heap_ok w1 \<and> (\<forall>j. j \<noteq> idx \<longrightarrow> g1 j = g j) \<and> (g idx \<noteq> 0 \<longrightarrow> g1 idx = g idx) \<and>
      (sched (wenv w) = [] \<longrightarrow> g1 idx \<noteq> 0 \<and> sched (wenv w1) = []) \<and>
      (\<forall>u. u \<noteq> g1 idx \<longrightarrow> blocks w1 u = blocks w u) \<and> (g1 idx = 0 \<or> g1 idx = g idx \<or> g1 idx = next_addr w) \<and>
      (if g1 idx = 0 then error (err (wenv w1)) = SG_ERROR_MALLOC else \<exists>x. holds ty ok (g1 idx) x w1)"
proof (cases "g idx = 0")
  case True
  obtain v w1 where c: "sg_vector_create 1 1 1 ty w = Done (v, w1)" "heap_ok w1" "sched (wenv w) = [] \<longrightarrow> v \<noteq> 0 \<and> sched (wenv w1) = []" and
    alt: "v = 0 \<and> blocks w1 = blocks w \<and> error (err (wenv w1)) = SG_ERROR_MALLOC \<or>
      v = next_addr w \<and> err (wenv w1) = err (wenv w) \<and> (\<forall>u. u \<noteq> v \<longrightarrow> blocks w1 u = blocks w u) \<and>
      (\<exists>x. holds ty ok v x w1)"
    using create_one [OF w] by (elim exE conjE)
  with True show ?thesis
    using holds_nonnull by (intro exI [of _ "g(idx := v)"] exI [of _ w1]) (fastforce simp: ensure_one_def)
next
  case False
  with g w show ?thesis by (auto simp: holder_def ensure_one_def)
qed

lemma access_ok:
  assumes w: "heap_ok w" and g: "holder ty ok (g idx) w"
  shows "\<exists>p n g' w'. EASY_COMP_ACCESS ty fn_int idx (Some g) w = Done ((p, n), Some g', w') \<and> heap_ok w' \<and>
     (\<forall>j. j \<noteq> idx \<longrightarrow> g' j = g j) \<and> (g idx \<noteq> 0 \<longrightarrow> g' idx = g idx) \<and>
     (\<forall>u. u \<noteq> g' idx \<longrightarrow> blocks w' u = blocks w u) \<and> (g' idx = 0 \<or> g' idx = g idx \<or> g' idx = next_addr w) \<and>
     (if p = 0 then n = 0 \<and> error (err (wenv w')) \<noteq> SG_ERROR_NONE \<and> holder ty ok (g' idx) w' \<and>
        (sched (wenv w) \<noteq> [] \<or> (\<exists>x e rc y e'. fn_int x e = Done (rc, y, e') \<and> rc \<noteq> SG_ERROR_NONE))
      else p = g' idx \<and> n = 1 \<and> error (err (wenv w')) = SG_ERROR_NONE \<and>
        (\<exists>x e y e'. fn_int x e = Done (SG_ERROR_NONE, y, e') \<and> holds ty ok p y w'))"
proof -
  obtain g1 w1 where m: "ensure_one ty idx g w = Done (g1, w1)" "heap_ok w1" "\<forall>j. j \<noteq> idx \<longrightarrow> g1 j = g j" "g idx \<noteq> 0 \<longrightarrow> g1 idx = g idx"
      "\<forall>u. u \<noteq> g1 idx \<longrightarrow> blocks w1 u = blocks w u" "g1 idx = 0 \<or> g1 idx = g idx \<or> g1 idx = next_addr w"
      "if g1 idx = 0 then error (err (wenv w1)) = SG_ERROR_MALLOC else \<exists>x. holds ty ok (g1 idx) x w1"
      "sched (wenv w) = [] \<longrightarrow> g1 idx \<noteq> 0 \<and> sched (wenv w1) = []"
    using ensure_ok [of w g idx, OF w g] by (elim exE conjE)
  show ?thesis
  proof (cases "g1 idx = 0")
    case True
    then have "EASY_COMP_ACCESS ty fn_int idx (Some g) w = Done ((0, 0), Some g1, w1)"
      using m(1) by (simp add: EASY_COMP_ACCESS_def)
    with True m show ?thesis by (auto simp: holder_def)
  next
    case False
    then obtain x where x: "holds ty ok (g1 idx) x w1" using m(7) by auto
    then have "ok x" using contents_single(4) by (auto simp: holds_def)
    then obtain rc y e where f: "fn_int x (wenv w1) = Done (rc, y, e)" "ok y" "rc \<noteq> SG_ERROR_NONE \<longrightarrow> error (err e) = rc"
      using fn_law by blast
    obtain w2 where c: "call_int fn_int (g1 idx) w1 = Done (rc, w2)" "heap_ok w2" "wenv w2 = e"
        "\<forall>u. u \<noteq> g1 idx \<longrightarrow> blocks w2 u = blocks w1 u" "holds ty ok (g1 idx) y w2"
      using call_ok [of w1 "g1 idx" x fn_int, OF m(2) x f(1,2)] by auto
    have fr: "\<forall>u. u \<noteq> g1 idx \<longrightarrow> blocks w2 u = blocks w u" using c(4) m(5) by simp
    show ?thesis
    proof (cases "rc = SG_ERROR_NONE")
      case True
      then have "EASY_COMP_ACCESS ty fn_int idx (Some g) w = Done ((g1 idx, 1), Some g1, clear_error w2)"
        using m(1) c(1) False holds_count [OF c(5)] by (simp add: EASY_COMP_ACCESS_def)
      with True m f c fr False show ?thesis by auto
    next
      case rc: False
      then have "EASY_COMP_ACCESS ty fn_int idx (Some g) w = Done ((0, 0), Some g1, w2)"
        using m(1) c(1) False by (simp add: EASY_COMP_ACCESS_def)
      moreover have "\<exists>x e rc y e'. fn_int x e = Done (rc, y, e') \<and> rc \<noteq> SG_ERROR_NONE" using f(1) rc by blast
      ultimately show ?thesis using rc m f c fr by (auto simp: holder_def)
    qed
  qed
qed

text \<open>The snapshot the caller owns: a new vector, or nothing is left behind.\<close>

lemma access_r_ok:
  assumes w: "heap_ok w"
  shows "\<exists>p n w'. EASY_COMP_ACCESS_r ty fn_int w = Done ((p, n), w') \<and> heap_ok w' \<and>
     (\<forall>u. u \<noteq> p \<longrightarrow> blocks w' u = blocks w u) \<and>
     (if p = 0 then n = 0 \<and> error (err (wenv w')) \<noteq> SG_ERROR_NONE \<and>
        (sched (wenv w) \<noteq> [] \<or> (\<exists>x e rc y e'. fn_int x e = Done (rc, y, e') \<and> rc \<noteq> SG_ERROR_NONE))
      else p = next_addr w \<and> n = 1 \<and> error (err (wenv w')) = SG_ERROR_NONE \<and>
        (\<exists>x e y e'. fn_int x e = Done (SG_ERROR_NONE, y, e') \<and> holds ty ok p y w'))"
proof -
  obtain v w1 where c: "sg_vector_create 1 1 1 ty w = Done (v, w1)" "heap_ok w1" "sched (wenv w) = [] \<longrightarrow> v \<noteq> 0 \<and> sched (wenv w1) = []" and
    alt: "v = 0 \<and> blocks w1 = blocks w \<and> error (err (wenv w1)) = SG_ERROR_MALLOC \<or>
      v = next_addr w \<and> err (wenv w1) = err (wenv w) \<and> (\<forall>u. u \<noteq> v \<longrightarrow> blocks w1 u = blocks w u) \<and>
      (\<exists>x. holds ty ok v x w1)"
    using create_one [OF w] by (elim exE conjE)
  show ?thesis
  proof (cases "v = 0")
    case True
    with c(1) have "EASY_COMP_ACCESS_r ty fn_int w = Done ((0, 0), w1)" by (simp add: EASY_COMP_ACCESS_r_def)
    with True alt c w holds_nonnull show ?thesis by fastforce
  next
    case False
    with alt obtain x where x: "holds ty ok v x w1" and v: "v = next_addr w"
      and fr: "\<forall>u. u \<noteq> v \<longrightarrow> blocks w1 u = blocks w u" by auto
    then have "ok x" using contents_single(4) by (auto simp: holds_def)
    then obtain rc y e where f: "fn_int x (wenv w1) = Done (rc, y, e)" "ok y" "rc \<noteq> SG_ERROR_NONE \<longrightarrow> error (err e) = rc"
      using fn_law by blast
    obtain w2 where k: "call_int fn_int v w1 = Done (rc, w2)" "heap_ok w2" "wenv w2 = e"
        "\<forall>u. u \<noteq> v \<longrightarrow> blocks w2 u = blocks w1 u" "holds ty ok v y w2"
      using call_ok [of w1 v x fn_int, OF c(2) x f(1,2)] by auto
    show ?thesis
    proof (cases "rc = SG_ERROR_NONE")
      case True
      then have "EASY_COMP_ACCESS_r ty fn_int w = Done ((v, 1), clear_error w2)"
        using c(1) k(1) False holds_count [OF k(5)] by (simp add: EASY_COMP_ACCESS_r_def)
      with True f k fr False v show ?thesis by auto
    next
      case rc: False
      obtain b where b: "vload v w2 = Done b" "vec_ok ty ok b" using k(5) by (auto simp: holds_def)
      have "EASY_COMP_ACCESS_r ty fn_int w = Done ((0, 0), w2\<lparr>blocks := (blocks w2)(v := None)\<rparr>)"
        using c(1) k(1) False rc free_block [OF b] by (simp add: EASY_COMP_ACCESS_r_def)
      moreover have "blocks w v = None" using heap_ok_fresh [OF w] v by simp
      moreover have "\<exists>x e rc y e'. fn_int x e = Done (rc, y, e') \<and> rc \<noteq> SG_ERROR_NONE" using f(1) rc by blast
      ultimately show ?thesis
        using rc f k fr heap_ok_free [OF k(2), of v] by auto
    qed
  qed
qed

end

section \<open>Differences\<close>

locale easy_diff = easy_source ty ok fn_int
  for ty :: "'a sg_vector_init_info" and ok :: "'a \<Rightarrow> bool" and fn_int :: "'a easy_int" +
  fixes sub_int :: "'a diff_int"
  assumes sub_law: "ok d \<Longrightarrow> pred_option ok now \<Longrightarrow> pred_option ok lst \<Longrightarrow>
      \<exists>rc y e'. sub_int d now lst e = Done (rc, y, e') \<and> ok y \<and> (rc \<noteq> SG_ERROR_NONE \<longrightarrow> error (err e') = rc)"
begin

text \<open>
  With a previous snapshot: the function gathers a new one into the vector of the snapshots and
  delivers the difference in the other vector.
\<close>

lemma diff_ok:
  assumes w: "heap_ok w" and now: "holds ty ok (g nowidx) lst w" and df: "holder ty ok (g diffidx) w"
    and ne: "nowidx \<noteq> diffidx" "g diffidx \<noteq> g nowidx"
  shows "\<exists>p n g' w'. EASY_COMP_DIFF ty sub_int (EASY_COMP_ACCESS ty fn_int nowidx) diffidx nowidx (Some g) w =
       Done ((p, n), Some g', w') \<and> heap_ok w' \<and> g' nowidx = g nowidx \<and>
     (\<exists>cur. holds ty ok (g nowidx) cur w' \<and>
       (if p = 0 then n = 0 \<and> error (err (wenv w')) \<noteq> SG_ERROR_NONE \<and>
          (sched (wenv w) \<noteq> [] \<or> (\<exists>x e rc y e'. fn_int x e = Done (rc, y, e') \<and> rc \<noteq> SG_ERROR_NONE) \<or>
           (\<exists>x now lst e rc y e'. sub_int x now lst e = Done (rc, y, e') \<and> rc \<noteq> SG_ERROR_NONE))
        else p = g' diffidx \<and> p \<noteq> g nowidx \<and> n = 1 \<and> error (err (wenv w')) = SG_ERROR_NONE \<and>
          (\<exists>x e e'. fn_int x e = Done (SG_ERROR_NONE, cur, e')) \<and>
          (\<exists>x e y e'. sub_int x (Some cur) (Some lst) e = Done (SG_ERROR_NONE, y, e') \<and> holds ty ok p y w')))"
proof -
  obtain g1 w1 where m1: "ensure_one ty diffidx g w = Done (g1, w1)" "heap_ok w1" "\<forall>j. j \<noteq> diffidx \<longrightarrow> g1 j = g j"
      "\<forall>u. u \<noteq> g1 diffidx \<longrightarrow> blocks w1 u = blocks w u" "g1 diffidx = 0 \<or> g1 diffidx = g diffidx \<or> g1 diffidx = next_addr w"
      "if g1 diffidx = 0 then error (err (wenv w1)) = SG_ERROR_MALLOC else \<exists>x. holds ty ok (g1 diffidx) x w1"
      "sched (wenv w) = [] \<longrightarrow> g1 diffidx \<noteq> 0 \<and> sched (wenv w1) = []"
    using ensure_ok [of w g diffidx, OF w df] by (elim exE conjE)
  have "g nowidx < next_addr w" "0 < g nowidx" using now w by (auto simp: holds_def vload_Done_iff heap_ok_def)
  then have far: "g1 diffidx \<noteq> g nowidx" using m1(5) ne by auto
  then have "holds ty ok (g nowidx) lst w1" using m1(4) by (auto intro: holds_frame [OF now])
  then have m: "ensure_one ty diffidx g w = Done (g1, w1)" "heap_ok w1" "g1 nowidx = g nowidx" "holds ty ok (g nowidx) lst w1"
      "g1 diffidx \<noteq> g nowidx"
      "if g1 diffidx = 0 then error (err (wenv w1)) = SG_ERROR_MALLOC else \<exists>x. holds ty ok (g1 diffidx) x w1"
      "sched (wenv w) = [] \<longrightarrow> g1 diffidx \<noteq> 0 \<and> sched (wenv w1) = []"
    using m1 far ne by auto
  have n0: "g nowidx \<noteq> 0" using now by (rule holds_nonnull)
  show ?thesis
  proof (cases "g1 diffidx = 0")
    case True
    then have "EASY_COMP_DIFF ty sub_int (EASY_COMP_ACCESS ty fn_int nowidx) diffidx nowidx (Some g) w =
        Done ((0, 0), Some g1, w1)" using m(1) n0 by (simp add: EASY_COMP_DIFF_def)
    with True m show ?thesis by auto
  next
    case False
    then obtain dx where dx: "holds ty ok (g1 diffidx) dx w1" using m(6) by auto
    have "holder ty ok (g1 nowidx) w1" using m(3,4) by (auto simp: holder_def)
    from access_ok [of w1 g1 nowidx, OF m(2) this] obtain p n g2 w2 where
      a: "EASY_COMP_ACCESS ty fn_int nowidx (Some g1) w1 = Done ((p, n), Some g2, w2)" "heap_ok w2"
        "\<forall>j. j \<noteq> nowidx \<longrightarrow> g2 j = g1 j" "g1 nowidx \<noteq> 0 \<longrightarrow> g2 nowidx = g1 nowidx"
        "\<forall>u. u \<noteq> g2 nowidx \<longrightarrow> blocks w2 u = blocks w1 u" and
      r: "if p = 0 then n = 0 \<and> error (err (wenv w2)) \<noteq> SG_ERROR_NONE \<and> holder ty ok (g2 nowidx) w2 \<and>
        (sched (wenv w1) \<noteq> [] \<or> (\<exists>x e rc y e'. fn_int x e = Done (rc, y, e') \<and> rc \<noteq> SG_ERROR_NONE))
      else p = g2 nowidx \<and> n = 1 \<and> error (err (wenv w2)) = SG_ERROR_NONE \<and>
        (\<exists>x e y e'. fn_int x e = Done (SG_ERROR_NONE, y, e') \<and> holds ty ok p y w2)"
      by (elim exE conjE)
    have g2: "g2 nowidx = g nowidx" "g2 diffidx = g1 diffidx" using a(3,4) m(3) n0 ne by auto
    have dx2: "holds ty ok (g1 diffidx) dx w2" using dx a(5) g2 m(5) by (intro holds_frame [OF dx]) auto
    have rd: "read_item (g1 nowidx) 0 w1 = Done lst" using m(3,4) holds_read by simp
    have go: "EASY_COMP_DIFF ty sub_int (EASY_COMP_ACCESS ty fn_int nowidx) diffidx nowidx (Some g) w =
        (if p = 0 then Done ((0, 0), Some g2, w2)
         else andthen (read_item p 0 w2) (\<lambda>cur.
           andthen (call_int (\<lambda>d. sub_int d (Some cur) (Some lst)) (g1 diffidx) w2) (\<lambda>(rc, w).
             if rc = SG_ERROR_NONE then
               andthen (VECTOR_ITEM_COUNT (g1 diffidx) w) (\<lambda>n. Done ((g1 diffidx, n), Some g2, clear_error w))
             else Done ((0, 0), Some g2, w))))"
      using m(1) n0 False rd a(1) by (simp add: EASY_COMP_DIFF_def)
    show ?thesis
    proof (cases "p = 0")
      case True
      then have "\<exists>cur. holds ty ok (g nowidx) cur w2" using r g2 n0 by (auto simp: holder_def)
      moreover from True r m(7) have "sched (wenv w) \<noteq> [] \<or> (\<exists>x e rc y e'. fn_int x e = Done (rc, y, e') \<and> rc \<noteq> SG_ERROR_NONE)"
        by auto
      ultimately show ?thesis using True go a g2 r by auto
    next
      case p: False
      then obtain x e cur e' where cur: "fn_int x e = Done (SG_ERROR_NONE, cur, e')" "holds ty ok p cur w2" and pe: "p = g nowidx"
        using r g2 by auto
      have oks: "ok dx" "ok cur" "ok lst"
        using dx2 cur(2) now contents_single(4) by (auto simp: holds_def)
      then obtain rc y ee where f: "sub_int dx (Some cur) (Some lst) (wenv w2) = Done (rc, y, ee)" "ok y"
          "rc \<noteq> SG_ERROR_NONE \<longrightarrow> error (err ee) = rc"
        using sub_law [of dx "Some cur" "Some lst" "wenv w2"] by auto
      obtain w3 where k: "call_int (\<lambda>d. sub_int d (Some cur) (Some lst)) (g1 diffidx) w2 = Done (rc, w3)" "heap_ok w3"
          "wenv w3 = ee" "\<forall>u. u \<noteq> g1 diffidx \<longrightarrow> blocks w3 u = blocks w2 u" "holds ty ok (g1 diffidx) y w3"
        using call_ok [of w2 "g1 diffidx" dx "\<lambda>d. sub_int d (Some cur) (Some lst)", OF a(2) dx2 f(1,2)] by auto
      have cur3: "holds ty ok (g nowidx) cur w3"
        using cur(2) pe k(4) m(5) holds_frame [of ty ok "g nowidx" cur w2 w3] by auto
      show ?thesis
      proof (cases "rc = SG_ERROR_NONE")
        case True
        with go p k(1) holds_read [OF cur(2)] holds_count [OF k(5)]
        have "EASY_COMP_DIFF ty sub_int (EASY_COMP_ACCESS ty fn_int nowidx) diffidx nowidx (Some g) w =
            Done ((g1 diffidx, 1), Some g2, clear_error w3)" by simp
        moreover have "\<exists>x e y e'. sub_int x (Some cur) (Some lst) e = Done (SG_ERROR_NONE, y, e') \<and>
            holds ty ok (g1 diffidx) y (clear_error w3)" using f(1) True k(5) by auto
        moreover have "\<exists>x e e'. fn_int x e = Done (SG_ERROR_NONE, cur, e')" using cur(1) by blast
        moreover have "holds ty ok (g nowidx) cur (clear_error w3)" "heap_ok (clear_error w3)"
          using cur3 k(2) by simp_all
        ultimately show ?thesis using False m(5) g2 clear_error_simps(2) [of w3] by metis
      next
        case rc: False
        with go p k(1) holds_read [OF cur(2)]
        have "EASY_COMP_DIFF ty sub_int (EASY_COMP_ACCESS ty fn_int nowidx) diffidx nowidx (Some g) w =
            Done ((0, 0), Some g2, w3)" by simp
        moreover have "\<exists>x now lst e rc y e'. sub_int x now lst e = Done (rc, y, e') \<and> rc \<noteq> SG_ERROR_NONE" using f(1) rc by blast
        ultimately show ?thesis using rc k cur3 f g2 by auto
      qed
    qed
  qed
qed

end

end
