(* ===== verification/Access_Multi.thy ===== *)
theory Access_Multi
  imports Access_Easy
begin

text \<open>
  The contract of the access functions of components with many items. The gathering functions append
  one item per row of what the system reports: the vector grows by one item, the item is filled, and so
  on until a row fails or the rows end. The interface \<open>row_items\<close> says what filling an item from a row
  owes and \<open>multi_source\<close> what a gathering function owes; \<open>multi_diff\<close> joins the latter with the
  differences of the item type.
\<close>

section \<open>Filling a vector row by row\<close>

fun fill_rows ::
  "'a sg_vector_init_info \<Rightarrow> ('r \<Rightarrow> 'a \<Rightarrow> env \<Rightarrow> (sg_error \<times> 'a \<times> env) outcome) \<Rightarrow> 'r list \<Rightarrow> nat \<Rightarrow> 'a multi_int" where
  "fill_rows ty put [] n v w = Done (SG_ERROR_NONE, v, w)"
| "fill_rows ty put (r # rs) n v w =
     andthen (VECTOR_UPDATE v (word_of_nat n + 1) ty w) (\<lambda>(res, v, w).
       case res of
         Inl rc \<Rightarrow> Done (rc, v, w)
       | Inr _ \<Rightarrow>
           andthen (read_item v n w) (\<lambda>x.
           andthen (put r x (wenv w)) (\<lambda>(rc, x, e).
           andthen (write_item v n x (set_env e w)) (\<lambda>w.
             if rc \<noteq> SG_ERROR_NONE then Done (rc, v, w) else fill_rows ty put rs (Suc n) v w))))"

text \<open>What happened to the heap when a vector was handed over and another (or NULL) came back.\<close>

definition replaced :: "addr \<Rightarrow> addr \<Rightarrow> 'a world \<Rightarrow> 'a world \<Rightarrow> bool" where
  "replaced v v' w w' \<longleftrightarrow>
     (\<forall>u. u \<noteq> v \<and> u \<noteq> v' \<longrightarrow> blocks w' u = blocks w u) \<and> (v' = v \<or> blocks w v' = None \<and> blocks w' v = None)"

lemma replaced_trans:
  assumes "replaced v v1 w w1" "replaced v1 v2 w1 w2" "blocks w1 v1 \<noteq> None \<or> v2 = v1"
  shows "replaced v v2 w w2"
  using assms unfolding replaced_def by (metis (no_types, lifting))

lemma replaced_other: "replaced v v' w w' \<Longrightarrow> blocks w u \<noteq> None \<Longrightarrow> u \<noteq> v \<Longrightarrow> blocks w' u = blocks w u"
  by (auto simp: replaced_def)

text \<open>Writing one item of a vector.\<close>

lemma set_slot:
  assumes "vec_ok ty ok b" "i < length (contents b)" "ok y"
  shows "i < length (slots b)" "slots b ! i = contents b ! i" "vec_ok ty ok (b\<lparr>slots := (slots b)[i := y]\<rparr>)"
    "contents (b\<lparr>slots := (slots b)[i := y]\<rparr>) = (contents b)[i := y]"
proof -
  show il: "i < length (slots b)" "slots b ! i = contents b ! i"
    using assms(2) by (simp_all add: contents_def)
  show "vec_ok ty ok (b\<lparr>slots := (slots b)[i := y]\<rparr>)"
    using assms(1,3) il(1) by (auto simp: vec_ok_def nth_list_update)
  show "contents (b\<lparr>slots := (slots b)[i := y]\<rparr>) = (contents b)[i := y]"
    by (simp add: contents_def take_update_swap)
qed

context vec_items
begin

text \<open>A vector brought to \<open>n\<close> items: the new ones are initialised, or the vector is gone and the error says so.\<close>

lemma update_ok:
  assumes w: "heap_ok w" and b: "vload v w = Done b" "vec_ok ty ok b" and n0: "n \<noteq> 0" and rm: "room ty (unat n + 2 ^ 33)"
  shows "\<exists>res v' w'. VECTOR_UPDATE v n ty w = Done (res, v', w') \<and> heap_ok w' \<and> replaced v v' w w' \<and>
     (case res of
        Inl rc \<Rightarrow> v' = 0 \<and> rc = SG_ERROR_MALLOC \<and> error (err (wenv w')) = rc \<and> sched (wenv w) \<noteq> []
      | Inr _ \<Rightarrow> (sched (wenv w) = [] \<longrightarrow> wenv w' = wenv w) \<and>
          (\<exists>b' ys. vload v' w' = Done b' \<and> vec_ok ty ok b' \<and> contents b' = take (unat n) (contents b) @ map (raw_init ty) ys \<and>
             length (contents b') = unat n \<and> (room_for ty b \<longrightarrow> room_for ty b')))"
proof -
  have bs: "unat (block_shift (hdr b)) < 32" using b(2) by (simp add: vec_ok_def)
  have "(2::nat) ^ unat (block_shift (hdr b)) \<le> 2 ^ 32" using bs by (intro power_increasing) auto
  then have le: "rounded (unat n) (unat (block_shift (hdr b))) \<le> unat n + 2 ^ 32"
    using rounded_less [of "unat n" "unat (block_shift (hdr b))"] n0 by (simp add: unat_gt_0)
  then have r: "room ty (rounded (unat n) (unat (block_shift (hdr b))))"
    by (intro room_mono [OF rm]) simp
  have r2: "room ty (rounded (unat n) (unat (block_shift (hdr b))) + 2 ^ 32)"
    using le by (intro room_mono [OF rm]) simp
  obtain v' w' where s: "sg_vector_resize v n w = Done (v', w')" "heap_ok w'" and
    alt: "v' = 0 \<and> blocks w' = (blocks w)(v := None) \<and> error (err (wenv w')) = SG_ERROR_MALLOC \<and> sched (wenv w) \<noteq> [] \<or>
      v' \<noteq> 0 \<and> (v' = v \<or> v' = next_addr w) \<and> err (wenv w') = err (wenv w) \<and>
      (sched (wenv w) = [] \<longrightarrow> wenv w' = wenv w) \<and>
      (\<exists>b' ys. blocks w' = (blocks w)(v := None, v' \<mapsto> b') \<and> vec_ok ty ok b' \<and>
         used_count (hdr b') = n \<and> block_shift (hdr b') = block_shift (hdr b) \<and>
         contents b' = take (unat n) (contents b) @ map (raw_init ty) ys \<and>
         (length (slots b') = length (slots b) \<or> length (slots b') = rounded (unat n) (unat (block_shift (hdr b)))))"
    using resize_len [OF w b n0 r] by (elim exE conjE)
  have v: "v \<noteq> 0" "blocks w 0 = None" using b(1) w by (auto simp: vload_Done_iff heap_ok_def)
  have u: "VECTOR_UPDATE v n ty w =
      (if v' \<noteq> 0 then andthen (vload v' w') (\<lambda>b.
         andthen (c_assert ''VECTOR_ITEM_COUNT == new_count'' (used_count (hdr b) = n)) (\<lambda>_. Done (Inr (), v', w')))
       else Done (Inl (sg_get_error (Some (err (wenv w')))), v', w'))"
    using s(1) v n0 by (simp add: VECTOR_UPDATE_def VECTOR_CREATE_OR_RESIZE_def)
  show ?thesis
  proof (cases "v' = 0")
    case True
    with alt have "replaced v 0 w w'" using v by (auto simp: replaced_def)
    with True u alt s(2) show ?thesis by (auto simp: sg_get_error_def)
  next
    case False
    with alt obtain b' ys where b': "blocks w' = (blocks w)(v := None, v' \<mapsto> b')" "vec_ok ty ok b'"
        "used_count (hdr b') = n" "contents b' = take (unat n) (contents b) @ map (raw_init ty) ys"
        "length (slots b') = length (slots b) \<or> length (slots b') = rounded (unat n) (unat (block_shift (hdr b)))"
        and vv: "v' = v \<or> v' = next_addr w" and e: "sched (wenv w) = [] \<longrightarrow> wenv w' = wenv w"
      by auto
    have "length (contents b') = unat n" using length_contents [OF b'(2)] b'(3) by simp
    moreover have ld: "vload v' w' = Done b'" using b'(1) False by (simp add: vload_Done_iff)
    moreover have "replaced v v' w w'" using vv b'(1) heap_ok_fresh [OF w] by (auto simp: replaced_def)
    moreover have "room_for ty b \<longrightarrow> room_for ty b'" using b'(5) r2 by (auto simp: room_for_def)
    ultimately show ?thesis using u False b'(2,3,4) e s(2) by auto
  qed
qed

lemma update_mem:
  assumes w: "heap_ok w" and b: "vload v w = Done b" "vec_ok ty ok b" and n: "n \<noteq> 0" "room ty (unat n + 2 ^ 33)" and sc: "sched (wenv w) = []"
  shows "\<exists>v' w' b'. VECTOR_UPDATE v n ty w = Done (Inr (), v', w') \<and> heap_ok w' \<and> replaced v v' w w' \<and> wenv w' = wenv w \<and>
     vload v' w' = Done b' \<and> vec_ok ty ok b' \<and> (\<exists>ys. contents b' = take (unat n) (contents b) @ map (raw_init ty) ys) \<and>
     length (contents b') = unat n \<and> (room_for ty b \<longrightarrow> room_for ty b')"
proof -
  obtain res v' w' where u: "VECTOR_UPDATE v n ty w = Done (res, v', w')" "heap_ok w'" "replaced v v' w w'"
     "case res of
        Inl rc \<Rightarrow> v' = 0 \<and> rc = SG_ERROR_MALLOC \<and> error (err (wenv w')) = rc \<and> sched (wenv w) \<noteq> []
      | Inr _ \<Rightarrow> (sched (wenv w) = [] \<longrightarrow> wenv w' = wenv w) \<and>
          (\<exists>b' ys. vload v' w' = Done b' \<and> vec_ok ty ok b' \<and> contents b' = take (unat n) (contents b) @ map (raw_init ty) ys \<and>
             length (contents b') = unat n \<and> (room_for ty b \<longrightarrow> room_for ty b'))"
    using update_ok [OF w b n] by (elim exE conjE)
  with sc show ?thesis by (cases res) auto
qed

lemma unat_count: "room ty (n + 2 ^ 33) \<Longrightarrow> unat (word_of_nat n :: size_t) = n"
proof -
  assume "room ty (n + 2 ^ 33)"
  then have "88 + (n + 2 ^ 33) * unat (item_size ty) < 2 ^ 64" by (simp add: room_def)
  moreover have "n + 2 ^ 33 \<le> (n + 2 ^ 33) * unat (item_size ty)"
    using item_size_pos by (simp add: unat_gt_0 Suc_le_eq)
  ultimately show ?thesis by (intro unat_of_nat_size) linarith
qed

text \<open>A new vector of one initialised item, for \<open>VECTOR_UPDATE\<close> of NULL.\<close>

lemma update_null:
  assumes w: "heap_ok w" "sched (wenv w) = []" and rm: "room ty 1"
  shows "\<exists>v w' b x. VECTOR_UPDATE 0 1 ty w = Done (Inr (), v, w') \<and> heap_ok w' \<and> wenv w' = wenv w \<and> v \<noteq> 0 \<and>
     blocks w v = None \<and> blocks w' = (blocks w)(v \<mapsto> b) \<and> vec_ok ty ok b \<and> contents b = [x]"
proof -
  have s: "sg_vector_create 1 1 1 ty w = sg_vector_create_int 0 1 1 ty w"
    by (simp add: sg_vector_create_def block_shift_loop.simps)
  have "room ty (rounded (unat (max 1 1 :: size_t)) (unat (0 :: size_t)))"
    using rm by (simp add: rounded_def)
  from create_int_len [OF w(1) _ _ this] obtain v w' where c: "sg_vector_create_int 0 1 1 ty w = Done (v, w')" "heap_ok w'" and
    "v = 0 \<and> blocks w' = blocks w \<and> error (err (wenv w')) = SG_ERROR_MALLOC \<and> sched (wenv w) \<noteq> [] \<or>
      v = next_addr w \<and> (sched (wenv w) = [] \<longrightarrow> wenv w' = wenv w) \<and>
      (\<exists>b. blocks w' = (blocks w)(v \<mapsto> b) \<and> vec_ok ty ok b \<and> used_count (hdr b) = 1 \<and>
           contents b = replicate (unat (1 :: size_t)) (raw_init ty (junk_item w)))"
    by auto
  with w(2) obtain b where b: "v = next_addr w" "wenv w' = wenv w" "blocks w' = (blocks w)(v \<mapsto> b)" "vec_ok ty ok b"
    "used_count (hdr b) = 1" "contents b = [raw_init ty (junk_item w)]" by auto
  have v: "v \<noteq> 0" "blocks w v = None" using w(1) b(1) heap_ok_fresh [OF w(1)] by (simp_all add: heap_ok_def)
  then have "vload v w' = Done b" using b(3) by (simp add: vload_Done_iff)
  with s c b v show ?thesis by (auto simp: VECTOR_UPDATE_def VECTOR_CREATE_OR_RESIZE_def)
qed

end

locale row_items = vec_items ty ok
  for ty :: "'a sg_vector_init_info" and ok :: "'a \<Rightarrow> bool" +
  fixes view :: "'a \<Rightarrow> 'v"
    and put :: "'r \<Rightarrow> 'a \<Rightarrow> env \<Rightarrow> (sg_error \<times> 'a \<times> env) outcome"
    and row_ok :: "'r \<Rightarrow> bool"
    and row :: "'r \<Rightarrow> 'v"
  assumes put_law: "row_ok r \<Longrightarrow> ok x \<Longrightarrow> \<exists>rc y e'. put r x e = Done (rc, y, e') \<and> ok y \<and>
      (sched e = [] \<longrightarrow> rc = SG_ERROR_NONE \<and> e' = e \<and> view y = row r) \<and>
      (rc \<noteq> SG_ERROR_NONE \<longrightarrow> error (err e') = rc)"
begin

lemmas resized = update_mem and unat_rows = unat_count

text \<open>One more item: the vector has grown by an initialised item, or it is gone and the error says so.\<close>

lemma grow_ok:
  assumes w: "heap_ok w" and b: "vload v w = Done b" "vec_ok ty ok b" and n: "length (contents b) = n"
    and rm: "room ty (Suc n + 2 ^ 33)"
  shows "\<exists>res v' w'. VECTOR_UPDATE v (word_of_nat n + 1) ty w = Done (res, v', w') \<and> heap_ok w' \<and> replaced v v' w w' \<and>
     (case res of
        Inl rc \<Rightarrow> v' = 0 \<and> rc = SG_ERROR_MALLOC \<and> error (err (wenv w')) = rc \<and> sched (wenv w) \<noteq> []
      | Inr _ \<Rightarrow> (sched (wenv w) = [] \<longrightarrow> wenv w' = wenv w) \<and>
          (\<exists>b' x. vload v' w' = Done b' \<and> vec_ok ty ok b' \<and> contents b' = contents b @ [x] \<and>
             (room_for ty b \<longrightarrow> room_for ty b')))"
proof -
  let ?n = "word_of_nat n + 1 :: size_t"
  have un: "unat ?n = Suc n" using unat_count [OF rm] by (simp add: add.commute)
  then have n0: "?n \<noteq> 0" by auto
  have one: "\<exists>x. xs = contents b @ [x]" if "xs = take (Suc n) (contents b) @ ys" "length xs = Suc n" for xs ys
    using that n by (auto simp: length_Suc_conv)
  have rm': "room ty (unat ?n + 2 ^ 33)" using un rm by simp
  obtain res v' w' where u: "VECTOR_UPDATE v ?n ty w = Done (res, v', w')" "heap_ok w'" "replaced v v' w w'"
     "case res of
        Inl rc \<Rightarrow> v' = 0 \<and> rc = SG_ERROR_MALLOC \<and> error (err (wenv w')) = rc \<and> sched (wenv w) \<noteq> []
      | Inr _ \<Rightarrow> (sched (wenv w) = [] \<longrightarrow> wenv w' = wenv w) \<and>
          (\<exists>b' ys. vload v' w' = Done b' \<and> vec_ok ty ok b' \<and> contents b' = take (unat ?n) (contents b) @ map (raw_init ty) ys \<and>
             length (contents b') = unat ?n \<and> (room_for ty b \<longrightarrow> room_for ty b'))"
    using update_ok [OF w b n0 rm'] by (elim exE conjE)
  then show ?thesis
  proof (cases res)
    case (Inr uu)
    with u(4) un obtain b' ys where b': "vload v' w' = Done b'" "vec_ok ty ok b'" "contents b' = take (Suc n) (contents b) @ map (raw_init ty) ys"
        "length (contents b') = Suc n" "room_for ty b \<longrightarrow> room_for ty b'" and e: "sched (wenv w) = [] \<longrightarrow> wenv w' = wenv w"
      by auto
    with one [OF b'(3,4)] u(1-3) Inr show ?thesis by auto
  qed auto
qed

lemma last_item:
  assumes "vec_ok ty ok b" "contents b = xs @ [x]"
  shows "length xs < length (slots b)" "slots b ! length xs = x" "ok x"
    "ok y \<Longrightarrow> vec_ok ty ok (b\<lparr>slots := (slots b)[length xs := y]\<rparr>)"
    "contents (b\<lparr>slots := (slots b)[length xs := y]\<rparr>) = xs @ [y]"
proof -
  have u: "unat (used_count (hdr b)) = Suc (length xs)" using length_contents [OF assms(1)] assms(2) by simp
  show l: "length xs < length (slots b)" using assms(1) u by (simp add: vec_ok_def)
  have "take (Suc (length xs)) (slots b) = xs @ [x]" using assms(2) u by (simp add: contents_def)
  then have t: "take (length xs) (slots b) @ [slots b ! length xs] = xs @ [x]"
    by (simp add: take_Suc_conv_app_nth [OF l])
  then show "slots b ! length xs = x" by simp
  show "ok x" using vec_ok_contents [OF assms(1)] assms(2) by simp
  have "ok ((slots b)[length xs := y] ! i)" if "ok y" "i < unat (used_count (hdr b))" for i
    using that assms(1) l by (cases "i = length xs") (auto simp: vec_ok_def)
  then show "ok y \<Longrightarrow> vec_ok ty ok (b\<lparr>slots := (slots b)[length xs := y]\<rparr>)"
    using assms(1) by (simp add: vec_ok_def)
  show "contents (b\<lparr>slots := (slots b)[length xs := y]\<rparr>) = xs @ [y]"
    using t l u by (simp add: contents_def take_Suc_conv_app_nth)
qed

lemma fill_rows_ok:
  assumes "heap_ok w" "vload v w = Done b" "vec_ok ty ok b" "length (contents b) = n"
    and "room ty (n + length rs + 2 ^ 33)" "list_all row_ok rs"
  shows "\<exists>rc v' w'. fill_rows ty put rs n v w = Done (rc, v', w') \<and> heap_ok w' \<and> replaced v v' w w' \<and>
     (v' \<noteq> 0 \<longrightarrow> (\<exists>b'. vload v' w' = Done b' \<and> vec_ok ty ok b' \<and>
        (room_for ty b \<longrightarrow> room_for ty b') \<and>
        (rc = SG_ERROR_NONE \<longrightarrow> length (contents b') = n + length rs) \<and>
        (sched (wenv w) = [] \<longrightarrow> map view (contents b') = map view (contents b) @ map row rs))) \<and>
     (sched (wenv w) = [] \<longrightarrow> rc = SG_ERROR_NONE \<and> wenv w' = wenv w) \<and>
     (if rc = SG_ERROR_NONE then v' \<noteq> 0 else error (err (wenv w')) = rc)"
  using assms
proof (induction rs arbitrary: n v w b)
  case Nil
  then show ?case by (auto simp: replaced_def vload_Done_iff)
next
  case (Cons r rs)
  have rm: "room ty (Suc n + 2 ^ 33)" "room ty (Suc n + length rs + 2 ^ 33)"
    using Cons.prems(5) room_mono by fastforce+
  obtain res v1 w1 where g: "VECTOR_UPDATE v (word_of_nat n + 1) ty w = Done (res, v1, w1)" "heap_ok w1" "replaced v v1 w w1"
     "case res of
        Inl rc \<Rightarrow> v1 = 0 \<and> rc = SG_ERROR_MALLOC \<and> error (err (wenv w1)) = rc \<and> sched (wenv w) \<noteq> []
      | Inr _ \<Rightarrow> (sched (wenv w) = [] \<longrightarrow> wenv w1 = wenv w) \<and>
          (\<exists>b' x. vload v1 w1 = Done b' \<and> vec_ok ty ok b' \<and> contents b' = contents b @ [x] \<and>
             (room_for ty b \<longrightarrow> room_for ty b'))"
    using grow_ok [OF Cons.prems(1-4) rm(1)] by (elim exE conjE)
  show ?case
  proof (cases res)
    case (Inl rc)
    with g show ?thesis by auto
  next
    case (Inr uu)
    with g(4) obtain b1 x where b1: "vload v1 w1 = Done b1" "vec_ok ty ok b1" "contents b1 = contents b @ [x]"
      and e1: "sched (wenv w) = [] \<longrightarrow> wenv w1 = wenv w" and rf: "room_for ty b \<longrightarrow> room_for ty b1" by auto
    note l = last_item [OF b1(2,3)]
    obtain rc y e where p: "put r x (wenv w1) = Done (rc, y, e)" "ok y"
        "sched (wenv w1) = [] \<longrightarrow> rc = SG_ERROR_NONE \<and> e = wenv w1 \<and> view y = row r"
        "rc \<noteq> SG_ERROR_NONE \<longrightarrow> error (err e) = rc"
      using put_law [OF _ l(3), of r "wenv w1"] Cons.prems(6) by auto
    let ?b = "b1\<lparr>slots := (slots b1)[n := y]\<rparr>" and ?w = "vstore v1 (b1\<lparr>slots := (slots b1)[n := y]\<rparr>) (set_env e w1)"
    have n: "length (contents b) = n" using Cons.prems(4) .
    have b2: "vload v1 ?w = Done ?b" "vec_ok ty ok ?b" "contents ?b = contents b @ [y]"
      using l(4,5) p(2) b1(1) n by (auto simp: vload_vstore vload_Done_iff)
    have rf2: "room_for ty b \<longrightarrow> room_for ty ?b" using rf by (simp add: room_for_def)
    have st: "fill_rows ty put (r # rs) n v w =
        (if rc \<noteq> SG_ERROR_NONE then Done (rc, v1, ?w) else fill_rows ty put rs (Suc n) v1 ?w)"
      using g(1) Inr b1(1) l(1,2) n p(1) by (simp add: read_item_def write_item_def vload_set_env)
    have v1: "v1 \<noteq> 0" "blocks w1 v1 \<noteq> None" using b1(1) by (auto simp: vload_Done_iff)
    have h2: "heap_ok ?w" using g(2) v1 by (simp add: heap_ok_vstore)
    have r2: "replaced v v1 w ?w" using g(3) by (auto simp: replaced_def)
    show ?thesis
    proof (cases "rc = SG_ERROR_NONE")
      case False
      with st h2 r2 b2 rf2 p(3,4) e1 show ?thesis by auto
    next
      case True
      have "length (contents ?b) = Suc n" using b2(3) n by simp
      have rok: "list_all row_ok rs" using Cons.prems(6) by simp
      from Cons.IH [OF h2 b2(1,2) \<open>length (contents ?b) = Suc n\<close> rm(2) rok] obtain rc' v' w' where
        i: "fill_rows ty put rs (Suc n) v1 ?w = Done (rc', v', w')" "heap_ok w'" "replaced v1 v' ?w w'"
         "v' \<noteq> 0 \<longrightarrow> (\<exists>b'. vload v' w' = Done b' \<and> vec_ok ty ok b' \<and>
            (room_for ty ?b \<longrightarrow> room_for ty b') \<and>
            (rc' = SG_ERROR_NONE \<longrightarrow> length (contents b') = Suc n + length rs) \<and>
            (sched (wenv ?w) = [] \<longrightarrow> map view (contents b') = map view (contents ?b) @ map row rs))"
         "sched (wenv ?w) = [] \<longrightarrow> rc' = SG_ERROR_NONE \<and> wenv w' = wenv ?w"
         "if rc' = SG_ERROR_NONE then v' \<noteq> 0 else error (err (wenv w')) = rc'"
        by (elim exE conjE)
      have "replaced v v' w w'" by (rule replaced_trans [OF r2 i(3)]) (use v1 in simp)
      with st True i p(3) e1 b2(3) rf2 show ?thesis by auto
    qed
  qed
qed

text \<open>From NULL the first row makes the vector.\<close>

lemma fill_rows_null:
  assumes w: "heap_ok w" "sched (wenv w) = []" and rs: "rs \<noteq> []" "list_all row_ok rs" and rm: "room ty (length rs + 2 ^ 33)"
  shows "\<exists>v' b' w'. fill_rows ty put rs 0 0 w = Done (SG_ERROR_NONE, v', w') \<and> heap_ok w' \<and> wenv w' = wenv w \<and> v' \<noteq> 0 \<and>
     blocks w v' = None \<and> (\<forall>u. u \<noteq> v' \<longrightarrow> blocks w' u = blocks w u) \<and> vload v' w' = Done b' \<and> vec_ok ty ok b' \<and>
     map view (contents b') = map row rs"
proof -
  obtain r rs' where rs': "rs = r # rs'" using rs(1) by (cases rs) auto
  obtain v1 w1 b1 x where c: "VECTOR_UPDATE 0 1 ty w = Done (Inr (), v1, w1)" "heap_ok w1" "wenv w1 = wenv w" "v1 \<noteq> 0"
      "blocks w v1 = None" "blocks w1 = (blocks w)(v1 \<mapsto> b1)" "vec_ok ty ok b1" "contents b1 = [x]"
    using update_null [OF w room_mono [OF rm]] by auto
  have l: "0 < length (slots b1)" "slots b1 ! 0 = x" "ok x" "\<And>y. ok y \<Longrightarrow> vec_ok ty ok (b1\<lparr>slots := (slots b1)[0 := y]\<rparr>)"
      "\<And>y. contents (b1\<lparr>slots := (slots b1)[0 := y]\<rparr>) = [y]"
    using last_item [OF c(7), of "[]" x] c(8) by simp_all
  obtain y where p: "put r x (wenv w1) = Done (SG_ERROR_NONE, y, wenv w1)" "ok y" "view y = row r"
    using put_law [OF _ l(3), of r "wenv w1"] rs(2) rs' c(3) w(2) by auto
  let ?b = "b1\<lparr>slots := (slots b1)[0 := y]\<rparr>"
  let ?w = "vstore v1 ?b w1"
  have ld: "vload v1 w1 = Done b1" "vload v1 ?w = Done ?b" using c(4,6) by (simp_all add: vload_Done_iff vload_vstore)
  have h: "heap_ok ?w" using c(2,4,6) by (simp add: heap_ok_vstore)
  have e: "set_env (wenv w1) w1 = w1" by (simp add: set_env_def)
  have st: "fill_rows ty put rs 0 0 w = fill_rows ty put rs' 1 v1 ?w"
    unfolding rs' using c(1) ld(1) l(1,2) p(1) e by (simp add: read_item_def write_item_def)
  have "room ty (1 + length rs' + 2 ^ 33)" "list_all row_ok rs'" "length (contents ?b) = 1"
    using rm rs(2) rs' l(5) by simp_all
  from fill_rows_ok [OF h ld(2) l(4) [OF p(2)] this(3,1,2)] obtain rc v' w' where
    f: "fill_rows ty put rs' 1 v1 ?w = Done (rc, v', w')" "heap_ok w'" "replaced v1 v' ?w w'"
       "v' \<noteq> 0 \<longrightarrow> (\<exists>b'. vload v' w' = Done b' \<and> vec_ok ty ok b' \<and>
          (sched (wenv ?w) = [] \<longrightarrow> map view (contents b') = map view (contents ?b) @ map row rs'))"
       "sched (wenv ?w) = [] \<longrightarrow> rc = SG_ERROR_NONE \<and> wenv w' = wenv ?w"
       "if rc = SG_ERROR_NONE then v' \<noteq> 0 else error (err (wenv w')) = rc"
    by auto
  have e1: "wenv ?w = wenv w" using c(3) by simp
  then have rc: "rc = SG_ERROR_NONE" "v' \<noteq> 0" "wenv w' = wenv w" using f(5,6) w(2) by auto
  then obtain b' where b': "vload v' w' = Done b'" "vec_ok ty ok b'" "map view (contents b') = map row rs"
    using f(4) e1 w(2) l(5) p(3) rs' by auto
  have "blocks w v' = None" using f(3) c(5,6) by (auto simp: replaced_def split: if_splits)
  moreover have "blocks w' u = blocks w u" if "u \<noteq> v'" for u
    using that f(3) c(5,6) by (cases "u = v1") (auto simp: replaced_def)
  ultimately have "blocks w v' = None" "\<forall>u. u \<noteq> v' \<longrightarrow> blocks w' u = blocks w u" by auto
  with st f(1,2) rc b' show ?thesis by auto
qed

end

section \<open>Gathering\<close>

definition vec_at :: "'a sg_vector_init_info \<Rightarrow> ('a \<Rightarrow> bool) \<Rightarrow> addr \<Rightarrow> 'a list \<Rightarrow> 'a world \<Rightarrow> bool" where
  "vec_at ty ok v xs w \<longleftrightarrow> (\<exists>b. vload v w = Done b \<and> vec_ok ty ok b \<and> contents b = xs)"

lemma vec_at_frame: "vec_at ty ok v xs w \<Longrightarrow> blocks w' v = blocks w v \<Longrightarrow> vec_at ty ok v xs w'"
  by (auto simp: vec_at_def vload_Done_iff)

lemma vec_at_nonnull: "vec_at ty ok v xs w \<Longrightarrow> v \<noteq> 0 \<and> blocks w v \<noteq> None"
  by (auto simp: vec_at_def vload_Done_iff)

lemma vec_at_count: "vec_at ty ok v xs w \<Longrightarrow> \<exists>n. VECTOR_ITEM_COUNT v w = Done n \<and> unat n = length xs"
  by (auto simp: vec_at_def VECTOR_ITEM_COUNT_def vload_Done_iff length_contents vload_def)

lemma vec_at_clear_error [simp]: "vec_at ty ok v xs (clear_error w) = vec_at ty ok v xs w"
  by (simp add: vec_at_def clear_error_def vload_set_env)

lemma vec_at_ok: "vec_at ty ok v xs w \<Longrightarrow> x \<in> set xs \<Longrightarrow> ok x"
  using vec_ok_contents by (fastforce simp: vec_at_def)

text \<open>A vector that can be copied without exhausting the address space.\<close>

definition roomy :: "'a sg_vector_init_info \<Rightarrow> addr \<Rightarrow> 'a world \<Rightarrow> bool" where
  "roomy ty v w \<longleftrightarrow> (\<forall>b. blocks w v = Some b \<longrightarrow> room_for ty b)"

lemma roomy_clear_error [simp]: "roomy ty v (clear_error w) = roomy ty v w"
  by (simp add: roomy_def)

text \<open>
  \<open>reading\<close> is what the system reports, seen as items, or \<open>None\<close> when it cannot be read. The laws are
  promised for readings that fit into the address space; \<open>anymem\<close> says whether they also hold when the
  allocator fails.
\<close>

locale multi_source = vec_items ty ok
  for ty :: "'a sg_vector_init_info" and ok :: "'a \<Rightarrow> bool" +
  fixes view :: "'a \<Rightarrow> 'v" and fn_int :: "'a multi_int" and reading :: "'v list option" and feasible :: bool
    and anymem :: bool
  assumes fits: "room ty (16 + 2 ^ 32)"
    and fill_law: "feasible \<Longrightarrow> heap_ok w \<Longrightarrow> vec_at ty ok v [] w \<Longrightarrow> anymem \<or> sched (wenv w) = [] \<Longrightarrow>
      \<exists>rc v' w'. fn_int v w = Done (rc, v', w') \<and> heap_ok w' \<and> replaced v v' w w' \<and>
       (v' \<noteq> 0 \<longrightarrow> (\<exists>xs. vec_at ty ok v' xs w' \<and> (roomy ty v w \<longrightarrow> roomy ty v' w') \<and>
          (rc = SG_ERROR_NONE \<longrightarrow> (\<exists>vs. reading = Some vs \<and> length xs = length vs)) \<and>
          (rc = SG_ERROR_NONE \<and> sched (wenv w) = [] \<longrightarrow> reading = Some (map view xs)))) \<and>
       (sched (wenv w) = [] \<longrightarrow> (rc = SG_ERROR_NONE \<longleftrightarrow> reading \<noteq> None) \<and> sched (wenv w') = []) \<and>
       (if rc = SG_ERROR_NONE then v' \<noteq> 0 else error (err (wenv w')) = rc)"
begin

lemma create_16:
  assumes "heap_ok w"
  shows "\<exists>v w'. VECTOR_CREATE ty 16 w = Done (v, w') \<and> heap_ok w' \<and> (sched (wenv w) = [] \<longrightarrow> v \<noteq> 0 \<and> sched (wenv w') = []) \<and>
     (v = 0 \<and> blocks w' = blocks w \<and> error (err (wenv w')) = SG_ERROR_MALLOC \<or>
      v = next_addr w \<and> (\<forall>u. u \<noteq> v \<longrightarrow> blocks w' u = blocks w u) \<and> vec_at ty ok v [] w' \<and> roomy ty v w')"
proof -
  have c: "VECTOR_CREATE ty 16 w = sg_vector_create_int 4 16 0 ty w"
    by (simp add: VECTOR_CREATE_def sg_vector_create_def block_shift_loop.simps)
  have "room ty (rounded (unat (max 16 0 :: size_t)) (unat (4 :: size_t)))"
    by (intro room_mono [OF fits]) (simp add: rounded_def)
  from create_int_len [OF assms _ _ this] obtain v w' where
    "sg_vector_create_int 4 16 0 ty w = Done (v, w')" "heap_ok w'"
    "v = 0 \<and> blocks w' = blocks w \<and> error (err (wenv w')) = SG_ERROR_MALLOC \<and> sched (wenv w) \<noteq> [] \<or>
      v = next_addr w \<and> (sched (wenv w) = [] \<longrightarrow> wenv w' = wenv w) \<and>
      (\<exists>b. blocks w' = (blocks w)(v \<mapsto> b) \<and> vec_ok ty ok b \<and> contents b = [] \<and> length (slots b) = 16)"
    by (auto simp: rounded_def)
  moreover have "next_addr w \<noteq> 0" using assms by (simp add: heap_ok_def)
  ultimately show ?thesis using c fits by (fastforce simp: vec_at_def vload_def roomy_def room_for_def)
qed

lemma open_ok:
  assumes w: "heap_ok w" and g: "g idx = 0 \<or> vec_at ty ok (g idx) ys w"
  shows "\<exists>v w1. open_many ty idx g w = Done (g(idx := v), w1) \<and> heap_ok w1 \<and> (g idx \<noteq> 0 \<longrightarrow> v = g idx) \<and>
      (g idx = 0 \<longrightarrow> v = 0 \<or> blocks w v = None) \<and> (\<forall>u. u \<noteq> v \<longrightarrow> blocks w1 u = blocks w u) \<and>
      (sched (wenv w) = [] \<longrightarrow> v \<noteq> 0 \<and> sched (wenv w1) = []) \<and>
      (if v = 0 then error (err (wenv w1)) = SG_ERROR_MALLOC else vec_at ty ok v [] w1 \<and> ((g idx = 0 \<or> roomy ty (g idx) w) \<longrightarrow> roomy ty v w1))"
proof (cases "g idx = 0")
  case True
  obtain v w1 where c: "VECTOR_CREATE ty 16 w = Done (v, w1)" "heap_ok w1" "sched (wenv w) = [] \<longrightarrow> v \<noteq> 0 \<and> sched (wenv w1) = []" and
    alt: "v = 0 \<and> blocks w1 = blocks w \<and> error (err (wenv w1)) = SG_ERROR_MALLOC \<or>
      v = next_addr w \<and> (\<forall>u. u \<noteq> v \<longrightarrow> blocks w1 u = blocks w u) \<and> vec_at ty ok v [] w1 \<and> roomy ty v w1"
    using create_16 [OF w] by (elim exE conjE)
  with True show ?thesis unfolding open_many_def
    using heap_ok_fresh [OF w] vec_at_nonnull [of ty ok v "[]" w1] by (intro exI [of _ v] exI [of _ w1]) auto
next
  case False
  with g obtain b where b: "vload (g idx) w = Done b" "vec_ok ty ok b" by (auto simp: vec_at_def)
  then obtain b' where "sg_vector_clear (g idx) w = Done (vstore (g idx) b' w)" "vec_ok ty ok b'" "contents b' = []"
      "length (slots b') = length (slots b)"
    using clear_block by blast
  moreover from this False have "vec_at ty ok (g idx) [] (vstore (g idx) b' w)"
    by (auto simp: vec_at_def vload_vstore)
  moreover have "heap_ok (vstore (g idx) b' w)" using w b(1) by (simp add: heap_ok_vstore vload_Done_iff)
  moreover have "roomy ty (g idx) w \<longrightarrow> roomy ty (g idx) (vstore (g idx) b' w)"
    using calculation(4) b(1) by (auto simp: roomy_def room_for_def vload_Done_iff)
  ultimately show ?thesis unfolding open_many_def
    using False by (intro exI [of _ "g idx"] exI [of _ "vstore (g idx) b' w"]) auto
qed

text \<open>The snapshot of the thread: gathered into its vector, which is created or emptied first.\<close>

lemma access_ok:
  assumes f: feasible and w: "heap_ok w" and g: "g idx = 0 \<or> vec_at ty ok (g idx) ys w" and am: "anymem \<or> sched (wenv w) = []"
  shows "\<exists>p n g' w'. MULTI_COMP_ACCESS ty fn_int idx (Some g) w = Done ((p, n), Some g', w') \<and> heap_ok w' \<and>
     (\<forall>j. j \<noteq> idx \<longrightarrow> g' j = g j) \<and> (\<forall>u. u \<noteq> g idx \<and> u \<noteq> g' idx \<longrightarrow> blocks w' u = blocks w u) \<and>
     (g' idx = 0 \<or> g' idx = g idx \<or> blocks w (g' idx) = None) \<and> (g' idx \<noteq> g idx \<longrightarrow> blocks w' (g idx) = None) \<and>
     (g' idx \<noteq> 0 \<longrightarrow> (\<exists>xs. vec_at ty ok (g' idx) xs w') \<and> (g idx = 0 \<or> roomy ty (g idx) w \<longrightarrow> roomy ty (g' idx) w')) \<and>
     (sched (wenv w) = [] \<longrightarrow> (p \<noteq> 0 \<longleftrightarrow> reading \<noteq> None) \<and> sched (wenv w') = []) \<and>
     (if p = 0 then n = 0 \<and> error (err (wenv w')) \<noteq> SG_ERROR_NONE
      else p = g' idx \<and> error (err (wenv w')) = SG_ERROR_NONE \<and>
        (\<exists>xs vs. vec_at ty ok p xs w' \<and> unat n = length xs \<and> reading = Some vs \<and> length xs = length vs \<and>
          (sched (wenv w) = [] \<longrightarrow> map view xs = vs)))"
proof -
  obtain v w1 where m: "open_many ty idx g w = Done (g(idx := v), w1)" "heap_ok w1" "g idx \<noteq> 0 \<longrightarrow> v = g idx"
      "g idx = 0 \<longrightarrow> v = 0 \<or> blocks w v = None" "\<forall>u. u \<noteq> v \<longrightarrow> blocks w1 u = blocks w u"
      "sched (wenv w) = [] \<longrightarrow> v \<noteq> 0 \<and> sched (wenv w1) = []"
      "if v = 0 then error (err (wenv w1)) = SG_ERROR_MALLOC
       else vec_at ty ok v [] w1 \<and> ((g idx = 0 \<or> roomy ty (g idx) w) \<longrightarrow> roomy ty v w1)"
    using open_ok [of w g idx, OF w g] by (elim exE conjE)
  show ?thesis
  proof (cases "v = 0")
    case True
    then have "MULTI_COMP_ACCESS ty fn_int idx (Some g) w = Done ((0, 0), Some (g(idx := v)), w1)"
      using m(1) by (simp add: MULTI_COMP_ACCESS_def)
    with True m show ?thesis by auto
  next
    case False
    then have v: "vec_at ty ok v [] w1" and ry: "g idx = 0 \<or> roomy ty (g idx) w \<longrightarrow> roomy ty v w1" using m(7) by auto
    obtain rc v' w2 where k: "fn_int v w1 = Done (rc, v', w2)" "heap_ok w2" "replaced v v' w1 w2" and
       xs: "v' \<noteq> 0 \<longrightarrow> (\<exists>xs. vec_at ty ok v' xs w2 \<and> (roomy ty v w1 \<longrightarrow> roomy ty v' w2) \<and>
          (rc = SG_ERROR_NONE \<longrightarrow> (\<exists>vs. reading = Some vs \<and> length xs = length vs)) \<and>
          (rc = SG_ERROR_NONE \<and> sched (wenv w1) = [] \<longrightarrow> reading = Some (map view xs)))" and
       sc: "sched (wenv w1) = [] \<longrightarrow> (rc = SG_ERROR_NONE \<longleftrightarrow> reading \<noteq> None) \<and> sched (wenv w2) = []" and
       er: "if rc = SG_ERROR_NONE then v' \<noteq> 0 else error (err (wenv w2)) = rc"
      using fill_law [OF f m(2) v] am m(6) by blast
    have go: "MULTI_COMP_ACCESS ty fn_int idx (Some g) w =
        (if rc = SG_ERROR_NONE
         then andthen (VECTOR_ITEM_COUNT v' w2) (\<lambda>n. Done ((v', n), Some (g(idx := v')), clear_error w2))
         else Done ((0, 0), Some (g(idx := v')), w2))"
      using m(1) k(1) False by (simp add: MULTI_COMP_ACCESS_def)
    have fr: "\<forall>u. u \<noteq> g idx \<and> u \<noteq> v' \<longrightarrow> blocks w2 u = blocks w u"
    proof (intro allI impI)
      fix u assume u: "u \<noteq> g idx \<and> u \<noteq> v'"
      show "blocks w2 u = blocks w u"
        using u k(3) m(3,4,5) False by (cases "u = v") (auto simp: replaced_def)
    qed
    have nw: "v' = 0 \<or> v' = g idx \<or> blocks w v' = None"
      using k(3) m(3,4,5) False by (cases "v' = v") (auto simp: replaced_def)
    have gone: "v' \<noteq> g idx \<longrightarrow> blocks w2 (g idx) = None"
      using k(2,3) m(3) by (cases "g idx = 0") (auto simp: replaced_def heap_ok_def)
    show ?thesis
    proof (cases "rc = SG_ERROR_NONE")
      case True
      with er xs obtain xs vs where x: "vec_at ty ok v' xs w2" "reading = Some vs" "length xs = length vs"
          "sched (wenv w1) = [] \<longrightarrow> map view xs = vs" "roomy ty v w1 \<longrightarrow> roomy ty v' w2" and v': "v' \<noteq> 0" by auto
      obtain n where n: "VECTOR_ITEM_COUNT v' w2 = Done n" "unat n = length xs" using vec_at_count [OF x(1)] by blast
      have "MULTI_COMP_ACCESS ty fn_int idx (Some g) w = Done ((v', n), Some (g(idx := v')), clear_error w2)"
        using go True n(1) by simp
      with x n(2) v' fr nw gone k(2) sc m(6) ry show ?thesis by auto
    next
      case rc: False
      then have "MULTI_COMP_ACCESS ty fn_int idx (Some g) w = Done ((0, 0), Some (g(idx := v')), w2)"
        using go by simp
      with rc er xs fr nw gone k(2) sc m(6) ry show ?thesis by auto
    qed
  qed
qed

end

section \<open>Readers of rows\<close>

context row_items
begin

text \<open>A function that fills rows meets the law of a source, as long as the rows fit.\<close>

lemma rows_law:
  assumes "room ty (length rs + 2 ^ 33)" "list_all row_ok rs" and w: "heap_ok w" and v: "vec_at ty ok v [] w"
  shows "\<exists>rc v' w'. fill_rows ty put rs 0 v w = Done (rc, v', w') \<and> heap_ok w' \<and> replaced v v' w w' \<and>
       (v' \<noteq> 0 \<longrightarrow> (\<exists>xs. vec_at ty ok v' xs w' \<and> (roomy ty v w \<longrightarrow> roomy ty v' w') \<and>
          (rc = SG_ERROR_NONE \<longrightarrow> (\<exists>vs. Some (map row rs) = Some vs \<and> length xs = length vs)) \<and>
          (rc = SG_ERROR_NONE \<and> sched (wenv w) = [] \<longrightarrow> Some (map row rs) = Some (map view xs)))) \<and>
       (sched (wenv w) = [] \<longrightarrow> (rc = SG_ERROR_NONE \<longleftrightarrow> Some (map row rs) \<noteq> None) \<and> sched (wenv w') = []) \<and>
       (if rc = SG_ERROR_NONE then v' \<noteq> 0 else error (err (wenv w')) = rc)"
proof -
  obtain b where b: "vload v w = Done b" "vec_ok ty ok b" "contents b = []" using v by (auto simp: vec_at_def)
  have n: "length (contents b) = 0" using b(3) by simp
  have rm: "room ty (0 + length rs + 2 ^ 33)" using assms(1) by simp
  obtain rc v' w' where f: "fill_rows ty put rs 0 v w = Done (rc, v', w')" "heap_ok w'" "replaced v v' w w'" and
     x: "v' \<noteq> 0 \<longrightarrow> (\<exists>b'. vload v' w' = Done b' \<and> vec_ok ty ok b' \<and> (room_for ty b \<longrightarrow> room_for ty b') \<and>
        (rc = SG_ERROR_NONE \<longrightarrow> length (contents b') = 0 + length rs) \<and>
        (sched (wenv w) = [] \<longrightarrow> map view (contents b') = map view (contents b) @ map row rs))" and
     e: "sched (wenv w) = [] \<longrightarrow> rc = SG_ERROR_NONE \<and> wenv w' = wenv w" and
     r: "if rc = SG_ERROR_NONE then v' \<noteq> 0 else error (err (wenv w')) = rc"
    using fill_rows_ok [OF w b(1,2) n rm assms(2)] by (elim exE conjE)
  have "v' \<noteq> 0 \<longrightarrow> (\<exists>xs. vec_at ty ok v' xs w' \<and> (roomy ty v w \<longrightarrow> roomy ty v' w') \<and>
          (rc = SG_ERROR_NONE \<longrightarrow> length xs = length rs) \<and> (sched (wenv w) = [] \<longrightarrow> map row rs = map view xs))"
  proof
    assume "v' \<noteq> 0"
    with x obtain b' where b': "vload v' w' = Done b'" "vec_ok ty ok b'" "room_for ty b \<longrightarrow> room_for ty b'"
        "rc = SG_ERROR_NONE \<longrightarrow> length (contents b') = length rs" "sched (wenv w) = [] \<longrightarrow> map view (contents b') = map row rs"
      using b(3) by auto
    then have "vec_at ty ok v' (contents b') w'" "roomy ty v w \<longrightarrow> roomy ty v' w'"
      using b(1) by (auto simp: vec_at_def roomy_def vload_Done_iff)
    with b'(4,5) show "\<exists>xs. vec_at ty ok v' xs w' \<and> (roomy ty v w \<longrightarrow> roomy ty v' w') \<and>
          (rc = SG_ERROR_NONE \<longrightarrow> length xs = length rs) \<and> (sched (wenv w) = [] \<longrightarrow> map row rs = map view xs)" by metis
  qed
  with f e r show ?thesis by auto
qed

end

section \<open>Differences\<close>

locale multi_diff = diff_items ty ok view full key sub + multi_source ty ok view fn_int reading feasible anymem
  for ty :: "'a sg_vector_init_info" and ok :: "'a \<Rightarrow> bool" and view :: "'a \<Rightarrow> 'v"
    and full :: "'v \<Rightarrow> bool" and key :: "'v \<Rightarrow> 'k" and sub :: "'v \<Rightarrow> 'v \<Rightarrow> 'v"
    and fn_int :: "'a multi_int" and reading :: "'v list option" and feasible :: bool and anymem :: bool +
  assumes reading_full: "reading = Some vs \<Longrightarrow> x \<in> set vs \<Longrightarrow> full x"
begin

text \<open>
  The difference to the previous snapshot, when memory suffices and neither snapshot is empty: the
  thread's snapshot becomes the new reading and the result the reading minus the old snapshot. The
  thread owns \<open>n\<close> vectors before and after, and the temporary copy of the old snapshot is gone.
\<close>

lemma make_diff_ok:
  assumes w: "heap_ok w" and now: "vec_at ty ok (g nowidx) xs w" "roomy ty (g nowidx) w"
    and xs: "xs \<noteq> []" "length xs \<le> 2 ^ 31" and df: "g diffidx = 0 \<or> vec_at ty ok (g diffidx) ds w"
    and ne: "nowidx \<noteq> diffidx" "g diffidx \<noteq> g nowidx" and sc: "sched (wenv w) = []"
  shows "\<exists>d w1. (if g diffidx = 0
        then andthen (vload (g nowidx) w) (\<lambda>b.
               andthen (VECTOR_CREATE ty (used_count (hdr b)) w) (\<lambda>(v, w). Done (g(diffidx := v), w)))
        else Done (g, w)) = Done (g(diffidx := d), w1) \<and> heap_ok w1 \<and> wenv w1 = wenv w \<and> d \<noteq> g nowidx \<and>
     (g diffidx = 0 \<or> d = g diffidx) \<and> (\<forall>u. u \<noteq> d \<longrightarrow> blocks w1 u = blocks w u) \<and> (\<exists>ds. vec_at ty ok d ds w1)"
proof (cases "g diffidx = 0")
  case False
  with df w ne show ?thesis by (intro exI [of _ "g diffidx"] exI [of _ w]) auto
next
  case True
  obtain b where b: "vload (g nowidx) w = Done b" "vec_ok ty ok b" "contents b = xs" using now(1) by (auto simp: vec_at_def)
  let ?u = "used_count (hdr b)"
  have u: "unat ?u = length xs" using length_contents [OF b(2)] b(3) by simp
  then have u0: "max ?u 0 \<noteq> 0" using xs(1) by (auto simp: max_def)
  have mu: "max ?u 0 = ?u" by (simp add: max_def)
  obtain r where r: "block_shift_loop ?u 0 = Done r" "r \<le> 31"
    using block_shift_loop_correct [of ?u 0] u xs(2) by auto
  have ur: "unat (word_of_nat r :: size_t) = r" using r(2) by (intro unat_of_nat_size) simp
  have "(2::nat) ^ r \<le> 2 ^ 32" using r(2) by (intro power_increasing) auto
  then have "rounded (unat ?u) r \<le> length (slots b) + 2 ^ 32"
    using rounded_less [of "unat ?u" r] u xs(1) b(2) by (simp add: vec_ok_def)
  moreover have "room_for ty b" using now(2) b(1) by (auto simp: roomy_def vload_Done_iff)
  ultimately have rm: "room ty (rounded (unat (max ?u 0)) (unat (word_of_nat r :: size_t)))"
    unfolding mu ur room_for_def using room_mono by blast
  have c: "VECTOR_CREATE ty ?u w = sg_vector_create_int (word_of_nat r) ?u 0 ty w"
    using r(1) by (simp add: VECTOR_CREATE_def sg_vector_create_def)
  from create_int_ok [OF w _ u0 rm] sc ur r(2) obtain v w1 b1 where
    v: "VECTOR_CREATE ty ?u w = Done (v, w1)" "heap_ok w1" "v = next_addr w" "wenv w1 = wenv w"
      "blocks w1 = (blocks w)(v \<mapsto> b1)" "vec_ok ty ok b1"
    unfolding c by auto
  have vn: "v \<noteq> 0" "v \<noteq> g nowidx" using w v(3) b(1) by (auto simp: heap_ok_def vload_Done_iff)
  then have "vec_at ty ok v (contents b1) w1" using v by (auto simp: vec_at_def vload_Done_iff)
  with True b(1) v vn show ?thesis by (intro exI [of _ v] exI [of _ w1]) auto
qed

lemma gather_ok:
  fixes g :: glob
  assumes f: feasible and w1: "heap_ok w1" and n1: "vec_at ty ok (g nowidx) xs w1" "roomy ty (g nowidx) w1"
    and d: "vec_at ty ok (g diffidx) ds w1" "g diffidx \<noteq> g nowidx"
    and ne: "nowidx \<noteq> diffidx" and sc: "sched (wenv w1) = []" and rd: "reading = Some vs"
  shows "\<exists>lst w2 bl p n g' w3 cur. sg_vector_clone (g nowidx) w1 = Done (lst, w2) \<and> lst \<noteq> 0 \<and> blocks w1 lst = None \<and>
     MULTI_COMP_ACCESS ty fn_int nowidx (Some g) w2 = Done ((p, n), Some g', w3) \<and> heap_ok w3 \<and> sched (wenv w3) = [] \<and>
     g' diffidx = g diffidx \<and> g' nowidx \<noteq> g diffidx \<and> g' nowidx \<noteq> lst \<and>
     (\<forall>u. u \<noteq> lst \<and> u \<noteq> g' nowidx \<and> blocks w3 u \<noteq> None \<longrightarrow> blocks w3 u = blocks w1 u) \<and>
     vec_at ty ok (g diffidx) ds w3 \<and>
     vload lst w3 = Done bl \<and> vec_ok ty ok bl \<and> map view (contents bl) = map view xs \<and>
     vec_at ty ok (g' nowidx) cur w3 \<and> map view cur = vs \<and> roomy ty (g' nowidx) w3"
proof -
  obtain b where b: "vload (g nowidx) w1 = Done b" "vec_ok ty ok b" "contents b = xs" using n1(1) by (auto simp: vec_at_def)
  have rb: "room_for ty b" using n1(2) b(1) by (simp add: roomy_def vload_Done_iff)
  have nn: "g nowidx \<noteq> 0" "g diffidx \<noteq> 0" "blocks w1 (g diffidx) \<noteq> None" "blocks w1 (g nowidx) \<noteq> None"
    using vec_at_nonnull n1(1) d(1) by blast+
  obtain lst w2 bl where l: "sg_vector_clone (g nowidx) w1 = Done (lst, w2)" "heap_ok w2" "lst \<noteq> 0" "wenv w2 = wenv w1"
      "lst = next_addr w1" "blocks w2 = (blocks w1)(lst \<mapsto> bl)" "vec_ok ty ok bl" "map view (contents bl) = map view xs"
    using clone_ok [OF w1 b(1,2) rb] sc b(3) by auto
  have fresh: "blocks w1 lst = None" "lst \<noteq> g diffidx" "lst \<noteq> g nowidx"
    using heap_ok_fresh [OF w1] l(5) nn by auto
  have n2: "vec_at ty ok (g nowidx) xs w2" using n1(1) fresh l(6) by (auto intro: vec_at_frame)
  have sc2: "sched (wenv w2) = []" using sc l(4) by simp
  have acc: "g nowidx = 0 \<or> vec_at ty ok (g nowidx) xs w2" using n2 by blast
  have am: "anymem \<or> sched (wenv w2) = []" using sc2 by simp
  obtain p n g' w3 where a: "MULTI_COMP_ACCESS ty fn_int nowidx (Some g) w2 = Done ((p, n), Some g', w3)" "heap_ok w3"
     "\<forall>j. j \<noteq> nowidx \<longrightarrow> g' j = g j" "\<forall>u. u \<noteq> g nowidx \<and> u \<noteq> g' nowidx \<longrightarrow> blocks w3 u = blocks w2 u"
     "g' nowidx = 0 \<or> g' nowidx = g nowidx \<or> blocks w2 (g' nowidx) = None"
     "g' nowidx \<noteq> g nowidx \<longrightarrow> blocks w3 (g nowidx) = None" and
     ry: "g' nowidx \<noteq> 0 \<longrightarrow> (\<exists>xs. vec_at ty ok (g' nowidx) xs w3) \<and> (g nowidx = 0 \<or> roomy ty (g nowidx) w2 \<longrightarrow> roomy ty (g' nowidx) w3)" and
     s3: "sched (wenv w2) = [] \<longrightarrow> (p \<noteq> 0 \<longleftrightarrow> reading \<noteq> None) \<and> sched (wenv w3) = []" and
     res: "if p = 0 then n = 0 \<and> error (err (wenv w3)) \<noteq> SG_ERROR_NONE
      else p = g' nowidx \<and> error (err (wenv w3)) = SG_ERROR_NONE \<and>
        (\<exists>xs vs. vec_at ty ok p xs w3 \<and> unat n = length xs \<and> reading = Some vs \<and> length xs = length vs \<and>
          (sched (wenv w2) = [] \<longrightarrow> map view xs = vs))"
    using access_ok [of w2 g nowidx xs, OF f l(2) acc am] by (elim exE conjE)
  have p0: "p \<noteq> 0" using s3 sc2 rd by simp
  have pr: "p = g' nowidx" "\<exists>xs vs. vec_at ty ok p xs w3 \<and> unat n = length xs \<and> reading = Some vs \<and>
      length xs = length vs \<and> (sched (wenv w2) = [] \<longrightarrow> map view xs = vs)"
    using res unfolding if_not_P [OF p0] by blast+
  obtain cur where cur: "vec_at ty ok (g' nowidx) cur w3" "map view cur = vs"
    using pr(2) sc2 rd unfolding pr(1) by blast
  have gd: "g' diffidx = g diffidx" using a(3) ne by auto
  have sep: "g' nowidx \<noteq> g diffidx" "g' nowidx \<noteq> lst"
    using a(5) p0 pr(1) nn(3) fresh l(6) d(2) by auto
  have keep: "blocks w3 u = blocks w2 u" if "u \<noteq> g nowidx" "u \<noteq> g' nowidx" for u using a(4) that by simp
  have kl: "vload lst w3 = Done bl" "vec_at ty ok (g diffidx) ds w3"
    using keep [of lst] keep [of "g diffidx"] fresh sep d(2) l(3,6) vec_at_frame [OF d(1), of w3]
    by (auto simp: vload_Done_iff)
  have fr: "\<forall>u. u \<noteq> lst \<and> u \<noteq> g' nowidx \<and> blocks w3 u \<noteq> None \<longrightarrow> blocks w3 u = blocks w1 u"
  proof (intro allI impI)
    fix u assume u: "u \<noteq> lst \<and> u \<noteq> g' nowidx \<and> blocks w3 u \<noteq> None"
    then have "u \<noteq> g nowidx" using a(6) by auto
    with u keep [of u] l(6) show "blocks w3 u = blocks w1 u" by simp
  qed
  have "roomy ty (g nowidx) w2" using n1(2) fresh l(6) by (simp add: roomy_def)
  then have "roomy ty (g' nowidx) w3" using ry p0 pr(1) by simp
  with l a(1,2) s3 sc2 gd sep fr kl cur fresh(1) show ?thesis by blast
qed

lemma diff_ok:
  assumes f: feasible and w: "heap_ok w" and now: "vec_at ty ok (g nowidx) xs w" "roomy ty (g nowidx) w"
    and xs: "xs \<noteq> []" "length xs \<le> 2 ^ 31" and df: "g diffidx = 0 \<or> vec_at ty ok (g diffidx) ds w"
    and ne: "nowidx \<noteq> diffidx" "g diffidx \<noteq> g nowidx" and sc: "sched (wenv w) = []"
    and full: "\<forall>x \<in> set xs. full (view x)" and rd: "reading = Some vs" "vs \<noteq> []"
  shows "\<exists>p n g' w' cur res. MULTI_COMP_DIFF ty (MULTI_COMP_ACCESS ty fn_int nowidx) diffidx nowidx (Some g) w =
       Done ((p, n), Some g', w') \<and> heap_ok w' \<and> p = g' diffidx \<and> p \<noteq> g' nowidx \<and>
     error (err (wenv w')) = SG_ERROR_NONE \<and>
     vec_at ty ok (g' nowidx) cur w' \<and> roomy ty (g' nowidx) w' \<and> map view cur = vs \<and>
     vec_at ty ok p res w' \<and> map view res = diff_spec key sub (map view xs) vs \<and> unat n = length res \<and>
     (\<forall>u. blocks w' u \<noteq> None \<longrightarrow> u = g' diffidx \<or> u = g' nowidx \<or> blocks w' u = blocks w u)"
proof -
  obtain d w1 ds' where m: "(if g diffidx = 0
        then andthen (vload (g nowidx) w) (\<lambda>b.
               andthen (VECTOR_CREATE ty (used_count (hdr b)) w) (\<lambda>(v, w). Done (g(diffidx := v), w)))
        else Done (g, w)) = Done (g(diffidx := d), w1)" "heap_ok w1" "wenv w1 = wenv w" "d \<noteq> g nowidx"
      "g diffidx = 0 \<or> d = g diffidx"
      "\<forall>u. u \<noteq> d \<longrightarrow> blocks w1 u = blocks w u" "vec_at ty ok d ds' w1"
    using make_diff_ok [of w g nowidx xs diffidx ds, OF w now xs df ne sc] by (elim exE conjE)
  let ?g = "g(diffidx := d)"
  have gi: "?g nowidx = g nowidx" "?g diffidx = d" using ne(1) by auto
  have "blocks w1 (g nowidx) = blocks w (g nowidx)" using m(4,6) by simp
  then have n1: "vec_at ty ok (?g nowidx) xs w1" "roomy ty (?g nowidx) w1"
    unfolding gi using now vec_at_frame by (auto simp: roomy_def)
  have d1: "vec_at ty ok (?g diffidx) ds' w1" "?g diffidx \<noteq> ?g nowidx" "sched (wenv w1) = []" unfolding gi using m sc by simp_all
  have nz: "g nowidx \<noteq> 0" "d \<noteq> 0" using vec_at_nonnull n1(1) m(7) gi by metis+
  obtain lst w2 bl p n g' w3 cur where l: "sg_vector_clone (?g nowidx) w1 = Done (lst, w2)" "lst \<noteq> 0" "blocks w1 lst = None"
     "MULTI_COMP_ACCESS ty fn_int nowidx (Some ?g) w2 = Done ((p, n), Some g', w3)" "heap_ok w3" "sched (wenv w3) = []"
     "g' diffidx = ?g diffidx" "g' nowidx \<noteq> ?g diffidx" "g' nowidx \<noteq> lst"
     "\<forall>u. u \<noteq> lst \<and> u \<noteq> g' nowidx \<and> blocks w3 u \<noteq> None \<longrightarrow> blocks w3 u = blocks w1 u"
     "vec_at ty ok (?g diffidx) ds' w3"
     "vload lst w3 = Done bl" "vec_ok ty ok bl" "map view (contents bl) = map view xs"
     "vec_at ty ok (g' nowidx) cur w3" "map view cur = vs" "roomy ty (g' nowidx) w3"
    using gather_ok [of w1 ?g nowidx xs diffidx ds' vs, OF f m(2) n1 d1(1,2) ne(1) d1(3) rd(1)] by (elim exE conjE)
  obtain bc where bc: "vload (g' nowidx) w3 = Done bc" "vec_ok ty ok bc" "contents bc = cur" using l(15) by (auto simp: vec_at_def)
  have rbc: "room_for ty bc" using l(17) bc(1) by (simp add: roomy_def vload_Done_iff)
  obtain bd where bd: "vload d w3 = Done bd" "vec_ok ty ok bd" using l(11) gi(2) by (auto simp: vec_at_def)
  have ld: "g' diffidx = d" "d \<noteq> lst" using l(3,7) m(7) vec_at_nonnull gi(2) by metis+
  have ucur: "used_count (hdr bc) \<noteq> 0" using length_contents [OF bc(2)] bc(3) l(16) rd(2) by auto
  have tg: "clone_target ty ok (g' diffidx) (g' nowidx) bc w3"
    using bd l(6,8) ucur ld gi(2) by (auto simp: clone_target_def)
  have fl: "\<forall>x \<in> set (contents bc) \<union> set (contents bl). full (view x)"
  proof -
    have "view ` set (contents bl) = view ` set xs" using l(14) by (metis set_map)
    moreover have "view ` set cur = set vs" using l(16) by (metis set_map)
    ultimately show ?thesis using full reading_full [OF rd(1)] bc(3) by (metis UnE image_iff)
  qed
  have dl: "g' diffidx \<noteq> lst" using ld by simp
  obtain r w4 b' where c: "sg_vector_compute_diff (Some (g' diffidx)) (g' nowidx) lst w3 = Done (SG_ERROR_NONE, Some r, w4)"
      "heap_ok w4" "r \<noteq> 0" "r \<noteq> g' nowidx" "r \<noteq> lst" "blocks w4 = (blocks w3)(d := None, r \<mapsto> b')" "vec_ok ty ok b'"
      "map view (contents b') = diff_spec key sub (map view xs) vs"
    using compute_diff_ok [OF l(5) bc(1) l(12) dl bc(2) l(13) rbc tg fl] ld(1) l(6,14,16) bc(3) by auto
  have bl4: "vload lst w4 = Done bl" using c(5,6) l(12) ld(2) by (simp add: vload_Done_iff)
  let ?w = "w4\<lparr>blocks := (blocks w4)(lst := None)\<rparr>" and ?g' = "g'(diffidx := r)"
  have fr: "sg_vector_free lst w4 = Done ?w" by (rule free_block [OF bl4 l(13)])
  have at: "vec_at ty ok r (contents b') ?w" using c(3,5,6,7) by (auto simp: vec_at_def vload_Done_iff)
  obtain k where k: "VECTOR_ITEM_COUNT r ?w = Done k" "unat k = length (contents b')" using vec_at_count [OF at] by blast
  have run: "MULTI_COMP_DIFF ty (MULTI_COMP_ACCESS ty fn_int nowidx) diffidx nowidx (Some g) w =
      Done ((r, k), Some ?g', clear_error ?w)"
    unfolding MULTI_COMP_DIFF_def using nz m(1) l(1,2,4) c(1) fr k(1) ne(1) by (simp add: Let_def)
  have gi': "?g' diffidx = r" "?g' nowidx = g' nowidx" using ne(1) by auto
  have "blocks ?w (g' nowidx) = blocks w3 (g' nowidx)" using c(4,6) l(8,9) gi(2) by simp
  then have kn: "vec_at ty ok (?g' nowidx) cur ?w" "roomy ty (?g' nowidx) ?w"
    unfolding gi' using l(15,17) vec_at_frame [of ty ok "g' nowidx" cur w3 ?w] by (auto simp: roomy_def)
  have others: "u = r \<or> u = g' nowidx \<or> blocks ?w u = blocks w u" if "blocks ?w u \<noteq> None" for u
    using that c(6) l(10) m(6) by (cases "u = lst"; cases "u = r"; cases "u = d") auto
  have "heap_ok (clear_error ?w)" using heap_ok_free [OF c(2), of lst] by simp
  with run kn at k(2) c(4,8) l(16) others gi' show ?thesis
    by (intro exI [of _ r] exI [of _ k] exI [of _ ?g'] exI [of _ "clear_error ?w"] exI [of _ cur] exI [of _ "contents b'"]) simp
qed

end

end
