(* ===== verification/C_Scan.thy ===== *)
theory C_Scan
  imports Tools
begin

text \<open>
  \<^verbatim>\<open>sscanf\<close> as the readers of \<^verbatim>\<open>/proc\<close> use it: a format is a list of directives, the result the list of
  the values assigned before the first directive that does not match (so that the number returned is its
  length, or \<^verbatim>\<open>EOF\<close> when the input ends before the first conversion).
\<close>

datatype sfmt =
    FSpace              \<comment> \<open>white space in the format: skip any white space\<close>
  | FLit char
  | FULL                \<comment> \<open>\<^verbatim>\<open>%llu\<close>\<close>
  | FLL                 \<comment> \<open>\<^verbatim>\<open>%lld\<close> and \<^verbatim>\<open>%ld\<close>: a signed value, kept as its 64-bit pattern\<close>
  | FSkipInt            \<comment> \<open>\<^verbatim>\<open>%*d\<close>, \<^verbatim>\<open>%*u\<close>\<close>
  | FStr nat            \<comment> \<open>\<^verbatim>\<open>%99s\<close>: at most so many characters\<close>
  | FSkipStr            \<comment> \<open>\<^verbatim>\<open>%*s\<close>\<close>
  | FChr                \<comment> \<open>\<^verbatim>\<open>%c\<close>\<close>

datatype sval = VNum ull | VStr string

text \<open>A number: optional sign and at least one digit, after white space. A value that does not fit saturates.\<close>

fun digits_val :: "nat \<Rightarrow> string \<Rightarrow> nat" where
  "digits_val v [] = v"
| "digits_val v (c # cs) = digits_val (10 * v + (of_char c - 48)) cs"

definition scan_int :: "string \<Rightarrow> ((bool \<times> nat) \<times> string) option" where
  "scan_int s =
     (let s = dropWhile is_space s;
          neg = (s \<noteq> [] \<and> hd s = CHR ''-'');
          s = (if s \<noteq> [] \<and> (hd s = CHR ''-'' \<or> hd s = CHR ''+'') then tl s else s);
          ds = takeWhile is_digit s
      in if ds = [] then None else Some ((neg, digits_val 0 ds), dropWhile is_digit s))"

definition to_ull :: "bool \<times> nat \<Rightarrow> ull" where
  "to_ull x = (case x of (neg, n) \<Rightarrow>
     if 2 ^ 64 \<le> n then - 1 else if neg then - word_of_nat n else word_of_nat n)"

definition to_ll :: "bool \<times> nat \<Rightarrow> ull" where
  "to_ll x = (case x of (neg, n) \<Rightarrow>
     if neg then (if 2 ^ 63 \<le> n then 2 ^ 63 else - word_of_nat n)
     else (if 2 ^ 63 \<le> n then 2 ^ 63 - 1 else word_of_nat n))"

definition scan_str :: "nat \<Rightarrow> string \<Rightarrow> (string \<times> string) option" where
  "scan_str n s =
     (let s = dropWhile is_space s; t = take n (takeWhile (\<lambda>c. \<not> is_space c) s)
      in if t = [] then None else Some (t, drop (length t) s))"

fun sscanf :: "sfmt list \<Rightarrow> string \<Rightarrow> sval list" where
  "sscanf [] s = []"
| "sscanf (FSpace # fs) s = sscanf fs (dropWhile is_space s)"
| "sscanf (FLit c # fs) s = (case s of d # s \<Rightarrow> if c = d then sscanf fs s else [] | [] \<Rightarrow> [])"
| "sscanf (FULL # fs) s =
     (case scan_int s of None \<Rightarrow> [] | Some (x, s) \<Rightarrow> VNum (to_ull x) # sscanf fs s)"
| "sscanf (FLL # fs) s =
     (case scan_int s of None \<Rightarrow> [] | Some (x, s) \<Rightarrow> VNum (to_ll x) # sscanf fs s)"
| "sscanf (FSkipInt # fs) s = (case scan_int s of None \<Rightarrow> [] | Some (x, s) \<Rightarrow> sscanf fs s)"
| "sscanf (FStr n # fs) s =
     (case scan_str n s of None \<Rightarrow> [] | Some (t, s) \<Rightarrow> VStr t # sscanf fs s)"
| "sscanf (FSkipStr # fs) s = (case scan_str (length s) s of None \<Rightarrow> [] | Some (t, s) \<Rightarrow> sscanf fs s)"
| "sscanf (FChr # fs) s = (case s of c # s \<Rightarrow> VStr [c] # sscanf fs s | [] \<Rightarrow> [])"

fun lits :: "string \<Rightarrow> sfmt list" where
  "lits s = map FLit s"

definition is_blank :: "char \<Rightarrow> bool" where
  "is_blank c = (c = CHR '' '' \<or> c = CHR 0x09)"

text \<open>\<^verbatim>\<open>%d\<close> and \<^verbatim>\<open>%ld\<close>.\<close>

definition int_string :: "int \<Rightarrow> string" where
  "int_string i = (if i < 0 then ''-'' @ dec_string (nat (- i)) else dec_string (nat i))"

section \<open>Scanning what was printed\<close>

lemma digits_val_append: "digits_val v (s @ t) = digits_val (digits_val v s) t"
  by (induction s arbitrary: v) auto

lemma of_char_digit: "n < 10 \<Longrightarrow> (of_char (char_of (48 + n) :: char) :: nat) = 48 + n"
  by simp

lemma dec_string_digits: "\<forall>c \<in> set (dec_string n). is_digit c"
proof (induction n rule: dec_string.induct)
  case (1 n)
  then show ?case by (auto simp: dec_string.simps [of n] is_digit_def)
qed

lemma digits_val_dec_string: "digits_val 0 (dec_string n) = n"
proof (induction n rule: dec_string.induct)
  case (1 n)
  then show ?case by (simp add: dec_string.simps [of n] digits_val_append)
qed

lemma dec_string_nonempty: "dec_string n \<noteq> []"
  by (subst dec_string.simps) simp

lemma digit_not_space: "is_digit c \<Longrightarrow> \<not> is_space c"
  by (auto simp: is_digit_def is_space_def)

lemma digit_not_sign: "is_digit c \<Longrightarrow> c \<noteq> CHR ''-'' \<and> c \<noteq> CHR ''+''"
  by (auto simp: is_digit_def)

text \<open>White space and a printed number scan as the number, up to the first character that is no digit.\<close>

lemma scan_int_dec:
  assumes "\<forall>c \<in> set sp. is_space c" "s = [] \<or> \<not> is_digit (hd s)"
  shows "scan_int (sp @ dec_string n @ s) = Some ((False, n), s)"
proof -
  let ?d = "dec_string n"
  obtain c cs where c: "?d = c # cs" using dec_string_nonempty by (cases ?d) auto
  then have cd: "is_digit c" using dec_string_digits [of n] by simp
  have "dropWhile is_space (sp @ ?d @ s) = ?d @ s"
    using assms(1) c digit_not_space [OF cd] by (simp add: dropWhile_append2)
  moreover have "takeWhile is_digit (?d @ s) = ?d" "dropWhile is_digit (?d @ s) = s"
    using dec_string_digits [of n] assms(2) by (cases s; simp add: takeWhile_append2 dropWhile_append2)+
  ultimately show ?thesis
    using c digit_not_sign [OF cd] digits_val_dec_string [of n] by (simp add: scan_int_def)
qed

lemma scan_int_int_string:
  assumes "\<forall>c \<in> set sp. is_space c" "s = [] \<or> \<not> is_digit (hd s)"
  shows "scan_int (sp @ int_string i @ s) = Some ((i < 0, nat \<bar>i\<bar>), s)"
proof (cases "i < 0")
  case False
  then show ?thesis using scan_int_dec [OF assms, of "nat i"] by (simp add: int_string_def)
next
  case True
  let ?d = "dec_string (nat (- i))"
  have "\<not> is_space CHR ''-''" by (simp add: is_space_def)
  then have "dropWhile is_space (sp @ CHR ''-'' # ?d @ s) = CHR ''-'' # ?d @ s"
    using assms(1) by (simp add: dropWhile_append2)
  moreover have "takeWhile is_digit (?d @ s) = ?d" "dropWhile is_digit (?d @ s) = s"
    using dec_string_digits [of "nat (- i)"] assms(2) by (cases s; simp add: takeWhile_append2 dropWhile_append2)+
  ultimately show ?thesis
    using True dec_string_nonempty [of "nat (- i)"] digits_val_dec_string [of "nat (- i)"]
    by (simp add: scan_int_def int_string_def)
qed

lemma to_ull_small: "n < 2 ^ 64 \<Longrightarrow> to_ull (False, n) = word_of_nat n"
  by (simp add: to_ull_def)

lemma dec_string_space: "dropWhile is_space (dec_string n @ s) = dec_string n @ s"
proof (cases "dec_string n")
  case (Cons c cs)
  then have "is_digit c" using dec_string_digits [of n] by simp
  with Cons digit_not_space show ?thesis by simp
qed (simp add: dec_string_nonempty)

lemma scan_str_skip [simp]: "scan_str n (dropWhile is_space s) = scan_str n s"
  by (simp add: scan_str_def)

lemma scan_int_skip [simp]: "scan_int (dropWhile is_space s) = scan_int s"
  by (simp add: scan_int_def)

lemma scan_str_word:
  assumes "t \<noteq> []" "length t \<le> n" "\<forall>c \<in> set t. \<not> is_space c"
  shows "scan_str n (t @ CHR '' '' # s) = Some (t, CHR '' '' # s)"
proof -
  have "takeWhile (\<lambda>c. \<not> is_space c) (t @ CHR '' '' # s) = t"
    using assms(3) by (simp add: takeWhile_append2 is_space_def)
  moreover have "dropWhile is_space (t @ CHR '' '' # s) = t @ CHR '' '' # s"
    using assms(1,3) by (cases t) auto
  ultimately show ?thesis using assms(1,2) by (cases n) (simp_all add: scan_str_def)
qed

text \<open>Strings that were stored are pieces of the input and no longer than their directive allows.\<close>

lemma scan_str_short: "scan_str n s = Some (t, r) \<Longrightarrow> length t \<le> n \<and> set t \<subseteq> set s \<and> set r \<subseteq> set s"
  by (auto simp: scan_str_def Let_def split: if_splits
      dest!: in_set_takeD set_takeWhileD in_set_dropD set_dropWhileD)

lemma scan_int_rest:
  assumes "scan_int s = Some (x, r)"
  shows "set r \<subseteq> set s"
proof -
  let ?s = "dropWhile is_space s"
  let ?t = "if ?s \<noteq> [] \<and> (hd ?s = CHR ''-'' \<or> hd ?s = CHR ''+'') then tl ?s else ?s"
  have r: "r = dropWhile is_digit ?t" using assms by (auto simp: scan_int_def Let_def split: if_splits)
  have "set r \<subseteq> set ?t" unfolding r using set_dropWhileD by fast
  moreover have "set ?t \<subseteq> set ?s" by (cases ?s) auto
  moreover have "set ?s \<subseteq> set s" using set_dropWhileD by fast
  ultimately show ?thesis by blast
qed

lemma sscanf_strings:
  "VStr t \<in> set (sscanf fs s) \<Longrightarrow>
   set t \<subseteq> set s \<and> ((\<exists>n. FStr n \<in> set fs \<and> length t \<le> n) \<or> FChr \<in> set fs \<and> length t = 1)"
proof (induction fs s rule: sscanf.induct)
  case (2 fs s)
  then show ?case using set_dropWhileD [of _ is_space s] by fastforce
next
  case (4 fs s)
  then show ?case using scan_int_rest [of s] by (cases "scan_int s") fastforce+
next
  case (5 fs s)
  then show ?case using scan_int_rest [of s] by (cases "scan_int s") fastforce+
next
  case (6 fs s)
  then show ?case using scan_int_rest [of s] by (cases "scan_int s") fastforce+
next
  case (7 n fs s)
  then show ?case using scan_str_short [of n s] by (cases "scan_str n s") fastforce+
next
  case (8 fs s)
  then show ?case using scan_str_short [of "length s" s] by (cases "scan_str (length s) s") fastforce+
qed (auto split: list.splits if_splits)

end
