(* ===== verification/Readings.thy ===== *)
theory Readings
  imports Access_Easy C_Scan
begin

text \<open>
  What the readers of the platforms have in common: a reading is what a reader leaves in the caller's
  buffer together with the error that ended it, if any; lines of \<^verbatim>\<open>/proc\<close> are scanned for numbers behind a
  key. A component whose gathering function is a reading meets the contract of \<open>easy_source\<close>; its public
  function then delivers what the reader read, or fails with the reader's error.
\<close>

section \<open>Readings\<close>

text \<open>What a reader leaves in the buffer, with the error that ends it: code, argument and where its errno comes from.\<close>

datatype errno_from = NoErrno | FromErrno | ErrnoCode int

type_synonym 'a reading = "'a \<times> (sg_error \<times> string option \<times> errno_from) option"

definition finish_reading :: "'a reading \<Rightarrow> env \<Rightarrow> (sg_error \<times> 'a \<times> env) outcome" where
  "finish_reading r e =
     (case r of
        (x, None) \<Rightarrow> Done (SG_ERROR_NONE, x, e)
      | (x, Some (code, arg, ef)) \<Rightarrow>
          Done (code, x,
            case ef of NoErrno \<Rightarrow> SET_ERROR code arg e | FromErrno \<Rightarrow> SET_ERROR_WITH_ERRNO code arg e
            | ErrnoCode n \<Rightarrow> SET_ERROR_WITH_ERRNO_CODE code n arg e))"

definition easy_reading :: "('a \<Rightarrow> 'a reading) \<Rightarrow> 'a easy_int" where
  "easy_reading r x e = finish_reading (r x) e"

definition any_item :: "'a \<Rightarrow> bool" where
  "any_item x = True"

lemma any_item_simp [simp]: "any_item x"
  by (simp add: any_item_def)

locale reading_source =
  fixes ty :: "'a sg_vector_init_info" and r :: "'a \<Rightarrow> 'a reading"
  assumes plain: "init_fn ty = NullFn" "destroy_fn ty = NullFn"
    and size_pos: "item_size ty \<noteq> 0"
    and one_fits: "room ty 1"
begin

lemma finish_cases:
  "easy_reading r x e = Done (rc, y, e') \<Longrightarrow>
   (r x = (y, None) \<and> rc = SG_ERROR_NONE \<and> e' = e) \<or>
   (\<exists>arg ef. r x = (y, Some (rc, arg, ef)) \<and> error (err e') = rc)"
  by (auto simp: easy_reading_def finish_reading_def split: prod.splits option.splits errno_from.splits)

lemma finish_ex: "\<exists>rc y e'. easy_reading r x e = Done (rc, y, e') \<and> (rc \<noteq> SG_ERROR_NONE \<longrightarrow> error (err e') = rc)"
  by (auto simp: easy_reading_def finish_reading_def split: prod.splits option.splits errno_from.splits)

end

sublocale reading_source \<subseteq> easy_source ty any_item "easy_reading r"
proof unfold_locales
  show "\<exists>rc y e'. easy_reading r x e = Done (rc, y, e') \<and> any_item y \<and> (rc \<noteq> SG_ERROR_NONE \<longrightarrow> error (err e') = rc)" for x e
    using finish_ex by simp
qed (use plain size_pos one_fits in \<open>auto\<close>)

text \<open>The public function of such a component: what the vector holds afterwards, and why it may fail.\<close>

context reading_source
begin

lemma access_reading:
  assumes w: "heap_ok w" "holder ty any_item (g idx) w"
  shows "\<exists>p n g' w'. EASY_COMP_ACCESS ty (easy_reading r) idx (Some g) w = Done ((p, n), Some g', w') \<and> heap_ok w' \<and>
     (\<forall>j. j \<noteq> idx \<longrightarrow> g' j = g j) \<and> (\<forall>u. u \<noteq> g' idx \<longrightarrow> blocks w' u = blocks w u) \<and>
     (if p = 0 then n = 0 \<and> error (err (wenv w')) \<noteq> SG_ERROR_NONE \<and> holder ty any_item (g' idx) w' \<and>
        (sched (wenv w) \<noteq> [] \<or> (\<exists>x y er. r x = (y, Some er)))
      else p = g' idx \<and> n = 1 \<and> error (err (wenv w')) = SG_ERROR_NONE \<and>
        (\<exists>x y er. r x = (y, er) \<and> (\<forall>c a f. er = Some (c, a, f) \<longrightarrow> c = SG_ERROR_NONE) \<and> holds ty any_item p y w'))"
proof -
  obtain p n g' w' where a: "EASY_COMP_ACCESS ty (easy_reading r) idx (Some g) w = Done ((p, n), Some g', w')" "heap_ok w'"
      "\<forall>j. j \<noteq> idx \<longrightarrow> g' j = g j" "\<forall>u. u \<noteq> g' idx \<longrightarrow> blocks w' u = blocks w u"
      "if p = 0 then n = 0 \<and> error (err (wenv w')) \<noteq> SG_ERROR_NONE \<and> holder ty any_item (g' idx) w' \<and>
         (sched (wenv w) \<noteq> [] \<or> (\<exists>x e rc y e'. easy_reading r x e = Done (rc, y, e') \<and> rc \<noteq> SG_ERROR_NONE))
       else p = g' idx \<and> n = 1 \<and> error (err (wenv w')) = SG_ERROR_NONE \<and>
         (\<exists>x e y e'. easy_reading r x e = Done (SG_ERROR_NONE, y, e') \<and> holds ty any_item p y w')"
    using access_ok [of w g idx, OF w] by (elim exE conjE)
  have "\<exists>x y er. r x = (y, Some er)" if "easy_reading r x e = Done (rc, y, e')" "rc \<noteq> SG_ERROR_NONE" for x e rc y e'
    using finish_cases [OF that(1)] that(2) by blast
  moreover have "\<exists>er. r x = (y, er) \<and> (\<forall>c a f. er = Some (c, a, f) \<longrightarrow> c = SG_ERROR_NONE)"
    if "easy_reading r x e = Done (SG_ERROR_NONE, y, e')" for x e y e'
    using finish_cases [OF that] by auto
  ultimately show ?thesis using a by (cases "p = 0") (simp_all, blast+)
qed

text \<open>A reader that delivers the same value whatever the buffer held, or fails with a code, decides the outcome.\<close>

lemma access_reads:
  assumes w: "heap_ok w" "holder ty any_item (g idx) w" "sched (wenv w) = []" and rd: "\<And>x. r x = (y, None)"
  shows "\<exists>p g' w'. EASY_COMP_ACCESS ty (easy_reading r) idx (Some g) w = Done ((p, 1), Some g', w') \<and> heap_ok w' \<and>
     p = g' idx \<and> p \<noteq> 0 \<and> error (err (wenv w')) = SG_ERROR_NONE \<and> holds ty any_item p y w'"
proof -
  obtain p n g' w' where a: "EASY_COMP_ACCESS ty (easy_reading r) idx (Some g) w = Done ((p, n), Some g', w')" "heap_ok w'"
     "if p = 0 then n = 0 \<and> error (err (wenv w')) \<noteq> SG_ERROR_NONE \<and> holder ty any_item (g' idx) w' \<and>
        (sched (wenv w) \<noteq> [] \<or> (\<exists>x y er. r x = (y, Some er)))
      else p = g' idx \<and> n = 1 \<and> error (err (wenv w')) = SG_ERROR_NONE \<and>
        (\<exists>x y er. r x = (y, er) \<and> (\<forall>c a f. er = Some (c, a, f) \<longrightarrow> c = SG_ERROR_NONE) \<and> holds ty any_item p y w')"
    using access_reading [of w g idx, OF w(1,2)] by (elim exE conjE)
  then show ?thesis using rd w(3) by (auto split: if_splits)
qed

lemma access_fails:
  assumes w: "heap_ok w" "holder ty any_item (g idx) w" and rd: "\<And>x. \<exists>y c a f. r x = (y, Some (c, a, f)) \<and> c \<noteq> SG_ERROR_NONE"
  shows "\<exists>g' w'. EASY_COMP_ACCESS ty (easy_reading r) idx (Some g) w = Done ((0, 0), Some g', w') \<and> heap_ok w' \<and>
     error (err (wenv w')) \<noteq> SG_ERROR_NONE"
proof -
  obtain p n g' w' where a: "EASY_COMP_ACCESS ty (easy_reading r) idx (Some g) w = Done ((p, n), Some g', w')" "heap_ok w'"
     "if p = 0 then n = 0 \<and> error (err (wenv w')) \<noteq> SG_ERROR_NONE \<and> holder ty any_item (g' idx) w' \<and>
        (sched (wenv w) \<noteq> [] \<or> (\<exists>x y er. r x = (y, Some er)))
      else p = g' idx \<and> n = 1 \<and> error (err (wenv w')) = SG_ERROR_NONE \<and>
        (\<exists>x y er. r x = (y, er) \<and> (\<forall>c a f. er = Some (c, a, f) \<longrightarrow> c = SG_ERROR_NONE) \<and> holds ty any_item p y w')"
    using access_reading [of w g idx, OF w(1,2)] by (elim exE conjE)
  then show ?thesis using rd by (cases "p = 0") (auto, metis option.inject prod.inject)
qed

end

text \<open>Gathering functions that succeed with the same item whatever the buffer held.\<close>

context easy_source
begin

lemma access_exact:
  assumes w: "heap_ok w" "holder ty ok (g idx) w" "sched (wenv w) = []"
    and rd: "\<And>x e. ok x \<Longrightarrow> sched e = [] \<Longrightarrow> fn_int x e = Done (SG_ERROR_NONE, y, e)" and y: "ok y"
  shows "\<exists>p g' w'. EASY_COMP_ACCESS ty fn_int idx (Some g) w = Done ((p, 1), Some g', w') \<and> heap_ok w' \<and>
     p = g' idx \<and> p \<noteq> 0 \<and> error (err (wenv w')) = SG_ERROR_NONE \<and> holds ty ok p y w'"
proof -
  obtain g1 w1 x where m: "ensure_one ty idx g w = Done (g1, w1)" "heap_ok w1" "g1 idx \<noteq> 0" "sched (wenv w1) = []"
      "holds ty ok (g1 idx) x w1"
    using ensure_ok [of w g idx, OF w(1,2)] w(3) by auto
  then have "ok x" using contents_single(4) by (auto simp: holds_def)
  from rd [OF this m(4)] obtain w2 where c: "call_int fn_int (g1 idx) w1 = Done (SG_ERROR_NONE, w2)" "heap_ok w2" "holds ty ok (g1 idx) y w2"
    using call_ok [of w1 "g1 idx" x fn_int SG_ERROR_NONE y "wenv w1", OF m(2,5)] y by auto
  have "EASY_COMP_ACCESS ty fn_int idx (Some g) w = Done ((g1 idx, 1), Some g1, clear_error w2)"
    using m(1,3) c(1) holds_count [OF c(3)] by (simp add: EASY_COMP_ACCESS_def)
  with m(3) c(2,3) show ?thesis by simp
qed

lemma access_gives:
  assumes w: "heap_ok w" "holder ty ok (g idx) w" "sched (wenv w) = []"
    and rd: "\<And>x e. fn_int x e = Done (SG_ERROR_NONE, y, e)" and y: "ok y"
  shows "\<exists>p g' w'. EASY_COMP_ACCESS ty fn_int idx (Some g) w = Done ((p, 1), Some g', w') \<and> heap_ok w' \<and>
     p = g' idx \<and> p \<noteq> 0 \<and> error (err (wenv w')) = SG_ERROR_NONE \<and> holds ty ok p y w'"
  using access_exact [of w g idx, OF w rd y] .

end

text \<open>The same for differences of readers that do not fail.\<close>

context easy_diff
begin

lemma diff_reads:
  assumes w: "heap_ok w" "holds ty ok (g nowidx) lst w" "holder ty ok (g diffidx) w" "nowidx \<noteq> diffidx" "g diffidx \<noteq> g nowidx"
    and rd: "\<And>x e. fn_int x e = Done (SG_ERROR_NONE, cur, e)"
    and sb: "\<And>x now lst e. \<exists>y. sub_int x now lst e = Done (SG_ERROR_NONE, y, e)"
    and d: "\<And>x e. sub_int x (Some cur) (Some lst) e = Done (SG_ERROR_NONE, d, e)"
  shows "\<exists>v n g' w'. EASY_COMP_DIFF ty sub_int (EASY_COMP_ACCESS ty fn_int nowidx) diffidx nowidx (Some g) w = Done ((v, n), Some g', w') \<and>
     heap_ok w' \<and>
     (if v = 0 then n = 0 \<and> error (err (wenv w')) \<noteq> SG_ERROR_NONE \<and> sched (wenv w) \<noteq> []
      else n = 1 \<and> v = g' diffidx \<and> v \<noteq> g' nowidx \<and> error (err (wenv w')) = SG_ERROR_NONE \<and>
        holds ty ok (g' nowidx) cur w' \<and> holds ty ok v d w')"
proof -
  obtain v n g' w' c where r: "EASY_COMP_DIFF ty sub_int (EASY_COMP_ACCESS ty fn_int nowidx) diffidx nowidx (Some g) w = Done ((v, n), Some g', w')"
      "heap_ok w'" "g' nowidx = g nowidx" "holds ty ok (g nowidx) c w'"
      "if v = 0 then n = 0 \<and> error (err (wenv w')) \<noteq> SG_ERROR_NONE \<and>
          (sched (wenv w) \<noteq> [] \<or> (\<exists>x e rc y e'. fn_int x e = Done (rc, y, e') \<and> rc \<noteq> SG_ERROR_NONE) \<or>
           (\<exists>x now lst e rc y e'. sub_int x now lst e = Done (rc, y, e') \<and> rc \<noteq> SG_ERROR_NONE))
        else v = g' diffidx \<and> v \<noteq> g nowidx \<and> n = 1 \<and> error (err (wenv w')) = SG_ERROR_NONE \<and>
          (\<exists>x e e'. fn_int x e = Done (SG_ERROR_NONE, c, e')) \<and>
          (\<exists>x e y e'. sub_int x (Some c) (Some lst) e = Done (SG_ERROR_NONE, y, e') \<and> holds ty ok v y w')"
    using diff_ok [of w g nowidx lst diffidx, OF w] by (elim exE conjE)
  have nof: "\<not> (\<exists>x e rc y e'. fn_int x e = Done (rc, y, e') \<and> rc \<noteq> SG_ERROR_NONE)"
    "\<not> (\<exists>x now lst e rc y e'. sub_int x now lst e = Done (rc, y, e') \<and> rc \<noteq> SG_ERROR_NONE)"
    using rd sb by (auto, metis outcome.inject(1) prod.inject)
  show ?thesis
  proof (cases "v = 0")
    case True
    from r(5) [unfolded if_P [OF True]] nof have "n = 0 \<and> error (err (wenv w')) \<noteq> SG_ERROR_NONE \<and> sched (wenv w) \<noteq> []"
      by (simp only: simp_thms)
    with True r(1,2) show ?thesis by simp
  next
    case False
    with r(5) rd have c: "c = cur" by auto
    with False r(5) d have "holds ty ok v d w'" by auto
    with False r c show ?thesis by auto
  qed
qed

end

section \<open>Scanning lines\<close>

text \<open>The text of a list of lines, and what \<^verbatim>\<open>fgets\<close> reads of it when they fit into the buffer.\<close>

definition text_of :: "string list \<Rightarrow> string" where
  "text_of ls = concat (map (\<lambda>l. l @ [CHR 0x0A]) ls)"

definition line_ok :: "nat \<Rightarrow> string \<Rightarrow> bool" where
  "line_ok n l \<longleftrightarrow> CHR 0x0A \<notin> set l \<and> nul_free l \<and> length l < n"

lemma fgets_take_line:
  "CHR 0x0A \<notin> set l \<Longrightarrow> length l < n \<Longrightarrow> fgets_take n (l @ CHR 0x0A # r) = (l @ [CHR 0x0A], r)"
proof (induction l arbitrary: n)
  case Nil
  then show ?case by (cases n) auto
next
  case (Cons c l)
  then show ?case by (cases n) auto
qed

lemma file_lines_text:
  "list_all (line_ok n) ls \<Longrightarrow> file_lines n (text_of ls) = map (\<lambda>l. l @ [CHR 0x0A]) ls"
proof (induction ls)
  case Nil
  then show ?case by (simp add: text_of_def file_lines.simps)
next
  case (Cons l ls)
  then have l: "CHR 0x0A \<notin> set l" "length l < n" by (simp_all add: line_ok_def)
  have t: "text_of (l # ls) = l @ CHR 0x0A # text_of ls" by (simp add: text_of_def)
  have "file_lines n (text_of (l # ls)) = (l @ [CHR 0x0A]) # file_lines n (text_of ls)"
    unfolding t by (rule file_lines_step) (use l fgets_take_line in auto)
  with Cons show ?case by simp
qed

lemma strval_lines:
  "list_all (line_ok n) ls \<Longrightarrow> map strval (file_lines n (text_of ls)) = map (\<lambda>l. l @ [CHR 0x0A]) ls"
  by (simp add: file_lines_text list_all_iff line_ok_def nul_free_def strval_id)

definition starts_with :: "string \<Rightarrow> string \<Rightarrow> bool" where
  "starts_with key line = (has_prefix key line \<and> is_blank ((line @ [NUL]) ! length key))"

definition scan_nums :: "string \<Rightarrow> nat \<Rightarrow> string \<Rightarrow> ull list" where
  "scan_nums key n line =
     map (\<lambda>v. case v of VNum x \<Rightarrow> x | VStr _ \<Rightarrow> 0)
       (sscanf (map FLit key @ concat (replicate n [FSpace, FULL])) line)"

definition assign :: "(ull \<Rightarrow> 'a \<Rightarrow> 'a) list \<Rightarrow> ull list \<Rightarrow> 'a \<Rightarrow> 'a" where
  "assign setters vals x = fold (\<lambda>(f, v) x. f v x) (zip setters vals) x"

lemma sscanf_lits: "sscanf (map FLit k @ fs) (k @ s) = sscanf fs s"
  by (induction k) auto

lemma has_prefix_append: "has_prefix k (k @ s)"
  by (induction k) auto

lemma starts_with_key: "starts_with k (k @ CHR '' '' # s)"
  by (simp add: starts_with_def has_prefix_append is_blank_def nth_append)

lemma starts_with_other:
  "\<not> has_prefix k l \<Longrightarrow> \<not> starts_with k l"
  by (simp add: starts_with_def)

fun print_nums :: "nat list \<Rightarrow> string" where
  "print_nums [] = []"
| "print_nums (n # ns) = CHR '' '' # dec_string n @ print_nums ns"

lemma scan_print_nums:
  "list_all (\<lambda>n. n < 2 ^ 64) ns \<Longrightarrow> rest = [] \<or> \<not> is_digit (hd rest) \<Longrightarrow>
   sscanf (concat (replicate (length ns) [FSpace, FULL])) (print_nums ns @ rest) = map (\<lambda>n. VNum (word_of_nat n)) ns"
proof (induction ns)
  case (Cons n ns)
  have sp: "is_space CHR '' ''" by (simp add: is_space_def)
  have "print_nums ns @ rest = [] \<or> \<not> is_digit (hd (print_nums ns @ rest))"
    using Cons.prems(2) by (cases ns) (auto simp: is_digit_def)
  then have "scan_int (dec_string n @ print_nums ns @ rest) = Some ((False, n), print_nums ns @ rest)"
    using scan_int_dec [of "[]"] by simp
  with Cons sp show ?case by (simp add: to_ull_small)
qed simp

lemma scan_nums_print:
  assumes "list_all (\<lambda>n. n < 2 ^ 64) ns" "rest = [] \<or> \<not> is_digit (hd rest)" "length ns = n"
  shows "scan_nums key n (key @ print_nums ns @ rest) = map word_of_nat ns"
  using scan_print_nums [OF assms(1,2)] assms(3) by (simp add: scan_nums_def sscanf_lits comp_def)

text \<open>Lines of the form \<^verbatim>\<open>key: number unit\<close>: a word, and a number behind white space.\<close>

lemma scan_keyed:
  assumes "key \<noteq> []" "\<forall>c \<in> set key. \<not> is_space c" "sp \<noteq> []" "\<forall>c \<in> set sp. is_space c" "rest = [] \<or> \<not> is_digit (hd rest)"
  shows "sscanf (FSkipStr # FSpace # FULL # fs) (key @ sp @ dec_string n @ rest) = VNum (to_ull (False, n)) # sscanf fs rest"
    "sscanf (FSkipStr # FSpace # FLL # fs) (key @ sp @ dec_string n @ rest) = VNum (to_ll (False, n)) # sscanf fs rest"
proof -
  let ?s = "key @ sp @ dec_string n @ rest"
  have tk: "takeWhile (\<lambda>c. \<not> is_space c) ?s = key" using assms(2-4) by (cases sp) (simp_all add: takeWhile_append2)
  have dr: "dropWhile is_space ?s = ?s" using assms(1,2) by (cases key) auto
  have k: "scan_str (length ?s) ?s = Some (key, sp @ dec_string n @ rest)"
    using assms(1) by (simp add: scan_str_def Let_def dr tk)
  have i: "scan_int (sp @ dec_string n @ rest) = Some ((False, n), rest)" using scan_int_dec assms(4,5) by blast
  show "sscanf (FSkipStr # FSpace # FULL # fs) ?s = VNum (to_ull (False, n)) # sscanf fs rest"
    "sscanf (FSkipStr # FSpace # FLL # fs) ?s = VNum (to_ll (False, n)) # sscanf fs rest"
    by (simp_all only: sscanf.simps k option.case prod.case scan_int_skip i)
qed

lemma to_ll_small: "n < 2 ^ 63 \<Longrightarrow> to_ll (False, n) = word_of_nat n"
  by (simp add: to_ll_def)

end
