(* ===== verification/Disk_Read.thy ===== *)
theory Disk_Read
  imports Snapshots Access_Multi Readings
begin

text \<open>
  The readers of the disk traffic (\<^verbatim>\<open>sg_get_disk_io_stats_int\<close>) on Linux, Solaris and Windows over what
  the system reports, and the public functions the access macros make of the Linux reader: from the text
  of \<^verbatim>\<open>/proc/diskstats\<close> to the difference of two snapshots.
\<close>

section \<open>The readers\<close>

definition disk_arg_error :: "sg_disk_io_stats world \<Rightarrow> (sg_error \<times> addr \<times> sg_disk_io_stats world) outcome" where
  "disk_arg_error w =
     Done (SG_ERROR_INVALID_ARGUMENT, 0,
           set_env (SET_ERROR SG_ERROR_INVALID_ARGUMENT (Some ''disk_io_stats_vector_ptr'') (wenv w)) w)"

text \<open>Linux: the format \<^verbatim>\<open>" %*d %*d %99s %*d %*d %llu %*d %*d %*d %llu"\<close> on every line of at most 255 bytes.\<close>

definition diskstats_format :: "sfmt list" where
  "diskstats_format =
     [FSpace, FSkipInt, FSpace, FSkipInt, FSpace, FStr 99, FSpace, FSkipInt, FSpace, FSkipInt, FSpace, FULL,
      FSpace, FSkipInt, FSpace, FSkipInt, FSpace, FSkipInt, FSpace, FULL]"

definition diskstats_row :: "string \<Rightarrow> (string \<times> ull \<times> ull) option" where
  "diskstats_row line =
     (case sscanf diskstats_format (strval line) of
        [VStr nm, VNum rsect, VNum wsect] \<Rightarrow> Some (nm, rsect, wsect)
      | _ \<Rightarrow> None)"

definition put_linux ::
  "time_t \<Rightarrow> string \<times> ull \<times> ull \<Rightarrow> sg_disk_io_stats \<Rightarrow> env \<Rightarrow> (sg_error \<times> sg_disk_io_stats \<times> env) outcome" where
  "put_linux now r x e =
     (case r of (nm, rsect, wsect) \<Rightarrow>
        andthen (sg_update_string (disk_name x) (CStr (nm @ [NUL])) e) (\<lambda>(rc, p, e).
          let x = x\<lparr>disk_name := p\<rparr> in
          if rc \<noteq> SG_ERROR_NONE then Done (sg_get_error (Some (err e)), x, e)
          else Done (SG_ERROR_NONE,
                 x\<lparr>read_bytes := rsect * 512, write_bytes := wsect * 512, dio_systime := now\<rparr>, e)))"

definition sg_get_disk_io_stats_linux :: "string option \<Rightarrow> time_t \<Rightarrow> sg_disk_io_stats multi_int" where
  "sg_get_disk_io_stats_linux pf now v w =
     (if v = 0 then disk_arg_error w
      else case pf of
        None \<Rightarrow>
          Done (SG_ERROR_OPEN, v,
                set_env (SET_ERROR_WITH_ERRNO SG_ERROR_OPEN (Some ''/proc/diskstats'') (wenv w)) w)
      | Some body \<Rightarrow>
          fill_rows sg_disk_io_stats_vector_init_info (put_linux now)
            (List.map_filter diskstats_row (file_lines 255 body)) 0 v w)"

text \<open>
  Solaris: the chain of kstats. Only kstats of class \<^verbatim>\<open>disk\<close> with I/O data outside the module \<^verbatim>\<open>md\<close>
  count; one that cannot be read ends the call.
\<close>

record kstat =
  ks_class :: string
  ks_is_io :: bool
  ks_module :: string
  ks_name :: string
  ks_io :: "(ull \<times> ull) option"      \<comment> \<open>\<^verbatim>\<open>nread\<close> and \<^verbatim>\<open>nwritten\<close>, when \<^verbatim>\<open>kstat_read\<close> succeeds\<close>

definition kstat_wanted :: "kstat \<Rightarrow> bool" where
  "kstat_wanted k = (ks_class k = ''disk'' \<and> ks_is_io k \<and> ks_module k \<noteq> ''md'')"

definition put_solaris ::
  "time_t \<Rightarrow> cstr \<times> ull \<times> ull \<Rightarrow> sg_disk_io_stats \<Rightarrow> env \<Rightarrow> (sg_error \<times> sg_disk_io_stats \<times> env) outcome" where
  "put_solaris now r x e =
     (case r of (nm, rd, wr) \<Rightarrow>
        let x = x\<lparr>read_bytes := rd, write_bytes := wr\<rparr> in
        andthen (sg_update_string (disk_name x) nm e) (\<lambda>(rc, p, e).
          let x = x\<lparr>disk_name := p\<rparr> in
          if rc \<noteq> SG_ERROR_NONE then Done (sg_get_error (Some (err e)), x, e)
          else Done (SG_ERROR_NONE, x\<lparr>dio_systime := now\<rparr>, e)))"

text \<open>The name of a kstat, translated by the device map; an error is the lookup in a broken map.\<close>

fun kstat_rows :: "device_map \<Rightarrow> kstat list \<Rightarrow> (cstr \<times> ull \<times> ull) list outcome" where
  "kstat_rows m [] = Done []"
| "kstat_rows m (k # ks) =
     (if \<not> kstat_wanted k then kstat_rows m ks
      else case ks_io k of
        None \<Rightarrow> Done []
      | Some (rd, wr) \<Rightarrow>
          andthen (sg_get_svr_from_bsd m (ks_name k)) (\<lambda>nm.
          andthen (kstat_rows m ks) (\<lambda>rs. Done ((CStr (nm @ [NUL]), rd, wr) # rs))))"

definition kstat_unreadable :: "kstat list \<Rightarrow> bool" where
  "kstat_unreadable ks = list_ex (\<lambda>k. kstat_wanted k \<and> ks_io k = None) ks"

definition sg_get_disk_io_stats_solaris ::
  "device_map \<Rightarrow> kstat list option \<Rightarrow> time_t \<Rightarrow> sg_disk_io_stats multi_int" where
  "sg_get_disk_io_stats_solaris m chain now v w =
     (if v = 0 then disk_arg_error w
      else case chain of
        None \<Rightarrow> Done (SG_ERROR_KSTAT_OPEN, v, set_env (SET_ERROR SG_ERROR_KSTAT_OPEN None (wenv w)) w)
      | Some ks \<Rightarrow>
          andthen (kstat_rows m ks) (\<lambda>rs.
          andthen (fill_rows sg_disk_io_stats_vector_init_info (put_solaris now) rs 0 v w) (\<lambda>(rc, v, w).
            if rc = SG_ERROR_NONE \<and> kstat_unreadable ks then
              Done (SG_ERROR_KSTAT_READ, v, set_env (SET_ERROR_WITH_ERRNO SG_ERROR_KSTAT_READ None (wenv w)) w)
            else Done (rc, v, w))))"

text \<open>Windows: \<^verbatim>\<open>get_diskio\<close> delivers names and counters until it returns NULL.\<close>

definition put_win32 ::
  "cstr \<times> ull \<times> ull \<Rightarrow> sg_disk_io_stats \<Rightarrow> env \<Rightarrow> (sg_error \<times> sg_disk_io_stats \<times> env) outcome" where
  "put_win32 r x e =
     (case r of (nm, rbytes, wbytes) \<Rightarrow>
        andthen (sg_update_string (disk_name x) nm e) (\<lambda>(rc, p, e).
          let x = x\<lparr>disk_name := p\<rparr> in
          if rc \<noteq> SG_ERROR_NONE then Done (sg_get_error (Some (err e)), x, e)
          else
            andthen (sg_update_string nm CNull e) (\<lambda>(_, _, e).
              Done (SG_ERROR_NONE, x\<lparr>read_bytes := rbytes, write_bytes := wbytes, dio_systime := 0\<rparr>, e))))"

definition sg_get_disk_io_stats_win32 :: "(cstr \<times> ull \<times> ull) list \<Rightarrow> sg_disk_io_stats multi_int" where
  "sg_get_disk_io_stats_win32 rows v w =
     (if v = 0 then disk_arg_error w
      else fill_rows sg_disk_io_stats_vector_init_info put_win32 rows 0 v (clear_error w))"

section \<open>The public functions on Linux\<close>

definition SG_DISK_IO_NOW_IDX :: nat where "SG_DISK_IO_NOW_IDX = 2"

definition sg_get_disk_io_stats :: "string option \<Rightarrow> time_t \<Rightarrow> sg_disk_io_stats access" where
  "sg_get_disk_io_stats pf now =
     MULTI_COMP_ACCESS sg_disk_io_stats_vector_init_info (sg_get_disk_io_stats_linux pf now) SG_DISK_IO_NOW_IDX"


section \<open>The readers meet the interfaces\<close>

definition row_fits :: "cstr \<times> ull \<times> ull \<Rightarrow> bool" where
  "row_fits r \<longleftrightarrow> cstr_ok (fst r)"

definition dio_of :: "time_t \<Rightarrow> cstr \<times> ull \<times> ull \<Rightarrow> sg_disk_io_stats" where
  "dio_of now r = (case r of (nm, rd, wr) \<Rightarrow>
     \<lparr>disk_name = cstr_copy nm, read_bytes = rd, write_bytes = wr, dio_systime = now\<rparr>)"

definition linux_row :: "string \<times> ull \<times> ull \<Rightarrow> cstr \<times> ull \<times> ull" where
  "linux_row r = (case r of (nm, rs, ws) \<Rightarrow> (CStr (nm @ [NUL]), rs * 512, ws * 512))"

definition diskstats_rows :: "string \<Rightarrow> (string \<times> ull \<times> ull) list" where
  "diskstats_rows body = List.map_filter diskstats_row (file_lines 255 body)"

interpretation dlin: row_items sg_disk_io_stats_vector_init_info dio_ok dio_view "put_linux now"
    "\<lambda>r. row_fits (linux_row r)" "\<lambda>r. dio_of now (linux_row r)" for now
proof
  fix r x e assume "row_fits (linux_row r)" "dio_ok x"
  then show "\<exists>rc y e'. put_linux now r x e = Done (rc, y, e') \<and> dio_ok y \<and>
      (sched e = [] \<longrightarrow> rc = SG_ERROR_NONE \<and> e' = e \<and> dio_view y = dio_of now (linux_row r)) \<and>
      (rc \<noteq> SG_ERROR_NONE \<longrightarrow> error (err e') = rc)"
    using sg_update_string_step [of "disk_name x" "CStr (fst r @ [NUL])" e]
    by (cases r) (auto simp: put_linux_def row_fits_def linux_row_def dio_of_def dio_ok_def dio_view_def Let_def
        sg_get_error_def split: if_splits)
qed

interpretation dsol: row_items sg_disk_io_stats_vector_init_info dio_ok dio_view "put_solaris now" row_fits "dio_of now" for now
proof
  fix r x e assume "row_fits r" "dio_ok x"
  then show "\<exists>rc y e'. put_solaris now r x e = Done (rc, y, e') \<and> dio_ok y \<and>
      (sched e = [] \<longrightarrow> rc = SG_ERROR_NONE \<and> e' = e \<and> dio_view y = dio_of now r) \<and>
      (rc \<noteq> SG_ERROR_NONE \<longrightarrow> error (err e') = rc)"
    using sg_update_string_step [of "disk_name x" "fst r" e]
    by (cases r) (auto simp: put_solaris_def row_fits_def dio_of_def dio_ok_def dio_view_def Let_def
        sg_get_error_def split: if_splits)
qed

interpretation dwin: row_items sg_disk_io_stats_vector_init_info dio_ok dio_view put_win32 row_fits "dio_of 0"
proof
  fix r x e assume "row_fits r" "dio_ok x"
  then show "\<exists>rc y e'. put_win32 r x e = Done (rc, y, e') \<and> dio_ok y \<and>
      (sched e = [] \<longrightarrow> rc = SG_ERROR_NONE \<and> e' = e \<and> dio_view y = dio_of 0 r) \<and>
      (rc \<noteq> SG_ERROR_NONE \<longrightarrow> error (err e') = rc)"
    using sg_update_string_step [of "disk_name x" "fst r" e] sg_update_string_Null [of "fst r"]
    by (cases r; cases "fst r") (auto simp: put_win32_def row_fits_def dio_of_def dio_ok_def dio_view_def Let_def
        sg_update_string_Null sg_get_error_def split: if_splits)
qed

lemma diskstats_row_name:
  assumes "diskstats_row line = Some (nm, r, ws)"
  shows "length nm \<le> 99" "nul_free nm"
proof -
  have "VStr nm \<in> set (sscanf diskstats_format (strval line))"
    using assms by (auto simp: diskstats_row_def split: list.splits sval.splits)
  from sscanf_strings [OF this] show "length nm \<le> 99" "nul_free nm"
    using strval_nul_free [of line] by (auto simp: diskstats_format_def nul_free_def list_all_iff)
qed

lemma diskstats_rows_fit: "list_all (\<lambda>r. row_fits (linux_row r)) (diskstats_rows body)"
  using diskstats_row_name(1)
  by (fastforce simp: list_all_iff diskstats_rows_def List.map_filter_def row_fits_def linux_row_def)

text \<open>What the Linux reader reports for a text, when the text can be read.\<close>

definition disk_reading :: "string option \<Rightarrow> time_t \<Rightarrow> sg_disk_io_stats list option" where
  "disk_reading pf now = map_option (\<lambda>body. map (\<lambda>r. dio_of now (linux_row r)) (diskstats_rows body)) pf"

definition disk_feasible :: "string option \<Rightarrow> bool" where
  "disk_feasible pf \<longleftrightarrow> (case pf of None \<Rightarrow> True
     | Some body \<Rightarrow> room sg_disk_io_stats_vector_init_info (length (diskstats_rows body) + 2 ^ 33))"

interpretation dacc: multi_diff sg_disk_io_stats_vector_init_info dio_ok dio_view "\<lambda>d. disk_name d \<noteq> CNull" disk_name dio_sub
    "sg_get_disk_io_stats_linux pf now" "disk_reading pf now" "disk_feasible pf" True for pf now
proof
  show "room sg_disk_io_stats_vector_init_info (16 + 2 ^ 32)"
    by (simp add: room_def sg_disk_io_stats_vector_init_info_def)
  show "disk_name x \<noteq> CNull" if "disk_reading pf now = Some vs" "x \<in> set vs" for vs x
    using that by (auto simp: disk_reading_def dio_of_def linux_row_def cstr_copy_def)
  fix w v assume f: "disk_feasible pf" and w: "heap_ok w" and v: "vec_at sg_disk_io_stats_vector_init_info dio_ok v [] w"
  have v0: "v \<noteq> 0" using vec_at_nonnull [OF v] by simp
  show "\<exists>rc v' w'. sg_get_disk_io_stats_linux pf now v w = Done (rc, v', w') \<and> heap_ok w' \<and> replaced v v' w w' \<and>
       (v' \<noteq> 0 \<longrightarrow> (\<exists>xs. vec_at sg_disk_io_stats_vector_init_info dio_ok v' xs w' \<and>
          (roomy sg_disk_io_stats_vector_init_info v w \<longrightarrow> roomy sg_disk_io_stats_vector_init_info v' w') \<and>
          (rc = SG_ERROR_NONE \<longrightarrow> (\<exists>vs. disk_reading pf now = Some vs \<and> length xs = length vs)) \<and>
          (rc = SG_ERROR_NONE \<and> sched (wenv w) = [] \<longrightarrow> disk_reading pf now = Some (map dio_view xs)))) \<and>
       (sched (wenv w) = [] \<longrightarrow> (rc = SG_ERROR_NONE \<longleftrightarrow> disk_reading pf now \<noteq> None) \<and> sched (wenv w') = []) \<and>
       (if rc = SG_ERROR_NONE then v' \<noteq> 0 else error (err (wenv w')) = rc)"
  proof (cases pf)
    case None
    then show ?thesis
      using v0 v w by (auto simp: sg_get_disk_io_stats_linux_def disk_reading_def replaced_def vec_at_def roomy_def
          vload_set_env frame_simps)
  next
    case (Some body)
    then have "room sg_disk_io_stats_vector_init_info (length (diskstats_rows body) + 2 ^ 33)"
      using f by (simp add: disk_feasible_def)
    from dlin.rows_law [OF this diskstats_rows_fit w v, of now] Some v0 show ?thesis
      by (simp add: sg_get_disk_io_stats_linux_def disk_reading_def diskstats_rows_def comp_def)
  qed
qed

section \<open>What the access functions do of a text\<close>

lemma disk_access:
  assumes "heap_ok w" "sched (wenv w) = []" "disk_feasible pf"
    and "g SG_DISK_IO_NOW_IDX = 0 \<or> vec_at sg_disk_io_stats_vector_init_info dio_ok (g SG_DISK_IO_NOW_IDX) ys w"
  shows "\<exists>p n g' w'. sg_get_disk_io_stats pf now (Some g) w = Done ((p, n), Some g', w') \<and> heap_ok w' \<and>
     (case pf of
        None \<Rightarrow> p = 0 \<and> n = 0 \<and> error (err (wenv w')) \<noteq> SG_ERROR_NONE
      | Some body \<Rightarrow>
          p \<noteq> 0 \<and> p = g' SG_DISK_IO_NOW_IDX \<and> error (err (wenv w')) = SG_ERROR_NONE \<and>
          (\<exists>xs. vec_at sg_disk_io_stats_vector_init_info dio_ok p xs w' \<and> unat n = length xs \<and>
             map dio_view xs =
               map (\<lambda>(nm, rs, ws). \<lparr>disk_name = CStr (nm @ [NUL]), read_bytes = rs * 512, write_bytes = ws * 512,
                                      dio_systime = now\<rparr>)
                   (List.map_filter diskstats_row (file_lines 255 body))))"
proof -
  have nm: "dio_of now (linux_row r) = (case r of (nm, rs, ws) \<Rightarrow>
      \<lparr>disk_name = CStr (nm @ [NUL]), read_bytes = rs * 512, write_bytes = ws * 512, dio_systime = now\<rparr>)"
    if "r \<in> set (diskstats_rows body)" for r body
    using that diskstats_row_name(2)
    by (fastforce simp: diskstats_rows_def List.map_filter_def dio_of_def linux_row_def cstr_copy_def strval_append_NUL)
  obtain p n g' w' where a: "sg_get_disk_io_stats pf now (Some g) w = Done ((p, n), Some g', w')" "heap_ok w'"
     "p \<noteq> 0 \<longleftrightarrow> disk_reading pf now \<noteq> None"
     "if p = 0 then n = 0 \<and> error (err (wenv w')) \<noteq> SG_ERROR_NONE
      else p = g' SG_DISK_IO_NOW_IDX \<and> error (err (wenv w')) = SG_ERROR_NONE \<and>
        (\<exists>xs vs. vec_at sg_disk_io_stats_vector_init_info dio_ok p xs w' \<and> unat n = length xs \<and>
          disk_reading pf now = Some vs \<and> length xs = length vs \<and> map dio_view xs = vs)"
    using dacc.access_ok [of pf w g SG_DISK_IO_NOW_IDX ys now, OF assms(3,1,4)] assms(2)
    unfolding sg_get_disk_io_stats_def by auto
  show ?thesis
  proof (cases pf)
    case None
    with a show ?thesis by (auto simp: disk_reading_def)
  next
    case (Some body)
    have "map (\<lambda>r. dio_of now (linux_row r)) (diskstats_rows body) =
        map (\<lambda>(nm, rs, ws). \<lparr>disk_name = CStr (nm @ [NUL]), read_bytes = rs * 512, write_bytes = ws * 512,
               dio_systime = now\<rparr>) (diskstats_rows body)"
      using nm by (intro map_cong) auto
    with Some a show ?thesis by (auto simp: disk_reading_def diskstats_rows_def)
  qed
qed


section \<open>Lines as the kernel prints them\<close>

text \<open>
  A line as \<^verbatim>\<open>diskstats_show\<close> of the kernel prints it: the numbers of the device right-justified in 4 and 7
  columns, the name, and the counters, eleven or more by the version of the kernel, each behind a blank.
\<close>

definition disk_line :: "nat \<times> nat \<times> string \<times> nat list \<Rightarrow> string" where
  "disk_line d = (case d of (major, minor, nm, ns) \<Rightarrow>
     replicate (4 - length (dec_string major)) CHR '' '' @ dec_string major @ '' '' @
     replicate (7 - length (dec_string minor)) CHR '' '' @ dec_string minor @ '' '' @ nm @ print_nums ns)"

definition disk_entry_ok :: "nat \<times> nat \<times> string \<times> nat list \<Rightarrow> bool" where
  "disk_entry_ok d \<longleftrightarrow> (case d of (major, minor, nm, ns) \<Rightarrow>
     nm \<noteq> [] \<and> length nm \<le> 99 \<and> list_all (\<lambda>c. \<not> is_space c) nm \<and> 7 \<le> length ns \<and> ns ! 2 < 2 ^ 64 \<and> ns ! 6 < 2 ^ 64)"

lemma scan_skip_int:
  "\<forall>c \<in> set sp. is_space c \<Longrightarrow> s = [] \<or> \<not> is_digit (hd s) \<Longrightarrow> sscanf (FSpace # FSkipInt # fs) (sp @ dec_string n @ s) = sscanf fs s"
  using scan_int_dec [of sp s n] scan_int_dec [of "[]" s n] by (simp add: scan_int_skip)

lemma scan_next_number:
  "s = [] \<or> \<not> is_digit (hd s) \<Longrightarrow> n < 2 ^ 64 \<Longrightarrow> sscanf (FSpace # FULL # fs) (CHR '' '' # dec_string n @ s) = VNum (word_of_nat n) # sscanf fs s"
  using scan_int_dec [of "[]" s n] by (simp add: scan_int_skip to_ull_small is_space_def)

lemma diskstats_row_fields:
  assumes "nm \<noteq> []" "length nm \<le> 99" "list_all (\<lambda>c. \<not> is_space c) nm" "r < 2 ^ 64" "ws < 2 ^ 64" "rest = [] \<or> \<not> is_digit (hd rest)"
  shows "sscanf diskstats_format (replicate i CHR '' '' @ dec_string major @ CHR '' '' # replicate j CHR '' '' @ dec_string minor @
           CHR '' '' # nm @ CHR '' '' # dec_string rio @ CHR '' '' # dec_string rmerge @ CHR '' '' # dec_string r @
           CHR '' '' # dec_string rticks @ CHR '' '' # dec_string wio @ CHR '' '' # dec_string wmerge @ CHR '' '' # dec_string ws @ rest) =
         [VStr nm, VNum (word_of_nat r), VNum (word_of_nat ws)]"
proof -
  have sp: "CHR '' '' # s = [] \<or> \<not> is_digit (hd (CHR '' '' # s))" for s by (simp add: is_digit_def)
  have b: "\<forall>c \<in> set (replicate i CHR '' ''). is_space c" "\<forall>c \<in> set (CHR '' '' # replicate j CHR '' ''). is_space c" by (auto simp: is_space_def)
  have j: "sscanf (FSpace # FSkipInt # fs) (CHR '' '' # replicate j CHR '' '' @ dec_string n @ s) = sscanf fs s"
    if "s = [] \<or> \<not> is_digit (hd s)" for fs n s using scan_skip_int [OF b(2) that] by simp
  have skip: "sscanf (FSpace # FSkipInt # fs) (CHR '' '' # dec_string n @ s) = sscanf fs s"
    if "s = [] \<or> \<not> is_digit (hd s)" for fs n s using scan_skip_int [of "'' ''" s fs n] that by (simp add: is_space_def)
  have str: "sscanf (FSpace # FStr 99 # fs) (CHR '' '' # nm @ CHR '' '' # s) = VStr nm # sscanf fs (CHR '' '' # s)" for fs s
    using assms(1-3) by (simp add: scan_str_word is_space_def list_all_iff)
  show ?thesis
    unfolding diskstats_format_def
    by (simp only: scan_skip_int [OF b(1)] j skip scan_next_number str sp assms(4-6) sscanf.simps(1) simp_thms)
qed

lemma disk_line_row:
  assumes "disk_entry_ok (major, minor, nm, ns)" "line_ok 255 (disk_line (major, minor, nm, ns))"
  shows "diskstats_row (disk_line (major, minor, nm, ns) @ [CHR 0x0A]) = Some (nm, word_of_nat (ns ! 2), word_of_nat (ns ! 6))"
proof -
  have ok: "nm \<noteq> []" "length nm \<le> 99" "list_all (\<lambda>c. \<not> is_space c) nm" "7 \<le> length ns" "ns ! 2 < 2 ^ 64" "ns ! 6 < 2 ^ 64"
    using assms(1) by (simp_all add: disk_entry_ok_def)
  have "ns = map ((!) ns) [0..<7] @ drop 7 ns"
    using ok(4) by (intro nth_equalityI) (auto simp: nth_append)
  also have "[0..<7] = [0, 1, 2, 3, 4, 5, 6 :: nat]" by code_simp
  finally obtain a0 a1 a3 a4 a5 where ns: "ns = a0 # a1 # ns ! 2 # a3 # a4 # a5 # ns ! 6 # drop 7 ns" by auto
  let ?rest = "print_nums (drop 7 ns) @ [CHR 0x0A]"
  have rest: "?rest = [] \<or> \<not> is_digit (hd ?rest)" by (cases "drop 7 ns") (auto simp: is_digit_def)
  have pn: "print_nums ns = CHR '' '' # dec_string a0 @ CHR '' '' # dec_string a1 @ CHR '' '' # dec_string (ns ! 2) @
      CHR '' '' # dec_string a3 @ CHR '' '' # dec_string a4 @ CHR '' '' # dec_string a5 @ CHR '' '' # dec_string (ns ! 6) @ print_nums (drop 7 ns)"
    by (subst ns) simp
  have l: "disk_line (major, minor, nm, ns) @ [CHR 0x0A] =
      replicate (4 - length (dec_string major)) CHR '' '' @ dec_string major @ CHR '' '' # replicate (7 - length (dec_string minor)) CHR '' '' @ dec_string minor @
      CHR '' '' # nm @ CHR '' '' # dec_string a0 @ CHR '' '' # dec_string a1 @ CHR '' '' # dec_string (ns ! 2) @
      CHR '' '' # dec_string a3 @ CHR '' '' # dec_string a4 @ CHR '' '' # dec_string a5 @ CHR '' '' # dec_string (ns ! 6) @ ?rest"
    unfolding disk_line_def prod.case pn by simp
  have "strval (disk_line (major, minor, nm, ns) @ [CHR 0x0A]) = disk_line (major, minor, nm, ns) @ [CHR 0x0A]"
    using assms(2) by (intro strval_id) (simp add: line_ok_def nul_free_def)
  then show ?thesis
    unfolding diskstats_row_def using diskstats_row_fields [OF ok(1-3,5,6) rest] l by (simp only: list.case sval.case)
qed

lemma disk_text_rows:
  assumes "list_all (line_ok 255) (map disk_line ds)" "list_all disk_entry_ok ds"
  shows "diskstats_rows (text_of (map disk_line ds)) = map (\<lambda>(major, minor, nm, ns). (nm, word_of_nat (ns ! 2), word_of_nat (ns ! 6))) ds"
proof -
  have "list_all (\<lambda>d. diskstats_row (disk_line d @ [CHR 0x0A]) = Some (case d of (major, minor, nm, ns) \<Rightarrow> (nm, word_of_nat (ns ! 2), word_of_nat (ns ! 6)))) ds"
    using assms disk_line_row by (fastforce simp: list_all_iff)
  then show ?thesis
    unfolding diskstats_rows_def file_lines_text [OF assms(1)] by (induction ds) (simp_all add: List.map_filter_simps)
qed

lemma disk_text_feasible:
  assumes "list_all (line_ok 255) (map disk_line ds)" "list_all disk_entry_ok ds" "length ds \<le> 2 ^ 31"
  shows "disk_feasible (Some (text_of (map disk_line ds)))"
  using assms(3) by (simp add: disk_feasible_def disk_text_rows [OF assms(1,2)] room_def sg_disk_io_stats_vector_init_info_def)

section \<open>Properties\<close>

text \<open>C14: \<^verbatim>\<open>sg_get_disk_io_stats\<close> on Linux, the first call and every later one, memory sufficing: for a \<^verbatim>\<open>/proc/diskstats\<close>
  in the layout of the kernel (at most 2^31 lines of fewer than 255 characters, names of at most 99), the
  result is a vector of the thread with one item per line, in order, with the name and 512 times the third
  and the seventh counter of the line, the sectors read and written; the error state is clear. When the
  file cannot be opened, the result is NULL with no entries and an error is recorded.\<close>

theorem sg_get_disk_io_stats_correct:
  assumes "heap_ok w" "sched (wenv w) = []"
    and "list_all (line_ok 255) (map disk_line ds)" "list_all disk_entry_ok ds" "length ds \<le> 2 ^ 31"
    and "g SG_DISK_IO_NOW_IDX = 0 \<or> vec_at sg_disk_io_stats_vector_init_info dio_ok (g SG_DISK_IO_NOW_IDX) ys w"
  shows "\<exists>p n g' w'. sg_get_disk_io_stats (if present then Some (text_of (map disk_line ds)) else None) now (Some g) w =
       Done ((p, n), Some g', w') \<and> heap_ok w' \<and>
     (if \<not> present then p = 0 \<and> n = 0 \<and> error (err (wenv w')) \<noteq> SG_ERROR_NONE
      else p \<noteq> 0 \<and> p = g' SG_DISK_IO_NOW_IDX \<and> error (err (wenv w')) = SG_ERROR_NONE \<and>
        (\<exists>xs. vec_at sg_disk_io_stats_vector_init_info dio_ok p xs w' \<and> unat n = length xs \<and>
           map dio_view xs = map (\<lambda>(major, minor, nm, ns).
             \<lparr>disk_name = CStr (nm @ [NUL]), read_bytes = word_of_nat (ns ! 2) * 512, write_bytes = word_of_nat (ns ! 6) * 512,
              dio_systime = now\<rparr>) ds))"
proof (cases present)
  case True
  have rows: "map (\<lambda>(nm, rs, ws). \<lparr>disk_name = CStr (nm @ [NUL]), read_bytes = rs * 512, write_bytes = ws * 512, dio_systime = now\<rparr>)
       (List.map_filter diskstats_row (file_lines 255 (text_of (map disk_line ds)))) =
     map (\<lambda>(major, minor, nm, ns). \<lparr>disk_name = CStr (nm @ [NUL]), read_bytes = word_of_nat (ns ! 2) * 512,
       write_bytes = word_of_nat (ns ! 6) * 512, dio_systime = now\<rparr>) ds"
    unfolding disk_text_rows [OF assms(3,4), unfolded diskstats_rows_def] by (simp add: split_beta)
  from disk_access [of w "Some (text_of (map disk_line ds))" g ys now, OF assms(1,2) disk_text_feasible [OF assms(3-5)] assms(6)] True show ?thesis
    unfolding option.case rows by simp
next
  case False
  have "disk_feasible None" by (simp add: disk_feasible_def)
  from disk_access [of w None g ys now, OF assms(1,2) this assms(6)] False show ?thesis by simp
qed

definition sda_line :: "nat \<times> nat \<times> string \<times> nat list" where
  "sda_line = (8, 0, ''sda'', [1, 2, 30, 4, 5, 6, 7, 8, 0, 1, 2])"

lemma sda_line_ok:
  "list_all (line_ok 255) (map disk_line [sda_line])" "list_all disk_entry_ok [sda_line]" "length [sda_line] \<le> 2 ^ 31"
proof -
  have "disk_line sda_line = ''   8       0 sda 1 2 30 4 5 6 7 8 0 1 2''" by code_simp
  then show "list_all (line_ok 255) (map disk_line [sda_line])" by (simp add: line_ok_def nul_free_def)
  show "list_all disk_entry_ok [sda_line]" "length [sda_line] \<le> 2 ^ 31"
    by (simp_all add: disk_entry_ok_def sda_line_def is_space_def)
qed

lemma sg_get_disk_io_stats_correct_witness:
  "\<exists>p n g' w' xs. sg_get_disk_io_stats (Some (text_of (map disk_line [sda_line]))) 60 (Some (\<lambda>_. 0)) (world_of [] (sda_stats 0)) =
       Done ((p, n), Some g', w') \<and> vec_at sg_disk_io_stats_vector_init_info dio_ok p xs w' \<and>
     map dio_view xs = [\<lparr>disk_name = CStr (''sda'' @ [NUL]), read_bytes = 15360, write_bytes = 3584, dio_systime = 60\<rparr>]"
proof -
  have sc: "sched (wenv (world_of [] (sda_stats 0))) = []" by (simp add: world_of_def fresh_env_def)
  have g: "(\<lambda>_. 0) SG_DISK_IO_NOW_IDX = (0 :: nat) \<or> vec_at sg_disk_io_stats_vector_init_info dio_ok ((\<lambda>_. 0) SG_DISK_IO_NOW_IDX) [] (world_of [] (sda_stats 0))"
    by simp
  show ?thesis
    using sg_get_disk_io_stats_correct [where present = True and now = 60, OF world_of_ok sc sda_line_ok g]
  proof (elim exE conjE, goal_cases)
    case (1 p n g' w')
    then show ?case by (auto simp: sda_line_def)
  qed
qed



end
