(* ===== verification/Access_Sized.thy ===== *)
theory Access_Sized
  imports Access_Multi
begin

text \<open>
  Gathering functions that know the number of items beforehand: the vector is brought to that size at once,
  and the rows are written into its items from the first on. Items that no row reaches stay as they were
  initialised.
\<close>

section \<open>Filling a vector of known size\<close>

fun put_slots :: "('r \<Rightarrow> 'a \<Rightarrow> env \<Rightarrow> (sg_error \<times> 'a \<times> env) outcome) \<Rightarrow> 'r list \<Rightarrow> nat \<Rightarrow> 'a multi_int" where
  "put_slots put [] i v w = Done (SG_ERROR_NONE, v, w)"
| "put_slots put (r # rs) i v w =
     andthen (read_item v i w) (\<lambda>x.
     andthen (put r x (wenv w)) (\<lambda>(rc, x, e).
     andthen (write_item v i x (set_env e w)) (\<lambda>w.
       if rc \<noteq> SG_ERROR_NONE then Done (rc, v, w) else put_slots put rs (Suc i) v w)))"

definition sized_rows ::
  "'a sg_vector_init_info \<Rightarrow> ('r \<Rightarrow> 'a \<Rightarrow> env \<Rightarrow> (sg_error \<times> 'a \<times> env) outcome) \<Rightarrow> nat \<Rightarrow> 'r list \<Rightarrow> 'a multi_int" where
  "sized_rows ty put n rs v w =
     andthen (VECTOR_UPDATE v (word_of_nat n) ty w) (\<lambda>(res, v, w).
       case res of Inl rc \<Rightarrow> Done (rc, v, w) | Inr _ \<Rightarrow> put_slots put rs 0 v w)"

context row_items
begin

text \<open>The rows overwrite the items from \<open>i\<close> on and no other.\<close>

lemma put_slots_ok:
  assumes "heap_ok w" "vload v w = Done b" "vec_ok ty ok b" "i + length rs \<le> length (contents b)" "list_all row_ok rs"
  shows "\<exists>rc w' b'. put_slots put rs i v w = Done (rc, v, w') \<and> heap_ok w' \<and> replaced v v w w' \<and> vload v w' = Done b' \<and> vec_ok ty ok b' \<and>
     length (contents b') = length (contents b) \<and> length (slots b') = length (slots b) \<and>
     (sched (wenv w) = [] \<longrightarrow> rc = SG_ERROR_NONE \<and> wenv w' = wenv w \<and>
        take i (contents b') = take i (contents b) \<and> map view (take (length rs) (drop i (contents b'))) = map row rs \<and>
        drop (i + length rs) (contents b') = drop (i + length rs) (contents b)) \<and>
     (rc \<noteq> SG_ERROR_NONE \<longrightarrow> error (err (wenv w')) = rc)"
  using assms
proof (induction rs arbitrary: i w b)
  case Nil
  then show ?case by (auto simp: replaced_def)
next
  case (Cons r rs)
  have i: "i < length (contents b)" using Cons.prems(4) by simp
  have okx: "ok (contents b ! i)" using vec_ok_contents [OF Cons.prems(3)] i by simp
  obtain rc y e where p: "put r (contents b ! i) (wenv w) = Done (rc, y, e)" "ok y"
      "sched (wenv w) = [] \<longrightarrow> rc = SG_ERROR_NONE \<and> e = wenv w \<and> view y = row r" "rc \<noteq> SG_ERROR_NONE \<longrightarrow> error (err e) = rc"
    using put_law [OF _ okx, of r "wenv w"] Cons.prems(5) by auto
  note sl = set_slot [OF Cons.prems(3) i p(2)]
  let ?b = "b\<lparr>slots := (slots b)[i := y]\<rparr>"
  let ?w = "vstore v ?b (set_env e w)"
  have v: "v \<noteq> 0" "blocks w v \<noteq> None" using Cons.prems(2) by (simp_all add: vload_Done_iff)
  have st: "put_slots put (r # rs) i v w = (if rc \<noteq> SG_ERROR_NONE then Done (rc, v, ?w) else put_slots put rs (Suc i) v ?w)"
    using Cons.prems(2) sl(1,2) p(1) by (simp add: read_item_def write_item_def vload_set_env)
  have h: "heap_ok ?w" "vload v ?w = Done ?b" "replaced v v w ?w"
    using Cons.prems(1) v by (auto simp: heap_ok_vstore vload_vstore replaced_def)
  show ?case
  proof (cases "rc = SG_ERROR_NONE")
    case False
    with st h sl p(3,4) show ?thesis by (intro exI [of _ rc] exI [of _ ?w] exI [of _ ?b]) auto
  next
    case True
    have rok: "list_all row_ok rs" using Cons.prems(5) by simp
    have le: "Suc i + length rs \<le> length (contents ?b)" using Cons.prems(4) sl(4) by simp
    obtain rc' w' b' where q: "put_slots put rs (Suc i) v ?w = Done (rc', v, w')" "heap_ok w'" "replaced v v ?w w'" "vload v w' = Done b'" "vec_ok ty ok b'"
       "length (contents b') = length (contents ?b)" "length (slots b') = length (slots ?b)"
       "sched (wenv ?w) = [] \<longrightarrow> rc' = SG_ERROR_NONE \<and> wenv w' = wenv ?w \<and> take (Suc i) (contents b') = take (Suc i) (contents ?b) \<and>
          map view (take (length rs) (drop (Suc i) (contents b'))) = map row rs \<and>
          drop (Suc i + length rs) (contents b') = drop (Suc i + length rs) (contents ?b)"
       "rc' \<noteq> SG_ERROR_NONE \<longrightarrow> error (err (wenv w')) = rc'"
      using Cons.IH [OF h(1,2) sl(3) le rok] by (elim exE conjE)
    have rp: "replaced v v w w'" by (rule replaced_trans [OF h(3) q(3)]) simp
    have "take i (contents b') = take i (contents b) \<and> map view (take (length (r # rs)) (drop i (contents b'))) = map row (r # rs) \<and>
        drop (i + length (r # rs)) (contents b') = drop (i + length (r # rs)) (contents b)" if sc: "sched (wenv w) = []"
    proof -
      have t: "take (Suc i) (contents b') = take (Suc i) ((contents b)[i := y])" using q(8) p(3) sc sl(4) by simp
      have li: "i < length (contents b')" using q(6) i sl(4) by simp
      have "take i (take (Suc i) (contents b')) = take i (take (Suc i) ((contents b)[i := y]))" using t by simp
      then have t1: "take i (contents b') = take i (contents b)" by (simp add: min_def)
      have "take (Suc i) (contents b') ! i = take (Suc i) ((contents b)[i := y]) ! i" using t by simp
      then have t2: "contents b' ! i = y" using i by simp
      have "drop i (contents b') = y # drop (Suc i) (contents b')" using li t2 by (simp add: Cons_nth_drop_Suc [symmetric])
      with t1 q(8) p(3) sc sl(4) show ?thesis by (simp add: drop_update_cancel)
    qed
    with st True q rp p(3) sl(4) show ?thesis by (intro exI [of _ rc'] exI [of _ w'] exI [of _ b']) auto
  qed
qed

text \<open>
  The whole: rows for the first items, the rest as initialised. An error leaves a vector (or none) and is the
  one recorded.
\<close>

lemma sized_rows_ok:
  assumes w: "heap_ok w" "vec_at ty ok v [] w" and rs: "length rs \<le> n" "n \<noteq> 0" "list_all row_ok rs" and rm: "room ty (n + 2 ^ 33)"
  shows "\<exists>rc v' w'. sized_rows ty put n rs v w = Done (rc, v', w') \<and> heap_ok w' \<and> replaced v v' w w' \<and>
     (v' \<noteq> 0 \<longrightarrow> (\<exists>xs. vec_at ty ok v' xs w' \<and> (roomy ty v w \<longrightarrow> roomy ty v' w') \<and> length xs = n \<and>
        (sched (wenv w) = [] \<longrightarrow> map view (take (length rs) xs) = map row rs \<and> (\<exists>ys. drop (length rs) xs = map (raw_init ty) ys)))) \<and>
     (sched (wenv w) = [] \<longrightarrow> rc = SG_ERROR_NONE \<and> wenv w' = wenv w) \<and>
     (if rc = SG_ERROR_NONE then v' \<noteq> 0 else error (err (wenv w')) = rc)"
proof -
  obtain b where b: "vload v w = Done b" "vec_ok ty ok b" "contents b = []" using w(2) by (auto simp: vec_at_def)
  have u: "unat (word_of_nat n :: size_t) = n" by (rule unat_count [OF rm])
  then have n0: "(word_of_nat n :: size_t) \<noteq> 0" using rs(2) by auto
  have rm': "room ty (unat (word_of_nat n :: size_t) + 2 ^ 33)" using u rm by simp
  obtain res v1 w1 where g: "VECTOR_UPDATE v (word_of_nat n) ty w = Done (res, v1, w1)" "heap_ok w1" "replaced v v1 w w1"
     "case res of
        Inl rc \<Rightarrow> v1 = 0 \<and> rc = SG_ERROR_MALLOC \<and> error (err (wenv w1)) = rc \<and> sched (wenv w) \<noteq> []
      | Inr _ \<Rightarrow> (sched (wenv w) = [] \<longrightarrow> wenv w1 = wenv w) \<and>
          (\<exists>b' ys. vload v1 w1 = Done b' \<and> vec_ok ty ok b' \<and> contents b' = take (unat (word_of_nat n :: size_t)) (contents b) @ map (raw_init ty) ys \<and>
             length (contents b') = unat (word_of_nat n :: size_t) \<and> (room_for ty b \<longrightarrow> room_for ty b'))"
    using update_ok [OF w(1) b(1,2) n0 rm'] by (elim exE conjE)
  show ?thesis
  proof (cases res)
    case (Inl rc)
    with g show ?thesis by (auto simp: sized_rows_def)
  next
    case (Inr uu)
    with g(4) b(3) obtain b1 ys where b1: "vload v1 w1 = Done b1" "vec_ok ty ok b1" "contents b1 = map (raw_init ty) ys" "length (contents b1) = n"
       "room_for ty b \<longrightarrow> room_for ty b1" and e1: "sched (wenv w) = [] \<longrightarrow> wenv w1 = wenv w"
      using u by auto
    have le: "0 + length rs \<le> length (contents b1)" using b1(4) rs(1) by simp
    obtain rc w' b' where p: "put_slots put rs 0 v1 w1 = Done (rc, v1, w')" "heap_ok w'" "replaced v1 v1 w1 w'" "vload v1 w' = Done b'" "vec_ok ty ok b'"
       "length (contents b') = length (contents b1)" "length (slots b') = length (slots b1)"
       "sched (wenv w1) = [] \<longrightarrow> rc = SG_ERROR_NONE \<and> wenv w' = wenv w1 \<and> take 0 (contents b') = take 0 (contents b1) \<and>
          map view (take (length rs) (drop 0 (contents b'))) = map row rs \<and>
          drop (0 + length rs) (contents b') = drop (0 + length rs) (contents b1)"
       "rc \<noteq> SG_ERROR_NONE \<longrightarrow> error (err (wenv w')) = rc"
      using put_slots_ok [OF g(2) b1(1,2) le rs(3)] by (elim exE conjE)
    have "replaced v v1 w w'" by (rule replaced_trans [OF g(3) p(3)]) simp
    moreover have "v1 \<noteq> 0" using p(4) by (simp add: vload_Done_iff)
    moreover have "\<exists>xs. vec_at ty ok v1 xs w' \<and> (roomy ty v w \<longrightarrow> roomy ty v1 w') \<and> length xs = n \<and>
        (sched (wenv w) = [] \<longrightarrow> map view (take (length rs) xs) = map row rs \<and> (\<exists>ys. drop (length rs) xs = map (raw_init ty) ys))"
    proof (intro exI conjI)
      show "vec_at ty ok v1 (contents b') w'" using p(4,5) by (simp add: vec_at_def)
      show "roomy ty v w \<longrightarrow> roomy ty v1 w'" using b(1) b1(5) p(4,7) by (auto simp: roomy_def vload_Done_iff room_for_def)
      show "length (contents b') = n" using p(6) b1(4) by simp
      show "sched (wenv w) = [] \<longrightarrow> map view (take (length rs) (contents b')) = map row rs \<and> (\<exists>ys. drop (length rs) (contents b') = map (raw_init ty) ys)"
        using p(8) e1 b1(3) by (auto simp: drop_map)
    qed
    ultimately show ?thesis
      using g(1) Inr p(1,2,8,9) e1 by (intro exI [of _ rc] exI [of _ v1] exI [of _ w']) (auto simp: sized_rows_def)
  qed
qed

text \<open>A function that sizes the vector for its rows and fills them in meets the law of a source.\<close>

lemma sized_law:
  assumes "room ty (length rs + 2 ^ 33)" "list_all row_ok rs" "rs \<noteq> []" and w: "heap_ok w" and v: "vec_at ty ok v [] w"
  shows "\<exists>rc v' w'. sized_rows ty put (length rs) rs v w = Done (rc, v', w') \<and> heap_ok w' \<and> replaced v v' w w' \<and>
       (v' \<noteq> 0 \<longrightarrow> (\<exists>xs. vec_at ty ok v' xs w' \<and> (roomy ty v w \<longrightarrow> roomy ty v' w') \<and>
          (rc = SG_ERROR_NONE \<longrightarrow> (\<exists>vs. Some (map row rs) = Some vs \<and> length xs = length vs)) \<and>
          (rc = SG_ERROR_NONE \<and> sched (wenv w) = [] \<longrightarrow> Some (map row rs) = Some (map view xs)))) \<and>
       (sched (wenv w) = [] \<longrightarrow> (rc = SG_ERROR_NONE \<longleftrightarrow> Some (map row rs) \<noteq> None) \<and> sched (wenv w') = []) \<and>
       (if rc = SG_ERROR_NONE then v' \<noteq> 0 else error (err (wenv w')) = rc)"
proof -
  have n: "length rs \<noteq> 0" using assms(3) by simp
  obtain rc v' w' where r: "sized_rows ty put (length rs) rs v w = Done (rc, v', w')" "heap_ok w'" "replaced v v' w w'"
     "v' \<noteq> 0 \<longrightarrow> (\<exists>xs. vec_at ty ok v' xs w' \<and> (roomy ty v w \<longrightarrow> roomy ty v' w') \<and> length xs = length rs \<and>
        (sched (wenv w) = [] \<longrightarrow> map view (take (length rs) xs) = map row rs \<and> (\<exists>ys. drop (length rs) xs = map (raw_init ty) ys)))"
     "sched (wenv w) = [] \<longrightarrow> rc = SG_ERROR_NONE \<and> wenv w' = wenv w" "if rc = SG_ERROR_NONE then v' \<noteq> 0 else error (err (wenv w')) = rc"
    using sized_rows_ok [OF w v order_refl n assms(2,1)] by (elim exE conjE)
  then show ?thesis by auto
qed

text \<open>From NULL the vector is made.\<close>

lemma sized_rows_null:
  assumes w: "heap_ok w" "sched (wenv w) = []" and rs: "rs \<noteq> []" "list_all row_ok rs" "length rs \<le> 2 ^ 31" and rm: "room ty (length rs + 2 ^ 33)"
  shows "\<exists>v' b' w'. sized_rows ty put (length rs) rs 0 w = Done (SG_ERROR_NONE, v', w') \<and> heap_ok w' \<and> wenv w' = wenv w \<and> v' \<noteq> 0 \<and>
     blocks w v' = None \<and> (\<forall>u. u \<noteq> v' \<longrightarrow> blocks w' u = blocks w u) \<and> vload v' w' = Done b' \<and> vec_ok ty ok b' \<and>
     map view (contents b') = map row rs"
proof -
  let ?n = "word_of_nat (length rs) :: size_t"
  have u: "unat ?n = length rs" by (rule unat_count [OF rm])
  then have n0: "max ?n ?n \<noteq> 0" using rs(1) by auto
  obtain r where r: "block_shift_loop ?n 0 = Done r" "r \<le> 31" using block_shift_loop_correct [of ?n 0] u rs(3) by auto
  have ur: "unat (word_of_nat r :: size_t) = r" using r(2) by (intro unat_of_nat_size) simp
  have r32: "unat (word_of_nat r :: size_t) < 32" using ur r(2) by simp
  have "(2::nat) ^ r \<le> 2 ^ 32" using r(2) by (intro power_increasing) auto
  then have "rounded (length rs) r \<le> length rs + 2 ^ 33" using rounded_less [of "length rs" r] rs(1) by simp
  then have rm': "room ty (rounded (unat (max ?n ?n)) (unat (word_of_nat r :: size_t)))" using u ur room_mono [OF rm] by simp
  obtain v w1 b where c: "sg_vector_create_int (word_of_nat r) ?n ?n ty w = Done (v, w1)" "heap_ok w1" "wenv w1 = wenv w" "v = next_addr w"
     "blocks w1 = (blocks w)(v \<mapsto> b)" "vec_ok ty ok b" "used_count (hdr b) = ?n" "contents b = replicate (unat ?n) (raw_init ty (junk_item w))"
    using create_int_len [OF w(1) r32 n0 rm'] w(2) by auto
  have v: "v \<noteq> 0" "blocks w v = None" using w(1) c(4) heap_ok_fresh [OF w(1)] by (simp_all add: heap_ok_def)
  have ld: "vload v w1 = Done b" using c(5) v(1) by (simp add: vload_Done_iff)
  have up: "VECTOR_UPDATE 0 ?n ty w = Done (Inr (), v, w1)"
    using c(1,7) ld v(1) r(1) by (simp add: VECTOR_UPDATE_def VECTOR_CREATE_OR_RESIZE_def sg_vector_create_def)
  have len: "length (contents b) = length rs" using c(8) u by simp
  then have le: "0 + length rs \<le> length (contents b)" by simp
  obtain rc w' b' where p: "put_slots put rs 0 v w1 = Done (rc, v, w')" "heap_ok w'" "replaced v v w1 w'" "vload v w' = Done b'" "vec_ok ty ok b'"
     "length (contents b') = length (contents b)"
     "sched (wenv w1) = [] \<longrightarrow> rc = SG_ERROR_NONE \<and> wenv w' = wenv w1 \<and> take 0 (contents b') = take 0 (contents b) \<and>
        map view (take (length rs) (drop 0 (contents b'))) = map row rs \<and> drop (0 + length rs) (contents b') = drop (0 + length rs) (contents b)"
    using put_slots_ok [OF c(2) ld c(6) le rs(2)] by (elim exE conjE) (rule that)
  have "\<forall>u. u \<noteq> v \<longrightarrow> blocks w' u = blocks w u" using p(3) c(5) by (auto simp: replaced_def)
  moreover have "rc = SG_ERROR_NONE" "wenv w' = wenv w" "map view (contents b') = map row rs" using p(6,7) c(3) w(2) len by auto
  ultimately show ?thesis using up p(1,2,4,5) v by (auto simp: sized_rows_def)
qed

end

section \<open>Writing to fresh items\<close>

text \<open>Two ways to write a row that agree on items that are \<open>fresh\<close> agree on a run of such items.\<close>

lemma put_slots_cong:
  assumes "vload v w = Done b" "\<And>j. i \<le> j \<Longrightarrow> j < length (slots b) \<Longrightarrow> j < i + length rs \<Longrightarrow> fresh (slots b ! j)"
    and "\<And>r x e. fresh x \<Longrightarrow> put r x e = put' r x e"
  shows "put_slots put rs i v w = put_slots put' rs i v w"
  using assms(1,2)
proof (induction rs arbitrary: i w b)
  case (Cons r rs)
  have tail: "put_slots put rs (Suc i) v (vstore v (b\<lparr>slots := (slots b)[i := y]\<rparr>) (set_env e w)) =
      put_slots put' rs (Suc i) v (vstore v (b\<lparr>slots := (slots b)[i := y]\<rparr>) (set_env e w))" for y e
    using Cons.prems by (intro Cons.IH [of _ "b\<lparr>slots := (slots b)[i := y]\<rparr>"]) (auto simp: vload_vstore vload_Done_iff)
  show ?case
  proof (cases "i < length (slots b)")
    case True
    then have "put r (slots b ! i) (wenv w) = put' r (slots b ! i) (wenv w)" using Cons.prems(2) assms(3) by simp
    with True Cons.prems(1) tail show ?thesis
      by (cases "put' r (slots b ! i) (wenv w)") (auto simp: read_item_def write_item_def vload_set_env split: prod.splits)
  qed (use Cons.prems(1) in \<open>simp add: read_item_def\<close>)
qed simp

context vec_items
begin

lemma sized_rows_cong:
  assumes w: "heap_ok w" "vec_at ty ok v [] w" and n: "length rs \<le> n" "n \<noteq> 0" "room ty (n + 2 ^ 33)"
    and put: "\<And>r y e. put r (raw_init ty y) e = put' r (raw_init ty y) e"
  shows "sized_rows ty put n rs v w = sized_rows ty put' n rs v w"
proof -
  obtain b where b: "vload v w = Done b" "vec_ok ty ok b" "contents b = []" using w(2) by (auto simp: vec_at_def)
  have u: "unat (word_of_nat n :: size_t) = n" by (rule unat_count [OF n(3)])
  then have n0: "(word_of_nat n :: size_t) \<noteq> 0" using n(2) by auto
  have rm: "room ty (unat (word_of_nat n :: size_t) + 2 ^ 33)" using u n(3) by simp
  obtain res v1 w1 where g: "VECTOR_UPDATE v (word_of_nat n) ty w = Done (res, v1, w1)" and
     c: "case res of
        Inl rc \<Rightarrow> v1 = 0 \<and> rc = SG_ERROR_MALLOC \<and> error (err (wenv w1)) = rc \<and> sched (wenv w) \<noteq> []
      | Inr _ \<Rightarrow> (sched (wenv w) = [] \<longrightarrow> wenv w1 = wenv w) \<and>
          (\<exists>b' ys. vload v1 w1 = Done b' \<and> vec_ok ty ok b' \<and> contents b' = take (unat (word_of_nat n :: size_t)) (contents b) @ map (raw_init ty) ys \<and>
             length (contents b') = unat (word_of_nat n :: size_t) \<and> (room_for ty b \<longrightarrow> room_for ty b'))"
    using update_ok [OF w(1) b(1,2) n0 rm] by (elim exE conjE) (rule that)
  show ?thesis
  proof (cases res)
    case (Inl rc)
    with g show ?thesis by (simp add: sized_rows_def)
  next
    case (Inr uu)
    with c b(3) obtain b1 ys where b1: "vload v1 w1 = Done b1" "contents b1 = map (raw_init ty) ys" "length (contents b1) = n"
      using u by auto
    have "slots b1 ! j \<in> range (raw_init ty)" if "j < n" for j
    proof -
      have "contents b1 ! j = slots b1 ! j" using that b1(3) by (auto simp: contents_def)
      moreover have "contents b1 ! j \<in> range (raw_init ty)" using that b1(2,3) by simp
      ultimately show ?thesis by simp
    qed
    then have "put_slots put rs 0 v1 w1 = put_slots put' rs 0 v1 w1"
      using n(1) put by (intro put_slots_cong [OF b1(1), where fresh = "\<lambda>x. x \<in> range (raw_init ty)"]) auto
    with g Inr show ?thesis by (simp add: sized_rows_def)
  qed
qed

end

section \<open>The law of a source, step by step\<close>

text \<open>What \<open>multi_source\<close> asks of the outcome of a gathering function.\<close>

definition filled :: "'a sg_vector_init_info \<Rightarrow> ('a \<Rightarrow> bool) \<Rightarrow> ('a \<Rightarrow> 'v) \<Rightarrow> 'v list option \<Rightarrow> addr \<Rightarrow> 'a world
    \<Rightarrow> (sg_error \<times> addr \<times> 'a world) outcome \<Rightarrow> bool" where
  "filled ty ok view reading v w out \<longleftrightarrow> (\<exists>rc v' w'. out = Done (rc, v', w') \<and> heap_ok w' \<and> replaced v v' w w' \<and>
       (v' \<noteq> 0 \<longrightarrow> (\<exists>xs. vec_at ty ok v' xs w' \<and> (roomy ty v w \<longrightarrow> roomy ty v' w') \<and>
          (rc = SG_ERROR_NONE \<longrightarrow> (\<exists>vs. reading = Some vs \<and> length xs = length vs)) \<and>
          (rc = SG_ERROR_NONE \<and> sched (wenv w) = [] \<longrightarrow> reading = Some (map view xs)))) \<and>
       (sched (wenv w) = [] \<longrightarrow> (rc = SG_ERROR_NONE \<longleftrightarrow> reading \<noteq> None) \<and> sched (wenv w') = []) \<and>
       (if rc = SG_ERROR_NONE then v' \<noteq> 0 else error (err (wenv w')) = rc))"

lemma vec_at_set_env [simp]: "vec_at ty ok v xs (set_env e w) = vec_at ty ok v xs w"
  by (simp add: vec_at_def vload_set_env)

lemma roomy_set_env [simp]: "roomy ty v (set_env e w) = roomy ty v w"
  by (simp add: roomy_def vload_set_env)

text \<open>An error that leaves the vector alone.\<close>

lemma filled_error:
  assumes "heap_ok w" "vec_at ty ok v xs w" "rc \<noteq> SG_ERROR_NONE" "error (err e) = rc" "sched (wenv w) = [] \<Longrightarrow> reading = None \<and> sched e = []"
  shows "filled ty ok view reading v w (Done (rc, v, set_env e w))"
proof -
  have "v \<noteq> 0" "replaced v v w (set_env e w)" using vec_at_nonnull [OF assms(2)] by (auto simp: replaced_def)
  with assms show ?thesis by (auto simp: filled_def)
qed

text \<open>Memory taken before the vector is touched makes no difference.\<close>

lemma filled_env:
  assumes "filled ty ok view reading v (set_env e w) out" "sched (wenv w) = [] \<Longrightarrow> sched e = []"
  shows "filled ty ok view reading v w out"
proof -
  obtain rc v' w' where f: "out = Done (rc, v', w')" "heap_ok w'" "replaced v v' (set_env e w) w'"
     "v' \<noteq> 0 \<longrightarrow> (\<exists>xs. vec_at ty ok v' xs w' \<and> (roomy ty v (set_env e w) \<longrightarrow> roomy ty v' w') \<and>
          (rc = SG_ERROR_NONE \<longrightarrow> (\<exists>vs. reading = Some vs \<and> length xs = length vs)) \<and>
          (rc = SG_ERROR_NONE \<and> sched (wenv (set_env e w)) = [] \<longrightarrow> reading = Some (map view xs)))"
     "sched (wenv (set_env e w)) = [] \<longrightarrow> (rc = SG_ERROR_NONE \<longleftrightarrow> reading \<noteq> None) \<and> sched (wenv w') = []"
     "if rc = SG_ERROR_NONE then v' \<noteq> 0 else error (err (wenv w')) = rc"
    using assms(1) unfolding filled_def by (elim exE conjE)
  have "replaced v v' w w'" using f(3) by (simp add: replaced_def)
  with f assms(2) show ?thesis unfolding filled_def by (intro exI [of _ rc] exI [of _ v'] exI [of _ w']) fastforce
qed

text \<open>Memory for the answer, the answer, then the vector.\<close>

lemma filled_alloc:
  assumes w: "heap_ok w" and v: "vec_at ty ok v xs w" and q: "sched (wenv w) = [] \<Longrightarrow> c \<noteq> AFail \<and> sched e = []"
    and r1: "c = AFail \<Longrightarrow> rc1 \<noteq> SG_ERROR_NONE \<and> error (err e1) = rc1"
    and r2: "rc2 \<noteq> SG_ERROR_NONE" "error (err e2) = rc2" "sched e2 = sched e" "answer = None \<Longrightarrow> reading = None"
    and law: "\<And>rs. answer = Some rs \<Longrightarrow> filled ty ok view reading v (set_env e w) (f rs)"
  shows "filled ty ok view reading v w
    (if c = AFail then Done (rc1, v, set_env e1 w) else case answer of None \<Rightarrow> Done (rc2, v, set_env e2 w) | Some rs \<Rightarrow> f rs)"
proof -
  consider "c = AFail" | "c \<noteq> AFail" "answer = None" | rs where "c \<noteq> AFail" "answer = Some rs" by fastforce
  then show ?thesis
  proof cases
    case 1
    with q r1 filled_error [OF w v, of rc1 e1] show ?thesis by auto
  next
    case 2
    with q r2 filled_error [OF w v, of rc2 e2] show ?thesis by auto
  next
    case 3
    with q law filled_env [of ty ok view reading v e w "f rs"] show ?thesis by auto
  qed
qed

text \<open>The law for a vector made to measure, in these terms.\<close>

context row_items
begin

lemmas sized_filled = sized_law [folded filled_def]
lemmas rows_filled = rows_law [folded filled_def]
lemmas sized_agree = sized_rows_cong

end

end
