(* ===== verification/Valid_Fs.thy ===== *)
theory Valid_Fs
  imports C_Search Items Readings
begin

text \<open>
  The table of valid file system types of \<^verbatim>\<open>src/libstatgrab/disk_stats.c\<close>: an array of strings that
  \<^verbatim>\<open>init_valid_fs_types\<close> fills from what the platform reports, that callers may replace by
  \<^verbatim>\<open>sg_set_valid_filesystems\<close>, and in which \<^verbatim>\<open>is_valid_fs_type\<close> searches by bisection. The theory shows
  that the array is a faithful representation of a set of names, upper and lower case not distinguished.
\<close>

section \<open>Comparison\<close>

definition tolower :: "char \<Rightarrow> char" where
  "tolower c = (if 65 \<le> (of_char c :: nat) \<and> (of_char c :: nat) \<le> 90 then char_of ((of_char c :: nat) + 32) else c)"

definition strcasecmp :: "string \<Rightarrow> string \<Rightarrow> int" where
  "strcasecmp a b = strcmp (map tolower a) (map tolower b)"

text \<open>NULL, which stands for a gap, sorts behind every name.\<close>

fun cmp_valid_fs :: "string option \<Rightarrow> string option \<Rightarrow> int" where
  "cmp_valid_fs (Some a) (Some b) = strcasecmp a b"
| "cmp_valid_fs (Some a) None = - 1"
| "cmp_valid_fs None (Some b) = 1"
| "cmp_valid_fs None None = 0"

interpretation types: cmp_order cmp_valid_fs
proof
  show "cmp_valid_fs b a < 0 \<longleftrightarrow> 0 < cmp_valid_fs a b" for a b
    by (cases "(a, b)" rule: cmp_valid_fs.cases) (auto simp: strcasecmp_def names.cmp_flip)
  show "cmp_valid_fs a c \<le> 0" if "cmp_valid_fs a b \<le> 0" "cmp_valid_fs b c \<le> 0" for a b c
    using that by (cases a; cases b; cases c) (auto simp: strcasecmp_def intro: strcmp_le_trans)
qed

section \<open>The table\<close>

text \<open>The two static variables: the array (\<open>None\<close> for NULL) and how many of its entries count.\<close>

record fs_table =
  valid_file_systems :: "cstr list option"
  num_valid_file_systems :: nat

text \<open>The array up to the count, as a loop that reads all of it would find it.\<close>

definition table_entries :: "fs_table \<Rightarrow> cstr list outcome" where
  "table_entries t =
     (case valid_file_systems t of
        None \<Rightarrow> if num_valid_file_systems t = 0 then Done [] else Fault NullDeref
      | Some arr \<Rightarrow>
          if length arr < num_valid_file_systems t then Fault (OutOfBounds 0 (length arr))
          else if CFreed \<in> set (take (num_valid_file_systems t) arr) then Fault DanglingString
          else Done (take (num_valid_file_systems t) arr))"

definition sort_table :: "fs_table \<Rightarrow> fs_table outcome" where
  "sort_table t =
     andthen (table_entries t) (\<lambda>ps. Done (t\<lparr>valid_file_systems :=
       map_option (\<lambda>arr. qsort cmp_valid_fs cstr_val ps @ drop (num_valid_file_systems t) arr) (valid_file_systems t)\<rparr>))"

definition is_valid_fs_type :: "fs_table \<Rightarrow> cstr \<Rightarrow> bool outcome" where
  "is_valid_fs_type t type =
     andthen (table_entries t) (\<lambda>ps. Done (bsearch cmp_valid_fs (cstr_val type) (map cstr_val ps) \<noteq> None))"

definition sg_get_valid_filesystems :: "fs_table \<Rightarrow> cstr list option \<times> nat" where
  "sg_get_valid_filesystems t = (valid_file_systems t, num_valid_file_systems t)"

text \<open>\<^verbatim>\<open>free\<close> on every string of a list.\<close>

fun free_strings :: "cstr list \<Rightarrow> unit outcome" where
  "free_strings [] = Done ()"
| "free_strings (p # ps) = andthen (c_free p) (\<lambda>_. free_strings ps)"

text \<open>\<^verbatim>\<open>calloc(n, sizeof(char *))\<close>\<close>

definition calloc_strings :: "nat \<Rightarrow> env \<Rightarrow> cstr list option \<times> env" where
  "calloc_strings n e =
     (case next_choice e of (c, e) \<Rightarrow> (if c = AFail then None else Some (replicate n CNull), e))"

text \<open>The loop of \<^verbatim>\<open>sg_set_valid_filesystems\<close>, from the last name to the first; a failure frees what was copied.\<close>

fun set_loop :: "nat \<Rightarrow> string list \<Rightarrow> cstr list \<Rightarrow> env \<Rightarrow> (sg_error \<times> cstr list \<times> env) outcome" where
  "set_loop 0 names new e = Done (SG_ERROR_NONE, new, e)"
| "set_loop (Suc k) names new e =
     andthen (sg_update_string (new ! k) (CStr (names ! k @ [NUL])) e) (\<lambda>(rc, p, e).
       let new = new[k := p] in
       if rc \<noteq> SG_ERROR_NONE then
         andthen (free_strings (drop k (take (length names) new))) (\<lambda>_. Done (rc, new, e))
       else set_loop k names new e)"

text \<open>The strings of the old array and the array itself are freed.\<close>

definition free_table :: "fs_table \<Rightarrow> unit outcome" where
  "free_table t = (if valid_file_systems t = None then Done () else andthen (table_entries t) free_strings)"

definition sg_set_valid_filesystems ::
  "string list option \<Rightarrow> fs_table \<Rightarrow> env \<Rightarrow> (sg_error \<times> fs_table \<times> env) outcome" where
  "sg_set_valid_filesystems valid_fs t e =
     (case valid_fs of
        None \<Rightarrow> andthen (free_table t) (\<lambda>_. Done (SG_ERROR_NONE, \<lparr>valid_file_systems = None, num_valid_file_systems = 0\<rparr>, e))
      | Some names \<Rightarrow>
          if names = [] then
            andthen (free_table t) (\<lambda>_. Done (SG_ERROR_NONE, \<lparr>valid_file_systems = None, num_valid_file_systems = 0\<rparr>, e))
          else
            (case calloc_strings (length names + 1) e of
               (None, e) \<Rightarrow> Done (SG_ERROR_MALLOC, t, SET_ERROR_WITH_ERRNO SG_ERROR_MALLOC (Some ''set_valid_filesystems'') e)
             | (Some new, e) \<Rightarrow>
                 andthen (set_loop (length names) names new e) (\<lambda>(rc, new, e).
                   if rc \<noteq> SG_ERROR_NONE then Done (rc, t, e)
                   else andthen (sort_table \<lparr>valid_file_systems = Some new, num_valid_file_systems = length names\<rparr>) (\<lambda>t'.
                     andthen (free_table t) (\<lambda>_. Done (SG_ERROR_NONE, t', e))))))"

text \<open>What the component does at shutdown; the count stays as it is.\<close>

definition sg_disk_destroy_comp :: "fs_table \<Rightarrow> fs_table outcome" where
  "sg_disk_destroy_comp t =
     andthen (free_table t) (\<lambda>_. Done (t\<lparr>valid_file_systems := None\<rparr>))"

section \<open>Filling the table\<close>

text \<open>The names the library falls back to.\<close>

definition VALID_FS_TYPES_solaris :: "string list" where
  "VALID_FS_TYPES_solaris = [''ufs'', ''tmpfs'', ''vxfs'', ''nfs'', ''zfs'', ''lofs'']"

definition VALID_FS_TYPES_linux :: "string list" where
  "VALID_FS_TYPES_linux =
     [''adfs'', ''affs'', ''befs'', ''bfs'', ''btrfs'', ''cifs'', ''efs'', ''ext2'', ''ext3'', ''ext4'', ''vxfs'', ''hfs'',
      ''hfsplus'', ''hpfs'', ''jffs'', ''jffs2'', ''jfs'', ''minix'', ''msdos'', ''nfs'', ''ntfs'', ''ocfs'', ''qnx4'', ''ramfs'',
      ''rootfs'', ''reiserfs'', ''sysv'', ''tmpfs'', ''v7'', ''udf'', ''ufs'', ''umsdos'', ''vfat'', ''xfs'']"

definition VALID_FS_TYPES_cygwin :: "string list" where
  "VALID_FS_TYPES_cygwin = [''user'']"

definition VALID_FS_TYPES_darwin :: "string list" where
  "VALID_FS_TYPES_darwin =
     [''CoreStorage'', ''acfs'', ''afpfs'', ''autofs'', ''cd9660'', ''cddafs'', ''devfs'', ''exfat'', ''fdesc'', ''ftp'', ''hfs'',
      ''msdos'', ''nfs'', ''ntfs'', ''smbfs'', ''udf'', ''webdav'']"

definition VALID_FS_TYPES_dfbsd :: "string list" where
  "VALID_FS_TYPES_dfbsd = [''hammer'', ''msdosfs'', ''ntfs'', ''udf'', ''ext2fs'', ''ufs'', ''mfs'', ''nfs'', ''tmpfs'']"

definition VALID_FS_TYPES_netbsd :: "string list" where
  "VALID_FS_TYPES_netbsd = [''ffs'', ''mfs'', ''msdos'', ''lfs'', ''adosfs'', ''ext2fs'', ''ntfs'', ''nfs'']"

definition VALID_FS_TYPES_hpux :: "string list" where
  "VALID_FS_TYPES_hpux = [''vxfs'', ''hfs'', ''nfs'']"

text \<open>The end of \<^verbatim>\<open>init_valid_fs_types\<close>: sort, and cut the array behind the first \<open>i\<close> entries (\<open>None\<close>: leave it).\<close>

definition cut_table :: "nat option \<Rightarrow> fs_table \<Rightarrow> env \<Rightarrow> fs_table \<times> env" where
  "cut_table i t e =
     (case i of
        Some k \<Rightarrow>
          if k < num_valid_file_systems t then
            (case sg_realloc_choice (word_of_nat (8 * (k + 1))) e of (c, e) \<Rightarrow>
              (t\<lparr>num_valid_file_systems := k,
                 valid_file_systems := (if c = AFail then valid_file_systems t else map_option (take (k + 1)) (valid_file_systems t))\<rparr>, e))
          else (t, e)
      | None \<Rightarrow> (t, e))"

text \<open>Linux: a line of \<^verbatim>\<open>/proc/filesystems\<close> against \<^verbatim>\<open>^([[:alnum:]]+)?[[:blank:]]+([[:alnum:]]+)\<close>.\<close>

definition is_alnum :: "char \<Rightarrow> bool" where
  "is_alnum c = (is_digit c \<or> 65 \<le> (of_char c :: nat) \<and> (of_char c :: nat) \<le> 90 \<or> 97 \<le> (of_char c :: nat) \<and> (of_char c :: nat) \<le> 122)"

definition proc_fs_list_regex :: "string \<Rightarrow> string option" where
  "proc_fs_list_regex line =
     (let r = dropWhile is_alnum line; name = takeWhile is_alnum (dropWhile is_blank r)
      in if takeWhile is_blank r = [] \<or> name = [] then None else Some name)"

text \<open>Sixteen more entries when the array is full.\<close>

definition grow_table :: "nat \<Rightarrow> fs_table \<Rightarrow> env \<Rightarrow> (sg_error \<times> fs_table \<times> env) outcome" where
  "grow_table i t e =
     (if i < num_valid_file_systems t then Done (SG_ERROR_NONE, t, e)
      else
        (let n = num_valid_file_systems t + 16 in
         case sg_realloc_choice (word_of_nat (8 * (n + 1))) e of (c, e) \<Rightarrow>
           if c = AFail then
             Done (sg_get_error (Some (err e)), \<lparr>valid_file_systems = None, num_valid_file_systems = 0\<rparr>, e)
           else
             Done (SG_ERROR_NONE,
               \<lparr>valid_file_systems =
                  Some (take i (case valid_file_systems t of Some arr \<Rightarrow> arr | None \<Rightarrow> []) @ replicate (n + 1 - i) CNull),
                num_valid_file_systems = n\<rparr>, e)))"

fun proc_fs_loop :: "string list \<Rightarrow> nat \<Rightarrow> fs_table \<Rightarrow> env \<Rightarrow> (sg_error \<times> nat \<times> fs_table \<times> env) outcome" where
  "proc_fs_loop [] i t e = Done (SG_ERROR_NONE, i, t, e)"
| "proc_fs_loop (l # ls) i t e =
     (case proc_fs_list_regex l of
        None \<Rightarrow> proc_fs_loop ls i t e
      | Some fs_name \<Rightarrow>
          andthen (grow_table i t e) (\<lambda>(rc, t, e).
            if rc \<noteq> SG_ERROR_NONE then Done (rc, i, t, e)
            else case valid_file_systems t of
                   None \<Rightarrow> Fault NullDeref
                 | Some arr \<Rightarrow>
                     if length arr \<le> i then Fault (OutOfBounds 0 i)
                     else andthen (sg_update_string (arr ! i) (CStr (fs_name @ [NUL])) e) (\<lambda>(rc, p, e).
                       if rc \<noteq> SG_ERROR_NONE then
                         Done (rc, i, \<lparr>valid_file_systems = None, num_valid_file_systems = 0\<rparr>, e)
                       else proc_fs_loop ls (Suc i) (t\<lparr>valid_file_systems := Some (arr[i := p])\<rparr>) e)))"

text \<open>\<^verbatim>\<open>for( i = 0; i < num; ++i ) sg_update_string( &arr[i], name )\<close> for the names that are there and not empty.\<close>

fun fill_loop :: "string option list \<Rightarrow> nat \<Rightarrow> cstr list \<Rightarrow> env \<Rightarrow> (sg_error \<times> cstr list \<times> env) outcome" where
  "fill_loop [] i arr e = Done (SG_ERROR_NONE, arr, e)"
| "fill_loop (nm # nms) i arr e =
     (case nm of
        Some (c # cs) \<Rightarrow>
          andthen (sg_update_string (arr ! i) (CStr (c # cs @ [NUL])) e) (\<lambda>(rc, p, e).
            let arr = arr[i := p] in
            if rc \<noteq> SG_ERROR_NONE then Done (rc, arr, e) else fill_loop nms (Suc i) arr e)
      | _ \<Rightarrow> fill_loop nms (Suc i) arr e)"

text \<open>
  The label \<^verbatim>\<open>use_builtin_fs\<close>: the count is what it was before, zero in a fresh process, and the fallback
  names are read up to it.
\<close>

definition use_builtin_fs :: "nat \<Rightarrow> env \<Rightarrow> (sg_error \<times> fs_table \<times> env) outcome" where
  "use_builtin_fs num e =
     (case calloc_strings (num + 1) e of
        (None, e) \<Rightarrow>
          Done (SG_ERROR_MALLOC, \<lparr>valid_file_systems = None, num_valid_file_systems = num\<rparr>,
            SET_ERROR_WITH_ERRNO SG_ERROR_MALLOC (Some ''init_valid_fs_types'') e)
      | (Some arr, e) \<Rightarrow>
          if length VALID_FS_TYPES_linux < num then Fault (OutOfBounds 0 (length VALID_FS_TYPES_linux))
          else andthen (fill_loop (map Some (take num VALID_FS_TYPES_linux)) 0 arr e) (\<lambda>(rc, arr, e).
            let t = \<lparr>valid_file_systems = Some arr, num_valid_file_systems = num\<rparr> in
            if rc \<noteq> SG_ERROR_NONE then Done (rc, t, e)
            else andthen (sort_table t) (\<lambda>t. Done (SG_ERROR_NONE, t, e))))"

definition init_valid_fs_types_linux ::
  "string option \<Rightarrow> bool \<Rightarrow> fs_table \<Rightarrow> env \<Rightarrow> (sg_error \<times> fs_table \<times> env) outcome" where
  "init_valid_fs_types_linux pf rx_compiles t e =
     (case pf of
        None \<Rightarrow> use_builtin_fs (num_valid_file_systems t) e
      | Some body \<Rightarrow>
          (case calloc_strings 16 e of (arr, e) \<Rightarrow>
             if \<not> rx_compiles then use_builtin_fs 15 e
             else
               andthen (proc_fs_loop (map strval (file_lines 4095 body)) 0
                          \<lparr>valid_file_systems = arr, num_valid_file_systems = 15\<rparr> e) (\<lambda>(rc, i, t, e).
                 if rc \<noteq> SG_ERROR_NONE then Done (rc, t, e)
                 else andthen (sort_table t) (\<lambda>t. case cut_table (Some i) t e of (t, e) \<Rightarrow> Done (SG_ERROR_NONE, t, e)))))"

text \<open>
  Every other platform: a list of names, with gaps, is copied. Where the list comes from the kernel's table
  of types (\<open>shrink\<close>), the gaps are cut off after sorting.
\<close>

definition first_gap :: "fs_table \<Rightarrow> nat" where
  "first_gap t =
     (case valid_file_systems t of None \<Rightarrow> 0
      | Some arr \<Rightarrow> length (takeWhile (\<lambda>p. p \<noteq> CNull) (take (num_valid_file_systems t) arr)))"

definition fill_valid_fs :: "bool \<Rightarrow> string option list \<Rightarrow> env \<Rightarrow> (sg_error \<times> fs_table \<times> env) outcome" where
  "fill_valid_fs shrink nms e =
     (case calloc_strings (length nms + 1) e of
        (None, e) \<Rightarrow>
          Done (SG_ERROR_MALLOC, \<lparr>valid_file_systems = None, num_valid_file_systems = length nms\<rparr>,
            SET_ERROR_WITH_ERRNO SG_ERROR_MALLOC (Some ''init_valid_fs_types'') e)
      | (Some arr, e) \<Rightarrow>
          andthen (fill_loop nms 0 arr e) (\<lambda>(rc, arr, e).
            let t = \<lparr>valid_file_systems = Some arr, num_valid_file_systems = length nms\<rparr> in
            if rc \<noteq> SG_ERROR_NONE then Done (rc, t, e)
            else andthen (sort_table t) (\<lambda>t.
              case cut_table (if shrink then Some (first_gap t) else None) t e of (t, e) \<Rightarrow> Done (SG_ERROR_NONE, t, e))))"

text \<open>FreeBSD: the list of \<^verbatim>\<open>vfs.conflist\<close>, after its size was asked for.\<close>

definition init_valid_fs_types_xvfs ::
  "size_t option \<Rightarrow> string list option \<Rightarrow> fs_table \<Rightarrow> env \<Rightarrow> (sg_error \<times> fs_table \<times> env) outcome" where
  "init_valid_fs_types_xvfs buflen conflist t e =
     (let bad = (\<lambda>e. Done (SG_ERROR_SYSCTLBYNAME, t, SET_ERROR_WITH_ERRNO SG_ERROR_SYSCTLBYNAME (Some ''vfs.conflist'') e)) in
      case buflen of
        None \<Rightarrow> bad e
      | Some len \<Rightarrow>
          andthen (sg_realloc CNull len e) (\<lambda>(vfsp, e).
            if vfsp = CNull then Done (sg_get_error (Some (err e)), t, e)
            else case conflist of None \<Rightarrow> bad e | Some nms \<Rightarrow> fill_valid_fs False (map Some nms) e))"

text \<open>
  DragonFly and others: the types one by one. A type that is not supported leaves its zeroed entry. When the
  number of types cannot be read, the array of zero entries that \<^verbatim>\<open>calloc\<close> then returns counts as the answer.
\<close>

datatype vfs_answer = VfsName string | VfsUnsupported | VfsFails

fun vfs_conf_loop :: "vfs_answer list \<Rightarrow> nat \<Rightarrow> env \<Rightarrow> string list option \<times> env" where
  "vfs_conf_loop [] k e = (Some [], e)"
| "vfs_conf_loop (a # as) k e =
     (case a of
        VfsName nm \<Rightarrow> (case vfs_conf_loop as (Suc k) e of (r, e) \<Rightarrow> (map_option ((#) nm) r, e))
      | VfsUnsupported \<Rightarrow> (case vfs_conf_loop as (Suc k) e of (r, e) \<Rightarrow> (map_option ((#) []) r, e))
      | VfsFails \<Rightarrow>
          (None, SET_ERROR_WITH_ERRNO SG_ERROR_SYSCTL (Some (''vfs.generic.conf.'' @ dec_string (k + 1))) e))"

definition init_valid_fs_types_vfsconf ::
  "string list \<Rightarrow> vfs_answer list option \<Rightarrow> fs_table \<Rightarrow> env \<Rightarrow> (sg_error \<times> fs_table \<times> env) outcome" where
  "init_valid_fs_types_vfsconf int_valid_fs conf t e =
     (let e = (if conf = None then SET_ERROR_WITH_ERRNO SG_ERROR_SYSCTL (Some ''vfs.generic.maxtypenum'') e else e);
          answers = (case conf of None \<Rightarrow> [] | Some as \<Rightarrow> as)
      in case next_choice e of (c, e) \<Rightarrow>
           if c = AFail then
             fill_valid_fs True (map Some int_valid_fs)
               (SET_ERROR_WITH_ERRNO SG_ERROR_MALLOC (Some ''calloc for vfs.generic.conf'') e)
           else case vfs_conf_loop answers 0 e of
                  (None, e) \<Rightarrow> fill_valid_fs True (map Some int_valid_fs) e
                | (Some nms, e) \<Rightarrow> fill_valid_fs True (map Some nms) e)"

text \<open>
  NetBSD: one string with the names, separated by blanks. A string without names leaves the count as it was,
  and the fallback names are read up to it.
\<close>

fun split_blanks :: "string \<Rightarrow> string list" where
  "split_blanks [] = [[]]"
| "split_blanks (c # cs) =
     (if c = CHR '' '' then [] # split_blanks cs
      else case split_blanks cs of w # ws \<Rightarrow> (c # w) # ws | [] \<Rightarrow> [[c]])"

definition init_valid_fs_types_fstypes ::
  "string list \<Rightarrow> size_t option \<Rightarrow> string option \<Rightarrow> fs_table \<Rightarrow> env \<Rightarrow> (sg_error \<times> fs_table \<times> env) outcome" where
  "init_valid_fs_types_fstypes int_valid_fs buflen fstypes t e =
     (let bad = (\<lambda>e. Done (SG_ERROR_SYSCTLBYNAME, t, SET_ERROR_WITH_ERRNO SG_ERROR_SYSCTLBYNAME (Some ''vfs.generic.fstypes'') e)) in
      case buflen of
        None \<Rightarrow> bad e
      | Some len \<Rightarrow>
          if 1 < len then
            andthen (sg_realloc CNull (len + 1) e) (\<lambda>(buf, e).
              if buf = CNull then Done (sg_get_error (Some (err e)), t, e)
              else case fstypes of None \<Rightarrow> bad e | Some body \<Rightarrow> fill_valid_fs False (map Some (split_blanks body)) e)
          else if length int_valid_fs < num_valid_file_systems t then Fault (OutOfBounds 0 (length int_valid_fs))
          else fill_valid_fs False (map Some (take (num_valid_file_systems t) int_valid_fs)) e)"

text \<open>Solaris: \<^verbatim>\<open>sysfs\<close> reports the number of types and their names.\<close>

definition init_valid_fs_types_sysfs ::
  "string list \<Rightarrow> string list \<Rightarrow> env \<Rightarrow> (sg_error \<times> fs_table \<times> env) outcome" where
  "init_valid_fs_types_sysfs int_valid_fs nms e =
     (if nms = [] then fill_valid_fs True (map Some int_valid_fs) e
      else case next_choice e of (c, e) \<Rightarrow>
        fill_valid_fs True (map Some (if c = AFail then int_valid_fs else nms)) e)"

text \<open>Platforms that report nothing.\<close>

definition init_valid_fs_types_builtin :: "string list \<Rightarrow> env \<Rightarrow> (sg_error \<times> fs_table \<times> env) outcome" where
  "init_valid_fs_types_builtin int_valid_fs e = fill_valid_fs False (map Some int_valid_fs) e"

section \<open>The table represents a set of names\<close>

definition table_ok :: "fs_table \<Rightarrow> bool" where
  "table_ok t \<longleftrightarrow>
     (case valid_file_systems t of
        None \<Rightarrow> num_valid_file_systems t = 0
      | Some arr \<Rightarrow> num_valid_file_systems t \<le> length arr \<and> list_all cstr_ok arr \<and>
          cmp_sorted cmp_valid_fs (map cstr_val (take (num_valid_file_systems t) arr)))"

definition table_names :: "fs_table \<Rightarrow> string option list" where
  "table_names t =
     (case valid_file_systems t of None \<Rightarrow> []
      | Some arr \<Rightarrow> map cstr_val (take (num_valid_file_systems t) arr))"

definition fs_types :: "fs_table \<Rightarrow> string set" where
  "fs_types t = {map tolower s | s. Some s \<in> set (table_names t)}"

lemma cmp_valid_fs_0: "cmp_valid_fs a b = 0 \<longleftrightarrow> map_option (map tolower) a = map_option (map tolower) b"
  by (cases "(a, b)" rule: cmp_valid_fs.cases) (auto simp: strcasecmp_def)

lemma cstr_ok_not_freed: "list_all cstr_ok ps \<Longrightarrow> CFreed \<notin> set (take n ps)"
  by (auto simp: list_all_iff dest!: in_set_takeD)

lemma table_entries_ok:
  "table_ok t \<Longrightarrow> \<exists>ps. table_entries t = Done ps \<and> list_all cstr_ok ps \<and> map cstr_val ps = table_names t"
  by (auto simp: table_ok_def table_entries_def table_names_def cstr_ok_not_freed list_all_iff dest: in_set_takeD
      split: option.splits)

lemma table_sorted: "table_ok t \<Longrightarrow> cmp_sorted cmp_valid_fs (table_names t)"
  by (auto simp: table_ok_def table_names_def cmp_sorted_def split: option.splits)

lemma free_strings_ok: "list_all cstr_ok ps \<Longrightarrow> free_strings ps = Done ()"
proof (induction ps)
  case (Cons p ps)
  then show ?case by (cases p) (simp_all add: c_free_def)
qed simp

lemma is_valid_iff:
  assumes "table_ok t"
  shows "is_valid_fs_type t p = Done (case cstr_val p of Some s \<Rightarrow> map tolower s \<in> fs_types t | None \<Rightarrow> None \<in> set (table_names t))"
proof -
  obtain ps where ps: "table_entries t = Done ps" "map cstr_val ps = table_names t" using table_entries_ok [OF assms] by auto
  have "bsearch cmp_valid_fs (cstr_val p) (table_names t) \<noteq> None \<longleftrightarrow>
      (\<exists>x \<in> set (table_names t). map_option (map tolower) (cstr_val p) = map_option (map tolower) x)"
    using types.bsearch_None_iff [OF table_sorted [OF assms], of "cstr_val p"] by (simp add: cmp_valid_fs_0)
  also have "\<dots> \<longleftrightarrow> (case cstr_val p of Some s \<Rightarrow> map tolower s \<in> fs_types t | None \<Rightarrow> None \<in> set (table_names t))"
  proof (cases "cstr_val p")
    case (Some s)
    have "Some (map tolower s) = map_option (map tolower) x \<longleftrightarrow> (\<exists>u. x = Some u \<and> map tolower s = map tolower u)" for x
      by (cases x) auto
    with Some show ?thesis by (auto simp: fs_types_def)
  qed auto
  finally show ?thesis using ps by (simp add: is_valid_fs_type_def)
qed

lemma sort_table_ok:
  assumes "valid_file_systems t = Some arr" "num_valid_file_systems t \<le> length arr" "list_all cstr_ok arr"
  shows "\<exists>t'. sort_table t = Done t' \<and> table_ok t' \<and> num_valid_file_systems t' = num_valid_file_systems t \<and>
     (\<exists>arr'. valid_file_systems t' = Some arr' \<and> length arr' = length arr) \<and> mset (table_names t') = mset (table_names t)"
proof -
  let ?n = "num_valid_file_systems t"
  let ?ps = "take ?n arr" and ?qs = "qsort cmp_valid_fs cstr_val (take ?n arr)"
  have e: "table_entries t = Done ?ps"
    using assms cstr_ok_not_freed [OF assms(3)] by (simp add: table_entries_def)
  have l: "length ?qs = ?n" using assms(2) by simp
  have "set (?qs @ drop ?n arr) = set arr" using append_take_drop_id [of ?n arr] by (metis set_append set_qsort)
  then have ok: "list_all cstr_ok (?qs @ drop ?n arr)" using assms(3) by (simp only: list_all_iff)
  have "mset (map cstr_val ?qs) = mset (map cstr_val ?ps)" by (simp only: mset_map mset_qsort)
  moreover have "cmp_sorted cmp_valid_fs (map cstr_val ?qs)" by (rule types.sorted_qsort)
  ultimately show ?thesis using e l ok assms by (simp add: sort_table_def table_ok_def table_names_def)
qed

lemma fs_types_mset: "mset (table_names t) = mset (table_names t') \<Longrightarrow> fs_types t = fs_types t'"
  using mset_eq_setD [of "table_names t" "table_names t'"] by (simp add: fs_types_def)

section \<open>The loops\<close>

lemma name_step:
  assumes "cstr_ok p" "name_ok s"
  shows "\<exists>rc q e'. sg_update_string p (CStr (s @ [NUL])) e = Done (rc, q, e') \<and> cstr_ok q \<and>
     (sched e = [] \<longrightarrow> rc = SG_ERROR_NONE \<and> e' = e) \<and>
     (if rc = SG_ERROR_NONE then cstr_val q = Some s else error (err e') = rc)"
proof -
  obtain rc q e' where u: "sg_update_string p (CStr (s @ [NUL])) e = Done (rc, q, e')" "cstr_ok q"
      "sched e = [] \<longrightarrow> rc = SG_ERROR_NONE \<and> e' = e"
      "if rc = SG_ERROR_NONE then q = cstr_copy (CStr (s @ [NUL])) \<and> err e' = err e else error (err e') = rc"
    using sg_update_string_step [OF assms(1) name_ok_cstr(1) [OF assms(2)], of e] by blast
  moreover have "cstr_val (cstr_copy (CStr (s @ [NUL]))) = Some s" using name_ok_cstr(2) [OF assms(2)] by simp
  ultimately show ?thesis by (intro exI conjI) (auto split: if_splits)
qed

lemma list_all_update: "list_all P xs \<Longrightarrow> P x \<Longrightarrow> list_all P (xs[k := x])"
  by (metis list_all_iff insertE set_update_subset_insert subsetD)

lemma set_loop_ok:
  assumes "k \<le> length names" "length names \<le> length new" "list_all cstr_ok new" "list_all name_ok names"
    and "map cstr_val (drop k (take (length names) new)) = map Some (drop k names)"
  shows "\<exists>rc new' e'. set_loop k names new e = Done (rc, new', e') \<and> length new' = length new \<and>
     (sched e = [] \<longrightarrow> rc = SG_ERROR_NONE \<and> e' = e) \<and>
     (if rc = SG_ERROR_NONE then list_all cstr_ok new' \<and> map cstr_val (take (length names) new') = map Some names
      else error (err e') = rc)"
  using assms(1-3,5)
proof (induction k arbitrary: new e)
  case 0
  then show ?case by simp
next
  case (Suc k)
  have k: "k < length names" "k < length new" using Suc.prems by simp_all
  have nk: "name_ok (names ! k)" "cstr_ok (new ! k)" using assms(4) Suc.prems(3) k by (simp_all add: list_all_length)
  obtain rc q e1 where u: "sg_update_string (new ! k) (CStr (names ! k @ [NUL])) e = Done (rc, q, e1)" "cstr_ok q"
      "sched e = [] \<longrightarrow> rc = SG_ERROR_NONE \<and> e1 = e" "if rc = SG_ERROR_NONE then cstr_val q = Some (names ! k) else error (err e1) = rc"
    using name_step [OF nk(2,1), of e] by (elim exE conjE)
  have ok: "list_all cstr_ok (new[k := q])" using Suc.prems(3) u(2) by (rule list_all_update)
  show ?case
  proof (cases "rc = SG_ERROR_NONE")
    case True
    have "drop k (take (length names) (new[k := q])) = q # drop (Suc k) (take (length names) new)"
      using k by (simp add: take_update_swap Cons_nth_drop_Suc [symmetric])
    then have "map cstr_val (drop k (take (length names) (new[k := q]))) = map Some (drop k names)"
      using Suc.prems(4) u(4) True k by (simp add: Cons_nth_drop_Suc [symmetric])
    from Suc.IH [OF _ _ ok this, of e1] Suc.prems(1,2) obtain rc' new' e' where
      "set_loop k names (new[k := q]) e1 = Done (rc', new', e')" "length new' = length new" "sched e1 = [] \<longrightarrow> rc' = SG_ERROR_NONE \<and> e' = e1"
      "if rc' = SG_ERROR_NONE then list_all cstr_ok new' \<and> map cstr_val (take (length names) new') = map Some names else error (err e') = rc'"
      by auto
    with u True show ?thesis by (intro exI [of _ rc'] exI [of _ new'] exI [of _ e'] conjI) simp_all
  next
    case False
    have "list_all cstr_ok (drop k (take (length names) (new[k := q])))"
      using ok by (auto simp: list_all_iff dest!: in_set_dropD in_set_takeD)
    with False u show ?thesis by (auto simp: free_strings_ok)
  qed
qed

definition clean :: "string option \<Rightarrow> string option" where
  "clean nm = (if nm = Some [] then None else nm)"

lemma fill_loop_ok:
  assumes "i + length nms \<le> length arr" "list_all cstr_ok arr" "\<forall>s \<in> set nms. case s of Some s \<Rightarrow> name_ok s | None \<Rightarrow> True"
    and "map cstr_val (drop i arr) = replicate (length arr - i) None"
  shows "\<exists>rc arr' e'. fill_loop nms i arr e = Done (rc, arr', e') \<and> length arr' = length arr \<and> list_all cstr_ok arr' \<and>
     (sched e = [] \<longrightarrow> rc = SG_ERROR_NONE \<and> e' = e) \<and>
     (if rc = SG_ERROR_NONE then map cstr_val (take (i + length nms) arr') = map cstr_val (take i arr) @ map clean nms
      else error (err e') = rc)"
  using assms
proof (induction nms arbitrary: i arr e)
  case Nil
  then show ?case by simp
next
  case (Cons nm nms)
  have i: "i < length arr" using Cons.prems(1) by simp
  have oki: "cstr_ok (arr ! i)" using Cons.prems(2) i by (simp add: list_all_length)
  have hd: "cstr_val (arr ! i) = None" and tl: "map cstr_val (drop (Suc i) arr) = replicate (length arr - Suc i) None"
    using Cons.prems(4) i by (auto simp: Cons_nth_drop_Suc [OF i, symmetric] Suc_diff_Suc [OF i, symmetric])
  show ?case
  proof (cases "clean nm")
    case None
    then have st: "fill_loop (nm # nms) i arr e = fill_loop nms (Suc i) arr e"
      by (auto simp: clean_def split: if_splits option.splits list.splits)
    have "map cstr_val (take (Suc i) arr) = map cstr_val (take i arr) @ [None]" using hd i by (simp add: take_Suc_conv_app_nth)
    moreover obtain rc' arr' e' where "fill_loop nms (Suc i) arr e = Done (rc', arr', e')" "length arr' = length arr" "list_all cstr_ok arr'"
        "sched e = [] \<longrightarrow> rc' = SG_ERROR_NONE \<and> e' = e"
        "if rc' = SG_ERROR_NONE then map cstr_val (take (Suc i + length nms) arr') = map cstr_val (take (Suc i) arr) @ map clean nms else error (err e') = rc'"
      using Cons.IH [of "Suc i" arr e] Cons.prems(1-3) tl by auto
    ultimately show ?thesis unfolding st using None by (intro exI [of _ rc'] exI [of _ arr'] exI [of _ e'] conjI) (simp_all split: if_splits)
  next
    case (Some s)
    then obtain c cs where s: "nm = Some (c # cs)" "s = c # cs" by (cases nm; cases s) (auto simp: clean_def split: if_splits)
    have "name_ok (c # cs)" using Cons.prems(3) s by simp
    from name_step [OF oki this, of e] obtain rc q e1 where u: "sg_update_string (arr ! i) (CStr (c # cs @ [NUL])) e = Done (rc, q, e1)"
        "cstr_ok q" "sched e = [] \<longrightarrow> rc = SG_ERROR_NONE \<and> e1 = e" "if rc = SG_ERROR_NONE then cstr_val q = Some (c # cs) else error (err e1) = rc"
      by auto
    have ok: "list_all cstr_ok (arr[i := q])" using Cons.prems(2) u(2) by (rule list_all_update)
    show ?thesis
    proof (cases "rc = SG_ERROR_NONE")
      case True
      have "map cstr_val (take (Suc i) (arr[i := q])) = map cstr_val (take i arr) @ [Some (c # cs)]"
        using u(4) True i by (simp add: take_Suc_conv_app_nth)
      moreover obtain rc' arr' e' where "fill_loop nms (Suc i) (arr[i := q]) e1 = Done (rc', arr', e')" "length arr' = length arr"
          "list_all cstr_ok arr'" "sched e1 = [] \<longrightarrow> rc' = SG_ERROR_NONE \<and> e' = e1"
          "if rc' = SG_ERROR_NONE then map cstr_val (take (Suc i + length nms) arr') = map cstr_val (take (Suc i) (arr[i := q])) @ map clean nms
           else error (err e') = rc'"
        using Cons.IH [of "Suc i" "arr[i := q]" e1] Cons.prems(1,3) tl ok by auto
      ultimately show ?thesis using u True s Some by (intro exI [of _ rc'] exI [of _ arr'] exI [of _ e'] conjI) (simp_all split: if_splits)
    next
      case False
      with u s ok show ?thesis by auto
    qed
  qed
qed

text \<open>What the lines name.\<close>

definition proc_names :: "string list \<Rightarrow> string list" where
  "proc_names ls = List.map_filter proc_fs_list_regex ls"

lemma proc_names_simps [simp]:
  "proc_names [] = []"
  "proc_names (l # ls) = (case proc_fs_list_regex l of None \<Rightarrow> proc_names ls | Some nm \<Rightarrow> nm # proc_names ls)"
  by (simp_all add: proc_names_def List.map_filter_simps split: option.splits)

text \<open>An array with \<open>i\<close> names, then gaps.\<close>

definition partly_filled :: "fs_table \<Rightarrow> string list \<Rightarrow> bool" where
  "partly_filled t nms \<longleftrightarrow>
     (\<exists>arr. valid_file_systems t = Some arr \<and> length arr = num_valid_file_systems t + 1 \<and> list_all cstr_ok arr \<and>
        length nms \<le> num_valid_file_systems t \<and>
        map cstr_val arr = map Some nms @ replicate (length arr - length nms) None)"

lemma partly_filled_put:
  assumes "partly_filled t nms" "length nms < num_valid_file_systems t" "cstr_ok q" "cstr_val q = Some nm" "valid_file_systems t = Some arr"
  shows "partly_filled (t\<lparr>valid_file_systems := Some (arr[length nms := q])\<rparr>) (nms @ [nm])"
proof -
  have a: "length arr = num_valid_file_systems t + 1" "list_all cstr_ok arr" "map cstr_val arr = map Some nms @ replicate (length arr - length nms) None"
    using assms(1,5) by (auto simp: partly_filled_def)
  then obtain r where r: "length arr - length nms = Suc r" using assms(2) by (cases "length arr - length nms") auto
  have "map cstr_val (arr[length nms := q]) = (map cstr_val arr)[length nms := Some nm]" using assms(4) by (simp add: map_update)
  also have "\<dots> = map Some (nms @ [nm]) @ replicate r None" unfolding a(3) r
    using list_update_append_length [of "map Some nms" None "replicate r None" "Some nm"] by simp
  finally have "map cstr_val (arr[length nms := q]) = map Some (nms @ [nm]) @ replicate r None" .
  moreover have "r = length arr - length (nms @ [nm])" using r by simp
  ultimately show ?thesis using a(1) assms(2) list_all_update [OF a(2) assms(3)] by (simp add: partly_filled_def)
qed

lemma partly_filled_grow:
  assumes "partly_filled t nms"
  shows "\<exists>rc t' e'. grow_table (length nms) t e = Done (rc, t', e') \<and> (sched e = [] \<longrightarrow> rc = SG_ERROR_NONE \<and> e' = e) \<and>
     (if rc = SG_ERROR_NONE then partly_filled t' nms \<and> length nms < num_valid_file_systems t' else error (err e') = rc)"
proof (cases "length nms < num_valid_file_systems t")
  case True
  with assms show ?thesis by (auto simp: grow_table_def)
next
  case False
  let ?n = "num_valid_file_systems t + 16"
  obtain arr where a: "valid_file_systems t = Some arr" "length arr = num_valid_file_systems t + 1" "list_all cstr_ok arr"
      "length nms = num_valid_file_systems t" "map cstr_val arr = map Some nms @ replicate (length arr - length nms) None"
    using assms False by (auto simp: partly_filled_def)
  obtain c e' where c: "sg_realloc_choice (word_of_nat (8 * (?n + 1))) e = (c, e')" by fastforce
  have ce: "sched e = [] \<longrightarrow> c \<noteq> AFail \<and> e' = e" "c = AFail \<longrightarrow> error (err e') = SG_ERROR_MALLOC"
    using c by (auto simp: sg_realloc_choice_def next_choice_def Let_def split: list.splits if_splits prod.splits)
  let ?arr = "take (length nms) arr @ replicate (?n + 1 - length nms) CNull"
  have "map cstr_val (take (length nms) arr) = map Some nms" using a(5) by (simp add: take_map [symmetric])
  moreover have "list_all cstr_ok ?arr" using a(3) by (auto simp: list_all_iff dest: in_set_takeD)
  moreover have "length ?arr = ?n + 1" using a(2,4) by simp
  ultimately have "partly_filled \<lparr>valid_file_systems = Some ?arr, num_valid_file_systems = ?n\<rparr> nms"
    using a(4) by (auto simp: partly_filled_def)
  with c ce a(1,4) show ?thesis by (cases "c = AFail") (auto simp: grow_table_def)
qed

lemma proc_fs_loop_ok:
  assumes "partly_filled t nms" "list_all name_ok (proc_names ls)"
  shows "\<exists>rc i t' e'. proc_fs_loop ls (length nms) t e = Done (rc, i, t', e') \<and> (sched e = [] \<longrightarrow> rc = SG_ERROR_NONE \<and> e' = e) \<and>
     (if rc = SG_ERROR_NONE then partly_filled t' (nms @ proc_names ls) \<and> i = length (nms @ proc_names ls)
      else error (err e') = rc \<and> table_ok t')"
  using assms
proof (induction ls arbitrary: nms t e)
  case Nil
  then show ?case by simp
next
  case (Cons l ls)
  show ?case
  proof (cases "proc_fs_list_regex l")
    case None
    then have "proc_fs_loop (l # ls) (length nms) t e = proc_fs_loop ls (length nms) t e" "proc_names (l # ls) = proc_names ls"
      by simp_all
    with Cons.IH [OF Cons.prems(1), of e] Cons.prems(2) show ?thesis by (simp only: simp_thms)
  next
    case (Some nm)
    obtain rc t1 e1 where g: "grow_table (length nms) t e = Done (rc, t1, e1)" "sched e = [] \<longrightarrow> rc = SG_ERROR_NONE \<and> e1 = e"
        "if rc = SG_ERROR_NONE then partly_filled t1 nms \<and> length nms < num_valid_file_systems t1 else error (err e1) = rc"
      using partly_filled_grow [OF Cons.prems(1), of e] by (elim exE conjE)
    show ?thesis
    proof (cases "rc = SG_ERROR_NONE")
      case False
      then have "t1 = \<lparr>valid_file_systems = None, num_valid_file_systems = 0\<rparr>"
        using g(1) by (auto simp: grow_table_def Let_def split: if_splits prod.splits)
      then have "table_ok t1" by (simp add: table_ok_def)
      with False Some g show ?thesis by auto
    next
      case True
      then have p1: "partly_filled t1 nms" "length nms < num_valid_file_systems t1" using g(3) by simp_all
      then obtain arr where a: "valid_file_systems t1 = Some arr" "length arr = num_valid_file_systems t1 + 1" "list_all cstr_ok arr"
        by (auto simp: partly_filled_def)
      have ok: "cstr_ok (arr ! length nms)" using a p1(2) by (simp add: list_all_length)
      have nok: "name_ok nm" using Cons.prems(2) Some by simp
      obtain rc2 q e2 where u: "sg_update_string (arr ! length nms) (CStr (nm @ [NUL])) e1 = Done (rc2, q, e2)" "cstr_ok q"
          "sched e1 = [] \<longrightarrow> rc2 = SG_ERROR_NONE \<and> e2 = e1" "if rc2 = SG_ERROR_NONE then cstr_val q = Some nm else error (err e2) = rc2"
        using name_step [OF ok nok, of e1] by (elim exE conjE)
      let ?t = "t1\<lparr>valid_file_systems := Some (arr[length nms := q])\<rparr>"
      have st: "proc_fs_loop (l # ls) (length nms) t e =
          (if rc2 \<noteq> SG_ERROR_NONE then Done (rc2, length nms, \<lparr>valid_file_systems = None, num_valid_file_systems = 0\<rparr>, e2)
           else proc_fs_loop ls (length (nms @ [nm])) ?t e2)"
        using Some g(1) True a p1(2) u(1) by simp
      show ?thesis
      proof (cases "rc2 = SG_ERROR_NONE")
        case r2: True
        have pf: "partly_filled ?t (nms @ [nm])" using partly_filled_put [OF p1 u(2) _ a(1)] u(4) r2 by simp
        have "list_all name_ok (proc_names ls)" using Cons.prems(2) Some by simp
        from Cons.IH [OF pf this, of e2] obtain rc' i t' e' where "proc_fs_loop ls (length (nms @ [nm])) ?t e2 = Done (rc', i, t', e')"
            "sched e2 = [] \<longrightarrow> rc' = SG_ERROR_NONE \<and> e' = e2"
            "if rc' = SG_ERROR_NONE then partly_filled t' ((nms @ [nm]) @ proc_names ls) \<and> i = length ((nms @ [nm]) @ proc_names ls)
             else error (err e') = rc' \<and> table_ok t'"
          by (elim exE conjE)
        with st r2 g(2) u(3) True Some show ?thesis
          by (intro exI [of _ rc'] exI [of _ i] exI [of _ t'] exI [of _ e'] conjI) (simp_all split: if_splits)
      next
        case False
        with st g(2) u(3,4) True show ?thesis by (auto simp: table_ok_def)
      qed
    qed
  qed
qed

section \<open>Gaps\<close>

lemma gaps_last: "cmp_sorted cmp_valid_fs (None # xs) \<Longrightarrow> filter (\<lambda>x. x \<noteq> None) xs = []"
proof -
  assume "cmp_sorted cmp_valid_fs (None # xs)"
  then have "y = None" if "y \<in> set xs" for y using that by (cases y) (auto simp: cmp_sorted_def)
  then show ?thesis by (simp add: filter_empty_conv)
qed

lemma sorted_gaps: "cmp_sorted cmp_valid_fs xs \<Longrightarrow> xs = filter (\<lambda>x. x \<noteq> None) xs @ filter (\<lambda>x. x = None) xs"
proof (induction xs)
  case (Cons x xs)
  show ?case
  proof (cases x)
    case None
    with Cons gaps_last [of xs] show ?thesis by (simp add: cmp_sorted_def)
  qed (use Cons in \<open>simp add: cmp_sorted_def\<close>)
qed simp

lemma takeWhile_gaps: "cmp_sorted cmp_valid_fs xs \<Longrightarrow> takeWhile (\<lambda>x. x \<noteq> None) xs = filter (\<lambda>x. x \<noteq> None) xs"
proof (induction xs)
  case (Cons x xs)
  then show ?case using gaps_last [of xs] by (cases x) (simp_all add: cmp_sorted_def)
qed simp

lemma cut_table_ok:
  assumes "table_ok t" "k = length (filter (\<lambda>x. x \<noteq> None) (table_names t))"
  shows "\<exists>t' e'. cut_table (Some k) t e = (t', e') \<and> table_ok t' \<and> table_names t' = filter (\<lambda>x. x \<noteq> None) (table_names t) \<and>
     num_valid_file_systems t' = k"
proof (cases "valid_file_systems t")
  case None
  with assms show ?thesis by (simp add: table_ok_def table_names_def cut_table_def)
next
  case (Some arr)
  let ?n = "num_valid_file_systems t" and ?xs = "table_names t"
  have a: "?n \<le> length arr" "list_all cstr_ok arr" "cmp_sorted cmp_valid_fs ?xs" "?xs = map cstr_val (take ?n arr)"
    using assms(1) Some by (simp_all add: table_ok_def table_names_def)
  have fs: "filter (\<lambda>x. x \<noteq> None) ?xs = take k ?xs" using sorted_gaps [OF a(3)] assms(2) by (metis append_eq_conv_conj)
  have kn: "k \<le> ?n" using length_filter_le [of _ ?xs] a(1,4) assms(2) by simp
  obtain c e' where c: "sg_realloc_choice (word_of_nat (8 * (k + 1))) e = (c, e')" by fastforce
  have tk: "take k (take (k + 1) arr) = take k arr" by (simp add: min_def)
  have cut: "map cstr_val (take k arr) = take k ?xs" using kn a(4) by (simp add: take_map)
  have "cmp_sorted cmp_valid_fs (take k ?xs)" using a(3) by (auto simp: cmp_sorted_def intro: sorted_wrt_take)
  then have "table_ok \<lparr>valid_file_systems = Some b, num_valid_file_systems = k\<rparr> \<and>
      table_names \<lparr>valid_file_systems = Some b, num_valid_file_systems = k\<rparr> = take k ?xs"
    if "b = arr \<or> b = take (k + 1) arr" for b
    using that a(1,2) kn cut tk by (auto simp: table_ok_def table_names_def list_all_iff dest: in_set_takeD)
  moreover have "cut_table (Some k) t e =
      (if k < ?n then (\<lparr>valid_file_systems = Some (if c = AFail then arr else take (k + 1) arr), num_valid_file_systems = k\<rparr>, e') else (t, e))"
    using c Some by (cases t) (simp add: cut_table_def)
  moreover have "filter (\<lambda>x. x \<noteq> None) ?xs = ?xs" if "\<not> k < ?n" using that kn a(4) fs by simp
  ultimately show ?thesis using kn fs assms(1) by (cases "k < ?n") auto
qed

lemma fs_types_gaps: "table_names t' = filter (\<lambda>x. x \<noteq> None) (table_names t) \<Longrightarrow> fs_types t' = fs_types t"
  by (auto simp: fs_types_def)

lemma fs_types_clean: "{map tolower s | s. Some s \<in> set (map clean nms)} = map tolower ` {s. Some s \<in> set nms \<and> s \<noteq> []}"
  by (auto simp: clean_def image_iff split: if_splits)

section \<open>Replacing and filling the table\<close>

text \<open>The search finds exactly the names given, whatever their case and order.\<close>

lemma set_names:
  assumes "table_ok t" "list_all name_ok names"
  shows "\<exists>rc t' e'. sg_set_valid_filesystems (Some names) t e = Done (rc, t', e') \<and> table_ok t' \<and>
     (sched e = [] \<longrightarrow> rc = SG_ERROR_NONE) \<and>
     (if rc = SG_ERROR_NONE then fs_types t' = map tolower ` set names \<and> None \<notin> set (table_names t') else t' = t \<and> error (err e') = rc) \<and> (sched e = [] \<longrightarrow> sched e' = [])"
proof -
  obtain ps where "table_entries t = Done ps" "list_all cstr_ok ps" using table_entries_ok [OF assms(1)] by auto
  then have pub: "free_table t = Done ()" using free_strings_ok by (simp add: free_table_def)
  show ?thesis
  proof (cases names)
    case Nil
    then show ?thesis by (auto simp: sg_set_valid_filesystems_def pub table_ok_def fs_types_def table_names_def)
  next
    case (Cons nm nms)
    let ?n = "length names"
    obtain r e1 where c: "calloc_strings (?n + 1) e = (r, e1)" by fastforce
    have ce: "sched e = [] \<longrightarrow> r \<noteq> None \<and> sched e1 = []" "r = None \<or> r = Some (replicate (?n + 1) CNull)"
      using c by (auto simp: calloc_strings_def next_choice_def split: list.splits prod.splits if_splits)
    show ?thesis
    proof (cases "r = None")
      case True
      with Cons c ce assms(1) show ?thesis by (simp add: sg_set_valid_filesystems_def)
    next
      case False
      let ?new = "replicate (?n + 1) CNull"
      have "list_all cstr_ok ?new" by (simp add: list_all_iff)
      from set_loop_ok [of ?n names ?new e1, OF _ _ this assms(2)] obtain rc new' e' where
        l: "set_loop ?n names ?new e1 = Done (rc, new', e')" "length new' = ?n + 1" "sched e1 = [] \<longrightarrow> rc = SG_ERROR_NONE \<and> e' = e1"
          "if rc = SG_ERROR_NONE then list_all cstr_ok new' \<and> map cstr_val (take ?n new') = map Some names else error (err e') = rc"
        by auto
      have st: "sg_set_valid_filesystems (Some names) t e =
          (if rc \<noteq> SG_ERROR_NONE then Done (rc, t, e')
           else andthen (sort_table \<lparr>valid_file_systems = Some new', num_valid_file_systems = ?n\<rparr>) (\<lambda>t'. Done (SG_ERROR_NONE, t', e')))"
        unfolding sg_set_valid_filesystems_def using Cons c ce(2) False l(1)
        by (simp only: option.case prod.case andthen.simps pub if_False list.distinct simp_thms)
      show ?thesis
      proof (cases "rc = SG_ERROR_NONE")
        case True
        let ?t = "\<lparr>valid_file_systems = Some new', num_valid_file_systems = ?n\<rparr>"
        from sort_table_ok [of ?t new'] True l(2,4) obtain t' where t': "sort_table ?t = Done t'" "table_ok t'"
            "mset (table_names t') = mset (table_names ?t)" by auto
        have tn: "table_names ?t = map Some names" using l(4) True by (simp add: table_names_def)
        have "set (table_names t') = Some ` set names" using mset_eq_setD [OF t'(3)] tn by simp
        then have "fs_types t' = map tolower ` set names" "None \<notin> set (table_names t')" by (auto simp: fs_types_def)
        with st True t'(1,2) l(3) ce(1) False show ?thesis by simp
      next
        case f: False
        with st l(3,4) ce(1) False assms(1) show ?thesis by auto
      qed
    qed
  qed
qed

lemma calloc_strings_ok:
  assumes "calloc_strings n e = (r, e1)"
  shows "r = None \<or> r = Some (replicate n CNull)" "sched e = [] \<Longrightarrow> r = Some (replicate n CNull) \<and> e1 = e"
  using assms by (auto simp: calloc_strings_def next_choice_def split: list.splits prod.splits if_splits)

lemma fill_valid_fs_ok:
  assumes "\<forall>s \<in> set nms. case s of Some s \<Rightarrow> name_ok s | None \<Rightarrow> True" "sched e = []"
  shows "\<exists>t e'. fill_valid_fs shrink nms e = Done (SG_ERROR_NONE, t, e') \<and> table_ok t \<and>
     fs_types t = map tolower ` {s. Some s \<in> set nms \<and> s \<noteq> []} \<and> (shrink \<longrightarrow> None \<notin> set (table_names t))"
proof -
  let ?n = "length nms" and ?arr = "replicate (length nms + 1) CNull"
  have c: "calloc_strings (?n + 1) e = (Some ?arr, e)"
    using calloc_strings_ok(2) [OF _ assms(2)] by (metis surj_pair)
  have "list_all cstr_ok ?arr" "map cstr_val (drop 0 ?arr) = replicate (length ?arr - 0) None" by (simp_all add: list_all_iff)
  from fill_loop_ok [of 0 nms ?arr e, OF _ this(1) assms(1) this(2)] assms(2) obtain arr' where
    l: "fill_loop nms 0 ?arr e = Done (SG_ERROR_NONE, arr', e)" "length arr' = ?n + 1" "list_all cstr_ok arr'"
      "map cstr_val (take ?n arr') = map clean nms" by auto
  let ?t = "\<lparr>valid_file_systems = Some arr', num_valid_file_systems = ?n\<rparr>"
  from sort_table_ok [of ?t arr'] l obtain t' arr2 where t': "sort_table ?t = Done t'" "table_ok t'" "num_valid_file_systems t' = ?n"
      "valid_file_systems t' = Some arr2" "mset (table_names t') = mset (table_names ?t)" by auto
  have ft: "fs_types t' = map tolower ` {s. Some s \<in> set nms \<and> s \<noteq> []}"
    using fs_types_mset [OF t'(5)] l(4) fs_types_clean [of nms] by (simp add: fs_types_def table_names_def)
  have st: "fill_valid_fs shrink nms e =
      (case cut_table (if shrink then Some (first_gap t') else None) t' e of (t, e) \<Rightarrow> Done (SG_ERROR_NONE, t, e))"
    unfolding fill_valid_fs_def c option.case prod.case l(1) andthen.simps Let_def using t'(1) by simp
  show ?thesis
  proof (cases shrink)
    case True
    have ok: "list_all cstr_ok (take ?n arr2)" using t'(2-4) by (auto simp: table_ok_def list_all_iff dest: in_set_takeD)
    have "cstr_ok p \<Longrightarrow> (p \<noteq> CNull) = (cstr_val p \<noteq> None)" for p by (cases p) simp_all
    then have "takeWhile (\<lambda>p. p \<noteq> CNull) (take ?n arr2) = takeWhile (\<lambda>p. cstr_val p \<noteq> None) (take ?n arr2)"
      using ok by (intro takeWhile_cong) (auto simp: list_all_iff)
    then have "first_gap t' = length (takeWhile (\<lambda>x. x \<noteq> None) (table_names t'))"
      using t'(3,4) by (simp add: first_gap_def table_names_def takeWhile_map comp_def)
    also have "\<dots> = length (filter (\<lambda>x. x \<noteq> None) (table_names t'))"
      by (simp only: takeWhile_gaps [OF table_sorted [OF t'(2)]])
    finally obtain t2 e2 where "cut_table (Some (first_gap t')) t' e = (t2, e2)" "table_ok t2"
        "table_names t2 = filter (\<lambda>x. x \<noteq> None) (table_names t')"
      using cut_table_ok [OF t'(2), of "first_gap t'" e] by auto
    with True st ft fs_types_gaps show ?thesis by auto
  next
    case False
    with st ft t'(2) show ?thesis by (simp add: cut_table_def)
  qed
qed

text \<open>Linux, with the file there.\<close>

lemma init_linux:
  assumes "list_all name_ok (proc_names (map strval (file_lines 4095 body)))" "sched e = []"
  shows "\<exists>t' e'. init_valid_fs_types_linux (Some body) True t e = Done (SG_ERROR_NONE, t', e') \<and> table_ok t' \<and>
     fs_types t' = map tolower ` set (proc_names (map strval (file_lines 4095 body))) \<and> None \<notin> set (table_names t')"
proof -
  let ?ls = "map strval (file_lines 4095 body)" and ?t0 = "\<lparr>valid_file_systems = Some (replicate 16 CNull), num_valid_file_systems = 15\<rparr>"
  have c: "calloc_strings 16 e = (Some (replicate 16 CNull), e)"
    using calloc_strings_ok(2) [OF _ assms(2)] by (metis surj_pair)
  have "partly_filled ?t0 []" by (simp add: partly_filled_def list_all_iff)
  from proc_fs_loop_ok [OF this assms(1), of e] assms(2) obtain t1 where
    l: "proc_fs_loop ?ls 0 ?t0 e = Done (SG_ERROR_NONE, length (proc_names ?ls), t1, e)" "partly_filled t1 (proc_names ?ls)" by auto
  then obtain arr where a: "valid_file_systems t1 = Some arr" "length arr = num_valid_file_systems t1 + 1" "list_all cstr_ok arr"
      "length (proc_names ?ls) \<le> num_valid_file_systems t1"
      "map cstr_val arr = map Some (proc_names ?ls) @ replicate (length arr - length (proc_names ?ls)) None"
    by (auto simp: partly_filled_def)
  have n1: "table_names t1 = map Some (proc_names ?ls) @ replicate (num_valid_file_systems t1 - length (proc_names ?ls)) None"
    using a by (simp add: table_names_def take_map [symmetric] del: take_map)
  from sort_table_ok [of t1 arr] a obtain t2 where t2: "sort_table t1 = Done t2" "table_ok t2" "mset (table_names t2) = mset (table_names t1)" by auto
  have "filter (\<lambda>x. x \<noteq> None) (table_names t1) = map Some (proc_names ?ls)" unfolding n1 by (simp add: filter_map comp_def)
  then have "mset (filter (\<lambda>x. x \<noteq> None) (table_names t2)) = mset (map Some (proc_names ?ls))" using t2(3) by (metis mset_filter)
  note m = this
  have k: "length (proc_names ?ls) = length (filter (\<lambda>x. x \<noteq> None) (table_names t2))"
    using mset_eq_length [OF m] by (simp only: length_map)
  have st: "set (filter (\<lambda>x. x \<noteq> None) (table_names t2)) = Some ` set (proc_names ?ls)"
    using mset_eq_setD [OF m] by (simp only: set_map)
  from cut_table_ok [OF t2(2) k, of e] obtain t3 e3 where t3: "cut_table (Some (length (proc_names ?ls))) t2 e = (t3, e3)" "table_ok t3"
      "table_names t3 = filter (\<lambda>x. x \<noteq> None) (table_names t2)" by auto
  have "fs_types t3 = map tolower ` set (proc_names ?ls)" using st t3(3) by (auto simp: fs_types_def)
  moreover have "init_valid_fs_types_linux (Some body) True t e = Done (SG_ERROR_NONE, t3, e3)"
    using c l(1) t2(1) t3(1) by (simp add: init_valid_fs_types_linux_def)
  ultimately show ?thesis using t3 by auto
qed

text \<open>Without \<^verbatim>\<open>/proc/filesystems\<close> a fresh process gets no fallback: every type is invalid.\<close>

lemma no_proc_filesystems:
  assumes "sched e = []"
  shows "init_valid_fs_types_linux None rx \<lparr>valid_file_systems = None, num_valid_file_systems = 0\<rparr> e =
      Done (SG_ERROR_NONE, \<lparr>valid_file_systems = Some [CNull], num_valid_file_systems = 0\<rparr>, e)"
    "is_valid_fs_type \<lparr>valid_file_systems = Some [CNull], num_valid_file_systems = 0\<rparr> p = Done False"
proof -
  have "calloc_strings 1 e = (Some [CNull], e)" using calloc_strings_ok(2) [OF _ assms, of 1] by (metis surj_pair replicate.simps One_nat_def)
  then show "init_valid_fs_types_linux None rx \<lparr>valid_file_systems = None, num_valid_file_systems = 0\<rparr> e =
      Done (SG_ERROR_NONE, \<lparr>valid_file_systems = Some [CNull], num_valid_file_systems = 0\<rparr>, e)"
    by (simp add: init_valid_fs_types_linux_def use_builtin_fs_def sort_table_def table_entries_def qsort_def)
  show "is_valid_fs_type \<lparr>valid_file_systems = Some [CNull], num_valid_file_systems = 0\<rparr> p = Done False"
    by (simp add: is_valid_fs_type_def table_entries_def bsearch_def bsearch_from.simps)
qed

text \<open>Nor does a failing \<^verbatim>\<open>vfs.generic.maxtypenum\<close> lead to the fallback names.\<close>

lemma vfsconf_no_number:
  assumes "sched e = []"
  shows "init_valid_fs_types_vfsconf int_valid_fs None t e =
    fill_valid_fs True [] (SET_ERROR_WITH_ERRNO SG_ERROR_SYSCTL (Some ''vfs.generic.maxtypenum'') e)"
  using assms by (simp add: init_valid_fs_types_vfsconf_def next_choice_def frame_simps)

text \<open>After shutdown the count is still there while the array is gone.\<close>

lemma search_after_destroy:
  assumes "table_ok t" "num_valid_file_systems t \<noteq> 0"
  shows "\<exists>t'. sg_disk_destroy_comp t = Done t' \<and> is_valid_fs_type t' p = Fault NullDeref"
proof -
  obtain ps where "table_entries t = Done ps" "list_all cstr_ok ps" using table_entries_ok [OF assms(1)] by auto
  then have "free_table t = Done ()" using free_strings_ok by (simp add: free_table_def)
  with assms(2) show ?thesis by (simp add: sg_disk_destroy_comp_def is_valid_fs_type_def table_entries_def)
qed

section \<open>Properties\<close>

text \<open>The lines of \<^verbatim>\<open>/proc/filesystems\<close>: the name of the type behind a tab, \<^verbatim>\<open>nodev\<close> before it for types without device.\<close>

definition fs_line :: "bool \<times> string \<Rightarrow> string" where
  "fs_line r = (if fst r then ''nodev'' else []) @ CHR 0x09 # snd r"

lemma fs_line_rx:
  assumes "nm \<noteq> []" "is_alnum (hd nm)"
  shows "proc_fs_list_regex (fs_line (b, nm) @ [CHR 0x0A]) = Some (takeWhile is_alnum nm)"
proof -
  have t: "\<not> is_alnum CHR 0x09" "is_blank CHR 0x09" "\<not> is_alnum CHR 0x0A" by (simp_all add: is_alnum_def is_digit_def is_blank_def)
  have nd: "\<forall>c \<in> set ''nodev''. is_alnum c" by (simp add: is_alnum_def is_digit_def)
  have d: "dropWhile is_alnum (fs_line (b, nm) @ [CHR 0x0A]) = CHR 0x09 # nm @ [CHR 0x0A]"
    using nd t(1) by (cases b) (simp_all add: fs_line_def)
  obtain c cs where c: "nm = c # cs" "is_alnum c" using assms by (cases nm) auto
  have "\<not> is_blank c" using c(2) by (auto simp: is_blank_def is_alnum_def is_digit_def)
  then have "dropWhile is_blank (CHR 0x09 # nm @ [CHR 0x0A]) = nm @ [CHR 0x0A]" using t(2) c(1) by simp
  moreover have "takeWhile is_alnum (nm @ [CHR 0x0A]) = takeWhile is_alnum nm" using t(3) by (induction nm) simp_all
  ultimately show ?thesis using d t(2) c by (simp add: proc_fs_list_regex_def)
qed

lemma proc_names_lines:
  "list_all (\<lambda>r. snd r \<noteq> [] \<and> is_alnum (hd (snd r))) rs \<Longrightarrow>
   proc_names (map (\<lambda>r. fs_line r @ [CHR 0x0A]) rs) = map (\<lambda>r. takeWhile is_alnum (snd r)) rs"
proof (induction rs)
  case (Cons r rs)
  then show ?case using fs_line_rx [of "snd r" "fst r"] by simp
qed simp

lemma is_valid_names:
  assumes "table_ok t" "fs_types t = map tolower ` A"
  shows "is_valid_fs_type t (CStr (s @ [NUL])) = Done (\<exists>nm \<in> A. map tolower nm = map tolower (strval s))"
proof -
  have "strval (s @ [NUL]) = strval s" by (induction s) (simp_all add: strval_def)
  moreover have "map tolower (strval s) \<in> map tolower ` A \<longleftrightarrow> (\<exists>nm \<in> A. map tolower nm = map tolower (strval s))" unfolding image_iff by (simp only: eq_commute [of "map tolower (strval s)"])
  ultimately show ?thesis using is_valid_iff [OF assms(1), of "CStr (s @ [NUL])"] assms(2) by simp
qed

text \<open>C26: After \<^verbatim>\<open>sg_set_valid_filesystems\<close> succeeded, \<^verbatim>\<open>is_valid_fs_type\<close> decides membership in the list the caller
  gave, upper and lower case not distinguished, whatever the order of the list; when memory runs out the old
  table stays in force and the error is recorded. The invariant of the table is kept either way.\<close>

theorem sg_set_valid_filesystems_correct:
  assumes "table_ok t" "list_all name_ok names"
  shows "\<exists>rc t' e'. sg_set_valid_filesystems (Some names) t e = Done (rc, t', e') \<and> table_ok t' \<and> (sched e = [] \<longrightarrow> rc = SG_ERROR_NONE) \<and>
     (if rc = SG_ERROR_NONE then
        (\<forall>s. is_valid_fs_type t' (CStr (s @ [NUL])) = Done (\<exists>nm \<in> set names. map tolower nm = map tolower (strval s)))
      else t' = t \<and> error (err e') = rc)"
proof -
  obtain rc t' e' where r: "sg_set_valid_filesystems (Some names) t e = Done (rc, t', e')" "table_ok t'" "sched e = [] \<longrightarrow> rc = SG_ERROR_NONE"
      "if rc = SG_ERROR_NONE then fs_types t' = map tolower ` set names \<and> None \<notin> set (table_names t') else t' = t \<and> error (err e') = rc"
    using set_names [OF assms, of e] by (elim exE conjE) (rule that)
  have "is_valid_fs_type t' (CStr (s @ [NUL])) = Done (\<exists>nm \<in> set names. map tolower nm = map tolower (strval s))" if "rc = SG_ERROR_NONE" for s
    using is_valid_names [OF r(2)] r(4) that by simp
  with r show ?thesis by (cases "rc = SG_ERROR_NONE") auto
qed

lemma sg_set_valid_filesystems_correct_witness:
  "\<exists>rc t' e'. sg_set_valid_filesystems (Some [''nfs'', ''ext4'']) \<lparr>valid_file_systems = None, num_valid_file_systems = 0\<rparr>
      \<lparr>sched = [], junk_char = NUL, errno = 0, err = pre_init_errs\<rparr> = Done (rc, t', e') \<and> rc = SG_ERROR_NONE \<and>
     is_valid_fs_type t' (CStr (''ext4'' @ [NUL])) = Done True \<and> is_valid_fs_type t' (CStr (''ext3'' @ [NUL])) = Done False"
proof -
  let ?t = "\<lparr>valid_file_systems = None, num_valid_file_systems = 0\<rparr>" and ?e = "\<lparr>sched = [], junk_char = NUL, errno = 0, err = pre_init_errs\<rparr>"
  have "table_ok ?t" "list_all name_ok [''nfs'', ''ext4'']" by (simp_all add: table_ok_def name_ok_def)
  from sg_set_valid_filesystems_correct [OF this, of ?e] obtain rc t' e' where
    r: "sg_set_valid_filesystems (Some [''nfs'', ''ext4'']) ?t ?e = Done (rc, t', e')" "rc = SG_ERROR_NONE"
    "\<forall>s. is_valid_fs_type t' (CStr (s @ [NUL])) = Done (\<exists>nm \<in> set [''nfs'', ''ext4'']. map tolower nm = map tolower (strval s))"
    by auto
  have "(\<exists>nm \<in> set [''nfs'', ''ext4'']. map tolower nm = map tolower (strval ''ext4''))"
    "\<not> (\<exists>nm \<in> set [''nfs'', ''ext4'']. map tolower nm = map tolower (strval ''ext3''))" by (simp_all add: strval_def tolower_def)
  with r(1,2) spec [OF r(3), of "''ext4''"] spec [OF r(3), of "''ext3''"] show ?thesis by auto
qed

text \<open>C27: On Linux, memory sufficing and \<^verbatim>\<open>/proc/filesystems\<close> being there, the table after initialisation holds for
  every line of the file, however many there are, the leading letters and digits of the listed name, provided
  the names start with one and the lines have fewer than 4095 characters: a type is valid if and only if it is
  one of these, upper and lower case not distinguished. A listed name that is not all letters and digits is
  cut (\<^verbatim>\<open>binfmt_misc\<close> becomes \<^verbatim>\<open>binfmt\<close>).\<close>

theorem init_valid_fs_types_linux_correct:
  assumes "list_all (\<lambda>r. snd r \<noteq> [] \<and> is_alnum (hd (snd r))) rs" "list_all (line_ok 4095) (map fs_line rs)" "sched e = []"
  shows "\<exists>t' e'. init_valid_fs_types_linux (Some (text_of (map fs_line rs))) True t e = Done (SG_ERROR_NONE, t', e') \<and> table_ok t' \<and>
     (\<forall>s. is_valid_fs_type t' (CStr (s @ [NUL])) =
        Done (\<exists>r \<in> set rs. map tolower (takeWhile is_alnum (snd r)) = map tolower (strval s)))"
proof -
  let ?nms = "map (\<lambda>r. takeWhile is_alnum (snd r)) rs"
  have ls: "proc_names (map strval (file_lines 4095 (text_of (map fs_line rs)))) = ?nms"
    using strval_lines [OF assms(2)] proc_names_lines [OF assms(1)] by (simp add: comp_def)
  have "nul_free (takeWhile is_alnum nm) \<and> length (takeWhile is_alnum nm) < 4095" if "line_ok 4095 (fs_line (b, nm))" for b nm
    using that length_takeWhile_le [of is_alnum nm]
    by (auto simp: line_ok_def fs_line_def nul_free_def list_all_iff dest: set_takeWhileD split: if_splits)
  then have "list_all name_ok ?nms" using assms(2) by (fastforce simp: list_all_iff name_ok_def)
  then obtain t' e' where r: "init_valid_fs_types_linux (Some (text_of (map fs_line rs))) True t e = Done (SG_ERROR_NONE, t', e')" "table_ok t'"
      "fs_types t' = map tolower ` set ?nms"
    using init_linux [of "text_of (map fs_line rs)" e t] assms(3) unfolding ls by blast
  have "is_valid_fs_type t' (CStr (s @ [NUL])) = Done (\<exists>r \<in> set rs. map tolower (takeWhile is_alnum (snd r)) = map tolower (strval s))" for s
    using is_valid_names [OF r(2,3)] by simp
  with r(1,2) show ?thesis by blast
qed

lemma init_valid_fs_types_linux_correct_witness:
  "\<exists>t' e'. init_valid_fs_types_linux (Some (text_of (map fs_line [(True, ''binfmt_misc''), (False, ''ext4'')]))) True
      \<lparr>valid_file_systems = None, num_valid_file_systems = 0\<rparr> \<lparr>sched = [], junk_char = NUL, errno = 0, err = pre_init_errs\<rparr> =
        Done (SG_ERROR_NONE, t', e') \<and> is_valid_fs_type t' (CStr (''ext4'' @ [NUL])) = Done True \<and>
      is_valid_fs_type t' (CStr (''binfmt_misc'' @ [NUL])) = Done False"
proof -
  let ?rs = "[(True, ''binfmt_misc''), (False, ''ext4'')]"
  have "list_all (\<lambda>r. snd r \<noteq> [] \<and> is_alnum (hd (snd r))) ?rs" "list_all (line_ok 4095) (map fs_line ?rs)"
    by (simp_all add: is_alnum_def is_digit_def line_ok_def fs_line_def)
  from init_valid_fs_types_linux_correct [OF this, of "\<lparr>sched = [], junk_char = NUL, errno = 0, err = pre_init_errs\<rparr>"
      "\<lparr>valid_file_systems = None, num_valid_file_systems = 0\<rparr>"] obtain t' e' where
    r: "init_valid_fs_types_linux (Some (text_of (map fs_line ?rs))) True
        \<lparr>valid_file_systems = None, num_valid_file_systems = 0\<rparr> \<lparr>sched = [], junk_char = NUL, errno = 0, err = pre_init_errs\<rparr> =
          Done (SG_ERROR_NONE, t', e')"
      "\<forall>s. is_valid_fs_type t' (CStr (s @ [NUL])) = Done (\<exists>r \<in> set ?rs. map tolower (takeWhile is_alnum (snd r)) = map tolower (strval s))"
    by auto
  have "\<exists>r \<in> set ?rs. map tolower (takeWhile is_alnum (snd r)) = map tolower (strval ''ext4'')"
    "\<not> (\<exists>r \<in> set ?rs. map tolower (takeWhile is_alnum (snd r)) = map tolower (strval ''binfmt_misc''))"
    by (simp_all add: strval_def tolower_def is_alnum_def is_digit_def)
  with r(1) spec [OF r(2), of "''ext4''"] spec [OF r(2), of "''binfmt_misc''"] show ?thesis by auto
qed

end
