(* ===== verification/Disk_Platforms.thy ===== *)
theory Disk_Platforms
  imports Disk_Read Access_Sized Valid_Fs
begin

text \<open>
  The traffic of the disks (\<^verbatim>\<open>sg_get_disk_io_stats_int\<close> of \<^verbatim>\<open>src/libstatgrab/disk_stats.c\<close>) on AIX, Darwin, HP-UX and the
  BSDs, over what the system calls answer.
\<close>

section \<open>AIX\<close>

text \<open>
  What \<^verbatim>\<open>perfstat_disk\<close> says of a disk: the 64 bytes of its name, the size of a block, the blocks read and written. The name ends at
  the first byte that no name of a disk has.
\<close>

record perfstat_disk_t =
  pd_name :: string
  pd_bsize :: ull
  pd_rblks :: ull
  pd_wblks :: ull

definition disk_name_char :: "char \<Rightarrow> bool" where
  "disk_name_char c \<longleftrightarrow>
     is_alnum c \<or> c = CHR ''-'' \<or> c = CHR ''_'' \<or> c = CHR '' ''"

definition cut_disk_name :: "string \<Rightarrow> string" where
  "cut_disk_name nm =
     (let i = length (takeWhile disk_name_char nm) in if i < length nm then nm[i := NUL] else nm)"

definition put_aix :: "time_t \<Rightarrow> perfstat_disk_t \<Rightarrow> sg_disk_io_stats \<Rightarrow> env \<Rightarrow> (sg_error \<times> sg_disk_io_stats \<times> env) outcome" where
  "put_aix now d x e =
     (let x = x\<lparr>read_bytes := pd_bsize d * pd_rblks d, write_bytes := pd_bsize d * pd_wblks d, dio_systime := now\<rparr> in
      if disk_name x = CNull then
        andthen (sg_update_string (disk_name x) (CStr (cut_disk_name (pd_name d))) e) (\<lambda>(rc, p, e).
          Done (if rc \<noteq> SG_ERROR_NONE then sg_get_error (Some (err e)) else SG_ERROR_NONE, x\<lparr>disk_name := p\<rparr>, e))
      else Done (SG_ERROR_NONE, x, e))"

text \<open>
  The first call of \<^verbatim>\<open>perfstat_disk\<close> asks for the number of disks, the second for as many of them; \<open>None\<close> where one fails.
\<close>

definition sg_get_disk_io_stats_aix :: "nat option \<Rightarrow> perfstat_disk_t list option \<Rightarrow> time_t \<Rightarrow> sg_disk_io_stats multi_int" where
  "sg_get_disk_io_stats_aix disks answer now v w =
     (if v = 0 then disk_arg_error w
      else case disks of
        None \<Rightarrow> Done (SG_ERROR_PSTAT, v, set_env (SET_ERROR_WITH_ERRNO SG_ERROR_PSTAT (Some ''perfstat_disk(NULL)'') (wenv w)) w)
      | Some n \<Rightarrow>
          (case next_choice (wenv w) of (c, e) \<Rightarrow>
             if c = AFail then
               Done (SG_ERROR_MALLOC, v, set_env (SET_ERROR_WITH_ERRNO SG_ERROR_MALLOC (Some ''sg_get_disk_io_stats'') e) w)
             else case answer of
               None \<Rightarrow> Done (SG_ERROR_PSTAT, v, set_env (SET_ERROR_WITH_ERRNO SG_ERROR_PSTAT (Some ''perfstat_disk'') e) w)
             | Some ds \<Rightarrow>
                 let ds = take n ds in
                 sized_rows sg_disk_io_stats_vector_init_info (put_aix now) (length ds) ds v (set_env e w)))"

section \<open>Darwin\<close>

text \<open>
  What the I/O registry says of a drive: the status of each call (0 for success), whether the parent is a block storage driver, the
  name of the drive and the statistics of the parent.
\<close>

record iomedia =
  io_parent_status :: int
  io_is_block :: bool
  io_drive_status :: int
  io_bsd_name :: "string option"
  io_props_status :: int
  io_statistics :: "(ull option \<times> ull option) option"

definition io_int_value :: "ull option \<Rightarrow> ull \<Rightarrow> ull" where
  "io_int_value number val = (case number of None \<Rightarrow> val | Some n \<Rightarrow> n)"

text \<open>
  When the properties cannot be had, the code releases them before it reports the error: the pointer was never set, or is that of the
  properties of the drive, which are already released.
\<close>

definition put_darwin :: "time_t \<Rightarrow> iomedia \<Rightarrow> sg_disk_io_stats \<Rightarrow> env \<Rightarrow> (sg_error \<times> sg_disk_io_stats \<times> env) outcome" where
  "put_darwin now d x e =
     (if io_drive_status d \<noteq> 0 then Fault (UseAfterFree 0)
      else
        andthen (case io_bsd_name d of
                   None \<Rightarrow> Done (SG_ERROR_NONE, disk_name x, e)
                 | Some nm \<Rightarrow> sg_update_string (disk_name x) (CStr (nm @ [NUL])) e) (\<lambda>(rc, p, e).
          let x = x\<lparr>disk_name := p\<rparr> in
          if rc \<noteq> SG_ERROR_NONE then Done (sg_get_error (Some (err e)), x, e)
          else if io_props_status d \<noteq> 0 then Fault (UseAfterFree 0)
          else
            let x = (case io_statistics d of
                       None \<Rightarrow> x
                     | Some (rd, wr) \<Rightarrow> x\<lparr>read_bytes := io_int_value rd (read_bytes x), write_bytes := io_int_value wr (write_bytes x)\<rparr>)
            in Done (SG_ERROR_NONE, x\<lparr>dio_systime := now\<rparr>, e)))"

text \<open>The drives in order, up to one whose parent is not known.\<close>

definition darwin_drives :: "time_t \<Rightarrow> iomedia list \<Rightarrow> sg_disk_io_stats multi_int" where
  "darwin_drives now ds v w =
     andthen (fill_rows sg_disk_io_stats_vector_init_info (put_darwin now)
                (filter io_is_block (takeWhile (\<lambda>d. io_parent_status d = 0) ds)) 0 v w) (\<lambda>(rc, v, w).
       case find (\<lambda>d. io_parent_status d \<noteq> 0) ds of
         Some d \<Rightarrow>
           if rc = SG_ERROR_NONE then
             Done (SG_ERROR_IOKIT, v,
               set_env (SET_ERROR_WITH_ERRNO_CODE SG_ERROR_IOKIT (io_parent_status d) (Some ''device has no parent'') (wenv w)) w)
           else Done (rc, v, w)
       | None \<Rightarrow> Done (rc, v, w))"

text \<open>The drives that match, or the status when they cannot be asked for.\<close>

definition sg_get_disk_io_stats_darwin :: "int + iomedia list \<Rightarrow> time_t \<Rightarrow> sg_disk_io_stats multi_int" where
  "sg_get_disk_io_stats_darwin drives now v w =
     (if v = 0 then disk_arg_error w
      else case drives of
        Inl status \<Rightarrow>
          Done (SG_ERROR_IOKIT, v,
            set_env (SET_ERROR_WITH_ERRNO_CODE SG_ERROR_IOKIT status (Some ''couldn't match whole IOMedia devices'') (wenv w)) w)
      | Inr ds \<Rightarrow> darwin_drives now ds v w)"

section \<open>HP-UX\<close>

text \<open>
  A disk as \<^verbatim>\<open>pstat_getdisk\<close> reports it. \<open>psd_dkbytes\<close> are the bytes read and written where the system tells them apart, else the 64-byte
  chunks transferred count for both. \<open>dev_dirs\<close> are the two directories of device files, \<open>None\<close> for one that cannot be opened: the names
  in it with the device number, when \<^verbatim>\<open>lstat\<close> succeeds.
\<close>

record pst_diskinfo =
  psd_idx :: int
  psd_status :: int
  psd_dkbytes :: "(ull \<times> ull) option"
  psd_dkwds :: int
  psd_dev :: "u32 \<times> u32"
  psd_hw_path :: string

type_synonym dev_dirs = "(string \<times> u32 option) list option list"

definition psd_traffic :: "pst_diskinfo \<Rightarrow> ull \<times> ull" where
  "psd_traffic d = (case psd_dkbytes d of Some b \<Rightarrow> b | None \<Rightarrow> (word_of_int (psd_dkwds d * 64), word_of_int (psd_dkwds d * 64)))"

definition psd_diskid :: "pst_diskinfo \<Rightarrow> u32" where
  "psd_diskid d = (case psd_dev d of (major, minor) \<Rightarrow> or (push_bit 24 major) minor)"

definition dev_entry :: "u32 \<Rightarrow> (string \<times> u32 option) list option \<Rightarrow> string option" where
  "dev_entry diskid dh = (case dh of None \<Rightarrow> None | Some es \<Rightarrow> map_option fst (find (\<lambda>(nm, dev). dev = Some diskid) es))"

text \<open>Every directory is searched; a name in a later one replaces the one found before.\<close>

fun search_dirs :: "u32 \<Rightarrow> dev_dirs \<Rightarrow> cstr \<Rightarrow> env \<Rightarrow> (sg_error \<times> cstr \<times> env) outcome" where
  "search_dirs diskid [] p e = Done (SG_ERROR_NONE, p, e)"
| "search_dirs diskid (dh # dhs) p e =
     (case dev_entry diskid dh of
        None \<Rightarrow> search_dirs diskid dhs p e
      | Some nm \<Rightarrow>
          andthen (sg_update_string p (CStr (nm @ [NUL])) e) (\<lambda>(rc, p, e).
            if rc \<noteq> SG_ERROR_NONE then Done (sg_get_error (Some (err e)), p, e) else search_dirs diskid dhs p e))"

definition put_hpux :: "dev_dirs \<Rightarrow> time_t \<Rightarrow> pst_diskinfo \<Rightarrow> sg_disk_io_stats \<Rightarrow> env \<Rightarrow> (sg_error \<times> sg_disk_io_stats \<times> env) outcome" where
  "put_hpux dirs now d x e =
     (let x = x\<lparr>read_bytes := fst (psd_traffic d), write_bytes := snd (psd_traffic d), dio_systime := now\<rparr> in
      andthen (search_dirs (psd_diskid d) dirs (disk_name x) e) (\<lambda>(rc, p, e).
        let x = x\<lparr>disk_name := p\<rparr> in
        if rc \<noteq> SG_ERROR_NONE then Done (rc, x, e)
        else if disk_name x = CNull then
          andthen (sg_update_string (disk_name x) (CStr (psd_hw_path d @ [NUL])) e) (\<lambda>(rc, p, e).
            Done (if rc \<noteq> SG_ERROR_NONE then sg_get_error (Some (err e)) else SG_ERROR_NONE, x\<lparr>disk_name := p\<rparr>, e))
        else Done (SG_ERROR_NONE, x, e)))"

text \<open>
  \<open>pstat idx\<close> is the answer of \<^verbatim>\<open>pstat_getdisk\<close> from index \<open>idx\<close> on, at most 30 disks of which those with status 0 are left out; the
  next index follows that of the last disk. No disk ends the loop; \<open>fuel\<close> bounds the number of answers.
\<close>

fun hpux_disks :: "nat \<Rightarrow> (int \<Rightarrow> pst_diskinfo list option) \<Rightarrow> dev_dirs \<Rightarrow> time_t \<Rightarrow> int \<Rightarrow> nat \<Rightarrow> sg_disk_io_stats multi_int" where
  "hpux_disks 0 pstat dirs now idx n v w = Fault NonTermination"
| "hpux_disks (Suc fuel) pstat dirs now idx n v w =
     (case pstat idx of
        None \<Rightarrow>
          Done (SG_ERROR_PSTAT, v,
            set_env (SET_ERROR_WITH_ERRNO SG_ERROR_PSTAT (Some (''pstat_getdisk(idx='' @ int_string idx @ '')'')) (wenv w)) w)
      | Some ds \<Rightarrow>
          if ds = [] then Done (SG_ERROR_NONE, v, w)
          else
            let on = filter (\<lambda>d. psd_status d \<noteq> 0) ds; last_idx = psd_idx (last ds) in
            andthen (VECTOR_UPDATE v (word_of_nat (n + length on)) sg_disk_io_stats_vector_init_info w) (\<lambda>(res, v, w).
              case res of
                Inl rc \<Rightarrow> Done (rc, v, w)
              | Inr _ \<Rightarrow>
                  (case next_choice (wenv w) of (c, e) \<Rightarrow>
                     if c = AFail then
                       Done (SG_ERROR_MALLOC, v, set_env (SET_ERROR_WITH_ERRNO SG_ERROR_MALLOC (Some ''calloc for readdir_r()'') e) w)
                     else
                       andthen (put_slots (put_hpux dirs now) on n v (set_env e w)) (\<lambda>(rc, v, w).
                         if rc \<noteq> SG_ERROR_NONE then Done (rc, v, w)
                         else if INT_MAX \<le> last_idx then
                           Done (SG_ERROR_PSTAT, v,
                             set_env (SET_ERROR SG_ERROR_PSTAT
                               (Some (''pstat_getdisk(idx='' @ int_string last_idx @ '' >= INT_MAX)'')) (wenv w)) w)
                         else hpux_disks fuel pstat dirs now ((last_idx + 1) mod INT_MAX) (n + length on) v w))))"

definition sg_get_disk_io_stats_hpux ::
  "nat \<Rightarrow> (int \<Rightarrow> pst_diskinfo list option) \<Rightarrow> dev_dirs \<Rightarrow> time_t \<Rightarrow> sg_disk_io_stats multi_int" where
  "sg_get_disk_io_stats_hpux fuel pstat dirs now v w =
     (if v = 0 then disk_arg_error w else hpux_disks fuel pstat dirs now 0 0 v w)"

section \<open>The BSDs\<close>

text \<open>
  \<^verbatim>\<open>sysctl\<close> is asked for the size first (\<open>buflen\<close>, in records of \<open>rsz\<close> bytes), then for the records. When fewer disks are there the second
  time, the rest of the records is what the memory held before, \<open>old\<close>.
\<close>

definition delivered :: "nat \<Rightarrow> 'r list \<Rightarrow> (nat \<Rightarrow> 'r) \<Rightarrow> 'r list" where
  "delivered n rs old = take n rs @ map old [length rs..<n]"

definition put_sysctl ::
  "time_t \<Rightarrow> string \<times> ull \<times> ull \<Rightarrow> sg_disk_io_stats \<Rightarrow> env \<Rightarrow> (sg_error \<times> sg_disk_io_stats \<times> env) outcome" where
  "put_sysctl now r x e =
     (case r of (nm, rd, wr) \<Rightarrow>
        let x = x\<lparr>read_bytes := rd, write_bytes := wr\<rparr> in
        andthen (sg_update_string (disk_name x) (CStr nm) e) (\<lambda>(rc, p, e).
          let x = x\<lparr>disk_name := p\<rparr> in
          if rc \<noteq> SG_ERROR_NONE then Done (sg_get_error (Some (err e)), x, e)
          else Done (SG_ERROR_NONE, x\<lparr>dio_systime := now\<rparr>, e)))"

definition sg_get_disk_io_stats_sysctl ::
  "nat \<Rightarrow> size_t option \<Rightarrow> (string \<times> ull \<times> ull) list option \<Rightarrow> (nat \<Rightarrow> string \<times> ull \<times> ull) \<Rightarrow> time_t \<Rightarrow> sg_disk_io_stats multi_int" where
  "sg_get_disk_io_stats_sysctl rsz buflen stats old now v w =
     (let bad = (\<lambda>e. Done (SG_ERROR_SYSCTL, v, set_env (SET_ERROR_WITH_ERRNO SG_ERROR_SYSCTL (Some ''CTL_HW.HW_DISKSTATS'') e) w)) in
      if v = 0 then disk_arg_error w
      else case buflen of
        None \<Rightarrow> bad (wenv w)
      | Some sz \<Rightarrow>
          (case sg_realloc_choice sz (wenv w) of (c, e) \<Rightarrow>
             if c = AFail then Done (sg_get_error (Some (err e)), v, set_env e w)
             else case stats of
               None \<Rightarrow> bad e
             | Some rs \<Rightarrow>
                 let n = unat sz div rsz in
                 sized_rows sg_disk_io_stats_vector_init_info (put_sysctl now) n (delivered n rs old) v (set_env e w)))"

text \<open>FreeBSD and DragonFly: the devices of \<^verbatim>\<open>devstat\<close> whose type is that of a disk.\<close>

text \<open>\<^verbatim>\<open>device_type\<close> under \<^verbatim>\<open>DEVSTAT_TYPE_MASK\<close>.\<close>

datatype devstat_type =
    DEVSTAT_TYPE_DIRECT | DEVSTAT_TYPE_SEQUENTIAL | DEVSTAT_TYPE_PRINTER | DEVSTAT_TYPE_PROCESSOR | DEVSTAT_TYPE_WORM
  | DEVSTAT_TYPE_CDROM | DEVSTAT_TYPE_SCANNER | DEVSTAT_TYPE_OPTICAL | DEVSTAT_TYPE_CHANGER | DEVSTAT_TYPE_COMM
  | DEVSTAT_TYPE_STORARRAY | DEVSTAT_TYPE_ENCLOSURE | DEVSTAT_TYPE_FLOPPY | DEVSTAT_TYPE_OTHER

record devstat =
  dev_type :: devstat_type
  dev_name :: string
  dev_unit :: int
  dev_bytes_read :: ull
  dev_bytes_written :: ull

definition disk_like :: "devstat \<Rightarrow> bool" where
  "disk_like d \<longleftrightarrow> dev_type d \<in>
     {DEVSTAT_TYPE_DIRECT, DEVSTAT_TYPE_SEQUENTIAL, DEVSTAT_TYPE_WORM, DEVSTAT_TYPE_CDROM, DEVSTAT_TYPE_OPTICAL, DEVSTAT_TYPE_CHANGER,
      DEVSTAT_TYPE_STORARRAY, DEVSTAT_TYPE_FLOPPY}"

text \<open>The name is built by \<^verbatim>\<open>asprintf\<close>, which leaves NULL when it fails.\<close>

definition put_devstat :: "time_t \<Rightarrow> devstat \<Rightarrow> sg_disk_io_stats \<Rightarrow> env \<Rightarrow> (sg_error \<times> sg_disk_io_stats \<times> env) outcome" where
  "put_devstat now d x e =
     (let x = x\<lparr>read_bytes := dev_bytes_read d, write_bytes := dev_bytes_written d\<rparr> in
      andthen (clear_field (disk_name x)) (\<lambda>p.
        case next_choice e of (c, e) \<Rightarrow>
          if c = AFail then Done (SG_ERROR_ASPRINTF, x\<lparr>disk_name := p\<rparr>, SET_ERROR_WITH_ERRNO SG_ERROR_ASPRINTF None e)
          else Done (SG_ERROR_NONE, x\<lparr>disk_name := CStr (dev_name d @ int_string (dev_unit d) @ [NUL]), dio_systime := now\<rparr>, e)))"

definition sg_get_disk_io_stats_devstat :: "string \<Rightarrow> size_t \<Rightarrow> devstat list option \<Rightarrow> time_t \<Rightarrow> sg_disk_io_stats multi_int" where
  "sg_get_disk_io_stats_devstat fn_name sz devs now v w =
     (if v = 0 then disk_arg_error w
      else case sg_realloc_choice sz (wenv w) of (c, e) \<Rightarrow>
        if c = AFail then Done (sg_get_error (Some (err e)), v, set_env e w)
        else case devs of
          None \<Rightarrow> Done (SG_ERROR_DEVSTAT_GETDEVS, v, set_env (SET_ERROR SG_ERROR_DEVSTAT_GETDEVS (Some fn_name) e) w)
        | Some ds \<Rightarrow>
            let ds = filter disk_like ds in
            sized_rows sg_disk_io_stats_vector_init_info (put_devstat now) (length ds) ds v (set_env e w))"

section \<open>The readers meet the interfaces\<close>

lemma room_dio: "room sg_disk_io_stats_vector_init_info (16 + 2 ^ 32)"
  by (simp add: room_def sg_disk_io_stats_vector_init_info_def)

text \<open>What an allocation before the vector is touched does to the environment.\<close>

lemma next_choice_sched: "next_choice e = (c, e') \<Longrightarrow> sched e = [] \<Longrightarrow> c = AMove \<and> e' = e"
  by (auto simp: next_choice_def)

lemma memory_taken:
  assumes "sg_realloc_choice n e = (c, e')"
  shows "sched e = [] \<Longrightarrow> c \<noteq> AFail \<and> sched e' = []" "c = AFail \<Longrightarrow> error (err e') \<noteq> SG_ERROR_NONE"
  using assms sg_realloc_choice_fail [of n e e'] by (auto simp: sg_realloc_choice_ok)

lemma set_error_code_sched [frame_simps]: "sched (SET_ERROR_WITH_ERRNO_CODE code ev arg e) = sched e"
  by (simp add: set_error_defs frame_simps)

subsection \<open>The BSDs\<close>

definition byte_row :: "time_t \<Rightarrow> string \<times> ull \<times> ull \<Rightarrow> sg_disk_io_stats" where
  "byte_row now r = (case r of (nm, rd, wr) \<Rightarrow> \<lparr>disk_name = CStr (strval nm @ [NUL]), read_bytes = rd, write_bytes = wr, dio_systime = now\<rparr>)"

interpretation dsys: row_items sg_disk_io_stats_vector_init_info dio_ok dio_view "put_sysctl now" "\<lambda>r. cstr_ok (CStr (fst r))" "byte_row now" for now
proof
  fix r :: "string \<times> ull \<times> ull" and x e assume "cstr_ok (CStr (fst r))" "dio_ok x"
  then show "\<exists>rc y e'. put_sysctl now r x e = Done (rc, y, e') \<and> dio_ok y \<and>
      (sched e = [] \<longrightarrow> rc = SG_ERROR_NONE \<and> e' = e \<and> dio_view y = byte_row now r) \<and> (rc \<noteq> SG_ERROR_NONE \<longrightarrow> error (err e') = rc)"
    using sg_update_string_step [of "disk_name x" "CStr (fst r)" e]
    by (cases r) (auto simp: put_sysctl_def byte_row_def dio_ok_def dio_view_def Let_def cstr_copy_def sg_get_error_def split: if_splits)
qed

definition sysctl_reading ::
  "nat \<Rightarrow> size_t option \<Rightarrow> (string \<times> ull \<times> ull) list option \<Rightarrow> (nat \<Rightarrow> string \<times> ull \<times> ull) \<Rightarrow> time_t \<Rightarrow> sg_disk_io_stats list option" where
  "sysctl_reading rsz buflen stats old now =
     (case (buflen, stats) of (Some sz, Some rs) \<Rightarrow> Some (map (byte_row now) (delivered (unat sz div rsz) rs old)) | _ \<Rightarrow> None)"

definition sysctl_feasible :: "nat \<Rightarrow> size_t option \<Rightarrow> (string \<times> ull \<times> ull) list option \<Rightarrow> (nat \<Rightarrow> string \<times> ull \<times> ull) \<Rightarrow> bool" where
  "sysctl_feasible rsz buflen stats old \<longleftrightarrow>
     (case (buflen, stats) of
        (Some sz, Some rs) \<Rightarrow>
          unat sz div rsz \<noteq> 0 \<and> list_all (\<lambda>r. cstr_ok (CStr (fst r))) (delivered (unat sz div rsz) rs old) \<and>
          room sg_disk_io_stats_vector_init_info (unat sz div rsz + 2 ^ 33)
      | _ \<Rightarrow> True)"

lemma length_delivered [simp]: "length (delivered n rs old) = n"
  by (simp add: delivered_def)

lemma sysctl_filled:
  assumes f: "sysctl_feasible rsz buflen stats old" and w: "heap_ok w" and v: "vec_at sg_disk_io_stats_vector_init_info dio_ok v [] w"
  shows "filled sg_disk_io_stats_vector_init_info dio_ok dio_view (sysctl_reading rsz buflen stats old now) v w
    (sg_get_disk_io_stats_sysctl rsz buflen stats old now v w)"
proof (cases buflen)
  case None
  then show ?thesis
    using vec_at_nonnull [OF v]
    by (auto simp: sg_get_disk_io_stats_sysctl_def sysctl_reading_def frame_simps intro!: filled_error [OF w v])
next
  case (Some sz)
  let ?n = "unat sz div rsz"
  obtain c e where c: "sg_realloc_choice sz (wenv w) = (c, e)" by fastforce
  note q = memory_taken [OF c]
  have eq: "sg_get_disk_io_stats_sysctl rsz buflen stats old now v w =
      (if c = AFail then Done (error (err e), v, set_env e w)
       else case stats of
         None \<Rightarrow> Done (SG_ERROR_SYSCTL, v, set_env (SET_ERROR_WITH_ERRNO SG_ERROR_SYSCTL (Some ''CTL_HW.HW_DISKSTATS'') e) w)
       | Some rs \<Rightarrow> sized_rows sg_disk_io_stats_vector_init_info (put_sysctl now) ?n (delivered ?n rs old) v (set_env e w))"
    using Some c vec_at_nonnull [OF v] by (simp add: sg_get_disk_io_stats_sysctl_def sg_get_error_def Let_def split: option.split)
  show ?thesis unfolding eq
  proof (rule filled_alloc [OF w v])
    fix rs assume rs: "stats = Some rs"
    have "list_all (\<lambda>r. cstr_ok (CStr (fst r))) (delivered ?n rs old)" "room sg_disk_io_stats_vector_init_info (length (delivered ?n rs old) + 2 ^ 33)"
      "delivered ?n rs old \<noteq> []"
      using f Some rs length_delivered [of ?n rs old] by (auto simp: sysctl_feasible_def simp del: length_delivered)
    from dsys.sized_filled [OF this(2,1,3), of "set_env e w" v now] w v Some rs
    show "filled sg_disk_io_stats_vector_init_info dio_ok dio_view (sysctl_reading rsz buflen stats old now) v (set_env e w)
      (sized_rows sg_disk_io_stats_vector_init_info (put_sysctl now) ?n (delivered ?n rs old) v (set_env e w))" by (simp add: sysctl_reading_def)
  qed (use q Some in \<open>simp_all add: sysctl_reading_def frame_simps\<close>)
qed

interpretation dbsd: multi_diff sg_disk_io_stats_vector_init_info dio_ok dio_view "\<lambda>d. disk_name d \<noteq> CNull" disk_name dio_sub
    "sg_get_disk_io_stats_sysctl rsz buflen stats old now" "sysctl_reading rsz buflen stats old now" "sysctl_feasible rsz buflen stats old" True
  for rsz buflen stats old now
proof
  show "disk_name x \<noteq> CNull" if "sysctl_reading rsz buflen stats old now = Some vs" "x \<in> set vs" for vs x
    using that by (auto simp: sysctl_reading_def byte_row_def split: option.splits)
qed (rule room_dio, rule sysctl_filled [unfolded filled_def])

text \<open>\<^verbatim>\<open>devstat\<close>: the names of devices are C strings.\<close>

definition devstat_row :: "time_t \<Rightarrow> devstat \<Rightarrow> sg_disk_io_stats" where
  "devstat_row now d =
     \<lparr>disk_name = CStr (dev_name d @ int_string (dev_unit d) @ [NUL]), read_bytes = dev_bytes_read d, write_bytes = dev_bytes_written d,
      dio_systime = now\<rparr>"

interpretation ddev: row_items sg_disk_io_stats_vector_init_info dio_ok dio_view "put_devstat now" "\<lambda>d. name_ok (dev_name d @ int_string (dev_unit d))" "devstat_row now" for now
proof
  fix d :: devstat and x e assume d: "name_ok (dev_name d @ int_string (dev_unit d))" and x: "dio_ok x"
  obtain c e1 where c: "next_choice e = (c, e1)" by fastforce
  let ?s = "dev_name d @ int_string (dev_unit d)"
  have "cstr_copy (CStr (?s @ [NUL])) = CStr (?s @ [NUL])" "cstr_ok (CStr (?s @ [NUL]))"
    using d strval_append_NUL [of ?s "[]"] by (auto simp: cstr_copy_def name_ok_def simp del: append_assoc)
  with c x next_choice_sched [OF c] show "\<exists>rc y e'. put_devstat now d x e = Done (rc, y, e') \<and> dio_ok y \<and>
      (sched e = [] \<longrightarrow> rc = SG_ERROR_NONE \<and> e' = e \<and> dio_view y = devstat_row now d) \<and> (rc \<noteq> SG_ERROR_NONE \<longrightarrow> error (err e') = rc)"
    by (auto simp: put_devstat_def Let_def dio_ok_def dio_view_def devstat_row_def clear_field_ok frame_simps)
qed

definition devstat_reading :: "devstat list option \<Rightarrow> time_t \<Rightarrow> sg_disk_io_stats list option" where
  "devstat_reading devs now = map_option (\<lambda>ds. map (devstat_row now) (filter disk_like ds)) devs"

definition devstat_feasible :: "devstat list option \<Rightarrow> bool" where
  "devstat_feasible devs \<longleftrightarrow> (case devs of None \<Rightarrow> True
     | Some ds \<Rightarrow> filter disk_like ds \<noteq> [] \<and> list_all (\<lambda>d. name_ok (dev_name d @ int_string (dev_unit d))) ds \<and>
         room sg_disk_io_stats_vector_init_info (length (filter disk_like ds) + 2 ^ 33))"

lemma devstat_filled:
  assumes f: "devstat_feasible devs" and w: "heap_ok w" and v: "vec_at sg_disk_io_stats_vector_init_info dio_ok v [] w"
  shows "filled sg_disk_io_stats_vector_init_info dio_ok dio_view (devstat_reading devs now) v w
    (sg_get_disk_io_stats_devstat fn_name sz devs now v w)"
proof -
  obtain c e where c: "sg_realloc_choice sz (wenv w) = (c, e)" by fastforce
  note q = memory_taken [OF c]
  have eq: "sg_get_disk_io_stats_devstat fn_name sz devs now v w =
      (if c = AFail then Done (error (err e), v, set_env e w)
       else case devs of
         None \<Rightarrow> Done (SG_ERROR_DEVSTAT_GETDEVS, v, set_env (SET_ERROR SG_ERROR_DEVSTAT_GETDEVS (Some fn_name) e) w)
       | Some ds \<Rightarrow> sized_rows sg_disk_io_stats_vector_init_info (put_devstat now) (length (filter disk_like ds)) (filter disk_like ds) v (set_env e w))"
    using c vec_at_nonnull [OF v] by (simp add: sg_get_disk_io_stats_devstat_def sg_get_error_def Let_def split: option.split)
  show ?thesis unfolding eq
  proof (rule filled_alloc [OF w v])
    fix ds assume ds: "devs = Some ds"
    have "list_all (\<lambda>d. name_ok (dev_name d @ int_string (dev_unit d))) (filter disk_like ds)" "filter disk_like ds \<noteq> []"
      "room sg_disk_io_stats_vector_init_info (length (filter disk_like ds) + 2 ^ 33)"
      using f ds by (auto simp: devstat_feasible_def list_all_iff)
    from ddev.sized_filled [OF this(3,1,2), of "set_env e w" v now] w v ds
    show "filled sg_disk_io_stats_vector_init_info dio_ok dio_view (devstat_reading devs now) v (set_env e w)
      (sized_rows sg_disk_io_stats_vector_init_info (put_devstat now) (length (filter disk_like ds)) (filter disk_like ds) v (set_env e w))"
      by (simp add: devstat_reading_def)
  qed (use q in \<open>simp_all add: devstat_reading_def frame_simps\<close>)
qed

interpretation dfree: multi_diff sg_disk_io_stats_vector_init_info dio_ok dio_view "\<lambda>d. disk_name d \<noteq> CNull" disk_name dio_sub
    "sg_get_disk_io_stats_devstat fn_name sz devs now" "devstat_reading devs now" "devstat_feasible devs" True
  for fn_name sz devs now
proof
  show "disk_name x \<noteq> CNull" if "devstat_reading devs now = Some vs" "x \<in> set vs" for vs x
    using that by (auto simp: devstat_reading_def devstat_row_def)
qed (rule room_dio, rule devstat_filled [unfolded filled_def])

subsection \<open>AIX\<close>

text \<open>
  The names are set on items that have none, which a vector made for the rows has; on such items the reader writes what it would write without
  looking.
\<close>

definition aix_row :: "time_t \<Rightarrow> perfstat_disk_t \<Rightarrow> sg_disk_io_stats" where
  "aix_row now d =
     \<lparr>disk_name = CStr (takeWhile disk_name_char (pd_name d) @ [NUL]), read_bytes = pd_bsize d * pd_rblks d,
      write_bytes = pd_bsize d * pd_wblks d, dio_systime = now\<rparr>"

definition put_aix_anyway :: "time_t \<Rightarrow> perfstat_disk_t \<Rightarrow> sg_disk_io_stats \<Rightarrow> env \<Rightarrow> (sg_error \<times> sg_disk_io_stats \<times> env) outcome" where
  "put_aix_anyway now d x e = put_aix now d (x\<lparr>disk_name := CNull\<rparr>) e"

lemma disk_name_char_NUL: "\<not> disk_name_char NUL"
  by (code_simp)

lemma cut_disk_name_eq:
  assumes "\<not> list_all disk_name_char nm"
  shows "strval (cut_disk_name nm) = takeWhile disk_name_char nm" "NUL \<in> set (cut_disk_name nm)" "nul_free (takeWhile disk_name_char nm)"
proof -
  let ?t = "takeWhile disk_name_char nm"
  have "length ?t < length nm" using assms by (induction nm) auto
  then have c: "cut_disk_name nm = ?t @ NUL # drop (Suc (length ?t)) nm"
    by (simp add: cut_disk_name_def upd_conv_take_nth_drop takeWhile_eq_take [symmetric])
  show nf: "nul_free ?t" using disk_name_char_NUL by (auto simp: nul_free_def list_all_iff dest: set_takeWhileD)
  from c nf show "strval (cut_disk_name nm) = ?t" "NUL \<in> set (cut_disk_name nm)" by simp_all
qed

lemma length_cut_disk_name [simp]: "length (cut_disk_name nm) = length nm"
  by (simp add: cut_disk_name_def Let_def)

definition perfstat_name_ok :: "perfstat_disk_t \<Rightarrow> bool" where
  "perfstat_name_ok d \<longleftrightarrow> length (pd_name d) = 64 \<and> \<not> list_all disk_name_char (pd_name d)"

interpretation daix: row_items sg_disk_io_stats_vector_init_info dio_ok dio_view "put_aix_anyway now" perfstat_name_ok "aix_row now" for now
proof
  fix d :: perfstat_disk_t and x e assume d: "perfstat_name_ok d" and "dio_ok x"
  have "cstr_ok (CStr (cut_disk_name (pd_name d)))" "strval (cut_disk_name (pd_name d)) = takeWhile disk_name_char (pd_name d)"
     "nul_free (takeWhile disk_name_char (pd_name d))"
    using d cut_disk_name_eq [of "pd_name d"] by (auto simp: perfstat_name_ok_def cstr_ok_def)
  then show "\<exists>rc y e'. put_aix_anyway now d x e = Done (rc, y, e') \<and> dio_ok y \<and>
      (sched e = [] \<longrightarrow> rc = SG_ERROR_NONE \<and> e' = e \<and> dio_view y = aix_row now d) \<and> (rc \<noteq> SG_ERROR_NONE \<longrightarrow> error (err e') = rc)"
    using sg_update_string_step [of CNull "CStr (cut_disk_name (pd_name d))" e]
    by (cases x) (auto simp: put_aix_anyway_def put_aix_def aix_row_def dio_ok_def dio_view_def Let_def cstr_copy_def sg_get_error_def split: if_splits)
qed

definition aix_reading :: "nat option \<Rightarrow> perfstat_disk_t list option \<Rightarrow> time_t \<Rightarrow> sg_disk_io_stats list option" where
  "aix_reading disks answer now =
     (case (disks, answer) of (Some n, Some ds) \<Rightarrow> Some (map (aix_row now) (take n ds)) | _ \<Rightarrow> None)"

definition aix_feasible :: "nat option \<Rightarrow> perfstat_disk_t list option \<Rightarrow> bool" where
  "aix_feasible disks answer \<longleftrightarrow>
     (case (disks, answer) of
        (Some n, Some ds) \<Rightarrow> take n ds \<noteq> [] \<and> list_all perfstat_name_ok ds \<and> room sg_disk_io_stats_vector_init_info (length (take n ds) + 2 ^ 33)
      | _ \<Rightarrow> True)"

lemma aix_filled:
  assumes f: "aix_feasible disks answer" and w: "heap_ok w" and v: "vec_at sg_disk_io_stats_vector_init_info dio_ok v [] w"
  shows "filled sg_disk_io_stats_vector_init_info dio_ok dio_view (aix_reading disks answer now) v w (sg_get_disk_io_stats_aix disks answer now v w)"
proof (cases disks)
  case None
  then show ?thesis
    using vec_at_nonnull [OF v] by (auto simp: sg_get_disk_io_stats_aix_def aix_reading_def frame_simps intro!: filled_error [OF w v])
next
  case (Some n)
  obtain c e where c: "next_choice (wenv w) = (c, e)" by fastforce
  have eq: "sg_get_disk_io_stats_aix disks answer now v w =
      (if c = AFail then Done (SG_ERROR_MALLOC, v, set_env (SET_ERROR_WITH_ERRNO SG_ERROR_MALLOC (Some ''sg_get_disk_io_stats'') e) w)
       else case answer of
         None \<Rightarrow> Done (SG_ERROR_PSTAT, v, set_env (SET_ERROR_WITH_ERRNO SG_ERROR_PSTAT (Some ''perfstat_disk'') e) w)
       | Some ds \<Rightarrow> sized_rows sg_disk_io_stats_vector_init_info (put_aix now) (length (take n ds)) (take n ds) v (set_env e w))"
    using Some c vec_at_nonnull [OF v] by (simp add: sg_get_disk_io_stats_aix_def Let_def split: option.split)
  show ?thesis unfolding eq
  proof (rule filled_alloc [OF w v])
    fix ds assume ds: "answer = Some ds"
    have r: "list_all perfstat_name_ok (take n ds)" "take n ds \<noteq> []" "room sg_disk_io_stats_vector_init_info (length (take n ds) + 2 ^ 33)"
      using f Some ds by (auto simp: aix_feasible_def list_all_iff dest: in_set_takeD)
    have w': "heap_ok (set_env e w)" "vec_at sg_disk_io_stats_vector_init_info dio_ok v [] (set_env e w)" using w v by simp_all
    have "put_aix now d (raw_init sg_disk_io_stats_vector_init_info y) e' = put_aix_anyway now d (raw_init sg_disk_io_stats_vector_init_info y) e'" for d y e'
      by (simp add: put_aix_anyway_def raw_init_def sg_disk_io_stats_vector_init_info_def sg_disk_io_stats_item_init_def)
    then have "sized_rows sg_disk_io_stats_vector_init_info (put_aix now) (length (take n ds)) (take n ds) v (set_env e w) =
        sized_rows sg_disk_io_stats_vector_init_info (put_aix_anyway now) (length (take n ds)) (take n ds) v (set_env e w)"
      using r(2,3) by (intro daix.sized_agree [OF w']) auto
    with daix.sized_filled [OF r(3,1,2) w', of now] Some ds
    show "filled sg_disk_io_stats_vector_init_info dio_ok dio_view (aix_reading disks answer now) v (set_env e w)
      (sized_rows sg_disk_io_stats_vector_init_info (put_aix now) (length (take n ds)) (take n ds) v (set_env e w))"
      by (simp add: aix_reading_def)
  qed (use next_choice_sched [OF c] Some in \<open>simp_all add: aix_reading_def frame_simps\<close>)
qed

interpretation daixm: multi_diff sg_disk_io_stats_vector_init_info dio_ok dio_view "\<lambda>d. disk_name d \<noteq> CNull" disk_name dio_sub
    "sg_get_disk_io_stats_aix disks answer now" "aix_reading disks answer now" "aix_feasible disks answer" True
  for disks answer now
proof
  show "disk_name x \<noteq> CNull" if "aix_reading disks answer now = Some vs" "x \<in> set vs" for vs x
    using that by (auto simp: aix_reading_def aix_row_def split: option.splits)
qed (rule room_dio, rule aix_filled [unfolded filled_def])

subsection \<open>Darwin\<close>

text \<open>A drive that answers every question.\<close>

definition iomedia_ok :: "iomedia \<Rightarrow> bool" where
  "iomedia_ok d \<longleftrightarrow> io_drive_status d = 0 \<and> io_props_status d = 0 \<and> (case io_bsd_name d of None \<Rightarrow> False | Some nm \<Rightarrow> name_ok nm) \<and>
     (case io_statistics d of Some (Some rd, Some wr) \<Rightarrow> True | _ \<Rightarrow> False)"

definition iomedia_row :: "time_t \<Rightarrow> iomedia \<Rightarrow> sg_disk_io_stats" where
  "iomedia_row now d =
     \<lparr>disk_name = CStr (the (io_bsd_name d) @ [NUL]), read_bytes = the (fst (the (io_statistics d))), write_bytes = the (snd (the (io_statistics d))),
      dio_systime = now\<rparr>"

interpretation ddar: row_items sg_disk_io_stats_vector_init_info dio_ok dio_view "put_darwin now" iomedia_ok "iomedia_row now" for now
proof
  fix d :: iomedia and x e assume d: "iomedia_ok d" and x: "dio_ok x"
  obtain nm where nm: "io_bsd_name d = Some nm" "name_ok nm" using d by (auto simp: iomedia_ok_def split: option.splits)
  obtain rd wr where st: "io_statistics d = Some (Some rd, Some wr)" using d by (auto simp: iomedia_ok_def split: option.splits)
  obtain rc q e1 where u: "sg_update_string (disk_name x) (CStr (nm @ [NUL])) e = Done (rc, q, e1)" "cstr_ok q"
      "sched e = [] \<longrightarrow> rc = SG_ERROR_NONE \<and> e1 = e" "if rc = SG_ERROR_NONE then q = CStr (nm @ [NUL]) else error (err e1) = rc"
    using name_update [of "disk_name x", OF _ nm(2), of e] x unfolding dio_ok_def by auto
  have cc: "cstr_copy (CStr (nm @ [NUL])) = CStr (nm @ [NUL])" using nm(2) by (simp add: cstr_copy_def name_ok_def)
  show "\<exists>rc y e'. put_darwin now d x e = Done (rc, y, e') \<and> dio_ok y \<and>
      (sched e = [] \<longrightarrow> rc = SG_ERROR_NONE \<and> e' = e \<and> dio_view y = iomedia_row now d) \<and> (rc \<noteq> SG_ERROR_NONE \<longrightarrow> error (err e') = rc)"
    using d u cc by (cases x) (auto simp: put_darwin_def iomedia_ok_def nm(1) st Let_def io_int_value_def dio_ok_def dio_view_def iomedia_row_def
        sg_get_error_def split: if_splits)
qed

definition darwin_reading :: "int + iomedia list \<Rightarrow> time_t \<Rightarrow> sg_disk_io_stats list option" where
  "darwin_reading drives now = (case drives of Inl _ \<Rightarrow> None | Inr ds \<Rightarrow> Some (map (iomedia_row now) (filter io_is_block ds)))"

definition darwin_feasible :: "int + iomedia list \<Rightarrow> bool" where
  "darwin_feasible drives \<longleftrightarrow> (case drives of Inl _ \<Rightarrow> True
     | Inr ds \<Rightarrow> list_all (\<lambda>d. io_parent_status d = 0 \<and> iomedia_ok d) ds \<and>
         room sg_disk_io_stats_vector_init_info (length (filter io_is_block ds) + 2 ^ 33))"

lemma darwin_filled:
  assumes f: "darwin_feasible drives" and w: "heap_ok w" and v: "vec_at sg_disk_io_stats_vector_init_info dio_ok v [] w"
  shows "filled sg_disk_io_stats_vector_init_info dio_ok dio_view (darwin_reading drives now) v w (sg_get_disk_io_stats_darwin drives now v w)"
proof (cases drives)
  case (Inl st)
  then show ?thesis
    using vec_at_nonnull [OF v] by (auto simp: sg_get_disk_io_stats_darwin_def darwin_reading_def frame_simps intro!: filled_error [OF w v])
next
  case (Inr ds)
  have p: "takeWhile (\<lambda>d. io_parent_status d = 0) ds = ds" "find (\<lambda>d. io_parent_status d \<noteq> 0) ds = None"
    using f Inr by (auto simp: darwin_feasible_def list_all_iff takeWhile_eq_all_conv find_None_iff)
  have r: "list_all iomedia_ok (filter io_is_block ds)" "room sg_disk_io_stats_vector_init_info (length (filter io_is_block ds) + 2 ^ 33)"
    using f Inr by (auto simp: darwin_feasible_def list_all_iff)
  note law = ddar.rows_filled [OF r(2,1) w v, of now]
  then obtain rc v' w' where "fill_rows sg_disk_io_stats_vector_init_info (put_darwin now) (filter io_is_block ds) 0 v w = Done (rc, v', w')"
    unfolding filled_def by (elim exE conjE)
  then have "sg_get_disk_io_stats_darwin drives now v w =
      fill_rows sg_disk_io_stats_vector_init_info (put_darwin now) (filter io_is_block ds) 0 v w"
    using Inr vec_at_nonnull [OF v] by (simp add: sg_get_disk_io_stats_darwin_def darwin_drives_def p)
  with law Inr show ?thesis by (simp add: darwin_reading_def)
qed

interpretation ddarm: multi_diff sg_disk_io_stats_vector_init_info dio_ok dio_view "\<lambda>d. disk_name d \<noteq> CNull" disk_name dio_sub
    "sg_get_disk_io_stats_darwin drives now" "darwin_reading drives now" "darwin_feasible drives" True
  for drives now
proof
  show "disk_name x \<noteq> CNull" if "darwin_reading drives now = Some vs" "x \<in> set vs" for vs x
    using that by (auto simp: darwin_reading_def iomedia_row_def split: sum.splits)
qed (rule room_dio, rule darwin_filled [unfolded filled_def])

subsection \<open>HP-UX\<close>

text \<open>The name of a disk: that of its device file in the last directory that has one, else its hardware path.\<close>

definition hpux_name :: "dev_dirs \<Rightarrow> pst_diskinfo \<Rightarrow> string" where
  "hpux_name dirs d = last (psd_hw_path d # List.map_filter (dev_entry (psd_diskid d)) dirs)"

definition hpux_row :: "dev_dirs \<Rightarrow> time_t \<Rightarrow> pst_diskinfo \<Rightarrow> sg_disk_io_stats" where
  "hpux_row dirs now d =
     \<lparr>disk_name = CStr (hpux_name dirs d @ [NUL]), read_bytes = fst (psd_traffic d), write_bytes = snd (psd_traffic d), dio_systime = now\<rparr>"

definition put_hpux_anyway ::
  "dev_dirs \<Rightarrow> time_t \<Rightarrow> pst_diskinfo \<Rightarrow> sg_disk_io_stats \<Rightarrow> env \<Rightarrow> (sg_error \<times> sg_disk_io_stats \<times> env) outcome" where
  "put_hpux_anyway dirs now d x e = put_hpux dirs now d (x\<lparr>disk_name := CNull\<rparr>) e"

definition dirs_ok :: "dev_dirs \<Rightarrow> bool" where
  "dirs_ok dirs \<longleftrightarrow> list_all (\<lambda>dh. case dh of None \<Rightarrow> True | Some es \<Rightarrow> list_all (\<lambda>(nm, dev). name_ok nm) es) dirs"

definition hpux_names_ok :: "dev_dirs \<Rightarrow> pst_diskinfo \<Rightarrow> bool" where
  "hpux_names_ok dirs d \<longleftrightarrow> name_ok (psd_hw_path d) \<and> dirs_ok dirs"

lemma dev_entry_ok:
  assumes "case dh of None \<Rightarrow> True | Some es \<Rightarrow> list_all (\<lambda>(nm, dev). name_ok nm) es" "dev_entry k dh = Some nm"
  shows "name_ok nm"
proof -
  obtain es where es: "dh = Some es" using assms(2) by (auto simp: dev_entry_def split: option.splits)
  then obtain dev where "find (\<lambda>(nm, dev). dev = Some k) es = Some (nm, dev)" using assms(2) by (auto simp: dev_entry_def)
  then have "(nm, dev) \<in> set es" by (auto simp: find_Some_iff in_set_conv_nth)
  with assms(1) es show ?thesis by (auto simp: list_all_iff)
qed

lemma search_dirs_ok:
  assumes "cstr_ok p" "dirs_ok dirs"
  shows "\<exists>rc q e'. search_dirs k dirs p e = Done (rc, q, e') \<and> cstr_ok q \<and> (sched e = [] \<longrightarrow> rc = SG_ERROR_NONE \<and> e' = e) \<and>
     (if rc = SG_ERROR_NONE then q = last (p # map (\<lambda>nm. CStr (nm @ [NUL])) (List.map_filter (dev_entry k) dirs)) else error (err e') = rc)"
  using assms
proof (induction dirs arbitrary: p e)
  case (Cons dh dhs)
  have dhs: "dirs_ok dhs" using Cons.prems(2) by (simp add: dirs_ok_def)
  show ?case
  proof (cases "dev_entry k dh")
    case None
    then have "search_dirs k (dh # dhs) p e = search_dirs k dhs p e" "List.map_filter (dev_entry k) (dh # dhs) = List.map_filter (dev_entry k) dhs"
      by (simp_all add: List.map_filter_simps)
    with Cons.IH [OF Cons.prems(1) dhs, of e] show ?thesis by metis
  next
    case (Some nm)
    then have nm: "name_ok nm"
      using Cons.prems(2) dev_entry_ok [of dh k nm] by (simp add: dirs_ok_def)
    obtain rc q e1 where u: "sg_update_string p (CStr (nm @ [NUL])) e = Done (rc, q, e1)" "cstr_ok q"
        "sched e = [] \<longrightarrow> rc = SG_ERROR_NONE \<and> e1 = e" "if rc = SG_ERROR_NONE then q = CStr (nm @ [NUL]) else error (err e1) = rc"
      using name_update [OF Cons.prems(1) nm, of e] by (elim exE conjE)
    show ?thesis
    proof (cases "rc = SG_ERROR_NONE")
      case True
      obtain rc' q' e' where r: "search_dirs k dhs q e1 = Done (rc', q', e')" "cstr_ok q'" "sched e1 = [] \<longrightarrow> rc' = SG_ERROR_NONE \<and> e' = e1"
         "if rc' = SG_ERROR_NONE then q' = last (q # map (\<lambda>nm. CStr (nm @ [NUL])) (List.map_filter (dev_entry k) dhs)) else error (err e') = rc'"
        using Cons.IH [OF u(2) dhs, of e1] by (elim exE conjE)
      with Some u True show ?thesis by (auto simp: List.map_filter_simps)
    next
      case False
      with Some u show ?thesis by (auto simp: sg_get_error_def)
    qed
  qed
qed (auto simp: List.map_filter_simps)

interpretation dhp: row_items sg_disk_io_stats_vector_init_info dio_ok dio_view "put_hpux_anyway dirs now" "hpux_names_ok dirs" "hpux_row dirs now"
  for dirs now
proof
  fix d :: pst_diskinfo and x e assume d: "hpux_names_ok dirs d" and "dio_ok x"
  let ?ns = "List.map_filter (dev_entry (psd_diskid d)) dirs"
  obtain rc q e1 where s: "search_dirs (psd_diskid d) dirs CNull e = Done (rc, q, e1)" "cstr_ok q" "sched e = [] \<longrightarrow> rc = SG_ERROR_NONE \<and> e1 = e"
     "if rc = SG_ERROR_NONE then q = last (CNull # map (\<lambda>nm. CStr (nm @ [NUL])) ?ns) else error (err e1) = rc"
    using search_dirs_ok [of CNull dirs "psd_diskid d" e] d unfolding hpux_names_ok_def cstr_ok_def by auto
  have ns: "name_ok nm" if "nm \<in> set ?ns" for nm
    using that d dev_entry_ok [where nm = nm and k = "psd_diskid d"] by (auto simp: hpux_names_ok_def dirs_ok_def List.map_filter_def list_all_iff)
  have hw: "name_ok (psd_hw_path d)" using d by (simp add: hpux_names_ok_def)
  obtain rc2 q2 e2 where u: "sg_update_string CNull (CStr (psd_hw_path d @ [NUL])) e1 = Done (rc2, q2, e2)" "cstr_ok q2"
      "sched e1 = [] \<longrightarrow> rc2 = SG_ERROR_NONE \<and> e2 = e1" "if rc2 = SG_ERROR_NONE then q2 = CStr (psd_hw_path d @ [NUL]) else error (err e2) = rc2"
    using name_update [of CNull, OF _ hw, of e1] by auto
  have nul: "nul_free (hpux_name dirs d)"
    using ns hw by (cases "?ns = []") (auto simp: hpux_name_def name_ok_def)
  then have cc: "cstr_copy (CStr (hpux_name dirs d @ [NUL])) = CStr (hpux_name dirs d @ [NUL])" by (simp add: cstr_copy_def)
  show "\<exists>rc y e'. put_hpux_anyway dirs now d x e = Done (rc, y, e') \<and> dio_ok y \<and>
      (sched e = [] \<longrightarrow> rc = SG_ERROR_NONE \<and> e' = e \<and> dio_view y = hpux_row dirs now d) \<and> (rc \<noteq> SG_ERROR_NONE \<longrightarrow> error (err e') = rc)"
  proof (cases "rc = SG_ERROR_NONE \<and> ?ns = []")
    case True
    with s u cc show ?thesis
      by (cases x) (auto simp: put_hpux_anyway_def put_hpux_def Let_def dio_ok_def dio_view_def hpux_row_def hpux_name_def sg_get_error_def split: if_splits)
  next
    case False
    then have "rc = SG_ERROR_NONE \<longrightarrow> q = CStr (hpux_name dirs d @ [NUL])" using s(4) by (auto simp: hpux_name_def last_map)
    with s cc False show ?thesis
      by (cases x) (auto simp: put_hpux_anyway_def put_hpux_def Let_def dio_ok_def dio_view_def hpux_row_def split: if_splits)
  qed
qed

text \<open>
  A system whose disks have ascending indexes, and which answers with the next 30 from an index on. An index of \<^verbatim>\<open>INT_MAX - 1\<close> would send the
  loop back to the first disk.
\<close>

definition pstat_of :: "pst_diskinfo list \<Rightarrow> int \<Rightarrow> pst_diskinfo list option" where
  "pstat_of ds idx = Some (take 30 (filter (\<lambda>d. idx \<le> psd_idx d) ds))"

definition disks_ok :: "pst_diskinfo list \<Rightarrow> bool" where
  "disks_ok ds \<longleftrightarrow> sorted_wrt (<) (map psd_idx ds) \<and> list_all (\<lambda>d. 0 \<le> psd_idx d \<and> psd_idx d < INT_MAX - 1) ds"

definition disk_on :: "pst_diskinfo \<Rightarrow> bool" where
  "disk_on d \<longleftrightarrow> psd_status d \<noteq> 0"

lemma next_disks:
  assumes "disks_ok ds" "filter (\<lambda>d. idx \<le> psd_idx d) ds = rs" "rs \<noteq> []"
  shows "filter (\<lambda>d. psd_idx (last (take 30 rs)) + 1 \<le> psd_idx d) ds = drop 30 rs"
proof -
  let ?l = "psd_idx (last (take 30 rs))"
  have t: "take 30 rs \<noteq> []" using assms(3) by simp
  then have "last (take 30 rs) \<in> set rs" using in_set_takeD last_in_set by fast
  then have l: "idx \<le> ?l" using assms(2) by auto
  have "sorted_wrt (<) (map psd_idx rs)"
    using assms(1) sorted_wrt_filter unfolding assms(2) [symmetric] by (auto simp: disks_ok_def sorted_wrt_map)
  then have s: "sorted_wrt (\<lambda>x y. psd_idx x < psd_idx y) (take 30 rs @ drop 30 rs)" by (simp add: sorted_wrt_map)
  have below: "psd_idx d \<le> ?l" if "d \<in> set (take 30 rs)" for d
  proof -
    have "sorted_wrt (\<lambda>x y. psd_idx x < psd_idx y) (butlast (take 30 rs) @ [last (take 30 rs)])" using s t by (simp add: sorted_wrt_append)
    moreover have "d \<in> set (butlast (take 30 rs)) \<or> d = last (take 30 rs)" using that t by (metis append_butlast_last_id in_set_conv_decomp rotate1.simps(2) set_ConsD set_rotate1)
    ultimately show ?thesis by (auto simp: sorted_wrt_append)
  qed
  have above: "?l < psd_idx d" if "d \<in> set (drop 30 rs)" for d
    using that s t last_in_set [OF t] unfolding sorted_wrt_append by blast
  have "filter (\<lambda>d. ?l + 1 \<le> psd_idx d) (take 30 rs) = []" using below by (force simp: filter_empty_conv)
  moreover have "filter (\<lambda>d. ?l + 1 \<le> psd_idx d) (drop 30 rs) = drop 30 rs" using above by (force simp: filter_id_conv)
  ultimately have "filter (\<lambda>d. ?l + 1 \<le> psd_idx d) (take 30 rs @ drop 30 rs) = drop 30 rs" unfolding filter_append by simp
  moreover have "filter (\<lambda>d. ?l + 1 \<le> psd_idx d) ds = filter (\<lambda>d. ?l + 1 \<le> psd_idx d) rs"
    unfolding assms(2) [symmetric] filter_filter using l assms(2) by (intro filter_cong) auto
  ultimately show ?thesis by simp
qed

text \<open>One answer of the system: the vector grows by the disks that are on.\<close>

lemma hpux_batch:
  assumes w: "heap_ok w" "sched (wenv w) = []" and v: "vec_at sg_disk_io_stats_vector_init_info dio_ok v xs w"
    and on: "list_all (hpux_names_ok dirs) on" "length xs + length on \<noteq> 0"
    and rm: "room sg_disk_io_stats_vector_init_info (length xs + length on + 2 ^ 33)"
  shows "\<exists>v1 w1 w2 ys. VECTOR_UPDATE v (word_of_nat (length xs + length on)) sg_disk_io_stats_vector_init_info w = Done (Inr (), v1, w1) \<and>
     wenv w1 = wenv w \<and> put_slots (put_hpux dirs now) on (length xs) v1 w1 = Done (SG_ERROR_NONE, v1, w2) \<and> heap_ok w2 \<and> wenv w2 = wenv w \<and>
     vec_at sg_disk_io_stats_vector_init_info dio_ok v1 ys w2 \<and> length ys = length xs + length on \<and>
     map dio_view ys = map dio_view xs @ map (hpux_row dirs now) on"
proof -
  let ?ty = sg_disk_io_stats_vector_init_info
  let ?n = "length xs + length on"
  obtain b where b: "vload v w = Done b" "vec_ok ?ty dio_ok b" "contents b = xs" using v by (auto simp: vec_at_def)
  have u: "unat (word_of_nat ?n :: size_t) = ?n" by (rule dhp.unat_rows [OF rm])
  then have n0: "(word_of_nat ?n :: size_t) \<noteq> 0" using on(2) by (metis unat_0)
  have rm': "room ?ty (unat (word_of_nat ?n :: size_t) + 2 ^ 33)" using u rm by simp
  obtain v1 w1 b1 ys where g: "VECTOR_UPDATE v (word_of_nat ?n) ?ty w = Done (Inr (), v1, w1)" "heap_ok w1" "wenv w1 = wenv w"
     "vload v1 w1 = Done b1" "vec_ok ?ty dio_ok b1" "contents b1 = take (unat (word_of_nat ?n :: size_t)) (contents b) @ map (raw_init ?ty) ys"
     "length (contents b1) = unat (word_of_nat ?n :: size_t)"
    using dhp.resized [OF w(1) b(1,2) n0 rm' w(2)] by (elim exE conjE) (rule that)
  have c1: "contents b1 = xs @ map (raw_init ?ty) ys" "length (contents b1) = ?n" using g(6,7) u b(3) by auto
  have fresh: "slots b1 ! j \<in> range (raw_init ?ty)" if "length xs \<le> j" "j < ?n" for j
  proof -
    have "contents b1 ! j = slots b1 ! j" using that c1(2) by (auto simp: contents_def)
    moreover have "contents b1 ! j \<in> range (raw_init ?ty)" using that c1 by (auto simp: nth_append)
    ultimately show ?thesis by simp
  qed
  have eq: "put_slots (put_hpux dirs now) on (length xs) v1 w1 = put_slots (put_hpux_anyway dirs now) on (length xs) v1 w1"
    using fresh by (intro put_slots_cong [OF g(4), where fresh = "\<lambda>x. x \<in> range (raw_init ?ty)"])
      (auto simp: put_hpux_anyway_def raw_init_def sg_disk_io_stats_vector_init_info_def sg_disk_io_stats_item_init_def)
  have le: "length xs + length on \<le> length (contents b1)" using c1(2) by simp
  obtain rc w2 b2 where p: "put_slots (put_hpux_anyway dirs now) on (length xs) v1 w1 = Done (rc, v1, w2)" "heap_ok w2" "vload v1 w2 = Done b2"
     "vec_ok ?ty dio_ok b2" "length (contents b2) = length (contents b1)"
     "sched (wenv w1) = [] \<longrightarrow> rc = SG_ERROR_NONE \<and> wenv w2 = wenv w1 \<and>
        take (length xs) (contents b2) = take (length xs) (contents b1) \<and>
        map dio_view (take (length on) (drop (length xs) (contents b2))) = map (hpux_row dirs now) on \<and>
        drop (length xs + length on) (contents b2) = drop (length xs + length on) (contents b1)"
    using dhp.put_slots_ok [OF g(2,4,5) le on(1), of now] by (elim exE conjE) (rule that)
  have p6: "rc = SG_ERROR_NONE" "wenv w2 = wenv w" "take (length xs) (contents b2) = xs"
     "map dio_view (take (length on) (drop (length xs) (contents b2))) = map (hpux_row dirs now) on"
    using p(6) w(2) g(3) c1(1) by auto
  have "contents b2 = xs @ take (length on) (drop (length xs) (contents b2))"
    using p6(3) p(5) c1(2) append_take_drop_id [of "length xs" "contents b2"] by simp
  then have "map dio_view (contents b2) = map dio_view xs @ map (hpux_row dirs now) on" using p6(4) by (metis map_append)
  moreover have "vec_at ?ty dio_ok v1 (contents b2) w2" using p(3,4) by (simp add: vec_at_def)
  ultimately show ?thesis using g(1,3) eq p(1,2,5) p6(1,2) c1(2) by auto
qed

text \<open>One answer per 30 disks and a last one without disks: the loop ends, and the disks that are on are in the vector.\<close>

lemma hpux_loop:
  assumes "disks_ok ds" "dirs_ok dirs" "list_all (\<lambda>d. name_ok (psd_hw_path d)) ds" "filter (\<lambda>d. idx \<le> psd_idx d) ds = rs" "length rs < fuel"
    and "heap_ok w" "sched (wenv w) = []" "vec_at sg_disk_io_stats_vector_init_info dio_ok v xs w"
    and "rs \<noteq> [] \<Longrightarrow> xs \<noteq> [] \<or> filter disk_on (take 30 rs) \<noteq> []"
    and "room sg_disk_io_stats_vector_init_info (length xs + length rs + 2 ^ 33)"
  shows "\<exists>v' w' ys. hpux_disks fuel (pstat_of ds) dirs now idx (length xs) v w = Done (SG_ERROR_NONE, v', w') \<and> heap_ok w' \<and> wenv w' = wenv w \<and>
     vec_at sg_disk_io_stats_vector_init_info dio_ok v' ys w' \<and> map dio_view ys = map dio_view xs @ map (hpux_row dirs now) (filter disk_on rs)"
  using assms(4-10)
proof (induction fuel arbitrary: idx rs xs v w)
  case (Suc fuel)
  show ?case
  proof (cases "rs = []")
    case True
    with Suc.prems show ?thesis by (auto simp: pstat_of_def)
  next
    case False
    let ?on = "filter disk_on (take 30 rs)"
    let ?l = "psd_idx (last (take 30 rs))"
    have rs: "set rs \<subseteq> set ds" using Suc.prems(1) by auto
    have t: "take 30 rs \<noteq> []" using False by simp
    have tl: "last (take 30 rs) \<in> set ds" using rs in_set_takeD [OF last_in_set [OF t]] by auto
    have on: "list_all (hpux_names_ok dirs) ?on"
      using rs assms(2,3) by (auto simp: list_all_iff hpux_names_ok_def dest: in_set_takeD)
    have n0: "length xs + length ?on \<noteq> 0" using Suc.prems(6) [OF False] by auto
    have len: "length ?on \<le> length (take 30 rs)" by (rule length_filter_le)
    then have rm: "room sg_disk_io_stats_vector_init_info (length xs + length ?on + 2 ^ 33)"
      by (intro room_mono [OF Suc.prems(7)]) simp
    obtain v1 w1 w2 ys where u: "VECTOR_UPDATE v (word_of_nat (length xs + length ?on)) sg_disk_io_stats_vector_init_info w = Done (Inr (), v1, w1)"
       "wenv w1 = wenv w" "put_slots (put_hpux dirs now) ?on (length xs) v1 w1 = Done (SG_ERROR_NONE, v1, w2)" "heap_ok w2" "wenv w2 = wenv w"
       "vec_at sg_disk_io_stats_vector_init_info dio_ok v1 ys w2" "length ys = length xs + length ?on"
       "map dio_view ys = map dio_view xs @ map (hpux_row dirs now) ?on"
      using hpux_batch [OF Suc.prems(3-5) on n0 rm, of now] by (elim exE conjE)
    have l: "0 \<le> ?l" "?l < INT_MAX - 1" using tl assms(1) by (auto simp: disks_ok_def list_all_iff)
    have fl: "filter (\<lambda>d. psd_status d \<noteq> 0) (take 30 rs) = ?on" by (simp add: disk_on_def [abs_def])
    have nc: "next_choice (wenv w1) = (AMove, wenv w1)" using u(2) Suc.prems(4) by (simp add: next_choice_def)
    have st: "hpux_disks (Suc fuel) (pstat_of ds) dirs now idx (length xs) v w = hpux_disks fuel (pstat_of ds) dirs now (?l + 1) (length ys) v1 w2"
      using t Suc.prems(1) u(1,3,7) fl nc l by (simp add: pstat_of_def Let_def mod_pos_pos_trivial)
    have nx: "filter (\<lambda>d. ?l + 1 \<le> psd_idx d) ds = drop 30 rs" by (rule next_disks [OF assms(1) Suc.prems(1) False])
    have ys: "ys \<noteq> []" using u(7) n0 by auto
    have rm2: "room sg_disk_io_stats_vector_init_info (length ys + length (drop 30 rs) + 2 ^ 33)"
      using u(7) len by (intro room_mono [OF Suc.prems(7)]) auto
    have lf: "length (drop 30 rs) < fuel" using Suc.prems(2) False by (cases rs) auto
    have sc: "sched (wenv w2) = []" using u(5) Suc.prems(4) by simp
    obtain v' w' zs where r: "hpux_disks fuel (pstat_of ds) dirs now (?l + 1) (length ys) v1 w2 = Done (SG_ERROR_NONE, v', w')" "heap_ok w'" "wenv w' = wenv w2"
       "vec_at sg_disk_io_stats_vector_init_info dio_ok v' zs w'" "map dio_view zs = map dio_view ys @ map (hpux_row dirs now) (filter disk_on (drop 30 rs))"
      using Suc.IH [OF nx lf u(4) sc u(6) _ rm2] ys by auto
    have "filter disk_on rs = ?on @ filter disk_on (drop 30 rs)" by (metis append_take_drop_id filter_append)
    with st r u(5,8) show ?thesis by (intro exI [of _ v'] exI [of _ w'] exI [of _ zs]) simp
  qed
qed simp

section \<open>Property\<close>

text \<open>C16: HP-UX, memory sufficing: for a system of disks with ascending indexes below \<^verbatim>\<open>INT_MAX - 1\<close>, the first 30 of which are not all
  disabled, the loop over the batches of \<^verbatim>\<open>pstat_getdisk\<close> ends, and the vector holds one item for every disk that is not disabled, in the order
  of the indexes, named by its device file in the last of the directories that has one or else by its hardware path, with the bytes read and
  written.\<close>

theorem sg_get_disk_io_stats_hpux_correct:
  assumes "disks_ok ds" "dirs_ok dirs" "list_all (\<lambda>d. name_ok (psd_hw_path d)) ds" "filter disk_on (take 30 ds) \<noteq> []" "length ds < fuel"
    and "heap_ok w" "sched (wenv w) = []" "vec_at sg_disk_io_stats_vector_init_info dio_ok v [] w"
    and "room sg_disk_io_stats_vector_init_info (length ds + 2 ^ 33)"
  shows "\<exists>v' w' ys. sg_get_disk_io_stats_hpux fuel (pstat_of ds) dirs now v w = Done (SG_ERROR_NONE, v', w') \<and> heap_ok w' \<and>
     vec_at sg_disk_io_stats_vector_init_info dio_ok v' ys w' \<and>
     map dio_view ys =
       map (\<lambda>d. \<lparr>disk_name = CStr (last (psd_hw_path d # List.map_filter (dev_entry (psd_diskid d)) dirs) @ [NUL]),
                 read_bytes = fst (psd_traffic d), write_bytes = snd (psd_traffic d), dio_systime = now\<rparr>)
           (filter (\<lambda>d. psd_status d \<noteq> 0) ds)"
proof -
  have f: "filter (\<lambda>d. 0 \<le> psd_idx d) ds = ds" using assms(1) by (simp add: disks_ok_def filter_id_conv list_all_iff)
  have rm: "room sg_disk_io_stats_vector_init_info (length ([] :: sg_disk_io_stats list) + length ds + 2 ^ 33)" using assms(9) by simp
  have st: "sg_get_disk_io_stats_hpux fuel (pstat_of ds) dirs now v w = hpux_disks fuel (pstat_of ds) dirs now 0 0 v w"
    using vec_at_nonnull [OF assms(8)] by (simp add: sg_get_disk_io_stats_hpux_def)
  show ?thesis
    using hpux_loop [OF assms(1-3) f assms(5-8) _ rm, of now] assms(4)
    unfolding st hpux_row_def hpux_name_def disk_on_def by auto
qed

text \<open>A vector that was emptied.\<close>

definition emptied :: "sg_disk_io_stats vblock" where
  "emptied = (let b = block_of sg_disk_io_stats_vector_init_info [sda_stats 0] in b\<lparr>hdr := (hdr b)\<lparr>used_count := 0\<rparr>\<rparr>)"

lemma emptied_ok: "vec_ok sg_disk_io_stats_vector_init_info dio_ok emptied" "contents emptied = []"
proof -
  let ?ty = sg_disk_io_stats_vector_init_info
  have isz: "item_size ?ty = 32" by (simp add: sg_disk_io_stats_vector_init_info_def)
  show "vec_ok ?ty dio_ok emptied"
    by (simp add: vec_ok_def emptied_def Let_def block_of_def isz slot_count_def VECTOR_SIZE_def)
  show "contents emptied = []" by (simp add: contents_def emptied_def Let_def)
qed

definition example_disk :: "int \<Rightarrow> int \<Rightarrow> pst_diskinfo" where
  "example_disk i on = \<lparr>psd_idx = i, psd_status = on, psd_dkbytes = Some (512, 1024), psd_dkwds = 0, psd_dev = (1, 2), psd_hw_path = ''0/1/1''\<rparr>"

lemma sg_get_disk_io_stats_hpux_correct_witness:
  "\<exists>v' w' ys. sg_get_disk_io_stats_hpux 3 (pstat_of [example_disk 0 1, example_disk 1 0]) [None, Some [(''c1t0d0'', Some 0x1000002)]] 60 1
      (world_of [emptied] (sda_stats 0)) = Done (SG_ERROR_NONE, v', w') \<and> heap_ok w' \<and>
     vec_at sg_disk_io_stats_vector_init_info dio_ok v' ys w' \<and>
     map dio_view ys = [\<lparr>disk_name = CStr (''c1t0d0'' @ [NUL]), read_bytes = 512, write_bytes = 1024, dio_systime = 60\<rparr>]"
proof -
  let ?ty = sg_disk_io_stats_vector_init_info
  let ?ds = "[example_disk 0 1, example_disk 1 0]" and ?dirs = "[None, Some [(''c1t0d0'', Some 0x1000002)]]"
  let ?w = "world_of [emptied] (sda_stats 0)"
  have isz: "item_size ?ty = 32" by (simp add: sg_disk_io_stats_vector_init_info_def)
  have at: "vec_at ?ty dio_ok 1 [] ?w"
    unfolding vec_at_def using emptied_ok by (intro exI [of _ emptied]) (simp add: vload_world_of)
  have sc: "sched (wenv ?w) = []" by (simp add: world_of_def fresh_env_def)
  have d: "disks_ok ?ds" "list_all (\<lambda>d. name_ok (psd_hw_path d)) ?ds" "filter disk_on (take 30 ?ds) \<noteq> []"
    by (simp_all add: disks_ok_def example_disk_def INT_MAX_def name_ok_def nul_free_def disk_on_def)
  have dirs: "dirs_ok ?dirs" by (simp add: dirs_ok_def name_ok_def nul_free_def)
  have id: "psd_diskid (example_disk 0 1) = 0x1000002" by (simp add: psd_diskid_def example_disk_def)
  have row: "map (\<lambda>d. \<lparr>disk_name = CStr (last (psd_hw_path d # List.map_filter (dev_entry (psd_diskid d)) ?dirs) @ [NUL]),
      read_bytes = fst (psd_traffic d), write_bytes = snd (psd_traffic d), dio_systime = 60\<rparr>) (filter (\<lambda>d. psd_status d \<noteq> 0) ?ds) =
      [\<lparr>disk_name = CStr (''c1t0d0'' @ [NUL]), read_bytes = 512, write_bytes = 1024, dio_systime = 60\<rparr>]"
    using id by (simp add: dev_entry_def List.map_filter_simps psd_traffic_def) (simp add: example_disk_def)
  have rm: "room ?ty (length ?ds + 2 ^ 33)" by (simp add: isz room_def)
  show ?thesis
    using sg_get_disk_io_stats_hpux_correct [OF d(1) dirs d(2,3) _ world_of_ok sc at rm, of 3 60] unfolding row by simp
qed

end
