(* ===== verification/Cpu.thy ===== *)
theory Cpu
  imports Complex_Main Readings
begin

text \<open>
  CPU times (\<^verbatim>\<open>cpu_stats.c\<close>): the readers of the platforms over what their system calls report, the
  difference of two readings, the percentages, and the public functions. Doubles are real numbers or,
  after a division by zero, no number.
\<close>

section \<open>Data\<close>

record sg_cpu_stats =
  cpu_user :: ull
  cpu_kernel :: ull
  cpu_idle :: ull
  cpu_iowait :: ull
  cpu_swap :: ull
  cpu_nice :: ull
  cpu_total :: ull
  context_switches :: ull
  voluntary_context_switches :: ull
  involuntary_context_switches :: ull
  syscalls :: ull
  interrupts :: ull
  soft_interrupts :: ull
  cpu_systime :: time_t

definition cpu_zero :: sg_cpu_stats where
  "cpu_zero =
     \<lparr>cpu_user = 0, cpu_kernel = 0, cpu_idle = 0, cpu_iowait = 0, cpu_swap = 0, cpu_nice = 0, cpu_total = 0,
      context_switches = 0, voluntary_context_switches = 0, involuntary_context_switches = 0, syscalls = 0,
      interrupts = 0, soft_interrupts = 0, cpu_systime = 0\<rparr>"

definition sg_cpu_stats_vector_init_info :: "sg_cpu_stats sg_vector_init_info" where
  "sg_cpu_stats_vector_init_info = VECTOR_INIT_INFO_EMPTY_INIT 112"

section \<open>The readers\<close>

text \<open>The positions of the CPU states in the kernel's array, from the system headers.\<close>

record cp_index =
  CP_USER :: nat
  CP_NICE :: nat
  CP_SYS :: nat
  CP_SSYS :: nat
  CP_WAIT :: nat
  CP_IDLE :: nat

text \<open>HP-UX: \<^verbatim>\<open>pstat_getdynamic\<close> (the array of times) and \<^verbatim>\<open>pstat_getvminfo\<close> (switches, calls, interrupts).\<close>

definition cpu_hpux :: "cp_index \<Rightarrow> ull list option \<Rightarrow> (ull \<times> ull \<times> ull) option \<Rightarrow> sg_cpu_stats reading" where
  "cpu_hpux ix dyn vminfo =
     (case dyn of
        None \<Rightarrow> (cpu_zero, Some (SG_ERROR_PSTAT, Some ''pstat_dynamic'', FromErrno))
      | Some t \<Rightarrow>
          (case vminfo of
             None \<Rightarrow> (cpu_zero, Some (SG_ERROR_PSTAT, Some ''pstat_vminfo'', FromErrno))
           | Some (sswtch, ssyscall, sintr) \<Rightarrow>
               (cpu_zero\<lparr>cpu_user := t ! CP_USER ix, cpu_iowait := t ! CP_WAIT ix,
                  cpu_kernel := t ! CP_SSYS ix + t ! CP_SYS ix, cpu_idle := t ! CP_IDLE ix, cpu_nice := t ! CP_NICE ix,
                  cpu_total := sum_list t, context_switches := sswtch, syscalls := ssyscall, interrupts := sintr\<rparr>, None)))"

text \<open>AIX: \<^verbatim>\<open>perfstat_cpu_total\<close>.\<close>

record perfstat_cpu_total_t =
  ps_user :: ull
  ps_wait :: ull
  ps_sys :: ull
  ps_idle :: ull
  ps_pswitch :: ull
  ps_syscall :: ull
  ps_devintrs :: ull
  ps_softintrs :: ull

definition cpu_aix :: "perfstat_cpu_total_t option \<Rightarrow> sg_cpu_stats reading" where
  "cpu_aix r =
     (case r of
        None \<Rightarrow> (cpu_zero, Some (SG_ERROR_PSTAT, Some ''perfstat_cpu_total'', FromErrno))
      | Some a \<Rightarrow>
          (cpu_zero\<lparr>cpu_user := ps_user a, cpu_iowait := ps_wait a, cpu_kernel := ps_sys a, cpu_idle := ps_idle a,
             cpu_total := ps_user a + ps_wait a + ps_sys a + ps_idle a, context_switches := ps_pswitch a,
             syscalls := ps_syscall a, interrupts := ps_devintrs a, soft_interrupts := ps_softintrs a\<rparr>, None))"

text \<open>Solaris: the sum over the \<^verbatim>\<open>cpu_stat\<close> kstats that can be read.\<close>

record cpu_kstat =
  ck_raw :: bool
  ck_module :: string
  ck_data :: "(ull \<times> ull \<times> ull \<times> ull \<times> ull \<times> ull \<times> ull \<times> ull \<times> ull \<times> ull) option"
    \<comment> \<open>user, kernel, idle, waits for I/O, physical I/O and swap, switches, calls, involuntary switches, interrupts\<close>

fun cpu_solaris_loop :: "cpu_kstat list \<Rightarrow> sg_cpu_stats \<Rightarrow> sg_cpu_stats" where
  "cpu_solaris_loop [] c = c"
| "cpu_solaris_loop (k # ks) c =
     (if ck_raw k \<and> strcmp (ck_module k) ''cpu_stat'' = 0 then
        (case ck_data k of
           None \<Rightarrow> cpu_solaris_loop ks c
         | Some (u, s, i, wio, wpio, wswap, sw, sc, ivs, intr) \<Rightarrow>
             cpu_solaris_loop ks
               (c\<lparr>cpu_user := cpu_user c + u, cpu_kernel := cpu_kernel c + s, cpu_idle := cpu_idle c + i,
                  cpu_iowait := cpu_iowait c + (wio + wpio), cpu_swap := cpu_swap c + wswap,
                  context_switches := context_switches c + sw, syscalls := syscalls c + sc,
                  involuntary_context_switches := involuntary_context_switches c + ivs,
                  interrupts := interrupts c + intr\<rparr>))
      else cpu_solaris_loop ks c)"

definition cpu_solaris :: "cpu_kstat list option \<Rightarrow> sg_cpu_stats reading" where
  "cpu_solaris chain =
     (case chain of
        None \<Rightarrow> (cpu_zero, Some (SG_ERROR_KSTAT_OPEN, None, NoErrno))
      | Some ks \<Rightarrow>
          let c = cpu_solaris_loop ks cpu_zero in
          (c\<lparr>cpu_total := cpu_user c + cpu_iowait c + cpu_kernel c + cpu_idle c + cpu_swap c,
             voluntary_context_switches := context_switches c - involuntary_context_switches c\<rparr>, None))"

text \<open>Linux: the lines of \<^verbatim>\<open>/proc/stat\<close> (of at most 1023 bytes) that start with one of four keywords and a blank.\<close>

fun cpu_linux_loop :: "string list \<Rightarrow> nat \<Rightarrow> sg_cpu_stats \<Rightarrow> (string + nat) \<times> sg_cpu_stats" where
  "cpu_linux_loop [] matched c = (Inr matched, c)"
| "cpu_linux_loop (l # ls) matched c =
     (if matched < 4 then
        (if starts_with ''cpu'' l then
           (let vs = scan_nums ''cpu'' 5 l;
                c = assign [\<lambda>v. cpu_user_update (\<lambda>_. v), \<lambda>v. cpu_nice_update (\<lambda>_. v), \<lambda>v. cpu_kernel_update (\<lambda>_. v),
                            \<lambda>v. cpu_idle_update (\<lambda>_. v), \<lambda>v. cpu_iowait_update (\<lambda>_. v)] vs c
            in if length vs < 4 \<or> 5 < length vs then (Inl ''cpu'', c) else cpu_linux_loop ls (Suc matched) c)
         else if starts_with ''intr'' l then
           (let vs = scan_nums ''intr'' 1 l; c = assign [\<lambda>v. interrupts_update (\<lambda>_. v)] vs c
            in if length vs \<noteq> 1 then (Inl ''intr'', c) else cpu_linux_loop ls (Suc matched) c)
         else if starts_with ''ctxt'' l then
           (let vs = scan_nums ''ctxt'' 1 l; c = assign [\<lambda>v. context_switches_update (\<lambda>_. v)] vs c
            in if length vs \<noteq> 1 then (Inl ''ctxt'', c) else cpu_linux_loop ls (Suc matched) c)
         else if starts_with ''softirq'' l then
           (let vs = scan_nums ''softirq'' 1 l; c = assign [\<lambda>v. soft_interrupts_update (\<lambda>_. v)] vs c
            in if length vs \<noteq> 1 then (Inl ''softirq'', c) else cpu_linux_loop ls (Suc matched) c)
         else cpu_linux_loop ls matched c)
      else (Inr matched, c))"

definition cpu_linux :: "string option \<Rightarrow> sg_cpu_stats reading" where
  "cpu_linux pf =
     (case pf of
        None \<Rightarrow> (cpu_zero, Some (SG_ERROR_OPEN, Some ''/proc/stat'', FromErrno))
      | Some body \<Rightarrow>
          (case cpu_linux_loop (map strval (file_lines 1023 body)) 0 cpu_zero of
             (Inl key, c) \<Rightarrow> (c, Some (SG_ERROR_PARSE, Some key, NoErrno))
           | (Inr matched, c) \<Rightarrow>
               if matched = 0 then
                 (c, Some (SG_ERROR_PARSE,
                    Some (''all from 'cpu', 'intr', 'ctxt', 'softirq' missing from '/proc/stat'' @ [CHR 0x27]), NoErrno))
               else (c\<lparr>cpu_total := cpu_user c + cpu_nice c + cpu_kernel c + cpu_idle c\<rparr>, None)))"

text \<open>
  The BSDs: the times come from the Mach host, from \<^verbatim>\<open>kinfo_get_sched_cputime\<close> or from a sysctl (under one
  of three names) that fills the array of times; the switches from one of three structures or from nowhere.
\<close>

datatype bsd_times =
    HostStatistics "int + ull \<times> ull \<times> ull \<times> ull"              \<comment> \<open>Mach error, or user, nice, system, idle\<close>
  | KinfoCputime "(ull \<times> ull \<times> ull \<times> ull \<times> ull) option"       \<comment> \<open>user, nice, sys, intr, idle\<close>
  | CpTime string cp_index "ull list option"

datatype bsd_switches =
    Uvmexp string "(ull \<times> ull \<times> ull \<times> ull) option"              \<comment> \<open>swtch, syscalls, intrs, softs\<close>
  | Vmmeter "(ull \<times> ull \<times> ull \<times> ull \<times> ull) option"            \<comment> \<open>v_swtch, v_syscall, v_trap, v_intr, v_soft\<close>
  | NoSwitches

definition cpu_bsd_times :: "bsd_times \<Rightarrow> sg_cpu_stats reading" where
  "cpu_bsd_times t =
     (case t of
        HostStatistics (Inl rc) \<Rightarrow> (cpu_zero, Some (SG_ERROR_MACHCALL, Some ''host_statistics'', ErrnoCode rc))
      | HostStatistics (Inr (u, n, s, i)) \<Rightarrow>
          (cpu_zero\<lparr>cpu_user := u, cpu_nice := n, cpu_kernel := s, cpu_idle := i, cpu_total := u + n + s + i\<rparr>, None)
      | KinfoCputime None \<Rightarrow> (cpu_zero, Some (SG_ERROR_SYSCTL, Some ''kern.cputime'', FromErrno))
      | KinfoCputime (Some (u, n, s, intr, i)) \<Rightarrow>
          (cpu_zero\<lparr>cpu_user := u, cpu_nice := n, cpu_kernel := s + intr, cpu_idle := i,
             cpu_total := u + n + (s + intr) + i\<rparr>, None)
      | CpTime nm ix None \<Rightarrow> (cpu_zero, Some (SG_ERROR_SYSCTL, Some nm, FromErrno))
      | CpTime nm ix (Some cp) \<Rightarrow>
          (cpu_zero\<lparr>cpu_user := cp ! CP_USER ix, cpu_nice := cp ! CP_NICE ix, cpu_kernel := cp ! CP_SYS ix,
             cpu_idle := cp ! CP_IDLE ix, cpu_total := sum_list cp\<rparr>, None))"

definition cpu_bsd_switches :: "bsd_switches \<Rightarrow> sg_cpu_stats \<Rightarrow> sg_cpu_stats reading" where
  "cpu_bsd_switches t c =
     (let none = c\<lparr>context_switches := 0, syscalls := 0, voluntary_context_switches := 0,
                   involuntary_context_switches := 0, interrupts := 0, soft_interrupts := 0\<rparr>
      in case t of
        Uvmexp nm None \<Rightarrow> (c, Some (SG_ERROR_SYSCTL, Some nm, FromErrno))
      | Uvmexp nm (Some (sw, sc, intr, soft)) \<Rightarrow>
          (none\<lparr>context_switches := sw, syscalls := sc, interrupts := intr, soft_interrupts := soft\<rparr>, None)
      | Vmmeter (Some (sw, sc, trap, intr, soft)) \<Rightarrow>
          (none\<lparr>context_switches := sw, syscalls := sc + trap, interrupts := intr, soft_interrupts := soft\<rparr>, None)
      | Vmmeter None \<Rightarrow> (none, None)
      | NoSwitches \<Rightarrow> (none, None))"

definition cpu_bsd :: "bsd_times \<Rightarrow> bsd_switches \<Rightarrow> sg_cpu_stats reading" where
  "cpu_bsd t s =
     (case cpu_bsd_times t of
        (c, Some er) \<Rightarrow> (c, Some er)
      | (c, None) \<Rightarrow> cpu_bsd_switches s c)"

datatype cpu_platform =
    CpuHpux cp_index "ull list option" "(ull \<times> ull \<times> ull) option"
  | CpuAix "perfstat_cpu_total_t option"
  | CpuSolaris "cpu_kstat list option"
  | CpuLinux "string option"
  | CpuBsd bsd_times bsd_switches
  | CpuOther string

definition cpu_reading :: "cpu_platform \<Rightarrow> sg_cpu_stats reading" where
  "cpu_reading p =
     (case p of
        CpuHpux ix dyn vm \<Rightarrow> cpu_hpux ix dyn vm
      | CpuAix r \<Rightarrow> cpu_aix r
      | CpuSolaris ks \<Rightarrow> cpu_solaris ks
      | CpuLinux pf \<Rightarrow> cpu_linux pf
      | CpuBsd t s \<Rightarrow> cpu_bsd t s
      | CpuOther os \<Rightarrow> (cpu_zero, Some (SG_ERROR_UNSUPPORTED, Some os, NoErrno)))"

definition sg_get_cpu_stats_int :: "cpu_platform \<Rightarrow> time_t \<Rightarrow> sg_cpu_stats easy_int" where
  "sg_get_cpu_stats_int p now x e =
     (case cpu_reading p of
        (c, None) \<Rightarrow> finish_reading (c\<lparr>cpu_systime := now\<rparr>, None) e
      | (c, Some er) \<Rightarrow> finish_reading (c, Some er) e)"

section \<open>Differences\<close>

text \<open>\<^verbatim>\<open>counter_diff\<close>; on the platforms of the second branch the counters are taken to wrap.\<close>

definition counter_diff :: "bool \<Rightarrow> ull \<Rightarrow> ull \<Rightarrow> ull" where
  "counter_diff vmmeter new old =
     (if vmmeter \<and> new < old then 2147483647 + 1 + new - old else new - old)"

definition sg_get_cpu_stats_diff_int :: "bool \<Rightarrow> sg_cpu_stats diff_int" where
  "sg_get_cpu_stats_diff_int vm tgt now lst e =
     Done (SG_ERROR_NONE,
       case now of
         None \<Rightarrow> cpu_zero
       | Some n \<Rightarrow>
           (case lst of
              None \<Rightarrow> n
            | Some l \<Rightarrow>
                n\<lparr>cpu_user := cpu_user n - cpu_user l, cpu_kernel := cpu_kernel n - cpu_kernel l,
                  cpu_idle := cpu_idle n - cpu_idle l, cpu_iowait := cpu_iowait n - cpu_iowait l,
                  cpu_swap := cpu_swap n - cpu_swap l, cpu_nice := cpu_nice n - cpu_nice l,
                  cpu_total := cpu_total n - cpu_total l,
                  context_switches := counter_diff vm (context_switches n) (context_switches l),
                  voluntary_context_switches :=
                    counter_diff vm (voluntary_context_switches n) (voluntary_context_switches l),
                  involuntary_context_switches :=
                    counter_diff vm (involuntary_context_switches n) (involuntary_context_switches l),
                  syscalls := counter_diff vm (syscalls n) (syscalls l),
                  interrupts := counter_diff vm (interrupts n) (interrupts l),
                  soft_interrupts := counter_diff vm (soft_interrupts n) (soft_interrupts l),
                  cpu_systime := cpu_systime n - cpu_systime l\<rparr>),
       e)"

definition SG_CPU_NOW_IDX :: nat where "SG_CPU_NOW_IDX = 0"
definition SG_CPU_DIFF_IDX :: nat where "SG_CPU_DIFF_IDX = 1"
definition SG_CPU_PERCENT_IDX :: nat where "SG_CPU_PERCENT_IDX = 2"

definition sg_get_cpu_stats :: "cpu_platform \<Rightarrow> time_t \<Rightarrow> sg_cpu_stats access" where
  "sg_get_cpu_stats p now =
     EASY_COMP_ACCESS sg_cpu_stats_vector_init_info (sg_get_cpu_stats_int p now) SG_CPU_NOW_IDX"

definition sg_get_cpu_stats_diff :: "bool \<Rightarrow> cpu_platform \<Rightarrow> time_t \<Rightarrow> sg_cpu_stats access" where
  "sg_get_cpu_stats_diff vm p now =
     EASY_COMP_DIFF sg_cpu_stats_vector_init_info (sg_get_cpu_stats_diff_int vm) (sg_get_cpu_stats p now)
       SG_CPU_DIFF_IDX SG_CPU_NOW_IDX"

section \<open>Percentages\<close>

record sg_cpu_percents =
  pc_user :: "real option"
  pc_kernel :: "real option"
  pc_idle :: "real option"
  pc_iowait :: "real option"
  pc_swap :: "real option"
  pc_nice :: "real option"
  time_taken :: time_t

definition sg_cpu_percents_vector_init_info :: "sg_cpu_percents sg_vector_init_info" where
  "sg_cpu_percents_vector_init_info = VECTOR_INIT_INFO_EMPTY_INIT 56"

definition percent :: "ull \<Rightarrow> ull \<Rightarrow> real option" where
  "percent x t = (if t = 0 then None else Some (real (unat x) / real (unat t) * 100))"

definition sg_get_cpu_percents_int :: "sg_cpu_stats \<Rightarrow> sg_cpu_percents \<Rightarrow> sg_cpu_percents" where
  "sg_get_cpu_percents_int c d =
     d\<lparr>pc_user := percent (cpu_user c) (cpu_total c), pc_kernel := percent (cpu_kernel c) (cpu_total c),
       pc_idle := percent (cpu_idle c) (cpu_total c), pc_iowait := percent (cpu_iowait c) (cpu_total c),
       pc_swap := percent (cpu_swap c) (cpu_total c), pc_nice := percent (cpu_nice c) (cpu_total c),
       time_taken := cpu_systime c\<rparr>"

text \<open>
  \<^verbatim>\<open>sg_get_cpu_percents_of\<close>. The vectors of the readings and the vector of the percentages have different
  item types; the two heaps share the environment, which goes back and forth between them. On two of its
  paths the function leaves \<^verbatim>\<open>*entries\<close> as it was.
\<close>

datatype sg_cpu_percent_source = sg_entire_cpu_percent | sg_last_diff_cpu_percent | sg_new_diff_cpu_percent | sg_other_source int

record cpu_world =
  cw_stats :: "sg_cpu_stats world"
  cw_percents :: "sg_cpu_percents world"

definition to_percents :: "cpu_world \<Rightarrow> cpu_world" where
  "to_percents w = w\<lparr>cw_percents := set_env (wenv (cw_stats w)) (cw_percents w)\<rparr>"

definition to_stats :: "cpu_world \<Rightarrow> cpu_world" where
  "to_stats w = w\<lparr>cw_stats := set_env (wenv (cw_percents w)) (cw_stats w)\<rparr>"

text \<open>Which reading the percentages are taken of: the vector and the data pointer of the code, the latter 0 when unset.\<close>

definition cpu_source ::
  "bool \<Rightarrow> cpu_platform \<Rightarrow> time_t \<Rightarrow> sg_cpu_percent_source \<Rightarrow> glob \<Rightarrow> sg_cpu_stats world
     \<Rightarrow> (addr \<times> addr \<times> glob \<times> sg_cpu_stats world) outcome" where
  "cpu_source vm p now cps g w =
     (let new_diff = andthen (sg_get_cpu_stats_diff vm p now (Some g) w) (\<lambda>((d, _), gl, w). Done (0, d, the gl, w)) in
      case cps of
        sg_entire_cpu_percent \<Rightarrow>
          if g SG_CPU_NOW_IDX = 0
          then andthen (sg_get_cpu_stats p now (Some g) w) (\<lambda>((d, _), gl, w). Done (0, d, the gl, w))
          else Done (g SG_CPU_NOW_IDX, 0, g, w)
      | sg_last_diff_cpu_percent \<Rightarrow> if g SG_CPU_DIFF_IDX \<noteq> 0 then Done (g SG_CPU_DIFF_IDX, 0, g, w) else new_diff
      | sg_new_diff_cpu_percent \<Rightarrow> new_diff
      | sg_other_source i \<Rightarrow>
          Done (0, 0, g, set_env (SET_ERROR SG_ERROR_INVALID_ARGUMENT
                   (Some (''sg_get_cpu_percents_of(cps = '' @ int_string i @ '')'')) (wenv w)) w))"

definition sg_get_cpu_percents_of ::
  "bool \<Rightarrow> cpu_platform \<Rightarrow> time_t \<Rightarrow> sg_cpu_percent_source \<Rightarrow> glob option \<Rightarrow> cpu_world
     \<Rightarrow> ((addr \<times> size_t option) \<times> glob option \<times> cpu_world) outcome" where
  "sg_get_cpu_percents_of vm p now cps gl w =
     (case gl of
        None \<Rightarrow> Done ((0, None), None, w)
      | Some g \<Rightarrow>
          andthen (ensure_one sg_cpu_percents_vector_init_info SG_CPU_PERCENT_IDX g (cw_percents (to_percents w))) (\<lambda>(g, pw).
            let w = to_stats (w\<lparr>cw_percents := pw\<rparr>) in
            if g SG_CPU_PERCENT_IDX = 0 then
              Done ((0, None), Some g,
                w\<lparr>cw_stats := set_env (snd (sg_set_error_fmt SG_ERROR_MALLOC (Some ''sg_get_cpu_percents_of'') (wenv (cw_stats w))))
                     (cw_stats w)\<rparr>)
            else
              andthen (cpu_source vm p now cps g (cw_stats w)) (\<lambda>(v, cs, g, sw).
                let w = to_percents (w\<lparr>cw_stats := sw\<rparr>) in
                if v = 0 \<and> cs = 0 then Done ((0, Some 0), Some g, w)
                else
                  andthen (read_item (if v \<noteq> 0 \<and> cs = 0 then v else cs) 0 sw) (\<lambda>c.
                  andthen (call_int (\<lambda>d e. Done (SG_ERROR_NONE, sg_get_cpu_percents_int c d, e))
                             (g SG_CPU_PERCENT_IDX) (cw_percents w)) (\<lambda>(_, pw).
                  andthen (VECTOR_ITEM_COUNT v sw) (\<lambda>n.
                    Done ((g SG_CPU_PERCENT_IDX, Some n), Some g, w\<lparr>cw_percents := pw\<rparr>)))))))"

definition sg_get_cpu_percents_r ::
  "sg_cpu_stats option \<Rightarrow> sg_cpu_percents world \<Rightarrow> ((addr \<times> size_t) \<times> sg_cpu_percents world) outcome" where
  "sg_get_cpu_percents_r whereof w =
     (case whereof of
        None \<Rightarrow>
          Done ((0, 0), set_env (SET_ERROR SG_ERROR_INVALID_ARGUMENT
                   (Some ''sg_get_cpu_percents_r(whereof = (nil))'') (wenv w)) w)
      | Some c \<Rightarrow>
          andthen (sg_vector_create 1 1 1 sg_cpu_percents_vector_init_info w) (\<lambda>(v, w).
            if v = 0 then Done ((0, 0), w)
            else
              andthen (call_int (\<lambda>d e. Done (SG_ERROR_NONE, sg_get_cpu_percents_int c d, e)) v w) (\<lambda>(_, w).
              andthen (VECTOR_ITEM_COUNT v w) (\<lambda>n. Done ((v, n), w)))))"

end
