(* ===== verification/Cpu_Props.thy ===== *)
theory Cpu_Props
  imports Cpu Snapshots
begin

text \<open>
  The CPU component meets the contract of components with one item, so that its public functions never
  fault; the readings add up on every platform, differences keep that, and the percentages of a reading
  that adds up lie between 0 and 100 and sum to 100.
\<close>

section \<open>The component meets the interface\<close>

interpretation cpu: easy_diff sg_cpu_stats_vector_init_info any_item "sg_get_cpu_stats_int p now" "sg_get_cpu_stats_diff_int vm"
  for p now vm
proof unfold_locales
  show "room sg_cpu_stats_vector_init_info 1"
    by (simp add: room_def sg_cpu_stats_vector_init_info_def VECTOR_INIT_INFO_EMPTY_INIT_def)
  show "\<exists>rc y e'. sg_get_cpu_stats_int p now x e = Done (rc, y, e') \<and> any_item y \<and>
      (rc \<noteq> SG_ERROR_NONE \<longrightarrow> error (err e') = rc)" for x e
    by (auto simp: sg_get_cpu_stats_int_def finish_reading_def split: prod.splits option.splits errno_from.splits)
qed (auto simp: sg_cpu_stats_vector_init_info_def VECTOR_INIT_INFO_EMPTY_INIT_def sg_get_cpu_stats_diff_int_def)

section \<open>Readings add up\<close>

text \<open>The parts a platform counts into the total.\<close>

definition adds_up :: "cpu_platform \<Rightarrow> sg_cpu_stats \<Rightarrow> bool" where
  "adds_up p c =
     (case p of
        CpuAix _ \<Rightarrow> cpu_total c = cpu_user c + cpu_iowait c + cpu_kernel c + cpu_idle c
      | CpuSolaris _ \<Rightarrow> cpu_total c = cpu_user c + cpu_iowait c + cpu_kernel c + cpu_idle c + cpu_swap c
      | CpuLinux _ \<Rightarrow> cpu_total c = cpu_user c + cpu_nice c + cpu_kernel c + cpu_idle c
      | CpuBsd (CpTime _ _ _) _ \<Rightarrow> True
      | CpuBsd _ _ \<Rightarrow> cpu_total c = cpu_user c + cpu_nice c + cpu_kernel c + cpu_idle c
      | _ \<Rightarrow> True)"

lemma cpu_reading_adds_up: "cpu_reading p = (c, None) \<Longrightarrow> adds_up p c"
  by (cases p) (auto simp: cpu_reading_def adds_up_def cpu_aix_def cpu_solaris_def cpu_linux_def cpu_bsd_def
      cpu_bsd_times_def cpu_bsd_switches_def Let_def split: option.splits prod.splits sum.splits if_splits
      bsd_times.splits bsd_switches.splits)

lemma diff_adds_up:
  assumes "adds_up p n" "adds_up p l" "sg_get_cpu_stats_diff_int vm x (Some n) (Some l) e = Done (rc, d, e')"
  shows "adds_up p d"
  using assms by (cases p) (auto simp: adds_up_def sg_get_cpu_stats_diff_int_def split: bsd_times.splits)

section \<open>Properties\<close>

text \<open>C17: \<^verbatim>\<open>sg_get_cpu_stats_diff\<close> after a first reading, when the platform can be read: unless the allocator refuses
  the vector for the difference, the thread's reading becomes the new one and the result is the new reading
  minus the old one modulo 2^64 for each of the times, the total and the time of the reading. The counts of
  context switches, system calls and interrupts are subtracted likewise, except in builds that read
  \<^verbatim>\<open>struct vmmeter\<close> (\<open>vm\<close>), where a count that went down gets 2^31 added.\<close>

theorem sg_get_cpu_stats_diff_correct:
  assumes "heap_ok w" "holds sg_cpu_stats_vector_init_info any_item (g SG_CPU_NOW_IDX) lst w"
    and "holder sg_cpu_stats_vector_init_info any_item (g SG_CPU_DIFF_IDX) w" "g SG_CPU_DIFF_IDX \<noteq> g SG_CPU_NOW_IDX"
    and "cpu_reading p = (c, None)"
  shows "\<exists>v n g' w'. sg_get_cpu_stats_diff vm p now (Some g) w = Done ((v, n), Some g', w') \<and> heap_ok w' \<and>
     (if v = 0 then n = 0 \<and> error (err (wenv w')) \<noteq> SG_ERROR_NONE \<and> sched (wenv w) \<noteq> []
      else n = 1 \<and> v = g' SG_CPU_DIFF_IDX \<and> v \<noteq> g' SG_CPU_NOW_IDX \<and> error (err (wenv w')) = SG_ERROR_NONE \<and>
        holds sg_cpu_stats_vector_init_info any_item (g' SG_CPU_NOW_IDX) (c\<lparr>cpu_systime := now\<rparr>) w' \<and>
        (\<exists>d. holds sg_cpu_stats_vector_init_info any_item v d w' \<and>
           cpu_user d = cpu_user c - cpu_user lst \<and> cpu_kernel d = cpu_kernel c - cpu_kernel lst \<and>
           cpu_idle d = cpu_idle c - cpu_idle lst \<and> cpu_iowait d = cpu_iowait c - cpu_iowait lst \<and>
           cpu_swap d = cpu_swap c - cpu_swap lst \<and> cpu_nice d = cpu_nice c - cpu_nice lst \<and>
           cpu_total d = cpu_total c - cpu_total lst \<and> cpu_systime d = now - cpu_systime lst \<and>
           (let df = (\<lambda>new old :: ull. if vm \<and> new < old then 2147483648 + new - old else new - old) in
              context_switches d = df (context_switches c) (context_switches lst) \<and>
              voluntary_context_switches d = df (voluntary_context_switches c) (voluntary_context_switches lst) \<and>
              involuntary_context_switches d = df (involuntary_context_switches c) (involuntary_context_switches lst) \<and>
              syscalls d = df (syscalls c) (syscalls lst) \<and> interrupts d = df (interrupts c) (interrupts lst) \<and>
              soft_interrupts d = df (soft_interrupts c) (soft_interrupts lst))))"
proof -
  let ?ty = sg_cpu_stats_vector_init_info and ?c = "c\<lparr>cpu_systime := now\<rparr>"
  have fn: "sg_get_cpu_stats_int p now x e = Done (rc, y, e') \<longleftrightarrow> rc = SG_ERROR_NONE \<and> y = ?c \<and> e' = e" for x e rc y e'
    using assms(5) by (auto simp: sg_get_cpu_stats_int_def finish_reading_def)
  have nof: "\<not> (\<exists>x e rc y e'. sg_get_cpu_stats_int p now x e = Done (rc, y, e') \<and> rc \<noteq> SG_ERROR_NONE)"
    "\<not> (\<exists>x now lst e rc y e'. sg_get_cpu_stats_diff_int vm x now lst e = Done (rc, y, e') \<and> rc \<noteq> SG_ERROR_NONE)"
    using fn by (auto simp: sg_get_cpu_stats_diff_int_def)
  have ix: "SG_CPU_NOW_IDX \<noteq> SG_CPU_DIFF_IDX" by (simp add: SG_CPU_NOW_IDX_def SG_CPU_DIFF_IDX_def)
  obtain v n g' w' cur where r: "sg_get_cpu_stats_diff vm p now (Some g) w = Done ((v, n), Some g', w')" "heap_ok w'"
      "g' SG_CPU_NOW_IDX = g SG_CPU_NOW_IDX" "holds ?ty any_item (g SG_CPU_NOW_IDX) cur w'"
      "if v = 0 then n = 0 \<and> error (err (wenv w')) \<noteq> SG_ERROR_NONE \<and>
          (sched (wenv w) \<noteq> [] \<or> (\<exists>x e rc y e'. sg_get_cpu_stats_int p now x e = Done (rc, y, e') \<and> rc \<noteq> SG_ERROR_NONE) \<or>
           (\<exists>x now lst e rc y e'. sg_get_cpu_stats_diff_int vm x now lst e = Done (rc, y, e') \<and> rc \<noteq> SG_ERROR_NONE))
        else v = g' SG_CPU_DIFF_IDX \<and> v \<noteq> g SG_CPU_NOW_IDX \<and> n = 1 \<and> error (err (wenv w')) = SG_ERROR_NONE \<and>
          (\<exists>x e e'. sg_get_cpu_stats_int p now x e = Done (SG_ERROR_NONE, cur, e')) \<and>
          (\<exists>x e y e'. sg_get_cpu_stats_diff_int vm x (Some cur) (Some lst) e = Done (SG_ERROR_NONE, y, e') \<and>
             holds ?ty any_item v y w')"
    using cpu.diff_ok [of w g SG_CPU_NOW_IDX lst SG_CPU_DIFF_IDX vm p now, OF assms(1-3) ix assms(4)]
    unfolding sg_get_cpu_stats_diff_def sg_get_cpu_stats_def by (elim exE conjE)
  show ?thesis
  proof (cases "v = 0")
    case True
    from r(5) [unfolded if_P [OF True]] nof have "n = 0 \<and> error (err (wenv w')) \<noteq> SG_ERROR_NONE \<and> sched (wenv w) \<noteq> []"
      by (simp only: simp_thms)
    with True r(1,2) show ?thesis by simp
  next
    case False
    with r(5) fn obtain x e y e' where y: "sg_get_cpu_stats_diff_int vm x (Some ?c) (Some lst) e = Done (SG_ERROR_NONE, y, e')"
      "holds ?ty any_item v y w'" "cur = ?c" by auto
    have f: "cpu_user y = cpu_user c - cpu_user lst \<and> cpu_kernel y = cpu_kernel c - cpu_kernel lst \<and>
       cpu_idle y = cpu_idle c - cpu_idle lst \<and> cpu_iowait y = cpu_iowait c - cpu_iowait lst \<and>
       cpu_swap y = cpu_swap c - cpu_swap lst \<and> cpu_nice y = cpu_nice c - cpu_nice lst \<and>
       cpu_total y = cpu_total c - cpu_total lst \<and> cpu_systime y = now - cpu_systime lst"
      using y(1) by (auto simp: sg_get_cpu_stats_diff_int_def)
    have k: "context_switches y = counter_diff vm (context_switches c) (context_switches lst) \<and>
       voluntary_context_switches y = counter_diff vm (voluntary_context_switches c) (voluntary_context_switches lst) \<and>
       involuntary_context_switches y = counter_diff vm (involuntary_context_switches c) (involuntary_context_switches lst) \<and>
       syscalls y = counter_diff vm (syscalls c) (syscalls lst) \<and> interrupts y = counter_diff vm (interrupts c) (interrupts lst) \<and>
       soft_interrupts y = counter_diff vm (soft_interrupts c) (soft_interrupts lst)"
      using y(1) by (auto simp: sg_get_cpu_stats_diff_int_def)
    have df: "counter_diff vm = (\<lambda>new old. if vm \<and> new < old then 2147483648 + new - old else new - old)"
      by (intro ext) (simp add: counter_diff_def)
    have v: "v = g' SG_CPU_DIFF_IDX" "v \<noteq> g SG_CPU_NOW_IDX" "n = 1" "error (err (wenv w')) = SG_ERROR_NONE"
      using r(5) [unfolded if_not_P [OF False]] by blast+
    have h: "holds ?ty any_item (g SG_CPU_NOW_IDX) ?c w'" using r(4) y(3) by simp
    show ?thesis
      unfolding Let_def
      by (rule exI [of _ v], rule exI [of _ n], rule exI [of _ g'], rule exI [of _ w'])
        (simp only: if_not_P [OF False] r(1-3) v(3,4) h v(1) [symmetric] v(2) simp_thms, rule exI [of _ y], simp only: y(2) f k [unfolded df] simp_thms)
  qed
qed

lemma sg_get_cpu_stats_diff_correct_witness:
  "\<exists>v n g' w' d. sg_get_cpu_stats_diff False (CpuAix (Some \<lparr>ps_user = 7, ps_wait = 1, ps_sys = 5, ps_idle = 90,
        ps_pswitch = 0, ps_syscall = 0, ps_devintrs = 0, ps_softintrs = 0\<rparr>)) 60 (Some (\<lambda>i. if i = 0 then 1 else 0))
       (world_of [block_of sg_cpu_stats_vector_init_info [cpu_zero\<lparr>cpu_user := 4\<rparr>]] cpu_zero) = Done ((v, n), Some g', w') \<and>
     holds sg_cpu_stats_vector_init_info any_item v d w' \<and> cpu_user d = 3 \<and> cpu_total d = 103"
proof -
  let ?ty = sg_cpu_stats_vector_init_info and ?g = "\<lambda>i. if i = 0 then 1 else 0 :: nat" and ?l = "cpu_zero\<lparr>cpu_user := 4\<rparr>"
  let ?a = "\<lparr>ps_user = 7, ps_wait = 1, ps_sys = 5, ps_idle = 90, ps_pswitch = 0, ps_syscall = 0, ps_devintrs = 0, ps_softintrs = 0\<rparr>"
  let ?b = "block_of ?ty [?l]" and ?p = "CpuAix (Some ?a)"
  let ?w = "world_of [?b] cpu_zero"
  have g: "?g SG_CPU_NOW_IDX = 1" "?g SG_CPU_DIFF_IDX = 0" by (simp_all add: SG_CPU_NOW_IDX_def SG_CPU_DIFF_IDX_def)
  have isz: "item_size ?ty = 112" by (simp add: sg_cpu_stats_vector_init_info_def VECTOR_INIT_INFO_EMPTY_INIT_def)
  have b: "vec_ok ?ty any_item ?b" "contents ?b = [?l]" by (intro block_of_ok; simp add: isz room_def)+
  have h: "holds ?ty any_item (?g SG_CPU_NOW_IDX) ?l ?w"
    unfolding g holds_def using b by (intro exI [of _ ?b]) (simp add: vload_world_of)
  have d: "holder ?ty any_item (?g SG_CPU_DIFF_IDX) ?w" "?g SG_CPU_DIFF_IDX \<noteq> ?g SG_CPU_NOW_IDX"
    unfolding g by (simp_all add: holder_def)
  have sc: "sched (wenv ?w) = []" by (simp add: world_of_def fresh_env_def)
  obtain c where c: "cpu_reading ?p = (c, None)" "cpu_user c = 7" "cpu_total c = 103"
    by (simp add: cpu_reading_def cpu_aix_def cpu_zero_def)
  from sg_get_cpu_stats_diff_correct [OF world_of_ok h d c(1), of False 60] sc c(2,3) show ?thesis
    by (auto simp: cpu_zero_def split: if_splits)
qed

lemma parts_of_hundred:
  fixes t a b c d :: nat
  assumes "0 < t" "t = a + b + c + d"
  shows "real a / real t * 100 + real b / real t * 100 + real c / real t * 100 + real d / real t * 100 = 100 \<and>
     0 \<le> real a / real t * 100 \<and> 0 \<le> real b / real t * 100 \<and> 0 \<le> real c / real t * 100 \<and> 0 \<le> real d / real t * 100 \<and>
     real a / real t * 100 \<le> 100 \<and> real b / real t * 100 \<le> 100 \<and> real c / real t * 100 \<le> 100 \<and> real d / real t * 100 \<le> 100"
proof -
  have t: "0 < real t" using assms(1) by (simp only: of_nat_0_less_iff)
  have sm: "real t = real a + real b + real c + real d" unfolding assms(2) by simp
  have le: "real x / real t * 100 \<le> 100" if "real x \<le> real t" for x using that t by (simp add: field_simps)
  have "real a / real t * 100 + real b / real t * 100 + real c / real t * 100 + real d / real t * 100 =
      (real a + real b + real c + real d) / real t * 100" by (simp add: add_divide_distrib algebra_simps)
  also have "\<dots> = 100" using t by (simp flip: sm)
  finally show ?thesis using t le sm by simp
qed

text \<open>For a reading whose counters add up (without wrapping), the exact quotients that the doubles approximate exist
  as soon as time has passed, lie between 0 and 100 and sum to 100; the rounding of the doubles is not modelled; on Linux the waits for I/O, which the total leaves out, come on top.\<close>

theorem sg_get_cpu_percents_sum:
  assumes "cpu_total c \<noteq> 0" "unat (cpu_total c) = unat (cpu_user c) + unat (cpu_nice c) + unat (cpu_kernel c) + unat (cpu_idle c)"
  shows "\<exists>u n k i. pc_user (sg_get_cpu_percents_int c d) = Some u \<and> pc_nice (sg_get_cpu_percents_int c d) = Some n \<and>
     pc_kernel (sg_get_cpu_percents_int c d) = Some k \<and> pc_idle (sg_get_cpu_percents_int c d) = Some i \<and>
     u + n + k + i = 100 \<and> 0 \<le> u \<and> 0 \<le> n \<and> 0 \<le> k \<and> 0 \<le> i \<and> u \<le> 100 \<and> n \<le> 100 \<and> k \<le> 100 \<and> i \<le> 100"
proof -
  let ?f = "\<lambda>x. real (unat x) / real (unat (cpu_total c)) * 100"
  have "0 < unat (cpu_total c)" using assms(1) by (simp only: unat_gt_0 not_False_eq_True)
  note parts_of_hundred [OF this assms(2)]
  moreover have "pc_user (sg_get_cpu_percents_int c d) = Some (?f (cpu_user c))" "pc_nice (sg_get_cpu_percents_int c d) = Some (?f (cpu_nice c))"
    "pc_kernel (sg_get_cpu_percents_int c d) = Some (?f (cpu_kernel c))" "pc_idle (sg_get_cpu_percents_int c d) = Some (?f (cpu_idle c))"
    using assms(1) by (simp_all add: sg_get_cpu_percents_int_def percent_def)
  ultimately show ?thesis by blast
qed

lemma sg_get_cpu_percents_sum_witness:
  "\<exists>u n k i. pc_user (sg_get_cpu_percents_int (cpu_zero\<lparr>cpu_user := 1, cpu_idle := 3, cpu_total := 4\<rparr>)
       \<lparr>pc_user = None, pc_kernel = None, pc_idle = None, pc_iowait = None, pc_swap = None, pc_nice = None, time_taken = 0\<rparr>) = Some u \<and>
     u + n + k + i = (100 :: real) \<and> u \<le> 100"
  using sg_get_cpu_percents_sum [of "cpu_zero\<lparr>cpu_user := 1, cpu_idle := 3, cpu_total := 4\<rparr>"
      "\<lparr>pc_user = None, pc_kernel = None, pc_idle = None, pc_iowait = None, pc_swap = None, pc_nice = None, time_taken = 0\<rparr>"]
  by (simp add: cpu_zero_def) blast

section \<open>Reading /proc/stat\<close>

definition keyword_line :: "string \<Rightarrow> bool" where
  "keyword_line l \<longleftrightarrow> starts_with ''cpu'' l \<or> starts_with ''intr'' l \<or> starts_with ''ctxt'' l \<or> starts_with ''softirq'' l"

lemma cpu_linux_loop_skip:
  "list_all (\<lambda>l. \<not> keyword_line l) pre \<Longrightarrow> m < 4 \<Longrightarrow> cpu_linux_loop (pre @ ls) m c = cpu_linux_loop ls m c"
  by (induction pre) (auto simp: keyword_line_def)

text \<open>The four lines of \<^verbatim>\<open>/proc/stat\<close> that matter, as the kernel prints them and with any other lines between
  them, are read back into the counters; what follows the numbers on those lines and what comes after the
  fourth of them is ignored.\<close>

theorem cpu_linux_reads:
  assumes "list_all (\<lambda>n. n < 2 ^ 64) [u, n, s, i, io, intr, ctxt, soft]"
    and "list_all (\<lambda>l. \<not> keyword_line l) (l1 @ l2 @ l3 @ l4)"
    and "list_all (\<lambda>r. r = [] \<or> \<not> is_digit (hd r)) [r1, r2, r3, r4]"
  shows "cpu_linux_loop
       (l1 @ (''cpu'' @ print_nums [u, n, s, i, io] @ r1) # l2 @ (''intr'' @ print_nums [intr] @ r2) #
        l3 @ (''ctxt'' @ print_nums [ctxt] @ r3) # l4 @ (''softirq'' @ print_nums [soft] @ r4) # rest) 0 c =
     (Inr 4, c\<lparr>cpu_user := word_of_nat u, cpu_nice := word_of_nat n, cpu_kernel := word_of_nat s,
        cpu_idle := word_of_nat i, cpu_iowait := word_of_nat io, interrupts := word_of_nat intr,
        context_switches := word_of_nat ctxt, soft_interrupts := word_of_nat soft\<rparr>)"
proof -
  have sk: "list_all (\<lambda>l. \<not> keyword_line l) l1" "list_all (\<lambda>l. \<not> keyword_line l) l2"
    "list_all (\<lambda>l. \<not> keyword_line l) l3" "list_all (\<lambda>l. \<not> keyword_line l) l4" using assms(2) by simp_all
  have key: "starts_with k (k @ print_nums (x # xs) @ r)" for k x xs r by (simp add: starts_with_key)
  have n1: "scan_nums ''cpu'' 5 (''cpu'' @ print_nums [u, n, s, i, io] @ r1) = map word_of_nat [u, n, s, i, io]"
    using assms(1,3) by (intro scan_nums_print) simp_all
  have n2: "scan_nums ''intr'' 1 (''intr'' @ print_nums [intr] @ r2) = [word_of_nat intr]"
    "scan_nums ''ctxt'' 1 (''ctxt'' @ print_nums [ctxt] @ r3) = [word_of_nat ctxt]"
    "scan_nums ''softirq'' 1 (''softirq'' @ print_nums [soft] @ r4) = [word_of_nat soft]"
    using assms(1,3) scan_nums_print [of "[intr]" r2 1 "''intr''"] scan_nums_print [of "[ctxt]" r3 1 "''ctxt''"]
      scan_nums_print [of "[soft]" r4 1 "''softirq''"] by simp_all
  have no: "\<not> starts_with ''cpu'' (''intr'' @ x)" "\<not> starts_with ''cpu'' (''ctxt'' @ x)" "\<not> starts_with ''cpu'' (''softirq'' @ x)"
    "\<not> starts_with ''intr'' (''ctxt'' @ x)" "\<not> starts_with ''intr'' (''softirq'' @ x)" "\<not> starts_with ''ctxt'' (''softirq'' @ x)" for x
    by (simp_all add: starts_with_def)
  have e: "cpu_linux_loop rest (Suc (Suc (Suc (Suc 0)))) c = (Inr 4, c)" for c by (cases rest) simp_all
  have f1: "cpu_linux_loop ((''cpu'' @ print_nums [u, n, s, i, io] @ r1) # ls) m c = cpu_linux_loop ls (Suc m)
      (c\<lparr>cpu_user := word_of_nat u, cpu_nice := word_of_nat n, cpu_kernel := word_of_nat s, cpu_idle := word_of_nat i,
         cpu_iowait := word_of_nat io\<rparr>)" if "m < 4" for ls m c
    unfolding cpu_linux_loop.simps n1 Let_def using that key by (simp add: assign_def del: append.simps print_nums.simps)
  have f2: "cpu_linux_loop ((''intr'' @ print_nums [intr] @ r2) # ls) m c =
      cpu_linux_loop ls (Suc m) (c\<lparr>interrupts := word_of_nat intr\<rparr>)"
    "cpu_linux_loop ((''ctxt'' @ print_nums [ctxt] @ r3) # ls) m c =
      cpu_linux_loop ls (Suc m) (c\<lparr>context_switches := word_of_nat ctxt\<rparr>)"
    "cpu_linux_loop ((''softirq'' @ print_nums [soft] @ r4) # ls) m c =
      cpu_linux_loop ls (Suc m) (c\<lparr>soft_interrupts := word_of_nat soft\<rparr>)" if "m < 4" for ls m c
    unfolding cpu_linux_loop.simps n2 Let_def using that key no by (simp_all add: assign_def del: append.simps print_nums.simps)
  show ?thesis
    by (simp add: cpu_linux_loop_skip [OF sk(1)] cpu_linux_loop_skip [OF sk(2)] cpu_linux_loop_skip [OF sk(3)]
        cpu_linux_loop_skip [OF sk(4)] f1 f2 e del: append.simps append_assoc print_nums.simps cpu_linux_loop.simps)
qed

lemma cpu_linux_reads_witness:
  "cpu_linux_loop ([''btime 9''] @ (''cpu'' @ print_nums [1, 2, 3, 4, 5] @ '' 6'') # [] @ (''intr'' @ print_nums [6] @ []) #
     [''x''] @ (''ctxt'' @ print_nums [7] @ []) # [] @ (''softirq'' @ print_nums [8] @ []) # []) 0 cpu_zero =
   (Inr 4, cpu_zero\<lparr>cpu_user := word_of_nat 1, cpu_nice := word_of_nat 2, cpu_kernel := word_of_nat 3,
      cpu_idle := word_of_nat 4, cpu_iowait := word_of_nat 5, interrupts := word_of_nat 6,
      context_switches := word_of_nat 7, soft_interrupts := word_of_nat 8\<rparr>)"
  by (rule cpu_linux_reads) (simp_all add: keyword_line_def starts_with_def is_digit_def)

section \<open>Percentages of a reading the thread holds\<close>

interpretation pct: easy_source sg_cpu_percents_vector_init_info any_item
  "\<lambda>d e. Done (SG_ERROR_NONE, sg_get_cpu_percents_int c d, e)" for c
  by unfold_locales (auto simp: sg_cpu_percents_vector_init_info_def VECTOR_INIT_INFO_EMPTY_INIT_def room_def)

lemma percents_run:
  assumes p: "heap_ok (cw_percents w)" "holds sg_cpu_percents_vector_init_info any_item (g SG_CPU_PERCENT_IDX) old (cw_percents w)"
    and s: "cpu_source vm p now cps g (cw_stats w) = Done (v, cs, g', sw)" "g' SG_CPU_PERCENT_IDX = g SG_CPU_PERCENT_IDX"
    and r: "v \<noteq> 0 \<or> cs \<noteq> 0" "read_item (if v \<noteq> 0 \<and> cs = 0 then v else cs) 0 sw = Done c" "VECTOR_ITEM_COUNT v sw = Done n"
  shows "\<exists>w'. sg_get_cpu_percents_of vm p now cps (Some g) w = Done ((g SG_CPU_PERCENT_IDX, Some n), Some g', w') \<and>
     cw_stats w' = sw \<and> heap_ok (cw_percents w') \<and>
     holds sg_cpu_percents_vector_init_info any_item (g SG_CPU_PERCENT_IDX) (sg_get_cpu_percents_int c old) (cw_percents w')"
proof -
  let ?ty = sg_cpu_percents_vector_init_info and ?i = "g SG_CPU_PERCENT_IDX"
  let ?pw = "set_env (wenv sw) (set_env (wenv (cw_stats w)) (cw_percents w))"
  have p': "heap_ok ?pw" "holds ?ty any_item ?i old ?pw"
    using p by (simp_all add: holds_def vload_set_env frame_simps)
  obtain pw' where c: "call_int (\<lambda>d e. Done (SG_ERROR_NONE, sg_get_cpu_percents_int c d, e)) ?i ?pw = Done (SG_ERROR_NONE, pw')"
      "heap_ok pw'" "holds ?ty any_item ?i (sg_get_cpu_percents_int c old) pw'"
    using pct.call_ok [of ?pw ?i old "\<lambda>d e. Done (SG_ERROR_NONE, sg_get_cpu_percents_int c d, e)" SG_ERROR_NONE _ "wenv ?pw", OF p'] by auto
  have st: "set_env (wenv (cw_stats w)) (cw_stats w) = cw_stats w" by (simp add: set_env_def)
  show ?thesis
    using holds_nonnull [OF p(2)] s r c
    by (simp add: sg_get_cpu_percents_of_def ensure_one_def to_percents_def to_stats_def Let_def st)
qed

lemma vload_env_simps [simp]: "VECTOR_ITEM_COUNT 0 w = Done 0"
  by (simp add: VECTOR_ITEM_COUNT_def)

text \<open>C18: \<^verbatim>\<open>sg_get_cpu_percents_of\<close> on a new difference: when the difference succeeds, the thread's vector of
  percentages holds those of the difference and is returned; but the number of entries reported is 0, not
  1, because it is taken of a vector that this branch never sets.\<close>

theorem sg_get_cpu_percents_of_new_diff:
  assumes "heap_ok (cw_percents w)" "holds sg_cpu_percents_vector_init_info any_item (g SG_CPU_PERCENT_IDX) old (cw_percents w)"
    and "sg_get_cpu_stats_diff vm p now (Some g) (cw_stats w) = Done ((d, n), Some g', sw)" "g' SG_CPU_PERCENT_IDX = g SG_CPU_PERCENT_IDX"
    and "holds sg_cpu_stats_vector_init_info any_item d c sw"
  shows "\<exists>w'. sg_get_cpu_percents_of vm p now sg_new_diff_cpu_percent (Some g) w =
       Done ((g SG_CPU_PERCENT_IDX, Some 0), Some g', w') \<and>
     cw_stats w' = sw \<and> heap_ok (cw_percents w') \<and>
     holds sg_cpu_percents_vector_init_info any_item (g SG_CPU_PERCENT_IDX) (sg_get_cpu_percents_int c old) (cw_percents w')"
  using assms holds_nonnull [OF assms(5)] holds_read [OF assms(5)]
  by (intro percents_run [where v = 0 and cs = d]) (simp_all add: cpu_source_def)

lemma sg_get_cpu_percents_of_new_diff_witness:
  "\<exists>w' g' x. sg_get_cpu_percents_of False (CpuAix (Some \<lparr>ps_user = 7, ps_wait = 0, ps_sys = 5, ps_idle = 90,
        ps_pswitch = 0, ps_syscall = 0, ps_devintrs = 0, ps_softintrs = 0\<rparr>)) 60 sg_new_diff_cpu_percent
       (Some (\<lambda>i. if i = 1 then 2 else 1))
       \<lparr>cw_stats = world_of [block_of sg_cpu_stats_vector_init_info [cpu_zero], block_of sg_cpu_stats_vector_init_info [cpu_zero]] cpu_zero,
        cw_percents = world_of [block_of sg_cpu_percents_vector_init_info
          [\<lparr>pc_user = None, pc_kernel = None, pc_idle = None, pc_iowait = None, pc_swap = None, pc_nice = None, time_taken = 0\<rparr>]]
          \<lparr>pc_user = None, pc_kernel = None, pc_idle = None, pc_iowait = None, pc_swap = None, pc_nice = None, time_taken = 0\<rparr>\<rparr> =
     Done ((1, Some 0), g', w') \<and> holds sg_cpu_percents_vector_init_info any_item 1 x (cw_percents w')"
proof -
  let ?ty = sg_cpu_stats_vector_init_info and ?pt = sg_cpu_percents_vector_init_info
  let ?g = "\<lambda>i. if i = 1 then 2 else 1 :: nat"
  let ?a = "\<lparr>ps_user = 7, ps_wait = 0, ps_sys = 5, ps_idle = 90, ps_pswitch = 0, ps_syscall = 0, ps_devintrs = 0, ps_softintrs = 0\<rparr>"
  let ?o = "\<lparr>pc_user = None, pc_kernel = None, pc_idle = None, pc_iowait = None, pc_swap = None, pc_nice = None, time_taken = 0\<rparr>"
  let ?w = "world_of [block_of ?ty [cpu_zero], block_of ?ty [cpu_zero]] cpu_zero" and ?pw = "world_of [block_of ?pt [?o]] ?o"
  let ?cw = "\<lparr>cw_stats = ?w, cw_percents = ?pw\<rparr>"
  have g: "?g SG_CPU_NOW_IDX = 1" "?g SG_CPU_DIFF_IDX = 2" "?g SG_CPU_PERCENT_IDX = 1"
    by (simp_all add: SG_CPU_NOW_IDX_def SG_CPU_DIFF_IDX_def SG_CPU_PERCENT_IDX_def)
  have isz: "item_size ?ty = 112" "item_size ?pt = 56"
    by (simp_all add: sg_cpu_stats_vector_init_info_def sg_cpu_percents_vector_init_info_def VECTOR_INIT_INFO_EMPTY_INIT_def)
  have b: "vec_ok ?ty any_item (block_of ?ty [x])" "contents (block_of ?ty [x]) = [x]" for x by (intro block_of_ok; simp add: isz room_def)+
  have pb: "vec_ok ?pt any_item (block_of ?pt [?o])" "contents (block_of ?pt [?o]) = [?o]" by (intro block_of_ok; simp add: isz room_def)+
  have ph: "holds ?pt any_item (?g SG_CPU_PERCENT_IDX) ?o ?pw"
    unfolding g holds_def using pb by (intro exI [of _ "block_of ?pt [?o]"]) (simp add: vload_world_of)
  obtain c sw where d: "sg_get_cpu_stats_diff False (CpuAix (Some ?a)) 60 (Some ?g) ?w = Done ((2, 1), Some ?g, sw)"
      "vload 2 sw = Done (block_of ?ty [c])"
    by (simp add: sg_get_cpu_stats_diff_def EASY_COMP_DIFF_def ensure_one_def SG_CPU_NOW_IDX_def SG_CPU_DIFF_IDX_def sg_get_cpu_stats_def EASY_COMP_ACCESS_def
        call_int_def read_item_def write_item_def vload_world_of VECTOR_ITEM_COUNT_def sg_get_cpu_stats_int_def cpu_reading_def
        cpu_aix_def finish_reading_def vload_set_env vload_vstore clear_error_def block_of_def sg_get_cpu_stats_diff_int_def)
  then have h: "holds ?ty any_item 2 c sw" using b [of c] by (auto simp: holds_def)
  have "\<exists>w'. sg_get_cpu_percents_of False (CpuAix (Some ?a)) 60 sg_new_diff_cpu_percent (Some ?g) ?cw =
       Done ((?g SG_CPU_PERCENT_IDX, Some 0), Some ?g, w') \<and>
     cw_stats w' = sw \<and> heap_ok (cw_percents w') \<and>
     holds ?pt any_item (?g SG_CPU_PERCENT_IDX) (sg_get_cpu_percents_int c ?o) (cw_percents w')"
    by (rule sg_get_cpu_percents_of_new_diff [where d = 2 and n = 1]) (use ph d(1) h world_of_ok in simp_all)
  then show ?thesis unfolding g by blast
qed

end
