(* ===== verification/Load_Page.thy ===== *)
theory Load_Page
  imports Cpu_Props
begin

text \<open>
  The load averages (\<^verbatim>\<open>load_stats.c\<close>) and the paging counters (\<^verbatim>\<open>page_stats.c\<close>): the readers of the
  platforms over what their system calls report, and the public functions.
\<close>

section \<open>Load averages\<close>

record sg_load_stats =
  min1 :: real
  min5 :: real
  min15 :: real
  load_systime :: time_t

definition sg_load_stats_vector_init_info :: "sg_load_stats sg_vector_init_info" where
  "sg_load_stats_vector_init_info = VECTOR_INIT_INFO_EMPTY_INIT 32"

text \<open>A named kstat: the steps that can fail on the way to its data, then the lookup of a value by name.\<close>

datatype 'a kstat_named = KstatOpenFails | KstatLookupFails | KstatReadFails | KstatNamed "string \<Rightarrow> 'a option"

datatype load_platform =
    LoadGetloadavg real real real          \<comment> \<open>the array after \<^verbatim>\<open>getloadavg\<close>, whose result is not looked at\<close>
  | LoadSolaris "u32 kstat_named"
  | LoadHpux "(real \<times> real \<times> real) option"
  | LoadAix nat "(ull \<times> ull \<times> ull) option"  \<comment> \<open>\<^verbatim>\<open>SBITS\<close> and \<^verbatim>\<open>perfstat_cpu_total\<close>\<close>
  | LoadOther string

definition load_solaris :: "u32 kstat_named \<Rightarrow> sg_load_stats \<Rightarrow> sg_load_stats reading" where
  "load_solaris k c =
     (case k of
        KstatOpenFails \<Rightarrow> (c, Some (SG_ERROR_KSTAT_OPEN, None, NoErrno))
      | KstatLookupFails \<Rightarrow> (c, Some (SG_ERROR_KSTAT_LOOKUP, Some ''unix,0,system_misc'', NoErrno))
      | KstatReadFails \<Rightarrow> (c, Some (SG_ERROR_KSTAT_READ, None, NoErrno))
      | KstatNamed kn \<Rightarrow>
          (case kn ''avenrun_1min'' of
             None \<Rightarrow> (c, Some (SG_ERROR_KSTAT_DATA_LOOKUP, Some ''avenrun_1min'', NoErrno))
           | Some a \<Rightarrow>
               let c = c\<lparr>min1 := real (unat a) / 256\<rparr> in
               (case kn ''avenrun_5min'' of
                  None \<Rightarrow> (c, Some (SG_ERROR_KSTAT_DATA_LOOKUP, Some ''avenrun_5min'', NoErrno))
                | Some a \<Rightarrow>
                    let c = c\<lparr>min5 := real (unat a) / 256\<rparr> in
                    (case kn ''avenrun_15min'' of
                       None \<Rightarrow> (c, Some (SG_ERROR_KSTAT_DATA_LOOKUP, Some ''avenrun_15min'', NoErrno))
                     | Some a \<Rightarrow> (c\<lparr>min15 := real (unat a) / 256\<rparr>, None)))))"

definition load_reading :: "load_platform \<Rightarrow> time_t \<Rightarrow> sg_load_stats \<Rightarrow> sg_load_stats reading" where
  "load_reading p now x =
     (let c = x\<lparr>min1 := 0, min5 := 0, min15 := 0\<rparr>;
          (c, er) =
            (case p of
               LoadGetloadavg a b d \<Rightarrow> (c\<lparr>min1 := a, min5 := b, min15 := d\<rparr>, None)
             | LoadSolaris k \<Rightarrow> load_solaris k c
             | LoadHpux None \<Rightarrow> (c, Some (SG_ERROR_PSTAT, Some ''pstat_dynamic'', FromErrno))
             | LoadHpux (Some (a, b, d)) \<Rightarrow> (c\<lparr>min1 := a, min5 := b, min15 := d\<rparr>, None)
             | LoadAix sbits None \<Rightarrow> (c, Some (SG_ERROR_PSTAT, Some ''perfstat_cpu_total'', FromErrno))
             | LoadAix sbits (Some (a, b, d)) \<Rightarrow>
                 (c\<lparr>min1 := real (unat a) / 2 ^ sbits, min5 := real (unat b) / 2 ^ sbits, min15 := real (unat d) / 2 ^ sbits\<rparr>, None)
             | LoadOther os \<Rightarrow> (c, Some (SG_ERROR_UNSUPPORTED, Some os, NoErrno)))
      in case er of None \<Rightarrow> (c\<lparr>load_systime := now\<rparr>, None) | Some er \<Rightarrow> (c, Some er))"

definition sg_get_load_stats_int :: "load_platform \<Rightarrow> time_t \<Rightarrow> sg_load_stats easy_int" where
  "sg_get_load_stats_int p now = easy_reading (load_reading p now)"

definition SG_LOAD_CUR_IDX :: nat where "SG_LOAD_CUR_IDX = 0"

definition sg_get_load_stats :: "load_platform \<Rightarrow> time_t \<Rightarrow> sg_load_stats access" where
  "sg_get_load_stats p now = EASY_COMP_ACCESS sg_load_stats_vector_init_info (sg_get_load_stats_int p now) SG_LOAD_CUR_IDX"

section \<open>Paging\<close>

record sg_page_stats =
  pages_pagein :: ull
  pages_pageout :: ull
  page_systime :: time_t

definition sg_page_stats_vector_init_info :: "sg_page_stats sg_vector_init_info" where
  "sg_page_stats_vector_init_info = VECTOR_INIT_INFO_EMPTY_INIT 24"

text \<open>
  Linux reads \<^verbatim>\<open>/proc/vmstat\<close> and, without it, the line \<^verbatim>\<open>page\<close> of \<^verbatim>\<open>/proc/stat\<close>. The other platforms fill
  both counters from one structure, FreeBSD from two sysctls.
\<close>

datatype page_platform =
    PageSolaris "(string \<times> (ull \<times> ull) option) list option"  \<comment> \<open>module and data of each kstat\<close>
  | PageLinux "string option" "cfile option"
  | PageMach "int + ull \<times> ull"
  | PageUvm string "(ull \<times> ull) option"
  | PageFreebsd "ull option" "ull option"
  | PageAix "(ull \<times> ull) option"
  | PageHpux "(ull \<times> ull) option"
  | PageOther string

fun page_solaris_loop :: "(string \<times> (ull \<times> ull) option) list \<Rightarrow> sg_page_stats \<Rightarrow> sg_page_stats" where
  "page_solaris_loop [] c = c"
| "page_solaris_loop ((m, d) # ks) c =
     (case d of
        Some (i, out) \<Rightarrow>
          page_solaris_loop ks
            (if strcmp m ''cpu_stat'' = 0
             then c\<lparr>pages_pagein := pages_pagein c + i, pages_pageout := pages_pageout c + out\<rparr> else c)
      | None \<Rightarrow> page_solaris_loop ks c)"

definition scan_value :: "string \<Rightarrow> ull option" where
  "scan_value line = (case sscanf [FSkipStr, FSpace, FULL] line of VNum v # _ \<Rightarrow> Some v | _ \<Rightarrow> None)"

fun vmstat_loop :: "string list \<Rightarrow> nat \<Rightarrow> sg_page_stats \<Rightarrow> nat \<times> sg_page_stats" where
  "vmstat_loop [] matches c = (matches, c)"
| "vmstat_loop (l # ls) matches c =
     (if matches < 2 then
        (case scan_value l of
           None \<Rightarrow> vmstat_loop ls matches c
         | Some v \<Rightarrow>
             if has_prefix ''pgpgin '' l then vmstat_loop ls (Suc matches) (c\<lparr>pages_pagein := v\<rparr>)
             else if has_prefix ''pgpgout '' l then vmstat_loop ls (Suc matches) (c\<lparr>pages_pageout := v\<rparr>)
             else vmstat_loop ls matches c)
      else (matches, c))"

definition page_linux :: "string option \<Rightarrow> cfile option \<Rightarrow> sg_page_stats \<Rightarrow> env \<Rightarrow> (sg_error \<times> sg_page_stats \<times> env) outcome" where
  "page_linux vmstat stat c e =
     (case vmstat of
        Some body \<Rightarrow>
          (case vmstat_loop (map strval (file_lines 255 body)) 0 c of
             (matches, c) \<Rightarrow>
               if matches < 2 then finish_reading (c, Some (SG_ERROR_PARSE, Some ''/proc/vmstat'', NoErrno)) e
               else finish_reading (c, None) e)
      | None \<Rightarrow>
          (case stat of
             Some f \<Rightarrow>
               andthen (sg_f_read_line 256 (Some ''page'') f e) (\<lambda>(line, f, e).
                 case line of
                   None \<Rightarrow> Done (error (err e), c, e)
                 | Some l \<Rightarrow>
                     let vs = scan_nums ''page'' 2 (strval l);
                         c = assign [\<lambda>v. pages_pagein_update (\<lambda>_. v), \<lambda>v. pages_pageout_update (\<lambda>_. v)] vs c
                     in if length vs \<noteq> 2 then finish_reading (c, Some (SG_ERROR_PARSE, Some ''page'', NoErrno)) e
                        else finish_reading (c, None) e)
           | None \<Rightarrow> finish_reading (c, Some (SG_ERROR_OPEN, Some ''/proc/stat'', FromErrno)) e))"

definition page_pair :: "(ull \<times> ull) option \<Rightarrow> sg_error \<Rightarrow> string \<Rightarrow> sg_page_stats \<Rightarrow> sg_page_stats reading" where
  "page_pair r code arg c =
     (case r of
        None \<Rightarrow> (c, Some (code, Some arg, FromErrno))
      | Some (i, out) \<Rightarrow> (c\<lparr>pages_pagein := i, pages_pageout := out\<rparr>, None))"

definition page_freebsd :: "ull option \<Rightarrow> ull option \<Rightarrow> sg_page_stats \<Rightarrow> sg_page_stats reading" where
  "page_freebsd i out c =
     (case i of
        None \<Rightarrow> (c, Some (SG_ERROR_SYSCTLBYNAME, Some ''vm.stats.vm.v_swappgsin'', FromErrno))
      | Some v \<Rightarrow>
          let c = c\<lparr>pages_pagein := v\<rparr> in
          (case out of
             None \<Rightarrow> (c, Some (SG_ERROR_SYSCTLBYNAME, Some ''vm.stats.vm.v_swappgsout'', FromErrno))
           | Some v \<Rightarrow> (c\<lparr>pages_pageout := v\<rparr>, None)))"

definition sg_get_page_stats_int :: "page_platform \<Rightarrow> time_t \<Rightarrow> sg_page_stats easy_int" where
  "sg_get_page_stats_int p now x e =
     (let c = \<lparr>pages_pagein = 0, pages_pageout = 0, page_systime = now\<rparr> in
      case p of
        PageSolaris None \<Rightarrow> finish_reading (c, Some (SG_ERROR_KSTAT_OPEN, None, NoErrno)) e
      | PageSolaris (Some ks) \<Rightarrow> finish_reading (page_solaris_loop ks c, None) e
      | PageLinux vmstat stat \<Rightarrow> page_linux vmstat stat c e
      | PageMach (Inl rc) \<Rightarrow> finish_reading (c, Some (SG_ERROR_MACHCALL, Some ''host_statistics'', ErrnoCode rc)) e
      | PageMach (Inr (i, out)) \<Rightarrow> finish_reading (c\<lparr>pages_pagein := i, pages_pageout := out\<rparr>, None) e
      | PageUvm nm r \<Rightarrow> finish_reading (page_pair r SG_ERROR_SYSCTL nm c) e
      | PageFreebsd i out \<Rightarrow> finish_reading (page_freebsd i out c) e
      | PageAix r \<Rightarrow> finish_reading (page_pair r SG_ERROR_SYSCTLBYNAME ''perfstat_memory_total'' c) e
      | PageHpux r \<Rightarrow> finish_reading (page_pair r SG_ERROR_SYSCTLBYNAME ''pstat_getswap'' c) e
      | PageOther os \<Rightarrow> finish_reading (c, Some (SG_ERROR_UNSUPPORTED, Some os, NoErrno)) e)"

definition sg_get_page_stats_diff_int :: "sg_page_stats diff_int" where
  "sg_get_page_stats_diff_int tgt now lst e =
     Done (SG_ERROR_NONE,
       case now of
         None \<Rightarrow> \<lparr>pages_pagein = 0, pages_pageout = 0, page_systime = 0\<rparr>
       | Some n \<Rightarrow>
           (case lst of
              None \<Rightarrow> n
            | Some l \<Rightarrow>
                n\<lparr>pages_pagein := pages_pagein n - pages_pagein l, pages_pageout := pages_pageout n - pages_pageout l,
                  page_systime := page_systime n - page_systime l\<rparr>),
       e)"

definition SG_PAGE_CUR_IDX :: nat where "SG_PAGE_CUR_IDX = 0"
definition SG_PAGE_DIFF_IDX :: nat where "SG_PAGE_DIFF_IDX = 1"

definition sg_get_page_stats :: "page_platform \<Rightarrow> time_t \<Rightarrow> sg_page_stats access" where
  "sg_get_page_stats p now = EASY_COMP_ACCESS sg_page_stats_vector_init_info (sg_get_page_stats_int p now) SG_PAGE_CUR_IDX"

definition sg_get_page_stats_diff :: "page_platform \<Rightarrow> time_t \<Rightarrow> sg_page_stats access" where
  "sg_get_page_stats_diff p now =
     EASY_COMP_DIFF sg_page_stats_vector_init_info sg_get_page_stats_diff_int (sg_get_page_stats p now)
       SG_PAGE_DIFF_IDX SG_PAGE_CUR_IDX"

section \<open>The components meet the interfaces\<close>

interpretation load: reading_source sg_load_stats_vector_init_info "load_reading p now" for p now
  by unfold_locales (simp_all add: sg_load_stats_vector_init_info_def VECTOR_INIT_INFO_EMPTY_INIT_def room_def)

lemma finish_reading_law:
  "\<exists>rc y e'. finish_reading r e = Done (rc, y, e') \<and> (rc \<noteq> SG_ERROR_NONE \<longrightarrow> error (err e') = rc)"
  by (auto simp: finish_reading_def split: prod.splits option.splits errno_from.splits)

lemma page_linux_law:
  "\<exists>rc y e'. page_linux vmstat stat c e = Done (rc, y, e') \<and> (rc \<noteq> SG_ERROR_NONE \<longrightarrow> error (err e') = rc)"
proof (cases vmstat)
  case None
  show ?thesis
  proof (cases stat)
    case (Some f)
    obtain l f' e' where "sg_f_read_line 256 (Some ''page'') f e = Done (l, f', e')"
      using sg_f_read_line_finds [of 256 "''page''" f e] by auto
    with None Some show ?thesis
      by (cases l) (simp_all add: page_linux_def Let_def finish_reading_law)
  qed (simp add: None page_linux_def finish_reading_law)
qed (simp add: page_linux_def finish_reading_law split: prod.splits)

interpretation page: easy_diff sg_page_stats_vector_init_info any_item "sg_get_page_stats_int p now" sg_get_page_stats_diff_int
  for p now
proof unfold_locales
  show "\<exists>rc y e'. sg_get_page_stats_int p now x e = Done (rc, y, e') \<and> any_item y \<and>
      (rc \<noteq> SG_ERROR_NONE \<longrightarrow> error (err e') = rc)" for x e
    by (simp add: sg_get_page_stats_int_def Let_def finish_reading_law page_linux_law
        split: page_platform.splits option.splits sum.splits prod.splits)
qed (auto simp: sg_page_stats_vector_init_info_def VECTOR_INIT_INFO_EMPTY_INIT_def sg_get_page_stats_diff_int_def room_def)

section \<open>Properties\<close>

text \<open>A successful \<^verbatim>\<open>sg_get_load_stats\<close> on Solaris delivers the kernel's fixed-point averages divided by 256;
  when one of the three values is missing it fails with an error, and it never faults.\<close>

theorem sg_get_load_stats_solaris:
  assumes "heap_ok w" "holder sg_load_stats_vector_init_info any_item (g SG_LOAD_CUR_IDX) w" "sched (wenv w) = []"
  shows "\<exists>v n g' w'. sg_get_load_stats (LoadSolaris (KstatNamed kn)) now (Some g) w = Done ((v, n), Some g', w') \<and> heap_ok w' \<and>
     (case (kn ''avenrun_1min'', kn ''avenrun_5min'', kn ''avenrun_15min'') of
        (Some a, Some b, Some c) \<Rightarrow> n = 1 \<and> v = g' SG_LOAD_CUR_IDX \<and> error (err (wenv w')) = SG_ERROR_NONE \<and>
          holds sg_load_stats_vector_init_info any_item v
            \<lparr>min1 = real (unat a) / 256, min5 = real (unat b) / 256, min15 = real (unat c) / 256, load_systime = now\<rparr> w'
      | _ \<Rightarrow> v = 0 \<and> n = 0 \<and> error (err (wenv w')) \<noteq> SG_ERROR_NONE)"
proof (cases "kn ''avenrun_1min'' \<noteq> None \<and> kn ''avenrun_5min'' \<noteq> None \<and> kn ''avenrun_15min'' \<noteq> None")
  case True
  then obtain a b c where k: "kn ''avenrun_1min'' = Some a" "kn ''avenrun_5min'' = Some b" "kn ''avenrun_15min'' = Some c" by auto
  let ?y = "\<lparr>min1 = real (unat a) / 256, min5 = real (unat b) / 256, min15 = real (unat c) / 256, load_systime = now\<rparr>"
  have "load_reading (LoadSolaris (KstatNamed kn)) now x = (?y, None)" for x
    using k by (cases x) (simp add: load_reading_def load_solaris_def Let_def)
  from load.access_reads [of w g SG_LOAD_CUR_IDX "LoadSolaris (KstatNamed kn)" now ?y, OF assms this] show ?thesis
    unfolding sg_get_load_stats_def sg_get_load_stats_int_def by (simp add: k) blast
next
  case False
  then have "\<exists>y c a f. load_reading (LoadSolaris (KstatNamed kn)) now x = (y, Some (c, a, f)) \<and> c \<noteq> SG_ERROR_NONE" for x
    by (auto simp: load_reading_def load_solaris_def Let_def split: option.splits)
  from load.access_fails [of w g SG_LOAD_CUR_IDX "LoadSolaris (KstatNamed kn)" now, OF assms(1,2) this] False show ?thesis
    unfolding sg_get_load_stats_def sg_get_load_stats_int_def
    by (cases "kn ''avenrun_1min''"; cases "kn ''avenrun_5min''"; cases "kn ''avenrun_15min''") auto
qed

lemma sg_get_load_stats_solaris_witness:
  "\<exists>v n g' w'. sg_get_load_stats (LoadSolaris (KstatNamed (\<lambda>_. Some 512))) 60 (Some (\<lambda>_. 0)) (world_of [] undefined) =
     Done ((v, n), Some g', w') \<and> n = 1 \<and>
     holds sg_load_stats_vector_init_info any_item v \<lparr>min1 = 2, min5 = 2, min15 = 2, load_systime = 60\<rparr> w'"
proof -
  have "holder sg_load_stats_vector_init_info any_item ((\<lambda>_. 0) SG_LOAD_CUR_IDX) (world_of [] undefined)"
    "sched (wenv (world_of [] undefined)) = []" by (simp_all add: holder_def world_of_def fresh_env_def)
  from sg_get_load_stats_solaris [OF world_of_ok this, of "\<lambda>_. Some 512" 60] show ?thesis by auto
qed

text \<open>Scanning of \<^verbatim>\<open>/proc/vmstat\<close>.\<close>

definition vmstat_line :: "string \<Rightarrow> nat \<Rightarrow> string" where
  "vmstat_line key n = key @ '' '' @ dec_string n"

definition paging_line :: "string \<Rightarrow> bool" where
  "paging_line l \<longleftrightarrow> has_prefix ''pgpgin '' l \<or> has_prefix ''pgpgout '' l"

lemma has_prefix_app: "length k \<le> length l \<Longrightarrow> has_prefix k (l @ r) = has_prefix k l"
  by (induction k l rule: has_prefix.induct) auto

lemma has_prefix_nl: "has_prefix k (l @ [c]) \<Longrightarrow> c \<notin> set k \<Longrightarrow> has_prefix k l"
  by (induction k l rule: has_prefix.induct) (auto split: if_splits)

lemma scan_vmstat_line:
  "key \<noteq> [] \<Longrightarrow> \<forall>c \<in> set key. \<not> is_space c \<Longrightarrow> n < 2 ^ 64 \<Longrightarrow> scan_value (vmstat_line key n @ [CHR 0x0A]) = Some (word_of_nat n)"
  using scan_keyed(1) [of key "'' ''" "[CHR 0x0A]" "[]" n]
  by (simp add: scan_value_def vmstat_line_def is_space_def is_digit_def to_ull_small)

lemma vmstat_loop_skip:
  assumes "list_all (\<lambda>l. \<not> paging_line l) pre"
  shows "vmstat_loop (map (\<lambda>l. l @ [CHR 0x0A]) pre @ ls) m c = vmstat_loop ls m c"
proof (cases "m < 2")
  case True
  have "\<not> has_prefix ''pgpgin '' (l @ [CHR 0x0A]) \<and> \<not> has_prefix ''pgpgout '' (l @ [CHR 0x0A])" if "\<not> paging_line l" for l
    using that has_prefix_nl by (auto simp: paging_line_def)
  with assms True show ?thesis by (induction pre) (auto split: option.splits)
next
  case False
  then show ?thesis by (cases "map (\<lambda>l. l @ [CHR 0x0A]) pre @ ls"; cases ls) auto
qed

lemma vmstat_loop_full: "vmstat_loop ls (Suc (Suc m)) c = (Suc (Suc m), c)"
  by (cases ls) auto

lemma vmstat_reads:
  assumes "list_all (line_ok 255) (l1 @ vmstat_line ''pgpgin'' i # l2 @ vmstat_line ''pgpgout'' out # l3)"
    and "list_all (\<lambda>l. \<not> paging_line l) (l1 @ l2)" "i < 2 ^ 64" "out < 2 ^ 64"
  shows "sg_get_page_stats_int
       (PageLinux (Some (text_of (l1 @ vmstat_line ''pgpgin'' i # l2 @ vmstat_line ''pgpgout'' out # l3))) stat) now x e =
     Done (SG_ERROR_NONE, \<lparr>pages_pagein = word_of_nat i, pages_pageout = word_of_nat out, page_systime = now\<rparr>, e)"
proof -
  let ?ls = "l1 @ vmstat_line ''pgpgin'' i # l2 @ vmstat_line ''pgpgout'' out # l3"
  have sk: "list_all (\<lambda>l. \<not> paging_line l) l1" "list_all (\<lambda>l. \<not> paging_line l) l2" using assms(2) by simp_all
  have v: "scan_value (vmstat_line ''pgpgin'' i @ [CHR 0x0A]) = Some (word_of_nat i)"
    "scan_value (vmstat_line ''pgpgout'' out @ [CHR 0x0A]) = Some (word_of_nat out)"
    using assms(3,4) by (intro scan_vmstat_line; simp add: is_space_def)+
  have p: "has_prefix ''pgpgin '' (vmstat_line ''pgpgin'' i @ r)" "has_prefix ''pgpgout '' (vmstat_line ''pgpgout'' out @ r)"
    "\<not> has_prefix ''pgpgin '' (vmstat_line ''pgpgout'' out @ r)" for r by (simp_all add: vmstat_line_def)
  have "vmstat_loop (map (\<lambda>l. l @ [CHR 0x0A]) ?ls) 0 c = (2, c\<lparr>pages_pagein := word_of_nat i, pages_pageout := word_of_nat out\<rparr>)" for c
    by (simp add: vmstat_loop_skip [OF sk(1)] vmstat_loop_skip [OF sk(2)] v p vmstat_loop_full)
  then show ?thesis
    by (simp only: sg_get_page_stats_int_def page_linux_def Let_def page_platform.case option.case strval_lines [OF assms(1)])
      (simp add: finish_reading_def)
qed

text \<open>C21: \<^verbatim>\<open>sg_get_page_stats_diff\<close> on Linux after a first reading: for a \<^verbatim>\<open>/proc/vmstat\<close> as the kernel prints it,
  with any other lines around, the thread's reading becomes the printed counters and the result is their
  difference to the reading before, unless the vector for it cannot be allocated.\<close>

theorem sg_get_page_stats_diff_linux:
  assumes "heap_ok w" "holds sg_page_stats_vector_init_info any_item (g SG_PAGE_CUR_IDX) lst w"
    and "holder sg_page_stats_vector_init_info any_item (g SG_PAGE_DIFF_IDX) w" "g SG_PAGE_DIFF_IDX \<noteq> g SG_PAGE_CUR_IDX"
    and "list_all (line_ok 255) (l1 @ vmstat_line ''pgpgin'' i # l2 @ vmstat_line ''pgpgout'' out # l3)"
    and "list_all (\<lambda>l. \<not> paging_line l) (l1 @ l2)" "i < 2 ^ 64" "out < 2 ^ 64"
  shows "\<exists>v n g' w'. sg_get_page_stats_diff
       (PageLinux (Some (text_of (l1 @ vmstat_line ''pgpgin'' i # l2 @ vmstat_line ''pgpgout'' out # l3))) stat) now (Some g) w =
       Done ((v, n), Some g', w') \<and> heap_ok w' \<and>
     (if v = 0 then n = 0 \<and> error (err (wenv w')) \<noteq> SG_ERROR_NONE \<and> sched (wenv w) \<noteq> []
      else n = 1 \<and> v = g' SG_PAGE_DIFF_IDX \<and> v \<noteq> g' SG_PAGE_CUR_IDX \<and> error (err (wenv w')) = SG_ERROR_NONE \<and>
        holds sg_page_stats_vector_init_info any_item (g' SG_PAGE_CUR_IDX)
          \<lparr>pages_pagein = word_of_nat i, pages_pageout = word_of_nat out, page_systime = now\<rparr> w' \<and>
        holds sg_page_stats_vector_init_info any_item v
          \<lparr>pages_pagein = word_of_nat i - pages_pagein lst, pages_pageout = word_of_nat out - pages_pageout lst,
           page_systime = now - page_systime lst\<rparr> w')"
  unfolding sg_get_page_stats_diff_def sg_get_page_stats_def
  by (rule page.diff_reads [where lst = lst, OF assms(1) _ _ _ _ vmstat_reads [OF assms(5-8)]])
    (use assms(2-4) in \<open>simp_all add: sg_get_page_stats_diff_int_def SG_PAGE_CUR_IDX_def SG_PAGE_DIFF_IDX_def\<close>)

lemma sg_get_page_stats_diff_linux_witness:
  "\<exists>v n g' w'. sg_get_page_stats_diff
       (PageLinux (Some (text_of ([''nr_free_pages 7''] @ vmstat_line ''pgpgin'' 9 # [] @ vmstat_line ''pgpgout'' 5 # []))) None) 60
       (Some (\<lambda>i. if i = 0 then 1 else 0))
       (world_of [block_of sg_page_stats_vector_init_info [\<lparr>pages_pagein = 2, pages_pageout = 5, page_systime = 50\<rparr>]]
         \<lparr>pages_pagein = 0, pages_pageout = 0, page_systime = 0\<rparr>) = Done ((v, n), Some g', w') \<and>
     holds sg_page_stats_vector_init_info any_item v \<lparr>pages_pagein = 7, pages_pageout = 0, page_systime = 10\<rparr> w'"
proof -
  let ?ty = sg_page_stats_vector_init_info and ?g = "\<lambda>i. if i = 0 then 1 else 0 :: nat"
  let ?l = "\<lparr>pages_pagein = 2, pages_pageout = 5, page_systime = 50\<rparr>"
  let ?w = "world_of [block_of ?ty [?l]] \<lparr>pages_pagein = 0, pages_pageout = 0, page_systime = 0\<rparr>"
  have g: "?g SG_PAGE_CUR_IDX = 1" "?g SG_PAGE_DIFF_IDX = 0" by (simp_all add: SG_PAGE_CUR_IDX_def SG_PAGE_DIFF_IDX_def)
  have isz: "item_size ?ty = 24" by (simp add: sg_page_stats_vector_init_info_def VECTOR_INIT_INFO_EMPTY_INIT_def)
  have b: "vec_ok ?ty any_item (block_of ?ty [?l])" "contents (block_of ?ty [?l]) = [?l]" by (intro block_of_ok; simp add: isz room_def)+
  have h: "holds ?ty any_item (?g SG_PAGE_CUR_IDX) ?l ?w"
    unfolding g holds_def using b by (intro exI [of _ "block_of ?ty [?l]"]) (simp add: vload_world_of)
  have d: "holder ?ty any_item (?g SG_PAGE_DIFF_IDX) ?w" "?g SG_PAGE_DIFF_IDX \<noteq> ?g SG_PAGE_CUR_IDX"
    unfolding g by (simp_all add: holder_def)
  have ln: "list_all (line_ok 255) ([''nr_free_pages 7''] @ vmstat_line ''pgpgin'' 9 # [] @ vmstat_line ''pgpgout'' 5 # [])"
    "list_all (\<lambda>l. \<not> paging_line l) ([''nr_free_pages 7''] @ [])"
    by (simp_all add: line_ok_def vmstat_line_def dec_string.simps paging_line_def nul_free_def char_of_def)
  have sc: "sched (wenv ?w) = []" by (simp add: world_of_def fresh_env_def)
  from sg_get_page_stats_diff_linux [OF world_of_ok h d ln, of None 60] sc show ?thesis by (auto split: if_splits)
qed

text \<open>Without \<^verbatim>\<open>/proc/vmstat\<close>, a \<^verbatim>\<open>/proc/stat\<close> that can be read and has no line \<^verbatim>\<open>page\<close> makes the reader return
  the error that happened to be recorded before: with none recorded, it reports success and counters of 0.\<close>

theorem page_linux_missing_line:
  assumes "\<not> fbad f" "find (has_prefix ''page'') (file_lines 255 (fbytes f)) = None"
  shows "sg_get_page_stats_int (PageLinux None (Some f)) now x e =
     Done (error (err e), \<lparr>pages_pagein = 0, pages_pageout = 0, page_systime = now\<rparr>, e)"
  using sg_f_read_line_finds [of 256 "''page''" f e] assms by (auto simp: sg_get_page_stats_int_def page_linux_def Let_def)

lemma page_linux_missing_line_witness:
  "sg_get_page_stats_int (PageLinux None (Some \<lparr>fbytes = text_of [''cpu 1''], fbad = False\<rparr>)) 60
     \<lparr>pages_pagein = 3, pages_pageout = 4, page_systime = 0\<rparr> (fresh_env []) =
   Done (SG_ERROR_NONE, \<lparr>pages_pagein = 0, pages_pageout = 0, page_systime = 60\<rparr>, fresh_env [])"
proof -
  have "list_all (line_ok 255) [''cpu 1'']" by (simp add: line_ok_def nul_free_def)
  from file_lines_text [OF this]
  have "find (has_prefix ''page'') (file_lines 255 (fbytes \<lparr>fbytes = text_of [''cpu 1''], fbad = False\<rparr>)) = None" by simp
  from page_linux_missing_line [OF _ this] show ?thesis by (simp add: fresh_env_def pre_init_errs_def)
qed

end
