(* ===== verification/Memory.thy ===== *)
theory Memory
  imports Load_Page
begin

text \<open>
  Memory and swap (\<^verbatim>\<open>memory_stats.c\<close>, \<^verbatim>\<open>swap_stats.c\<close>): the cached page size, the initialisation of both
  components, the readers of the platforms over what their system calls report, and the public functions.
  The page size is an argument of the readers that multiply by it.
\<close>

section \<open>The page size\<close>

text \<open>\<^verbatim>\<open>sys_page_size\<close> starts as 0; what \<^verbatim>\<open>sysconf\<close> answers first stays, also a failure.\<close>

definition sg_get_sys_page_size :: "int \<Rightarrow> int \<Rightarrow> env \<Rightarrow> int \<times> env" where
  "sg_get_sys_page_size sysconf sys_page_size e =
     (if sys_page_size = 0 then
        (if sysconf = - 1 then (- 1, SET_ERROR_WITH_ERRNO SG_ERROR_SYSCONF (Some ''_SC_PAGESIZE'') e) else (sysconf, e))
      else (sys_page_size, e))"

text \<open>\<^verbatim>\<open>vmtotal\<close>: on the platforms that need it, whether the mib was found.\<close>

definition sg_mem_init_comp :: "bool option \<Rightarrow> int \<Rightarrow> int \<Rightarrow> env \<Rightarrow> sg_error \<times> int \<times> env" where
  "sg_mem_init_comp vmtotal sysconf sys_page_size e =
     (if vmtotal = Some False then
        (SG_ERROR_SYSCTLNAMETOMIB, sys_page_size, SET_ERROR_WITH_ERRNO SG_ERROR_SYSCTLNAMETOMIB (Some ''vm.vmtotal'') e)
      else
        (let (ps, e) = sg_get_sys_page_size sysconf sys_page_size e
         in if ps = - 1 then (SG_ERROR_SYSCONF, ps, SET_ERROR_WITH_ERRNO SG_ERROR_SYSCONF (Some ''_SC_PAGESIZE'') e)
            else (SG_ERROR_NONE, ps, e)))"

text \<open>\<open>xsw\<close>: with \<^verbatim>\<open>struct xswdev\<close>, whether each of the two mibs is found; the result says which one is used.\<close>

definition sg_swap_init_comp ::
  "(bool \<times> bool) option \<Rightarrow> int \<Rightarrow> int \<Rightarrow> env \<Rightarrow> sg_error \<times> int \<times> (bool \<times> string) option \<times> env" where
  "sg_swap_init_comp xsw sysconf sys_page_size e =
     (let (ps, e) = sg_get_sys_page_size sysconf sys_page_size e
      in if ps = - 1 then (SG_ERROR_SYSCONF, ps, None, SET_ERROR_WITH_ERRNO SG_ERROR_SYSCONF (Some ''_SC_PAGESIZE'') e)
         else
           (case xsw of
              None \<Rightarrow> (SG_ERROR_NONE, ps, None, e)
            | Some (True, _) \<Rightarrow> (SG_ERROR_NONE, ps, Some (False, ''vm.swap_info''), e)
            | Some (False, True) \<Rightarrow> (SG_ERROR_NONE, ps, Some (True, ''vm.swap_info_array''), e)
            | Some (False, False) \<Rightarrow>
                (SG_ERROR_SYSCTLNAMETOMIB, ps, None,
                 SET_ERROR_WITH_ERRNO SG_ERROR_SYSCTLNAMETOMIB (Some ''vm.swap_info + vm.swap_info_array'') e)))"

section \<open>Memory\<close>

record sg_mem_stats =
  mem_total :: ull
  mem_free :: ull
  mem_used :: ull
  mem_cache :: ull
  mem_systime :: time_t

definition sg_mem_stats_vector_init_info :: "sg_mem_stats sg_vector_init_info" where
  "sg_mem_stats_vector_init_info = VECTOR_INIT_INFO_EMPTY_INIT 40"

record mach_vm =           \<comment> \<open>\<^verbatim>\<open>vm_statistics\<close>: 32-bit page counts\<close>
  vm_free :: u32
  vm_speculative :: u32
  vm_inactive :: u32
  vm_active :: u32
  vm_wire :: u32

record uvmexp =
  uvm_pagesize :: ull
  uvm_npages :: ull
  uvm_free :: ull
  uvm_filepages :: "ull option"     \<comment> \<open>where the structure has the member\<close>
  uvm_execpages :: "ull option"
  uvm_swpages :: ull
  uvm_swpginuse :: ull

datatype mem_platform =
    MemHpux "ull option" "(ull \<times> ull) option"          \<comment> \<open>free pages; physical pages and page size\<close>
  | MemAix ull "(ull \<times> ull \<times> ull \<times> ull) option"       \<comment> \<open>page size; pages: total, in use, permanent, free\<close>
  | MemSolaris ull "ull option" "ull option"            \<comment> \<open>page size, \<^verbatim>\<open>_SC_PHYS_PAGES\<close>, \<^verbatim>\<open>_SC_AVPHYS_PAGES\<close>\<close>
  | MemSolarisKstat ull "ull kstat_named"
  | MemLinux "string option"
  | MemUvm string "uvmexp option"
  | MemMach ull "int + mach_vm"
  | MemFreebsd ull "u32 option" "u32 option" "u32 option" "u32 option option"
      \<comment> \<open>pages: all, free, inactive and, where counted, cached\<close>
  | MemWin32 "(ull \<times> ull) option" "ull option"          \<comment> \<open>available and all bytes; the cache counter\<close>
  | MemVmtotal ull "(ull \<times> ull) option" "(ull option \<times> ull option option) option"
      \<comment> \<open>used and free pages; \<^verbatim>\<open>HW_PHYSMEM\<close> and \<^verbatim>\<open>HW_USERMEM\<close> where they exist\<close>
  | MemOther string

definition mem_hpux :: "ull option \<Rightarrow> (ull \<times> ull) option \<Rightarrow> sg_mem_stats \<Rightarrow> sg_mem_stats reading" where
  "mem_hpux dyn stat c =
     (case dyn of
        None \<Rightarrow> (c, Some (SG_ERROR_PSTAT, Some ''pstat_dynamic'', FromErrno))
      | Some fr \<Rightarrow>
          (case stat of
             None \<Rightarrow> (c, Some (SG_ERROR_PSTAT, Some ''pstat_static'', FromErrno))
           | Some (phys, ps) \<Rightarrow>
               (c\<lparr>mem_total := phys * ps, mem_free := fr * ps, mem_used := phys * ps - fr * ps\<rparr>, None)))"

definition mem_aix :: "ull \<Rightarrow> (ull \<times> ull \<times> ull \<times> ull) option \<Rightarrow> sg_mem_stats \<Rightarrow> sg_mem_stats reading" where
  "mem_aix ps r c =
     (case r of
        None \<Rightarrow> (c, Some (SG_ERROR_SYSCTLBYNAME, Some ''perfstat_memory_total'', FromErrno))
      | Some (t, u, perm, f) \<Rightarrow>
          (c\<lparr>mem_total := t * ps, mem_used := u * ps, mem_cache := perm * ps, mem_free := f * ps\<rparr>, None))"

definition mem_solaris_finish :: "sg_mem_stats \<Rightarrow> sg_mem_stats" where
  "mem_solaris_finish c = c\<lparr>mem_used := mem_total c - mem_free c, mem_cache := 0\<rparr>"

definition mem_solaris :: "ull \<Rightarrow> ull option \<Rightarrow> ull option \<Rightarrow> sg_mem_stats \<Rightarrow> sg_mem_stats reading" where
  "mem_solaris ps phys av c =
     (case phys of
        None \<Rightarrow> (c, Some (SG_ERROR_SYSCONF, Some ''_SC_PHYS_PAGES'', FromErrno))
      | Some t \<Rightarrow>
          (case av of
             None \<Rightarrow> (c, Some (SG_ERROR_SYSCONF, Some ''_SC_AVPHYS_PAGES'', FromErrno))
           | Some f \<Rightarrow> (mem_solaris_finish (c\<lparr>mem_total := t * ps, mem_free := f * ps\<rparr>), None)))"

definition mem_solaris_kstat :: "ull \<Rightarrow> ull kstat_named \<Rightarrow> sg_mem_stats \<Rightarrow> sg_mem_stats reading" where
  "mem_solaris_kstat ps k c =
     (case k of
        KstatOpenFails \<Rightarrow> (c, Some (SG_ERROR_KSTAT_OPEN, None, NoErrno))
      | KstatLookupFails \<Rightarrow> (c, Some (SG_ERROR_KSTAT_LOOKUP, Some ''unix,0,system_pages'', NoErrno))
      | KstatReadFails \<Rightarrow> (c, Some (SG_ERROR_KSTAT_READ, None, NoErrno))
      | KstatNamed kn \<Rightarrow>
          (case kn ''physmem'' of
             None \<Rightarrow> (c, Some (SG_ERROR_KSTAT_DATA_LOOKUP, Some ''physmem'', NoErrno))
           | Some t \<Rightarrow>
               let c = c\<lparr>mem_total := t * ps\<rparr> in
               (case kn ''freemem'' of
                  None \<Rightarrow> (c, Some (SG_ERROR_KSTAT_DATA_LOOKUP, Some ''freemem'', NoErrno))
                | Some f \<Rightarrow> (mem_solaris_finish (c\<lparr>mem_free := f * ps\<rparr>), None))))"

text \<open>Linux: \<^verbatim>\<open>/proc/meminfo\<close>. The buffer is not cleared before; a line that is missing leaves its member as it was.\<close>

definition scan_kb :: "string \<Rightarrow> ull option" where
  "scan_kb line =
     (case sscanf [FSkipStr, FSpace, FLL, FSpace, FLit CHR ''k'', FLit CHR ''B''] line of VNum v # _ \<Rightarrow> Some v | _ \<Rightarrow> None)"

fun meminfo_loop :: "string list \<Rightarrow> sg_mem_stats \<Rightarrow> sg_mem_stats" where
  "meminfo_loop [] c = c"
| "meminfo_loop (l # ls) c =
     (case scan_kb l of
        None \<Rightarrow> meminfo_loop ls c
      | Some v \<Rightarrow>
          if has_prefix ''MemTotal:'' l then meminfo_loop ls (c\<lparr>mem_total := v\<rparr>)
          else if has_prefix ''MemFree:'' l then meminfo_loop ls (c\<lparr>mem_free := v\<rparr>)
          else if has_prefix ''Cached:'' l then meminfo_loop ls (c\<lparr>mem_cache := v\<rparr>)
          else meminfo_loop ls c)"

definition mem_linux :: "string option \<Rightarrow> sg_mem_stats \<Rightarrow> sg_mem_stats reading" where
  "mem_linux pf c =
     (case pf of
        None \<Rightarrow> (c, Some (SG_ERROR_OPEN, Some ''/proc/meminfo'', FromErrno))
      | Some body \<Rightarrow>
          let c = meminfo_loop (map strval (file_lines 255 body)) c;
              c = c\<lparr>mem_free := mem_free c + mem_cache c\<rparr>;
              c = c\<lparr>mem_total := mem_total c * 1024, mem_free := mem_free c * 1024, mem_cache := mem_cache c * 1024\<rparr>
          in (c\<lparr>mem_used := mem_total c - mem_free c\<rparr>, None))"

definition mem_uvm :: "string \<Rightarrow> uvmexp option \<Rightarrow> sg_mem_stats \<Rightarrow> sg_mem_stats reading" where
  "mem_uvm nm r c =
     (case r of
        None \<Rightarrow> (c, Some (SG_ERROR_SYSCTL, Some nm, FromErrno))
      | Some u \<Rightarrow>
          let cache = (case uvm_filepages u of None \<Rightarrow> 0 | Some p \<Rightarrow> p) + (case uvm_execpages u of None \<Rightarrow> 0 | Some p \<Rightarrow> p);
              c = c\<lparr>mem_total := uvm_npages u * uvm_pagesize u, mem_cache := cache * uvm_pagesize u,
                    mem_free := (uvm_free u + cache) * uvm_pagesize u\<rparr>
          in (c\<lparr>mem_used := mem_total c - mem_free c\<rparr>, None))"

definition mem_mach :: "ull \<Rightarrow> int + mach_vm \<Rightarrow> sg_mem_stats \<Rightarrow> sg_mem_stats reading" where
  "mem_mach ps r c =
     (case r of
        Inl rc \<Rightarrow> (c, Some (SG_ERROR_MACHCALL, Some ''host_statistics'', ErrnoCode rc))
      | Inr m \<Rightarrow>
          let c = c\<lparr>mem_free := (ucast (vm_free m - vm_speculative m) + ucast (vm_inactive m)) * ps,
                    mem_total := ucast (vm_active m + vm_wire m + vm_inactive m + vm_free m) * ps\<rparr>
          in (c\<lparr>mem_used := mem_total c - mem_free c, mem_cache := 0\<rparr>, None))"

definition mem_freebsd ::
  "ull \<Rightarrow> u32 option \<Rightarrow> u32 option \<Rightarrow> u32 option \<Rightarrow> u32 option option \<Rightarrow> sg_mem_stats \<Rightarrow> sg_mem_stats reading" where
  "mem_freebsd ps all fr inact cach c =
     (case all of
        None \<Rightarrow> (c, Some (SG_ERROR_SYSCTLBYNAME, Some ''vm.stats.vm.v_page_count'', FromErrno))
      | Some t \<Rightarrow>
     (case fr of
        None \<Rightarrow> (c, Some (SG_ERROR_SYSCTLBYNAME, Some ''vm.stats.vm.v_free_count'', FromErrno))
      | Some f \<Rightarrow>
     (case inact of
        None \<Rightarrow> (c, Some (SG_ERROR_SYSCTLBYNAME, Some ''vm.stats.vm.v_inactive_count'', FromErrno))
      | Some i \<Rightarrow>
     (case cach of
        Some None \<Rightarrow> (c, Some (SG_ERROR_SYSCTLBYNAME, Some ''vm.stats.vm.v_cache_count'', FromErrno))
      | _ \<Rightarrow>
          let k = (case cach of Some (Some k) \<Rightarrow> k | _ \<Rightarrow> 0);
              c = c\<lparr>mem_cache := ucast k * ps, mem_total := ucast t * ps, mem_free := (ucast f + ucast i + ucast k) * ps\<rparr>
          in (c\<lparr>mem_used := mem_total c - mem_free c\<rparr>, None)))))"

definition mem_win32 :: "(ull \<times> ull) option \<Rightarrow> ull option \<Rightarrow> sg_mem_stats \<Rightarrow> sg_mem_stats reading" where
  "mem_win32 r cach c =
     (case r of
        None \<Rightarrow> (c, Some (SG_ERROR_MEMSTATUS, None, FromErrno))
      | Some (av, t) \<Rightarrow>
          (c\<lparr>mem_free := av, mem_total := t, mem_used := t - av, mem_cache := (case cach of None \<Rightarrow> 0 | Some k \<Rightarrow> k)\<rparr>, None))"

definition mem_vmtotal ::
  "ull \<Rightarrow> (ull \<times> ull) option \<Rightarrow> (ull option \<times> ull option option) option \<Rightarrow> sg_mem_stats \<Rightarrow> sg_mem_stats reading" where
  "mem_vmtotal ps r hw c =
     (case r of
        None \<Rightarrow> (c, Some (SG_ERROR_SYSCTLBYNAME, Some ''vm.vmtotal'', FromErrno))
      | Some (u, f) \<Rightarrow>
          let c = c\<lparr>mem_used := u * ps, mem_cache := 0, mem_free := f * ps\<rparr> in
          (case hw of
             None \<Rightarrow> (c\<lparr>mem_total := mem_used c + mem_free c\<rparr>, None)
           | Some (None, _) \<Rightarrow> (c, Some (SG_ERROR_SYSCTL, Some ''CTL_HW.HW_PHYSMEM'', FromErrno))
           | Some (Some t, None) \<Rightarrow> (c\<lparr>mem_total := t\<rparr>, None)
           | Some (Some t, Some None) \<Rightarrow> (c\<lparr>mem_total := t\<rparr>, Some (SG_ERROR_SYSCTL, Some ''CTL_HW.HW_USERMEM'', FromErrno))
           | Some (Some t, Some (Some um)) \<Rightarrow> (c\<lparr>mem_total := t, mem_used := mem_used c + (t - um)\<rparr>, None)))"

definition mem_reading :: "mem_platform \<Rightarrow> time_t \<Rightarrow> sg_mem_stats \<Rightarrow> sg_mem_stats reading" where
  "mem_reading p now x =
     (case (case p of
              MemHpux dyn stat \<Rightarrow> mem_hpux dyn stat x
            | MemAix ps r \<Rightarrow> mem_aix ps r x
            | MemSolaris ps phys av \<Rightarrow> mem_solaris ps phys av x
            | MemSolarisKstat ps k \<Rightarrow> mem_solaris_kstat ps k x
            | MemLinux pf \<Rightarrow> mem_linux pf x
            | MemUvm nm r \<Rightarrow> mem_uvm nm r x
            | MemMach ps r \<Rightarrow> mem_mach ps r x
            | MemFreebsd ps t f i k \<Rightarrow> mem_freebsd ps t f i k x
            | MemWin32 r k \<Rightarrow> mem_win32 r k x
            | MemVmtotal ps r hw \<Rightarrow> mem_vmtotal ps r hw x
            | MemOther os \<Rightarrow> (x, Some (SG_ERROR_UNSUPPORTED, Some os, NoErrno))) of
        (c, None) \<Rightarrow> (c\<lparr>mem_systime := now\<rparr>, None)
      | (c, Some er) \<Rightarrow> (c, Some er))"

definition sg_get_mem_stats_int :: "mem_platform \<Rightarrow> time_t \<Rightarrow> sg_mem_stats easy_int" where
  "sg_get_mem_stats_int p now = easy_reading (mem_reading p now)"

definition SG_MEM_CUR_IDX :: nat where "SG_MEM_CUR_IDX = 0"

definition sg_get_mem_stats :: "mem_platform \<Rightarrow> time_t \<Rightarrow> sg_mem_stats access" where
  "sg_get_mem_stats p now = EASY_COMP_ACCESS sg_mem_stats_vector_init_info (sg_get_mem_stats_int p now) SG_MEM_CUR_IDX"

interpretation mem: reading_source sg_mem_stats_vector_init_info "mem_reading p now" for p now
  by unfold_locales (simp_all add: sg_mem_stats_vector_init_info_def VECTOR_INIT_INFO_EMPTY_INIT_def room_def)

section \<open>Properties\<close>

text \<open>On every platform but AIX and those that read \<^verbatim>\<open>vmtotal\<close>, a successful reading of the memory satisfies
  used + free = total (modulo the width of the counters), and the time of the reading is recorded.\<close>

theorem mem_reading_balanced:
  assumes "mem_reading p now x = (y, None)" "\<And>ps r. p \<noteq> MemAix ps r" "\<And>ps r hw. p \<noteq> MemVmtotal ps r hw"
  shows "mem_used y + mem_free y = mem_total y \<and> mem_systime y = now"
proof (cases p)
  case (MemHpux dyn stat)
  with assms(1) show ?thesis by (auto simp: mem_reading_def mem_hpux_def split: option.splits)
next
  case (MemSolaris ps phys av)
  with assms(1) show ?thesis by (auto simp: mem_reading_def mem_solaris_def mem_solaris_finish_def split: option.splits)
next
  case (MemSolarisKstat ps k)
  with assms(1) show ?thesis
    by (auto simp: mem_reading_def mem_solaris_kstat_def mem_solaris_finish_def Let_def split: option.splits kstat_named.splits)
next
  case (MemLinux pf)
  with assms(1) show ?thesis by (auto simp: mem_reading_def mem_linux_def Let_def split: option.splits)
next
  case (MemUvm nm r)
  with assms(1) show ?thesis by (cases r) (auto simp: mem_reading_def mem_uvm_def Let_def)
next
  case (MemMach ps r)
  with assms(1) show ?thesis by (cases r) (auto simp: mem_reading_def mem_mach_def Let_def)
next
  case (MemFreebsd ps t f i k)
  with assms(1) show ?thesis
    by (cases t; cases f; cases i; cases k; cases "the k") (auto simp: mem_reading_def mem_freebsd_def Let_def)
next
  case (MemWin32 r k)
  with assms(1) show ?thesis by (auto simp: mem_reading_def mem_win32_def split: option.splits)
qed (use assms in \<open>auto simp: mem_reading_def\<close>)

lemma mem_reading_balanced_witness:
  "mem_used \<lparr>mem_total = 40960, mem_free = 8192, mem_used = 32768, mem_cache = 0, mem_systime = 60\<rparr> + 8192 = 40960"
  using mem_reading_balanced [of "MemSolaris 4096 (Some 10) (Some 2)" 60
      "\<lparr>mem_total = 1, mem_free = 2, mem_used = 3, mem_cache = 4, mem_systime = 5\<rparr>"
      "\<lparr>mem_total = 40960, mem_free = 8192, mem_used = 32768, mem_cache = 0, mem_systime = 60\<rparr>"]
  by (simp add: mem_reading_def mem_solaris_def mem_solaris_finish_def)

text \<open>The lines of \<^verbatim>\<open>/proc/meminfo\<close> as \<^verbatim>\<open>show_val_kb\<close> of the kernel prints them: the key filled up with blanks to
  16 columns, the number right-justified in 8 columns (wider when it has more digits) and the unit.\<close>

definition meminfo_line :: "string \<Rightarrow> nat \<Rightarrow> string" where
  "meminfo_line key n =
     key @ replicate (16 - length key) CHR '' '' @
     replicate (8 - length (dec_string n)) CHR '' '' @ dec_string n @ '' kB''"

definition mem_line :: "string \<Rightarrow> bool" where
  "mem_line l \<longleftrightarrow> has_prefix ''MemTotal:'' l \<or> has_prefix ''MemFree:'' l \<or> has_prefix ''Cached:'' l"

lemma meminfo_line_gap:
  assumes "length key < 16"
  shows "\<exists>pad. meminfo_line key n = key @ replicate (Suc pad) CHR '' '' @ dec_string n @ '' kB''"
proof -
  have "16 - length key + (8 - length (dec_string n)) = Suc (15 - length key + (8 - length (dec_string n)))"
    using assms by simp
  then have "replicate (16 - length key) CHR '' '' @ replicate (8 - length (dec_string n)) CHR '' '' =
      replicate (Suc (15 - length key + (8 - length (dec_string n)))) CHR '' ''"
    by (simp only: replicate_add [symmetric])
  then show ?thesis unfolding meminfo_line_def by (metis append.assoc)
qed

lemma scan_meminfo_line:
  assumes "key \<noteq> []" "length key < 16" "\<forall>c \<in> set key. \<not> is_space c" "n < 2 ^ 63"
  shows "scan_kb (meminfo_line key n @ [CHR 0x0A]) = Some (word_of_nat n)"
proof -
  obtain pad where "meminfo_line key n = key @ replicate (Suc pad) CHR '' '' @ dec_string n @ '' kB''"
    using meminfo_line_gap [OF assms(2)] by blast
  with assms scan_keyed(2) [of key "replicate (Suc pad) CHR '' ''" "'' kB'' @ [CHR 0x0A]" "[FSpace, FLit CHR ''k'', FLit CHR ''B'']" n]
  show ?thesis by (simp add: scan_kb_def is_space_def is_digit_def to_ll_small del: replicate.simps)
qed

lemma meminfo_loop_skip:
  assumes "list_all (\<lambda>l. \<not> mem_line l) pre"
  shows "meminfo_loop (map (\<lambda>l. l @ [CHR 0x0A]) pre @ ls) c = meminfo_loop ls c"
proof -
  have "\<not> has_prefix ''MemTotal:'' (l @ [CHR 0x0A]) \<and> \<not> has_prefix ''MemFree:'' (l @ [CHR 0x0A]) \<and> \<not> has_prefix ''Cached:'' (l @ [CHR 0x0A])"
    if "\<not> mem_line l" for l
    using that has_prefix_nl by (auto simp: mem_line_def)
  with assms show ?thesis by (induction pre) (auto split: option.splits)
qed

definition meminfo :: "string list \<Rightarrow> string list \<Rightarrow> string list \<Rightarrow> string list \<Rightarrow> nat \<Rightarrow> nat \<Rightarrow> nat \<Rightarrow> string list" where
  "meminfo l1 l2 l3 l4 t f k =
     l1 @ meminfo_line ''MemTotal:'' t # l2 @ meminfo_line ''MemFree:'' f # l3 @ meminfo_line ''Cached:'' k # l4"

lemma meminfo_reads:
  assumes "list_all (line_ok 255) (meminfo l1 l2 l3 l4 t f k)" "list_all (\<lambda>l. \<not> mem_line l) (l1 @ l2 @ l3 @ l4)"
    and "t < 2 ^ 63" "f < 2 ^ 63" "k < 2 ^ 63"
  shows "mem_reading (MemLinux (Some (text_of (meminfo l1 l2 l3 l4 t f k)))) now x =
     (\<lparr>mem_total = word_of_nat t * 1024, mem_free = (word_of_nat f + word_of_nat k) * 1024,
       mem_used = word_of_nat t * 1024 - (word_of_nat f + word_of_nat k) * 1024,
       mem_cache = word_of_nat k * 1024, mem_systime = now\<rparr>, None)"
proof -
  have sk: "list_all (\<lambda>l. \<not> mem_line l) l1" "list_all (\<lambda>l. \<not> mem_line l) l2" "list_all (\<lambda>l. \<not> mem_line l) l3"
    "list_all (\<lambda>l. \<not> mem_line l) (l4 @ [])" using assms(2) by simp_all
  have v: "scan_kb (meminfo_line ''MemTotal:'' t @ [CHR 0x0A]) = Some (word_of_nat t)"
    "scan_kb (meminfo_line ''MemFree:'' f @ [CHR 0x0A]) = Some (word_of_nat f)"
    "scan_kb (meminfo_line ''Cached:'' k @ [CHR 0x0A]) = Some (word_of_nat k)"
    using assms(3-5) by (intro scan_meminfo_line; simp add: is_space_def)+
  have p: "has_prefix ''MemTotal:'' (meminfo_line ''MemTotal:'' n @ r)" "has_prefix ''MemFree:'' (meminfo_line ''MemFree:'' n @ r)"
    "has_prefix ''Cached:'' (meminfo_line ''Cached:'' n @ r)" "\<not> has_prefix ''MemTotal:'' (meminfo_line ''MemFree:'' n @ r)"
    "\<not> has_prefix ''MemTotal:'' (meminfo_line ''Cached:'' n @ r)" "\<not> has_prefix ''MemFree:'' (meminfo_line ''Cached:'' n @ r)"
    for n r by (simp_all add: meminfo_line_def)
  have e: "meminfo_loop (map (\<lambda>l. l @ [CHR 0x0A]) l4) c = c" for c
    using meminfo_loop_skip [OF sk(4), of "[]"] by simp
  have "meminfo_loop (map (\<lambda>l. l @ [CHR 0x0A]) (meminfo l1 l2 l3 l4 t f k)) c =
      c\<lparr>mem_total := word_of_nat t, mem_free := word_of_nat f, mem_cache := word_of_nat k\<rparr>" for c
    by (simp add: meminfo_def meminfo_loop_skip [OF sk(1)] meminfo_loop_skip [OF sk(2)] meminfo_loop_skip [OF sk(3)] v p e)
  then show ?thesis
    by (simp only: mem_reading_def mem_platform.case mem_linux_def option.case strval_lines [OF assms(1)] Let_def) (cases x, simp)
qed

lemma kib_bytes:
  fixes a b :: nat
  assumes "a * 1024 < 2 ^ 64"
  shows "unat (word_of_nat a * 1024 :: ull) = a * 1024"
proof -
  have "(word_of_nat a * 1024 :: ull) = word_of_nat (a * 1024)" by simp
  moreover have "unat (word_of_nat (a * 1024) :: ull) = a * 1024" using assms by (rule unat_of_nat_size)
  ultimately show ?thesis by simp
qed

text \<open>C19: \<^verbatim>\<open>sg_get_mem_stats\<close> on Linux, memory sufficing, for a \<^verbatim>\<open>/proc/meminfo\<close> in the layout of the kernel that has
  the lines \<^verbatim>\<open>MemTotal:\<close>, \<^verbatim>\<open>MemFree:\<close> and \<^verbatim>\<open>Cached:\<close> once each in this order among any other lines of fewer
  than 255 characters, with free + cached at most the total and a total below 2^64 bytes: the result is in
  bytes, the cache counts as free, and as numbers used + free = total.\<close>

theorem sg_get_mem_stats_linux:
  assumes "heap_ok w" "holder sg_mem_stats_vector_init_info any_item (g SG_MEM_CUR_IDX) w" "sched (wenv w) = []"
    and "list_all (line_ok 255) (meminfo l1 l2 l3 l4 t f k)" "list_all (\<lambda>l. \<not> mem_line l) (l1 @ l2 @ l3 @ l4)"
    and "f + k \<le> t" "t * 1024 < 2 ^ 64"
  shows "\<exists>v g' w' y. sg_get_mem_stats (MemLinux (Some (text_of (meminfo l1 l2 l3 l4 t f k)))) now (Some g) w = Done ((v, 1), Some g', w') \<and>
     heap_ok w' \<and> v = g' SG_MEM_CUR_IDX \<and> v \<noteq> 0 \<and> error (err (wenv w')) = SG_ERROR_NONE \<and>
     holds sg_mem_stats_vector_init_info any_item v y w' \<and>
     unat (mem_total y) = t * 1024 \<and> unat (mem_cache y) = k * 1024 \<and> unat (mem_free y) = (f + k) * 1024 \<and>
     unat (mem_used y) + unat (mem_free y) = unat (mem_total y) \<and> mem_systime y = now"
proof -
  let ?p = "MemLinux (Some (text_of (meminfo l1 l2 l3 l4 t f k)))"
  let ?y = "\<lparr>mem_total = word_of_nat t * 1024, mem_free = (word_of_nat f + word_of_nat k) * 1024,
       mem_used = word_of_nat t * 1024 - (word_of_nat f + word_of_nat k) * 1024,
       mem_cache = word_of_nat k * 1024, mem_systime = now\<rparr>"
  have rd: "mem_reading ?p now x = (?y, None)" for x
    using assms(6,7) by (intro meminfo_reads assms(4,5)) simp_all
  have n: "unat (word_of_nat t * 1024 :: ull) = t * 1024" "unat (word_of_nat k * 1024 :: ull) = k * 1024"
    "unat ((word_of_nat f + word_of_nat k) * 1024 :: ull) = (f + k) * 1024"
    using assms(6,7) kib_bytes [of t] kib_bytes [of k] kib_bytes [of "f + k"] by simp_all
  have le: "(word_of_nat f + word_of_nat k) * 1024 \<le> (word_of_nat t * 1024 :: ull)"
    using assms(6) n by (simp add: word_le_nat_alt)
  have u: "unat (mem_used ?y) + unat (mem_free ?y) = unat (mem_total ?y)"
    using le n assms(6) by (simp add: unat_sub)
  from mem.access_reads [of w g SG_MEM_CUR_IDX ?p now ?y, OF assms(1-3) rd] u n show ?thesis
    unfolding sg_get_mem_stats_def sg_get_mem_stats_int_def by fastforce
qed

lemma sg_get_mem_stats_linux_witness:
  "\<exists>v g' w' y. sg_get_mem_stats (MemLinux (Some (text_of (meminfo [] [meminfo_line ''MemAvailable:'' 6210924, meminfo_line ''Buffers:'' 250156] [] [meminfo_line ''SwapCached:'' 0] 16303428 812040 5031012)))) 60 (Some (\<lambda>_. 0))
       (world_of [] undefined) = Done ((v, 1), Some g', w') \<and>
     holds sg_mem_stats_vector_init_info any_item v y w' \<and> unat (mem_used y) + unat (mem_free y) = unat (mem_total y)"
proof -
  have h: "holder sg_mem_stats_vector_init_info any_item ((\<lambda>_. 0) SG_MEM_CUR_IDX) (world_of [] undefined)"
    "sched (wenv (world_of [] undefined)) = []" by (simp_all add: holder_def world_of_def fresh_env_def)
  have l: "list_all (line_ok 255) (meminfo [] [meminfo_line ''MemAvailable:'' 6210924, meminfo_line ''Buffers:'' 250156] [] [meminfo_line ''SwapCached:'' 0] 16303428 812040 5031012)"
    "list_all (\<lambda>l. \<not> mem_line l) ([] @ [meminfo_line ''MemAvailable:'' 6210924, meminfo_line ''Buffers:'' 250156] @ [] @ [meminfo_line ''SwapCached:'' 0])"
    by (simp_all add: line_ok_def meminfo_def meminfo_line_def dec_string.simps mem_line_def nul_free_def char_of_def list_all_iff)
  from sg_get_mem_stats_linux [OF world_of_ok h l, of 60] show ?thesis by auto
qed

text \<open>A \<^verbatim>\<open>/proc/meminfo\<close> without the three lines is no error: the members keep what the buffer held before, once
  more multiplied by 1024.\<close>

theorem mem_linux_missing_lines:
  assumes "list_all (line_ok 255) ls" "list_all (\<lambda>l. \<not> mem_line l) ls"
  shows "\<exists>y. mem_reading (MemLinux (Some (text_of ls))) now x = (y, None) \<and>
     mem_total y = mem_total x * 1024 \<and> mem_cache y = mem_cache x * 1024 \<and> mem_free y = (mem_free x + mem_cache x) * 1024"
proof -
  have "meminfo_loop (map (\<lambda>l. l @ [CHR 0x0A]) ls) x = x" using meminfo_loop_skip [OF assms(2), of "[]"] by simp
  then show ?thesis
    by (simp only: mem_reading_def mem_platform.case mem_linux_def option.case strval_lines [OF assms(1)] Let_def) simp
qed

lemma mem_linux_missing_lines_witness:
  "\<exists>y. mem_reading (MemLinux (Some (text_of [''HugePages: 0'']))) 60
     \<lparr>mem_total = 4096, mem_free = 0, mem_used = 0, mem_cache = 0, mem_systime = 0\<rparr> = (y, None) \<and> mem_total y = 4194304"
  using mem_linux_missing_lines [of "[''HugePages: 0'']" 60 "\<lparr>mem_total = 4096, mem_free = 0, mem_used = 0, mem_cache = 0, mem_systime = 0\<rparr>"]
  by (auto simp: line_ok_def nul_free_def mem_line_def)

end
