(* ===== verification/Swap.thy ===== *)
theory Swap
  imports Memory
begin

text \<open>
  Swap space (\<^verbatim>\<open>swap_stats.c\<close>): the readers of the platforms and the public function. The readers that
  allocate memory while they read take the environment along.
\<close>

section \<open>Data and readers\<close>

record sg_swap_stats =
  swap_total :: ull
  swap_used :: ull
  swap_free :: ull
  swap_systime :: time_t

definition sg_swap_stats_vector_init_info :: "sg_swap_stats sg_vector_init_info" where
  "sg_swap_stats_vector_init_info = VECTOR_INIT_INFO_EMPTY_INIT 32"

text \<open>HP-UX: the answers of \<^verbatim>\<open>pstat_getswap\<close> in their order; the end of the list stands for the answer 0, which ends the loop.\<close>

record pst_swapinfo =
  sw_enabled :: bool
  sw_block :: bool
  sw_fs :: bool
  pss_nblksavail :: ull
  pss_nfpgs :: ull
  pss_limit :: ull
  pss_allocated :: ull

definition swap_add :: "ull \<Rightarrow> ull \<Rightarrow> sg_swap_stats \<Rightarrow> sg_swap_stats" where
  "swap_add t u c =
     (let c = c\<lparr>swap_total := swap_total c + t * 1024, swap_used := swap_used c + u * 1024\<rparr>
      in c\<lparr>swap_free := swap_total c - swap_used c\<rparr>)"

definition swap_hpux_item :: "pst_swapinfo \<Rightarrow> sg_swap_stats \<Rightarrow> sg_swap_stats" where
  "swap_hpux_item si c =
     (if \<not> sw_enabled si then c
      else
        (let c = (if sw_block si then swap_add (pss_nblksavail si) (pss_nfpgs si) c else c)
         in if sw_fs si then swap_add (pss_limit si) (pss_allocated si) c else c))"

fun swap_hpux :: "pst_swapinfo list option list \<Rightarrow> sg_swap_stats \<Rightarrow> sg_swap_stats reading" where
  "swap_hpux [] c = (c, None)"
| "swap_hpux (None # _) c = (c, Some (SG_ERROR_PSTAT, Some ''pstat_getswap'', FromErrno))"
| "swap_hpux (Some batch # rest) c = (if batch = [] then (c, None) else swap_hpux rest (fold swap_hpux_item batch c))"

definition swap_aix :: "ull \<Rightarrow> (ull \<times> ull) option \<Rightarrow> sg_swap_stats \<Rightarrow> sg_swap_stats reading" where
  "swap_aix ps r c =
     (case r of
        None \<Rightarrow> (c, Some (SG_ERROR_SYSCTLBYNAME, Some ''perfstat_memory_total'', FromErrno))
      | Some (t, f) \<Rightarrow> (c\<lparr>swap_total := t * ps, swap_free := f * ps, swap_used := t * ps - f * ps\<rparr>, None))"

text \<open>
  Solaris with \<^verbatim>\<open>struct swaptable\<close>: a number of rounds in which the table turned out too small, each with
  its two allocations (of given sizes), then the round that ends the loop. The table has as many entries
  as asked for.
\<close>

datatype swap_round =
    SwapCountFails
  | SwapNone
  | SwapListFails "size_t \<times> size_t"
  | SwapList "size_t \<times> size_t" "(ull \<times> ull) list"

definition swap_alloc :: "size_t \<times> size_t \<Rightarrow> env \<Rightarrow> bool \<times> env" where
  "swap_alloc sz e =
     (let (c, e) = sg_realloc_choice (fst sz) e in
      if c = AFail then (False, e)
      else let (c, e) = sg_realloc_choice (snd sz) e in (c \<noteq> AFail, e))"

definition swap_final_round :: "ull \<Rightarrow> swap_round \<Rightarrow> sg_swap_stats \<Rightarrow> env \<Rightarrow> (sg_error \<times> sg_swap_stats \<times> env) outcome" where
  "swap_final_round ps r c e =
     (case r of
        SwapCountFails \<Rightarrow> finish_reading (c, Some (SG_ERROR_SWAPCTL, None, FromErrno)) e
      | SwapNone \<Rightarrow> finish_reading (c, None) e
      | SwapListFails sz \<Rightarrow>
          (case swap_alloc sz e of
             (False, e) \<Rightarrow> Done (error (err e), c, e)
           | (True, e) \<Rightarrow> finish_reading (c, Some (SG_ERROR_SWAPCTL, None, FromErrno)) e)
      | SwapList sz es \<Rightarrow>
          (case swap_alloc sz e of
             (False, e) \<Rightarrow> Done (error (err e), c, e)
           | (True, e) \<Rightarrow>
               let c = fold (\<lambda>(pages, free) c. c\<lparr>swap_total := pages, swap_free := free\<rparr>) es c;
                   c = c\<lparr>swap_total := swap_total c * ps, swap_free := swap_free c * ps\<rparr>
               in finish_reading (c\<lparr>swap_used := swap_total c - swap_free c\<rparr>, None) e))"

fun swap_table :: "(size_t \<times> size_t) list \<Rightarrow> ull \<Rightarrow> swap_round \<Rightarrow> sg_swap_stats \<Rightarrow> env \<Rightarrow> (sg_error \<times> sg_swap_stats \<times> env) outcome" where
  "swap_table [] ps r c e = swap_final_round ps r c e"
| "swap_table (sz # szs) ps r c e =
     (case swap_alloc sz e of
        (False, e) \<Rightarrow> Done (error (err e), c, e)
      | (True, e) \<Rightarrow> swap_table szs ps r c e)"

definition swap_anon :: "ull \<Rightarrow> (ull \<times> ull) option \<Rightarrow> sg_swap_stats \<Rightarrow> sg_swap_stats reading" where
  "swap_anon ps r c =
     (case r of
        None \<Rightarrow> (c, Some (SG_ERROR_SWAPCTL, None, FromErrno))
      | Some (mx, resv) \<Rightarrow> (c\<lparr>swap_total := mx * ps, swap_used := resv * ps, swap_free := mx * ps - resv * ps\<rparr>, None))"

text \<open>Linux: the first two lines for swap in \<^verbatim>\<open>/proc/meminfo\<close>.\<close>

definition scan_ukb :: "string \<Rightarrow> ull option" where
  "scan_ukb line =
     (case sscanf [FSkipStr, FSpace, FULL, FSpace, FLit CHR ''k'', FLit CHR ''B''] line of VNum v # _ \<Rightarrow> Some v | _ \<Rightarrow> None)"

fun swapinfo_loop :: "string list \<Rightarrow> nat \<Rightarrow> sg_swap_stats \<Rightarrow> nat \<times> sg_swap_stats" where
  "swapinfo_loop [] matches c = (matches, c)"
| "swapinfo_loop (l # ls) matches c =
     (if matches < 2 then
        (case scan_ukb l of
           None \<Rightarrow> swapinfo_loop ls matches c
         | Some v \<Rightarrow>
             if has_prefix ''SwapTotal:'' l then swapinfo_loop ls (Suc matches) (c\<lparr>swap_total := v * 1024\<rparr>)
             else if has_prefix ''SwapFree:'' l then swapinfo_loop ls (Suc matches) (c\<lparr>swap_free := v * 1024\<rparr>)
             else swapinfo_loop ls matches c)
      else (matches, c))"

definition swap_linux :: "string option \<Rightarrow> sg_swap_stats \<Rightarrow> sg_swap_stats reading" where
  "swap_linux pf c =
     (case pf of
        None \<Rightarrow> (c, Some (SG_ERROR_OPEN, Some ''/proc/meminfo'', FromErrno))
      | Some body \<Rightarrow>
          (case swapinfo_loop (map strval (file_lines 255 body)) 0 c of
             (matches, c) \<Rightarrow>
               if matches < 2 then (c, Some (SG_ERROR_PARSE, Some ''/proc/meminfo'', NoErrno))
               else (c\<lparr>swap_used := swap_total c - swap_free c\<rparr>, None)))"

text \<open>
  FreeBSD and DragonFly (with \<^verbatim>\<open>xsw_size\<close> in \<^verbatim>\<open>struct xswdev\<close>): the devices, with whether their version is the
  expected one, asked for one by one until \<^verbatim>\<open>ENOENT\<close> (or another error), or all at once into a buffer.
\<close>

datatype xsw_access =
    XswOneByOne "(bool \<times> ull \<times> ull) list" bool                 \<comment> \<open>devices; does \<^verbatim>\<open>ENOENT\<close> end them?\<close>
  | XswArray "size_t option" "(bool \<times> ull \<times> ull) list option"             \<comment> \<open>the size, where it can be asked for; the devices\<close>

fun xsw_loop :: "(bool \<times> ull \<times> ull) list \<Rightarrow> sg_swap_stats \<Rightarrow> bool \<times> sg_swap_stats" where
  "xsw_loop [] c = (True, c)"
| "xsw_loop ((version_ok, nblks, used) # ds) c =
     (if version_ok then xsw_loop ds (c\<lparr>swap_total := swap_total c + nblks, swap_used := swap_used c + used\<rparr>)
      else (False, c))"

definition xsw_finish :: "ull \<Rightarrow> sg_swap_stats \<Rightarrow> sg_swap_stats" where
  "xsw_finish ps c =
     (let c = c\<lparr>swap_total := swap_total c * ps, swap_used := swap_used c * ps\<rparr>
      in if swap_free c = 0 then c\<lparr>swap_free := swap_total c - swap_used c\<rparr> else c\<lparr>swap_free := swap_free c * ps\<rparr>)"

definition swap_xsw :: "ull \<Rightarrow> string \<Rightarrow> xsw_access \<Rightarrow> sg_swap_stats \<Rightarrow> env \<Rightarrow> (sg_error \<times> sg_swap_stats \<times> env) outcome" where
  "swap_xsw ps nm a c e =
     (let failed = (\<lambda>c e. finish_reading (c, Some (SG_ERROR_SYSCTL, Some nm, FromErrno)) e);
          mismatch = (\<lambda>c e. finish_reading (c, Some (SG_ERROR_XSW_VER_MISMATCH, None, NoErrno)) e)
      in case a of
           XswOneByOne ds ends \<Rightarrow>
             (case xsw_loop ds c of
                (False, c) \<Rightarrow> mismatch c e
              | (True, c) \<Rightarrow> if ends then finish_reading (xsw_finish ps c, None) e else failed c e)
         | XswArray None _ \<Rightarrow> failed c e
         | XswArray (Some sz) ds \<Rightarrow>
             (case sg_realloc_choice sz e of
                (choice, e) \<Rightarrow>
                  if choice = AFail then Done (error (err e), c, e)
                  else
                    (case ds of
                       None \<Rightarrow> failed c e
                     | Some ds \<Rightarrow>
                         (case xsw_loop ds c of
                            (False, c) \<Rightarrow> mismatch c e
                          | (True, c) \<Rightarrow> finish_reading (xsw_finish ps c, None) e))))"

definition swap_usage :: "(ull \<times> ull \<times> ull) option \<Rightarrow> sg_swap_stats \<Rightarrow> sg_swap_stats reading" where
  "swap_usage r c =
     (case r of
        None \<Rightarrow> (c, Some (SG_ERROR_SYSCTL, Some ''CTL_VM.VM_SWAPUSAGE'', FromErrno))
      | Some (t, u, av) \<Rightarrow> (c\<lparr>swap_total := t, swap_used := u, swap_free := av\<rparr>, None))"

definition swap_uvm :: "string \<Rightarrow> uvmexp option \<Rightarrow> sg_swap_stats \<Rightarrow> sg_swap_stats reading" where
  "swap_uvm nm r c =
     (case r of
        None \<Rightarrow> (c, Some (SG_ERROR_SYSCTL, Some nm, FromErrno))
      | Some u \<Rightarrow>
          let c = c\<lparr>swap_total := uvm_pagesize u * uvm_swpages u, swap_used := uvm_pagesize u * uvm_swpginuse u\<rparr>
          in (c\<lparr>swap_free := swap_total c - swap_used c\<rparr>, None))"

definition swap_kvm :: "ull \<Rightarrow> (ull \<times> ull) option option \<Rightarrow> sg_swap_stats \<Rightarrow> sg_swap_stats reading" where
  "swap_kvm ps r c =
     (case r of
        None \<Rightarrow> (c, Some (SG_ERROR_KVM_OPENFILES, None, NoErrno))
      | Some None \<Rightarrow> (c, Some (SG_ERROR_KVM_GETSWAPINFO, None, NoErrno))
      | Some (Some (t, u)) \<Rightarrow> (c\<lparr>swap_total := t * ps, swap_used := u * ps, swap_free := t * ps - u * ps\<rparr>, None))"

definition swap_win32 :: "(ull \<times> ull) option \<Rightarrow> sg_swap_stats \<Rightarrow> sg_swap_stats reading" where
  "swap_win32 r c =
     (case r of
        None \<Rightarrow> (c, Some (SG_ERROR_MEMSTATUS, Some ''GloblaMemoryStatusEx'', FromErrno))
      | Some (t, av) \<Rightarrow> (c\<lparr>swap_total := t, swap_free := av, swap_used := t - av\<rparr>, None))"

datatype swap_platform =
    SwapHpux "pst_swapinfo list option list"
  | SwapAix ull "(ull \<times> ull) option"
  | SwapTable "(size_t \<times> size_t) list" ull swap_round
  | SwapAnon ull "(ull \<times> ull) option"
  | SwapLinux "string option"
  | SwapXsw ull string xsw_access
  | SwapUsage "(ull \<times> ull \<times> ull) option"
  | SwapUvm string "uvmexp option"
  | SwapKvm ull "(ull \<times> ull) option option"
  | SwapWin32 "(ull \<times> ull) option"
  | SwapOther string

definition stamp_swap :: "time_t \<Rightarrow> (sg_error \<times> sg_swap_stats \<times> env) outcome \<Rightarrow> (sg_error \<times> sg_swap_stats \<times> env) outcome" where
  "stamp_swap now r =
     andthen r (\<lambda>(rc, c, e). Done (rc, if rc = SG_ERROR_NONE then c\<lparr>swap_systime := now\<rparr> else c, e))"

definition sg_get_swap_stats_int :: "swap_platform \<Rightarrow> time_t \<Rightarrow> sg_swap_stats easy_int" where
  "sg_get_swap_stats_int p now x e =
     (let c = x\<lparr>swap_total := 0, swap_used := 0, swap_free := 0\<rparr> in
      stamp_swap now
       (case p of
          SwapHpux bs \<Rightarrow> finish_reading (swap_hpux bs c) e
        | SwapAix ps r \<Rightarrow> finish_reading (swap_aix ps r c) e
        | SwapTable szs ps r \<Rightarrow> swap_table szs ps r c e
        | SwapAnon ps r \<Rightarrow> finish_reading (swap_anon ps r c) e
        | SwapLinux pf \<Rightarrow> finish_reading (swap_linux pf c) e
        | SwapXsw ps nm a \<Rightarrow> swap_xsw ps nm a c e
        | SwapUsage r \<Rightarrow> finish_reading (swap_usage r c) e
        | SwapUvm nm r \<Rightarrow> finish_reading (swap_uvm nm r c) e
        | SwapKvm ps r \<Rightarrow> finish_reading (swap_kvm ps r c) e
        | SwapWin32 r \<Rightarrow> finish_reading (swap_win32 r c) e
        | SwapOther os \<Rightarrow> finish_reading (c, Some (SG_ERROR_UNSUPPORTED, Some os, NoErrno)) e))"

definition SG_SWAP_CUR_IDX :: nat where "SG_SWAP_CUR_IDX = 0"

definition sg_get_swap_stats :: "swap_platform \<Rightarrow> time_t \<Rightarrow> sg_swap_stats access" where
  "sg_get_swap_stats p now = EASY_COMP_ACCESS sg_swap_stats_vector_init_info (sg_get_swap_stats_int p now) SG_SWAP_CUR_IDX"

section \<open>The component meets the interface\<close>

text \<open>What every reader owes: it returns, and a code other than success is recorded.\<close>

definition recorded :: "(sg_error \<times> 'a \<times> env) outcome \<Rightarrow> bool" where
  "recorded r \<longleftrightarrow> (\<exists>rc y e. r = Done (rc, y, e) \<and> (rc \<noteq> SG_ERROR_NONE \<longrightarrow> error (err e) = rc))"

lemma recorded_finish [simp]: "recorded (finish_reading r e)"
  using finish_reading_law [of r e] by (auto simp: recorded_def)

lemma recorded_previous [simp]: "recorded (Done (error (err e), c, e))"
  by (simp add: recorded_def)

lemma recorded_swap_table: "recorded (swap_table szs ps r c e)"
  by (induction szs arbitrary: e) (auto simp: swap_final_round_def Let_def split: swap_round.splits prod.splits bool.splits)

lemma recorded_swap_xsw: "recorded (swap_xsw ps nm a c e)"
  by (auto simp: swap_xsw_def Let_def split: xsw_access.splits prod.splits bool.splits option.splits)

lemma recorded_swap: "recorded (sg_get_swap_stats_int p now x e)"
proof -
  have "recorded (stamp_swap now r)" if "recorded r" for r using that by (auto simp: recorded_def stamp_swap_def)
  then show ?thesis
    by (simp add: sg_get_swap_stats_int_def Let_def recorded_swap_table recorded_swap_xsw split: swap_platform.splits)
qed

interpretation swp: easy_source sg_swap_stats_vector_init_info any_item "sg_get_swap_stats_int p now" for p now
proof unfold_locales
  show "\<exists>rc y e'. sg_get_swap_stats_int p now x e = Done (rc, y, e') \<and> any_item y \<and>
      (rc \<noteq> SG_ERROR_NONE \<longrightarrow> error (err e') = rc)" for x e
    using recorded_swap [of p now x e] by (simp add: recorded_def)
qed (auto simp: sg_swap_stats_vector_init_info_def VECTOR_INIT_INFO_EMPTY_INIT_def room_def)

section \<open>Properties\<close>

definition balanced :: "sg_swap_stats \<Rightarrow> bool" where
  "balanced c \<longleftrightarrow> swap_free c = swap_total c - swap_used c"

lemma balanced_swap_add: "balanced (swap_add t u c)"
  by (simp add: balanced_def swap_add_def Let_def)

lemma balanced_hpux_item: "balanced c \<Longrightarrow> balanced (swap_hpux_item si c)"
  by (simp add: swap_hpux_item_def Let_def balanced_swap_add)

lemma balanced_hpux: "balanced c \<Longrightarrow> balanced (fst (swap_hpux bs c))"
proof (induction bs c rule: swap_hpux.induct)
  case (3 batch rest c)
  have "balanced (fold swap_hpux_item batch c)" using "3.prems"
    by (induction batch arbitrary: c) (auto simp: balanced_hpux_item)
  with 3 show ?case by simp
qed auto

lemma xsw_loop_free: "swap_free (snd (xsw_loop ds c)) = swap_free c"
  by (induction ds c rule: xsw_loop.induct) auto

lemma swap_alloc_fails: "swap_alloc sz e = (False, e') \<Longrightarrow> error (err e') = SG_ERROR_MALLOC"
  by (auto simp: swap_alloc_def sg_realloc_choice_def Let_def split: prod.splits if_splits)

lemma balanced_round:
  "balanced c \<Longrightarrow> swap_final_round ps r c e = Done (SG_ERROR_NONE, y, e') \<Longrightarrow> balanced y"
  by (auto simp: swap_final_round_def finish_reading_def balanced_def Let_def dest: swap_alloc_fails
      split: swap_round.splits prod.splits bool.splits)

lemma balanced_table:
  "balanced c \<Longrightarrow> swap_table szs ps r c e = Done (SG_ERROR_NONE, y, e') \<Longrightarrow> balanced y"
  by (induction szs arbitrary: e) (auto dest: swap_alloc_fails balanced_round split: prod.splits bool.splits)

lemma balanced_xsw:
  "swap_free c = 0 \<Longrightarrow> swap_xsw ps nm a c e = Done (SG_ERROR_NONE, y, e') \<Longrightarrow> balanced y"
proof -
  assume z: "swap_free c = 0" and r: "swap_xsw ps nm a c e = Done (SG_ERROR_NONE, y, e')"
  have fin: "xsw_loop ds c = (True, d) \<Longrightarrow> balanced (xsw_finish ps d)" for ds d
    using z xsw_loop_free [of ds c] by (simp add: xsw_finish_def balanced_def Let_def)
  show "balanced y"
  proof (cases a)
    case (XswOneByOne ds ends)
    with r show ?thesis
      by (auto simp: swap_xsw_def Let_def finish_reading_def intro: fin split: prod.splits bool.splits if_splits)
  next
    case (XswArray sz ds)
    with r show ?thesis
      by (cases ds; cases sz) (auto simp: swap_xsw_def Let_def finish_reading_def sg_realloc_choice_def intro: fin
          split: prod.splits bool.splits if_splits)
  qed
qed

lemma finish_None: "finish_reading r e = Done (SG_ERROR_NONE, y, e') \<Longrightarrow> fst r = y"
  by (auto simp: finish_reading_def split: prod.splits option.splits)

lemma linux_codes: "snd (swap_linux pf c) = Some (code, arg, ef) \<Longrightarrow> code \<noteq> SG_ERROR_NONE"
  by (auto simp: swap_linux_def split: option.splits prod.splits if_splits)

text \<open>Whatever the platform, but for the one that reports all three numbers itself, a successful reading of the
  swap space satisfies used + free = total (modulo the width of the counters).\<close>

theorem swap_reading_balanced:
  assumes "sg_get_swap_stats_int p now x e = Done (SG_ERROR_NONE, y, e')" "\<And>r. p \<noteq> SwapUsage r"
  shows "swap_used y + swap_free y = swap_total y \<and> swap_systime y = now"
proof -
  let ?c = "x\<lparr>swap_total := 0, swap_used := 0, swap_free := 0\<rparr>"
  have c: "balanced ?c" by (simp add: balanced_def)
  have st: "\<exists>z. r = Done (SG_ERROR_NONE, z, e') \<and> y = z\<lparr>swap_systime := now\<rparr>"
    if "stamp_swap now r = Done (SG_ERROR_NONE, y, e')" for r
    using that by (auto simp: stamp_swap_def andthen_Done_iff)
  have bal: "swap_used y + swap_free y = swap_total y \<and> swap_systime y = now" if "balanced z" "y = z\<lparr>swap_systime := now\<rparr>" for z
    using that by (simp add: balanced_def)
  have fin: "swap_used y + swap_free y = swap_total y \<and> swap_systime y = now"
    if r: "stamp_swap now (finish_reading r e) = Done (SG_ERROR_NONE, y, e')" and "balanced (fst r)" for r
  proof -
    from st [OF r] obtain z where z: "finish_reading r e = Done (SG_ERROR_NONE, z, e')" "y = z\<lparr>swap_systime := now\<rparr>" by (elim exE conjE)
    from finish_None [OF z(1)] that(2) have "balanced z" by simp
    then show ?thesis using z(2) by (rule bal)
  qed
  show ?thesis
  proof (cases p)
    case (SwapTable szs ps r)
    with assms(1) obtain z where "swap_table szs ps r ?c e = Done (SG_ERROR_NONE, z, e')" "y = z\<lparr>swap_systime := now\<rparr>"
      by (auto simp: sg_get_swap_stats_int_def dest!: st)
    then show ?thesis by (intro bal [of z] balanced_table [OF c])
  next
    case (SwapXsw ps nm a)
    with assms(1) obtain z where z: "swap_xsw ps nm a ?c e = Done (SG_ERROR_NONE, z, e')" "y = z\<lparr>swap_systime := now\<rparr>"
      by (auto simp: sg_get_swap_stats_int_def dest!: st)
    have "balanced z" by (rule balanced_xsw [OF _ z(1)]) simp
    then show ?thesis using z(2) by (rule bal)
  next
    case (SwapHpux bs)
    with assms(1) show ?thesis by (intro fin [of "swap_hpux bs ?c"]) (simp_all add: sg_get_swap_stats_int_def balanced_hpux c)
  next
    case (SwapAix ps r)
    with assms(1) c show ?thesis
      by (intro fin [of "swap_aix ps r ?c"]) (auto simp: sg_get_swap_stats_int_def swap_aix_def balanced_def split: option.splits)
  next
    case (SwapAnon ps r)
    with assms(1) c show ?thesis
      by (intro fin [of "swap_anon ps r ?c"]) (auto simp: sg_get_swap_stats_int_def swap_anon_def balanced_def split: option.splits)
  next
    case (SwapLinux pf)
    have "balanced (fst (swap_linux pf ?c))" if "snd (swap_linux pf ?c) = None"
      using that by (auto simp: swap_linux_def balanced_def split: option.splits prod.splits if_splits)
    moreover have s: "stamp_swap now (finish_reading (swap_linux pf ?c) e) = Done (SG_ERROR_NONE, y, e')"
      using assms(1) SwapLinux by (simp add: sg_get_swap_stats_int_def)
    moreover have "snd (swap_linux pf ?c) = None"
    proof -
      obtain z where "finish_reading (swap_linux pf ?c) e = Done (SG_ERROR_NONE, z, e')" using st [OF s] by (elim exE conjE)
      then show ?thesis using linux_codes [of pf ?c] by (auto simp: finish_reading_def split: prod.splits option.splits)
    qed
    ultimately show ?thesis by (intro fin [OF s]) simp
  next
    case (SwapUvm nm r)
    with assms(1) c show ?thesis
      by (intro fin [of "swap_uvm nm r ?c"]) (auto simp: sg_get_swap_stats_int_def swap_uvm_def balanced_def Let_def split: option.splits)
  next
    case (SwapKvm ps r)
    with assms(1) c show ?thesis
      by (intro fin [of "swap_kvm ps r ?c"]) (auto simp: sg_get_swap_stats_int_def swap_kvm_def balanced_def split: option.splits)
  next
    case (SwapWin32 r)
    with assms(1) c show ?thesis
      by (intro fin [of "swap_win32 r ?c"]) (auto simp: sg_get_swap_stats_int_def swap_win32_def balanced_def split: option.splits)
  next
    case (SwapOther os)
    with assms(1) show ?thesis by (auto simp: sg_get_swap_stats_int_def stamp_swap_def finish_reading_def)
  qed (use assms(2) in blast)
qed

lemma swap_reading_balanced_witness:
  "swap_used \<lparr>swap_total = 40960, swap_used = 8192, swap_free = 32768, swap_systime = 60\<rparr> + 32768 = 40960"
  using swap_reading_balanced [of "SwapAix 4096 (Some (10, 8))" 60 "\<lparr>swap_total = 1, swap_used = 2, swap_free = 3, swap_systime = 5\<rparr>"
      "fresh_env []" "\<lparr>swap_total = 40960, swap_used = 8192, swap_free = 32768, swap_systime = 60\<rparr>" "fresh_env []"]
  by (simp add: sg_get_swap_stats_int_def stamp_swap_def finish_reading_def swap_aix_def)

text \<open>On Solaris with a swap table, the result counts only the last swap area of the table: the loop over the
  entries assigns where it should add.\<close>

theorem swap_table_counts_last:
  assumes "sched e = []"
  shows "\<exists>y e'. sg_get_swap_stats_int (SwapTable [] ps (SwapList sz (es @ [(pages, free)]))) now x e = Done (SG_ERROR_NONE, y, e') \<and>
     swap_total y = pages * ps \<and> swap_free y = free * ps \<and> swap_used y = pages * ps - free * ps"
proof -
  have "\<exists>e'. swap_alloc sz e = (True, e')"
    using assms by (auto simp: swap_alloc_def sg_realloc_choice_def next_choice_def Let_def)
  then show ?thesis
    by (auto simp: sg_get_swap_stats_int_def swap_final_round_def Let_def stamp_swap_def finish_reading_def)
qed

lemma swap_table_counts_last_witness:
  "\<exists>y e'. sg_get_swap_stats_int (SwapTable [] 4096 (SwapList (8194, 64) ([(100, 50)] @ [(10, 10)]))) 60
     \<lparr>swap_total = 1, swap_used = 2, swap_free = 3, swap_systime = 5\<rparr> (fresh_env []) = Done (SG_ERROR_NONE, y, e') \<and> swap_total y = 40960"
  using swap_table_counts_last [of "fresh_env []" 4096 "(8194, 64)" "[(100, 50)]" 10 10 60
      "\<lparr>swap_total = 1, swap_used = 2, swap_free = 3, swap_systime = 5\<rparr>"]
  by (auto simp: fresh_env_def)

text \<open>Swap in \<^verbatim>\<open>/proc/meminfo\<close>.\<close>

definition swap_line :: "string \<Rightarrow> bool" where
  "swap_line l \<longleftrightarrow> has_prefix ''SwapTotal:'' l \<or> has_prefix ''SwapFree:'' l"

lemma scan_ukb_line:
  assumes "key \<noteq> []" "length key < 16" "\<forall>c \<in> set key. \<not> is_space c" "n < 2 ^ 64"
  shows "scan_ukb (meminfo_line key n @ [CHR 0x0A]) = Some (word_of_nat n)"
proof -
  obtain pad where "meminfo_line key n = key @ replicate (Suc pad) CHR '' '' @ dec_string n @ '' kB''"
    using meminfo_line_gap [OF assms(2)] by blast
  with assms scan_keyed(1) [of key "replicate (Suc pad) CHR '' ''" "'' kB'' @ [CHR 0x0A]" "[FSpace, FLit CHR ''k'', FLit CHR ''B'']" n]
  show ?thesis by (simp add: scan_ukb_def is_space_def is_digit_def to_ull_small del: replicate.simps)
qed

lemma swapinfo_loop_skip:
  assumes "list_all (\<lambda>l. \<not> swap_line l) pre"
  shows "swapinfo_loop (map (\<lambda>l. l @ [CHR 0x0A]) pre @ ls) m c = swapinfo_loop ls m c"
proof (cases "m < 2")
  case True
  have "\<not> has_prefix ''SwapTotal:'' (l @ [CHR 0x0A]) \<and> \<not> has_prefix ''SwapFree:'' (l @ [CHR 0x0A])" if "\<not> swap_line l" for l
    using that has_prefix_nl by (auto simp: swap_line_def)
  with assms True show ?thesis by (induction pre) (auto split: option.splits)
next
  case False
  then show ?thesis by (cases "map (\<lambda>l. l @ [CHR 0x0A]) pre @ ls"; cases ls) auto
qed

definition swapinfo :: "string list \<Rightarrow> string list \<Rightarrow> string list \<Rightarrow> nat \<Rightarrow> nat \<Rightarrow> string list" where
  "swapinfo l1 l2 l3 t f = l1 @ meminfo_line ''SwapTotal:'' t # l2 @ meminfo_line ''SwapFree:'' f # l3"

lemma swapinfo_reads:
  assumes "list_all (line_ok 255) (swapinfo l1 l2 l3 t f)" "list_all (\<lambda>l. \<not> swap_line l) (l1 @ l2)" "t < 2 ^ 64" "f < 2 ^ 64"
  shows "sg_get_swap_stats_int (SwapLinux (Some (text_of (swapinfo l1 l2 l3 t f)))) now x e =
     Done (SG_ERROR_NONE, \<lparr>swap_total = word_of_nat t * 1024, swap_used = word_of_nat t * 1024 - word_of_nat f * 1024,
       swap_free = word_of_nat f * 1024, swap_systime = now\<rparr>, e)"
proof -
  have sk: "list_all (\<lambda>l. \<not> swap_line l) l1" "list_all (\<lambda>l. \<not> swap_line l) l2" using assms(2) by simp_all
  have v: "scan_ukb (meminfo_line ''SwapTotal:'' t @ [CHR 0x0A]) = Some (word_of_nat t)"
    "scan_ukb (meminfo_line ''SwapFree:'' f @ [CHR 0x0A]) = Some (word_of_nat f)"
    using assms(3,4) by (intro scan_ukb_line; simp add: is_space_def)+
  have p: "has_prefix ''SwapTotal:'' (meminfo_line ''SwapTotal:'' n @ r)" "has_prefix ''SwapFree:'' (meminfo_line ''SwapFree:'' n @ r)"
    "\<not> has_prefix ''SwapTotal:'' (meminfo_line ''SwapFree:'' n @ r)" for n r by (simp_all add: meminfo_line_def)
  have z: "swapinfo_loop ls (Suc (Suc 0)) c = (2, c)" for ls c by (cases ls) auto
  have "swapinfo_loop (map (\<lambda>l. l @ [CHR 0x0A]) (swapinfo l1 l2 l3 t f)) 0 c =
      (2, c\<lparr>swap_total := word_of_nat t * 1024, swap_free := word_of_nat f * 1024\<rparr>)" for c
    by (simp add: swapinfo_def swapinfo_loop_skip [OF sk(1)] swapinfo_loop_skip [OF sk(2)] v p z)
  then show ?thesis
    by (simp only: sg_get_swap_stats_int_def swap_platform.case swap_linux_def option.case strval_lines [OF assms(1)] Let_def)
      (cases x, simp add: finish_reading_def stamp_swap_def)
qed

text \<open>C20: \<^verbatim>\<open>sg_get_swap_stats\<close> on Linux, memory sufficing, for a \<^verbatim>\<open>/proc/meminfo\<close> in the layout of the kernel that
  has a line \<^verbatim>\<open>SwapTotal:\<close> and later a line \<^verbatim>\<open>SwapFree:\<close>, no other such line up to the latter and only lines of
  fewer than 255 characters, with free at most the total and a total below 2^64 bytes: the result is in
  bytes, and as numbers used = total - free.\<close>

theorem sg_get_swap_stats_linux:
  assumes "heap_ok w" "holder sg_swap_stats_vector_init_info any_item (g SG_SWAP_CUR_IDX) w" "sched (wenv w) = []"
    and "list_all (line_ok 255) (swapinfo l1 l2 l3 t f)" "list_all (\<lambda>l. \<not> swap_line l) (l1 @ l2)"
    and "f \<le> t" "t * 1024 < 2 ^ 64"
  shows "\<exists>v g' w' y. sg_get_swap_stats (SwapLinux (Some (text_of (swapinfo l1 l2 l3 t f)))) now (Some g) w = Done ((v, 1), Some g', w') \<and>
     heap_ok w' \<and> v = g' SG_SWAP_CUR_IDX \<and> v \<noteq> 0 \<and> error (err (wenv w')) = SG_ERROR_NONE \<and>
     holds sg_swap_stats_vector_init_info any_item v y w' \<and>
     unat (swap_total y) = t * 1024 \<and> unat (swap_free y) = f * 1024 \<and> unat (swap_used y) = (t - f) * 1024 \<and> swap_systime y = now"
proof -
  let ?p = "SwapLinux (Some (text_of (swapinfo l1 l2 l3 t f)))"
  let ?y = "\<lparr>swap_total = word_of_nat t * 1024, swap_used = word_of_nat t * 1024 - word_of_nat f * 1024,
       swap_free = word_of_nat f * 1024, swap_systime = now\<rparr> :: sg_swap_stats"
  have rd: "sg_get_swap_stats_int ?p now x e = Done (SG_ERROR_NONE, ?y, e)" for x e
    using assms(6,7) by (intro swapinfo_reads assms(4,5)) simp_all
  have n: "unat (word_of_nat t * 1024 :: ull) = t * 1024" "unat (word_of_nat f * 1024 :: ull) = f * 1024"
    using assms(6,7) kib_bytes [of t] kib_bytes [of f] by simp_all
  have "word_of_nat f * 1024 \<le> (word_of_nat t * 1024 :: ull)" using assms(6) n by (simp add: word_le_nat_alt)
  then have u: "unat (swap_used ?y) = (t - f) * 1024" using n by (simp add: unat_sub diff_mult_distrib)
  from swp.access_gives [of w g SG_SWAP_CUR_IDX ?p now ?y, OF assms(1-3) rd any_item_simp] u n show ?thesis
    unfolding sg_get_swap_stats_def by fastforce
qed

lemma sg_get_swap_stats_linux_witness:
  "\<exists>v g' w' y. sg_get_swap_stats (SwapLinux (Some (text_of (swapinfo [meminfo_line ''SwapCached:'' 0] [] [meminfo_line ''Dirty:'' 124] 2097148 2097140)))) 60 (Some (\<lambda>_. 0))
       (world_of [] undefined) = Done ((v, 1), Some g', w') \<and>
     holds sg_swap_stats_vector_init_info any_item v y w' \<and> unat (swap_used y) = 8192"
proof -
  have h: "holder sg_swap_stats_vector_init_info any_item ((\<lambda>_. 0) SG_SWAP_CUR_IDX) (world_of [] undefined)"
    "sched (wenv (world_of [] undefined)) = []" by (simp_all add: holder_def world_of_def fresh_env_def)
  have l: "list_all (line_ok 255) (swapinfo [meminfo_line ''SwapCached:'' 0] [] [meminfo_line ''Dirty:'' 124] 2097148 2097140)" "list_all (\<lambda>l. \<not> swap_line l) ([meminfo_line ''SwapCached:'' 0] @ [])"
    by (simp_all add: line_ok_def swapinfo_def meminfo_line_def dec_string.simps swap_line_def nul_free_def char_of_def list_all_iff)
  from sg_get_swap_stats_linux [OF world_of_ok h l, of 60] show ?thesis by auto
qed

end
