(* ===== verification/Host.thy ===== *)
theory Host
  imports Memory Items C_Search
begin

text \<open>
  The host information (\<^verbatim>\<open>os_info.c\<close>): the item functions, the width of an architecture by its name, the
  readers of the Unix platforms and the public function. The AIX reader is that of a build without
  threads, where no lock guards \<^verbatim>\<open>utmp\<close>.
\<close>

section \<open>Data\<close>

datatype sg_host_state =
    sg_unknown_configuration | sg_physical_host | sg_virtual_machine | sg_paravirtual_machine | sg_hardware_virtualized

record sg_host_info =
  os_name :: cstr
  os_release :: cstr
  os_version :: cstr
  host_platform :: cstr
  hostname :: cstr
  bitwidth :: u32
  host_state :: sg_host_state
  ncpus :: u32
  maxcpus :: u32
  uptime :: time_t
  host_systime :: time_t

definition host_zero :: sg_host_info where
  "host_zero =
     \<lparr>os_name = CNull, os_release = CNull, os_version = CNull, host_platform = CNull, hostname = CNull, bitwidth = 0,
      host_state = sg_unknown_configuration, ncpus = 0, maxcpus = 0, uptime = 0, host_systime = 0\<rparr>"

definition sg_os_stats_item_init :: "sg_host_info \<Rightarrow> sg_host_info" where
  "sg_os_stats_item_init d = host_zero"

definition sg_os_stats_item_destroy :: "sg_host_info \<Rightarrow> sg_host_info outcome" where
  "sg_os_stats_item_destroy d =
     andthen (c_free (os_name d)) (\<lambda>_. andthen (c_free (os_release d)) (\<lambda>_. andthen (c_free (os_version d)) (\<lambda>_.
     andthen (c_free (host_platform d)) (\<lambda>_. andthen (c_free (hostname d)) (\<lambda>_. Done host_zero)))))"

definition sg_os_stats_vector_init_info :: "sg_host_info sg_vector_init_info" where
  "sg_os_stats_vector_init_info =
     \<lparr>item_size = 72, init_fn = Fn ''sg_os_stats_item_init'' sg_os_stats_item_init, copy_fn = NullFn, compute_diff_fn = NullFn,
      compare_fn = NullFn, destroy_fn = Fn ''sg_os_stats_item_destroy'' sg_os_stats_item_destroy\<rparr>"

section \<open>Architectures\<close>

definition isa32_solaris :: "string list" where "isa32_solaris = [''i386'', ''sparc'']"
definition isa64_solaris :: "string list" where "isa64_solaris = [''amd64'', ''sparcv9'']"

definition isa32_bsd :: "string list" where
  "isa32_bsd = [''arm'', ''armeb'', ''hppa'', ''i386'', ''m68000'', ''m68k'', ''mips'', ''powerpc'', ''sh3el'', ''sh3eb'', ''sparc'', ''vax'']"

definition isa64_bsd :: "string list" where
  "isa64_bsd = [''alpha'', ''amd64'', ''hppa64'', ''ia64'', ''mips64'', ''mips64el'', ''sparc64'', ''x86_64'']"

text \<open>The names are compared up to the length of the shorter one.\<close>

definition cmp_arch_name :: "string \<Rightarrow> string \<Rightarrow> int" where
  "cmp_arch_name a b = (let len = min (length a) (length b) in strcmp (take len a) (take len b))"

definition get_bitwidth_by_arch_name :: "string list \<Rightarrow> string list \<Rightarrow> string \<Rightarrow> nat" where
  "get_bitwidth_by_arch_name isa32 isa64 arch_name =
     (if bsearch cmp_arch_name arch_name isa64 \<noteq> None then 64
      else if bsearch cmp_arch_name arch_name isa32 \<noteq> None then 32 else 0)"

section \<open>The readers\<close>

record utsname =
  sysname :: string
  release :: string
  version :: string
  machine :: string
  nodename :: string

text \<open>\<^verbatim>\<open>if(SG_ERROR_NONE != sg_update_string(&host_info_buf->field, s)) RETURN_FROM_PREVIOUS_ERROR(...)\<close>, continued by \<open>k\<close>.\<close>

definition host_update ::
  "(sg_host_info \<Rightarrow> cstr) \<Rightarrow> (cstr \<Rightarrow> sg_host_info \<Rightarrow> sg_host_info) \<Rightarrow> string \<Rightarrow>
     (sg_host_info \<Rightarrow> env \<Rightarrow> (sg_error \<times> sg_host_info \<times> env) outcome) \<Rightarrow> sg_host_info \<Rightarrow> env \<Rightarrow> (sg_error \<times> sg_host_info \<times> env) outcome" where
  "host_update get put s k x e =
     andthen (sg_update_string (get x) (CStr (s @ [NUL])) e) (\<lambda>(rc, p, e).
       let x = put p x in
       if rc \<noteq> SG_ERROR_NONE then Done (sg_get_error (Some (err e)), x, e) else k x e)"

definition host_uname ::
  "utsname \<Rightarrow> (sg_host_info \<Rightarrow> env \<Rightarrow> (sg_error \<times> sg_host_info \<times> env) outcome) \<Rightarrow> sg_host_info \<Rightarrow> env \<Rightarrow>
     (sg_error \<times> sg_host_info \<times> env) outcome" where
  "host_uname os k =
     host_update os_name (\<lambda>p. os_name_update (\<lambda>_. p)) (sysname os)
      (host_update os_release (\<lambda>p. os_release_update (\<lambda>_. p)) (release os)
        (host_update os_version (\<lambda>p. os_version_update (\<lambda>_. p)) (version os)
          (host_update host_platform (\<lambda>p. host_platform_update (\<lambda>_. p)) (machine os)
            (host_update hostname (\<lambda>p. hostname_update (\<lambda>_. p)) (nodename os) k))))"

datatype sysinfo_rounds = SysinfoFails | SysinfoGives string

datatype host_os =
    HostHpux "time_t option" "(u32 \<times> u32) option" u32
      \<comment> \<open>boot time; processors now and at most; kernel bits\<close>
  | HostSolaris "u32 kstat_named" u32 u32 "size_t list" sysinfo_rounds
      \<comment> \<open>boot time; processors online and configured; sizes asked for before the buffer sufficed\<close>
  | HostLinux "string option" u32 u32 bool u32
      \<comment> \<open>\<^verbatim>\<open>/proc/uptime\<close>; processors; is a \<^verbatim>\<open>vsyscall\<close> file there; \<^verbatim>\<open>_SC_LONG_BIT\<close>\<close>
  | HostCygwin "string option"
  | HostBsd "time_t option" "u32 option" "string option option" "string option option" "u32 option option"
      \<comment> \<open>boot time; \<^verbatim>\<open>HW_NCPU\<close>; where they exist \<^verbatim>\<open>HW_MACHINE_ARCH\<close>, \<^verbatim>\<open>HW_MACHINE\<close> and \<^verbatim>\<open>HW_NCPUONLINE\<close>\<close>
  | HostAix "(string \<times> u32 \<times> u32) option" u32 bool "(bool \<times> time_t) list"
      \<comment> \<open>description and processors; kernel bits; is there an LPAR; the entries of \<^verbatim>\<open>utmp\<close>\<close>
  | HostOther string

definition host_hpux ::
  "time_t \<Rightarrow> time_t option \<Rightarrow> (u32 \<times> u32) option \<Rightarrow> u32 \<Rightarrow> sg_host_info \<Rightarrow> sg_host_info reading" where
  "host_hpux now stat dyn bits x =
     (case stat of
        None \<Rightarrow> (x, Some (SG_ERROR_PSTAT, Some ''pstat_static'', FromErrno))
      | Some boot \<Rightarrow>
          (case dyn of
             None \<Rightarrow> (x, Some (SG_ERROR_PSTAT, Some ''pstat_dynamic'', FromErrno))
           | Some (n, m) \<Rightarrow> (x\<lparr>uptime := now - boot, ncpus := n, maxcpus := m, bitwidth := bits\<rparr>, None)))"

text \<open>Solaris: the buffer for \<^verbatim>\<open>sysinfo\<close> grows until it suffices.\<close>

fun sysinfo_again ::
  "size_t list \<Rightarrow> sysinfo_rounds \<Rightarrow> sg_host_info \<Rightarrow> env \<Rightarrow> (sg_error \<times> sg_host_info \<times> env) outcome" where
  "sysinfo_again [] r x e =
     (case r of
        SysinfoFails \<Rightarrow> finish_reading (x, Some (SG_ERROR_SYSINFO, Some ''SYSINFO_CMD'', FromErrno)) e
      | SysinfoGives arch \<Rightarrow>
          finish_reading
            (x\<lparr>bitwidth := word_of_nat (get_bitwidth_by_arch_name isa32_solaris isa64_solaris arch),
               host_state := sg_unknown_configuration\<rparr>, None) e)"
| "sysinfo_again (sz # szs) r x e =
     (case sg_realloc_choice sz e of
        (c, e) \<Rightarrow> if c = AFail then Done (error (err e), x, e) else sysinfo_again szs r x e)"

definition host_solaris ::
  "time_t \<Rightarrow> u32 kstat_named \<Rightarrow> u32 \<Rightarrow> u32 \<Rightarrow> size_t list \<Rightarrow> sysinfo_rounds \<Rightarrow> sg_host_info \<Rightarrow> env \<Rightarrow>
     (sg_error \<times> sg_host_info \<times> env) outcome" where
  "host_solaris now k n m szs r x e =
     (case k of
        KstatOpenFails \<Rightarrow> finish_reading (x, Some (SG_ERROR_KSTAT_OPEN, None, NoErrno)) e
      | KstatLookupFails \<Rightarrow> finish_reading (x, Some (SG_ERROR_KSTAT_LOOKUP, Some ''unix,-1,system_misc'', NoErrno)) e
      | KstatReadFails \<Rightarrow> finish_reading (x, Some (SG_ERROR_KSTAT_READ, None, NoErrno)) e
      | KstatNamed kn \<Rightarrow>
          (case kn ''boot_time'' of
             None \<Rightarrow> finish_reading (x, Some (SG_ERROR_KSTAT_DATA_LOOKUP, Some ''boot_time'', NoErrno)) e
           | Some boot \<Rightarrow> sysinfo_again (32 # szs) r (x\<lparr>uptime := now - ucast boot, ncpus := n, maxcpus := m\<rparr>) e))"

definition scan_uptime :: "string \<Rightarrow> time_t option" where
  "scan_uptime body = (case sscanf [FLL, FSpace, FSkipInt] body of VNum v # _ \<Rightarrow> Some v | _ \<Rightarrow> None)"

definition host_linux :: "string option \<Rightarrow> (sg_host_info \<Rightarrow> sg_host_info) \<Rightarrow> sg_host_info \<Rightarrow> sg_host_info reading" where
  "host_linux pf fin x =
     (case pf of
        None \<Rightarrow> (x, Some (SG_ERROR_OPEN, Some ''/proc/uptime'', FromErrno))
      | Some body \<Rightarrow>
          (case scan_uptime body of
             None \<Rightarrow> (x, Some (SG_ERROR_PARSE, None, NoErrno))
           | Some t \<Rightarrow> (fin (x\<lparr>uptime := t\<rparr>), None)))"

text \<open>The BSDs: an architecture that cannot be asked for records an error but does not end the reading.\<close>

definition host_bsd_width :: "string option option \<Rightarrow> string option option \<Rightarrow> sg_host_info \<Rightarrow> env \<Rightarrow> sg_host_info \<times> env" where
  "host_bsd_width arch mach x e =
     (let width = (\<lambda>nm. x\<lparr>bitwidth := word_of_nat (get_bitwidth_by_arch_name isa32_bsd isa64_bsd nm)\<rparr>);
          failed = (\<lambda>arg. (x, SET_ERROR_WITH_ERRNO SG_ERROR_SYSCTL (Some arg) e))
      in case arch of
           Some (Some nm) \<Rightarrow> (width nm, e)
         | _ \<Rightarrow>
             (case mach of
                Some (Some nm) \<Rightarrow> (width nm, e)
              | Some None \<Rightarrow> failed ''CTL_HW.HW_MACHINE''
              | None \<Rightarrow> if arch = None then (x, e) else failed ''CTL_HW.HW_MACHINE_ARCH''))"

definition host_bsd ::
  "time_t \<Rightarrow> time_t option \<Rightarrow> u32 option \<Rightarrow> string option option \<Rightarrow> string option option \<Rightarrow> u32 option option \<Rightarrow>
     sg_host_info \<Rightarrow> env \<Rightarrow> (sg_error \<times> sg_host_info \<times> env) outcome" where
  "host_bsd now boot n arch mach online x e =
     (case boot of
        None \<Rightarrow> finish_reading (x, Some (SG_ERROR_SYSCTL, Some ''CTL_KERN.KERN_BOOTTIME'', FromErrno)) e
      | Some b \<Rightarrow>
          let x = x\<lparr>uptime := now - b\<rparr> in
          (case n of
             None \<Rightarrow> finish_reading (x, Some (SG_ERROR_SYSCTL, Some ''CTL_HW.HW_NCPU'', FromErrno)) e
           | Some n \<Rightarrow>
               (case host_bsd_width arch mach x e of
                  (x, e) \<Rightarrow>
                    let x = x\<lparr>host_state := sg_unknown_configuration, maxcpus := n\<rparr> in
                    (case online of
                       None \<Rightarrow> finish_reading (x\<lparr>ncpus := n\<rparr>, None) e
                     | Some None \<Rightarrow> finish_reading (x, Some (SG_ERROR_SYSCTL, Some ''CTL_HW.HW_NCPUONLINE'', FromErrno)) e
                     | Some (Some k) \<Rightarrow> finish_reading (x\<lparr>ncpus := k\<rparr>, None) e))))"

fun boot_entry :: "(bool \<times> time_t) list \<Rightarrow> time_t option" where
  "boot_entry [] = None"
| "boot_entry ((is_boot, t) # es) = (if is_boot then Some t else boot_entry es)"

definition host_aix ::
  "time_t \<Rightarrow> (string \<times> u32 \<times> u32) option \<Rightarrow> u32 \<Rightarrow> bool \<Rightarrow> (bool \<times> time_t) list \<Rightarrow> sg_host_info \<Rightarrow> env \<Rightarrow>
     (sg_error \<times> sg_host_info \<times> env) outcome" where
  "host_aix now r bits lpar es x e =
     (case r of
        None \<Rightarrow> finish_reading (x, Some (SG_ERROR_SYSCTL, Some ''perfstat_cpu_total'', FromErrno)) e
      | Some (descr, n, m) \<Rightarrow>
          host_update host_platform (\<lambda>p. host_platform_update (\<lambda>_. p)) descr
            (\<lambda>x e.
               let x = x\<lparr>ncpus := n, maxcpus := m, bitwidth := bits,
                         host_state := (if lpar then sg_hardware_virtualized else sg_physical_host)\<rparr>
               in finish_reading (case boot_entry es of None \<Rightarrow> x | Some t \<Rightarrow> x\<lparr>uptime := now - t\<rparr>, None) e) x e)"

definition stamp_host :: "time_t \<Rightarrow> (sg_error \<times> sg_host_info \<times> env) outcome \<Rightarrow> (sg_error \<times> sg_host_info \<times> env) outcome" where
  "stamp_host now r =
     andthen r (\<lambda>(rc, c, e). Done (rc, if rc = SG_ERROR_NONE then c\<lparr>host_systime := now\<rparr> else c, e))"

definition sg_get_host_info_int :: "utsname option \<Rightarrow> host_os \<Rightarrow> time_t \<Rightarrow> sg_host_info easy_int" where
  "sg_get_host_info_int un p now x e =
     (let x = x\<lparr>ncpus := 0, maxcpus := 0, bitwidth := 0, host_state := sg_unknown_configuration, uptime := 0, host_systime := 0\<rparr> in
      case un of
        None \<Rightarrow> finish_reading (x, Some (SG_ERROR_UNAME, None, FromErrno)) e
      | Some os \<Rightarrow>
          stamp_host now
           (host_uname os
             (\<lambda>x e.
               case p of
                 HostHpux stat dyn bits \<Rightarrow> finish_reading (host_hpux now stat dyn bits x) e
               | HostSolaris k n m szs r \<Rightarrow> host_solaris now k n m szs r x e
               | HostLinux pf n m vsys bits \<Rightarrow>
                   finish_reading
                     (host_linux pf (\<lambda>x. x\<lparr>ncpus := n, maxcpus := m, bitwidth := (if vsys then 64 else bits),
                                           host_state := sg_unknown_configuration\<rparr>) x) e
               | HostCygwin pf \<Rightarrow> finish_reading (host_linux pf id x) e
               | HostBsd boot n arch mach online \<Rightarrow> host_bsd now boot n arch mach online x e
               | HostAix r bits lpar es \<Rightarrow> host_aix now r bits lpar es x e
               | HostOther os \<Rightarrow> finish_reading (x, Some (SG_ERROR_UNSUPPORTED, Some os, NoErrno)) e) x e))"

definition SG_OS_CUR_IDX :: nat where "SG_OS_CUR_IDX = 0"

definition sg_get_host_info :: "utsname option \<Rightarrow> host_os \<Rightarrow> time_t \<Rightarrow> sg_host_info access" where
  "sg_get_host_info un p now = EASY_COMP_ACCESS sg_os_stats_vector_init_info (sg_get_host_info_int un p now) SG_OS_CUR_IDX"

section \<open>The component meets the interface\<close>

definition host_ok :: "sg_host_info \<Rightarrow> bool" where
  "host_ok x \<longleftrightarrow> cstr_ok (os_name x) \<and> cstr_ok (os_release x) \<and> cstr_ok (os_version x) \<and> cstr_ok (host_platform x) \<and> cstr_ok (hostname x)"

lemma host_ok_numbers [simp]:
  "host_ok (x\<lparr>uptime := t\<rparr>) = host_ok x" "host_ok (x\<lparr>ncpus := n\<rparr>) = host_ok x" "host_ok (x\<lparr>maxcpus := n\<rparr>) = host_ok x"
  "host_ok (x\<lparr>bitwidth := n\<rparr>) = host_ok x" "host_ok (x\<lparr>host_state := st\<rparr>) = host_ok x" "host_ok (x\<lparr>host_systime := t\<rparr>) = host_ok x"
  by (simp_all add: host_ok_def)

text \<open>What a step of the reader owes, and the strings of \<^verbatim>\<open>uname\<close>, which are short.\<close>

definition lawful :: "(sg_host_info \<Rightarrow> env \<Rightarrow> (sg_error \<times> sg_host_info \<times> env) outcome) \<Rightarrow> bool" where
  "lawful f \<longleftrightarrow> (\<forall>x e. host_ok x \<longrightarrow>
     (\<exists>rc y e'. f x e = Done (rc, y, e') \<and> host_ok y \<and> (rc \<noteq> SG_ERROR_NONE \<longrightarrow> error (err e') = rc)))"

definition short :: "string \<Rightarrow> bool" where
  "short s \<longleftrightarrow> nul_free s \<and> length s < 2 ^ 63"

definition uts_ok :: "utsname \<Rightarrow> bool" where
  "uts_ok os \<longleftrightarrow> short (sysname os) \<and> short (release os) \<and> short (version os) \<and> short (machine os) \<and> short (nodename os)"

lemma short_ok: "short s \<Longrightarrow> cstr_ok (CStr (s @ [NUL]))"
  by (simp add: short_def)

lemma short_copy: "short s \<Longrightarrow> cstr_copy (CStr (s @ [NUL])) = CStr (s @ [NUL])"
  by (simp add: short_def cstr_copy_def)

lemma lawful_finish: "(\<And>x. host_ok x \<Longrightarrow> host_ok (fst (r x))) \<Longrightarrow> lawful (\<lambda>x e. finish_reading (r x) e)"
  unfolding lawful_def finish_reading_def
  by (auto split: prod.splits option.splits errno_from.splits) (metis fst_conv)+

lemma lawful_update:
  assumes "lawful k" "short s" "\<And>x p. host_ok x \<Longrightarrow> cstr_ok p \<Longrightarrow> host_ok (put p x)" "\<And>x. host_ok x \<Longrightarrow> cstr_ok (get x)"
  shows "lawful (host_update get put s k)"
  unfolding lawful_def
proof (intro allI impI)
  fix x e assume x: "host_ok x"
  obtain rc p e' where u: "sg_update_string (get x) (CStr (s @ [NUL])) e = Done (rc, p, e')" "cstr_ok p"
      "rc \<noteq> SG_ERROR_NONE \<longrightarrow> error (err e') = rc"
    using sg_update_string_step [OF assms(4) [OF x] short_ok [OF assms(2)], of e] by (auto split: if_splits)
  have "host_ok (put p x)" using assms(3) x u(2) by blast
  with assms(1) u show "\<exists>rc y e'. host_update get put s k x e = Done (rc, y, e') \<and> host_ok y \<and> (rc \<noteq> SG_ERROR_NONE \<longrightarrow> error (err e') = rc)"
    by (cases "rc = SG_ERROR_NONE") (auto simp: host_update_def lawful_def sg_get_error_def Let_def)
qed

lemma update_nofail:
  assumes "short s" "sched e = []" "cstr_ok (get x)"
  shows "host_update get put s k x e = k (put (CStr (s @ [NUL])) x) e"
  using sg_update_string_step [OF assms(3) short_ok [OF assms(1)], of e] assms
  by (auto simp: host_update_def short_copy Let_def)

lemma lawful_uname: "lawful k \<Longrightarrow> uts_ok os \<Longrightarrow> lawful (host_uname os k)"
  unfolding host_uname_def uts_ok_def by (intro lawful_update; simp add: host_ok_def)+

lemma uname_nofail:
  assumes "uts_ok os" "sched e = []" "host_ok x"
  shows "host_uname os k x e =
    k (x\<lparr>os_name := CStr (sysname os @ [NUL]), os_release := CStr (release os @ [NUL]), os_version := CStr (version os @ [NUL]),
         host_platform := CStr (machine os @ [NUL]), hostname := CStr (nodename os @ [NUL])\<rparr>) e"
  using assms by (simp add: host_uname_def uts_ok_def host_ok_def update_nofail)

lemma lawful_sysinfo: "lawful (sysinfo_again szs r)"
proof (induction szs)
  case Nil
  show ?case
    by (cases r) (simp_all add: lawful_def finish_reading_def host_ok_def)
next
  case (Cons sz szs)
  then show ?case by (auto simp: lawful_def split: prod.splits)
qed

definition host_input :: "utsname option \<Rightarrow> host_os \<Rightarrow> bool" where
  "host_input un p \<longleftrightarrow> pred_option uts_ok un \<and>
     (case p of HostAix (Some (d, _)) _ _ _ \<Rightarrow> short d | _ \<Rightarrow> True)"

lemma lawful_platform:
  assumes "case p of HostAix (Some (d, _)) _ _ _ \<Rightarrow> short d | _ \<Rightarrow> True"
  shows "lawful (\<lambda>x e.
               case p of
                 HostHpux stat dyn bits \<Rightarrow> finish_reading (host_hpux now stat dyn bits x) e
               | HostSolaris k n m szs r \<Rightarrow> host_solaris now k n m szs r x e
               | HostLinux pf n m vsys bits \<Rightarrow>
                   finish_reading
                     (host_linux pf (\<lambda>x. x\<lparr>ncpus := n, maxcpus := m, bitwidth := (if vsys then 64 else bits),
                                           host_state := sg_unknown_configuration\<rparr>) x) e
               | HostCygwin pf \<Rightarrow> finish_reading (host_linux pf id x) e
               | HostBsd boot n arch mach online \<Rightarrow> host_bsd now boot n arch mach online x e
               | HostAix r bits lpar es \<Rightarrow> host_aix now r bits lpar es x e
               | HostOther os \<Rightarrow> finish_reading (x, Some (SG_ERROR_UNSUPPORTED, Some os, NoErrno)) e)"
proof (cases p)
  case (HostHpux stat dyn bits)
  have "lawful (\<lambda>x e. finish_reading (host_hpux now stat dyn bits x) e)"
    by (rule lawful_finish) (auto simp: host_hpux_def host_ok_def split: option.splits)
  with HostHpux show ?thesis by simp
next
  case (HostSolaris k n m szs r)
  have "lawful (host_solaris now k n m szs r)"
    using lawful_sysinfo [of "32 # szs" r]
    by (auto simp: lawful_def host_solaris_def host_ok_def finish_reading_def simp del: sysinfo_again.simps
        split: kstat_named.splits option.splits)
  with HostSolaris show ?thesis by simp
next
  case (HostLinux pf n m vsys bits)
  have "lawful (\<lambda>x e. finish_reading (host_linux pf (\<lambda>x. x\<lparr>ncpus := n, maxcpus := m, bitwidth := (if vsys then 64 else bits),
        host_state := sg_unknown_configuration\<rparr>) x) e)"
    by (rule lawful_finish) (auto simp: host_linux_def host_ok_def split: option.splits)
  with HostLinux show ?thesis by simp
next
  case (HostCygwin pf)
  have "lawful (\<lambda>x e. finish_reading (host_linux pf id x) e)"
    by (rule lawful_finish) (auto simp: host_linux_def host_ok_def split: option.splits)
  with HostCygwin show ?thesis by simp
next
  case (HostBsd boot n arch mach online)
  have "host_ok y" if "host_bsd_width arch mach x e = (y, e')" "host_ok x" for x e y e'
    using that by (auto simp: host_bsd_width_def Let_def split: option.splits if_splits)
  then have "lawful (host_bsd now boot n arch mach online)"
    by (auto simp: lawful_def host_bsd_def finish_reading_def Let_def split: option.splits prod.splits)
  with HostBsd show ?thesis by simp
next
  case (HostAix r bits lpar es)
  show ?thesis
  proof (cases r)
    case (Some a)
    then obtain d n m where r: "r = Some (d, n, m)" by (cases a) auto
    have "short d" using assms HostAix r by simp
    moreover have "lawful (\<lambda>x e.
               let x = x\<lparr>ncpus := n, maxcpus := m, bitwidth := bits,
                         host_state := (if lpar then sg_hardware_virtualized else sg_physical_host)\<rparr>
               in finish_reading (case boot_entry es of None \<Rightarrow> x | Some t \<Rightarrow> x\<lparr>uptime := now - t\<rparr>, None) e)"
      unfolding Let_def by (rule lawful_finish) (simp split: option.splits)
    ultimately have "lawful (host_aix now r bits lpar es)" unfolding host_aix_def r option.case prod.case
      by (intro lawful_update; simp add: host_ok_def)
    with HostAix show ?thesis by simp
  qed (simp add: HostAix host_aix_def lawful_finish)
qed (simp add: lawful_finish)

text \<open>The reader as a gathering function, for strings of the system that are short enough.\<close>

lemma host_source:
  assumes "host_input un p"
  shows "easy_source sg_os_stats_vector_init_info host_ok (sg_get_host_info_int un p now)"
proof unfold_locales
  show "room sg_os_stats_vector_init_info 1" "item_size sg_os_stats_vector_init_info \<noteq> 0"
    by (simp_all add: room_def sg_os_stats_vector_init_info_def)
  show "init_fn sg_os_stats_vector_init_info = Fn n f \<Longrightarrow> host_ok (f x)" for n f x
    by (auto simp: sg_os_stats_vector_init_info_def sg_os_stats_item_init_def host_ok_def host_zero_def)
  show "init_fn sg_os_stats_vector_init_info = NullFn \<Longrightarrow> host_ok x" for x
    by (simp add: sg_os_stats_vector_init_info_def)
  show "destroy_fn sg_os_stats_vector_init_info = Fn n g \<Longrightarrow> host_ok x \<Longrightarrow> \<exists>y. g x = Done y" for n g x
    by (auto simp: sg_os_stats_vector_init_info_def sg_os_stats_item_destroy_def host_ok_def c_free_def cstr_ok_def split: cstr.splits)
  fix x e assume x: "host_ok x"
  let ?x = "x\<lparr>ncpus := 0, maxcpus := 0, bitwidth := 0, host_state := sg_unknown_configuration, uptime := 0, host_systime := 0\<rparr>"
  have x': "host_ok ?x" using x by (simp add: host_ok_def)
  show "\<exists>rc y e'. sg_get_host_info_int un p now x e = Done (rc, y, e') \<and> host_ok y \<and> (rc \<noteq> SG_ERROR_NONE \<longrightarrow> error (err e') = rc)"
  proof (cases un)
    case None
    with x' show ?thesis by (auto simp: sg_get_host_info_int_def finish_reading_def Let_def)
  next
    case (Some os)
    have st: "\<exists>rc y e'. stamp_host now r = Done (rc, y, e') \<and> host_ok y \<and> (rc \<noteq> SG_ERROR_NONE \<longrightarrow> error (err e') = rc)"
      if "\<exists>rc y e'. r = Done (rc, y, e') \<and> host_ok y \<and> (rc \<noteq> SG_ERROR_NONE \<longrightarrow> error (err e') = rc)" for r
      using that by (auto simp: stamp_host_def host_ok_def)
    have "uts_ok os" "case p of HostAix (Some (d, _)) _ _ _ \<Rightarrow> short d | _ \<Rightarrow> True" using assms Some by (simp_all add: host_input_def)
    from lawful_uname [OF lawful_platform [OF this(2)] this(1)] x' Some show ?thesis
      unfolding sg_get_host_info_int_def Let_def by (simp add: lawful_def st)
  qed
qed

section \<open>Properties\<close>

lemma scan_uptime_printed:
  "t < 2 ^ 63 \<Longrightarrow> rest = [] \<or> \<not> is_digit (hd rest) \<Longrightarrow> scan_uptime (dec_string t @ rest) = Some (word_of_nat t)"
  using scan_int_dec [of "[]" rest t] by (simp add: scan_uptime_def to_ll_small split: option.splits prod.splits)

text \<open>C22: \<^verbatim>\<open>sg_get_host_info\<close> on Linux, memory sufficing: for a \<^verbatim>\<open>/proc/uptime\<close> as the kernel prints it, the thread's
  item holds copies of the five strings of \<^verbatim>\<open>uname\<close>, the whole seconds of the uptime and the processor
  numbers; whatever the item held before is released and replaced.\<close>

theorem sg_get_host_info_linux:
  assumes "heap_ok w" "holder sg_os_stats_vector_init_info host_ok (g SG_OS_CUR_IDX) w" "sched (wenv w) = []"
    and "uts_ok os" "t < 2 ^ 63" "rest = [] \<or> \<not> is_digit (hd rest)"
  shows "\<exists>v g' w'. sg_get_host_info (Some os) (HostLinux (Some (dec_string t @ rest)) n m vsys bits) now (Some g) w =
       Done ((v, 1), Some g', w') \<and> heap_ok w' \<and> v = g' SG_OS_CUR_IDX \<and> v \<noteq> 0 \<and> error (err (wenv w')) = SG_ERROR_NONE \<and>
     holds sg_os_stats_vector_init_info host_ok v
       \<lparr>os_name = CStr (sysname os @ [NUL]), os_release = CStr (release os @ [NUL]), os_version = CStr (version os @ [NUL]),
        host_platform = CStr (machine os @ [NUL]), hostname = CStr (nodename os @ [NUL]),
        bitwidth = (if vsys then 64 else bits), host_state = sg_unknown_configuration, ncpus = n, maxcpus = m,
        uptime = word_of_nat t, host_systime = now\<rparr> w'"
proof -
  let ?p = "HostLinux (Some (dec_string t @ rest)) n m vsys bits"
  let ?y = "\<lparr>os_name = CStr (sysname os @ [NUL]), os_release = CStr (release os @ [NUL]), os_version = CStr (version os @ [NUL]),
        host_platform = CStr (machine os @ [NUL]), hostname = CStr (nodename os @ [NUL]),
        bitwidth = (if vsys then 64 else bits), host_state = sg_unknown_configuration, ncpus = n, maxcpus = m,
        uptime = word_of_nat t, host_systime = now\<rparr>"
  have "host_input (Some os) ?p" using assms(4) by (simp add: host_input_def)
  note src = host_source [OF this, of now]
  have rd: "sg_get_host_info_int (Some os) ?p now x e = Done (SG_ERROR_NONE, ?y, e)" if "host_ok x" "sched e = []" for x e
    using that assms(4) scan_uptime_printed [OF assms(5,6)]
    by (cases x) (simp add: sg_get_host_info_int_def Let_def uname_nofail host_ok_def host_linux_def finish_reading_def stamp_host_def)
  have y: "host_ok ?y" using assms(4) by (simp add: host_ok_def uts_ok_def short_def)
  show ?thesis unfolding sg_get_host_info_def
    using easy_source.access_exact [of _ _ _ w g SG_OS_CUR_IDX, OF src assms(1-3) rd y] .
qed

lemma sg_get_host_info_linux_witness:
  "\<exists>v g' w'. sg_get_host_info (Some \<lparr>sysname = ''Linux'', release = ''6.1'', version = ''v'', machine = ''x'', nodename = ''h''\<rparr>)
       (HostLinux (Some (dec_string 77 @ ''.50 9'')) 2 4 True 32) 60 (Some (\<lambda>_. 0)) (world_of [] host_zero) =
     Done ((v, 1), Some g', w') \<and>
     holds sg_os_stats_vector_init_info host_ok v
       \<lparr>os_name = CStr (''Linux'' @ [NUL]), os_release = CStr (''6.1'' @ [NUL]), os_version = CStr (''v'' @ [NUL]),
        host_platform = CStr (''x'' @ [NUL]), hostname = CStr (''h'' @ [NUL]), bitwidth = 64,
        host_state = sg_unknown_configuration, ncpus = 2, maxcpus = 4, uptime = 77, host_systime = 60\<rparr> w'"
proof -
  let ?os = "\<lparr>sysname = ''Linux'', release = ''6.1'', version = ''v'', machine = ''x'', nodename = ''h''\<rparr>"
  have h: "holder sg_os_stats_vector_init_info host_ok ((\<lambda>_. 0) SG_OS_CUR_IDX) (world_of [] host_zero)"
    "sched (wenv (world_of [] host_zero)) = []" by (simp_all add: holder_def world_of_def fresh_env_def)
  have os: "uts_ok ?os" by (simp add: uts_ok_def short_def nul_free_def)
  show ?thesis
    using sg_get_host_info_linux [OF world_of_ok h os, of 77 "''.50 9''" 2 4 True 32 60] by (auto simp: is_digit_def)
qed

text \<open>The widths the BSD readers report for the architectures of their own tables: every 64-bit name has 64
  bits, but the 32-bit names \<^verbatim>\<open>hppa\<close>, \<^verbatim>\<open>mips\<close> and \<^verbatim>\<open>sparc\<close> are taken for the 64-bit names that start with them,
  and \<^verbatim>\<open>sh3el\<close>, which stands out of order in its table, is not found.\<close>

theorem arch_widths_bsd:
  "map (get_bitwidth_by_arch_name isa32_bsd isa64_bsd) isa64_bsd = replicate 8 64 \<and>
   map (get_bitwidth_by_arch_name isa32_bsd isa64_bsd) [''arm'', ''armeb'', ''i386'', ''m68000'', ''m68k'', ''powerpc'', ''sh3eb'', ''vax''] =
     replicate 8 32 \<and>
   map (get_bitwidth_by_arch_name isa32_bsd isa64_bsd) [''hppa'', ''mips'', ''sparc''] = [64, 64, 64] \<and>
   get_bitwidth_by_arch_name isa32_bsd isa64_bsd ''sh3el'' = 0"
  by code_simp

end
