(* ===== verification/Network_Read.thy ===== *)
theory Network_Read
  imports Snapshots Access_Multi Readings
begin

text \<open>
  The readers of interface traffic (\<^verbatim>\<open>sg_get_network_io_stats_int\<close>) on Linux and Solaris over what the
  system reports, and the public functions the access macros make of the Linux reader.
\<close>

section \<open>The Linux reader\<close>

text \<open>
  The regular expression of \<^verbatim>\<open>sg_network_init_comp\<close>, as \<^verbatim>\<open>regexec\<close> matches it: white space, a name up to the
  first colon (its leading white space belongs to the part before it, as long as one character is left for
  the name), and fourteen numbers separated by white space, of which seven are captured. The result is the
  list of the eight captured parts. Since the runs of digits and of white space alternate, there is only one
  way to match.
\<close>

fun match_nums :: "bool list \<Rightarrow> nat \<Rightarrow> string \<Rightarrow> regmatch list option" where
  "match_nums [] off s = Some []"
| "match_nums (capture # caps) off s =
     (let d = length (takeWhile is_digit s);
          s' = dropWhile is_digit s;
          sp = length (takeWhile is_space s')
      in if d = 0 \<or> caps \<noteq> [] \<and> sp = 0 then None
         else map_option (\<lambda>ms. if capture then \<lparr>rm_so = off, rm_eo = off + d\<rparr> # ms else ms)
                (match_nums caps (off + d + sp) (dropWhile is_space s')))"

definition rx_captures :: "bool list" where
  "rx_captures = [True, True, True, False, False, False, False, False, True, True, True, False, False, True]"

definition network_io_rx :: "string \<Rightarrow> regmatch list option" where
  "network_io_rx line =
     (let pre = takeWhile (\<lambda>c. c \<noteq> CHR '':'') line;
          rest = dropWhile (\<lambda>c. c \<noteq> CHR '':'') line;
          so = min (length (takeWhile is_space pre)) (length pre - 1);
          sp = length (takeWhile is_space (tl rest))
      in if rest = [] \<or> pre = [] then None
         else map_option (\<lambda>ms. \<lparr>rm_so = so, rm_eo = length pre\<rparr> # ms)
                (match_nums rx_captures (length pre + 1 + sp) (dropWhile is_space (tl rest))))"

text \<open>A matched line into an item. A name that cannot be allocated becomes NULL and the row counts all the same.\<close>

definition put_net :: "time_t \<Rightarrow> string \<times> regmatch list \<Rightarrow> sg_network_io_stats \<Rightarrow> env
    \<Rightarrow> (sg_error \<times> sg_network_io_stats \<times> env) outcome" where
  "put_net now r x e =
     (case r of (line, m) \<Rightarrow>
        andthen (c_free (interface_name x)) (\<lambda>_.
        let (nm, e) = sg_get_string_match line (m ! 0) e;
            x = x\<lparr>interface_name := (case nm of None \<Rightarrow> CNull | Some s \<Rightarrow> CStr (s @ [NUL]))\<rparr>
        in
        andthen (sg_get_ll_match line (m ! 1)) (\<lambda>r1.
        andthen (sg_get_ll_match line (m ! 4)) (\<lambda>t1.
        andthen (sg_get_ll_match line (m ! 2)) (\<lambda>ip.
        andthen (sg_get_ll_match line (m ! 5)) (\<lambda>out.
        andthen (sg_get_ll_match line (m ! 3)) (\<lambda>ie.
        andthen (sg_get_ll_match line (m ! 6)) (\<lambda>oe.
        andthen (sg_get_ll_match line (m ! 7)) (\<lambda>col.
          Done (SG_ERROR_NONE,
            x\<lparr>rx := word_of_int r1, tx := word_of_int t1, ipackets := word_of_int ip, opackets := word_of_int out,
              ierrors := word_of_int ie, oerrors := word_of_int oe, collisions := word_of_int col, nio_systime := now\<rparr>,
            e))))))))))"

definition net_rows :: "string \<Rightarrow> (string \<times> regmatch list) list" where
  "net_rows body =
     List.map_filter (\<lambda>l. map_option (Pair l) (network_io_rx l)) (drop 2 (map strval (file_lines 1023 body)))"

definition sg_get_network_io_stats_linux :: "string option \<Rightarrow> time_t \<Rightarrow> sg_network_io_stats multi_int" where
  "sg_get_network_io_stats_linux pf now v w =
     (case pf of
        None \<Rightarrow>
          Done (SG_ERROR_OPEN, v, set_env (SET_ERROR_WITH_ERRNO SG_ERROR_OPEN (Some ''/proc/net/dev'') (wenv w)) w)
      | Some body \<Rightarrow>
          if length (file_lines 1023 body) < 2 then
            Done (SG_ERROR_PARSE, v, set_env (SET_ERROR_WITH_ERRNO SG_ERROR_PARSE (Some ''/proc/net/dev'') (wenv w)) w)
          else fill_rows (sg_network_io_stats_vector_init_info True) (put_net now) (net_rows body) 0 v w)"

definition SG_NETWORK_IO_NOW_IDX :: nat where "SG_NETWORK_IO_NOW_IDX = 0"
definition SG_NETWORK_IO_DIFF_IDX :: nat where "SG_NETWORK_IO_DIFF_IDX = 1"

definition sg_get_network_io_stats :: "string option \<Rightarrow> time_t \<Rightarrow> sg_network_io_stats access" where
  "sg_get_network_io_stats pf now =
     MULTI_COMP_ACCESS (sg_network_io_stats_vector_init_info True) (sg_get_network_io_stats_linux pf now) SG_NETWORK_IO_NOW_IDX"

definition sg_get_network_io_stats_diff :: "string option \<Rightarrow> time_t \<Rightarrow> sg_network_io_stats access" where
  "sg_get_network_io_stats_diff pf now =
     MULTI_COMP_DIFF (sg_network_io_stats_vector_init_info True) (sg_get_network_io_stats pf now)
       SG_NETWORK_IO_DIFF_IDX SG_NETWORK_IO_NOW_IDX"

section \<open>The Solaris reader\<close>

text \<open>
  The kstats of class \<^verbatim>\<open>net\<close> that have a count of received bytes; a counter that is missing keeps what the
  item held. The names of four counters depend on the release.
\<close>

record net_kstat =
  nk_class :: string
  nk_name :: string
  nk_data :: "string \<Rightarrow> ull option"

definition wide_name :: "bool \<Rightarrow> string \<Rightarrow> string" where
  "wide_name sol7 nm = (if sol7 then nm else nm @ ''64'')"

definition net_wanted :: "bool \<Rightarrow> net_kstat \<Rightarrow> bool" where
  "net_wanted sol7 k = (strcmp (nk_class k) ''net'' = 0 \<and> nk_data k (wide_name sol7 ''rbytes'') \<noteq> None)"

definition keep :: "ull option \<Rightarrow> ull \<Rightarrow> ull" where
  "keep v old = (case v of None \<Rightarrow> old | Some v \<Rightarrow> v)"

definition put_net_solaris :: "bool \<Rightarrow> time_t \<Rightarrow> net_kstat \<Rightarrow> sg_network_io_stats \<Rightarrow> env
    \<Rightarrow> (sg_error \<times> sg_network_io_stats \<times> env) outcome" where
  "put_net_solaris sol7 now k x e =
     andthen (sg_update_string (interface_name x) (CStr (nk_name k @ [NUL])) e) (\<lambda>(rc, p, e).
       let x = x\<lparr>interface_name := p\<rparr>; d = nk_data k in
       if rc \<noteq> SG_ERROR_NONE then Done (sg_get_error (Some (err e)), x, e)
       else Done (SG_ERROR_NONE,
              x\<lparr>rx := keep (d (wide_name sol7 ''rbytes'')) (rx x), tx := keep (d (wide_name sol7 ''obytes'')) (tx x),
                ipackets := keep (d (wide_name sol7 ''ipackets'')) (ipackets x),
                opackets := keep (d (wide_name sol7 ''opackets'')) (opackets x),
                ierrors := keep (d ''ierrors'') (ierrors x), oerrors := keep (d ''oerrors'') (oerrors x),
                collisions := keep (d ''collisions'') (collisions x), nio_systime := now\<rparr>, e))"

definition sg_get_network_io_stats_solaris ::
  "bool \<Rightarrow> net_kstat list option \<Rightarrow> time_t \<Rightarrow> sg_network_io_stats multi_int" where
  "sg_get_network_io_stats_solaris sol7 chain now v w =
     (case chain of
        None \<Rightarrow> Done (SG_ERROR_KSTAT_OPEN, v, set_env (SET_ERROR SG_ERROR_KSTAT_OPEN None (wenv w)) w)
      | Some ks \<Rightarrow>
          fill_rows (sg_network_io_stats_vector_init_info sol7) (put_net_solaris sol7 now) (filter (net_wanted sol7) ks) 0 v w)"

section \<open>The Linux reader meets the interfaces\<close>

text \<open>What a matched line reads as; the numbers have to fit a signed 64-bit value.\<close>

definition net_row_ok :: "string \<times> regmatch list \<Rightarrow> bool" where
  "net_row_ok r \<longleftrightarrow> (\<forall>i \<in> {1..7}. \<exists>v. sg_get_ll_match (fst r) (snd r ! i) = Done v) \<and> length (fst r) < 2 ^ 63"

definition ll_of :: "string \<times> regmatch list \<Rightarrow> nat \<Rightarrow> ull" where
  "ll_of r i = (case sg_get_ll_match (fst r) (snd r ! i) of Done v \<Rightarrow> word_of_int v | Fault _ \<Rightarrow> 0)"

definition net_of :: "time_t \<Rightarrow> string \<times> regmatch list \<Rightarrow> sg_network_io_stats" where
  "net_of now r =
     \<lparr>interface_name = cstr_copy (CStr (take (rm_eo (snd r ! 0) - rm_so (snd r ! 0)) (drop (rm_so (snd r ! 0)) (fst r)) @ [NUL])),
      tx = ll_of r 4, rx = ll_of r 1, ipackets = ll_of r 2, opackets = ll_of r 5, ierrors = ll_of r 3, oerrors = ll_of r 6,
      collisions = ll_of r 7, nio_systime = now\<rparr>"

lemma c_free_ok: "cstr_ok p \<Longrightarrow> c_free p = Done ()"
  by (cases p) (auto simp: c_free_def)

interpretation nlin: row_items "sg_network_io_stats_vector_init_info True" nio_ok nio_view "put_net now" net_row_ok "net_of now" for now
proof
  fix r x e assume r: "net_row_ok r" and x: "nio_ok x"
  obtain line m where lm: "r = (line, m)" by fastforce
  obtain f where f: "\<forall>i \<in> {1..7}. sg_get_ll_match line (m ! i) = Done (f i)"
    using bchoice [of "{1..7}" "\<lambda>i v. sg_get_ll_match line (m ! i) = Done v"] r lm by (auto simp: net_row_ok_def)
  obtain nm e' where s: "sg_get_string_match line (m ! 0) e = (nm, e')" by fastforce
  have len: "length line < 2 ^ 63" using r lm by (simp add: net_row_ok_def)
  have nm: "sched e = [] \<Longrightarrow> e' = e \<and> nm = Some (take (rm_eo (m ! 0) - rm_so (m ! 0)) (drop (rm_so (m ! 0)) line))"
    "nm = Some t \<Longrightarrow> length t < 2 ^ 63" for t
    using s len by (auto simp: sg_get_string_match_def next_choice_def Let_def split: if_splits prod.splits list.splits)
  show "\<exists>rc y e'. put_net now r x e = Done (rc, y, e') \<and> nio_ok y \<and>
      (sched e = [] \<longrightarrow> rc = SG_ERROR_NONE \<and> e' = e \<and> nio_view y = net_of now r) \<and> (rc \<noteq> SG_ERROR_NONE \<longrightarrow> error (err e') = rc)"
    using x f s nm unfolding lm
    by (auto simp: put_net_def nio_ok_def c_free_ok net_of_def nio_view_def ll_of_def split: option.splits)
qed

text \<open>What the reader reports for a text, when the text can be read.\<close>

definition net_reading :: "string option \<Rightarrow> time_t \<Rightarrow> sg_network_io_stats list option" where
  "net_reading pf now =
     (case pf of None \<Rightarrow> None
      | Some body \<Rightarrow> if length (file_lines 1023 body) < 2 then None else Some (map (net_of now) (net_rows body)))"

definition net_feasible :: "string option \<Rightarrow> bool" where
  "net_feasible pf \<longleftrightarrow> (case pf of None \<Rightarrow> True
     | Some body \<Rightarrow> room (sg_network_io_stats_vector_init_info True) (length (net_rows body) + 2 ^ 33) \<and>
         list_all net_row_ok (net_rows body))"

interpretation nacc: multi_diff "sg_network_io_stats_vector_init_info True" nio_ok nio_view
    "\<lambda>d. interface_name d \<noteq> CNull" interface_name "nio_sub True"
    "sg_get_network_io_stats_linux pf now" "net_reading pf now" "net_feasible pf" True for pf now
proof
  let ?ty = "sg_network_io_stats_vector_init_info True"
  show "room ?ty (16 + 2 ^ 32)" by (simp add: room_def sg_network_io_stats_vector_init_info_def)
  show "interface_name x \<noteq> CNull" if "net_reading pf now = Some vs" "x \<in> set vs" for vs x
    using that by (auto simp: net_reading_def net_of_def split: option.splits if_splits)
  fix w v assume f: "net_feasible pf" and w: "heap_ok w" and v: "vec_at ?ty nio_ok v [] w"
  have v0: "v \<noteq> 0" using vec_at_nonnull [OF v] by simp
  show "\<exists>rc v' w'. sg_get_network_io_stats_linux pf now v w = Done (rc, v', w') \<and> heap_ok w' \<and> replaced v v' w w' \<and>
       (v' \<noteq> 0 \<longrightarrow> (\<exists>xs. vec_at ?ty nio_ok v' xs w' \<and> (roomy ?ty v w \<longrightarrow> roomy ?ty v' w') \<and>
          (rc = SG_ERROR_NONE \<longrightarrow> (\<exists>vs. net_reading pf now = Some vs \<and> length xs = length vs)) \<and>
          (rc = SG_ERROR_NONE \<and> sched (wenv w) = [] \<longrightarrow> net_reading pf now = Some (map nio_view xs)))) \<and>
       (sched (wenv w) = [] \<longrightarrow> (rc = SG_ERROR_NONE \<longleftrightarrow> net_reading pf now \<noteq> None) \<and> sched (wenv w') = []) \<and>
       (if rc = SG_ERROR_NONE then v' \<noteq> 0 else error (err (wenv w')) = rc)"
  proof (cases "net_reading pf now")
    case None
    then show ?thesis
      using v0 v w by (auto simp: sg_get_network_io_stats_linux_def net_reading_def replaced_def vec_at_def roomy_def
          vload_set_env frame_simps split: option.splits if_splits)
  next
    case (Some vs)
    then obtain body where b: "pf = Some body" "\<not> length (file_lines 1023 body) < 2" "vs = map (net_of now) (net_rows body)"
      by (auto simp: net_reading_def split: option.splits if_splits)
    have r: "room ?ty (length (net_rows body) + 2 ^ 33)" "list_all net_row_ok (net_rows body)"
      using f b(1) by (simp_all add: net_feasible_def)
    from nlin.rows_law [OF r w v, of now] Some b v0 show ?thesis
      by (simp add: sg_get_network_io_stats_linux_def)
  qed
qed

section \<open>Lines as the kernel prints them\<close>

lemma takeWhile_digits:
  "rest = [] \<or> \<not> is_digit (hd rest) \<Longrightarrow> takeWhile is_digit (dec_string n @ rest) = dec_string n"
  "rest = [] \<or> \<not> is_digit (hd rest) \<Longrightarrow> dropWhile is_digit (dec_string n @ rest) = rest"
  using dec_string_digits [of n] by (cases rest; simp add: takeWhile_append2 dropWhile_append2)+

text \<open>Numbers behind at least one blank each, the first component being the number of further blanks.\<close>

fun padded :: "(nat \<times> nat) list \<Rightarrow> string" where
  "padded [] = []"
| "padded ((p, n) # ps) = replicate (Suc p) CHR '' '' @ dec_string n @ padded ps"

lemma padded_head: "padded ps @ rest = [] \<or> \<not> is_digit (hd (padded ps @ rest))" if "rest = [] \<or> \<not> is_digit (hd rest)"
  using that by (cases ps) (auto simp: is_digit_def)

lemma padded_spaces:
  "takeWhile is_space (padded ((p, n) # ps) @ rest) = replicate (Suc p) CHR '' ''"
  "dropWhile is_space (padded ((p, n) # ps) @ rest) = dec_string n @ padded ps @ rest"
proof -
  obtain c cs where c: "dec_string n = c # cs" using dec_string_nonempty by (cases "dec_string n") auto
  have n: "\<not> is_space c" using dec_string_digits [of n] c digit_not_space by simp
  have b: "\<forall>x \<in> set (replicate (Suc p) CHR '' ''). is_space x" by (simp add: is_space_def)
  have f: "padded ((p, n) # ps) @ rest = replicate (Suc p) CHR '' '' @ dec_string n @ padded ps @ rest" by simp
  show "takeWhile is_space (padded ((p, n) # ps) @ rest) = replicate (Suc p) CHR '' ''"
    "dropWhile is_space (padded ((p, n) # ps) @ rest) = dec_string n @ padded ps @ rest"
    unfolding f takeWhile_append dropWhile_append using b n c by (simp_all del: replicate.simps)
qed

text \<open>The captured parts of such a list that starts at the given offset.\<close>

fun num_spans :: "bool list \<Rightarrow> nat \<Rightarrow> (nat \<times> nat) list \<Rightarrow> regmatch list" where
  "num_spans (capture # caps) off ((p, n) # ps) =
     (let so = off + Suc p; d = length (dec_string n); ms = num_spans caps (so + d) ps
      in if capture then \<lparr>rm_so = so, rm_eo = so + d\<rparr> # ms else ms)"
| "num_spans _ _ _ = []"

lemma match_printed:
  "length caps = Suc (length ps) \<Longrightarrow> rest = [] \<or> \<not> is_digit (hd rest) \<Longrightarrow>
   match_nums caps (off + Suc p) (dec_string n @ padded ps @ rest) = Some (num_spans caps off ((p, n) # ps))"
proof (induction ps arbitrary: caps off p n)
  case Nil
  then obtain c where "caps = [c]" by (cases caps) auto
  with takeWhile_digits [OF padded_head [OF Nil.prems(2), of "[]"], of n] dec_string_nonempty [of n] show ?case
    by (simp add: Let_def)
next
  case (Cons q ps)
  obtain p' k where q: "q = (p', k)" by fastforce
  obtain c caps' where c: "caps = c # caps'" "length caps' = Suc (length ps)" "caps' \<noteq> []"
    using Cons.prems(1) by (cases caps) (auto, cases "tl caps", auto)
  note td = takeWhile_digits [OF padded_head [OF Cons.prems(2), of "q # ps"], of n]
  have "match_nums caps' (off + Suc p + length (dec_string n) + Suc p') (dec_string k @ padded ps @ rest) =
      Some (num_spans caps' (off + Suc p + length (dec_string n)) ((p', k) # ps))"
    by (rule Cons.IH [OF c(2) Cons.prems(2)])
  then show ?case
    unfolding c(1) match_nums.simps td unfolding q padded_spaces
    using c(3) dec_string_nonempty [of n] padded_spaces [of p' k ps rest] by (simp add: Let_def del: padded.simps)
qed

lemma atoll_digits_dec: "n < 2 ^ 63 \<Longrightarrow> atoll_digits 0 (dec_string n @ rest) = atoll_digits (int n) rest"
proof (induction n arbitrary: rest rule: dec_string.induct)
  case (1 n)
  show ?case
  proof (cases "n < 10")
    case True
    then show ?thesis by (simp add: dec_string.simps [of n] is_digit_def digit_val_def)
  next
    case False
    have "atoll_digits 0 (dec_string (n div 10) @ char_of (48 + n mod 10) # rest) =
        atoll_digits (int (n div 10)) (char_of (48 + n mod 10) # rest)"
      using "1.IH" [of "char_of (48 + n mod 10) # rest"] False "1.prems" by simp
    moreover have "10 * int (n div 10) + int (n mod 10) = int n"
      by (metis mult_div_mod_eq of_nat_add of_nat_mult of_nat_numeral)
    moreover have "n mod 10 \<le> 9" by presburger
    ultimately show ?thesis
      using False "1.prems" by (simp add: dec_string.simps [of n] is_digit_def digit_val_def)
  qed
qed

lemma atoll_dec:
  assumes "n < 2 ^ 63" "rest = [] \<or> \<not> is_digit (hd rest)"
  shows "atoll (dec_string n @ rest) = Done (int n)"
proof -
  have "atoll_digits v rest = Done v" for v using assms(2) by (cases rest) auto
  moreover obtain c cs where c: "dec_string n = c # cs" using dec_string_nonempty by (cases "dec_string n") auto
  moreover have "is_digit c" using dec_string_digits [of n] c by simp
  ultimately show ?thesis
    using atoll_digits_dec [OF assms(1), of rest] digit_not_sign dec_string_space [of n rest] by (simp add: atoll_def)
qed

fun captured :: "bool list \<Rightarrow> nat list \<Rightarrow> nat list" where
  "captured (c # cs) (n # ns) = (if c then n # captured cs ns else captured cs ns)"
| "captured _ _ = []"

lemma num_spans_read:
  "drop off line = padded ps @ rest \<Longrightarrow> length caps = length ps \<Longrightarrow> rest = [] \<or> \<not> is_digit (hd rest) \<Longrightarrow>
   list_all (\<lambda>n. n < 2 ^ 63) (map snd ps) \<Longrightarrow>
   list_all2 (\<lambda>m n. sg_get_ll_match line m = Done (int n)) (num_spans caps off ps) (captured caps (map snd ps))"
proof (induction caps off ps rule: num_spans.induct)
  case (1 capture caps off p n ps)
  note hd = padded_head [OF "1.prems"(3), of ps]
  have so: "drop (off + Suc p) line = dec_string n @ padded ps @ rest"
    using arg_cong [OF "1.prems"(1), of "drop (Suc p)"] by (simp add: add.commute)
  then have here: "sg_get_ll_match line \<lparr>rm_so = off + Suc p, rm_eo = e\<rparr> = Done (int n)" for e
    using "1.prems"(4) atoll_dec [OF _ hd, of n] by (simp add: sg_get_ll_match_def)
  have "drop (off + Suc p + length (dec_string n)) line = padded ps @ rest"
    using arg_cong [OF so, of "drop (length (dec_string n))"] by (simp add: add.commute)
  from "1.IH" [OF refl refl this] "1.prems" here show ?case by (simp add: Let_def)
qed simp_all

text \<open>
  A line as \<^verbatim>\<open>dev_seq_printf_stats\<close> of the kernel prints it: the name right-justified in 6 columns, a colon
  and sixteen counters, each behind a blank and right-justified in the columns of its width.
\<close>

definition net_widths :: "nat list" where
  "net_widths = [7, 7, 4, 4, 4, 5, 10, 9, 8, 7, 4, 4, 4, 5, 7, 10]"

definition net_line :: "string \<Rightarrow> nat list \<Rightarrow> string" where
  "net_line nm ns =
     replicate (6 - length nm) CHR '' '' @ nm @ '':'' @
     concat (map2 (\<lambda>width n. '' '' @ replicate (width - length (dec_string n)) CHR '' '' @ dec_string n) net_widths ns)"

definition net_pads :: "nat list \<Rightarrow> (nat \<times> nat) list" where
  "net_pads ns = map2 (\<lambda>width n. (width - length (dec_string n), n)) net_widths ns"

lemma columns_padded:
  "concat (map2 (\<lambda>width n. '' '' @ replicate (width - length (dec_string n)) CHR '' '' @ dec_string n) ws ns) =
   padded (map2 (\<lambda>width n. (width - length (dec_string n), n)) ws ns)"
  by (induction ws ns rule: list_induct2') simp_all

lemma padded_append: "padded (ps @ qs) = padded ps @ padded qs"
  by (induction ps rule: padded.induct) simp_all

lemma net_line_padded:
  "net_line nm ns = replicate (6 - length nm) CHR '' '' @ nm @ CHR '':'' # padded (take 14 (net_pads ns)) @ padded (drop 14 (net_pads ns))"
  unfolding net_line_def columns_padded padded_append [symmetric] append_take_drop_id net_pads_def by simp

lemma net_line_matches:
  assumes "nm \<noteq> []" "CHR '':'' \<notin> set nm" "\<not> is_space (hd nm)" "length ps = 14" "rest = [] \<or> \<not> is_digit (hd rest)"
  shows "network_io_rx (replicate b CHR '' '' @ nm @ CHR '':'' # padded ps @ rest) =
     Some (\<lparr>rm_so = b, rm_eo = b + length nm\<rparr> # num_spans rx_captures (b + length nm + 1) ps)"
proof -
  let ?l = "replicate b CHR '' '' @ nm @ CHR '':'' # padded ps @ rest" and ?pre = "replicate b CHR '' '' @ nm"
  have nc: "\<forall>c \<in> set ?pre. c \<noteq> CHR '':''" using assms(2) by auto
  have l: "?l = ?pre @ CHR '':'' # padded ps @ rest" by simp
  have tk: "takeWhile (\<lambda>c. c \<noteq> CHR '':'') ?l = ?pre" "dropWhile (\<lambda>c. c \<noteq> CHR '':'') ?l = CHR '':'' # padded ps @ rest"
    unfolding l takeWhile_append [of _ ?pre] dropWhile_append [of _ ?pre] using nc by simp_all
  have sp: "takeWhile is_space ?pre = replicate b CHR '' ''"
    unfolding takeWhile_append using assms(1,3) by (cases nm) (simp_all add: is_space_def)
  obtain p n ps' where ps: "ps = (p, n) # ps'" using assms(4) by (cases ps) auto
  have "match_nums rx_captures (b + length nm + 1 + Suc p) (dec_string n @ padded ps' @ rest) =
      Some (num_spans rx_captures (b + length nm + 1) ps)"
    unfolding ps using assms(4,5) ps by (intro match_printed) (auto simp: rx_captures_def)
  moreover have "min b (length ?pre - 1) = b" using assms(1) by (cases nm) auto
  moreover have "?pre \<noteq> []" using assms(1) by simp
  ultimately show ?thesis
    unfolding network_io_rx_def tk Let_def sp list.sel unfolding ps padded_spaces by simp
qed

text \<open>The item a printed line becomes.\<close>

definition printed_net :: "time_t \<Rightarrow> string \<Rightarrow> nat list \<Rightarrow> sg_network_io_stats" where
  "printed_net now nm ns =
     \<lparr>interface_name = CStr (nm @ [NUL]), tx = word_of_nat (ns ! 8), rx = word_of_nat (ns ! 0), ipackets = word_of_nat (ns ! 1),
      opackets = word_of_nat (ns ! 9), ierrors = word_of_nat (ns ! 2), oerrors = word_of_nat (ns ! 10),
      collisions = word_of_nat (ns ! 13), nio_systime = now\<rparr>"

lemma fourteen:
  assumes "length ns = 14"
  obtains a b c d e f g h i j k l m n where "ns = [a, b, c, d, e, f, g, h, i, j, k, l, m, n]"
proof -
  have "ns = map ((!) ns) [0..<14]" using assms map_nth [of ns] by simp
  also have "[0..<14] = [0, 1, 2, 3, 4, 5, 6, 7, 8, 9, 10, 11, 12, 13 :: nat]" by code_simp
  finally show thesis using that by simp
qed

lemma padded_row:
  assumes "nm \<noteq> []" "CHR '':'' \<notin> set nm" "\<not> is_space (hd nm)" "nul_free nm" "length ps = 14"
    and "list_all (\<lambda>n. n < 2 ^ 63) (map snd ps)" "rest = [] \<or> \<not> is_digit (hd rest)"
    and l: "l = replicate b CHR '' '' @ nm @ CHR '':'' # padded ps @ rest" "length l < 2 ^ 63"
  shows "\<exists>m. network_io_rx l = Some m \<and> net_row_ok (l, m) \<and> net_of now (l, m) = printed_net now nm (map snd ps)"
proof -
  let ?ms = "num_spans rx_captures (b + length nm + 1) ps" and ?ns = "map snd ps"
  let ?m = "\<lparr>rm_so = b, rm_eo = b + length nm\<rparr> # ?ms"
  have mt: "network_io_rx l = Some ?m" unfolding l(1) by (rule net_line_matches [OF assms(1-3,5,7)])
  have "drop (b + length nm + 1) l = padded ps @ rest" by (simp add: l(1))
  from num_spans_read [OF this _ assms(7,6), of rx_captures] assms(5)
  have rd: "list_all2 (\<lambda>m n. sg_get_ll_match l m = Done (int n)) ?ms (captured rx_captures ?ns)" by (simp add: rx_captures_def)
  obtain a0 a1 a2 a3 a4 a5 a6 a7 a8 a9 a10 a11 a12 a13 where nl: "?ns = [a0, a1, a2, a3, a4, a5, a6, a7, a8, a9, a10, a11, a12, a13]"
    using assms(5) fourteen [of ?ns] by (metis length_map)
  have cap: "captured rx_captures ?ns = [a0, a1, a2, a8, a9, a10, a13]" by (simp add: nl rx_captures_def)
  obtain m1 m2 m3 m4 m5 m6 m7 where ms: "?ms = [m1, m2, m3, m4, m5, m6, m7]"
      "sg_get_ll_match l m1 = Done (int a0)" "sg_get_ll_match l m2 = Done (int a1)" "sg_get_ll_match l m3 = Done (int a2)"
      "sg_get_ll_match l m4 = Done (int a8)" "sg_get_ll_match l m5 = Done (int a9)" "sg_get_ll_match l m6 = Done (int a10)"
      "sg_get_ll_match l m7 = Done (int a13)"
    using rd unfolding cap list_all2_Cons2 by auto
  have iv: "{1..7 :: nat} = {1, 2, 3, 4, 5, 6, 7}" by auto
  have "net_row_ok (l, ?m)" unfolding net_row_ok_def iv ms(1) using ms l(2) by simp
  moreover have "take (length nm) (drop b l) = nm" by (simp add: l(1))
  then have "net_of now (l, ?m) = printed_net now nm ?ns"
    unfolding nl using ms assms(4) by (simp add: net_of_def printed_net_def ll_of_def cstr_copy_def)
  ultimately show ?thesis using mt by blast
qed

text \<open>A whole \<^verbatim>\<open>/proc/net/dev\<close>: two title lines and a line per interface.\<close>

definition net_entry_ok :: "string \<times> nat list \<Rightarrow> bool" where
  "net_entry_ok r \<longleftrightarrow> fst r \<noteq> [] \<and> CHR '':'' \<notin> set (fst r) \<and> \<not> is_space (hd (fst r)) \<and> length (snd r) = 16 \<and>
     list_all (\<lambda>n. n < 2 ^ 63) (snd r)"

definition net_dev :: "string \<Rightarrow> string \<Rightarrow> (string \<times> nat list) list \<Rightarrow> string list" where
  "net_dev h1 h2 es = h1 # h2 # map (\<lambda>r. net_line (fst r) (snd r)) es"

lemma net_pads_snd: "length ns = 16 \<Longrightarrow> map snd (net_pads ns) = ns"
  by (simp add: net_pads_def net_widths_def comp_def split_beta map_snd_zip)

lemma printed_net_take: "length ns = 16 \<Longrightarrow> printed_net now nm (take 14 ns) = printed_net now nm ns"
  by (simp add: printed_net_def)

lemma net_entry_row:
  assumes "net_entry_ok r" "line_ok 1023 (net_line (fst r) (snd r))"
  shows "\<exists>m. network_io_rx (net_line (fst r) (snd r) @ [CHR 0x0A]) = Some m \<and>
     net_row_ok (net_line (fst r) (snd r) @ [CHR 0x0A], m) \<and>
     net_of now (net_line (fst r) (snd r) @ [CHR 0x0A], m) = printed_net now (fst r) (snd r)"
proof -
  let ?ps = "net_pads (snd r)" and ?rest = "padded (drop 14 (net_pads (snd r))) @ [CHR 0x0A]"
  have l: "net_line (fst r) (snd r) @ [CHR 0x0A] =
      replicate (6 - length (fst r)) CHR '' '' @ fst r @ CHR '':'' # padded (take 14 ?ps) @ ?rest"
    by (simp add: net_line_padded)
  have p: "map snd ?ps = snd r" using assms(1) net_pads_snd [of "snd r"] by (simp add: net_entry_ok_def)
  then have n: "map snd (take 14 ?ps) = take 14 (snd r)" by (simp add: take_map [symmetric])
  have "length ?ps = 16" using arg_cong [OF p, of length] assms(1) by (simp add: net_entry_ok_def)
  then have n14: "length (take 14 ?ps) = 14" by simp
  have "nul_free (fst r)" "length (net_line (fst r) (snd r) @ [CHR 0x0A]) < 2 ^ 63"
    using assms(2) by (simp_all add: line_ok_def net_line_def nul_free_def)
  moreover have "?rest = [] \<or> \<not> is_digit (hd ?rest)" by (rule padded_head) (simp add: is_digit_def)
  moreover have "list_all (\<lambda>n. n < 2 ^ 63) (map snd (take 14 ?ps))"
    unfolding n using assms(1) by (auto simp: net_entry_ok_def list_all_iff dest: in_set_takeD)
  ultimately have "\<exists>m. network_io_rx (net_line (fst r) (snd r) @ [CHR 0x0A]) = Some m \<and>
      net_row_ok (net_line (fst r) (snd r) @ [CHR 0x0A], m) \<and>
      net_of now (net_line (fst r) (snd r) @ [CHR 0x0A], m) = printed_net now (fst r) (map snd (take 14 ?ps))"
    using assms(1) n14 by (intro padded_row [OF _ _ _ _ _ _ _ l]) (simp_all add: net_entry_ok_def)
  then show ?thesis unfolding n using assms(1) printed_net_take by (simp add: net_entry_ok_def)
qed

lemma net_dev_rows:
  assumes "list_all (line_ok 1023) (net_dev h1 h2 es)" "list_all net_entry_ok es"
  shows "list_all net_row_ok (net_rows (text_of (net_dev h1 h2 es)))"
    "map (net_of now) (net_rows (text_of (net_dev h1 h2 es))) = map (\<lambda>r. printed_net now (fst r) (snd r)) es"
    "\<not> length (file_lines 1023 (text_of (net_dev h1 h2 es))) < 2"
proof -
  have rows: "net_rows (text_of (net_dev h1 h2 es)) =
      List.map_filter (\<lambda>l. map_option (Pair l) (network_io_rx l)) (map (\<lambda>r. net_line (fst r) (snd r) @ [CHR 0x0A]) es)"
    unfolding net_rows_def strval_lines [OF assms(1)] by (simp add: net_dev_def comp_def)
  have es: "list_all (\<lambda>r. net_entry_ok r \<and> line_ok 1023 (net_line (fst r) (snd r))) es"
    using assms by (simp add: net_dev_def list_all_iff)
  let ?f = "List.map_filter (\<lambda>l. map_option (Pair l) (network_io_rx l))"
  have step: "?f (l # ls) = (l, m) # ?f ls" if "network_io_rx l = Some m" for l ls m using that by (simp add: List.map_filter_simps)
  have "list_all net_row_ok (?f (map (\<lambda>r. net_line (fst r) (snd r) @ [CHR 0x0A]) es)) \<and>
      map (net_of now) (?f (map (\<lambda>r. net_line (fst r) (snd r) @ [CHR 0x0A]) es)) = map (\<lambda>r. printed_net now (fst r) (snd r)) es"
    using es
  proof (induction es)
    case (Cons r es)
    then obtain m where "network_io_rx (net_line (fst r) (snd r) @ [CHR 0x0A]) = Some m"
        "net_row_ok (net_line (fst r) (snd r) @ [CHR 0x0A], m)"
        "net_of now (net_line (fst r) (snd r) @ [CHR 0x0A], m) = printed_net now (fst r) (snd r)"
      using net_entry_row [of r now] by auto
    with Cons show ?case by (simp only: list.map step) simp
  qed (simp add: List.map_filter_simps)
  then show "list_all net_row_ok (net_rows (text_of (net_dev h1 h2 es)))"
    "map (net_of now) (net_rows (text_of (net_dev h1 h2 es))) = map (\<lambda>r. printed_net now (fst r) (snd r)) es"
    unfolding rows by blast+
  show "\<not> length (file_lines 1023 (text_of (net_dev h1 h2 es))) < 2"
    unfolding file_lines_text [OF assms(1)] by (simp add: net_dev_def)
qed

section \<open>Properties\<close>

text \<open>C23: \<^verbatim>\<open>sg_get_network_io_stats_diff\<close> on Linux end to end, memory sufficing, neither snapshot being empty or naming
  an interface twice: for a \<^verbatim>\<open>/proc/net/dev\<close> in the layout of the kernel (two title lines, then for every
  interface a right-justified name and sixteen right-justified counters below 2^63), the thread's snapshot
  becomes the printed counters, in the order of the lines, and the result has for every interface its
  counters minus those of the interface of the same name in the previous snapshot, if that had one, with
  the wrap at 32 bits that \<^verbatim>\<open>transfer_diff\<close> assumes on Linux.\<close>

theorem sg_get_network_io_stats_diff_linux:
  assumes "heap_ok w" "sched (wenv w) = []"
    and now: "vec_at (sg_network_io_stats_vector_init_info True) nio_ok (g SG_NETWORK_IO_NOW_IDX) xs w"
      "roomy (sg_network_io_stats_vector_init_info True) (g SG_NETWORK_IO_NOW_IDX) w" "xs \<noteq> []" "length xs \<le> 2 ^ 31"
      "\<forall>x \<in> set xs. interface_name x \<noteq> CNull" "distinct (map interface_name (map nio_view xs))"
    and df: "g SG_NETWORK_IO_DIFF_IDX = 0 \<or> vec_at (sg_network_io_stats_vector_init_info True) nio_ok (g SG_NETWORK_IO_DIFF_IDX) ds w"
      "g SG_NETWORK_IO_DIFF_IDX \<noteq> g SG_NETWORK_IO_NOW_IDX"
    and dev: "list_all (line_ok 1023) (net_dev h1 h2 es)" "list_all net_entry_ok es" "es \<noteq> []" "distinct (map fst es)" "length es \<le> 2 ^ 31"
  shows "\<exists>p n g' w' cur res. sg_get_network_io_stats_diff (Some (text_of (net_dev h1 h2 es))) t (Some g) w = Done ((p, n), Some g', w') \<and>
     heap_ok w' \<and> p = g' SG_NETWORK_IO_DIFF_IDX \<and> p \<noteq> g' SG_NETWORK_IO_NOW_IDX \<and> error (err (wenv w')) = SG_ERROR_NONE \<and>
     vec_at (sg_network_io_stats_vector_init_info True) nio_ok (g' SG_NETWORK_IO_NOW_IDX) cur w' \<and>
     map nio_view cur = map (\<lambda>r. printed_net t (fst r) (snd r)) es \<and>
     vec_at (sg_network_io_stats_vector_init_info True) nio_ok p res w' \<and> unat n = length res \<and>
     map nio_view res = subtract_matching interface_name (nio_sub True) (map nio_view xs) (map nio_view cur)"
proof -
  let ?ty = "sg_network_io_stats_vector_init_info True" and ?body = "text_of (net_dev h1 h2 es)"
  let ?vs = "map (\<lambda>r. printed_net t (fst r) (snd r)) es"
  note rows = net_dev_rows [OF dev(1,2)]
  have vs: "net_reading (Some ?body) t = Some ?vs" using rows(2) [of t] rows(3) by (simp add: net_reading_def)
  have "length (net_rows ?body) = length es" using arg_cong [OF rows(2) [of t], of length] by simp
  then have fe: "net_feasible (Some ?body)"
    using rows(1) dev(5) by (simp add: net_feasible_def room_def sg_network_io_stats_vector_init_info_def)
  have full: "\<forall>x \<in> set xs. interface_name (nio_view x) \<noteq> CNull" using now(5) by (simp add: nio_view_def)
  have "map interface_name ?vs = map (\<lambda>s. CStr (s @ [NUL])) (map fst es)" by (simp add: printed_net_def)
  moreover have "inj_on (\<lambda>s. CStr (s @ [NUL])) (set (map fst es))" by (simp add: inj_on_def)
  ultimately have dv: "distinct (map interface_name ?vs)" using dev(4) by (simp only: distinct_map simp_thms)
  have ix: "SG_NETWORK_IO_NOW_IDX \<noteq> SG_NETWORK_IO_DIFF_IDX" by (simp add: SG_NETWORK_IO_NOW_IDX_def SG_NETWORK_IO_DIFF_IDX_def)
  have ne: "?vs \<noteq> []" using dev(3) by simp
  obtain p n g' w' cur res where r: "sg_get_network_io_stats_diff (Some ?body) t (Some g) w = Done ((p, n), Some g', w')" "heap_ok w'"
     "p = g' SG_NETWORK_IO_DIFF_IDX" "p \<noteq> g' SG_NETWORK_IO_NOW_IDX" "error (err (wenv w')) = SG_ERROR_NONE"
     "vec_at ?ty nio_ok (g' SG_NETWORK_IO_NOW_IDX) cur w'" "roomy ?ty (g' SG_NETWORK_IO_NOW_IDX) w'"
     "map nio_view cur = ?vs" "vec_at ?ty nio_ok p res w'"
     "map nio_view res = diff_spec interface_name (nio_sub True) (map nio_view xs) ?vs" "unat n = length res"
     "\<forall>u. blocks w' u \<noteq> None \<longrightarrow> u = g' SG_NETWORK_IO_DIFF_IDX \<or> u = g' SG_NETWORK_IO_NOW_IDX \<or> blocks w' u = blocks w u"
    using nacc.diff_ok [OF fe assms(1) now(1-4) df(1) ix df(2) assms(2) full vs ne]
    unfolding sg_get_network_io_stats_diff_def sg_get_network_io_stats_def by (elim exE conjE)
  have "map nio_view res = subtract_matching interface_name (nio_sub True) (map nio_view xs) (map nio_view cur)"
    unfolding r(8,10) subtract_matching_def by (rule diff_spec_distinct [OF now(6) dv])
  with r show ?thesis by blast
qed

definition example_entry :: "string \<times> nat list" where
  "example_entry = (''eth0'', [9, 3, 0, 0, 0, 0, 0, 0, 5, 2, 0, 0, 0, 0, 0, 0])"

lemma net_line_chars:
  assumes "CHR 0x0A \<notin> set nm" "nul_free nm"
  shows "CHR 0x0A \<notin> set (net_line nm ns) \<and> nul_free (net_line nm ns)"
proof -
  have d: "c \<in> set (dec_string n) \<Longrightarrow> c \<noteq> CHR 0x0A \<and> c \<noteq> NUL" for c n
    using dec_string_digits [of n] by (auto simp: list_all_iff is_digit_def)
  with assms show ?thesis by (auto simp: net_line_def nul_free_def list_all_iff)
qed

lemma example_dev:
  "list_all (line_ok 1023) (net_dev ''Inter-|'' '' face |'' [example_entry])" "list_all net_entry_ok [example_entry]"
proof -
  have "CHR 0x0A \<notin> set (net_line ''eth0'' ns) \<and> nul_free (net_line ''eth0'' ns)" for ns
    by (rule net_line_chars) (simp_all add: nul_free_def)
  moreover have "dec_string 9 = ''9''" "dec_string 3 = ''3''" "dec_string 0 = ''0''" "dec_string 5 = ''5''" "dec_string 2 = ''2''"
    by code_simp+
  then have "length (net_line (fst example_entry) (snd example_entry)) < 1023"
    by (simp add: net_line_def net_widths_def example_entry_def)
  ultimately show "list_all (line_ok 1023) (net_dev ''Inter-|'' '' face |'' [example_entry])"
    by (simp add: net_dev_def line_ok_def example_entry_def nul_free_def)
  show "list_all net_entry_ok [example_entry]" by (simp add: net_entry_ok_def example_entry_def is_space_def)
qed

lemma sg_get_network_io_stats_diff_linux_witness:
  "\<exists>p n g' w' cur res. sg_get_network_io_stats_diff (Some (text_of (net_dev ''Inter-|'' '' face |'' [example_entry]))) 60
       (Some (\<lambda>i. if i = 0 then 1 else 0))
       (world_of [block_of (sg_network_io_stats_vector_init_info True) [eth0_stats 100 100 0]] (eth0_stats 0 0 0)) = Done ((p, n), Some g', w') \<and>
     vec_at (sg_network_io_stats_vector_init_info True) nio_ok p res w' \<and> unat n = length res \<and>
     map nio_view res = subtract_matching interface_name (nio_sub True) [nio_view (eth0_stats 100 100 0)] (map nio_view cur) \<and>
     map nio_view cur = [printed_net 60 ''eth0'' [9, 3, 0, 0, 0, 0, 0, 0, 5, 2, 0, 0, 0, 0, 0, 0]]"
proof -
  let ?ty = "sg_network_io_stats_vector_init_info True" and ?g = "\<lambda>i. if i = 0 then 1 else 0 :: nat"
  let ?b = "block_of ?ty [eth0_stats 100 100 0]"
  let ?w = "world_of [?b] (eth0_stats 0 0 0)"
  have isz: "item_size ?ty = 72" by (simp add: sg_network_io_stats_vector_init_info_def)
  have bl: "vec_ok ?ty nio_ok ?b" "contents ?b = [eth0_stats 100 100 0]"
    by (intro block_of_ok; simp add: isz room_def nio_ok_def eth0_stats_def)+
  have g: "?g SG_NETWORK_IO_NOW_IDX = 1" "?g SG_NETWORK_IO_DIFF_IDX = 0"
    by (simp_all add: SG_NETWORK_IO_NOW_IDX_def SG_NETWORK_IO_DIFF_IDX_def)
  have at: "vec_at ?ty nio_ok (?g SG_NETWORK_IO_NOW_IDX) [eth0_stats 100 100 0] ?w"
    unfolding g vec_at_def using bl by (intro exI [of _ ?b]) (simp add: vload_world_of)
  have ry: "roomy ?ty (?g SG_NETWORK_IO_NOW_IDX) ?w"
    unfolding g by (simp add: roomy_def world_of_def room_for_def room_def isz block_of_def)
  have df: "?g SG_NETWORK_IO_DIFF_IDX = 0 \<or> vec_at ?ty nio_ok (?g SG_NETWORK_IO_DIFF_IDX) [] ?w"
    and dn: "?g SG_NETWORK_IO_DIFF_IDX \<noteq> ?g SG_NETWORK_IO_NOW_IDX" unfolding g by simp_all
  have sc: "sched (wenv ?w) = []" by (simp add: world_of_def fresh_env_def)
  have xs: "[eth0_stats 100 100 0] \<noteq> []" "length [eth0_stats 100 100 0] \<le> 2 ^ 31" "\<forall>x \<in> set [eth0_stats 100 100 0]. interface_name x \<noteq> CNull"
      "distinct (map interface_name (map nio_view [eth0_stats 100 100 0]))"
    by (simp_all add: eth0_stats_def)
  have es: "[example_entry] \<noteq> []" "distinct (map fst [example_entry])" "length [example_entry] \<le> 2 ^ 31" by simp_all
  obtain p n g' w' cur res where "sg_get_network_io_stats_diff (Some (text_of (net_dev ''Inter-|'' '' face |'' [example_entry]))) 60 (Some ?g) ?w =
       Done ((p, n), Some g', w')" "map nio_view cur = map (\<lambda>r. printed_net 60 (fst r) (snd r)) [example_entry]"
     "vec_at ?ty nio_ok p res w'" "unat n = length res"
     "map nio_view res = subtract_matching interface_name (nio_sub True) (map nio_view [eth0_stats 100 100 0]) (map nio_view cur)"
    using sg_get_network_io_stats_diff_linux [of ?w ?g "[eth0_stats 100 100 0]" "[]" "''Inter-|''" "'' face |''" "[example_entry]" 60,
        OF world_of_ok sc at ry xs df dn example_dev es]
    by (elim exE conjE)
  then show ?thesis by (intro exI conjI) (simp_all add: example_entry_def)
qed

end
