(* ===== verification/Network_Traffic.thy ===== *)
theory Network_Traffic
  imports Network_Read Access_Sized
begin

text \<open>
  The traffic of the interfaces (\<^verbatim>\<open>sg_get_network_io_stats_int\<close>) on the platforms that hand over numbers instead of text:
  the BSDs and AIX, HP-UX and Windows, over what the system reports.
\<close>

section \<open>Counters of an interface\<close>

record net_counts =
  nc_name :: string
  nc_rx :: ull
  nc_tx :: ull
  nc_ipackets :: ull
  nc_opackets :: ull
  nc_ierrors :: ull
  nc_oerrors :: ull
  nc_collisions :: ull

definition put_counts :: "time_t \<Rightarrow> net_counts \<Rightarrow> sg_network_io_stats \<Rightarrow> env \<Rightarrow> (sg_error \<times> sg_network_io_stats \<times> env) outcome" where
  "put_counts now r x e =
     andthen (sg_update_string (interface_name x) (CStr (nc_name r @ [NUL])) e) (\<lambda>(rc, p, e).
       let x = x\<lparr>interface_name := p\<rparr> in
       if rc \<noteq> SG_ERROR_NONE then Done (sg_get_error (Some (err e)), x, e)
       else Done (SG_ERROR_NONE,
              x\<lparr>rx := nc_rx r, tx := nc_tx r, ipackets := nc_ipackets r, opackets := nc_opackets r, ierrors := nc_ierrors r,
                oerrors := nc_oerrors r, collisions := nc_collisions r, nio_systime := now\<rparr>, e))"

section \<open>The BSDs\<close>

text \<open>
  What \<^verbatim>\<open>getifaddrs\<close> reports: for every address whether it is of the link layer, with the counters that belong to it.
  \<open>wrap32\<close> is as in \<open>transfer_diff\<close>.
\<close>

definition sg_get_network_io_stats_bsd :: "bool \<Rightarrow> (bool \<times> net_counts) list option \<Rightarrow> time_t \<Rightarrow> sg_network_io_stats multi_int" where
  "sg_get_network_io_stats_bsd wrap32 net now v w =
     (case net of
        None \<Rightarrow> Done (SG_ERROR_GETIFADDRS, v, set_env (SET_ERROR_WITH_ERRNO SG_ERROR_GETIFADDRS None (wenv w)) w)
      | Some as \<Rightarrow>
          let links = map snd (filter fst as) in
          sized_rows (sg_network_io_stats_vector_init_info wrap32) (put_counts now) (length links) links v w)"

section \<open>AIX\<close>

text \<open>What \<^verbatim>\<open>perfstat_netinterface\<close> fills into the memory allocated for it; \<open>None\<close> when it fails.\<close>

definition sg_get_network_io_stats_aix :: "net_counts list option \<Rightarrow> time_t \<Rightarrow> sg_network_io_stats multi_int" where
  "sg_get_network_io_stats_aix stats now v w =
     (case next_choice (wenv w) of (c, e) \<Rightarrow>
        if c = AFail then
          Done (SG_ERROR_MALLOC, v, set_env (SET_ERROR SG_ERROR_MALLOC (Some ''sg_get_network_io_stats'') e) w)
        else
          let w = set_env e w in
          case stats of
            None \<Rightarrow>
              Done (SG_ERROR_SYSCTLBYNAME, v,
                set_env (SET_ERROR SG_ERROR_SYSCTLBYNAME (Some ''perfstat_netinterface'') (wenv w)) w)
          | Some rs \<Rightarrow> sized_rows (sg_network_io_stats_vector_init_info False) (put_counts now) (length rs) rs v w)"

section \<open>HP-UX\<close>

text \<open>
  The conversation with \<^verbatim>\<open>/dev/dlpi\<close> about one interface: which of the messages succeed, and the MIB entry. \<open>pa_dot3\<close>
  are the frames with one and with several collisions, on HP-UX 11.
\<close>

record ppa_answer =
  pa_ppa :: nat
  pa_attach_put :: bool
  pa_attach_get :: bool
  pa_stat_put :: bool
  pa_stat_get :: bool
  pa_stat_ack :: bool
  pa_oper :: ull
  pa_in_octets :: ull
  pa_out_octets :: ull
  pa_in_ucast :: ull
  pa_in_nucast :: ull
  pa_out_ucast :: ull
  pa_out_nucast :: ull
  pa_in_errors :: ull
  pa_out_errors :: ull
  pa_dot3 :: "(ull \<times> ull) option"
  pa_detach_put :: bool
  pa_detach_get :: bool

definition ppa_counts :: "ppa_answer \<Rightarrow> net_counts" where
  "ppa_counts a =
     \<lparr>nc_name = ''lan'' @ dec_string (pa_ppa a), nc_rx = pa_in_octets a, nc_tx = pa_out_octets a,
      nc_ipackets = pa_in_ucast a + pa_in_nucast a, nc_opackets = pa_out_ucast a + pa_out_nucast a,
      nc_ierrors = pa_in_errors a, nc_oerrors = pa_out_errors a,
      nc_collisions = (case pa_dot3 a of None \<Rightarrow> 0 | Some (s, m) \<Rightarrow> s + m)\<rparr>"

definition ppa_error :: "sg_error \<Rightarrow> string \<Rightarrow> ppa_answer \<Rightarrow> addr \<Rightarrow> sg_network_io_stats world
    \<Rightarrow> (sg_error \<times> addr \<times> sg_network_io_stats world) outcome" where
  "ppa_error rc what a v w =
     Done (rc, v, set_env (SET_ERROR_WITH_ERRNO rc (Some (what @ '' ppa '' @ dec_string (pa_ppa a))) (wenv w)) w)"

text \<open>An interface that is not in operation is passed over while it is still attached.\<close>

fun hpux_net :: "time_t \<Rightarrow> ppa_answer list \<Rightarrow> nat \<Rightarrow> sg_network_io_stats multi_int" where
  "hpux_net now [] n v w = Done (SG_ERROR_NONE, v, w)"
| "hpux_net now (a # as) n v w =
     (if \<not> pa_attach_put a then ppa_error SG_ERROR_PUTMSG ''DL_ATTACH_REQ'' a v w
      else if \<not> pa_attach_get a then ppa_error SG_ERROR_GETMSG ''DL_ATTACH_REQ'' a v w
      else if \<not> pa_stat_put a then ppa_error SG_ERROR_PUTMSG ''DL_GET_STATISTICS_REQ'' a v w
      else if \<not> pa_stat_get a then ppa_error SG_ERROR_GETMSG ''DL_GET_STATISTICS_REQ'' a v w
      else if \<not> pa_stat_ack a then ppa_error SG_ERROR_PARSE ''DL_GET_STATISTICS_ACK'' a v w
      else if \<not> bit (pa_oper a) 0 then hpux_net now as n v w
      else
        andthen (fill_rows (sg_network_io_stats_vector_init_info False) (put_counts now) [ppa_counts a] n v w) (\<lambda>(rc, v, w).
          if rc \<noteq> SG_ERROR_NONE then Done (rc, v, w)
          else if \<not> pa_detach_put a then ppa_error SG_ERROR_PUTMSG ''DL_DETACH_REQ'' a v w
          else if \<not> pa_detach_get a then ppa_error SG_ERROR_GETMSG ''DL_DETACH_REQ'' a v w
          else hpux_net now as (Suc n) v w))"

text \<open>The three areas are allocated first; \<open>dlpi\<close> is \<open>None\<close> when the device cannot be opened, else its answers.\<close>

record dlpi =
  dl_put :: bool
  dl_get :: bool
  dl_length :: nat
  dl_ppas :: "ppa_answer list"

definition sg_get_network_io_stats_hpux :: "dlpi option \<Rightarrow> time_t \<Rightarrow> sg_network_io_stats multi_int" where
  "sg_get_network_io_stats_hpux dev now v w =
     (let (c1, e) = next_choice (wenv w); (c2, e) = next_choice e; (c3, e) = next_choice e in
      if c1 = AFail \<or> c2 = AFail \<or> c3 = AFail then
        Done (SG_ERROR_MALLOC, v, set_env (SET_ERROR SG_ERROR_MALLOC (Some ''sg_get_network_io_stats'') e) w)
      else
        let w = set_env e w in
        case dev of
          None \<Rightarrow> Done (SG_ERROR_OPEN, v, set_env (SET_ERROR_WITH_ERRNO SG_ERROR_OPEN (Some ''/dev/dlpi'') (wenv w)) w)
        | Some d \<Rightarrow>
            if \<not> dl_put d then
              Done (SG_ERROR_PUTMSG, v, set_env (SET_ERROR_WITH_ERRNO SG_ERROR_PUTMSG (Some ''DL_HP_PPA_REQ'') (wenv w)) w)
            else if \<not> dl_get d then
              Done (SG_ERROR_GETMSG, v, set_env (SET_ERROR_WITH_ERRNO SG_ERROR_GETMSG (Some ''DL_HP_PPA_REQ'') (wenv w)) w)
            else if dl_length d = 0 then
              Done (SG_ERROR_PARSE, v, set_env (SET_ERROR_WITH_ERRNO SG_ERROR_PARSE (Some ''DL_HP_PPA_REQ'') (wenv w)) w)
            else hpux_net now (dl_ppas d) 0 v w)"

section \<open>Windows\<close>

text \<open>
  \<^verbatim>\<open>win32_get_devices\<close>: \<open>short\<close> is the size to grow to when the first call of \<^verbatim>\<open>GetIfTable\<close> finds the memory too small, \<open>rows\<close>
  what the second delivers, if it succeeds.
\<close>

definition win32_get_devices :: "size_t option \<Rightarrow> 'r list option \<Rightarrow> env \<Rightarrow> 'r list option \<times> env" where
  "win32_get_devices short rows e =
     (case sg_realloc_choice 8 e of (c, e) \<Rightarrow>
        if c = AFail then (None, e)
        else
          case short of
            None \<Rightarrow> (rows, e)
          | Some sz \<Rightarrow> (case sg_realloc_choice sz e of (c, e) \<Rightarrow> if c = AFail then (None, e) else (rows, e)))"

text \<open>
  Equal names are told apart by a number: the name of item \<open>i\<close> gets \<^verbatim>\<open>" #2"\<close> for the first equal name behind it, and so on.
  The number is written to a buffer of five bytes.
\<close>

definition number_tag :: "nat \<Rightarrow> string" where
  "number_tag no = take 4 ('' #'' @ dec_string no)"

fun renumber_item :: "('a \<Rightarrow> cstr) \<Rightarrow> (cstr \<Rightarrow> 'a \<Rightarrow> 'a) \<Rightarrow> nat \<Rightarrow> nat list \<Rightarrow> nat \<Rightarrow> 'a multi_int" where
  "renumber_item get upd i [] no v w = Done (SG_ERROR_NONE, v, w)"
| "renumber_item get upd i (j # js) no v w =
     andthen (read_item v i w) (\<lambda>x.
     andthen (read_item v j w) (\<lambda>y.
     andthen (cmp_field (get x) (get y)) (\<lambda>c.
       if c \<noteq> 0 then renumber_item get upd i js no v w
       else
         andthen (sg_concat_string (Some (get x)) (CStr (number_tag no @ [NUL])) (wenv w)) (\<lambda>(rc, p, e).
         andthen (write_item v i (case p of None \<Rightarrow> x | Some p \<Rightarrow> upd p x) (set_env e w)) (\<lambda>w.
           if rc \<noteq> SG_ERROR_NONE then Done (sg_get_error (Some (err (wenv w))), v, w)
           else renumber_item get upd i js (Suc no) v w)))))"

fun renumber :: "('a \<Rightarrow> cstr) \<Rightarrow> (cstr \<Rightarrow> 'a \<Rightarrow> 'a) \<Rightarrow> nat list \<Rightarrow> nat \<Rightarrow> 'a multi_int" where
  "renumber get upd [] n v w = Done (SG_ERROR_NONE, v, w)"
| "renumber get upd (i # is) n v w =
     andthen (renumber_item get upd i [Suc i..<n] 2 v w) (\<lambda>(rc, v, w).
       if rc \<noteq> SG_ERROR_NONE then Done (rc, v, w) else renumber get upd is n v w)"

text \<open>The vector is made for one item, whatever the number of rows.\<close>

definition sg_get_network_io_stats_win32 :: "size_t option \<Rightarrow> net_counts list option \<Rightarrow> time_t \<Rightarrow> sg_network_io_stats multi_int" where
  "sg_get_network_io_stats_win32 short rows now v w =
     (case win32_get_devices short rows (wenv w) of (t, e) \<Rightarrow>
        let w = set_env e w in
        case t of
          None \<Rightarrow> Done (SG_ERROR_DEVICES, v, set_env (SET_ERROR SG_ERROR_DEVICES (Some ''win32_get_devices'') (wenv w)) w)
        | Some rs \<Rightarrow>
            andthen (sized_rows (sg_network_io_stats_vector_init_info True) (put_counts now) 1 rs v w) (\<lambda>(rc, v, w).
              if rc \<noteq> SG_ERROR_NONE then Done (rc, v, w)
              else renumber interface_name (\<lambda>p. interface_name_update (\<lambda>_. p)) [0..<length rs] (length rs) v w))"

section \<open>The readers meet the interfaces\<close>

definition counts_of :: "time_t \<Rightarrow> net_counts \<Rightarrow> sg_network_io_stats" where
  "counts_of now r =
     \<lparr>interface_name = CStr (nc_name r @ [NUL]), tx = nc_tx r, rx = nc_rx r, ipackets = nc_ipackets r, opackets = nc_opackets r,
      ierrors = nc_ierrors r, oerrors = nc_oerrors r, collisions = nc_collisions r, nio_systime = now\<rparr>"

interpretation ncr: row_items "sg_network_io_stats_vector_init_info wrap32" nio_ok nio_view "put_counts now" "\<lambda>r. name_ok (nc_name r)" "counts_of now"
  for wrap32 now
proof
  fix r :: net_counts and x e assume "name_ok (nc_name r)" "nio_ok x"
  then obtain rc q e' where "sg_update_string (interface_name x) (CStr (nc_name r @ [NUL])) e = Done (rc, q, e')" "cstr_ok q"
     "sched e = [] \<longrightarrow> rc = SG_ERROR_NONE \<and> e' = e" "if rc = SG_ERROR_NONE then q = CStr (nc_name r @ [NUL]) else error (err e') = rc"
    using name_update [of "interface_name x" "nc_name r" e] by (auto simp: nio_ok_def)
  then show "\<exists>rc y e'. put_counts now r x e = Done (rc, y, e') \<and> nio_ok y \<and>
      (sched e = [] \<longrightarrow> rc = SG_ERROR_NONE \<and> e' = e \<and> nio_view y = counts_of now r) \<and> (rc \<noteq> SG_ERROR_NONE \<longrightarrow> error (err e') = rc)"
    using name_ok_cstr [OF \<open>name_ok (nc_name r)\<close>]
    by (auto simp: put_counts_def Let_def sg_get_error_def nio_ok_def nio_view_def counts_of_def cstr_copy_def split: if_splits)
qed

definition bsd_reading :: "(bool \<times> net_counts) list option \<Rightarrow> time_t \<Rightarrow> sg_network_io_stats list option" where
  "bsd_reading net now = map_option (\<lambda>as. map (counts_of now) (map snd (filter fst as))) net"

definition bsd_feasible :: "(bool \<times> net_counts) list option \<Rightarrow> bool" where
  "bsd_feasible net \<longleftrightarrow> (case net of None \<Rightarrow> True
     | Some as \<Rightarrow> map snd (filter fst as) \<noteq> [] \<and> list_all (\<lambda>r. name_ok (nc_name r)) (map snd (filter fst as)) \<and>
         room (sg_network_io_stats_vector_init_info False) (length as + 2 ^ 33))"

lemma room_wrap: "room (sg_network_io_stats_vector_init_info wrap32) n = room (sg_network_io_stats_vector_init_info False) n"
  by (simp add: room_def sg_network_io_stats_vector_init_info_def)

interpretation nbsd: multi_diff "sg_network_io_stats_vector_init_info wrap32" nio_ok nio_view "\<lambda>d. interface_name d \<noteq> CNull" interface_name
    "nio_sub wrap32" "sg_get_network_io_stats_bsd wrap32 net now" "bsd_reading net now" "bsd_feasible net" True for wrap32 net now
proof
  let ?ty = "sg_network_io_stats_vector_init_info wrap32"
  show "room ?ty (16 + 2 ^ 32)" by (simp add: room_def sg_network_io_stats_vector_init_info_def)
  show "interface_name x \<noteq> CNull" if "bsd_reading net now = Some vs" "x \<in> set vs" for vs x
    using that by (auto simp: bsd_reading_def counts_of_def)
  fix w v assume f: "bsd_feasible net" and w: "heap_ok w" and v: "vec_at ?ty nio_ok v [] w"
  have v0: "v \<noteq> 0" using vec_at_nonnull [OF v] by simp
  show "\<exists>rc v' w'. sg_get_network_io_stats_bsd wrap32 net now v w = Done (rc, v', w') \<and> heap_ok w' \<and> replaced v v' w w' \<and>
       (v' \<noteq> 0 \<longrightarrow> (\<exists>xs. vec_at ?ty nio_ok v' xs w' \<and> (roomy ?ty v w \<longrightarrow> roomy ?ty v' w') \<and>
          (rc = SG_ERROR_NONE \<longrightarrow> (\<exists>vs. bsd_reading net now = Some vs \<and> length xs = length vs)) \<and>
          (rc = SG_ERROR_NONE \<and> sched (wenv w) = [] \<longrightarrow> bsd_reading net now = Some (map nio_view xs)))) \<and>
       (sched (wenv w) = [] \<longrightarrow> (rc = SG_ERROR_NONE \<longleftrightarrow> bsd_reading net now \<noteq> None) \<and> sched (wenv w') = []) \<and>
       (if rc = SG_ERROR_NONE then v' \<noteq> 0 else error (err (wenv w')) = rc)"
  proof (cases net)
    case None
    then show ?thesis
      using v0 v w by (auto simp: sg_get_network_io_stats_bsd_def bsd_reading_def replaced_def vec_at_def roomy_def vload_set_env frame_simps)
  next
    case (Some as)
    let ?l = "map snd (filter fst as)"
    have "length ?l \<le> length as" by simp
    then have rm: "room ?ty (length ?l + 2 ^ 33)" using f Some room_mono unfolding room_wrap [of wrap32] by (fastforce simp: bsd_feasible_def)
    have l: "list_all (\<lambda>r. name_ok (nc_name r)) ?l" "?l \<noteq> []" using f Some by (simp_all add: bsd_feasible_def)
    from ncr.sized_law [OF rm l w v, of now] Some show ?thesis
      by (simp add: sg_get_network_io_stats_bsd_def bsd_reading_def)
  qed
qed

text \<open>
  Numbering does not make names different: of three equal names the first two become the same, because a name that has got its
  number is no longer equal to those behind it.
\<close>

definition three_cards :: "sg_network_io_stats vblock" where
  "three_cards = block_of (sg_network_io_stats_vector_init_info True) (replicate 3 ((eth0_stats 0 0 0)\<lparr>interface_name := CStr (''A'' @ [NUL])\<rparr>))"

lemma renumber_three:
  "case renumber interface_name (\<lambda>p. interface_name_update (\<lambda>_. p)) [0, 1, 2] 3 1 (world_of [three_cards] (eth0_stats 0 0 0)) of
     Done (rc, v, w') \<Rightarrow> rc = SG_ERROR_NONE \<and>
       map interface_name (slots (the (blocks w' 1))) = [CStr (''A #2'' @ [NUL]), CStr (''A #2'' @ [NUL]), CStr (''A'' @ [NUL])]
   | Fault f \<Rightarrow> False"
  by code_simp

text \<open>
  The traffic vector of Windows is made for one item: with two network cards the second row is written behind the vector's memory when that
  has room for one item only.
\<close>

definition some_card :: net_counts where
  "some_card = \<lparr>nc_name = ''A'', nc_rx = 0, nc_tx = 0, nc_ipackets = 0, nc_opackets = 0, nc_ierrors = 0, nc_oerrors = 0, nc_collisions = 0\<rparr>"

lemma win32_two_cards:
  "case sg_get_network_io_stats_win32 None (Some [some_card, some_card]) 60 1
      (world_of [block_of (sg_network_io_stats_vector_init_info True) [eth0_stats 0 0 0]] (eth0_stats 0 0 0)) of
     Done _ \<Rightarrow> False | Fault f \<Rightarrow> f = OutOfBounds 1 1"
  by code_simp

end
