(* ===== verification/Network_Ifaces.thy ===== *)
theory Network_Ifaces
  imports Network_Traffic Memory
begin

text \<open>
  The state of the interfaces (\<^verbatim>\<open>sg_get_network_iface_stats_int\<close>) on every platform over what the system reports, and what
  \<^verbatim>\<open>sg_get_network_iface_stats\<close> delivers on Linux and on the BSDs.
\<close>

section \<open>Linux\<close>

text \<open>\<^verbatim>\<open>ioctl\<close> is given the name in a field of 16 bytes; \<open>ifr_flags\<close> and \<open>ethtool\<close> are its answers, \<open>None\<close> for a failure.\<close>

definition ifr_name :: "string \<Rightarrow> string" where
  "ifr_name s = take 16 s"

definition updown :: "u32 \<Rightarrow> sg_iface_updown" where
  "updown flags = (if bit flags 0 then SG_IFACE_UP else SG_IFACE_DOWN)"

text \<open>The name on a line: from the first character that is no white space to the first colon.\<close>

definition line_iface :: "string \<Rightarrow> string option" where
  "line_iface line =
     (if CHR '':'' \<in> set line then Some (dropWhile is_space (takeWhile (\<lambda>c. c \<noteq> CHR '':'') line)) else None)"

text \<open>
  The speed of an older \<^verbatim>\<open>ethtool\<close>: the cases do not break, so that the assignments of all cases from the one that applies
  on are made, the last one being that of \<^verbatim>\<open>default\<close>.
\<close>

definition speed_cases :: "(u32 \<times> ull) list" where
  "speed_cases = [(10, 10), (100, 100), (1000, 1000), (2500, 2500), (10000, 10000)]"

definition speed_switch :: "u32 \<Rightarrow> ull" where
  "speed_switch k = last (map snd (dropWhile (\<lambda>(c, _). c \<noteq> k) speed_cases) @ [0])"

definition ethtool_duplex :: "nat \<Rightarrow> sg_iface_duplex" where
  "ethtool_duplex d = (if d = 1 then SG_IFACE_DUPLEX_FULL else if d = 0 then SG_IFACE_DUPLEX_HALF else SG_IFACE_DUPLEX_UNKNOWN)"

definition put_iface :: "cstr \<Rightarrow> (sg_network_iface_stats \<Rightarrow> sg_network_iface_stats) \<Rightarrow> sg_network_iface_stats \<Rightarrow> env
    \<Rightarrow> (sg_error \<times> sg_network_iface_stats \<times> env) outcome" where
  "put_iface nm f x e =
     andthen (sg_update_string (iface_name x) nm e) (\<lambda>(rc, p, e).
       let x = x\<lparr>iface_name := p\<rparr> in
       if rc \<noteq> SG_ERROR_NONE then Done (sg_get_error (Some (err e)), x, e) else Done (SG_ERROR_NONE, f x, e))"

definition put_iface_linux :: "bool \<Rightarrow> (string \<Rightarrow> (u32 \<times> nat) option) \<Rightarrow> time_t \<Rightarrow> string \<times> u32
    \<Rightarrow> sg_network_iface_stats \<Rightarrow> env \<Rightarrow> (sg_error \<times> sg_network_iface_stats \<times> env) outcome" where
  "put_iface_linux speed_hi ethtool now r =
     (case r of (nm, flags) \<Rightarrow>
        put_iface (CStr (nm @ [NUL])) (\<lambda>x.
          let x = x\<lparr>up := updown flags\<rparr>;
              x = (case ethtool (ifr_name nm) of
                     Some (sp, d) \<Rightarrow>
                       x\<lparr>speed := (if speed_hi then ucast sp else speed_switch sp), factor := 1000 * 1000, duplex := ethtool_duplex d\<rparr>
                   | None \<Rightarrow> x\<lparr>speed := 0, factor := 0, duplex := SG_IFACE_DUPLEX_UNKNOWN\<rparr>)
          in x\<lparr>ifc_systime := now\<rparr>))"

text \<open>The lines that name an interface whose flags can be asked for.\<close>

definition iface_rows :: "(string \<Rightarrow> u32 option) \<Rightarrow> string \<Rightarrow> (string \<times> u32) list" where
  "iface_rows ifr_flags body =
     List.map_filter (\<lambda>l. Option.bind (line_iface l) (\<lambda>nm. map_option (Pair nm) (ifr_flags (ifr_name nm))))
       (drop 2 (map strval (file_lines 8095 body)))"

definition sg_get_network_iface_stats_linux ::
  "bool \<Rightarrow> string option \<Rightarrow> bool \<Rightarrow> (string \<Rightarrow> u32 option) \<Rightarrow> (string \<Rightarrow> (u32 \<times> nat) option) \<Rightarrow> time_t \<Rightarrow> sg_network_iface_stats multi_int" where
  "sg_get_network_iface_stats_linux speed_hi pf sock ifr_flags ethtool now v w =
     (case pf of
        None \<Rightarrow> Done (SG_ERROR_OPEN, v, set_env (SET_ERROR_WITH_ERRNO SG_ERROR_OPEN (Some ''/proc/net/dev'') (wenv w)) w)
      | Some body \<Rightarrow>
          if \<not> sock then Done (SG_ERROR_SOCKET, v, set_env (SET_ERROR_WITH_ERRNO SG_ERROR_SOCKET None (wenv w)) w)
          else if length (file_lines 8095 body) < 2 then
            Done (SG_ERROR_PARSE, v, set_env (SET_ERROR SG_ERROR_PARSE None (wenv w)) w)
          else fill_rows sg_network_iface_stats_vector_init_info (put_iface_linux speed_hi ethtool now) (iface_rows ifr_flags body) 0 v w)"

section \<open>Solaris\<close>

text \<open>A kstat with its named values, and those of the kstats \<^verbatim>\<open>mii\<close> and \<^verbatim>\<open>statistics\<close> of the same module and instance.\<close>

record if_kstat =
  ik_class :: string
  ik_name :: string
  ik_data :: "string \<Rightarrow> ull option"
  ik_mii :: "(string \<Rightarrow> ull option) option"
  ik_statistics :: "(string \<Rightarrow> ull option) option"

definition link_up :: "if_kstat \<Rightarrow> ull option" where
  "link_up k =
     (case ik_data k ''link_up'' of
        Some u \<Rightarrow> Some u
      | None \<Rightarrow>
          (case ik_mii k of
             None \<Rightarrow> None
           | Some m \<Rightarrow>
               (case m ''link_up'' of
                  Some u \<Rightarrow> Some u
                | None \<Rightarrow> (case ik_statistics k of None \<Rightarrow> None | Some st \<Rightarrow> st ''link_up''))))"

definition put_iface_solaris :: "time_t \<Rightarrow> if_kstat \<times> u32 \<Rightarrow> sg_network_iface_stats \<Rightarrow> env
    \<Rightarrow> (sg_error \<times> sg_network_iface_stats \<times> env) outcome" where
  "put_iface_solaris now r =
     (case r of (k, flags) \<Rightarrow>
        put_iface (CStr (ik_name k @ [NUL])) (\<lambda>x.
          let x = x\<lparr>up := (if bit flags 0
                 then (case link_up k of Some u \<Rightarrow> if (ucast u :: u32) \<noteq> 0 then SG_IFACE_UP else SG_IFACE_DOWN | None \<Rightarrow> SG_IFACE_UP)
                 else SG_IFACE_DOWN)\<rparr>;
              x = (case ik_data k ''ifspeed'' of
                     Some s \<Rightarrow> x\<lparr>factor := 1000 * 1000, speed := s div (1000 * 1000)\<rparr>
                   | None \<Rightarrow> x\<lparr>speed := 0, factor := 0\<rparr>);
              x = x\<lparr>duplex := (case ik_data k ''link_duplex'' of
                     Some d \<Rightarrow> if (ucast d :: u32) = 1 then SG_IFACE_DUPLEX_HALF else if (ucast d :: u32) = 2 then SG_IFACE_DUPLEX_FULL
                               else SG_IFACE_DUPLEX_UNKNOWN
                   | None \<Rightarrow> SG_IFACE_DUPLEX_UNKNOWN)\<rparr>
          in x\<lparr>ifc_systime := now\<rparr>))"

definition sg_get_network_iface_stats_solaris ::
  "if_kstat list option \<Rightarrow> bool \<Rightarrow> (string \<Rightarrow> u32 option) \<Rightarrow> time_t \<Rightarrow> sg_network_iface_stats multi_int" where
  "sg_get_network_iface_stats_solaris chain sock ifr_flags now v w =
     (case chain of
        None \<Rightarrow> Done (SG_ERROR_KSTAT_OPEN, v, set_env (SET_ERROR SG_ERROR_KSTAT_OPEN None (wenv w)) w)
      | Some ks \<Rightarrow>
          if \<not> sock then Done (SG_ERROR_SOCKET, v, set_env (SET_ERROR_WITH_ERRNO SG_ERROR_SOCKET None (wenv w)) w)
          else
            fill_rows sg_network_iface_stats_vector_init_info (put_iface_solaris now)
              (List.map_filter (\<lambda>k. map_option (Pair k) (ifr_flags (ifr_name (ik_name k)))) (filter (\<lambda>k. ik_class k = ''net'') ks)) 0 v w)"

section \<open>HP-UX and AIX\<close>

text \<open>An interface of which only the flags are known.\<close>

definition put_iface_flags :: "time_t \<Rightarrow> string \<times> u32 \<Rightarrow> sg_network_iface_stats \<Rightarrow> env
    \<Rightarrow> (sg_error \<times> sg_network_iface_stats \<times> env) outcome" where
  "put_iface_flags now r x =
     (case r of (nm, flags) \<Rightarrow>
        put_iface (CStr (nm @ [NUL])) (\<lambda>x. x\<lparr>speed := 0, factor := 0, duplex := SG_IFACE_DUPLEX_UNKNOWN, ifc_systime := now\<rparr>)
          (x\<lparr>up := updown flags\<rparr>))"

text \<open>HP-UX makes room for an interface before it asks for its flags.\<close>

fun hpux_ifaces :: "(string \<Rightarrow> u32 option) \<Rightarrow> time_t \<Rightarrow> string list \<Rightarrow> nat \<Rightarrow> sg_network_iface_stats multi_int" where
  "hpux_ifaces ifr_flags now [] n v w = Done (SG_ERROR_NONE, v, w)"
| "hpux_ifaces ifr_flags now (nm # nms) n v w =
     andthen (VECTOR_UPDATE v (word_of_nat n + 1) sg_network_iface_stats_vector_init_info w) (\<lambda>(res, v, w).
       case res of
         Inl rc \<Rightarrow> Done (rc, v, w)
       | Inr _ \<Rightarrow>
           (case ifr_flags (ifr_name nm) of
              None \<Rightarrow> hpux_ifaces ifr_flags now nms n v w
            | Some flags \<Rightarrow>
                andthen (put_slots (put_iface_flags now) [(nm, flags)] n v w) (\<lambda>(rc, v, w).
                  if rc \<noteq> SG_ERROR_NONE then Done (rc, v, w) else hpux_ifaces ifr_flags now nms (Suc n) v w)))"

text \<open>The answers of \<^verbatim>\<open>SIOCGIFNUM\<close> and \<^verbatim>\<open>SIOCGIFCONF\<close>: the latter is the list of the names.\<close>

definition sg_get_network_iface_stats_hpux ::
  "bool \<Rightarrow> bool \<Rightarrow> string list option \<Rightarrow> (string \<Rightarrow> u32 option) \<Rightarrow> time_t \<Rightarrow> sg_network_iface_stats multi_int" where
  "sg_get_network_iface_stats_hpux sock ifnum conf ifr_flags now v w =
     (let fail = (\<lambda>rc e. Done (rc, v, set_env (SET_ERROR_WITH_ERRNO rc None e) w)) in
      if \<not> sock then fail SG_ERROR_SOCKET (wenv w)
      else if \<not> ifnum then fail SG_ERROR_GETIFADDRS (wenv w)
      else case next_choice (wenv w) of (c, e) \<Rightarrow>
        if c = AFail then fail SG_ERROR_MALLOC e
        else case conf of
          None \<Rightarrow> fail SG_ERROR_GETIFADDRS e
        | Some nms \<Rightarrow> hpux_ifaces ifr_flags now nms 0 v (set_env e w))"

text \<open>
  AIX asks with a buffer of \<open>n\<close> pages, doubled until the answer leaves a page free: \<open>ifconf\<close> is the length of the answer for a number
  of pages, \<open>None\<close> for a failure. The result is the number of pages that were enough.
\<close>

definition ERANGE :: int where "ERANGE = 34"

definition aix_enough :: "int \<Rightarrow> (int \<Rightarrow> int option) \<Rightarrow> int \<Rightarrow> bool" where
  "aix_enough psz ifconf n = (case ifconf n of None \<Rightarrow> False | Some len \<Rightarrow> len < (n - 1) * psz)"

function aix_pages :: "int \<Rightarrow> (int \<Rightarrow> int option) \<Rightarrow> int \<Rightarrow> env \<Rightarrow> ((sg_error + int) \<times> env) outcome" where
  "aix_pages psz ifconf n e =
     (if aix_enough psz ifconf n then Done (Inr n, e)
      else if psz \<le> 0 \<or> n \<le> 0 then Fault NonTermination
      else if INT_MAX < 2 * n * psz then
        Done (Inl SG_ERROR_MALLOC, SET_ERROR_WITH_ERRNO_CODE SG_ERROR_MALLOC ERANGE (Some ''SIOCGIFCONF'') e)
      else
        case next_choice e of (c, e) \<Rightarrow>
          if c = AFail then Done (Inl SG_ERROR_MALLOC, SET_ERROR_WITH_ERRNO SG_ERROR_MALLOC None e)
          else aix_pages psz ifconf (2 * n) e)"
  by pat_completeness auto
termination
proof (relation "measure (\<lambda>(psz, ifconf, n, e). nat (INT_MAX + 1 - n))", goal_cases)
  case (2 psz ifconf n e c e')
  then have p: "0 < psz" "0 < n" "2 * n * psz \<le> INT_MAX" by auto
  have "2 * n * 1 \<le> 2 * n * psz" using p(1,2) by (intro mult_left_mono) auto
  then have "n < 2 * n" "n \<le> INT_MAX" using p by linarith+
  then show ?case by simp
qed auto

declare aix_pages.simps [simp del]

text \<open>The entries of the answer: whether of the link layer, and the name.\<close>

definition sg_get_network_iface_stats_aix ::
  "bool \<Rightarrow> int \<Rightarrow> (int \<Rightarrow> int option) \<Rightarrow> (int \<Rightarrow> (bool \<times> string) list) \<Rightarrow> (string \<Rightarrow> u32 option) \<Rightarrow> time_t \<Rightarrow> sg_network_iface_stats multi_int" where
  "sg_get_network_iface_stats_aix sock psz ifconf entries ifr_flags now v w =
     (if \<not> sock then Done (SG_ERROR_SOCKET, v, set_env (SET_ERROR_WITH_ERRNO SG_ERROR_SOCKET None (wenv w)) w)
      else case next_choice (wenv w) of (c, e) \<Rightarrow>
        if c = AFail then Done (SG_ERROR_MALLOC, v, set_env (SET_ERROR_WITH_ERRNO SG_ERROR_MALLOC None e) w)
        else
          andthen (aix_pages psz ifconf 2 e) (\<lambda>(res, e).
            let w = set_env e w in
            case res of
              Inl rc \<Rightarrow> Done (rc, v, w)
            | Inr n \<Rightarrow>
                let links = map snd (filter fst (entries n)) in
                sized_rows sg_network_iface_stats_vector_init_info (put_iface_flags now) (length links)
                  (List.map_filter (\<lambda>nm. map_option (Pair nm) (ifr_flags (ifr_name nm))) links) v w))"

section \<open>The BSDs\<close>

text \<open>
  What \<^verbatim>\<open>SIOCGIFMEDIA\<close> reports of an interface. The masks and the numbers of the types and subtypes belong to the system; \<open>ifm_type\<close> and
  \<open>ifm_subtype\<close> say by which name of its header the active word goes.
\<close>

datatype ifm_type = IFM_ETHER | IFM_TOKEN | IFM_FDDI | IFM_IEEE80211 | IFM_OTHER

record ifm_header =
  ETHER_bits :: u32
  FDX_bits :: u32
  HDX_bits :: u32
  IFM_TYPE :: "u32 \<Rightarrow> ifm_type"
  IFM_SUBTYPE :: "u32 \<Rightarrow> string"

definition ether_speeds :: "(string list \<times> ull) list" where
  "ether_speeds =
     [([''IFM_HPNA_1''], 1),
      ([''IFM_10_T'', ''IFM_10_2'', ''IFM_10_5'', ''IFM_10_STP'', ''IFM_10_FL''], 10),
      ([''IFM_100_TX'', ''IFM_100_FX'', ''IFM_100_T4'', ''IFM_100_VG'', ''IFM_100_T2''], 100),
      ([''IFM_1000_SX'', ''IFM_1000_LX'', ''IFM_1000_CX'', ''IFM_1000_TX'', ''IFM_1000_FX'', ''IFM_1000_T''], 1000),
      ([''IFM_10G_SR'', ''IFM_10G_LR'', ''IFM_10G_CX4'', ''IFM_10G_TWINAX'', ''IFM_10G_TWINAX_LONG'', ''IFM_10G_T''], 10000),
      ([''IFM_2500_SX''], 2500)]"

definition token_speeds :: "(string list \<times> ull) list" where
  "token_speeds =
     [([''IFM_TOK_STP4'', ''IFM_TOK_UTP4''], 4), ([''IFM_TOK_STP16'', ''IFM_TOK_UTP16''], 16),
      ([''IFM_TOK_STP100'', ''IFM_TOK_UTP100''], 100)]"

definition ieee80211_speeds :: "(string list \<times> ull) list" where
  "ieee80211_speeds =
     [([''IFM_IEEE80211_FH1'', ''IFM_IEEE80211_DS1''], 1), ([''IFM_IEEE80211_FH2'', ''IFM_IEEE80211_DS2''], 2),
      ([''IFM_IEEE80211_DS5''], 5), ([''IFM_IEEE80211_DS11''], 11), ([''IFM_IEEE80211_DS22''], 22)]"

text \<open>The \<^verbatim>\<open>switch\<close> on the subtype; what is not known has the speed 0.\<close>

definition media_speed :: "(string list \<times> ull) list \<Rightarrow> string \<Rightarrow> ull" where
  "media_speed cases sub = (case find (\<lambda>(names, _). sub \<in> set names) cases of None \<Rightarrow> 0 | Some (_, sp) \<Rightarrow> sp)"

definition ifm_speed :: "ifm_header \<Rightarrow> u32 \<Rightarrow> ull" where
  "ifm_speed h active =
     (case IFM_TYPE h active of
        IFM_ETHER \<Rightarrow> media_speed ether_speeds (IFM_SUBTYPE h active)
      | IFM_TOKEN \<Rightarrow> media_speed token_speeds (IFM_SUBTYPE h active)
      | IFM_FDDI \<Rightarrow> 0
      | IFM_IEEE80211 \<Rightarrow> media_speed ieee80211_speeds (IFM_SUBTYPE h active)
      | IFM_OTHER \<Rightarrow> 0)"

definition has_bits :: "u32 \<Rightarrow> u32 \<Rightarrow> bool" where
  "has_bits active bits = (or active bits = active)"

definition put_media :: "ifm_header \<Rightarrow> u32 option \<Rightarrow> sg_network_iface_stats \<Rightarrow> sg_network_iface_stats" where
  "put_media h media x =
     (case media of
        None \<Rightarrow> x
      | Some active \<Rightarrow>
          if \<not> has_bits active (ETHER_bits h) then x
          else
            x\<lparr>speed := ifm_speed h active, factor := 1000 * 1000,
              duplex := (if has_bits active (FDX_bits h) then SG_IFACE_DUPLEX_FULL
                         else if has_bits active (HDX_bits h) then SG_IFACE_DUPLEX_HALF else SG_IFACE_DUPLEX_UNKNOWN)\<rparr>)"

definition put_iface_bsd :: "ifm_header \<Rightarrow> (string \<Rightarrow> u32 option) \<Rightarrow> time_t \<Rightarrow> string \<times> u32 \<Rightarrow> sg_network_iface_stats \<Rightarrow> env
    \<Rightarrow> (sg_error \<times> sg_network_iface_stats \<times> env) outcome" where
  "put_iface_bsd h media now r x =
     (case r of (nm, flags) \<Rightarrow>
        put_iface (CStr (nm @ [NUL]))
          (\<lambda>x. put_media h (media nm) (x\<lparr>speed := 0, factor := 0, duplex := SG_IFACE_DUPLEX_UNKNOWN, ifc_systime := now\<rparr>))
          (x\<lparr>up := updown flags\<rparr>))"

text \<open>
  The vector is made for all addresses of the link layer; those whose flags cannot be asked for are then passed over. The socket
  is taken to be refused when its number is 0.
\<close>

definition sg_get_network_iface_stats_bsd ::
  "ifm_header \<Rightarrow> (bool \<times> string) list option \<Rightarrow> int \<Rightarrow> (string \<Rightarrow> u32 option) \<Rightarrow> (string \<Rightarrow> u32 option) \<Rightarrow> time_t \<Rightarrow> sg_network_iface_stats multi_int" where
  "sg_get_network_iface_stats_bsd h net sock ifr_flags media now v w =
     (case net of
        None \<Rightarrow> Done (SG_ERROR_GETIFADDRS, v, set_env (SET_ERROR_WITH_ERRNO SG_ERROR_GETIFADDRS None (wenv w)) w)
      | Some as \<Rightarrow>
          if sock = 0 then Done (SG_ERROR_SOCKET, v, set_env (SET_ERROR_WITH_ERRNO SG_ERROR_SOCKET None (wenv w)) w)
          else
            let links = map snd (filter fst as) in
            sized_rows sg_network_iface_stats_vector_init_info (put_iface_bsd h media now) (length links)
              (List.map_filter (\<lambda>nm. map_option (Pair nm) (ifr_flags (ifr_name nm))) links) v w)"

section \<open>Windows\<close>

text \<open>A row of the table: description, speed, operational and administrative state.\<close>

record if_row =
  ir_descr :: string
  ir_speed :: u32
  ir_connected :: bool
  ir_admin :: u32

definition put_iface_win32 :: "time_t \<Rightarrow> if_row \<Rightarrow> sg_network_iface_stats \<Rightarrow> env \<Rightarrow> (sg_error \<times> sg_network_iface_stats \<times> env) outcome" where
  "put_iface_win32 now r =
     put_iface (CStr (ir_descr r @ [NUL])) (\<lambda>x.
       x\<lparr>factor := 1000 * 1000, speed := ucast (ir_speed r) div (1000 * 1000),
         up := (if ir_connected r \<and> ir_admin r = 1 then SG_IFACE_UP else SG_IFACE_DOWN), ifc_systime := now\<rparr>)"

definition sg_get_network_iface_stats_win32 :: "size_t option \<Rightarrow> if_row list option \<Rightarrow> time_t \<Rightarrow> sg_network_iface_stats multi_int" where
  "sg_get_network_iface_stats_win32 short rows now v w =
     (case win32_get_devices short rows (wenv w) of (t, e) \<Rightarrow>
        let w = set_env e w in
        case t of
          None \<Rightarrow> Done (SG_ERROR_DEVICES, v, set_env (SET_ERROR SG_ERROR_DEVICES (Some ''network interfaces'') (wenv w)) w)
        | Some rs \<Rightarrow>
            andthen (sized_rows sg_network_iface_stats_vector_init_info (put_iface_win32 now) (length rs) rs v w) (\<lambda>(rc, v, w).
              if rc \<noteq> SG_ERROR_NONE then Done (rc, v, w)
              else renumber iface_name (\<lambda>p. iface_name_update (\<lambda>_. p)) [0..<length rs] (length rs) v w))"

definition SG_NETWORK_IFACE_IDX :: nat where "SG_NETWORK_IFACE_IDX = 2"

definition sg_get_network_iface_stats :: "sg_network_iface_stats multi_int \<Rightarrow> sg_network_iface_stats access" where
  "sg_get_network_iface_stats reader = MULTI_COMP_ACCESS sg_network_iface_stats_vector_init_info reader SG_NETWORK_IFACE_IDX"

section \<open>Setup\<close>

text \<open>The component compiles its regular expression (\<open>linux\<close>) or asks for the page size (\<open>page\<close>, on the platforms that need it).\<close>

definition sg_network_init_comp :: "bool \<Rightarrow> bool \<Rightarrow> bool \<Rightarrow> int \<Rightarrow> int \<Rightarrow> env \<Rightarrow> sg_error \<times> int \<times> env" where
  "sg_network_init_comp linux regcomp page sysconf sys_page_size e =
     (if linux \<and> \<not> regcomp then (SG_ERROR_PARSE, sys_page_size, SET_ERROR SG_ERROR_PARSE (Some ''regcomp'') e)
      else if page then
        (let (ps, e) = sg_get_sys_page_size sysconf sys_page_size e
         in if ps = - 1 then (SG_ERROR_SYSCONF, ps, SET_ERROR_WITH_ERRNO SG_ERROR_SYSCONF (Some ''_SC_PAGESIZE'') e)
            else (SG_ERROR_NONE, ps, e))
      else (SG_ERROR_NONE, sys_page_size, e))"

section \<open>The readers meet the interfaces\<close>

definition ifc_view :: "sg_network_iface_stats \<Rightarrow> sg_network_iface_stats" where
  "ifc_view x = x\<lparr>iface_name := cstr_copy (iface_name x)\<rparr>"

lemma put_iface_law:
  assumes nm: "name_ok nm" and x: "ifc_ok x" and f: "\<And>y. iface_name (f y) = iface_name y"
    and eq: "f (x\<lparr>iface_name := CStr (nm @ [NUL])\<rparr>) = res"
  shows "\<exists>rc y e'. put_iface (CStr (nm @ [NUL])) f x e = Done (rc, y, e') \<and> ifc_ok y \<and>
     (sched e = [] \<longrightarrow> rc = SG_ERROR_NONE \<and> e' = e \<and> ifc_view y = res) \<and> (rc \<noteq> SG_ERROR_NONE \<longrightarrow> error (err e') = rc)"
proof -
  obtain rc q e' where u: "sg_update_string (iface_name x) (CStr (nm @ [NUL])) e = Done (rc, q, e')" "cstr_ok q"
     "sched e = [] \<longrightarrow> rc = SG_ERROR_NONE \<and> e' = e" "if rc = SG_ERROR_NONE then q = CStr (nm @ [NUL]) else error (err e') = rc"
    using name_update [OF _ nm, of "iface_name x" e] x by (auto simp: ifc_ok_def)
  have "cstr_copy (iface_name res) = iface_name res" using f [of "x\<lparr>iface_name := CStr (nm @ [NUL])\<rparr>"] nm unfolding eq
    by (simp add: cstr_copy_def name_ok_def)
  then have "ifc_view res = res" by (simp add: ifc_view_def)
  then show ?thesis
    using u f eq name_ok_cstr(1) [OF nm] by (cases "rc = SG_ERROR_NONE") (auto simp: put_iface_def Let_def sg_get_error_def ifc_ok_def)
qed

definition linux_iface_of :: "bool \<Rightarrow> (string \<Rightarrow> (u32 \<times> nat) option) \<Rightarrow> time_t \<Rightarrow> string \<times> u32 \<Rightarrow> sg_network_iface_stats" where
  "linux_iface_of speed_hi ethtool now r =
     (let (sp, fac, d) = (case ethtool (ifr_name (fst r)) of
            Some (sp, d) \<Rightarrow> (if speed_hi then ucast sp else 0, 1000000, ethtool_duplex d) | None \<Rightarrow> (0, 0, SG_IFACE_DUPLEX_UNKNOWN))
      in \<lparr>iface_name = CStr (fst r @ [NUL]), speed = sp, factor = fac, duplex = d, up = updown (snd r), ifc_systime = now\<rparr>)"

lemma linux_iface_of_record:
  "linux_iface_of speed_hi ethtool now (nm, flags) =
     \<lparr>iface_name = CStr (nm @ [NUL]),
      speed = (case ethtool (take 16 nm) of Some (sp, d) \<Rightarrow> if speed_hi then ucast sp else 0 | None \<Rightarrow> 0),
      factor = (case ethtool (take 16 nm) of Some (sp, d) \<Rightarrow> 1000000 | None \<Rightarrow> 0),
      duplex = (case ethtool (take 16 nm) of
         Some (sp, d) \<Rightarrow> if d = 1 then SG_IFACE_DUPLEX_FULL else if d = 0 then SG_IFACE_DUPLEX_HALF else SG_IFACE_DUPLEX_UNKNOWN
       | None \<Rightarrow> SG_IFACE_DUPLEX_UNKNOWN),
      up = (if bit flags 0 then SG_IFACE_UP else SG_IFACE_DOWN), ifc_systime = now\<rparr>"
  by (simp add: linux_iface_of_def ifr_name_def ethtool_duplex_def updown_def split: option.splits)

text \<open>The switch over the speeds of an older \<^verbatim>\<open>ethtool\<close> always arrives at 0.\<close>

lemma speed_switch_zero: "speed_switch k = 0"
  by (simp add: speed_switch_def)

interpretation ifl: row_items sg_network_iface_stats_vector_init_info ifc_ok ifc_view "put_iface_linux speed_hi ethtool now" "\<lambda>r. name_ok (fst r)"
    "linux_iface_of speed_hi ethtool now" for speed_hi ethtool now
proof
  fix r :: "string \<times> u32" and x e assume nm: "name_ok (fst r)" and x: "ifc_ok x"
  obtain nm flags where r: "r = (nm, flags)" by fastforce
  show "\<exists>rc y e'. put_iface_linux speed_hi ethtool now r x e = Done (rc, y, e') \<and> ifc_ok y \<and>
      (sched e = [] \<longrightarrow> rc = SG_ERROR_NONE \<and> e' = e \<and> ifc_view y = linux_iface_of speed_hi ethtool now r) \<and>
      (rc \<noteq> SG_ERROR_NONE \<longrightarrow> error (err e') = rc)"
    unfolding put_iface_linux_def r prod.case
    by (rule put_iface_law) (use nm x in \<open>auto simp: r linux_iface_of_def Let_def speed_switch_zero split: option.splits\<close>)
qed

definition bsd_iface_of :: "ifm_header \<Rightarrow> (string \<Rightarrow> u32 option) \<Rightarrow> time_t \<Rightarrow> string \<times> u32 \<Rightarrow> sg_network_iface_stats" where
  "bsd_iface_of h media now r =
     put_media h (media (fst r)) \<lparr>iface_name = CStr (fst r @ [NUL]), speed = 0, factor = 0, duplex = SG_IFACE_DUPLEX_UNKNOWN,
       up = updown (snd r), ifc_systime = now\<rparr>"

lemma put_media_fields [simp]: "iface_name (put_media h m x) = iface_name x" "up (put_media h m x) = up x"
  by (simp_all add: put_media_def split: option.splits)

interpretation ifb: row_items sg_network_iface_stats_vector_init_info ifc_ok ifc_view "put_iface_bsd h media now" "\<lambda>r. name_ok (fst r)"
    "bsd_iface_of h media now" for h media now
proof
  fix r :: "string \<times> u32" and x e assume nm: "name_ok (fst r)" and x: "ifc_ok x"
  obtain nm flags where r: "r = (nm, flags)" by fastforce
  show "\<exists>rc y e'. put_iface_bsd h media now r x e = Done (rc, y, e') \<and> ifc_ok y \<and>
      (sched e = [] \<longrightarrow> rc = SG_ERROR_NONE \<and> e' = e \<and> ifc_view y = bsd_iface_of h media now r) \<and>
      (rc \<noteq> SG_ERROR_NONE \<longrightarrow> error (err e') = rc)"
    unfolding put_iface_bsd_def r prod.case
    by (rule put_iface_law; cases x) (use nm x in \<open>auto simp: r bsd_iface_of_def ifc_ok_def\<close>)
qed

text \<open>What the lines of \<^verbatim>\<open>/proc/net/dev\<close> name can be stored.\<close>

lemma fgets_take_length: "fgets_take n s = (l, r) \<Longrightarrow> length l \<le> n"
  by (induction n s arbitrary: l r rule: fgets_take.induct) (auto split: if_splits prod.splits)

lemma file_lines_length: "l \<in> set (file_lines n s) \<Longrightarrow> length l \<le> n"
proof (induction n s rule: file_lines.induct)
  case (1 n s)
  obtain a r where f: "fgets_take n s = (a, r)" by fastforce
  have ne: "n \<noteq> 0" "s \<noteq> []" using "1.prems" by (auto simp: file_lines.simps [of n s] split: if_splits)
  then have "file_lines n s = a # file_lines n r" using f by (simp add: file_lines.simps [of n s])
  with "1.prems" have "l = a \<or> l \<in> set (file_lines n r)" by simp
  moreover have "l \<in> set (file_lines n r) \<Longrightarrow> length l \<le> n" using "1.IH" [OF _ f [symmetric] refl] ne by simp
  ultimately show ?case using fgets_take_length [OF f] by blast
qed

lemma iface_rows_ok: "list_all (\<lambda>r. name_ok (fst r)) (iface_rows fl body)"
proof -
  have "name_ok nm" if "l \<in> set (file_lines 8095 body)" "line_iface (strval l) = Some nm" for l nm
  proof -
    have nm: "nm = dropWhile is_space (takeWhile (\<lambda>c. c \<noteq> CHR '':'') (strval l))" using that(2) by (simp add: line_iface_def split: if_splits)
    have sub: "set nm \<subseteq> set (strval l)" unfolding nm using set_dropWhileD set_takeWhileD by fast
    have "length nm \<le> length (strval l)" unfolding nm by (rule le_trans [OF length_dropWhile_le length_takeWhile_le])
    also have "\<dots> \<le> length l" by (simp add: strval_def length_takeWhile_le)
    also have "\<dots> \<le> 8095" using file_lines_length [OF that(1)] .
    finally show ?thesis using sub strval_nul_free [of l] by (auto simp: name_ok_def nul_free_def list_all_iff)
  qed
  then show ?thesis by (auto simp: list_all_iff iface_rows_def List.map_filter_def dest!: in_set_dropD split: option.splits bind_splits)
qed

definition iface_reading ::
  "bool \<Rightarrow> string option \<Rightarrow> bool \<Rightarrow> (string \<Rightarrow> u32 option) \<Rightarrow> (string \<Rightarrow> (u32 \<times> nat) option) \<Rightarrow> time_t \<Rightarrow> sg_network_iface_stats list option" where
  "iface_reading speed_hi pf sock fl ethtool now =
     (case pf of None \<Rightarrow> None
      | Some body \<Rightarrow> if \<not> sock \<or> length (file_lines 8095 body) < 2 then None
                     else Some (map (linux_iface_of speed_hi ethtool now) (iface_rows fl body)))"

definition iface_feasible :: "string option \<Rightarrow> (string \<Rightarrow> u32 option) \<Rightarrow> bool" where
  "iface_feasible pf fl \<longleftrightarrow> (case pf of None \<Rightarrow> True
     | Some body \<Rightarrow> room sg_network_iface_stats_vector_init_info (length (iface_rows fl body) + 2 ^ 33))"

interpretation ifm: multi_source sg_network_iface_stats_vector_init_info ifc_ok ifc_view
    "sg_get_network_iface_stats_linux speed_hi pf sock fl ethtool now" "iface_reading speed_hi pf sock fl ethtool now" "iface_feasible pf fl" True
  for speed_hi pf sock fl ethtool now
proof
  let ?ty = sg_network_iface_stats_vector_init_info and ?rd = "iface_reading speed_hi pf sock fl ethtool now"
  show "room ?ty (16 + 2 ^ 32)" by (simp add: room_def sg_network_iface_stats_vector_init_info_def)
  fix w v assume f: "iface_feasible pf fl" and w: "heap_ok w" and v: "vec_at ?ty ifc_ok v [] w"
  have v0: "v \<noteq> 0" using vec_at_nonnull [OF v] by simp
  show "\<exists>rc v' w'. sg_get_network_iface_stats_linux speed_hi pf sock fl ethtool now v w = Done (rc, v', w') \<and> heap_ok w' \<and> replaced v v' w w' \<and>
       (v' \<noteq> 0 \<longrightarrow> (\<exists>xs. vec_at ?ty ifc_ok v' xs w' \<and> (roomy ?ty v w \<longrightarrow> roomy ?ty v' w') \<and>
          (rc = SG_ERROR_NONE \<longrightarrow> (\<exists>vs. ?rd = Some vs \<and> length xs = length vs)) \<and>
          (rc = SG_ERROR_NONE \<and> sched (wenv w) = [] \<longrightarrow> ?rd = Some (map ifc_view xs)))) \<and>
       (sched (wenv w) = [] \<longrightarrow> (rc = SG_ERROR_NONE \<longleftrightarrow> ?rd \<noteq> None) \<and> sched (wenv w') = []) \<and>
       (if rc = SG_ERROR_NONE then v' \<noteq> 0 else error (err (wenv w')) = rc)"
  proof (cases ?rd)
    case None
    obtain rc e' where r: "sg_get_network_iface_stats_linux speed_hi pf sock fl ethtool now v w = Done (rc, v, set_env e' w)"
       "rc \<noteq> SG_ERROR_NONE" "error (err e') = rc" "sched e' = sched (wenv w)"
    proof (cases pf)
      case None
      then show ?thesis
        by (intro that [of SG_ERROR_OPEN "SET_ERROR_WITH_ERRNO SG_ERROR_OPEN (Some ''/proc/net/dev'') (wenv w)"])
          (simp_all add: sg_get_network_iface_stats_linux_def frame_simps)
    next
      case (Some body)
      show ?thesis
      proof (cases sock)
        case False
        with Some show ?thesis
          by (intro that [of SG_ERROR_SOCKET "SET_ERROR_WITH_ERRNO SG_ERROR_SOCKET None (wenv w)"])
            (simp_all add: sg_get_network_iface_stats_linux_def frame_simps)
      next
        case True
        with Some None show ?thesis
          by (intro that [of SG_ERROR_PARSE "SET_ERROR SG_ERROR_PARSE None (wenv w)"])
            (simp_all add: sg_get_network_iface_stats_linux_def iface_reading_def frame_simps split: if_splits)
      qed
    qed
    then show ?thesis
      using None v0 v w by (intro exI [of _ rc] exI [of _ v] exI [of _ "set_env e' w"])
        (auto simp: replaced_def vec_at_def roomy_def vload_set_env frame_simps)
  next
    case (Some vs)
    then obtain body where b: "pf = Some body" "sock" "\<not> length (file_lines 8095 body) < 2" "vs = map (linux_iface_of speed_hi ethtool now) (iface_rows fl body)"
      by (auto simp: iface_reading_def split: option.splits if_splits)
    have rm: "room ?ty (length (iface_rows fl body) + 2 ^ 33)" using f b(1) by (simp add: iface_feasible_def)
    have "sg_get_network_iface_stats_linux speed_hi pf sock fl ethtool now v w =
        fill_rows ?ty (put_iface_linux speed_hi ethtool now) (iface_rows fl body) 0 v w"
      using b by (simp add: sg_get_network_iface_stats_linux_def)
    then show ?thesis using ifl.rows_law [OF rm iface_rows_ok w v, of speed_hi ethtool now] unfolding Some b(4) by (simp only:)
  qed
qed

section \<open>Properties\<close>

lemma line_iface_net_line:
  assumes "nm \<noteq> []" "CHR '':'' \<notin> set nm" "\<not> is_space (hd nm)"
  shows "line_iface (net_line nm ns @ r) = Some nm"
proof -
  let ?pre = "replicate (6 - length nm) CHR '' '' @ nm"
  obtain rest where l: "net_line nm ns @ r = ?pre @ CHR '':'' # rest" by (simp add: net_line_padded)
  have nc: "\<forall>c \<in> set ?pre. c \<noteq> CHR '':''" using assms(2) by auto
  have "takeWhile (\<lambda>c. c \<noteq> CHR '':'') (net_line nm ns @ r) = ?pre"
    unfolding l takeWhile_append [of _ ?pre] using nc by simp
  moreover have "dropWhile is_space ?pre = nm"
    unfolding dropWhile_append using assms(1,3) by (cases nm) (simp_all add: is_space_def)
  moreover have "CHR '':'' \<in> set (net_line nm ns @ r)" unfolding l by simp
  ultimately show ?thesis by (simp add: line_iface_def)
qed

lemma iface_rows_net_dev:
  assumes "list_all (line_ok 8095) (net_dev h1 h2 es)" "list_all net_entry_ok es"
  shows "iface_rows fl (text_of (net_dev h1 h2 es)) = List.map_filter (\<lambda>r. map_option (Pair (fst r)) (fl (take 16 (fst r)))) es"
    "\<not> length (file_lines 8095 (text_of (net_dev h1 h2 es))) < 2"
proof -
  have ls: "drop 2 (map strval (file_lines 8095 (text_of (net_dev h1 h2 es)))) = map (\<lambda>r. net_line (fst r) (snd r) @ [CHR 0x0A]) es"
    unfolding strval_lines [OF assms(1)] by (simp add: net_dev_def comp_def)
  have "list_all (\<lambda>r. line_iface (net_line (fst r) (snd r) @ [CHR 0x0A]) = Some (fst r)) es"
    using assms(2) line_iface_net_line by (simp add: list_all_iff net_entry_ok_def)
  then show "iface_rows fl (text_of (net_dev h1 h2 es)) = List.map_filter (\<lambda>r. map_option (Pair (fst r)) (fl (take 16 (fst r)))) es"
    unfolding iface_rows_def ls by (induction es) (simp_all add: List.map_filter_simps ifr_name_def split: option.splits)
  show "\<not> length (file_lines 8095 (text_of (net_dev h1 h2 es))) < 2"
    unfolding file_lines_text [OF assms(1)] by (simp add: net_dev_def)
qed

lemma map_filter_after: "map f (List.map_filter g xs) = List.map_filter (\<lambda>x. map_option f (g x)) xs"
  by (induction xs) (simp_all add: List.map_filter_simps split: option.splits)

lemma length_map_filter_le: "length (List.map_filter g xs) \<le> length xs"
  by (simp add: List.map_filter_def)

text \<open>C33: \<^verbatim>\<open>sg_get_network_iface_stats\<close> on Linux, memory sufficing, over a \<^verbatim>\<open>/proc/net/dev\<close> in the layout of the kernel (at
  most 2^31 interfaces, lines of fewer than 8095 characters): the thread's snapshot has one item for every
  line behind the two headings whose interface the system reports flags for, in order, with the name without
  the blanks before it, up if and only if the lowest bit of the flags is set, and what \<^verbatim>\<open>ethtool\<close> says of its
  speed, in units of 10^6, and its duplex; an interface that \<^verbatim>\<open>ethtool\<close> does not know has speed 0 and unknown
  duplex. Without \<^verbatim>\<open>ethtool_cmd_speed\<close> every speed is 0. When the file or the socket cannot be opened, NULL is
  returned and an error is recorded.\<close>

theorem sg_get_network_iface_stats_linux_correct:
  assumes "heap_ok w" "sched (wenv w) = []"
    and dev: "list_all (line_ok 8095) (net_dev h1 h2 es)" "list_all net_entry_ok es" "length es \<le> 2 ^ 31"
    and "g SG_NETWORK_IFACE_IDX = 0 \<or> vec_at sg_network_iface_stats_vector_init_info ifc_ok (g SG_NETWORK_IFACE_IDX) ys w"
  shows "\<exists>p n g' w' xs. sg_get_network_iface_stats (sg_get_network_iface_stats_linux speed_hi
        (if present then Some (text_of (net_dev h1 h2 es)) else None) sock fl ethtool now) (Some g) w = Done ((p, n), Some g', w') \<and>
     heap_ok w' \<and>
     (if \<not> present \<or> \<not> sock then p = 0 \<and> n = 0 \<and> error (err (wenv w')) \<noteq> SG_ERROR_NONE
      else p \<noteq> 0 \<and> p = g' SG_NETWORK_IFACE_IDX \<and> error (err (wenv w')) = SG_ERROR_NONE \<and>
        vec_at sg_network_iface_stats_vector_init_info ifc_ok p xs w' \<and> unat n = length xs \<and>
        map ifc_view xs = List.map_filter (\<lambda>r. map_option (\<lambda>flags.
            \<lparr>iface_name = CStr (fst r @ [NUL]),
             speed = (case ethtool (take 16 (fst r)) of Some (sp, d) \<Rightarrow> if speed_hi then ucast sp else 0 | None \<Rightarrow> 0),
             factor = (case ethtool (take 16 (fst r)) of Some (sp, d) \<Rightarrow> 1000000 | None \<Rightarrow> 0),
             duplex = (case ethtool (take 16 (fst r)) of
                Some (sp, d) \<Rightarrow> if d = 1 then SG_IFACE_DUPLEX_FULL else if d = 0 then SG_IFACE_DUPLEX_HALF else SG_IFACE_DUPLEX_UNKNOWN
              | None \<Rightarrow> SG_IFACE_DUPLEX_UNKNOWN),
             up = (if bit flags 0 then SG_IFACE_UP else SG_IFACE_DOWN), ifc_systime = now\<rparr>) (fl (take 16 (fst r)))) es)"
proof -
  let ?ty = sg_network_iface_stats_vector_init_info and ?pf = "if present then Some (text_of (net_dev h1 h2 es)) else None"
  let ?rd = "iface_reading speed_hi ?pf sock fl ethtool now"
  note rows = iface_rows_net_dev [OF dev(1,2)]
  have fe: "iface_feasible ?pf fl"
    using dev(3) length_map_filter_le [of "\<lambda>r. map_option (Pair (fst r)) (fl (take 16 (fst r)))" es]
    by (simp add: iface_feasible_def rows(1) room_def sg_network_iface_stats_vector_init_info_def)
  have mem: "True \<or> sched (wenv w) = []" by simp
  obtain p n g' w' where r: "MULTI_COMP_ACCESS ?ty (sg_get_network_iface_stats_linux speed_hi ?pf sock fl ethtool now) SG_NETWORK_IFACE_IDX (Some g) w =
       Done ((p, n), Some g', w')" "heap_ok w'" "sched (wenv w) = [] \<longrightarrow> (p \<noteq> 0 \<longleftrightarrow> ?rd \<noteq> None) \<and> sched (wenv w') = []"
     "if p = 0 then n = 0 \<and> error (err (wenv w')) \<noteq> SG_ERROR_NONE
      else p = g' SG_NETWORK_IFACE_IDX \<and> error (err (wenv w')) = SG_ERROR_NONE \<and>
        (\<exists>xs vs. vec_at ?ty ifc_ok p xs w' \<and> unat n = length xs \<and> ?rd = Some vs \<and> length xs = length vs \<and>
          (sched (wenv w) = [] \<longrightarrow> map ifc_view xs = vs))"
    using ifm.access_ok [where g = g and idx = SG_NETWORK_IFACE_IDX and speed_hi = speed_hi and sock = sock and ethtool = ethtool and now = now,
        OF fe assms(1,6) mem] by (elim exE conjE) (rule that)
  show ?thesis
  proof (cases "present \<and> sock")
    case False
    then have "?rd = None" by (auto simp: iface_reading_def)
    with r(3) assms(2) have "p = 0" by simp
    with False r show ?thesis unfolding sg_get_network_iface_stats_def by auto
  next
    case True
    then have rd: "?rd = Some (map (linux_iface_of speed_hi ethtool now) (iface_rows fl (text_of (net_dev h1 h2 es))))"
      using rows(2) by (simp add: iface_reading_def)
    then have "p \<noteq> 0" using r(3) assms(2) by simp
    then obtain xs where xs: "p = g' SG_NETWORK_IFACE_IDX" "error (err (wenv w')) = SG_ERROR_NONE" "vec_at ?ty ifc_ok p xs w'" "unat n = length xs"
       "map ifc_view xs = map (linux_iface_of speed_hi ethtool now) (iface_rows fl (text_of (net_dev h1 h2 es)))"
      using r(4) assms(2) rd by auto
    have "map (linux_iface_of speed_hi ethtool now) (iface_rows fl (text_of (net_dev h1 h2 es))) = List.map_filter (\<lambda>r. map_option (\<lambda>flags.
            \<lparr>iface_name = CStr (fst r @ [NUL]),
             speed = (case ethtool (take 16 (fst r)) of Some (sp, d) \<Rightarrow> if speed_hi then ucast sp else 0 | None \<Rightarrow> 0),
             factor = (case ethtool (take 16 (fst r)) of Some (sp, d) \<Rightarrow> 1000000 | None \<Rightarrow> 0),
             duplex = (case ethtool (take 16 (fst r)) of
                Some (sp, d) \<Rightarrow> if d = 1 then SG_IFACE_DUPLEX_FULL else if d = 0 then SG_IFACE_DUPLEX_HALF else SG_IFACE_DUPLEX_UNKNOWN
              | None \<Rightarrow> SG_IFACE_DUPLEX_UNKNOWN),
             up = (if bit flags 0 then SG_IFACE_UP else SG_IFACE_DOWN), ifc_systime = now\<rparr>) (fl (take 16 (fst r)))) es"
      unfolding rows(1) map_filter_after option.map_comp linux_iface_of_record comp_def by simp
    note this [folded xs(5)]
    with True r(1,2) xs(1-4) \<open>p \<noteq> 0\<close> show ?thesis unfolding sg_get_network_iface_stats_def by auto
  qed
qed

definition two_ifaces :: "(string \<times> nat list) list" where
  "two_ifaces = [(''lo'', replicate 16 1), (''eth0'', replicate 16 7)]"

lemma two_ifaces_ok:
  "list_all (line_ok 8095) (net_dev ''Inter-|'' '' face |'' two_ifaces)" "list_all net_entry_ok two_ifaces" "length two_ifaces \<le> 2 ^ 31"
proof -
  have "CHR 0x0A \<notin> set (net_line ''lo'' ns) \<and> nul_free (net_line ''lo'' ns)"
    "CHR 0x0A \<notin> set (net_line ''eth0'' ns) \<and> nul_free (net_line ''eth0'' ns)" for ns
    by (rule net_line_chars; simp add: nul_free_def)+
  moreover have "length (net_line ''lo'' (replicate 16 1)) < 8095" "length (net_line ''eth0'' (replicate 16 7)) < 8095" by code_simp+
  ultimately show "list_all (line_ok 8095) (net_dev ''Inter-|'' '' face |'' two_ifaces)"
    by (simp add: net_dev_def line_ok_def two_ifaces_def nul_free_def)
  show "list_all net_entry_ok two_ifaces" "length two_ifaces \<le> 2 ^ 31" by (simp_all add: net_entry_ok_def two_ifaces_def is_space_def list_all_iff)
qed

lemma sg_get_network_iface_stats_linux_correct_witness:
  "\<exists>p n g' w' xs. sg_get_network_iface_stats (sg_get_network_iface_stats_linux True (Some (text_of (net_dev ''Inter-|'' '' face |'' two_ifaces))) True
        (\<lambda>nm. if nm = ''lo'' then Some 9 else Some 2) (\<lambda>nm. if nm = ''eth0'' then Some (100, 1) else None) 60) (Some (\<lambda>_. 0))
        (world_of [] (linux_iface_of True (\<lambda>_. None) 0 (''lo'', 0))) = Done ((p, n), Some g', w') \<and>
     unat n = length xs \<and> vec_at sg_network_iface_stats_vector_init_info ifc_ok p xs w' \<and>
     map ifc_view xs =
       [\<lparr>iface_name = CStr (''lo'' @ [NUL]), speed = 0, factor = 0, duplex = SG_IFACE_DUPLEX_UNKNOWN, up = SG_IFACE_UP, ifc_systime = 60\<rparr>,
        \<lparr>iface_name = CStr (''eth0'' @ [NUL]), speed = 100, factor = 1000000, duplex = SG_IFACE_DUPLEX_FULL, up = SG_IFACE_DOWN, ifc_systime = 60\<rparr>]"
proof -
  let ?fl = "\<lambda>nm. if nm = ''lo'' then Some 9 else Some 2 :: u32 option" and ?et = "\<lambda>nm. if nm = ''eth0'' then Some (100, 1) else None :: (u32 \<times> nat) option"
  let ?w = "world_of [] (linux_iface_of True (\<lambda>_. None) 0 (''lo'', 0))"
  have w: "heap_ok ?w" "sched (wenv ?w) = []" by (simp_all add: world_of_def heap_ok_def fresh_env_def)
  have g: "(\<lambda>_. 0) SG_NETWORK_IFACE_IDX = (0 :: nat) \<or> vec_at sg_network_iface_stats_vector_init_info ifc_ok ((\<lambda>_. 0) SG_NETWORK_IFACE_IDX) [] ?w"
    by simp
  from sg_get_network_iface_stats_linux_correct [where speed_hi = True and present = True and sock = True and fl = ?fl and ethtool = ?et and now = 60,
      OF w two_ifaces_ok g]
  show ?thesis
  proof (elim exE, goal_cases)
    case (1 p n g' w' xs)
    then show ?case
      by (intro exI [of _ p] exI [of _ n] exI [of _ g'] exI [of _ w'] exI [of _ xs])
        (auto simp: List.map_filter_simps two_ifaces_def bit_simps)
  qed
qed

end
