(* ===== verification/Fs_Read.thy ===== *)
theory Fs_Read
  imports Valid_Fs Snapshots Access_Multi
begin

text \<open>
  File system statistics (\<^verbatim>\<open>src/libstatgrab/disk_stats.c\<close>): the list of mounted file systems as
  \<^verbatim>\<open>getmntent\<close> reports it, the sizes of one file system, the selection of those whose type is valid, and the
  public functions over it.
\<close>

section \<open>The list of mounts\<close>

record mntent =
  mnt_fsname :: string
  mnt_type :: string
  mnt_dir :: string

text \<open>What \<^verbatim>\<open>lstat\<close> and \<^verbatim>\<open>realpath\<close> say of a path: no link, a link that cannot be resolved, or the resolved path.\<close>

datatype lnk = NotLink | Unresolvable | Target string

text \<open>\<^verbatim>\<open>while( lstat(...) is a link ) { realpath(...); sg_lupdate_string(...); }\<close>, at most \<open>fuel\<close> times.\<close>

fun canon_loop :: "nat \<Rightarrow> (string \<Rightarrow> lnk) \<Rightarrow> cstr \<Rightarrow> env \<Rightarrow> (sg_error \<times> cstr \<times> env) outcome" where
  "canon_loop 0 lstat p e = Fault NonTermination"
| "canon_loop (Suc fuel) lstat p e =
     andthen (src_bytes p) (\<lambda>b.
       case lstat (strval b) of
         Target t \<Rightarrow>
           andthen (sg_lupdate_string p (CStr (t @ [NUL])) 4097 e) (\<lambda>(rc, p, e).
             if rc \<noteq> SG_ERROR_NONE then Done (rc, p, e) else canon_loop fuel lstat p e)
       | _ \<Rightarrow> Done (SG_ERROR_NONE, p, e))"

text \<open>A mounted file system into an item: device, type and mount point are those of the platform.\<close>

definition put_mount ::
  "nat \<Rightarrow> (string \<Rightarrow> lnk) \<Rightarrow> time_t \<Rightarrow> cstr \<Rightarrow> cstr \<Rightarrow> cstr \<Rightarrow> sg_fs_stats \<Rightarrow> env \<Rightarrow> (sg_error \<times> sg_fs_stats \<times> env) outcome" where
  "put_mount fuel lstat now dev type dir x e =
     andthen (sg_update_string (device_name x) dev e) (\<lambda>(rc, p, e).
       let x = x\<lparr>device_name := p\<rparr> in
       if rc \<noteq> SG_ERROR_NONE then Done (rc, x, e) else
     andthen (sg_update_string (device_canonical x) dev e) (\<lambda>(rc, p, e).
       let x = x\<lparr>device_canonical := p\<rparr> in
       if rc \<noteq> SG_ERROR_NONE then Done (rc, x, e) else
     andthen (sg_update_string (fs_type x) type e) (\<lambda>(rc, p, e).
       let x = x\<lparr>fs_type := p\<rparr> in
       if rc \<noteq> SG_ERROR_NONE then Done (rc, x, e) else
     andthen (sg_update_string (mnt_point x) dir e) (\<lambda>(rc, p, e).
       let x = x\<lparr>mnt_point := p\<rparr> in
       if rc \<noteq> SG_ERROR_NONE then Done (rc, x, e) else
     andthen (canon_loop fuel lstat (device_canonical x) e) (\<lambda>(rc, p, e).
       let x = x\<lparr>device_canonical := p\<rparr> in
       if rc \<noteq> SG_ERROR_NONE then Done (rc, x, e) else
       Done (SG_ERROR_NONE, x\<lparr>device_type := 0, fs_systime := now\<rparr>, e))))))"

definition put_fs :: "nat \<Rightarrow> (string \<Rightarrow> lnk) \<Rightarrow> time_t \<Rightarrow> mntent \<Rightarrow> sg_fs_stats \<Rightarrow> env \<Rightarrow> (sg_error \<times> sg_fs_stats \<times> env) outcome" where
  "put_fs fuel lstat now m =
     put_mount fuel lstat now (CStr (mnt_fsname m @ [NUL])) (CStr (mnt_type m @ [NUL])) (CStr (mnt_dir m @ [NUL]))"

text \<open>
  The mount table (\<open>None\<close> when none of its files can be opened), and the \<^verbatim>\<open>errno\<close> that the last call of
  \<^verbatim>\<open>getmntent\<close> leaves.
\<close>

definition sg_get_fs_list_int ::
  "nat \<Rightarrow> (string \<Rightarrow> lnk) \<Rightarrow> mntent list option \<Rightarrow> int \<Rightarrow> time_t \<Rightarrow> sg_fs_stats multi_int" where
  "sg_get_fs_list_int fuel lstat mnttab last_errno now v w =
     (case mnttab of
        None \<Rightarrow> Done (SG_ERROR_SETMNTENT, v, set_env (SET_ERROR_WITH_ERRNO SG_ERROR_SETMNTENT None (wenv w)) w)
      | Some ms \<Rightarrow>
          andthen (fill_rows sg_fs_stats_vector_init_info (put_fs fuel lstat now) ms 0 v w) (\<lambda>(rc, v, w).
            if rc \<noteq> SG_ERROR_NONE then Done (rc, v, w)
            else if last_errno \<noteq> 0 then
              Done (SG_ERROR_DISKINFO, v,
                set_env (SET_ERROR_WITH_ERRNO SG_ERROR_DISKINFO (Some ''getmntent'') ((wenv w)\<lparr>errno := last_errno\<rparr>)) w)
            else Done (SG_ERROR_NONE, v, w)))"

section \<open>The sizes of one file system\<close>

record statvfs =
  f_bsize :: ull
  f_frsize :: ull
  f_iosize :: ull
  f_blocks :: ull
  f_bfree :: ull
  f_bavail :: ull
  f_files :: ull
  f_ffree :: ull
  f_favail :: ull

text \<open>
  The call the platform has and its answer for a mount point: \<^verbatim>\<open>statvfs64\<close> or \<^verbatim>\<open>statvfs\<close> (are there \<^verbatim>\<open>f_iosize\<close> and
  \<^verbatim>\<open>f_frsize\<close>?), \<^verbatim>\<open>statfs\<close> (is there \<^verbatim>\<open>f_favail\<close>, \<^verbatim>\<open>f_iosize\<close>, \<^verbatim>\<open>f_frsize\<close>?), or \<^verbatim>\<open>GetDiskFreeSpace\<close> of Windows
  (sectors per cluster, bytes per sector, free and all clusters).
\<close>

datatype fs_size_os =
    FsStatvfs string bool bool "string \<Rightarrow> statvfs option"
  | FsStatfs bool bool bool "string \<Rightarrow> statvfs option"
  | FsWin32 "string \<Rightarrow> (u32 \<times> u32 \<times> u32 \<times> u32) option"

definition fill_sizes :: "time_t \<Rightarrow> sg_fs_stats \<Rightarrow> sg_fs_stats" where
  "fill_sizes now x =
     x\<lparr>fs_size := block_size x * total_blocks x, fs_avail := block_size x * avail_blocks x,
       fs_free := block_size x * free_blocks x, fs_used := block_size x * used_blocks x, fs_systime := now\<rparr>"

definition fill_statvfs :: "bool \<Rightarrow> bool \<Rightarrow> statvfs \<Rightarrow> sg_fs_stats \<Rightarrow> sg_fs_stats" where
  "fill_statvfs fiosize ffrsize fs x =
     x\<lparr>total_inodes := f_files fs, free_inodes := f_ffree fs, avail_inodes := f_favail fs, used_inodes := f_files fs - f_ffree fs,
       io_size := (if fiosize then f_iosize fs else f_bsize fs), block_size := (if ffrsize then f_frsize fs else f_bsize fs),
       total_blocks := f_blocks fs, free_blocks := f_bfree fs, avail_blocks := f_bavail fs, used_blocks := f_blocks fs - f_bfree fs\<rparr>"

text \<open>Without \<^verbatim>\<open>f_favail\<close> the assignment to \<^verbatim>\<open>avail_inodes\<close> runs into the next one.\<close>

definition fill_statfs :: "bool \<Rightarrow> bool \<Rightarrow> bool \<Rightarrow> statvfs \<Rightarrow> sg_fs_stats \<Rightarrow> sg_fs_stats" where
  "fill_statfs ffavail fiosize ffrsize fs x =
     x\<lparr>total_inodes := f_files fs, free_inodes := f_ffree fs,
       avail_inodes := (if ffavail then f_favail fs else f_files fs - f_ffree fs), used_inodes := f_files fs - f_ffree fs,
       io_size := (if fiosize then f_iosize fs else if ffrsize then f_frsize fs else f_bsize fs), block_size := f_bsize fs,
       total_blocks := f_blocks fs, free_blocks := f_bfree fs, avail_blocks := f_bavail fs, used_blocks := f_blocks fs - f_bfree fs\<rparr>"

definition fill_win32 :: "u32 \<times> u32 \<times> u32 \<times> u32 \<Rightarrow> sg_fs_stats \<Rightarrow> sg_fs_stats" where
  "fill_win32 a x =
     (case a of (spc, bps, fc, tc) \<Rightarrow>
        (let bs = ucast spc * ucast bps; tb = bs * ucast tc; fb = ucast fc in
         x\<lparr>total_inodes := 0, free_inodes := 0, avail_inodes := 0, used_inodes := 0, io_size := bs, block_size := bs,
           total_blocks := tb, free_blocks := fb, avail_blocks := tb - fb, used_blocks := tb - fb\<rparr>))"

definition sg_fill_fs_stat_int :: "fs_size_os \<Rightarrow> time_t \<Rightarrow> sg_fs_stats \<Rightarrow> env \<Rightarrow> (sg_error \<times> sg_fs_stats \<times> env) outcome" where
  "sg_fill_fs_stat_int os now x e =
     andthen (src_bytes (mnt_point x)) (\<lambda>mb.
     andthen (src_bytes (device_name x)) (\<lambda>db.
     andthen (src_bytes (fs_type x)) (\<lambda>tb.
       let place = '' for mnt_point at '' @ strval mb @ '' (device: '' @ strval db @ '', fs_type: '' @ strval tb @ '')'';
           bad = (\<lambda>msg. Done (SG_ERROR_DISKINFO, x, SET_ERROR_WITH_ERRNO SG_ERROR_DISKINFO (Some msg) e))
       in case os of
            FsStatvfs fn fiosize ffrsize answer \<Rightarrow>
              (case answer (strval mb) of None \<Rightarrow> bad (fn @ place)
               | Some fs \<Rightarrow> Done (SG_ERROR_NONE, fill_sizes now (fill_statvfs fiosize ffrsize fs x), e))
          | FsStatfs ffavail fiosize ffrsize answer \<Rightarrow>
              (case answer (strval mb) of None \<Rightarrow> bad (''statfs'' @ place)
               | Some fs \<Rightarrow> Done (SG_ERROR_NONE, fill_sizes now (fill_statfs ffavail fiosize ffrsize fs x), e))
          | FsWin32 answer \<Rightarrow>
              (case answer (strval mb) of None \<Rightarrow> bad (''GetDiskFreeSpace for '' @ strval mb)
               | Some a \<Rightarrow> Done (SG_ERROR_NONE, fill_sizes now (fill_win32 a x), e)))))"

section \<open>Selection\<close>

text \<open>From the last item to the first: is the type valid, can the sizes be read?\<close>

fun select_loop :: "fs_table \<Rightarrow> fs_size_os \<Rightarrow> time_t \<Rightarrow> nat \<Rightarrow> addr \<Rightarrow> u32 list \<Rightarrow> size_t \<Rightarrow> sg_fs_stats world
    \<Rightarrow> (u32 list \<times> size_t \<times> sg_fs_stats world) outcome" where
  "select_loop t os now 0 tmp valid n w = Done (valid, n, w)"
| "select_loop t os now (Suc i) tmp valid n w =
     andthen (read_item tmp i w) (\<lambda>x.
     andthen (is_valid_fs_type t (fs_type x)) (\<lambda>known.
       if \<not> known then select_loop t os now i tmp valid n w
       else
         andthen (sg_fill_fs_stat_int os now x (wenv w)) (\<lambda>(rc, x, e).
         andthen (write_item tmp i x (set_env e w)) (\<lambda>w.
           if rc \<noteq> SG_ERROR_NONE then select_loop t os now i tmp valid n w
           else select_loop t os now i tmp (BIT_SET valid i) (n + 1) w))))"

text \<open>\<^verbatim>\<open>BIT_SCAN_FWD\<close>: the next bit that is set; the macro does not look for the end of the array.\<close>

function BIT_SCAN_FWD :: "u32 list \<Rightarrow> nat \<Rightarrow> nat outcome" where
  "BIT_SCAN_FWD v i =
     (if 32 * length v \<le> i then Fault (OutOfBounds 0 i) else if BIT_ISSET v i then Done i else BIT_SCAN_FWD v (Suc i))"
  by pat_completeness auto
termination
  by (relation "measure (\<lambda>(v, i). 32 * length v - i)") auto

declare BIT_SCAN_FWD.simps [simp del]

text \<open>The selected items are copied; that a copy fails is not noticed. The result is how many were copied.\<close>

fun pick_loop :: "nat \<Rightarrow> nat \<Rightarrow> nat \<Rightarrow> addr \<Rightarrow> addr \<Rightarrow> u32 list \<Rightarrow> sg_fs_stats world \<Rightarrow> (nat \<times> sg_fs_stats world) outcome" where
  "pick_loop 0 j i tmp v valid w = Done (j, w)"
| "pick_loop (Suc k) j i tmp v valid w =
     andthen (BIT_SCAN_FWD valid i) (\<lambda>i.
     andthen (VECTOR_ITEM_COUNT tmp w) (\<lambda>cnt.
       if unat cnt \<le> i then Done (j, w)
       else
         andthen (read_item tmp i w) (\<lambda>s.
         andthen (read_item v j w) (\<lambda>d.
         andthen (sg_fs_stats_item_copy s d (wenv w)) (\<lambda>(rc, s, d, e).
         andthen (write_item v j d (set_env e w)) (\<lambda>w.
           pick_loop k (Suc j) (Suc i) tmp v valid w))))))"

definition sg_get_fs_stats_int ::
  "fs_table \<Rightarrow> fs_size_os \<Rightarrow> time_t \<Rightarrow> (addr \<Rightarrow> sg_fs_stats world \<Rightarrow> (sg_error \<times> addr \<times> sg_fs_stats world) outcome) \<Rightarrow> sg_fs_stats multi_int" where
  "sg_get_fs_stats_int t os now fs_list v w =
     andthen (fs_list 0 w) (\<lambda>(rc, tmp, w).
     andthen (VECTOR_ITEM_COUNT tmp w) (\<lambda>cnt.
     andthen (if rc = SG_ERROR_NONE \<and> tmp \<noteq> 0 then select_loop t os now (unat cnt) tmp (bits_new (unat cnt)) 0 w
              else Done (bits_new (unat cnt), 0, w)) (\<lambda>(valid, n, w).
     andthen (VECTOR_UPDATE v n sg_fs_stats_vector_init_info w) (\<lambda>(res, v, w).
       case res of
         Inl rc' \<Rightarrow> Done (rc', v, w)
       | Inr _ \<Rightarrow>
           andthen (pick_loop (unat n) 0 0 tmp v valid w) (\<lambda>(j, w).
           andthen (c_assert ''j == n'' (j = unat n)) (\<lambda>_.
           andthen (sg_vector_free tmp w) (\<lambda>w. Done (rc, v, w))))))))"

definition SG_FS_STAT_NOW_IDX :: nat where "SG_FS_STAT_NOW_IDX = 0"
definition SG_FS_STAT_DIFF_IDX :: nat where "SG_FS_STAT_DIFF_IDX = 1"

definition sg_get_fs_stats ::
  "fs_table \<Rightarrow> nat \<Rightarrow> (string \<Rightarrow> lnk) \<Rightarrow> mntent list option \<Rightarrow> int \<Rightarrow> fs_size_os \<Rightarrow> time_t \<Rightarrow> time_t \<Rightarrow> sg_fs_stats access" where
  "sg_get_fs_stats t fuel lstat mnttab last_errno os now1 now2 =
     MULTI_COMP_ACCESS sg_fs_stats_vector_init_info
       (sg_get_fs_stats_int t os now2 (sg_get_fs_list_int fuel lstat mnttab last_errno now1)) SG_FS_STAT_NOW_IDX"

definition sg_get_fs_stats_diff ::
  "fs_table \<Rightarrow> nat \<Rightarrow> (string \<Rightarrow> lnk) \<Rightarrow> mntent list option \<Rightarrow> int \<Rightarrow> fs_size_os \<Rightarrow> time_t \<Rightarrow> time_t \<Rightarrow> sg_fs_stats access" where
  "sg_get_fs_stats_diff t fuel lstat mnttab last_errno os now1 now2 =
     MULTI_COMP_DIFF sg_fs_stats_vector_init_info (sg_get_fs_stats t fuel lstat mnttab last_errno os now1 now2)
       SG_FS_STAT_DIFF_IDX SG_FS_STAT_NOW_IDX"

definition sg_fs_compare_device_name :: "sg_fs_stats \<Rightarrow> sg_fs_stats \<Rightarrow> int outcome" where
  "sg_fs_compare_device_name a b = cmp_field (device_name a) (device_name b)"

definition sg_fs_compare_mnt_point :: "sg_fs_stats \<Rightarrow> sg_fs_stats \<Rightarrow> int outcome" where
  "sg_fs_compare_mnt_point a b = cmp_field (mnt_point a) (mnt_point b)"

section \<open>An entry of the mount table becomes an item\<close>

lemma sg_lupdate_short:
  assumes "nul_free t" "length t < m"
  shows "sg_lupdate_string d (CStr (t @ [NUL])) m e = sg_update_string d (CStr (t @ [NUL])) e"
proof -
  have "strval (take m (t @ [NUL])) = t" using assms by (simp add: strval_append_NUL)
  then have "strnlen (t @ [NUL]) m = Done (length t)" by (simp add: strnlen_def)
  moreover have "strlen (CStr (t @ [NUL])) = Done (length t)"
    using scan_nul_eq [OF assms(1), of "[]" 0] by (simp add: strlen_def src_bytes_def)
  ultimately show ?thesis
    by (simp add: sg_lupdate_string_def sg_update_string_def src_bytes_def cong: cstr.case_cong)
qed

definition canonical :: "(string \<Rightarrow> lnk) \<Rightarrow> string \<Rightarrow> string" where
  "canonical lstat p = (case lstat p of Target t \<Rightarrow> t | _ \<Rightarrow> p)"

text \<open>The names are C strings; what \<^verbatim>\<open>realpath\<close> returned is no link and fits its buffer.\<close>

definition mount_ok :: "nat \<Rightarrow> (string \<Rightarrow> lnk) \<Rightarrow> mntent \<Rightarrow> bool" where
  "mount_ok fuel lstat m \<longleftrightarrow> name_ok (mnt_fsname m) \<and> name_ok (mnt_type m) \<and> name_ok (mnt_dir m) \<and> 2 \<le> fuel \<and>
     (\<forall>t. lstat (mnt_fsname m) = Target t \<longrightarrow> nul_free t \<and> length t \<le> 4096 \<and> (\<forall>u. lstat t \<noteq> Target u))"

lemma canon_loop_ok:
  assumes "mount_ok fuel lstat m"
  shows "\<exists>rc q e'. canon_loop fuel lstat (CStr (mnt_fsname m @ [NUL])) e = Done (rc, q, e') \<and> cstr_ok q \<and>
     (sched e = [] \<longrightarrow> rc = SG_ERROR_NONE \<and> e' = e) \<and>
     (if rc = SG_ERROR_NONE then q = CStr (canonical lstat (mnt_fsname m) @ [NUL]) else error (err e') = rc)"
proof -
  let ?s = "mnt_fsname m"
  obtain f where f: "fuel = Suc (Suc f)" using assms by (auto simp: mount_ok_def dest!: le_Suc_ex)
  have s: "name_ok ?s" "strval (?s @ [NUL]) = ?s" "cstr_ok (CStr (?s @ [NUL]))"
    using assms by (auto simp: mount_ok_def name_ok_def)
  show ?thesis
  proof (cases "lstat ?s")
    case (Target t)
    then have t: "nul_free t" "length t \<le> 4096" "\<And>u. lstat t \<noteq> Target u" "name_ok t" "strval (t @ [NUL]) = t"
      using assms by (auto simp: mount_ok_def name_ok_def)
    obtain rc q e' where u: "sg_update_string (CStr (?s @ [NUL])) (CStr (t @ [NUL])) e = Done (rc, q, e')" "cstr_ok q"
        "sched e = [] \<longrightarrow> rc = SG_ERROR_NONE \<and> e' = e" "if rc = SG_ERROR_NONE then q = CStr (t @ [NUL]) else error (err e') = rc"
      using name_update [OF s(3) t(4), of e] by (elim exE conjE)
    have stop: "canon_loop (Suc f) lstat (CStr (t @ [NUL])) e' = Done (SG_ERROR_NONE, CStr (t @ [NUL]), e')"
      using t(3,5) by (cases "lstat t") (auto simp: src_bytes_def)
    have "canon_loop fuel lstat (CStr (?s @ [NUL])) e =
        (if rc \<noteq> SG_ERROR_NONE then Done (rc, q, e') else canon_loop (Suc f) lstat q e')"
      unfolding f using Target s(2) u(1) sg_lupdate_short [OF t(1), of 4097] t(2)
      by (simp add: src_bytes_def)
    with u stop Target show ?thesis by (cases "rc = SG_ERROR_NONE") (auto simp: canonical_def)
  qed (use f s in \<open>auto simp: src_bytes_def canonical_def\<close>)
qed

text \<open>What the mount table determines of an item.\<close>

definition fs_head :: "sg_fs_stats \<Rightarrow> cstr \<times> cstr \<times> cstr \<times> cstr \<times> u32 \<times> time_t" where
  "fs_head x = (cstr_copy (device_name x), cstr_copy (device_canonical x), cstr_copy (fs_type x), cstr_copy (mnt_point x),
     device_type x, fs_systime x)"

definition mount_head :: "(string \<Rightarrow> lnk) \<Rightarrow> time_t \<Rightarrow> mntent \<Rightarrow> cstr \<times> cstr \<times> cstr \<times> cstr \<times> u32 \<times> time_t" where
  "mount_head lstat now m =
     (CStr (mnt_fsname m @ [NUL]), CStr (canonical lstat (mnt_fsname m) @ [NUL]), CStr (mnt_type m @ [NUL]), CStr (mnt_dir m @ [NUL]), 0, now)"

lemma canonical_nul_free: "mount_ok fuel lstat m \<Longrightarrow> nul_free (canonical lstat (mnt_fsname m))"
  by (auto simp: canonical_def mount_ok_def name_ok_def split: lnk.splits)

lemma put_fs_law:
  assumes "mount_ok fuel lstat m" "fs_ok x"
  shows "\<exists>rc y e'. put_fs fuel lstat now m x e = Done (rc, y, e') \<and> fs_ok y \<and>
      (sched e = [] \<longrightarrow> rc = SG_ERROR_NONE \<and> e' = e \<and> fs_head y = mount_head lstat now m) \<and>
      (rc \<noteq> SG_ERROR_NONE \<longrightarrow> error (err e') = rc)"
proof -
  have s: "name_ok (mnt_fsname m)" "name_ok (mnt_type m)" "name_ok (mnt_dir m)" using assms(1) by (simp_all add: mount_ok_def)
  have d: "cstr_ok (device_name x)" "cstr_ok (device_canonical x)" "cstr_ok (fs_type x)" "cstr_ok (mnt_point x)"
    using assms(2) by (simp_all add: fs_ok_def)
  obtain r1 p1 e1 where u1: "sg_update_string (device_name x) (CStr (mnt_fsname m @ [NUL])) e = Done (r1, p1, e1)" "cstr_ok p1"
    "sched e = [] \<longrightarrow> r1 = SG_ERROR_NONE \<and> e1 = e" "if r1 = SG_ERROR_NONE then p1 = CStr (mnt_fsname m @ [NUL]) else error (err e1) = r1"
    using name_update [OF d(1) s(1), of e] by (elim exE conjE)
  obtain r2 p2 e2 where u2: "sg_update_string (device_canonical x) (CStr (mnt_fsname m @ [NUL])) e1 = Done (r2, p2, e2)" "cstr_ok p2"
    "sched e1 = [] \<longrightarrow> r2 = SG_ERROR_NONE \<and> e2 = e1" "if r2 = SG_ERROR_NONE then p2 = CStr (mnt_fsname m @ [NUL]) else error (err e2) = r2"
    using name_update [OF d(2) s(1), of e1] by (elim exE conjE)
  obtain r3 p3 e3 where u3: "sg_update_string (fs_type x) (CStr (mnt_type m @ [NUL])) e2 = Done (r3, p3, e3)" "cstr_ok p3"
    "sched e2 = [] \<longrightarrow> r3 = SG_ERROR_NONE \<and> e3 = e2" "if r3 = SG_ERROR_NONE then p3 = CStr (mnt_type m @ [NUL]) else error (err e3) = r3"
    using name_update [OF d(3) s(2), of e2] by (elim exE conjE)
  obtain r4 p4 e4 where u4: "sg_update_string (mnt_point x) (CStr (mnt_dir m @ [NUL])) e3 = Done (r4, p4, e4)" "cstr_ok p4"
    "sched e3 = [] \<longrightarrow> r4 = SG_ERROR_NONE \<and> e4 = e3" "if r4 = SG_ERROR_NONE then p4 = CStr (mnt_dir m @ [NUL]) else error (err e4) = r4"
    using name_update [OF d(4) s(3), of e3] by (elim exE conjE)
  obtain r5 p5 e5 where u5: "canon_loop fuel lstat (CStr (mnt_fsname m @ [NUL])) e4 = Done (r5, p5, e5)" "cstr_ok p5"
    "sched e4 = [] \<longrightarrow> r5 = SG_ERROR_NONE \<and> e5 = e4"
    "if r5 = SG_ERROR_NONE then p5 = CStr (canonical lstat (mnt_fsname m) @ [NUL]) else error (err e5) = r5"
    using canon_loop_ok [OF assms(1), of e4] by (elim exE conjE)
  have cc: "cstr_copy (CStr (t @ [NUL])) = CStr (t @ [NUL])" if "nul_free t" for t using that by (simp add: cstr_copy_def)
  have nf: "nul_free (mnt_fsname m)" "nul_free (mnt_type m)" "nul_free (mnt_dir m)" "nul_free (canonical lstat (mnt_fsname m))"
    using s canonical_nul_free [OF assms(1)] by (simp_all add: name_ok_def)
  consider "r1 \<noteq> SG_ERROR_NONE" | "r1 = SG_ERROR_NONE" "r2 \<noteq> SG_ERROR_NONE"
    | "r1 = SG_ERROR_NONE" "r2 = SG_ERROR_NONE" "r3 \<noteq> SG_ERROR_NONE"
    | "r1 = SG_ERROR_NONE" "r2 = SG_ERROR_NONE" "r3 = SG_ERROR_NONE" "r4 \<noteq> SG_ERROR_NONE"
    | "r1 = SG_ERROR_NONE" "r2 = SG_ERROR_NONE" "r3 = SG_ERROR_NONE" "r4 = SG_ERROR_NONE" "r5 \<noteq> SG_ERROR_NONE"
    | "r1 = SG_ERROR_NONE" "r2 = SG_ERROR_NONE" "r3 = SG_ERROR_NONE" "r4 = SG_ERROR_NONE" "r5 = SG_ERROR_NONE" by blast
  then show ?thesis
    using u1 u2 u3 u4 u5 d
    by cases (simp_all add: put_fs_def put_mount_def Let_def fs_ok_def fs_head_def mount_head_def cc [OF nf(1)] cc [OF nf(2)] cc [OF nf(3)] cc [OF nf(4)], force+)
qed

interpretation fsl: row_items sg_fs_stats_vector_init_info fs_ok fs_head "put_fs fuel lstat now" "mount_ok fuel lstat" "mount_head lstat now"
  for fuel lstat now
  by unfold_locales (rule put_fs_law)

end
