(* ===== verification/Fs_Select.thy ===== *)
theory Fs_Select
  imports Fs_Read
begin

text \<open>
  What \<^verbatim>\<open>sg_get_fs_stats\<close> delivers (\<^verbatim>\<open>src/libstatgrab/disk_stats.c\<close>): of the mount table the entries whose type is
  valid and whose sizes the system knows, in the order of the table. The marks of the selection are a bit
  array, the copies go to a vector of exactly that many items.
\<close>

section \<open>One item\<close>

text \<open>How the platform fills the numbers of the file system at a mount point, or \<open>None\<close> when it cannot.\<close>

definition sizes_of :: "fs_size_os \<Rightarrow> string \<Rightarrow> (sg_fs_stats \<Rightarrow> sg_fs_stats) option" where
  "sizes_of os mp =
     (case os of
        FsStatvfs fn fiosize ffrsize answer \<Rightarrow> map_option (fill_statvfs fiosize ffrsize) (answer mp)
      | FsStatfs ffavail fiosize ffrsize answer \<Rightarrow> map_option (fill_statfs ffavail fiosize ffrsize) (answer mp)
      | FsWin32 answer \<Rightarrow> map_option fill_win32 (answer mp))"

definition no_numbers :: "cstr \<Rightarrow> cstr \<Rightarrow> cstr \<Rightarrow> cstr \<Rightarrow> u32 \<Rightarrow> sg_fs_stats" where
  "no_numbers a b c d ty =
     \<lparr>device_name = a, device_canonical = b, fs_type = c, mnt_point = d, device_type = ty, fs_size = 0, fs_used = 0,
      fs_free = 0, fs_avail = 0, total_inodes = 0, used_inodes = 0, free_inodes = 0, avail_inodes = 0, io_size = 0,
      block_size = 0, total_blocks = 0, free_blocks = 0, used_blocks = 0, avail_blocks = 0, fs_systime = 0\<rparr>"

text \<open>The numbers do not depend on what the item held before.\<close>

lemma sizes_fresh:
  assumes "sizes_of os mp = Some f"
  shows "fill_sizes now (f x) =
    fill_sizes now (f (no_numbers (device_name x) (device_canonical x) (fs_type x) (mnt_point x) (device_type x)))"
    "fs_view (fill_sizes now (f x)) = fill_sizes now (f (fs_view x))" "fs_ok (fill_sizes now (f x)) = fs_ok x"
  using assms
  by (auto simp: sizes_of_def fill_sizes_def fill_statvfs_def fill_statfs_def fill_win32_def no_numbers_def fs_view_def
      fs_ok_def Let_def split: fs_size_os.splits prod.splits)

lemma fill_eq:
  assumes "src_bytes (mnt_point x) = Done mb" "src_bytes (device_name x) = Done db" "src_bytes (fs_type x) = Done tb"
  shows "case sizes_of os (strval mb) of
      Some f \<Rightarrow> sg_fill_fs_stat_int os now x e = Done (SG_ERROR_NONE, fill_sizes now (f x), e)
    | None \<Rightarrow> \<exists>e'. sg_fill_fs_stat_int os now x e = Done (SG_ERROR_DISKINFO, x, e') \<and> sched e' = sched e"
  using assms
  by (auto simp: sg_fill_fs_stat_int_def sizes_of_def Let_def frame_simps split: fs_size_os.splits option.splits)

text \<open>A name field that holds the string \<open>s\<close>.\<close>

lemma copy_names:
  assumes "cstr_copy p = CStr (s @ [NUL])" "nul_free s"
  shows "\<exists>b. src_bytes p = Done b \<and> strval b = s" "cstr_val p = Some s"
  using assms by (cases p; auto simp: cstr_copy_def src_bytes_def)+

section \<open>The selection\<close>

definition fs_wanted :: "fs_table \<Rightarrow> fs_size_os \<Rightarrow> mntent \<Rightarrow> bool" where
  "fs_wanted t os m \<longleftrightarrow> map tolower (mnt_type m) \<in> fs_types t \<and> sizes_of os (mnt_dir m) \<noteq> None"

text \<open>The item of a mount.\<close>

definition fs_of :: "(string \<Rightarrow> lnk) \<Rightarrow> fs_size_os \<Rightarrow> time_t \<Rightarrow> mntent \<Rightarrow> sg_fs_stats" where
  "fs_of lstat os now m =
     (case sizes_of os (mnt_dir m) of
        Some f \<Rightarrow> fill_sizes now (f (no_numbers (CStr (mnt_fsname m @ [NUL])) (CStr (canonical lstat (mnt_fsname m) @ [NUL]))
                   (CStr (mnt_type m @ [NUL])) (CStr (mnt_dir m @ [NUL])) 0))
      | None \<Rightarrow> no_numbers CNull CNull CNull CNull 0)"

text \<open>What the selection makes of an item.\<close>

definition fs_stepped :: "(string \<Rightarrow> lnk) \<Rightarrow> fs_table \<Rightarrow> fs_size_os \<Rightarrow> time_t \<Rightarrow> time_t \<Rightarrow> mntent \<Rightarrow> sg_fs_stats \<Rightarrow> bool" where
  "fs_stepped lstat t os now1 now2 m y \<longleftrightarrow> fs_ok y \<and> (fs_wanted t os m \<longrightarrow> fs_view y = fs_of lstat os now2 m)"

lemma select_step:
  assumes t: "table_ok t" and m: "mount_ok fuel lstat m" and x: "fs_ok x" "fs_head x = mount_head lstat now1 m"
  shows "\<exists>known. is_valid_fs_type t (fs_type x) = Done known \<and>
    (if known then \<exists>rc y e'. sg_fill_fs_stat_int os now2 x e = Done (rc, y, e') \<and> sched e' = sched e \<and>
         fs_stepped lstat t os now1 now2 m y \<and> (rc = SG_ERROR_NONE \<longleftrightarrow> fs_wanted t os m)
     else \<not> fs_wanted t os m)"
proof -
  have nf: "nul_free (mnt_fsname m)" "nul_free (mnt_type m)" "nul_free (mnt_dir m)" using m by (simp_all add: mount_ok_def name_ok_def)
  have h: "cstr_copy (device_name x) = CStr (mnt_fsname m @ [NUL])" "cstr_copy (fs_type x) = CStr (mnt_type m @ [NUL])"
    "cstr_copy (mnt_point x) = CStr (mnt_dir m @ [NUL])" "cstr_copy (device_canonical x) = CStr (canonical lstat (mnt_fsname m) @ [NUL])"
    "device_type x = 0"
    using x(2) by (simp_all add: fs_head_def mount_head_def)
  obtain mb db tb where b: "src_bytes (mnt_point x) = Done mb" "strval mb = mnt_dir m" "src_bytes (device_name x) = Done db"
      "src_bytes (fs_type x) = Done tb"
    using copy_names [OF h(1) nf(1)] copy_names [OF h(2) nf(2)] copy_names [OF h(3) nf(3)] by auto
  have k: "is_valid_fs_type t (fs_type x) = Done (map tolower (mnt_type m) \<in> fs_types t)"
    using is_valid_iff [OF t, of "fs_type x"] copy_names [OF h(2) nf(2)] by simp
  have v: "fs_view (fill_sizes now2 (f x)) = fs_of lstat os now2 m" if "sizes_of os (mnt_dir m) = Some f" for f
    using sizes_fresh(2) [OF that] sizes_fresh(1) [OF that, of now2 "fs_view x"] that h by (simp add: fs_view_def fs_of_def)
  show ?thesis
  proof (cases "sizes_of os (mnt_dir m)")
    case None
    with fill_eq [OF b(1,3,4), of os now2 e] b(2) k x(1) show ?thesis by (auto simp: fs_stepped_def fs_wanted_def)
  next
    case (Some f)
    with fill_eq [OF b(1,3,4), of os now2 e] b(2) k x(1) v [OF Some] sizes_fresh(3) [OF Some] show ?thesis
      by (auto simp: fs_stepped_def fs_wanted_def)
  qed
qed

text \<open>The marks and the count; items behind \<open>i\<close> are not looked at.\<close>

lemma select_loop_ok:
  assumes "table_ok t" "list_all (mount_ok fuel lstat) ms" "vload tmp w = Done b" "vec_ok sg_fs_stats_vector_init_info fs_ok b"
    and "length (contents b) = length ms" "i \<le> length ms" "length ms < 32 * length valid"
    and "\<forall>j < i. fs_head (contents b ! j) = mount_head lstat now1 (ms ! j)"
  shows "\<exists>valid' w' b'. select_loop t os now2 i tmp valid n w = Done (valid', n + word_of_nat (length (filter (fs_wanted t os) (take i ms))), w') \<and>
     heap_ok w' = heap_ok w \<and> sched (wenv w') = sched (wenv w) \<and> (\<forall>u. u \<noteq> tmp \<longrightarrow> blocks w' u = blocks w u) \<and>
     vload tmp w' = Done b' \<and> vec_ok sg_fs_stats_vector_init_info fs_ok b' \<and> length (contents b') = length ms \<and>
     (\<forall>j < length ms. if j < i then fs_stepped lstat t os now1 now2 (ms ! j) (contents b' ! j) else contents b' ! j = contents b ! j) \<and>
     length valid' = length valid \<and>
     (\<forall>j < 32 * length valid. BIT_ISSET valid' j \<longleftrightarrow> BIT_ISSET valid j \<or> j < i \<and> fs_wanted t os (ms ! j))"
  using assms(3-8)
proof (induction i arbitrary: valid n w b)
  case 0
  then show ?case by auto
next
  case (Suc i)
  let ?ty = sg_fs_stats_vector_init_info
  have i: "i < length ms" "i < length (contents b)" using Suc.prems by auto
  have il: "i < length (slots b)" "slots b ! i = contents b ! i" "i < unat (used_count (hdr b))"
    using i(2) length_contents [OF Suc.prems(2)] Suc.prems(2) by (auto simp: contents_def vec_ok_def)
  have m: "mount_ok fuel lstat (ms ! i)" using assms(2) i(1) by (simp add: list_all_length)
  have ok: "fs_ok (contents b ! i)" using vec_ok_contents [OF Suc.prems(2)] i(2) by simp
  have rd: "read_item tmp i w = Done (contents b ! i)" using Suc.prems(1) il by (simp add: read_item_def)
  have hd: "fs_head (contents b ! i) = mount_head lstat now1 (ms ! i)" using Suc.prems(6) by simp
  obtain known where k: "is_valid_fs_type t (fs_type (contents b ! i)) = Done known"
    "if known then \<exists>rc y e'. sg_fill_fs_stat_int os now2 (contents b ! i) (wenv w) = Done (rc, y, e') \<and> sched e' = sched (wenv w) \<and>
         fs_stepped lstat t os now1 now2 (ms ! i) y \<and> (rc = SG_ERROR_NONE \<longleftrightarrow> fs_wanted t os (ms ! i))
     else \<not> fs_wanted t os (ms ! i)"
    using select_step [OF assms(1) m ok hd, of os now2 "wenv w"] by (elim exE conjE)
  have tk: "take (Suc i) ms = take i ms @ [ms ! i]" using i(1) by (simp add: take_Suc_conv_app_nth)
  show ?case
  proof (cases known)
    case False
    have st: "select_loop t os now2 (Suc i) tmp valid n w = select_loop t os now2 i tmp valid n w"
      using rd k(1) False by simp
    have "\<not> fs_wanted t os (ms ! i)" using k(2) False by simp
    moreover from this ok have "fs_stepped lstat t os now1 now2 (ms ! i) (contents b ! i)" by (simp add: fs_stepped_def)
    ultimately show ?thesis
      using Suc.IH [OF Suc.prems(1-3) _ Suc.prems(5), of n] Suc.prems(4,6) st tk i(1)
      by (auto simp: less_Suc_eq all_conj_distrib split: if_splits)
  next
    case True
    then obtain rc y e' where y: "sg_fill_fs_stat_int os now2 (contents b ! i) (wenv w) = Done (rc, y, e')" "sched e' = sched (wenv w)"
        "fs_stepped lstat t os now1 now2 (ms ! i) y" "rc = SG_ERROR_NONE \<longleftrightarrow> fs_wanted t os (ms ! i)"
      using k(2) by auto
    let ?b = "b\<lparr>slots := (slots b)[i := y]\<rparr>"
    let ?w = "vstore tmp ?b (set_env e' w)"
    let ?v = "if fs_wanted t os (ms ! i) then BIT_SET valid i else valid"
    let ?n = "if fs_wanted t os (ms ! i) then n + 1 else n"
    have ry: "fs_ok y" using y(3) by (simp add: fs_stepped_def)
    note sl = set_slot [OF Suc.prems(2) i(2), of y, OF ry]
    have ld: "tmp \<noteq> 0" "blocks w tmp = Some b" "vload tmp ?w = Done ?b" using Suc.prems(1) by (simp_all add: vload_Done_iff vload_vstore)
    have st: "select_loop t os now2 (Suc i) tmp valid n w = select_loop t os now2 i tmp ?v ?n ?w"
      using rd k(1) True y(1,4) Suc.prems(1) sl(1) by (simp add: write_item_def vload_set_env)
    have pre: "length (contents ?b) = length ms" "length ms < 32 * length ?v" "length ?v = length valid"
        "\<forall>j < i. fs_head (contents ?b ! j) = mount_head lstat now1 (ms ! j)"
      using Suc.prems(3,5,6) sl(4) by (simp_all add: length_BIT_SET)
    obtain valid' w' b' where s: "select_loop t os now2 i tmp ?v ?n ?w =
          Done (valid', ?n + word_of_nat (length (filter (fs_wanted t os) (take i ms))), w')"
        "heap_ok w' = heap_ok ?w" "sched (wenv w') = sched (wenv ?w)" "\<forall>u. u \<noteq> tmp \<longrightarrow> blocks w' u = blocks ?w u"
        "vload tmp w' = Done b'" "vec_ok ?ty fs_ok b'" "length (contents b') = length ms"
        "\<forall>j < length ms. if j < i then fs_stepped lstat t os now1 now2 (ms ! j) (contents b' ! j) else contents b' ! j = contents ?b ! j"
        "length valid' = length ?v"
        "\<forall>j < 32 * length ?v. BIT_ISSET valid' j \<longleftrightarrow> BIT_ISSET ?v j \<or> j < i \<and> fs_wanted t os (ms ! j)"
      using Suc.IH [OF ld(3) sl(3) pre(1) less_imp_le [OF i(1)] pre(2,4), of ?n] by (elim exE conjE)
    have "heap_ok w' = heap_ok w" using s(2) ld(1,2) by (auto simp: heap_ok_def)
    moreover have "\<forall>j < length ms. if j < Suc i then fs_stepped lstat t os now1 now2 (ms ! j) (contents b' ! j) else contents b' ! j = contents b ! j"
    proof (intro allI impI)
      show "if j < Suc i then fs_stepped lstat t os now1 now2 (ms ! j) (contents b' ! j) else contents b' ! j = contents b ! j"
        if "j < length ms" for j
      using s(8) that y(3) sl(4) i by (cases "j = i") (auto simp: less_Suc_eq split: if_splits)
    qed
    moreover have "\<forall>j < 32 * length valid. BIT_ISSET valid' j \<longleftrightarrow> BIT_ISSET valid j \<or> j < Suc i \<and> fs_wanted t os (ms ! j)"
      using s(10) pre(3) i(1) Suc.prems(5) by (auto simp: BIT_ISSET_BIT_SET less_Suc_eq)
    moreover have "?n + word_of_nat (length (filter (fs_wanted t os) (take i ms))) =
        n + word_of_nat (length (filter (fs_wanted t os) (take (Suc i) ms)))" using tk by simp
    ultimately show ?thesis
      using st s(1,3-7,9) y(2) pre(3) by (intro exI [of _ valid'] exI [of _ w'] exI [of _ b']) (simp split del: if_split del: select_loop.simps)
  qed
qed

section \<open>Copying what was selected\<close>

lemma scan_fwd:
  assumes "BIT_ISSET v k" "i \<le> k" "k < 32 * length v" "\<forall>j. i \<le> j \<and> j < k \<longrightarrow> \<not> BIT_ISSET v j"
  shows "BIT_SCAN_FWD v i = Done k"
  using assms
proof (induction v i rule: BIT_SCAN_FWD.induct)
  case (1 v i)
  then show ?case unfolding BIT_SCAN_FWD.simps [of v i] by (cases "i = k") auto
qed

lemma upt_first:
  assumes "filter P [i..<n] = k # ks"
  shows "P k" "i \<le> k" "k < n" "\<forall>j. i \<le> j \<and> j < k \<longrightarrow> \<not> P j" "filter P [Suc k..<n] = ks"
proof -
  obtain us vs where u: "[i..<n] = us @ k # vs" "\<forall>u \<in> set us. \<not> P u" "P k" "ks = filter P vs"
    using assms unfolding filter_eq_Cons_iff by auto
  let ?m = "length us"
  have l: "?m < n - i" using arg_cong [OF u(1), of length] by (simp only: length_upt length_append list.size)
  have "drop ?m [i..<n] = k # vs" "take ?m [i..<n] = us" using u(1) by simp_all
  with l have "[i + ?m..<n] = k # vs" "[i..<i + ?m] = us" "i + ?m \<le> n" by simp_all
  then have m: "i + ?m = k" "k < n" "vs = [Suc k..<n]" "us = [i..<k]" by (auto simp: upt_eq_Cons_conv)
  with u m show "P k" "i \<le> k" "k < n" "\<forall>j. i \<le> j \<and> j < k \<longrightarrow> \<not> P j" "filter P [Suc k..<n] = ks" by auto
qed

lemma pick_loop_ok:
  assumes "heap_ok w" "sched (wenv w) = []" "tmp \<noteq> v" "vload tmp w = Done bt" "vec_ok sg_fs_stats_vector_init_info fs_ok bt"
    and "vload v w = Done b" "vec_ok sg_fs_stats_vector_init_info fs_ok b"
    and "filter (BIT_ISSET valid) [i..<length (contents bt)] = ks" "length (contents bt) < 32 * length valid"
    and "length (contents b) = j + length ks"
  shows "\<exists>w' b'. pick_loop (length ks) j i tmp v valid w = Done (j + length ks, w') \<and> heap_ok w' \<and> wenv w' = wenv w \<and>
     (\<forall>u. u \<noteq> v \<longrightarrow> blocks w' u = blocks w u) \<and> vload v w' = Done b' \<and> vec_ok sg_fs_stats_vector_init_info fs_ok b' \<and>
     length (slots b') = length (slots b) \<and>
     map fs_view (contents b') = map fs_view (take j (contents b)) @ map (\<lambda>k. fs_view (contents bt ! k)) ks"
  using assms(1,2,4-10)
proof (induction ks arbitrary: i j w b)
  case Nil
  then show ?case by auto
next
  case (Cons k ks)
  note k = upt_first [OF Cons.prems(7)]
  let ?n = "length (contents bt)"
  have cnt: "VECTOR_ITEM_COUNT tmp w = Done (used_count (hdr bt))" "unat (used_count (hdr bt)) = ?n"
    using Cons.prems(3) length_contents [OF Cons.prems(4)] by (auto simp: VECTOR_ITEM_COUNT_def vload_Done_iff vload_def)
  have j: "j < length (contents b)" using Cons.prems(9) by simp
  have ks: "fs_ok (contents bt ! k)" "fs_ok (contents b ! j)"
    using vec_ok_contents [OF Cons.prems(4)] vec_ok_contents [OF Cons.prems(6)] k(3) j by simp_all
  obtain d where d: "sg_fs_stats_item_copy (contents bt ! k) (contents b ! j) (wenv w) = Done (SG_ERROR_NONE, contents bt ! k, d, wenv w)"
      "fs_ok d" "fs_view d = fs_view (contents bt ! k)"
    using sg_fs_stats_item_copy_law [OF ks, of "wenv w"] Cons.prems(2) by auto
  note sl = set_slot [OF Cons.prems(6) j, of d, OF d(2)] and st = set_slot [OF Cons.prems(4) k(3) ks(1)]
  let ?b = "b\<lparr>slots := (slots b)[j := d]\<rparr>"
  let ?w = "vstore v ?b w"
  have v: "v \<noteq> 0" "blocks w v = Some b" using Cons.prems(5) by (simp_all add: vload_Done_iff)
  have e: "set_env (wenv w) w = w" by (simp add: set_env_def)
  have rd: "read_item tmp k w = Done (contents bt ! k)" "read_item v j w = Done (contents b ! j)" "write_item v j d w = Done ?w"
    using Cons.prems(3,5) sl(1,2) st(1,2) by (simp_all add: read_item_def write_item_def)
  have sc: "BIT_SCAN_FWD valid i = Done k" using scan_fwd [OF k(1,2) _ k(4)] k(3) Cons.prems(8) by simp
  have run: "pick_loop (length (k # ks)) j i tmp v valid w = pick_loop (length ks) (Suc j) (Suc k) tmp v valid ?w"
    using sc cnt k(3) rd d(1) e by simp
  have pre: "heap_ok ?w" "sched (wenv ?w) = []" "vload tmp ?w = Done bt" "vload v ?w = Done ?b" "length (contents ?b) = Suc j + length ks"
    using Cons.prems(1,2,3,9) v assms(3) sl(4) by (simp_all add: heap_ok_vstore vload_vstore vload_Done_iff)
  obtain w' b' where i: "pick_loop (length ks) (Suc j) (Suc k) tmp v valid ?w = Done (Suc j + length ks, w')" "heap_ok w'" "wenv w' = wenv ?w"
     "\<forall>u. u \<noteq> v \<longrightarrow> blocks w' u = blocks ?w u" "vload v w' = Done b'" "vec_ok sg_fs_stats_vector_init_info fs_ok b'"
     "length (slots b') = length (slots ?b)"
     "map fs_view (contents b') = map fs_view (take (Suc j) (contents ?b)) @ map (\<lambda>k. fs_view (contents bt ! k)) ks"
    using Cons.IH [OF pre(1-3) Cons.prems(4) pre(4) sl(3) k(5) Cons.prems(8) pre(5)] by (elim exE conjE)
  have "take (Suc j) (contents ?b) = take j (contents b) @ [d]" using sl(4) j by (simp add: take_Suc_conv_app_nth)
  with run i d(3) v(1) show ?case by (intro exI [of _ w'] exI [of _ b']) simp
qed

section \<open>The gathering function\<close>

text \<open>The readable mount table.\<close>

definition fs_feasible :: "nat \<Rightarrow> (string \<Rightarrow> lnk) \<Rightarrow> fs_table \<Rightarrow> fs_size_os \<Rightarrow> mntent list \<Rightarrow> bool" where
  "fs_feasible fuel lstat t os ms \<longleftrightarrow> table_ok t \<and> list_all (mount_ok fuel lstat) ms \<and>
     room sg_fs_stats_vector_init_info (length ms + 2 ^ 33) \<and> (\<exists>m \<in> set ms. fs_wanted t os m)"

lemma filter_indices:
  assumes "\<forall>i < length xs. P i \<longleftrightarrow> Q (xs ! i)"
  shows "map f (filter Q xs) = map (\<lambda>i. f (xs ! i)) (filter P [0..<length xs])"
proof -
  have "filter P [0..<length xs] = filter (\<lambda>i. Q (xs ! i)) [0..<length xs]" using assms by (intro filter_cong) auto
  then show ?thesis using arg_cong [OF filter_map_nth [of xs Q], of "map f"] by (simp add: comp_def)
qed

lemma get_fs_stats_law:
  assumes f: "fs_feasible fuel lstat t os ms" and w: "heap_ok w" "sched (wenv w) = []"
    and v: "vec_at sg_fs_stats_vector_init_info fs_ok v [] w"
  shows "\<exists>v' w' xs. sg_get_fs_stats_int t os now2 (sg_get_fs_list_int fuel lstat (Some ms) 0 now1) v w = Done (SG_ERROR_NONE, v', w') \<and>
     heap_ok w' \<and> sched (wenv w') = [] \<and> replaced v v' w w' \<and> v' \<noteq> 0 \<and> vec_at sg_fs_stats_vector_init_info fs_ok v' xs w' \<and>
     (roomy sg_fs_stats_vector_init_info v w \<longrightarrow> roomy sg_fs_stats_vector_init_info v' w') \<and>
     map fs_view xs = map (fs_of lstat os now2) (filter (fs_wanted t os) ms)"
proof -
  let ?ty = sg_fs_stats_vector_init_info and ?sel = "fs_wanted t os"
  have t: "table_ok t" "list_all (mount_ok fuel lstat) ms" "room ?ty (length ms + 2 ^ 33)" "\<exists>m \<in> set ms. ?sel m" "ms \<noteq> []"
    using f by (auto simp: fs_feasible_def)
  obtain b where b: "vload v w = Done b" "vec_ok ?ty fs_ok b" "contents b = []" using v by (auto simp: vec_at_def)
  obtain tmp b1 w1 where l: "fill_rows ?ty (put_fs fuel lstat now1) ms 0 0 w = Done (SG_ERROR_NONE, tmp, w1)" "heap_ok w1" "wenv w1 = wenv w"
     "tmp \<noteq> 0" "blocks w tmp = None" "\<forall>u. u \<noteq> tmp \<longrightarrow> blocks w1 u = blocks w u" "vload tmp w1 = Done b1" "vec_ok ?ty fs_ok b1"
     "map fs_head (contents b1) = map (mount_head lstat now1) ms"
    using fsl.fill_rows_null [OF w t(5,2,3), where now = now1] by (elim exE conjE)
  have n1: "length (contents b1) = length ms" using arg_cong [OF l(9), of length] by simp
  then have cnt: "VECTOR_ITEM_COUNT tmp w1 = Done (used_count (hdr b1))" "unat (used_count (hdr b1)) = length ms"
    using l(4,7) length_contents [OF l(8)] by (auto simp: VECTOR_ITEM_COUNT_def)
  have hd: "\<forall>j < length ms. fs_head (contents b1 ! j) = mount_head lstat now1 (ms ! j)"
    using l(9) n1 by (metis nth_map)
  let ?bits = "bits_new (length ms)"
  have cap: "length ms < 32 * length ?bits" by (rule bits.capacity_new)
  obtain valid w2 b2 where s: "select_loop t os now2 (length ms) tmp ?bits 0 w1 = Done (valid, word_of_nat (length (filter ?sel ms)), w2)"
     "heap_ok w2 = heap_ok w1" "sched (wenv w2) = sched (wenv w1)" "\<forall>u. u \<noteq> tmp \<longrightarrow> blocks w2 u = blocks w1 u"
     "vload tmp w2 = Done b2" "vec_ok ?ty fs_ok b2" "length (contents b2) = length ms"
     "\<forall>j < length ms. if j < length ms then fs_stepped lstat t os now1 now2 (ms ! j) (contents b2 ! j) else contents b2 ! j = contents b1 ! j"
     "length valid = length ?bits" "\<forall>j < 32 * length ?bits. BIT_ISSET valid j \<longleftrightarrow> BIT_ISSET ?bits j \<or> j < length ms \<and> ?sel (ms ! j)"
    using select_loop_ok [OF t(1,2) l(7,8) n1 order_refl cap hd, of os now2 0]
    unfolding take_all [OF order_refl] add_0 by (elim exE conjE)
  let ?k = "length (filter ?sel ms)"
  let ?n = "word_of_nat ?k :: size_t"
  have k: "?k \<le> length ms" "0 < ?k" using t(4) by (auto simp: filter_empty_conv)
  have rm: "room ?ty (?k + 2 ^ 33)" using room_mono [OF t(3)] k(1) by simp
  have un: "unat ?n = ?k" by (rule fsl.unat_rows [OF rm])
  then have n0: "?n \<noteq> 0" using k(2) by auto
  have vt: "v \<noteq> tmp" using b(1) l(5) by (auto simp: vload_Done_iff)
  have b2v: "vload v w2 = Done b" using b(1) s(4) l(6) vt by (simp add: vload_Done_iff)
  have h2: "heap_ok w2" using s(2) l(2) by simp
  have sc2: "sched (wenv w2) = []" using s(3) l(3) w(2) by simp
  obtain v' w3 b3 where u: "VECTOR_UPDATE v ?n ?ty w2 = Done (Inr (), v', w3)" "heap_ok w3" "replaced v v' w2 w3" "wenv w3 = wenv w2"
     "vload v' w3 = Done b3" "vec_ok ?ty fs_ok b3" "length (contents b3) = ?k" "room_for ?ty b \<longrightarrow> room_for ?ty b3"
    using fsl.resized [OF h2 b2v b(2) n0 _ sc2] rm un by auto
  have v': "v' \<noteq> tmp" "v' \<noteq> 0" "blocks w3 tmp = blocks w2 tmp"
    using u(3,5) s(5) vt by (auto simp: replaced_def vload_Done_iff)
  have t3: "vload tmp w3 = Done b2" using s(5) v'(3) by (simp add: vload_Done_iff)
  let ?ks = "filter (BIT_ISSET valid) [0..<length (contents b2)]"
  have marks: "\<forall>i < length ms. BIT_ISSET valid i \<longleftrightarrow> ?sel (ms ! i)"
    using s(10) cap bits.isset_new [of _ "length ms"] by auto
  have sel: "map (fs_of lstat os now2) (filter ?sel ms) = map (\<lambda>i. fs_of lstat os now2 (ms ! i)) ?ks"
    using filter_indices [OF marks] s(7) by simp
  then have kk: "length ?ks = ?k" by (metis length_map)
  have same: "map (\<lambda>k. fs_view (contents b2 ! k)) ?ks = map (\<lambda>i. fs_of lstat os now2 (ms ! i)) ?ks"
    using s(7,8) marks by (auto simp: fs_stepped_def)
  have cap2: "length (contents b2) < 32 * length valid" using cap s(7,9) by simp
  have b3: "length (contents b3) = 0 + length ?ks" using u(7) kk by simp
  have sc3: "sched (wenv w3) = []" using u(4) sc2 by simp
  obtain w4 b4 where p: "pick_loop (length ?ks) 0 0 tmp v' valid w3 = Done (0 + length ?ks, w4)" "heap_ok w4" "wenv w4 = wenv w3"
     "\<forall>u. u \<noteq> v' \<longrightarrow> blocks w4 u = blocks w3 u" "vload v' w4 = Done b4" "vec_ok ?ty fs_ok b4" "length (slots b4) = length (slots b3)"
     "map fs_view (contents b4) = map fs_view (take 0 (contents b3)) @ map (\<lambda>k. fs_view (contents b2 ! k)) ?ks"
    using pick_loop_ok [OF u(2) sc3 v'(1) [symmetric] t3 s(6) u(5,6) refl cap2 b3] by (elim exE conjE)
  have t4: "vload tmp w4 = Done b2" using t3 p(4) v'(1) by (simp add: vload_Done_iff)
  let ?w = "w4\<lparr>blocks := (blocks w4)(tmp := None)\<rparr>"
  have fr: "sg_vector_free tmp w4 = Done ?w" by (rule fs.free_block [OF t4 s(6)])
  have lst: "sg_get_fs_list_int fuel lstat (Some ms) 0 now1 0 w = Done (SG_ERROR_NONE, tmp, w1)"
    using l(1) by (simp add: sg_get_fs_list_int_def)
  have run: "sg_get_fs_stats_int t os now2 (sg_get_fs_list_int fuel lstat (Some ms) 0 now1) v w = Done (SG_ERROR_NONE, v', ?w)"
    unfolding sg_get_fs_stats_int_def using lst cnt l(4) s(1) u(1) un kk p(1) fr by (simp add: c_assert_def)
  have at: "vec_at ?ty fs_ok v' (contents b4) ?w" using p(5,6) v'(1) by (auto simp: vec_at_def vload_Done_iff)
  have "replaced v v' w ?w"
    using u(3) p(4) s(4) l(5,6) v'(1) vt by (auto simp: replaced_def)
  moreover have "roomy ?ty v w \<longrightarrow> roomy ?ty v' ?w"
    using b(1) u(8) p(5,7) v'(1) by (auto simp: roomy_def vload_Done_iff room_for_def)
  moreover have "heap_ok ?w" by (rule heap_ok_free [OF p(2)])
  moreover have "map fs_view (contents b4) = map (fs_of lstat os now2) (filter ?sel ms)" using p(8) same sel by simp
  ultimately show ?thesis using run at v'(2) p(3) sc3 by (intro exI [of _ v'] exI [of _ ?w] exI [of _ "contents b4"]) simp
qed

text \<open>When the mount table cannot be read, the vector is emptied, and emptying it clears the recorded error.\<close>

lemma get_fs_stats_unreadable:
  assumes "heap_ok w" "vec_at sg_fs_stats_vector_init_info fs_ok v [] w"
  shows "\<exists>w'. sg_get_fs_stats_int t os now2 (sg_get_fs_list_int fuel lstat None 0 now1) v w = Done (SG_ERROR_SETMNTENT, 0, w') \<and>
     error (err (wenv w')) = SG_ERROR_NONE"
proof -
  obtain b where b: "vload v w = Done b" "vec_ok sg_fs_stats_vector_init_info fs_ok b" using assms(2) by (auto simp: vec_at_def)
  let ?w = "set_env (SET_ERROR_WITH_ERRNO SG_ERROR_SETMNTENT None (wenv w)) w"
  have ld: "vload v ?w = Done b" using b(1) by (simp add: vload_set_env)
  have "sg_vector_resize v 0 ?w = Done (0, set_env (sg_clear_error (wenv ?w)) (?w\<lparr>blocks := (blocks ?w)(v := None)\<rparr>))"
    using fs.free_block [OF ld b(2)] sg_prove_vector_ok [OF ld b(2)] b(1) by (simp add: sg_vector_resize_def vload_Done_iff)
  then show ?thesis
    using b(1) by (simp add: sg_get_fs_stats_int_def sg_get_fs_list_int_def VECTOR_ITEM_COUNT_def VECTOR_UPDATE_def
        VECTOR_CREATE_OR_RESIZE_def vload_Done_iff sg_vector_free_def c_assert_def)
qed

interpretation fsm: multi_diff sg_fs_stats_vector_init_info fs_ok fs_view fs_named fs_key fs_sub
    "sg_get_fs_stats_int t os t_fill (sg_get_fs_list_int fuel lstat (Some ms) 0 t_list)"
    "Some (map (fs_of lstat os t_fill) (filter (fs_wanted t os) ms))" "fs_feasible fuel lstat t os ms" False
  for t os t_list t_fill fuel lstat ms
proof
  let ?ty = sg_fs_stats_vector_init_info
  show "room ?ty (16 + 2 ^ 32)" by (simp add: room_def sg_fs_stats_vector_init_info_def)
  show "fs_named x" if rd: "Some (map (fs_of lstat os t_fill) (filter (fs_wanted t os) ms)) = Some vs" "x \<in> set vs" for vs x
  proof -
    obtain m where m: "m \<in> set ms" "fs_wanted t os m" "x = fs_of lstat os t_fill m" using rd by auto
    then obtain f where x: "x = fs_of lstat os t_fill m" "sizes_of os (mnt_dir m) = Some f" by (auto simp: fs_wanted_def)
    then show ?thesis
      by (auto simp: fs_of_def sizes_of_def fill_sizes_def fill_statvfs_def fill_statfs_def fill_win32_def no_numbers_def fs_named_def
          Let_def split: fs_size_os.splits prod.splits)
  qed
  fix w v assume f: "fs_feasible fuel lstat t os ms" and w: "heap_ok w" and v: "vec_at ?ty fs_ok v [] w" and m: "False \<or> sched (wenv w) = []"
  then have sc: "sched (wenv w) = []" by simp
  show "\<exists>rc v' w'. sg_get_fs_stats_int t os t_fill (sg_get_fs_list_int fuel lstat (Some ms) 0 t_list) v w = Done (rc, v', w') \<and>
       heap_ok w' \<and> replaced v v' w w' \<and>
       (v' \<noteq> 0 \<longrightarrow> (\<exists>xs. vec_at ?ty fs_ok v' xs w' \<and> (roomy ?ty v w \<longrightarrow> roomy ?ty v' w') \<and>
          (rc = SG_ERROR_NONE \<longrightarrow> (\<exists>vs. Some (map (fs_of lstat os t_fill) (filter (fs_wanted t os) ms)) = Some vs \<and> length xs = length vs)) \<and>
          (rc = SG_ERROR_NONE \<and> sched (wenv w) = [] \<longrightarrow>
             Some (map (fs_of lstat os t_fill) (filter (fs_wanted t os) ms)) = Some (map fs_view xs)))) \<and>
       (sched (wenv w) = [] \<longrightarrow>
          (rc = SG_ERROR_NONE \<longleftrightarrow> Some (map (fs_of lstat os t_fill) (filter (fs_wanted t os) ms)) \<noteq> None) \<and> sched (wenv w') = []) \<and>
       (if rc = SG_ERROR_NONE then v' \<noteq> 0 else error (err (wenv w')) = rc)"
  proof -
    obtain v' w' xs where r: "sg_get_fs_stats_int t os t_fill (sg_get_fs_list_int fuel lstat (Some ms) 0 t_list) v w = Done (SG_ERROR_NONE, v', w')"
       "heap_ok w'" "sched (wenv w') = []" "replaced v v' w w'" "v' \<noteq> 0" "vec_at ?ty fs_ok v' xs w'"
       "roomy ?ty v w \<longrightarrow> roomy ?ty v' w'" "map fs_view xs = map (fs_of lstat os t_fill) (filter (fs_wanted t os) ms)"
      using get_fs_stats_law [OF f w sc v, of t_fill t_list] by (elim exE conjE)
    have "length xs = length (map (fs_of lstat os t_fill) (filter (fs_wanted t os) ms))" using arg_cong [OF r(8), of length] by simp
    with r show ?thesis by (intro exI [of _ SG_ERROR_NONE] exI [of _ v'] exI [of _ w']) auto
  qed
qed

section \<open>Properties\<close>

text \<open>C24: \<^verbatim>\<open>sg_get_fs_stats\<close>, memory sufficing, at least one mounted file system being wanted, the entries of the mount
  table being C strings and a device that is a link having a path of at most 4096 characters that is no link
  as its \<^verbatim>\<open>realpath\<close>: the thread's snapshot
  holds, in the order of the mount table, exactly the mounts whose type is in the table of valid types
  (regardless of case) and whose sizes the system reports, each with its names, the canonical path of its
  device, and the numbers computed from the report; what the vectors held before has no influence, and the
  temporary list is released.\<close>

theorem sg_get_fs_stats_correct:
  assumes "heap_ok w" "sched (wenv w) = []" "fs_feasible fuel lstat t os ms"
    and "g SG_FS_STAT_NOW_IDX = 0 \<or> vec_at sg_fs_stats_vector_init_info fs_ok (g SG_FS_STAT_NOW_IDX) ys w"
  shows "\<exists>p n g' w' xs. sg_get_fs_stats t fuel lstat (Some ms) 0 os now1 now2 (Some g) w = Done ((p, n), Some g', w') \<and> heap_ok w' \<and>
     p = g' SG_FS_STAT_NOW_IDX \<and> p \<noteq> 0 \<and> error (err (wenv w')) = SG_ERROR_NONE \<and>
     vec_at sg_fs_stats_vector_init_info fs_ok p xs w' \<and> unat n = length xs \<and>
     map fs_view xs = map (fs_of lstat os now2)
       (filter (\<lambda>m. map tolower (mnt_type m) \<in> fs_types t \<and> sizes_of os (mnt_dir m) \<noteq> None) ms) \<and>
     (\<forall>u. u \<noteq> g SG_FS_STAT_NOW_IDX \<and> u \<noteq> p \<longrightarrow> blocks w' u = blocks w u)"
proof -
  have w: "(\<lambda>m. map tolower (mnt_type m) \<in> fs_types t \<and> sizes_of os (mnt_dir m) \<noteq> None) = fs_wanted t os"
    by (simp add: fs_wanted_def fun_eq_iff)
  have mem: "False \<or> sched (wenv w) = []" using assms(2) by simp
  show ?thesis
    using fsm.access_ok [where g = g and idx = SG_FS_STAT_NOW_IDX and t_list = now1 and t_fill = now2, OF assms(3,1,4) mem] assms(2) unfolding w sg_get_fs_stats_def
    by (elim exE conjE) (auto split: if_splits)
qed

text \<open>C25: When the mount table cannot be read, \<^verbatim>\<open>sg_get_fs_stats\<close> returns NULL and no entries, but the error it
  recorded is cleared again when the thread's vector is resized to nothing: the caller reads
  \<^verbatim>\<open>SG_ERROR_NONE\<close> from \<^verbatim>\<open>sg_get_error\<close>.\<close>

theorem sg_get_fs_stats_unreadable:
  assumes "heap_ok w" "sched (wenv w) = []"
    and "g SG_FS_STAT_NOW_IDX = 0 \<or> vec_at sg_fs_stats_vector_init_info fs_ok (g SG_FS_STAT_NOW_IDX) ys w"
  shows "\<exists>g' w'. sg_get_fs_stats t fuel lstat None 0 os now1 now2 (Some g) w = Done ((0, 0), Some g', w') \<and>
     g' SG_FS_STAT_NOW_IDX = 0 \<and> error (err (wenv w')) = SG_ERROR_NONE"
proof -
  obtain v w1 where o: "open_many sg_fs_stats_vector_init_info SG_FS_STAT_NOW_IDX g w = Done (g(SG_FS_STAT_NOW_IDX := v), w1)" "heap_ok w1" "v \<noteq> 0"
      "vec_at sg_fs_stats_vector_init_info fs_ok v [] w1"
    using fsm.open_ok [where g = g and idx = SG_FS_STAT_NOW_IDX, OF assms(1,3)] assms(2)
    by (elim exE conjE) (simp split: if_splits)
  obtain w2 where "sg_get_fs_stats_int t os now2 (sg_get_fs_list_int fuel lstat None 0 now1) v w1 = Done (SG_ERROR_SETMNTENT, 0, w2)"
      "error (err (wenv w2)) = SG_ERROR_NONE"
    using get_fs_stats_unreadable [OF o(2,4)] by blast
  with o(1,3) show ?thesis by (simp add: sg_get_fs_stats_def MULTI_COMP_ACCESS_def)
qed

definition example_mounts :: "mntent list" where
  "example_mounts = [\<lparr>mnt_fsname = ''/dev/sda1'', mnt_type = ''ext4'', mnt_dir = ''/''\<rparr>,
     \<lparr>mnt_fsname = ''proc'', mnt_type = ''proc'', mnt_dir = ''/proc''\<rparr>,
     \<lparr>mnt_fsname = ''/dev/root'', mnt_type = ''EXT4'', mnt_dir = ''/home''\<rparr>]"

definition example_statvfs :: statvfs where
  "example_statvfs = \<lparr>f_bsize = 4096, f_frsize = 4096, f_iosize = 0, f_blocks = 100, f_bfree = 40, f_bavail = 30,
     f_files = 10, f_ffree = 4, f_favail = 4\<rparr>"

definition example_lstat :: "string \<Rightarrow> lnk" where
  "example_lstat p = (if p = ''/dev/root'' then Target ''/dev/sda2'' else NotLink)"

definition example_sizes :: fs_size_os where
  "example_sizes = FsStatvfs ''statvfs'' False True (\<lambda>p. Some example_statvfs)"

definition example_table :: fs_table where
  "example_table = \<lparr>valid_file_systems = Some [CStr (''ext4'' @ [NUL])], num_valid_file_systems = 1\<rparr>"

lemma example_types: "table_ok example_table" "fs_types example_table = {''ext4''}"
  by (auto simp: example_table_def table_ok_def cmp_sorted_def fs_types_def table_names_def tolower_def strval_def)

lemma example_lower:
  "tolower CHR ''e'' = CHR ''e''" "tolower CHR ''x'' = CHR ''x''" "tolower CHR ''t'' = CHR ''t''" "tolower CHR ''4'' = CHR ''4''"
  "tolower CHR ''E'' = CHR ''e''" "tolower CHR ''X'' = CHR ''x''" "tolower CHR ''T'' = CHR ''t''" "tolower CHR ''p'' = CHR ''p''"
  by code_simp+

lemma example_wanted:
  "filter (fs_wanted example_table example_sizes) example_mounts = [example_mounts ! 0, example_mounts ! 2]"
  by (simp add: example_mounts_def fs_wanted_def example_types example_sizes_def sizes_of_def example_lower)

lemma example_fs_feasible: "fs_feasible 2 example_lstat example_table example_sizes example_mounts"
proof -
  have "example_mounts ! 0 \<in> set (filter (fs_wanted example_table example_sizes) example_mounts)" unfolding example_wanted by simp
  moreover have "list_all (mount_ok 2 example_lstat) example_mounts"
    by (simp add: example_mounts_def mount_ok_def name_ok_def nul_free_def example_lstat_def)
  moreover have "room sg_fs_stats_vector_init_info (length example_mounts + 2 ^ 33)"
    by (simp add: example_mounts_def room_def sg_fs_stats_vector_init_info_def)
  ultimately show ?thesis using example_types(1) by (auto simp: fs_feasible_def)
qed

lemma sg_get_fs_stats_correct_witness:
  "\<exists>p n g' w' xs. sg_get_fs_stats example_table 2 example_lstat (Some example_mounts) 0 example_sizes 50 60 (Some (\<lambda>i. 0))
       (world_of [] (no_numbers CFreed CNull CFreed CNull 7)) = Done ((p, n), Some g', w') \<and>
     vec_at sg_fs_stats_vector_init_info fs_ok p xs w' \<and> unat n = 2 \<and>
     map (\<lambda>x. (device_canonical x, fs_size x, fs_used x, fs_systime x)) (map fs_view xs) =
       [(CStr (''/dev/sda1'' @ [NUL]), 409600, 245760, 60), (CStr (''/dev/sda2'' @ [NUL]), 409600, 245760, 60)]"
proof -
  let ?w = "world_of [] (no_numbers CFreed CNull CFreed CNull 7)" and ?g = "\<lambda>i. 0 :: nat"
  let ?sel = "\<lambda>m. map tolower (mnt_type m) \<in> fs_types example_table \<and> sizes_of example_sizes (mnt_dir m) \<noteq> None"
  have sel: "filter ?sel example_mounts = [example_mounts ! 0, example_mounts ! 2]"
    using example_wanted unfolding fs_wanted_def [abs_def] .
  have sc: "sched (wenv ?w) = []" by (simp add: world_of_def fresh_env_def)
  obtain p n g' w' xs where r: "sg_get_fs_stats example_table 2 example_lstat (Some example_mounts) 0 example_sizes 50 60 (Some ?g) ?w = Done ((p, n), Some g', w')"
     "vec_at sg_fs_stats_vector_init_info fs_ok p xs w'" "unat n = length xs"
     "map fs_view xs = map (fs_of example_lstat example_sizes 60) (filter ?sel example_mounts)"
    using sg_get_fs_stats_correct [of ?w 2 example_lstat example_table example_sizes example_mounts ?g "[]" 50 60,
        OF world_of_ok sc example_fs_feasible] by auto
  have "length xs = 2" using arg_cong [OF r(4), of length] unfolding sel by simp
  have "map (\<lambda>x. (device_canonical x, fs_size x, fs_used x, fs_systime x)) (map fs_view xs) =
       [(CStr (''/dev/sda1'' @ [NUL]), 409600, 245760, 60), (CStr (''/dev/sda2'' @ [NUL]), 409600, 245760, 60)]"
    unfolding r(4) sel
    by (simp add: fs_of_def example_sizes_def sizes_of_def example_mounts_def fill_sizes_def fill_statvfs_def no_numbers_def
        example_statvfs_def example_lstat_def canonical_def)
  moreover have "unat n = 2" using r(3) \<open>length xs = 2\<close> by simp
  ultimately show ?thesis using r(1,2) by (intro exI conjI)
qed

lemma sg_get_fs_stats_unreadable_witness:
  "\<exists>g' w'. sg_get_fs_stats example_table 2 example_lstat None 0 example_sizes 50 60 (Some (\<lambda>i. 0))
       (world_of [] (no_numbers CFreed CNull CFreed CNull 7)) = Done ((0, 0), Some g', w') \<and>
     g' SG_FS_STAT_NOW_IDX = 0 \<and> error (err (wenv w')) = SG_ERROR_NONE"
  by (rule sg_get_fs_stats_unreadable [of _ _ "[]", OF world_of_ok]) (simp_all add: world_of_def fresh_env_def)

end
