(* ===== verification/Process_Items.thy ===== *)
theory Process_Items
  imports Memory Access_Multi C_Scan C_Search Items
begin

text \<open>
  Processes (\<^verbatim>\<open>src/libstatgrab/process_stats.c\<close>): the items, the list of process ids found in \<^verbatim>\<open>/proc\<close>, the command
  line made readable, the comparison functions, and the counts by state.
\<close>

section \<open>Data\<close>

text \<open>A double: a number, or what a division by zero gives.\<close>

datatype dbl = Fin real | PInf | NInf | NaN

definition dbl_div :: "real \<Rightarrow> real \<Rightarrow> dbl" where
  "dbl_div x y = (if y \<noteq> 0 then Fin (x / y) else if 0 < x then PInf else if x < 0 then NInf else NaN)"

fun dbl_less :: "dbl \<Rightarrow> dbl \<Rightarrow> bool" where
  "dbl_less (Fin x) (Fin y) = (x < y)"
| "dbl_less NInf (Fin y) = True"
| "dbl_less NInf PInf = True"
| "dbl_less (Fin x) PInf = True"
| "dbl_less _ _ = False"

definition dbl_eq :: "dbl \<Rightarrow> dbl \<Rightarrow> bool" where
  "dbl_eq x y = (x = y \<and> x \<noteq> NaN)"

text \<open>The states, and what memory that no reader wrote may hold.\<close>

datatype sg_process_state =
    SG_PROCESS_STATE_RUNNING | SG_PROCESS_STATE_SLEEPING | SG_PROCESS_STATE_STOPPED | SG_PROCESS_STATE_ZOMBIE
  | SG_PROCESS_STATE_UNKNOWN | NoState nat

text \<open>Ids are kept as their 32-bit patterns; \<^verbatim>\<open>pid_t\<close> and \<^verbatim>\<open>int\<close> are signed.\<close>

record sg_process_stats =
  process_name :: cstr
  proctitle :: cstr
  pid :: u32
  parent :: u32
  pgid :: u32
  sessid :: u32
  uid :: u32
  euid :: u32
  gid :: u32
  egid :: u32
  context_switches :: ull
  voluntary_context_switches :: ull
  involuntary_context_switches :: ull
  proc_size :: ull
  proc_resident :: ull
  start_time :: time_t
  time_spent :: time_t
  cpu_percent :: dbl
  nice :: u32
  state :: sg_process_state
  ps_systime :: time_t

definition sg_process_stats_item_init :: "sg_process_stats \<Rightarrow> sg_process_stats" where
  "sg_process_stats_item_init d = d\<lparr>process_name := CNull, proctitle := CNull, sessid := 0\<rparr>"

definition sg_process_stats_item_destroy :: "sg_process_stats vector_destroy_function" where
  "sg_process_stats_item_destroy d =
     andthen (free_field (process_name d)) (\<lambda>p. let d = d\<lparr>process_name := p\<rparr> in
     andthen (free_field (proctitle d)) (\<lambda>p. Done (d\<lparr>proctitle := p\<rparr>)))"

definition sg_process_stats_vector_init_info :: "sg_process_stats sg_vector_init_info" where
  "sg_process_stats_vector_init_info =
     \<lparr>item_size = 128, init_fn = Fn ''sg_process_stats_item_init'' sg_process_stats_item_init, copy_fn = NullFn,
      compute_diff_fn = NullFn, compare_fn = NullFn,
      destroy_fn = Fn ''sg_process_stats_item_destroy'' sg_process_stats_item_destroy\<rparr>"

record sg_process_count =
  pc_total :: ull
  running :: ull
  sleeping :: ull
  stopped :: ull
  zombie :: ull
  unknown :: ull
  pc_systime :: time_t

definition sg_process_count_vector_init_info :: "sg_process_count sg_vector_init_info" where
  "sg_process_count_vector_init_info = VECTOR_INIT_INFO_EMPTY_INIT 56"

definition SG_PROC_STAT_IDX :: nat where "SG_PROC_STAT_IDX = 0"
definition SG_PROC_COUNT_IDX :: nat where "SG_PROC_COUNT_IDX = 1"

definition sg_process_init_comp :: "int \<Rightarrow> int \<Rightarrow> env \<Rightarrow> sg_error \<times> int \<times> env" where
  "sg_process_init_comp sysconf sys_page_size e =
     (let (ps, e) = sg_get_sys_page_size sysconf sys_page_size e
      in if ps = - 1 then (SG_ERROR_SYSCONF, ps, SET_ERROR_WITH_ERRNO SG_ERROR_SYSCONF (Some ''_SC_PAGESIZE'') e)
         else (SG_ERROR_NONE, ps, e))"

section \<open>The process ids in /proc\<close>

text \<open>
  \<^verbatim>\<open>struct pids_in_proc_dir_t\<close>: a chain of pages, each with a header of 16 bytes and room for ids of 4 bytes; \<open>psz\<close> is
  \<^verbatim>\<open>sys_page_size\<close>. A failed allocation of a page is not recorded as an error.
\<close>

type_synonym pids_in_proc_dir_t = "u32 list"

definition alloc_pids_in_proc_dir :: "env \<Rightarrow> pids_in_proc_dir_t option \<times> env" where
  "alloc_pids_in_proc_dir e = (case next_choice e of (c, e) \<Rightarrow> (if c = AFail then None else Some [], e))"

definition free_pids_in_proc_dir :: "pids_in_proc_dir_t list \<Rightarrow> bool \<Rightarrow> pids_in_proc_dir_t list" where
  "free_pids_in_proc_dir pipd include_children = (if include_children then [] else tl pipd)"

definition PIPD_IS_FULL :: "nat \<Rightarrow> pids_in_proc_dir_t \<Rightarrow> bool" where
  "PIPD_IS_FULL psz pipd = (psz < 16 + 4 * (length pipd + 1))"

text \<open>The chain up to and including \<^verbatim>\<open>pipd\<close>, its last page; the code's second assertion says that it is the last one.\<close>

definition add_pid_to_pids_in_proc_dir ::
  "nat \<Rightarrow> u32 \<Rightarrow> pids_in_proc_dir_t list \<Rightarrow> env \<Rightarrow> (pids_in_proc_dir_t list option \<times> env) outcome" where
  "add_pid_to_pids_in_proc_dir psz p chain e =
     andthen (c_assert ''pipd != NULL'' (chain \<noteq> [])) (\<lambda>_.
       if PIPD_IS_FULL psz (last chain) then
         (case alloc_pids_in_proc_dir e of
            (None, e) \<Rightarrow> Done (None, e)
          | (Some pg, e) \<Rightarrow> if PIPD_IS_FULL psz pg then Fault (OutOfBounds 0 psz) else Done (Some (chain @ [pg @ [p]]), e))
       else Done (Some (butlast chain @ [last chain @ [p]]), e))"

text \<open>
  \<^verbatim>\<open>0 != sscanf(d_name, "%d", &pid)\<close>: a name without a number is no process; on a blank name \<^verbatim>\<open>sscanf\<close> returns \<^verbatim>\<open>EOF\<close> and
  \<^verbatim>\<open>pid\<close> stays as it is (\<open>junk\<close>).
\<close>

definition dir_pid :: "u32 \<Rightarrow> string \<Rightarrow> u32 option" where
  "dir_pid junk nm =
     (case scan_int nm of
        Some (x, _) \<Rightarrow> Some (ucast (to_ll x))
      | None \<Rightarrow> if dropWhile is_space nm = [] then Some junk else None)"

fun scan_proc_loop ::
  "nat \<Rightarrow> u32 \<Rightarrow> string list \<Rightarrow> pids_in_proc_dir_t list \<Rightarrow> env \<Rightarrow> (pids_in_proc_dir_t list option \<times> env) outcome" where
  "scan_proc_loop psz junk [] chain e = Done (Some chain, e)"
| "scan_proc_loop psz junk (nm # nms) chain e =
     (case dir_pid junk nm of
        None \<Rightarrow> scan_proc_loop psz junk nms chain e
      | Some p \<Rightarrow>
          andthen (add_pid_to_pids_in_proc_dir psz p chain e) (\<lambda>(res, e).
            case res of
              None \<Rightarrow> Done (None, e)
            | Some chain \<Rightarrow> scan_proc_loop psz junk nms chain e))"

text \<open>The directory: the names and what ends the reading (0 or an \<^verbatim>\<open>errno\<close>), or \<open>None\<close> when it cannot be opened.\<close>

definition scan_proc_dir ::
  "nat \<Rightarrow> u32 \<Rightarrow> string \<Rightarrow> (string list \<times> int) option \<Rightarrow> env \<Rightarrow> (pids_in_proc_dir_t list option \<times> env) outcome" where
  "scan_proc_dir psz junk path dir e =
     (case alloc_pids_in_proc_dir e of
        (None, e) \<Rightarrow> Done (None, e)
      | (Some cnt, e) \<Rightarrow>
          (case next_choice e of (c, e) \<Rightarrow>
             if c = AFail then Done (None, e)
             else
               (case dir of
                  None \<Rightarrow> Done (None, SET_ERROR_WITH_ERRNO SG_ERROR_OPENDIR (Some path) e)
                | Some (nms, rc) \<Rightarrow>
                    andthen (scan_proc_loop psz junk nms [cnt] e) (\<lambda>(res, e).
                      Done (res, if res \<noteq> None \<and> rc \<noteq> 0 then SET_ERROR_WITH_ERRNO_CODE SG_ERROR_READDIR rc (Some path) e else e)))))"

section \<open>The command line\<close>

text \<open>
  \<^verbatim>\<open>adjust_procname_cmndline\<close> as built on Linux: the strings of \<^verbatim>\<open>argv\<close> one after another become one line. \<open>buf\<close> is the
  allocated buffer; the loop looks one byte ahead.
\<close>

function adjust_loop :: "nat \<Rightarrow> char list \<Rightarrow> nat \<Rightarrow> (char list \<times> nat) outcome" where
  "adjust_loop len buf p =
     (if len \<noteq> 0 \<and> len \<le> p then Done (buf, p)
      else if length buf \<le> Suc p then Fault (OutOfBounds 0 (Suc p))
      else if buf ! Suc p = NUL then Done (buf, p)
      else if buf ! p = NUL then adjust_loop len (buf[p := CHR '' '']) (Suc p)
      else adjust_loop len buf (p + length (strval (drop p buf))))"
  by pat_completeness auto
termination
  by (relation "measure (\<lambda>(len, buf, p). length buf - p)")
     (auto simp: strval_def Cons_nth_drop_Suc [symmetric])

declare adjust_loop.simps [simp del]

definition adjust_procname_cmndline :: "char list \<Rightarrow> nat \<Rightarrow> char list outcome" where
  "adjust_procname_cmndline buf len =
     andthen (adjust_loop len buf 0) (\<lambda>(buf, p).
       let q = (if len \<noteq> 0 then len else p)
       in if q < length buf then Done (buf[q := NUL]) else Fault (OutOfBounds 0 q))"

section \<open>Comparison functions\<close>

definition cmp3 :: "bool \<Rightarrow> bool \<Rightarrow> int" where
  "cmp3 same smaller = (if same then 0 else if smaller then - 1 else 1)"

definition sg_process_compare_name :: "sg_process_stats \<Rightarrow> sg_process_stats \<Rightarrow> int outcome" where
  "sg_process_compare_name a b = cmp_field (process_name a) (process_name b)"

definition sg_process_compare_pid :: "sg_process_stats \<Rightarrow> sg_process_stats \<Rightarrow> int" where
  "sg_process_compare_pid a b = cmp3 (pid a = pid b) (sint (pid a) < sint (pid b))"

definition sg_process_compare_uid :: "sg_process_stats \<Rightarrow> sg_process_stats \<Rightarrow> int" where
  "sg_process_compare_uid a b = cmp3 (uid a = uid b) (uid a < uid b)"

definition sg_process_compare_gid :: "sg_process_stats \<Rightarrow> sg_process_stats \<Rightarrow> int" where
  "sg_process_compare_gid a b = cmp3 (gid a = gid b) (gid a < gid b)"

definition sg_process_compare_size :: "sg_process_stats \<Rightarrow> sg_process_stats \<Rightarrow> int" where
  "sg_process_compare_size a b = cmp3 (proc_size a = proc_size b) (proc_size a < proc_size b)"

definition sg_process_compare_res :: "sg_process_stats \<Rightarrow> sg_process_stats \<Rightarrow> int" where
  "sg_process_compare_res a b = cmp3 (proc_resident a = proc_resident b) (proc_resident a < proc_resident b)"

definition sg_process_compare_cpu :: "sg_process_stats \<Rightarrow> sg_process_stats \<Rightarrow> int" where
  "sg_process_compare_cpu a b = cmp3 (dbl_eq (cpu_percent a) (cpu_percent b)) (dbl_less (cpu_percent a) (cpu_percent b))"

definition sg_process_compare_time :: "sg_process_stats \<Rightarrow> sg_process_stats \<Rightarrow> int" where
  "sg_process_compare_time a b = cmp3 (time_spent a = time_spent b) (sint (time_spent a) < sint (time_spent b))"

section \<open>Counts\<close>

text \<open>One process, by its state.\<close>

fun count_state :: "sg_process_state \<Rightarrow> sg_process_count \<Rightarrow> sg_process_count" where
  "count_state SG_PROCESS_STATE_RUNNING c = c\<lparr>running := running c + 1\<rparr>"
| "count_state SG_PROCESS_STATE_SLEEPING c = c\<lparr>sleeping := sleeping c + 1\<rparr>"
| "count_state SG_PROCESS_STATE_STOPPED c = c\<lparr>stopped := stopped c + 1\<rparr>"
| "count_state SG_PROCESS_STATE_ZOMBIE c = c\<lparr>zombie := zombie c + 1\<rparr>"
| "count_state SG_PROCESS_STATE_UNKNOWN c = c\<lparr>unknown := unknown c + 1\<rparr>"
| "count_state (NoState k) c = c"

fun count_loop :: "nat \<Rightarrow> addr \<Rightarrow> sg_process_stats world \<Rightarrow> sg_process_count \<Rightarrow> sg_process_count outcome" where
  "count_loop 0 v w c = Done c"
| "count_loop (Suc k) v w c = andthen (read_item v k w) (\<lambda>x. count_loop k v w (count_state (state x) c))"

definition sg_get_process_count_int :: "addr \<Rightarrow> sg_process_stats world \<Rightarrow> sg_process_count \<Rightarrow> sg_process_count outcome" where
  "sg_get_process_count_int v w c =
     andthen (vload v w) (\<lambda>b.
     andthen (read_item v 0 w) (\<lambda>x.
       count_loop (unat (used_count (hdr b))) v w
         (c\<lparr>pc_total := used_count (hdr b), running := 0, sleeping := 0, stopped := 0, zombie := 0, unknown := 0,
            pc_systime := ps_systime x\<rparr>)))"

section \<open>Vectors of processes\<close>

definition proc_ok :: "sg_process_stats \<Rightarrow> bool" where
  "proc_ok d \<longleftrightarrow> cstr_ok (process_name d) \<and> cstr_ok (proctitle d)"

interpretation psv: vec_items sg_process_stats_vector_init_info proc_ok
  by unfold_locales (auto simp: sg_process_stats_vector_init_info_def proc_ok_def sg_process_stats_item_init_def
      sg_process_stats_item_destroy_def free_field_ok Let_def)

interpretation pcv: vec_items sg_process_count_vector_init_info any_item
  by unfold_locales (auto simp: sg_process_count_vector_init_info_def VECTOR_INIT_INFO_EMPTY_INIT_def)

section \<open>Every process id once, page by page\<close>

definition dir_pids :: "u32 \<Rightarrow> string list \<Rightarrow> u32 list" where
  "dir_pids junk nms = List.map_filter (dir_pid junk) nms"

definition chain_ok :: "nat \<Rightarrow> pids_in_proc_dir_t list \<Rightarrow> bool" where
  "chain_ok psz chain \<longleftrightarrow> chain \<noteq> [] \<and> list_all (\<lambda>pg. 16 + 4 * length pg \<le> psz) chain \<and> list_all (PIPD_IS_FULL psz) (butlast chain) \<and>
     (chain = [[]] \<or> [] \<notin> set chain)"

lemma add_pid_ok:
  assumes "chain_ok psz chain" "20 \<le> psz" "sched e = []"
  shows "\<exists>chain'. add_pid_to_pids_in_proc_dir psz p chain e = Done (Some chain', e) \<and> chain_ok psz chain' \<and>
     concat chain' = concat chain @ [p]"
proof -
  have c: "chain \<noteq> []" "chain = butlast chain @ [last chain]" using assms(1) by (simp_all add: chain_ok_def)
  show ?thesis
  proof (cases "PIPD_IS_FULL psz (last chain)")
    case True
    have "\<not> PIPD_IS_FULL psz []" using assms(2) by (simp add: PIPD_IS_FULL_def)
    then have "add_pid_to_pids_in_proc_dir psz p chain e = Done (Some (chain @ [[p]]), e)"
      using True c(1) assms(3) by (simp add: add_pid_to_pids_in_proc_dir_def alloc_pids_in_proc_dir_def next_choice_def)
    moreover have "list_all (PIPD_IS_FULL psz) chain" using assms(1) True c(2) list_all_append [of "PIPD_IS_FULL psz" "butlast chain" "[last chain]"]
      by (simp add: chain_ok_def)
    moreover have "[] \<notin> set chain" using assms(1,2) True by (auto simp: chain_ok_def PIPD_IS_FULL_def)
    ultimately show ?thesis using assms(1,2) by (simp add: chain_ok_def)
  next
    case False
    let ?c = "butlast chain @ [last chain @ [p]]"
    have "16 + 4 * (length (last chain) + 1) \<le> psz" using False by (simp add: PIPD_IS_FULL_def)
    moreover have "list_all (\<lambda>pg. 16 + 4 * length pg \<le> psz) (butlast chain)"
      using assms(1) by (auto simp: chain_ok_def list_all_iff dest: in_set_butlastD)
    moreover have "[] \<notin> set (butlast chain)" using assms(1) by (auto simp: chain_ok_def dest: in_set_butlastD)
    ultimately have "chain_ok psz ?c" using assms(1) by (simp add: chain_ok_def)
    moreover have "concat ?c = concat chain @ [p]" by (subst (2) c(2)) simp
    ultimately show ?thesis using False c(1) by (simp add: add_pid_to_pids_in_proc_dir_def)
  qed
qed

lemma scan_proc_loop_ok:
  assumes "20 \<le> psz" "sched e = []" "chain_ok psz chain"
  shows "\<exists>chain'. scan_proc_loop psz junk nms chain e = Done (Some chain', e) \<and> chain_ok psz chain' \<and>
     concat chain' = concat chain @ dir_pids junk nms"
  using assms(3)
proof (induction nms arbitrary: chain)
  case Nil
  then show ?case by (simp add: dir_pids_def)
next
  case (Cons nm nms)
  show ?case
  proof (cases "dir_pid junk nm")
    case None
    then show ?thesis using Cons.IH [OF Cons.prems] by (simp add: dir_pids_def)
  next
    case (Some p)
    obtain c where c: "add_pid_to_pids_in_proc_dir psz p chain e = Done (Some c, e)" "chain_ok psz c" "concat c = concat chain @ [p]"
      using add_pid_ok [OF Cons.prems assms(1,2)] by blast
    then show ?thesis using Cons.IH [OF c(2)] Some by (simp add: dir_pids_def)
  qed
qed

lemma scan_proc_dir_ok:
  assumes "20 \<le> psz" "sched e = []"
  shows "\<exists>chain e'. scan_proc_dir psz junk path (Some (nms, rc)) e = Done (Some chain, e') \<and> chain_ok psz chain \<and>
     concat chain = dir_pids junk nms \<and> sched e' = [] \<and> (rc = 0 \<longrightarrow> e' = e)"
proof -
  have "chain_ok psz [[]]" using assms(1) by (simp add: chain_ok_def)
  from scan_proc_loop_ok [OF assms this, of junk nms] obtain chain where
    "scan_proc_loop psz junk nms [[]] e = Done (Some chain, e)" "chain_ok psz chain" "concat chain = dir_pids junk nms" by auto
  then show ?thesis
    using assms(2) by (simp add: scan_proc_dir_def alloc_pids_in_proc_dir_def next_choice_def set_error_defs frame_simps)
qed

section \<open>The command line of a process\<close>

fun join_args :: "string list \<Rightarrow> string" where
  "join_args [] = []"
| "join_args [a] = a"
| "join_args (a # as) = a @ CHR '' '' # join_args as"

definition cmdline :: "string list \<Rightarrow> char list" where
  "cmdline args = concat (map (\<lambda>a. a @ [NUL]) args)"

text \<open>Every argument but the last has two characters at least, the last one at least.\<close>

fun args_ok :: "string list \<Rightarrow> bool" where
  "args_ok [] \<longleftrightarrow> False"
| "args_ok [a] \<longleftrightarrow> a \<noteq> [] \<and> nul_free a"
| "args_ok (a # as) \<longleftrightarrow> 2 \<le> length a \<and> nul_free a \<and> args_ok as"

lemma adjust_step:
  assumes "nul_free a" "2 \<le> length a" "len = 0 \<or> length pre < len"
  shows "adjust_loop len (pre @ a @ NUL # rest) (length pre) = adjust_loop len (pre @ a @ NUL # rest) (length pre + length a)"
proof -
  obtain c d a' where a: "a = c # d # a'" using assms(2) by (cases a; cases "tl a") auto
  let ?b = "pre @ a @ NUL # rest"
  have n: "?b ! length pre = c" "?b ! Suc (length pre) = d" "drop (length pre) ?b = a @ NUL # rest"
    using a by (simp_all add: nth_append)
  have "strval (drop (length pre) ?b) = a" using n(3) assms(1) by simp
  then show ?thesis using assms a n by (subst adjust_loop.simps) (auto simp: nul_free_def)
qed

lemma adjust_loop_args:
  assumes "args_ok args" "nul_free pre" "len = length pre + length (cmdline args)"
  shows "\<exists>buf p. adjust_loop len (pre @ cmdline args @ [NUL]) (length pre) = Done (buf, p) \<and> length buf = Suc len \<and>
     strval buf = pre @ join_args args"
  using assms
proof (induction args arbitrary: pre rule: args_ok.induct)
  case (2 a)
  let ?b = "pre @ a @ [NUL, NUL]"
  have b: "pre @ cmdline [a] @ [NUL] = ?b" "len = length pre + Suc (length a)" using "2.prems" by (simp_all add: cmdline_def)
  have sv: "strval ?b = pre @ a" using "2.prems"(1,2) strval_append_NUL [of "pre @ a" "[NUL]"] by simp
  have stop: "adjust_loop len ?b (length pre + length a) = Done (?b, length pre + length a)"
    using b(2) by (subst adjust_loop.simps) (simp add: nth_append)
  show ?case
  proof (cases "length a = 1")
    case True
    then have "adjust_loop len ?b (length pre) = Done (?b, length pre)"
      using b(2) by (subst adjust_loop.simps) (simp add: nth_append)
    with b sv show ?thesis by auto
  next
    case False
    then have "2 \<le> length a" using "2.prems"(1) by (cases a; cases "tl a") auto
    with adjust_step [of a len pre "[NUL]"] stop b sv "2.prems"(1) show ?thesis by auto
  qed
next
  case (3 a d as)
  let ?r = "cmdline (d # as) @ [NUL]"
  have p: "nul_free a" "2 \<le> length a" "args_ok (d # as)" using "3.prems"(1) by simp_all
  have b: "pre @ cmdline (a # d # as) @ [NUL] = pre @ a @ NUL # ?r" "len = length pre + Suc (length a) + length (cmdline (d # as))"
    using "3.prems"(3) by (simp_all add: cmdline_def)
  obtain c d' where d: "d = c # d'" "c \<noteq> NUL" using p(3) by (cases d; cases as) auto
  have hd: "?r = c # tl ?r" using d by (simp add: cmdline_def)
  have "adjust_loop len (pre @ a @ NUL # ?r) (length pre + length a) =
      adjust_loop len ((pre @ a @ NUL # ?r)[length pre + length a := CHR '' '']) (Suc (length pre + length a))"
    by (subst adjust_loop.simps, subst (1 2 3 4 5) hd) (use b(2) d(2) in \<open>auto simp: nth_append\<close>)
  also have "(pre @ a @ NUL # ?r)[length pre + length a := CHR '' ''] = (pre @ a @ '' '') @ ?r"
    by (simp add: list_update_append)
  finally have st: "adjust_loop len (pre @ a @ NUL # ?r) (length pre) = adjust_loop len ((pre @ a @ '' '') @ ?r) (length (pre @ a @ '' ''))"
    using adjust_step [OF p(1,2), of len pre ?r] b(2) by simp
  have "nul_free (pre @ a @ '' '')" "len = length (pre @ a @ '' '') + length (cmdline (d # as))" using "3.prems"(2) p(1) b(2) by simp_all
  from "3.IH" [OF p(3) this] show ?case unfolding b(1) st by simp
qed simp

lemma strval_cut: "strval buf = s \<Longrightarrow> length s \<le> q \<Longrightarrow> strval (buf[q := NUL]) = s"
proof (induction buf arbitrary: q s)
  case (Cons c buf)
  then show ?case by (cases q) (auto simp: strval_def split: if_splits)
qed (simp add: strval_def)

lemma length_join: "args_ok args \<Longrightarrow> length (join_args args) < length (cmdline args)"
  by (induction args rule: args_ok.induct) (auto simp: cmdline_def)

lemma adjust_args:
  assumes "args_ok args"
  shows "\<exists>buf. adjust_procname_cmndline (cmdline args @ [NUL]) (length (cmdline args)) = Done buf \<and>
     length buf = Suc (length (cmdline args)) \<and> strval buf = join_args args"
proof -
  let ?n = "length (cmdline args)"
  obtain buf p where a: "adjust_loop ?n (cmdline args @ [NUL]) 0 = Done (buf, p)" "length buf = Suc ?n" "strval buf = join_args args"
    using adjust_loop_args [OF assms, of "[]" ?n] by auto
  have "?n \<noteq> 0" using length_join [OF assms] by force
  with a strval_cut [OF a(3), of ?n] length_join [OF assms] show ?thesis by (simp add: adjust_procname_cmndline_def)
qed

text \<open>A first argument of one character ends the work at once: the title of \<^verbatim>\<open>w -h\<close> is \<^verbatim>\<open>w\<close>.\<close>

lemma adjust_short_argument:
  "andthen (adjust_procname_cmndline (cmdline [''w'', ''-h''] @ [NUL]) 5) (\<lambda>buf. Done (strval buf)) = Done ''w''"
  by (simp add: adjust_procname_cmndline_def adjust_loop.simps cmdline_def strval_def)

section \<open>Sorting processes\<close>

text \<open>A comparison by a key of a linear order.\<close>

lemma cmp3_order: "cmp_order (\<lambda>a b. cmp3 (f a = f b) (f a < (f b :: 'k :: linorder)))"
  by unfold_locales (auto simp: cmp3_def not_less split: if_splits)

interpretation by_pid: cmp_order sg_process_compare_pid
  using cmp3_order [of "\<lambda>x. sint (pid x)"] unfolding sg_process_compare_pid_def [abs_def] word_eq_iff_signed [where 'a = int] .

interpretation by_uid: cmp_order sg_process_compare_uid
  using cmp3_order [of uid] by (simp add: sg_process_compare_uid_def [abs_def])

interpretation by_gid: cmp_order sg_process_compare_gid
  using cmp3_order [of gid] by (simp add: sg_process_compare_gid_def [abs_def])

interpretation by_size: cmp_order sg_process_compare_size
  using cmp3_order [of proc_size] by (simp add: sg_process_compare_size_def [abs_def])

interpretation by_res: cmp_order sg_process_compare_res
  using cmp3_order [of proc_resident] by (simp add: sg_process_compare_res_def [abs_def])

interpretation by_time: cmp_order sg_process_compare_time
  using cmp3_order [of "\<lambda>x. sint (time_spent x)"] unfolding sg_process_compare_time_def [abs_def] word_eq_iff_signed [where 'a = int] .

lemma sorted_cmp3: "cmp_sorted (\<lambda>a b. cmp3 (f a = f b) (f a < (f b :: 'k :: linorder))) xs \<longleftrightarrow> sorted (map f xs)"
  by (auto simp: cmp_sorted_def sorted_wrt_map cmp3_def order_le_less intro!: arg_cong [of _ _ "\<lambda>P. sorted_wrt P xs"] ext)

text \<open>By the share of the processor the order is none: two processes without a number are each greater than the other.\<close>

lemma compare_cpu_no_order:
  "cpu_percent a = NaN \<Longrightarrow> sg_process_compare_cpu a b = 1 \<and> sg_process_compare_cpu b a = 1"
  by (cases "cpu_percent b") (simp_all add: sg_process_compare_cpu_def cmp3_def dbl_eq_def)

section \<open>Counting\<close>

definition in_state :: "sg_process_state \<Rightarrow> sg_process_stats list \<Rightarrow> ull" where
  "in_state s xs = word_of_nat (length (filter (\<lambda>x. state x = s) xs))"

lemma count_loop_eq:
  assumes "vload v w = Done b" "k \<le> length (contents b)"
  shows "count_loop k v w c = Done (c\<lparr>
     running := running c + in_state SG_PROCESS_STATE_RUNNING (take k (contents b)),
     sleeping := sleeping c + in_state SG_PROCESS_STATE_SLEEPING (take k (contents b)),
     stopped := stopped c + in_state SG_PROCESS_STATE_STOPPED (take k (contents b)),
     zombie := zombie c + in_state SG_PROCESS_STATE_ZOMBIE (take k (contents b)),
     unknown := unknown c + in_state SG_PROCESS_STATE_UNKNOWN (take k (contents b))\<rparr>)"
  using assms(2)
proof (induction k arbitrary: c)
  case 0
  then show ?case by (simp add: in_state_def)
next
  case (Suc k)
  then have k: "k < length (contents b)" by simp
  then have "read_item v k w = Done (contents b ! k)" using assms(1) by (simp add: read_item_def contents_def)
  moreover have "take (Suc k) (contents b) = take k (contents b) @ [contents b ! k]" using k by (simp add: take_Suc_conv_app_nth)
  ultimately show ?case using Suc by (cases "state (contents b ! k)") (simp_all add: in_state_def)
qed

lemma count_int_eq:
  assumes "vec_at sg_process_stats_vector_init_info proc_ok v xs w" "xs \<noteq> []"
  shows "sg_get_process_count_int v w c = Done \<lparr>pc_total = word_of_nat (length xs), running = in_state SG_PROCESS_STATE_RUNNING xs,
     sleeping = in_state SG_PROCESS_STATE_SLEEPING xs, stopped = in_state SG_PROCESS_STATE_STOPPED xs,
     zombie = in_state SG_PROCESS_STATE_ZOMBIE xs, unknown = in_state SG_PROCESS_STATE_UNKNOWN xs, pc_systime = ps_systime (hd xs)\<rparr>"
proof -
  obtain b where b: "vload v w = Done b" "vec_ok sg_process_stats_vector_init_info proc_ok b" "contents b = xs"
    using assms(1) by (auto simp: vec_at_def)
  have n: "unat (used_count (hdr b)) = length xs" using length_contents [OF b(2)] b(3) by simp
  then have t: "used_count (hdr b) = word_of_nat (length xs)" by (simp add: word_eq_iff_unsigned [where 'a = nat] unat_of_nat_size flip: n)
  have "xs ! 0 = slots b ! 0" "slots b \<noteq> []" using b(3) n assms(2) nth_take [of 0 "unat (used_count (hdr b))" "slots b"]
    by (auto simp: contents_def)
  then have "read_item v 0 w = Done (hd xs)" using b(1) assms(2) by (simp add: read_item_def hd_conv_nth)
  then show ?thesis
    using count_loop_eq [OF b(1), of "length xs"] b(1,3) n t by (simp add: sg_get_process_count_int_def)
qed

text \<open>The counts of the states add up to the total.\<close>

lemma states_add_up:
  assumes "\<forall>x \<in> set xs. \<forall>k. state x \<noteq> NoState k"
  shows "word_of_nat (length xs) = in_state SG_PROCESS_STATE_RUNNING xs + in_state SG_PROCESS_STATE_SLEEPING xs +
     in_state SG_PROCESS_STATE_STOPPED xs + in_state SG_PROCESS_STATE_ZOMBIE xs + in_state SG_PROCESS_STATE_UNKNOWN xs"
  using assms
proof (induction xs)
  case (Cons x xs)
  then show ?case by (cases "state x") (auto simp: in_state_def)
qed (simp add: in_state_def)

end
