(* ===== verification/Process_Read.thy ===== *)
theory Process_Read
  imports Process_Items
begin

text \<open>
  The processes of Linux and Solaris (\<^verbatim>\<open>src/libstatgrab/process_stats.c\<close>): the files of a process in \<^verbatim>\<open>/proc\<close>, the
  loop over the pages of process ids, and the public functions.
\<close>

section \<open>The files of a process\<close>

text \<open>
  \<open>None\<close> when a file cannot be opened. Of \<^verbatim>\<open>cmdline\<close> what the calls of \<^verbatim>\<open>read\<close> return, and whether the last one fails.
\<close>

record proc_dir =
  pd_comm :: "string option"
  pd_stat :: "string option"
  pd_status :: "cfile option"
  pd_cmdline :: "(string list \<times> bool) option"

text \<open>What the reader knows of the system: uptime, ticks per second, page size and time.\<close>

record proc_env =
  pe_uptime :: time_t
  pe_ticks :: int
  pe_pagesize :: ull
  pe_now :: time_t

text \<open>
  \<^verbatim>\<open>comm\<close>: the name of the process without the newline. A \<^verbatim>\<open>comm\<close> that is empty is opened again at once, and again:
  the code does not go on to the next process.
\<close>

definition read_comm :: "string option \<Rightarrow> string option outcome" where
  "read_comm comm =
     (case comm of
        None \<Rightarrow> Done None
      | Some s \<Rightarrow>
          (case fgets 4095 \<lparr>fbytes = s, fbad = False\<rparr> of
             None \<Rightarrow> Fault NonTermination
           | Some (line, _) \<Rightarrow>
               (let nm = strval line in
                if nm = [] then Fault (OutOfBounds 0 0)
                else Done (Some (if last nm = CHR 0x0A then butlast nm else nm)))))"

text \<open>\<^verbatim>\<open>strncat(comm_jmp, s, sizeof(comm_jmp) - strlen(comm_jmp) - 1)\<close> with the 32 bytes of \<^verbatim>\<open>comm_jmp\<close>.\<close>

definition jmp_cat :: "string \<Rightarrow> string \<Rightarrow> string" where
  "jmp_cat j s = j @ take (32 - length j - 1) s"

text \<open>A directive that skips a word for every gap in the name.\<close>

function jmp_loop :: "string \<Rightarrow> string \<Rightarrow> string" where
  "jmp_loop [] j = j"
| "jmp_loop (c # cs) j =
     (if is_space c then jmp_loop (drop 1 (dropWhile is_space cs)) (jmp_cat (jmp_cat j '' '') ''%*s'') else jmp_loop cs j)"
  by pat_completeness auto
termination
proof (relation "measure (\<lambda>(cs, j). length cs)")
  show "((drop 1 (dropWhile is_space cs), jmp_cat (jmp_cat j '' '') ''%*s''), c # cs, j) \<in> measure (\<lambda>(cs, j). length cs)" for c cs j
    using length_dropWhile_le [of is_space cs] by simp
qed auto

definition comm_jmp :: "string \<Rightarrow> string" where
  "comm_jmp nm = jmp_loop nm (jmp_cat [] ''%*s'')"

text \<open>The directives of \<^verbatim>\<open>comm_jmp\<close>.\<close>

fun jmp_fmt :: "string \<Rightarrow> sfmt list" where
  "jmp_fmt [] = []"
| "jmp_fmt (c # s) =
     (if c = CHR '' '' then FSpace # jmp_fmt s
      else if take 2 s = ''*s'' then FSkipStr # jmp_fmt (drop 2 s) else [])"

definition skip_ints :: "nat \<Rightarrow> sfmt list" where
  "skip_ints n = concat (replicate n [FSpace, FSkipInt])"

text \<open>\<^verbatim>\<open>proc_stat_fmt_base\<close> and \<^verbatim>\<open>proc_stat_fmt_default\<close> behind the name.\<close>

definition stat_tail :: "sfmt list" where
  "stat_tail = [FSpace, FChr, FSpace, FLL, FSpace, FLL] @ skip_ints 8 @ [FSpace, FULL, FSpace, FULL] @ skip_ints 3 @
     [FSpace, FLL] @ skip_ints 2 @ [FSpace, FULL, FSpace, FULL, FSpace, FULL] @ skip_ints 15"

definition proc_stat_fmt :: "string option \<Rightarrow> sfmt list" where
  "proc_stat_fmt nm =
     (case nm of
        Some s \<Rightarrow> [FLL, FSpace] @ jmp_fmt (comm_jmp s) @ stat_tail
      | None \<Rightarrow> [FLL, FSpace, FStr 4095] @ stat_tail)"

fun val_num :: "sval \<Rightarrow> ull" where
  "val_num (VNum n) = n"
| "val_num (VStr s) = 0"

fun val_str :: "sval \<Rightarrow> string" where
  "val_str (VNum n) = []"
| "val_str (VStr s) = s"

text \<open>Where \<^verbatim>\<open>fscanf\<close> stores; state, times and start time go to variables.\<close>

definition stat_setters :: "bool \<Rightarrow> (sval \<Rightarrow> sg_process_stats \<Rightarrow> sg_process_stats) list" where
  "stat_setters named =
     [\<lambda>v. pid_update (\<lambda>_. ucast (val_num v))] @ (if named then [] else [\<lambda>v x. x]) @
     [\<lambda>v x. x, \<lambda>v. parent_update (\<lambda>_. ucast (val_num v)), \<lambda>v. pgid_update (\<lambda>_. ucast (val_num v)), \<lambda>v x. x, \<lambda>v x. x,
      \<lambda>v. nice_update (\<lambda>_. ucast (val_num v)), \<lambda>v x. x, \<lambda>v. proc_size_update (\<lambda>_. val_num v),
      \<lambda>v. proc_resident_update (\<lambda>_. val_num v)]"

definition store_all :: "('v \<Rightarrow> 'a \<Rightarrow> 'a) list \<Rightarrow> 'v list \<Rightarrow> 'a \<Rightarrow> 'a" where
  "store_all fs vs x = fold (\<lambda>(f, v) x. f v x) (zip fs vs) x"

definition linux_state :: "char \<Rightarrow> sg_process_state" where
  "linux_state c =
     (if c = CHR ''S'' then SG_PROCESS_STATE_SLEEPING else if c = CHR ''R'' then SG_PROCESS_STATE_RUNNING
      else if c = CHR ''Z'' then SG_PROCESS_STATE_ZOMBIE else if c = CHR ''T'' \<or> c = CHR ''D'' then SG_PROCESS_STATE_STOPPED
      else SG_PROCESS_STATE_UNKNOWN)"

text \<open>The name between parentheses: from the second character to the first \<^verbatim>\<open>)\<close>, or all of it when there is none.\<close>

definition bare_name :: "string \<Rightarrow> string" where
  "bare_name s = (if CHR '')'' \<in> set (drop 1 s) then takeWhile (\<lambda>c. c \<noteq> CHR '')'') (drop 1 s) else s)"

datatype proc_step = ProcKept | ProcSkipped | ProcFailed sg_error

definition put_stat ::
  "proc_env \<Rightarrow> string option \<Rightarrow> string \<Rightarrow> sg_process_stats \<Rightarrow> env \<Rightarrow> (proc_step \<times> sg_process_stats \<times> env) outcome" where
  "put_stat pe nm body x e =
     (let named = (nm \<noteq> None);
          vals = sscanf (proc_stat_fmt nm) body;
          x = store_all (stat_setters named) vals x
      in if length vals < (if named then 10 else 11) then Done (ProcSkipped, x, e)
         else
           (let k = (if named then 0 else 1);
                buf = (case nm of Some s \<Rightarrow> s | None \<Rightarrow> val_str (vals ! 1));
                s = val_str (vals ! (k + 1)); ut = val_num (vals ! (k + 4)); st = val_num (vals ! (k + 5)); start = val_num (vals ! (k + 7));
                x = x\<lparr>proc_resident := (proc_resident x + 3) * pe_pagesize pe, state := linux_state (hd s)\<rparr>
            in andthen (sg_update_string (process_name x) (CStr (bare_name buf @ [NUL])) e) (\<lambda>(rc, p, e).
                 let x = x\<lparr>process_name := p\<rparr> in
                 if rc \<noteq> SG_ERROR_NONE then Done (ProcFailed (sg_get_error (Some (err e))), x, e)
                 else
                   let x = x\<lparr>cpu_percent := dbl_div (100 * real (unat (ut + st))) (real_of_int (sint (pe_uptime pe)) * 100 - real (unat start))\<rparr>
                   in if pe_ticks pe < 0 then Done (ProcKept, x\<lparr>time_spent := 0, start_time := 0\<rparr>, e)
                      else if pe_ticks pe = 0 then Fault DivideByZero
                      else Done (ProcKept,
                        x\<lparr>time_spent := (ut + st) div word_of_int (pe_ticks pe),
                          start_time := (pe_now pe - pe_uptime pe) + start div word_of_int (pe_ticks pe)\<rparr>, e))))"

text \<open>\<^verbatim>\<open>status\<close>: the lines are looked for one after another, each behind the one before.\<close>

definition id_fmt :: "string \<Rightarrow> sfmt list" where
  "id_fmt key = lits key @ [FSpace, FULL, FSpace, FULL, FSpace, FSkipInt, FSpace, FSkipInt, FSpace]"

definition put_ids ::
  "string \<Rightarrow> (u32 \<Rightarrow> sg_process_stats \<Rightarrow> sg_process_stats) \<Rightarrow> (u32 \<Rightarrow> sg_process_stats \<Rightarrow> sg_process_stats) \<Rightarrow> string \<Rightarrow> sg_process_stats \<Rightarrow> sg_process_stats" where
  "put_ids key f g line x = store_all [\<lambda>v. f (ucast (val_num v)), \<lambda>v. g (ucast (val_num v))] (sscanf (id_fmt key) (strval line)) x"

definition put_switches ::
  "string \<Rightarrow> (ull \<Rightarrow> sg_process_stats \<Rightarrow> sg_process_stats) \<Rightarrow> string option \<Rightarrow> sg_process_stats \<Rightarrow> sg_process_stats" where
  "put_switches key f line x =
     (case line of
        None \<Rightarrow> f 0 x
      | Some l \<Rightarrow> store_all [\<lambda>v. f (val_num v)] (sscanf (lits key @ [FSpace, FULL]) (strval l)) x)"

definition put_status :: "cfile \<Rightarrow> sg_process_stats \<Rightarrow> env \<Rightarrow> (proc_step \<times> sg_process_stats \<times> env) outcome" where
  "put_status f x e =
     andthen (sg_f_read_line 4096 (Some ''Uid:'') f e) (\<lambda>(l, f, e).
       case l of
         None \<Rightarrow> Done (ProcSkipped, x, e)
       | Some l \<Rightarrow>
           let x = put_ids ''Uid:'' (\<lambda>n. uid_update (\<lambda>_. n)) (\<lambda>n. euid_update (\<lambda>_. n)) l x in
     andthen (sg_f_read_line 4096 (Some ''Gid:'') f e) (\<lambda>(l, f, e).
       case l of
         None \<Rightarrow> Done (ProcSkipped, x, e)
       | Some l \<Rightarrow>
           let x = put_ids ''Gid:'' (\<lambda>n. gid_update (\<lambda>_. n)) (\<lambda>n. egid_update (\<lambda>_. n)) l x in
     andthen (sg_f_read_line 4096 (Some ''voluntary_ctxt_switches:'') f e) (\<lambda>(l, f, e).
       let x = put_switches ''voluntary_ctxt_switches:'' (\<lambda>n. voluntary_context_switches_update (\<lambda>_. n)) l x in
     andthen (sg_f_read_line 4096 (Some ''nonvoluntary_ctxt_switches:'') f e) (\<lambda>(l, f, e).
       let x = put_switches ''nonvoluntary_ctxt_switches:'' (\<lambda>n. involuntary_context_switches_update (\<lambda>_. n)) l x in
       Done (ProcKept, x\<lparr>context_switches := voluntary_context_switches x + involuntary_context_switches x\<rparr>, e)))))"

text \<open>\<^verbatim>\<open>cmdline\<close>, piece by piece into the growing title; \<open>None\<close> when memory ran out and the title is freed.\<close>

fun title_loop :: "string list \<Rightarrow> cstr \<Rightarrow> nat \<Rightarrow> env \<Rightarrow> ((cstr \<times> nat) option \<times> env) outcome" where
  "title_loop [] p len e = Done (Some (p, len), e)"
| "title_loop (ch # chs) p len e =
     andthen (sg_realloc p (word_of_nat (len + length ch + 1)) e) (\<lambda>(new, e).
       case new of
         CStr buf \<Rightarrow> title_loop chs (CStr (take len buf @ ch @ drop (len + length ch) buf)) (len + length ch) e
       | _ \<Rightarrow> andthen (c_free p) (\<lambda>_. Done (None, e)))"

definition put_title :: "string list \<times> bool \<Rightarrow> sg_process_stats \<Rightarrow> env \<Rightarrow> (proc_step \<times> sg_process_stats \<times> env) outcome" where
  "put_title cl x e =
     andthen (title_loop (fst cl) (proctitle x) 0 e) (\<lambda>(res, e).
       case res of
         None \<Rightarrow> Done (ProcFailed (sg_get_error (Some (err e))), x\<lparr>proctitle := CNull\<rparr>, e)
       | Some (p, len) \<Rightarrow>
           if snd cl then andthen (c_free p) (\<lambda>_. Done (ProcSkipped, x\<lparr>proctitle := CNull\<rparr>, e))
           else
             (case p of
                CStr buf \<Rightarrow>
                  if length buf \<le> len then Fault (OutOfBounds 0 len)
                  else andthen (adjust_procname_cmndline (buf[len := NUL]) len) (\<lambda>buf. Done (ProcKept, x\<lparr>proctitle := CStr buf\<rparr>, e))
              | _ \<Rightarrow>
                  andthen (src_bytes (process_name x)) (\<lambda>nm.
                    case next_choice e of (c, e) \<Rightarrow>
                      if c = AFail then Done (ProcFailed SG_ERROR_ASPRINTF, x, SET_ERROR_WITH_ERRNO SG_ERROR_ASPRINTF None e)
                      else Done (ProcKept, x\<lparr>proctitle := CStr (''['' @ strval nm @ '']'' @ [NUL])\<rparr>, e))))"

text \<open>One process whose \<^verbatim>\<open>stat\<close> could be opened.\<close>

definition linux_item ::
  "proc_env \<Rightarrow> string option \<Rightarrow> string \<Rightarrow> proc_dir \<Rightarrow> sg_process_stats \<Rightarrow> env \<Rightarrow> (proc_step \<times> sg_process_stats \<times> env) outcome" where
  "linux_item pe nm body pd x e =
     andthen (put_stat pe nm body x e) (\<lambda>(st, x, e).
       if st \<noteq> ProcKept then Done (st, x, e)
       else
         (case pd_status pd of
            None \<Rightarrow> Done (ProcSkipped, x, e)
          | Some f \<Rightarrow>
     andthen (put_status f x e) (\<lambda>(st, x, e).
       if st \<noteq> ProcKept then Done (st, x, e)
       else
         (case pd_cmdline pd of
            None \<Rightarrow> Done (ProcSkipped, x, e)
          | Some cl \<Rightarrow>
     andthen (put_title cl x e) (\<lambda>(st, x, e).
       if st \<noteq> ProcKept then Done (st, x, e) else Done (ProcKept, x\<lparr>ps_systime := pe_now pe\<rparr>, e))))))"

section \<open>The loops over the process ids\<close>

fun linux_pids :: "proc_env \<Rightarrow> (u32 \<Rightarrow> proc_dir) \<Rightarrow> u32 list \<Rightarrow> nat \<Rightarrow> addr \<Rightarrow> sg_process_stats world
    \<Rightarrow> (sg_error \<times> nat \<times> addr \<times> sg_process_stats world) outcome" where
  "linux_pids pe dirs [] n v w = Done (SG_ERROR_NONE, n, v, w)"
| "linux_pids pe dirs (p # ps) n v w =
     andthen (read_comm (pd_comm (dirs p))) (\<lambda>nm.
       case pd_stat (dirs p) of
         None \<Rightarrow> linux_pids pe dirs ps n v w
       | Some body \<Rightarrow>
           andthen (VECTOR_UPDATE v (word_of_nat n + 1) sg_process_stats_vector_init_info w) (\<lambda>(res, v, w).
             case res of
               Inl rc \<Rightarrow> Done (rc, n, v, w)
             | Inr _ \<Rightarrow>
                 andthen (read_item v n w) (\<lambda>x.
                 andthen (linux_item pe nm body (dirs p) x (wenv w)) (\<lambda>(st, x, e).
                 andthen (write_item v n x (set_env e w)) (\<lambda>w.
                   case st of
                     ProcKept \<Rightarrow> linux_pids pe dirs ps (Suc n) v w
                   | ProcSkipped \<Rightarrow> linux_pids pe dirs ps n v w
                   | ProcFailed rc \<Rightarrow> Done (rc, n, v, w))))))"

text \<open>Page by page; the vector is given room for the ids of the page first.\<close>

fun proc_pages :: "(u32 list \<Rightarrow> nat \<Rightarrow> addr \<Rightarrow> sg_process_stats world \<Rightarrow> (sg_error \<times> nat \<times> addr \<times> sg_process_stats world) outcome)
    \<Rightarrow> pids_in_proc_dir_t list \<Rightarrow> nat \<Rightarrow> addr \<Rightarrow> sg_process_stats world \<Rightarrow> (sg_error \<times> nat \<times> addr \<times> sg_process_stats world) outcome" where
  "proc_pages page [] n v w = Done (SG_ERROR_NONE, n, v, w)"
| "proc_pages page (pg # pgs) n v w =
     andthen (VECTOR_UPDATE v (word_of_nat (n + length pg)) sg_process_stats_vector_init_info w) (\<lambda>(res, v, w).
       case res of
         Inl rc \<Rightarrow> Done (rc, n, v, w)
       | Inr _ \<Rightarrow>
           andthen (page pg n v w) (\<lambda>(rc, n, v, w).
             if rc \<noteq> SG_ERROR_NONE then Done (rc, n, v, w) else proc_pages page pgs n v w))"

definition trim_procs :: "nat \<Rightarrow> addr \<Rightarrow> sg_process_stats world \<Rightarrow> (sg_error \<times> addr \<times> sg_process_stats world) outcome" where
  "trim_procs n v w =
     (if v = 0 then Done (SG_ERROR_NONE, v, w)
      else
        andthen (vload v w) (\<lambda>b.
          if word_of_nat n \<noteq> used_count (hdr b) then
            andthen (VECTOR_UPDATE v (word_of_nat n) sg_process_stats_vector_init_info w) (\<lambda>(res, v, w).
              case res of Inl rc \<Rightarrow> Done (rc, v, w) | Inr _ \<Rightarrow> Done (SG_ERROR_NONE, v, w))
          else Done (SG_ERROR_NONE, v, w)))"

text \<open>What both readers do once \<^verbatim>\<open>/proc\<close> is to be scanned. A scan without result returns the error recorded last.\<close>

definition proc_scanned ::
  "(u32 list \<Rightarrow> nat \<Rightarrow> addr \<Rightarrow> sg_process_stats world \<Rightarrow> (sg_error \<times> nat \<times> addr \<times> sg_process_stats world) outcome)
    \<Rightarrow> nat \<Rightarrow> u32 \<Rightarrow> (string list \<times> int) option \<Rightarrow> sg_process_stats multi_int" where
  "proc_scanned page psz junk dir v w =
     andthen (scan_proc_dir psz junk ''/proc'' dir (wenv w)) (\<lambda>(chain, e).
       case chain of
         None \<Rightarrow> Done (sg_get_error (Some (err e)), v, set_env e w)
       | Some pgs \<Rightarrow>
           andthen (proc_pages page pgs 0 v (set_env e w)) (\<lambda>(rc, n, v, w).
             if rc \<noteq> SG_ERROR_NONE then Done (rc, v, w) else trim_procs n v w))"

definition scan_proc_uptime :: "string \<Rightarrow> time_t option" where
  "scan_proc_uptime s = (case sscanf [FLL, FSpace, FSkipInt] s of VNum n # _ \<Rightarrow> Some n | _ \<Rightarrow> None)"

definition sg_get_process_stats_linux ::
  "string option \<Rightarrow> int \<Rightarrow> nat \<Rightarrow> u32 \<Rightarrow> (string list \<times> int) option \<Rightarrow> (u32 \<Rightarrow> proc_dir) \<Rightarrow> time_t \<Rightarrow> sg_process_stats multi_int" where
  "sg_get_process_stats_linux uptime ticks psz junk dir dirs now v w =
     (case uptime of
        None \<Rightarrow> Done (SG_ERROR_OPEN, v, set_env (SET_ERROR_WITH_ERRNO SG_ERROR_OPEN (Some ''/proc/uptime'') (wenv w)) w)
      | Some s \<Rightarrow>
          (case scan_proc_uptime s of
             None \<Rightarrow> Done (SG_ERROR_PARSE, v, set_env (SET_ERROR SG_ERROR_PARSE None (wenv w)) w)
           | Some t0 \<Rightarrow>
               proc_scanned (linux_pids \<lparr>pe_uptime = t0, pe_ticks = ticks, pe_pagesize = word_of_nat psz, pe_now = now\<rparr> dirs) psz junk dir v w))"

section \<open>Solaris\<close>

text \<open>\<^verbatim>\<open>psinfo_t\<close> and \<^verbatim>\<open>prusage_t\<close> as far as they are used.\<close>

record psinfo =
  pr_pid :: u32
  pr_ppid :: u32
  pr_pgid :: u32
  pr_uid :: u32
  pr_euid :: u32
  pr_gid :: u32
  pr_egid :: u32
  pr_size :: ull
  pr_rssize :: ull
  pr_start :: time_t
  pr_time :: time_t
  pr_pctcpu :: "16 word"
  pr_nice :: int
  pr_state :: nat
  pr_fname :: string
  pr_psargs :: string

record prusage =
  pr_vctx :: ull
  pr_ictx :: ull

definition solaris_state :: "nat \<Rightarrow> sg_process_state \<Rightarrow> sg_process_state" where
  "solaris_state k old =
     (if k = 1 then SG_PROCESS_STATE_SLEEPING else if k = 2 \<or> k = 5 then SG_PROCESS_STATE_RUNNING
      else if k = 3 then SG_PROCESS_STATE_ZOMBIE else if k = 4 then SG_PROCESS_STATE_STOPPED else old)"

definition solaris_item :: "time_t \<Rightarrow> psinfo \<Rightarrow> prusage option \<Rightarrow> sg_process_stats \<Rightarrow> env \<Rightarrow> (proc_step \<times> sg_process_stats \<times> env) outcome" where
  "solaris_item now ps us x e =
     (let x = x\<lparr>pid := pr_pid ps, parent := pr_ppid ps, pgid := pr_pgid ps, uid := pr_uid ps, euid := pr_euid ps, gid := pr_gid ps,
             egid := pr_egid ps, proc_size := pr_size ps * 1024, proc_resident := pr_rssize ps * 1024, start_time := pr_start ps,
             time_spent := pr_time ps, cpu_percent := Fin (real (unat (pr_pctcpu ps)) * 100 / 32768),
             nice := word_of_int (pr_nice ps - 20)\<rparr>
      in andthen (sg_update_string (process_name x) (CStr (pr_fname ps @ [NUL])) e) (\<lambda>(rc, p, e).
           let x = x\<lparr>process_name := p\<rparr> in
           if rc \<noteq> SG_ERROR_NONE then Done (ProcFailed (sg_get_error (Some (err e))), x, e)
           else
         andthen (sg_update_string (proctitle x) (CStr (pr_psargs ps @ [NUL])) e) (\<lambda>(rc, p, e).
           let x = x\<lparr>proctitle := p\<rparr> in
           if rc \<noteq> SG_ERROR_NONE then Done (ProcFailed (sg_get_error (Some (err e))), x, e)
           else
             let x = x\<lparr>state := solaris_state (pr_state ps) (state x)\<rparr>;
                 x = (case us of
                        None \<Rightarrow> x
                      | Some u \<Rightarrow> x\<lparr>context_switches := pr_vctx u + pr_ictx u, voluntary_context_switches := pr_vctx u,
                                     involuntary_context_switches := pr_ictx u\<rparr>)
             in Done (ProcKept, x\<lparr>ps_systime := now\<rparr>, e))))"

fun solaris_pids :: "time_t \<Rightarrow> (u32 \<Rightarrow> (psinfo \<times> prusage option) option) \<Rightarrow> u32 list \<Rightarrow> nat \<Rightarrow> addr \<Rightarrow> sg_process_stats world
    \<Rightarrow> (sg_error \<times> nat \<times> addr \<times> sg_process_stats world) outcome" where
  "solaris_pids now dirs [] n v w = Done (SG_ERROR_NONE, n, v, w)"
| "solaris_pids now dirs (p # ps) n v w =
     (case dirs p of
        None \<Rightarrow> solaris_pids now dirs ps n v w
      | Some (psi, us) \<Rightarrow>
          andthen (read_item v n w) (\<lambda>x.
          andthen (solaris_item now psi us x (wenv w)) (\<lambda>(st, x, e).
          andthen (write_item v n x (set_env e w)) (\<lambda>w.
            case st of ProcFailed rc \<Rightarrow> Done (rc, n, v, w) | _ \<Rightarrow> solaris_pids now dirs ps (Suc n) v w))))"

definition sg_get_process_stats_solaris ::
  "nat \<Rightarrow> u32 \<Rightarrow> (string list \<times> int) option \<Rightarrow> (u32 \<Rightarrow> (psinfo \<times> prusage option) option) \<Rightarrow> time_t \<Rightarrow> sg_process_stats multi_int" where
  "sg_get_process_stats_solaris psz junk dir dirs now = proc_scanned (solaris_pids now dirs) psz junk dir"

section \<open>The public functions\<close>

definition sg_get_process_stats :: "sg_process_stats multi_int \<Rightarrow> sg_process_stats access" where
  "sg_get_process_stats reader = MULTI_COMP_ACCESS sg_process_stats_vector_init_info reader SG_PROC_STAT_IDX"

datatype sg_process_count_source = sg_entire_process_count | sg_last_process_count | sg_other_process_count int

text \<open>The vectors of both item types; they share the environment.\<close>

record proc_world =
  pw_stats :: "sg_process_stats world"
  pw_counts :: "sg_process_count world"

definition to_counts :: "proc_world \<Rightarrow> proc_world" where
  "to_counts w = w\<lparr>pw_counts := set_env (wenv (pw_stats w)) (pw_counts w)\<rparr>"

definition to_procs :: "proc_world \<Rightarrow> proc_world" where
  "to_procs w = w\<lparr>pw_stats := set_env (wenv (pw_counts w)) (pw_stats w)\<rparr>"

text \<open>The vector of processes to count; 0 when there is none.\<close>

definition count_source ::
  "sg_process_stats multi_int \<Rightarrow> sg_process_count_source \<Rightarrow> glob \<Rightarrow> sg_process_stats world \<Rightarrow> (addr \<times> glob \<times> sg_process_stats world) outcome" where
  "count_source reader pcs g w =
     (let entire = andthen (sg_get_process_stats reader (Some g) w) (\<lambda>(_, gl, w).
            case gl of Some g \<Rightarrow> Done (g SG_PROC_STAT_IDX, g, w) | None \<Rightarrow> Done (0, g, w))
      in case pcs of
           sg_last_process_count \<Rightarrow> if g SG_PROC_STAT_IDX \<noteq> 0 then Done (g SG_PROC_STAT_IDX, g, w) else entire
         | sg_entire_process_count \<Rightarrow> entire
         | sg_other_process_count i \<Rightarrow>
             Done (0, g, set_env (SET_ERROR SG_ERROR_INVALID_ARGUMENT
               (Some (''sg_get_process_count_of(sg_process_count_source = '' @ int_string i @ '')'')) (wenv w)) w))"

text \<open>
  The vector for the counts is created with room for one item, of which none is in use; the code writes the
  room all the same.
\<close>

definition sg_get_process_count_of ::
  "sg_process_stats multi_int \<Rightarrow> sg_process_count_source \<Rightarrow> glob option \<Rightarrow> proc_world \<Rightarrow> (addr \<times> glob option \<times> proc_world) outcome" where
  "sg_get_process_count_of reader pcs gl w =
     (case gl of
        None \<Rightarrow> Done (0, None, w)
      | Some g \<Rightarrow>
          andthen (if g SG_PROC_COUNT_IDX = 0
                   then andthen (VECTOR_CREATE sg_process_count_vector_init_info 1 (pw_counts (to_counts w))) (\<lambda>(v, cw). Done (g(SG_PROC_COUNT_IDX := v), cw))
                   else Done (g, pw_counts (to_counts w))) (\<lambda>(g, cw).
            let w = to_procs (w\<lparr>pw_counts := cw\<rparr>) in
            if g SG_PROC_COUNT_IDX = 0 then
              Done (0, Some g, w\<lparr>pw_stats := set_env (SET_ERROR SG_ERROR_MALLOC (Some ''sg_get_process_count_of'') (wenv (pw_stats w))) (pw_stats w)\<rparr>)
            else
              andthen (count_source reader pcs g (pw_stats w)) (\<lambda>(v, g, sw).
                let w = to_counts (w\<lparr>pw_stats := sw\<rparr>) in
                if v = 0 then Done (0, Some g, w)
                else
                  andthen (read_item (g SG_PROC_COUNT_IDX) 0 (pw_counts w)) (\<lambda>c.
                  andthen (sg_get_process_count_int v sw c) (\<lambda>c.
                  andthen (write_item (g SG_PROC_COUNT_IDX) 0 c (pw_counts w)) (\<lambda>cw.
                    Done (g SG_PROC_COUNT_IDX, Some g, w\<lparr>pw_counts := cw\<rparr>)))))))"

end
