(* ===== verification/Process_Lines.thy ===== *)
theory Process_Lines
  imports Process_Read
begin

text \<open>
  The files of a Linux process as the kernel prints them, and what the reader takes from them: the format that
  skips the name in \<^verbatim>\<open>stat\<close> (a name may hold blanks), the numbers of \<^verbatim>\<open>stat\<close> and \<^verbatim>\<open>status\<close>, and the command line.
\<close>

section \<open>Skipping the name\<close>

text \<open>The number of gaps in a name.\<close>

function gaps :: "string \<Rightarrow> nat" where
  "gaps [] = 0"
| "gaps (c # cs) = (if is_space c then Suc (gaps (drop 1 (dropWhile is_space cs))) else gaps cs)"
  by pat_completeness auto
termination
proof (relation "measure length")
  show "(drop 1 (dropWhile is_space cs), c # cs) \<in> measure length" for c cs
    using length_dropWhile_le [of is_space cs] by simp
qed auto

lemma gaps_bound: "2 * gaps s \<le> length s + 1"
proof (induction s rule: gaps.induct)
  case (2 c cs)
  then show ?case
    using length_dropWhile_le [of is_space cs] by (cases "dropWhile is_space cs") (auto simp del: dropWhile_eq_Nil_conv)
qed simp

lemma jmp_loop_eq:
  "length j + 4 * gaps s \<le> 31 \<Longrightarrow> jmp_loop s j = j @ concat (replicate (gaps s) '' %*s'')"
proof (induction s j rule: jmp_loop.induct)
  case (2 c cs j)
  show ?case
  proof (cases "is_space c")
    case True
    then have "jmp_cat (jmp_cat j '' '') ''%*s'' = j @ '' %*s''" using "2.prems" by (simp add: jmp_cat_def)
    with 2 True show ?thesis by simp
  next
    case False
    with 2 show ?thesis by simp
  qed
qed simp

lemma jmp_fmt_skips: "jmp_fmt (''%*s'' @ concat (replicate k '' %*s'')) = FSkipStr # concat (replicate k [FSpace, FSkipStr])"
proof -
  have "jmp_fmt (concat (replicate k '' %*s'')) = concat (replicate k [FSpace, FSkipStr])" by (induction k) auto
  then show ?thesis by simp
qed

lemma comm_jmp_fmt:
  "gaps s \<le> 7 \<Longrightarrow> jmp_fmt (comm_jmp s) = FSkipStr # concat (replicate (gaps s) [FSpace, FSkipStr])"
  using jmp_loop_eq [of "''%*s''" s] jmp_fmt_skips [of "gaps s"] by (simp add: comm_jmp_def jmp_cat_def)

lemma skip_word:
  assumes "t \<noteq> []" "\<forall>c \<in> set t. \<not> is_space c" "is_space d"
  shows "sscanf (FSkipStr # fs) (t @ d # s) = sscanf fs (d # s)"
proof -
  have "takeWhile (\<lambda>c. \<not> is_space c) (t @ d # s) = t" "dropWhile is_space (t @ d # s) = t @ d # s"
    using assms by (cases t; simp add: takeWhile_append2)+
  then show ?thesis using assms(1) by (simp add: scan_str_def)
qed

text \<open>One directive for the start of the name and one for every gap skip the name and what encloses it.\<close>

lemma skip_name:
  assumes "pre \<noteq> []" "\<forall>c \<in> set pre. \<not> is_space c" "is_space d"
  shows "sscanf (FSkipStr # concat (replicate (gaps s) [FSpace, FSkipStr]) @ fs) (pre @ s @ CHR '')'' # d # r) = sscanf fs (d # r)"
  using assms(1,2)
proof (induction s arbitrary: pre rule: gaps.induct)
  case 1
  have "\<not> is_space CHR '')''" by (simp add: is_space_def)
  then show ?case using skip_word [of "pre @ '')''" d fs r] 1 assms(3) by simp
next
  case (2 c cs)
  have par: "\<not> is_space CHR '')''" by (simp add: is_space_def)
  show ?case
  proof (cases "is_space c")
    case False
    then have "\<forall>x \<in> set (pre @ [c]). \<not> is_space x" using "2.prems" by auto
    with "2.IH"(2) [OF False, of "pre @ [c]"] False show ?thesis by simp
  next
    case True
    let ?r = "CHR '')'' # d # r"
    let ?g = "concat (replicate (gaps (drop 1 (dropWhile is_space cs))) [FSpace, FSkipStr])"
    have "sscanf (FSkipStr # concat (replicate (gaps (c # cs)) [FSpace, FSkipStr]) @ fs) (pre @ (c # cs) @ ?r) =
        sscanf (FSkipStr # ?g @ fs) (dropWhile is_space (cs @ ?r))"
      using skip_word [OF "2.prems" True, of "FSpace # FSkipStr # ?g @ fs" "cs @ ?r"] True by simp
    also have "\<dots> = sscanf fs (d # r)"
    proof (cases "dropWhile is_space cs")
      case Nil
      then have g: "?g = []" by (simp only: drop_Nil gaps.simps replicate_0 concat.simps)
      have "dropWhile is_space (cs @ ?r) = ?r" using Nil par by (simp add: dropWhile_append)
      then show ?thesis using skip_word [of "'')''" d fs r] par assms(3) unfolding g by simp
    next
      case (Cons a as)
      then have a: "\<not> is_space a" by (metis hd_dropWhile list.distinct(1) list.sel(1))
      have "\<not> (\<forall>x \<in> set cs. is_space x)" using Cons by (metis dropWhile_eq_Nil_conv list.distinct(1))
      then have "dropWhile is_space (cs @ ?r) = [a] @ as @ ?r" using Cons par by (auto simp: dropWhile_append)
      then show ?thesis using "2.IH"(1) [OF True, of "[a]"] Cons a by simp
    qed
    finally show ?thesis .
  qed
qed

section \<open>The line of stat\<close>

text \<open>Numbers behind blanks; those the reader does not want may be negative.\<close>

definition blank_ints :: "int list \<Rightarrow> string" where
  "blank_ints is = concat (map (\<lambda>i. '' '' @ int_string i) is)"

definition no_digit :: "string \<Rightarrow> bool" where
  "no_digit s \<longleftrightarrow> s = [] \<or> \<not> is_digit (hd s)"

lemma no_digit_simps [simp]: "no_digit []" "no_digit (CHR '' '' # s)" "no_digit (CHR 0x09 # s)" "no_digit (CHR 0x0A # s)"
  by (simp_all add: no_digit_def is_digit_def)

lemma no_digit_ints: "no_digit r \<Longrightarrow> no_digit (blank_ints is @ r)"
  by (cases "is") (simp_all add: blank_ints_def)

lemma scan_ll: "no_digit r \<Longrightarrow> sscanf (FSpace # FLL # fs) (CHR '' '' # int_string i @ r) = VNum (to_ll (i < 0, nat \<bar>i\<bar>)) # sscanf fs r"
  using scan_int_int_string [of "[]" r i] by (simp add: no_digit_def is_space_def)

lemma scan_ull: "no_digit r \<Longrightarrow> sscanf (FSpace # FULL # fs) (CHR '' '' # dec_string n @ r) = VNum (to_ull (False, n)) # sscanf fs r"
  using scan_int_dec [of "[]" r n] by (simp add: no_digit_def is_space_def)

lemma scan_chr: "\<not> is_space c \<Longrightarrow> sscanf (FSpace # FChr # fs) (CHR '' '' # c # r) = VStr [c] # sscanf fs r"
  by (simp add: is_space_def)

lemma scan_skip_ints: "no_digit r \<Longrightarrow> sscanf (skip_ints (length is) @ fs) (blank_ints is @ r) = sscanf fs r"
proof (induction "is")
  case (Cons i "is")
  have "scan_int (int_string i @ blank_ints is @ r) = Some ((i < 0, nat \<bar>i\<bar>), blank_ints is @ r)"
    using scan_int_int_string [of "[]" "blank_ints is @ r" i] no_digit_ints [OF Cons.prems] by (simp add: no_digit_def)
  then show ?case using Cons by (simp add: skip_ints_def blank_ints_def is_space_def)
qed (simp add: skip_ints_def blank_ints_def)

lemma to_ll_int: "\<bar>i\<bar> < 2 ^ 63 \<Longrightarrow> to_ll (i < 0, nat \<bar>i\<bar>) = word_of_int i"
  by (auto simp: to_ll_def nat_less_iff of_nat_nat not_le)

text \<open>A process: what \<^verbatim>\<open>stat\<close> says of it and, for \<^verbatim>\<open>status\<close> and \<^verbatim>\<open>cmdline\<close>, its ids, context switches and arguments.\<close>

record lproc =
  lp_pid :: int
  lp_comm :: string
  lp_state :: char
  lp_ppid :: int
  lp_pgrp :: int
  lp_mid1 :: "int list"
  lp_utime :: nat
  lp_stime :: nat
  lp_mid2 :: "int list"
  lp_nice :: int
  lp_mid3 :: "int list"
  lp_start :: nat
  lp_vsize :: nat
  lp_rss :: nat
  lp_rest :: string
  lp_uids :: "nat \<times> nat \<times> nat \<times> nat"
  lp_gids :: "nat \<times> nat \<times> nat \<times> nat"
  lp_vol :: nat
  lp_nonvol :: nat
  lp_args :: "string list"

definition stat_line :: "lproc \<Rightarrow> string" where
  "stat_line p = int_string (lp_pid p) @ '' ('' @ lp_comm p @ '') '' @ [lp_state p] @ '' '' @ int_string (lp_ppid p) @ '' '' @
     int_string (lp_pgrp p) @ blank_ints (lp_mid1 p) @ '' '' @ dec_string (lp_utime p) @ '' '' @ dec_string (lp_stime p) @
     blank_ints (lp_mid2 p) @ '' '' @ int_string (lp_nice p) @ blank_ints (lp_mid3 p) @ '' '' @ dec_string (lp_start p) @ '' '' @
     dec_string (lp_vsize p) @ '' '' @ dec_string (lp_rss p) @ lp_rest p"

definition stat_ok :: "lproc \<Rightarrow> bool" where
  "stat_ok p \<longleftrightarrow> length (lp_mid1 p) = 8 \<and> length (lp_mid2 p) = 3 \<and> length (lp_mid3 p) = 2 \<and> no_digit (lp_rest p) \<and>
     \<bar>lp_pid p\<bar> < 2 ^ 63 \<and> \<bar>lp_ppid p\<bar> < 2 ^ 63 \<and> \<bar>lp_pgrp p\<bar> < 2 ^ 63 \<and> \<bar>lp_nice p\<bar> < 2 ^ 63 \<and>
     lp_utime p < 2 ^ 64 \<and> lp_stime p < 2 ^ 64 \<and> lp_start p < 2 ^ 64 \<and> lp_vsize p < 2 ^ 64 \<and> lp_rss p < 2 ^ 64 \<and>
     gaps (lp_comm p) \<le> 7 \<and> \<not> is_space (lp_state p)"

lemma scan_skips_silent: "sscanf (skip_ints n) s = []"
  by (induction n arbitrary: s) (auto simp: skip_ints_def split: option.splits)

lemma scan_stat_line:
  assumes "stat_ok p"
  shows "sscanf (proc_stat_fmt (Some (lp_comm p))) (stat_line p) =
    [VNum (word_of_int (lp_pid p)), VStr [lp_state p], VNum (word_of_int (lp_ppid p)), VNum (word_of_int (lp_pgrp p)),
     VNum (word_of_nat (lp_utime p)), VNum (word_of_nat (lp_stime p)), VNum (word_of_int (lp_nice p)), VNum (word_of_nat (lp_start p)),
     VNum (word_of_nat (lp_vsize p)), VNum (word_of_nat (lp_rss p))]"
proof -
  let ?f3 = "[FSpace, FULL, FSpace, FULL, FSpace, FULL] @ skip_ints 15"
  let ?f2 = "[FSpace, FLL] @ skip_ints 2 @ ?f3"
  let ?f1 = "[FSpace, FULL, FSpace, FULL] @ skip_ints 3 @ ?f2"
  let ?s3 = "'' '' @ dec_string (lp_start p) @ '' '' @ dec_string (lp_vsize p) @ '' '' @ dec_string (lp_rss p) @ lp_rest p"
  let ?s2 = "'' '' @ int_string (lp_nice p) @ blank_ints (lp_mid3 p) @ ?s3"
  let ?s1 = "'' '' @ dec_string (lp_utime p) @ '' '' @ dec_string (lp_stime p) @ blank_ints (lp_mid2 p) @ ?s2"
  let ?s0 = "'' '' @ [lp_state p] @ '' '' @ int_string (lp_ppid p) @ '' '' @ int_string (lp_pgrp p) @ blank_ints (lp_mid1 p) @ ?s1"
  note a = assms [unfolded stat_ok_def]
  have s3: "sscanf ?f3 ?s3 = [VNum (word_of_nat (lp_start p)), VNum (word_of_nat (lp_vsize p)), VNum (word_of_nat (lp_rss p))]"
    using a scan_ull to_ull_small scan_skips_silent by simp
  have s2: "sscanf ?f2 ?s2 = VNum (word_of_int (lp_nice p)) # sscanf ?f3 ?s3"
    using scan_ll [OF no_digit_ints, of ?s3 "skip_ints 2 @ ?f3" "lp_nice p" "lp_mid3 p"] scan_skip_ints [of ?s3 "lp_mid3 p" ?f3] a to_ll_int by simp
  have s1: "sscanf ?f1 ?s1 = VNum (word_of_nat (lp_utime p)) # VNum (word_of_nat (lp_stime p)) # sscanf ?f2 ?s2"
    using scan_ull [of "'' '' @ dec_string (lp_stime p) @ blank_ints (lp_mid2 p) @ ?s2" "[FSpace, FULL] @ skip_ints 3 @ ?f2" "lp_utime p"]
      scan_ull [OF no_digit_ints, of ?s2 "skip_ints 3 @ ?f2" "lp_stime p" "lp_mid2 p"] scan_skip_ints [of ?s2 "lp_mid2 p" ?f2] a to_ull_small by simp
  have "sscanf (skip_ints 8 @ ?f1) (blank_ints (lp_mid1 p) @ ?s1) = sscanf ?f1 ?s1"
    using scan_skip_ints [of ?s1 "lp_mid1 p" ?f1] a by simp
  moreover have "sscanf ([FSpace, FLL] @ skip_ints 8 @ ?f1) ('' '' @ int_string (lp_pgrp p) @ blank_ints (lp_mid1 p) @ ?s1) =
      VNum (word_of_int (lp_pgrp p)) # sscanf (skip_ints 8 @ ?f1) (blank_ints (lp_mid1 p) @ ?s1)"
    using scan_ll [OF no_digit_ints, of ?s1 "skip_ints 8 @ ?f1" "lp_pgrp p" "lp_mid1 p"] a to_ll_int by (simp del: sscanf.simps)
  moreover have "sscanf ([FSpace, FLL, FSpace, FLL] @ skip_ints 8 @ ?f1) (drop 2 ?s0) = VNum (word_of_int (lp_ppid p)) #
      sscanf ([FSpace, FLL] @ skip_ints 8 @ ?f1) ('' '' @ int_string (lp_pgrp p) @ blank_ints (lp_mid1 p) @ ?s1)"
    using scan_ll [of "'' '' @ int_string (lp_pgrp p) @ blank_ints (lp_mid1 p) @ ?s1" "[FSpace, FLL] @ skip_ints 8 @ ?f1" "lp_ppid p"] a to_ll_int
    by (simp del: sscanf.simps)
  moreover have "sscanf stat_tail ?s0 = VStr [lp_state p] # sscanf ([FSpace, FLL, FSpace, FLL] @ skip_ints 8 @ ?f1) (drop 2 ?s0)"
    using scan_chr [of "lp_state p" "[FSpace, FLL, FSpace, FLL] @ skip_ints 8 @ ?f1" "drop 2 ?s0"] a by (simp add: stat_tail_def del: sscanf.simps)
  ultimately have s0: "sscanf stat_tail ?s0 = VStr [lp_state p] # VNum (word_of_int (lp_ppid p)) # VNum (word_of_int (lp_pgrp p)) # sscanf ?f1 ?s1"
    by (simp only:)
  have nm: "sscanf (jmp_fmt (comm_jmp (lp_comm p)) @ stat_tail) (CHR ''('' # lp_comm p @ CHR '')'' # ?s0) = sscanf stat_tail ?s0"
    using skip_name [of "''(''" "CHR '' ''" "lp_comm p" stat_tail "tl ?s0"] a by (simp add: comm_jmp_fmt is_space_def)
  have "scan_int (stat_line p) = Some ((lp_pid p < 0, nat \<bar>lp_pid p\<bar>), '' ('' @ lp_comm p @ CHR '')'' # ?s0)"
    using scan_int_int_string [of "[]" "'' ('' @ lp_comm p @ CHR '')'' # ?s0" "lp_pid p"]
    by (simp add: stat_line_def is_digit_def)
  then have "sscanf (proc_stat_fmt (Some (lp_comm p))) (stat_line p) = VNum (word_of_int (lp_pid p)) # sscanf stat_tail ?s0"
    using nm a to_ll_int by (simp add: proc_stat_fmt_def is_space_def)
  then show ?thesis unfolding s0 s1 s2 s3 .
qed

end
