(* ===== verification/Process_Props.thy ===== *)
theory Process_Props
  imports Process_Lines Snapshots
begin

text \<open>
  What \<^verbatim>\<open>sg_get_process_stats\<close> delivers on Linux for a \<^verbatim>\<open>/proc\<close> as the kernel prints it, and the counts by state.
\<close>

section \<open>One process\<close>

lemma name_stored:
  assumes "cstr_ok p" "name_ok s" "sched e = []"
  shows "sg_update_string p (CStr (s @ [NUL])) e = Done (SG_ERROR_NONE, CStr (s @ [NUL]), e)"
  using name_update [OF assms(1,2), of e] assms(3) by auto

lemma narrow_int: "(ucast (word_of_int i :: ull) :: u32) = word_of_int i"
  by (rule bit_word_eqI) (auto simp: bit_simps)

text \<open>What \<^verbatim>\<open>stat\<close> gives.\<close>

definition stat_of :: "proc_env \<Rightarrow> lproc \<Rightarrow> sg_process_stats \<Rightarrow> sg_process_stats" where
  "stat_of pe p x =
     x\<lparr>process_name := CStr (bare_name (lp_comm p) @ [NUL]), pid := word_of_int (lp_pid p), parent := word_of_int (lp_ppid p),
       pgid := word_of_int (lp_pgrp p), nice := word_of_int (lp_nice p), proc_size := word_of_nat (lp_vsize p),
       proc_resident := (word_of_nat (lp_rss p) + 3) * pe_pagesize pe, state := linux_state (lp_state p),
       cpu_percent := dbl_div (100 * real (unat (word_of_nat (lp_utime p) + word_of_nat (lp_stime p) :: ull)))
         (real_of_int (sint (pe_uptime pe)) * 100 - real (lp_start p)),
       time_spent := (word_of_nat (lp_utime p) + word_of_nat (lp_stime p)) div word_of_int (pe_ticks pe),
       start_time := (pe_now pe - pe_uptime pe) + word_of_nat (lp_start p) div word_of_int (pe_ticks pe)\<rparr>"

lemma put_stat_printed:
  assumes "stat_ok p" "name_ok (bare_name (lp_comm p))" "0 < pe_ticks pe" "cstr_ok (process_name x)" "sched e = []"
  shows "put_stat pe (Some (lp_comm p)) (stat_line p) x e = Done (ProcKept, stat_of pe p x, e)"
proof -
  have "unat (word_of_nat (lp_start p) :: ull) = lp_start p" using assms(1) by (intro unat_of_nat_size) (simp add: stat_ok_def)
  then have "(unsigned (word_of_nat (lp_start p) :: ull) :: real) = real (lp_start p)" by (metis of_nat_unat)
  then show ?thesis
    using name_stored [OF assms(4,2,5)] assms(3)
    by (simp add: put_stat_def scan_stat_line [OF assms(1)] stat_setters_def store_all_def Let_def stat_of_def numeral_eq_Suc
        narrow_int del: One_nat_def)
qed

text \<open>Lines of \<^verbatim>\<open>status\<close>: the first one with the key is found, and the rest of the file is left for the next search.\<close>

lemma read_line_at:
  assumes "1 < n" "list_all (line_ok (n - 1)) ls" "line_ok (n - 1) l" "\<forall>x \<in> set ls. \<not> has_prefix k (x @ [CHR 0x0A])" "has_prefix k (l @ [CHR 0x0A])"
  shows "sg_f_read_line n (Some k) \<lparr>fbytes = text_of (ls @ l # rest), fbad = False\<rparr> e =
     Done (Some (l @ [CHR 0x0A]), \<lparr>fbytes = text_of rest, fbad = False\<rparr>, e)"
  using assms(2,4)
proof (induction ls)
  case Nil
  have "fgets_take (n - 1) (l @ CHR 0x0A # text_of rest) = (l @ [CHR 0x0A], text_of rest)"
    using assms(3) fgets_take_line by (simp add: line_ok_def)
  then show ?case using assms(1,5) by (simp add: sg_f_read_line.simps fgets_def text_of_def)
next
  case (Cons x ls)
  have "fgets_take (n - 1) (x @ CHR 0x0A # text_of (ls @ l # rest)) = (x @ [CHR 0x0A], text_of (ls @ l # rest))"
    using Cons.prems(1) fgets_take_line by (simp add: line_ok_def)
  moreover have t: "text_of ((x # ls) @ l # rest) = x @ CHR 0x0A # text_of (ls @ l # rest)" by (simp add: text_of_def)
  ultimately show ?case using Cons assms(1) unfolding t by (subst sg_f_read_line.simps) (simp add: fgets_def)
qed

definition id_line :: "string \<Rightarrow> nat \<times> nat \<times> nat \<times> nat \<Rightarrow> string" where
  "id_line key ids = (case ids of (a, b, c, d) \<Rightarrow> key @ CHR 0x09 # dec_string a @ CHR 0x09 # dec_string b @ CHR 0x09 # dec_string c @ CHR 0x09 # dec_string d)"

definition switch_line :: "string \<Rightarrow> nat \<Rightarrow> string" where
  "switch_line key n = key @ CHR 0x09 # dec_string n"

lemma scan_tab: "no_digit r \<Longrightarrow> sscanf (FSpace # FULL # fs) (CHR 0x09 # dec_string n @ r) = VNum (to_ull (False, n)) # sscanf fs r"
  using scan_int_dec [of "[]" r n] by (simp add: no_digit_def is_space_def)

lemma no_digit_space: "no_digit (c # s) \<longleftrightarrow> \<not> is_digit c"
  by (simp add: no_digit_def)

lemma scan_ids:
  assumes "a < 2 ^ 64" "b < 2 ^ 64"
  shows "sscanf (id_fmt key) (id_line key (a, b, c, d) @ [CHR 0x0A]) = [VNum (word_of_nat a), VNum (word_of_nat b)]"
proof -
  have skip: "sscanf [FSpace, FSkipInt, FSpace, FSkipInt, FSpace] s = []" for s by (auto split: option.splits)
  show ?thesis
    using scan_tab [of "CHR 0x09 # dec_string b @ CHR 0x09 # dec_string c @ CHR 0x09 # dec_string d @ [CHR 0x0A]"
        "[FSpace, FULL, FSpace, FSkipInt, FSpace, FSkipInt, FSpace]" a]
      scan_tab [of "CHR 0x09 # dec_string c @ CHR 0x09 # dec_string d @ [CHR 0x0A]" "[FSpace, FSkipInt, FSpace, FSkipInt, FSpace]" b] assms to_ull_small
    by (simp add: id_fmt_def id_line_def sscanf_lits skip del: sscanf.simps)
qed

lemma scan_switches: "n < 2 ^ 64 \<Longrightarrow> sscanf (lits key @ [FSpace, FULL]) (switch_line key n @ [CHR 0x0A]) = [VNum (word_of_nat n)]"
  using scan_tab [of "[CHR 0x0A]" "[]" n] to_ull_small by (simp add: switch_line_def sscanf_lits)

text \<open>\<^verbatim>\<open>status\<close> with the four lines in the order the kernel prints them, between lines that start with other keys.\<close>

type_synonym noise = "string list \<times> string list \<times> string list \<times> string list \<times> string list"

definition status_text :: "lproc \<Rightarrow> noise \<Rightarrow> string" where
  "status_text p ns = (case ns of (n1, n2, n3, n4, n5) \<Rightarrow>
     text_of (n1 @ id_line ''Uid:'' (lp_uids p) # n2 @ id_line ''Gid:'' (lp_gids p) # n3 @
       switch_line ''voluntary_ctxt_switches:'' (lp_vol p) # n4 @ switch_line ''nonvoluntary_ctxt_switches:'' (lp_nonvol p) # n5))"

definition quiet :: "string \<Rightarrow> string list \<Rightarrow> bool" where
  "quiet key ls \<longleftrightarrow> list_all (line_ok 4095) ls \<and> (\<forall>x \<in> set ls. \<not> has_prefix key (x @ [CHR 0x0A]))"

definition status_ok :: "lproc \<Rightarrow> noise \<Rightarrow> bool" where
  "status_ok p ns = (case ns of (n1, n2, n3, n4, n5) \<Rightarrow>
     quiet ''Uid:'' n1 \<and> quiet ''Gid:'' n2 \<and> quiet ''voluntary_ctxt_switches:'' n3 \<and> quiet ''nonvoluntary_ctxt_switches:'' n4 \<and>
     list_all (line_ok 4095) [id_line ''Uid:'' (lp_uids p), id_line ''Gid:'' (lp_gids p),
       switch_line ''voluntary_ctxt_switches:'' (lp_vol p), switch_line ''nonvoluntary_ctxt_switches:'' (lp_nonvol p)] \<and>
     fst (lp_uids p) < 2 ^ 32 \<and> fst (snd (lp_uids p)) < 2 ^ 32 \<and> fst (lp_gids p) < 2 ^ 32 \<and> fst (snd (lp_gids p)) < 2 ^ 32 \<and>
     lp_vol p < 2 ^ 64 \<and> lp_nonvol p < 2 ^ 64)"

definition status_of :: "lproc \<Rightarrow> sg_process_stats \<Rightarrow> sg_process_stats" where
  "status_of p x =
     x\<lparr>uid := word_of_nat (fst (lp_uids p)), euid := word_of_nat (fst (snd (lp_uids p))), gid := word_of_nat (fst (lp_gids p)),
       egid := word_of_nat (fst (snd (lp_gids p))), voluntary_context_switches := word_of_nat (lp_vol p),
       involuntary_context_switches := word_of_nat (lp_nonvol p),
       context_switches := word_of_nat (lp_vol p) + word_of_nat (lp_nonvol p)\<rparr>"

lemma narrow_nat: "(ucast (word_of_nat n :: ull) :: u32) = word_of_nat n"
  using narrow_int [of "int n"] by simp

lemma key_lines:
  "has_prefix key (id_line key ids @ [CHR 0x0A])" "has_prefix key (switch_line key n @ [CHR 0x0A])"
  by (simp_all add: id_line_def switch_line_def has_prefix_append split: prod.splits)

lemma put_ids_printed:
  assumes "line_ok 4095 (id_line key ids)" "fst ids < 2 ^ 32" "fst (snd ids) < 2 ^ 32"
  shows "put_ids key f g (id_line key ids @ [CHR 0x0A]) x = g (word_of_nat (fst (snd ids))) (f (word_of_nat (fst ids)) x)"
proof -
  obtain a b c d where i: "ids = (a, b, c, d)" by (cases ids) auto
  have "strval (id_line key ids @ [CHR 0x0A]) = id_line key ids @ [CHR 0x0A]" using assms(1) by (simp add: line_ok_def strval_id)
  then show ?thesis using scan_ids [of a b key c d] assms(2,3) by (simp add: put_ids_def i store_all_def narrow_nat)
qed

lemma put_switches_printed:
  assumes "line_ok 4095 (switch_line key n)" "n < 2 ^ 64"
  shows "put_switches key f (Some (switch_line key n @ [CHR 0x0A])) x = f (word_of_nat n) x"
proof -
  have "strval (switch_line key n @ [CHR 0x0A]) = switch_line key n @ [CHR 0x0A]" using assms(1) by (simp add: line_ok_def strval_id)
  then show ?thesis using scan_switches [OF assms(2), of key] by (simp add: put_switches_def store_all_def del: lits.simps)
qed

lemma put_status_printed:
  assumes "status_ok p ns"
  shows "put_status \<lparr>fbytes = status_text p ns, fbad = False\<rparr> x e = Done (ProcKept, status_of p x, e)"
proof -
  obtain n1 n2 n3 n4 n5 where ns: "ns = (n1, n2, n3, n4, n5)" by (cases ns) auto
  let ?u = "id_line ''Uid:'' (lp_uids p)" and ?g = "id_line ''Gid:'' (lp_gids p)"
    and ?v = "switch_line ''voluntary_ctxt_switches:'' (lp_vol p)" and ?n = "switch_line ''nonvoluntary_ctxt_switches:'' (lp_nonvol p)"
  note a = assms [unfolded status_ok_def ns prod.case]
  have l: "line_ok 4095 ?u" "line_ok 4095 ?g" "line_ok 4095 ?v" "line_ok 4095 ?n" using a by simp_all
  have read: "sg_f_read_line 4096 (Some k) \<lparr>fbytes = text_of (ls @ l # rest), fbad = False\<rparr> e =
      Done (Some (l @ [CHR 0x0A]), \<lparr>fbytes = text_of rest, fbad = False\<rparr>, e)"
    if "quiet k ls" "line_ok 4095 l" "has_prefix k (l @ [CHR 0x0A])" for k ls l rest
    using read_line_at [of 4096 ls l k rest e] that by (simp add: quiet_def)
  show ?thesis
    using a read [OF _ l(1) key_lines(1), of n1 "n2 @ ?g # n3 @ ?v # n4 @ ?n # n5"] read [OF _ l(2) key_lines(1), of n2 "n3 @ ?v # n4 @ ?n # n5"]
      read [OF _ l(3) key_lines(2), of n3 "n4 @ ?n # n5"] read [OF _ l(4) key_lines(2), of n4 n5]
      put_ids_printed [OF l(1)] put_ids_printed [OF l(2)] put_switches_printed [OF l(3)] put_switches_printed [OF l(4)]
    by (simp add: put_status_def status_text_def ns status_of_def)
qed

text \<open>The title from the pieces of \<^verbatim>\<open>cmdline\<close>.\<close>

lemma realloc_mem:
  "sched e = [] \<Longrightarrow> sz \<noteq> 0 \<Longrightarrow> p \<noteq> CFreed \<Longrightarrow>
   sg_realloc p sz e = Done (CStr (resize_bytes (junk_char e) (unat sz) (case p of CStr bs \<Rightarrow> bs | _ \<Rightarrow> [])), e)"
  by (cases p) (simp_all add: sg_realloc_def sg_realloc_choice_def next_choice_def)

lemma title_loop_mem:
  assumes "sched e = []" "length pre + length (concat chs) < 2 ^ 64 - 1"
    and "p = CStr (pre @ [c]) \<or> p = CNull \<and> pre = []"
  shows "\<exists>q. title_loop chs p (length pre) e = Done (Some (q, length pre + length (concat chs)), e) \<and>
     (if chs = [] then q = p else (\<exists>d. q = CStr (pre @ concat chs @ [d])))"
  using assms(2,3)
proof (induction chs arbitrary: pre p c)
  case (Cons ch chs)
  let ?n = "length pre + length ch + 1"
  let ?bs = "case p of CStr bs \<Rightarrow> bs | _ \<Rightarrow> []"
  let ?buf = "resize_bytes (junk_char e) ?n ?bs"
  have u: "unat (word_of_nat ?n :: size_t) = ?n" using Cons.prems(1) by (intro unat_of_nat_size) simp
  then have "(word_of_nat ?n :: size_t) \<noteq> 0" by (metis add_is_0 one_neq_zero unat_0)
  then have r: "sg_realloc p (word_of_nat ?n) e = Done (CStr ?buf, e)"
    using realloc_mem [OF assms(1), of "word_of_nat ?n" p] u Cons.prems(2) by auto
  have "take (length pre) ?buf = pre" using Cons.prems(2) by (auto simp: resize_bytes_def)
  moreover have "length ?buf = ?n" by (simp add: length_resize_bytes)
  then have "length (drop (length pre + length ch) ?buf) = Suc 0" by simp
  then obtain d where "drop (length pre + length ch) ?buf = [d]" by (auto simp only: length_Suc_conv length_0_conv)
  ultimately have st: "title_loop (ch # chs) p (length pre) e = title_loop chs (CStr ((pre @ ch) @ [d])) (length (pre @ ch)) e"
    using r by simp
  have "length (pre @ ch) + length (concat chs) < 2 ^ 64 - 1" using Cons.prems(1) by simp
  from Cons.IH [OF this, of "CStr ((pre @ ch) @ [d])" d] obtain q where
    q: "title_loop chs (CStr ((pre @ ch) @ [d])) (length (pre @ ch)) e = Done (Some (q, length (pre @ ch) + length (concat chs)), e)"
       "if chs = [] then q = CStr ((pre @ ch) @ [d]) else \<exists>d. q = CStr ((pre @ ch) @ concat chs @ [d])" by blast
  have "\<exists>d. q = CStr (pre @ concat (ch # chs) @ [d])" using q(2) by (cases "chs = []") auto
  with q(1) show ?case unfolding st by (intro exI [of _ q]) (simp add: add.assoc)
qed simp

text \<open>A process without arguments is shown by its name in brackets.\<close>

definition linux_title :: "lproc \<Rightarrow> string" where
  "linux_title p = (if lp_args p = [] then ''['' @ bare_name (lp_comm p) @ '']'' else join_args (lp_args p))"

definition title_ok :: "lproc \<Rightarrow> string list \<Rightarrow> bool" where
  "title_ok p chs \<longleftrightarrow> concat chs = cmdline (lp_args p) \<and> (lp_args p = [] \<longrightarrow> chs = []) \<and> (lp_args p \<noteq> [] \<longrightarrow> args_ok (lp_args p)) \<and>
     length (cmdline (lp_args p)) < 2 ^ 63"

lemma put_title_printed:
  assumes "title_ok p chs" "sched e = []" "proctitle x = CNull" "process_name x = CStr (bare_name (lp_comm p) @ [NUL])" "name_ok (bare_name (lp_comm p))"
  shows "\<exists>buf. put_title (chs, False) x e = Done (ProcKept, x\<lparr>proctitle := CStr buf\<rparr>, e) \<and> cstr_ok (CStr buf) \<and> strval buf = linux_title p"
proof (cases "lp_args p = []")
  case True
  then have "nul_free (linux_title p)" using assms(5) by (simp add: linux_title_def name_ok_def)
  with True show ?thesis
    using assms strval_append_NUL [of "linux_title p" "[]"] by (intro exI [of _ "linux_title p @ [NUL]"]) (auto simp: put_title_def title_ok_def next_choice_def linux_title_def src_bytes_def name_ok_def)
next
  case False
  let ?c = "cmdline (lp_args p)"
  have a: "args_ok (lp_args p)" "concat chs = ?c" "length ?c < 2 ^ 63" using assms(1) False by (simp_all add: title_ok_def)
  have "?c \<noteq> []" using length_join [OF a(1)] by force
  then have ne: "chs \<noteq> []" using a(2) by auto
  obtain d where t: "title_loop chs CNull 0 e = Done (Some (CStr (?c @ [d]), length ?c), e)"
    using title_loop_mem [OF assms(2), of "[]" chs CNull] a(2,3) ne by auto
  obtain buf where b: "adjust_procname_cmndline (?c @ [NUL]) (length ?c) = Done buf" "length buf = Suc (length ?c)" "strval buf = join_args (lp_args p)"
    using adjust_args [OF a(1)] by blast
  have "strval buf \<noteq> buf" using b(2,3) length_join [OF a(1)] by auto
  then have "NUL \<in> set buf" using strval_id [of buf] by (auto simp: nul_free_def list_all_iff)
  then have ok: "cstr_ok (CStr buf)" using b(2) a(3) by simp
  have "(?c @ [d])[length ?c := NUL] = ?c @ [NUL]" by (simp add: list_update_append)
  then show ?thesis using t b False ok assms(3) by (intro exI [of _ buf]) (simp add: put_title_def linux_title_def)
qed

text \<open>The files of a process as the kernel prints them, and the item the process becomes.\<close>

definition printed_dir :: "lproc \<Rightarrow> noise \<Rightarrow> string list \<Rightarrow> proc_dir" where
  "printed_dir p ns chs =
     \<lparr>pd_comm = Some (lp_comm p @ [CHR 0x0A]), pd_stat = Some (stat_line p), pd_status = Some \<lparr>fbytes = status_text p ns, fbad = False\<rparr>,
      pd_cmdline = Some (chs, False)\<rparr>"

definition proc_view :: "sg_process_stats \<Rightarrow> sg_process_stats" where
  "proc_view x = x\<lparr>process_name := cstr_copy (process_name x), proctitle := cstr_copy (proctitle x)\<rparr>"

definition proc_of :: "proc_env \<Rightarrow> lproc \<Rightarrow> sg_process_stats" where
  "proc_of pe p =
     \<lparr>process_name = CStr (bare_name (lp_comm p) @ [NUL]), proctitle = CStr (linux_title p @ [NUL]), pid = word_of_int (lp_pid p),
      parent = word_of_int (lp_ppid p), pgid = word_of_int (lp_pgrp p), sessid = 0, uid = word_of_nat (fst (lp_uids p)),
      euid = word_of_nat (fst (snd (lp_uids p))), gid = word_of_nat (fst (lp_gids p)), egid = word_of_nat (fst (snd (lp_gids p))),
      context_switches = word_of_nat (lp_vol p) + word_of_nat (lp_nonvol p), voluntary_context_switches = word_of_nat (lp_vol p),
      involuntary_context_switches = word_of_nat (lp_nonvol p), proc_size = word_of_nat (lp_vsize p),
      proc_resident = (word_of_nat (lp_rss p) + 3) * pe_pagesize pe,
      start_time = (pe_now pe - pe_uptime pe) + word_of_nat (lp_start p) div word_of_int (pe_ticks pe),
      time_spent = (word_of_nat (lp_utime p) + word_of_nat (lp_stime p)) div word_of_int (pe_ticks pe),
      cpu_percent = dbl_div (100 * real (unat (word_of_nat (lp_utime p) + word_of_nat (lp_stime p) :: ull)))
         (real_of_int (sint (pe_uptime pe)) * 100 - real (lp_start p)),
      nice = word_of_int (lp_nice p), state = linux_state (lp_state p), ps_systime = pe_now pe\<rparr>"

definition lproc_ok :: "lproc \<Rightarrow> noise \<Rightarrow> string list \<Rightarrow> bool" where
  "lproc_ok p ns chs \<longleftrightarrow> stat_ok p \<and> status_ok p ns \<and> title_ok p chs \<and> line_ok 4094 (lp_comm p)"

definition fresh_proc :: "sg_process_stats \<Rightarrow> bool" where
  "fresh_proc x \<longleftrightarrow> proc_ok x \<and> proctitle x = CNull \<and> sessid x = 0"

lemma bare_name_ok: "line_ok n s \<Longrightarrow> n < 2 ^ 63 \<Longrightarrow> name_ok (bare_name s)"
proof -
  assume s: "line_ok n s" "n < 2 ^ 63"
  have "set (bare_name s) \<subseteq> set s" by (auto simp: bare_name_def dest!: set_takeWhileD dest: in_set_dropD)
  moreover have "length (bare_name s) \<le> length s"
    using length_takeWhile_le [of "\<lambda>c. c \<noteq> CHR '')''" "drop 1 s"] by (auto simp: bare_name_def)
  ultimately show ?thesis using s by (auto simp: line_ok_def name_ok_def nul_free_def list_all_iff)
qed

lemma read_comm_printed: "line_ok 4094 s \<Longrightarrow> read_comm (Some (s @ [CHR 0x0A])) = Done (Some s)"
  using fgets_take_line [of s 4094 "[]"] by (simp add: read_comm_def fgets_def line_ok_def strval_id Let_def)

lemma linux_item_printed:
  assumes "lproc_ok p ns chs" "0 < pe_ticks pe" "fresh_proc x" "sched e = []"
  shows "\<exists>y. linux_item pe (Some (lp_comm p)) (stat_line p) (printed_dir p ns chs) x e = Done (ProcKept, y, e) \<and> proc_ok y \<and>
     proc_view y = proc_of pe p"
proof -
  let ?x = "status_of p (stat_of pe p x)"
  have p: "stat_ok p" "status_ok p ns" "title_ok p chs" "name_ok (bare_name (lp_comm p))"
    using assms(1) bare_name_ok [of 4094] by (simp_all add: lproc_ok_def)
  have x: "cstr_ok (process_name x)" using assms(3) by (simp add: fresh_proc_def proc_ok_def)
  have f: "proctitle ?x = CNull" "process_name ?x = CStr (bare_name (lp_comm p) @ [NUL])"
    using assms(3) by (simp_all add: fresh_proc_def status_of_def stat_of_def)
  obtain buf where b: "put_title (chs, False) ?x e = Done (ProcKept, ?x\<lparr>proctitle := CStr buf\<rparr>, e)" "cstr_ok (CStr buf)" "strval buf = linux_title p"
    using put_title_printed [OF p(3) assms(4) f p(4)] by blast
  let ?y = "?x\<lparr>proctitle := CStr buf, ps_systime := pe_now pe\<rparr>"
  have "linux_item pe (Some (lp_comm p)) (stat_line p) (printed_dir p ns chs) x e = Done (ProcKept, ?y, e)"
    using put_stat_printed [OF p(1,4) assms(2) x assms(4)] put_status_printed [OF p(2)] b(1)
    by (simp add: linux_item_def printed_dir_def)
  moreover have "proc_ok ?y" using b(2) p(4) by (simp add: proc_ok_def status_of_def stat_of_def name_ok_def)
  moreover have "proc_view ?y = proc_of pe p"
    using b(3) p(4) assms(3) by (simp add: proc_view_def proc_of_def status_of_def stat_of_def cstr_copy_def name_ok_def fresh_proc_def)
  ultimately show ?thesis by blast
qed

section \<open>The loop over the processes\<close>

text \<open>A process that ended since the directory was read: one of its files is missing.\<close>

definition vanished :: "proc_dir \<Rightarrow> bool" where
  "vanished pd \<longleftrightarrow> pd_stat pd = None \<and> (\<exists>nm. read_comm (pd_comm pd) = Done nm) \<or>
     (\<exists>p ns chs. lproc_ok p ns chs \<and> (pd = (printed_dir p ns chs)\<lparr>pd_status := None\<rparr> \<or> pd = (printed_dir p ns chs)\<lparr>pd_cmdline := None\<rparr>))"

lemma fresh_stat: "fresh_proc x \<Longrightarrow> name_ok (bare_name (lp_comm p)) \<Longrightarrow> fresh_proc (stat_of pe p x) \<and> fresh_proc (status_of p (stat_of pe p x))"
  by (simp add: fresh_proc_def proc_ok_def stat_of_def status_of_def name_ok_def)

lemma linux_item_vanished:
  assumes "vanished pd" "pd_stat pd = Some body" "0 < pe_ticks pe" "fresh_proc x" "sched e = []"
  shows "\<exists>nm y. read_comm (pd_comm pd) = Done nm \<and> linux_item pe nm body pd x e = Done (ProcSkipped, y, e) \<and> fresh_proc y"
proof -
  obtain p ns chs where p: "lproc_ok p ns chs"
      "pd = (printed_dir p ns chs)\<lparr>pd_status := None\<rparr> \<or> pd = (printed_dir p ns chs)\<lparr>pd_cmdline := None\<rparr>"
    using assms(1,2) by (auto simp: vanished_def)
  have ok: "stat_ok p" "status_ok p ns" "name_ok (bare_name (lp_comm p))" "line_ok 4094 (lp_comm p)"
    using p(1) bare_name_ok [of 4094] by (simp_all add: lproc_ok_def)
  have x: "cstr_ok (process_name x)" using assms(4) by (simp add: fresh_proc_def proc_ok_def)
  have b: "body = stat_line p" "pd_comm pd = Some (lp_comm p @ [CHR 0x0A])" using p(2) assms(2) by (auto simp: printed_dir_def)
  show ?thesis
    using p(2) put_stat_printed [OF ok(1,3) assms(3) x assms(5)] put_status_printed [OF ok(2)] fresh_stat [OF assms(4) ok(3), of pe]
      read_comm_printed [OF ok(4)]
    unfolding b by (auto simp: linux_item_def printed_dir_def)
qed

text \<open>The processes that are read, of those the directory names.\<close>

type_synonym proc_table = "u32 \<Rightarrow> (lproc \<times> noise \<times> string list) option"

definition table_printed :: "proc_table \<Rightarrow> (u32 \<Rightarrow> proc_dir) \<Rightarrow> u32 \<Rightarrow> bool" where
  "table_printed procs dirs p =
     (case procs p of None \<Rightarrow> vanished (dirs p) | Some (lp, ns, chs) \<Rightarrow> dirs p = printed_dir lp ns chs \<and> lproc_ok lp ns chs)"

definition proc_rows :: "proc_env \<Rightarrow> proc_table \<Rightarrow> u32 list \<Rightarrow> sg_process_stats list" where
  "proc_rows pe procs ps = map (\<lambda>r. proc_of pe (fst r)) (List.map_filter procs ps)"

lemma proc_rows_simps [simp]:
  "proc_rows pe procs [] = []"
  "procs p = None \<Longrightarrow> proc_rows pe procs (p # ps) = proc_rows pe procs ps"
  "procs p = Some r \<Longrightarrow> proc_rows pe procs (p # ps) = proc_of pe (fst r) # proc_rows pe procs ps"
  by (simp_all add: proc_rows_def map_filter_simps)

lemma proc_rows_append [simp]: "proc_rows pe procs (ps @ qs) = proc_rows pe procs ps @ proc_rows pe procs qs"
  by (simp add: proc_rows_def List.map_filter_def)

lemma length_proc_rows: "length (proc_rows pe procs ps) \<le> length ps"
  by (simp add: proc_rows_def List.map_filter_def)

text \<open>The first \<open>n\<close> items are those read so far, the others are fresh.\<close>

definition procs_at :: "addr \<Rightarrow> nat \<Rightarrow> sg_process_stats vblock \<Rightarrow> sg_process_stats world \<Rightarrow> bool" where
  "procs_at v n b w \<longleftrightarrow> vload v w = Done b \<and> vec_ok sg_process_stats_vector_init_info proc_ok b \<and> n \<le> length (contents b) \<and>
     (\<forall>x \<in> set (drop n (contents b)). fresh_proc x)"

lemma raw_init_fresh: "fresh_proc (raw_init sg_process_stats_vector_init_info x)"
  by (simp add: raw_init_def sg_process_stats_vector_init_info_def sg_process_stats_item_init_def fresh_proc_def proc_ok_def)

lemma resize_procs:
  assumes "heap_ok w" "sched (wenv w) = []" "procs_at v n b w" "n \<le> m" "m \<noteq> 0" "room sg_process_stats_vector_init_info (m + 2 ^ 33)"
  shows "\<exists>v' w' b'. VECTOR_UPDATE v (word_of_nat m) sg_process_stats_vector_init_info w = Done (Inr (), v', w') \<and> heap_ok w' \<and>
     replaced v v' w w' \<and> wenv w' = wenv w \<and> procs_at v' n b' w' \<and> length (contents b') = m \<and>
     take n (contents b') = take n (contents b) \<and> (room_for sg_process_stats_vector_init_info b \<longrightarrow> room_for sg_process_stats_vector_init_info b')"
proof -
  let ?ty = sg_process_stats_vector_init_info
  have b: "vload v w = Done b" "vec_ok ?ty proc_ok b" "n \<le> length (contents b)" using assms(3) by (simp_all add: procs_at_def)
  have u: "unat (word_of_nat m :: size_t) = m" by (rule psv.unat_count [OF assms(6)])
  then have m0: "(word_of_nat m :: size_t) \<noteq> 0" using assms(5) by auto
  have rm: "room ?ty (unat (word_of_nat m :: size_t) + 2 ^ 33)" using u assms(6) by simp
  obtain v' w' b' ys where r: "VECTOR_UPDATE v (word_of_nat m) ?ty w = Done (Inr (), v', w')" "heap_ok w'" "replaced v v' w w'" "wenv w' = wenv w"
      "vload v' w' = Done b'" "vec_ok ?ty proc_ok b'" "contents b' = take m (contents b) @ map (raw_init ?ty) ys" "length (contents b') = m"
      "room_for ?ty b \<longrightarrow> room_for ?ty b'"
    using psv.update_mem [OF assms(1) b(1,2) m0 rm assms(2)] unfolding u by (elim exE conjE)
  have "x \<in> set (drop n (contents b)) \<or> x \<in> raw_init ?ty ` set ys" if "x \<in> set (drop n (contents b'))" for x
    using that set_drop_subset [of "n - min (length (contents b)) m" "map (raw_init ?ty) ys"] set_take_subset [of "m - n" "drop n (contents b)"]
    unfolding r(7) by (auto simp: drop_take)
  then have "\<forall>x \<in> set (drop n (contents b')). fresh_proc x" using assms(3) raw_init_fresh by (auto simp: procs_at_def)
  moreover have "take n (contents b') = take n (contents b)" using b(3) assms(4) by (simp add: r(7) min_absorb1)
  moreover have "n \<le> length (contents b')" using r(8) assms(4) by simp
  ultimately show ?thesis using r by (auto simp: procs_at_def)
qed

text \<open>One item filled.\<close>

lemma write_proc:
  assumes "heap_ok w" "procs_at v n b w" "length (contents b) = Suc n" "proc_ok y"
  shows "\<exists>x b'. read_item v n w = Done x \<and> fresh_proc x \<and> write_item v n y w = Done (vstore v b' w) \<and> heap_ok (vstore v b' w) \<and>
     vload v (vstore v b' w) = Done b' \<and> vec_ok sg_process_stats_vector_init_info proc_ok b' \<and> contents b' = take n (contents b) @ [y] \<and>
     length (slots b') = length (slots b)"
proof -
  have b: "vload v w = Done b" "vec_ok sg_process_stats_vector_init_info proc_ok b" "n < length (contents b)"
    using assms(2,3) by (simp_all add: procs_at_def)
  note sl = set_slot [OF b(2,3) assms(4)]
  have "contents b ! n \<in> set (drop n (contents b))" using b(3) by (simp add: Cons_nth_drop_Suc [symmetric])
  then have "fresh_proc (contents b ! n)" using assms(2) by (simp add: procs_at_def)
  moreover have "(contents b)[n := y] = take n (contents b) @ [y]" using assms(3) by (simp add: upd_conv_take_nth_drop)
  moreover have "v \<noteq> 0" "blocks w v \<noteq> None" using b(1) by (simp_all add: vload_Done_iff)
  ultimately show ?thesis
    using b(1) sl assms(1) by (intro exI [of _ "contents b ! n"] exI [of _ "b\<lparr>slots := (slots b)[n := y]\<rparr>"])
      (simp add: read_item_def write_item_def heap_ok_vstore vload_vstore)
qed

text \<open>What one process contributes.\<close>

lemma table_step:
  assumes "table_printed procs dirs p" "0 < pe_ticks pe"
  shows "pd_stat (dirs p) = None \<and> procs p = None \<and> (\<exists>nm. read_comm (pd_comm (dirs p)) = Done nm) \<or>
    (\<exists>nm body. read_comm (pd_comm (dirs p)) = Done nm \<and> pd_stat (dirs p) = Some body \<and>
       (\<forall>x e. fresh_proc x \<and> sched e = [] \<longrightarrow> (\<exists>st y. linux_item pe nm body (dirs p) x e = Done (st, y, e) \<and> proc_ok y \<and>
          (case procs p of None \<Rightarrow> st = ProcSkipped \<and> fresh_proc y | Some r \<Rightarrow> st = ProcKept \<and> proc_view y = proc_of pe (fst r)))))"
proof (cases "procs p")
  case (Some r)
  then obtain lp ns chs where r: "procs p = Some (lp, ns, chs)" "dirs p = printed_dir lp ns chs" "lproc_ok lp ns chs"
    using assms(1) by (cases r) (auto simp: table_printed_def split: prod.splits)
  have "read_comm (pd_comm (dirs p)) = Done (Some (lp_comm lp))" "pd_stat (dirs p) = Some (stat_line lp)"
    using r(2,3) read_comm_printed [of "lp_comm lp"] by (simp_all add: printed_dir_def lproc_ok_def)
  with linux_item_printed [OF r(3) assms(2)] r(1,2) show ?thesis by auto
next
  case None
  then have v: "vanished (dirs p)" using assms(1) by (simp add: table_printed_def)
  show ?thesis
  proof (cases "pd_stat (dirs p)")
    case None
    with v \<open>procs p = None\<close> show ?thesis by (auto simp: vanished_def printed_dir_def)
  next
    case (Some body)
    obtain nm where nm: "read_comm (pd_comm (dirs p)) = Done nm"
      using v read_comm_printed by (auto simp: vanished_def printed_dir_def lproc_ok_def)
    have "\<exists>y. linux_item pe nm body (dirs p) x e = Done (ProcSkipped, y, e) \<and> fresh_proc y" if "fresh_proc x" "sched e = []" for x e
      using linux_item_vanished [OF v Some assms(2) that] nm by auto
    with nm Some None show ?thesis by (fastforce simp: fresh_proc_def)
  qed
qed

lemma linux_pids_ok:
  assumes "heap_ok w" "sched (wenv w) = []" "procs_at v n b w" "0 < pe_ticks pe" "\<forall>p \<in> set ps. table_printed procs dirs p"
    and "room sg_process_stats_vector_init_info (n + length ps + 2 ^ 33)"
  shows "\<exists>v' w' b'. linux_pids pe dirs ps n v w = Done (SG_ERROR_NONE, n + length (proc_rows pe procs ps), v', w') \<and> heap_ok w' \<and>
     replaced v v' w w' \<and> wenv w' = wenv w \<and> procs_at v' (n + length (proc_rows pe procs ps)) b' w' \<and>
     map proc_view (take (n + length (proc_rows pe procs ps)) (contents b')) = map proc_view (take n (contents b)) @ proc_rows pe procs ps \<and>
     (room_for sg_process_stats_vector_init_info b \<longrightarrow> room_for sg_process_stats_vector_init_info b')"
  using assms(1-3,5,6)
proof (induction ps arbitrary: n v w b)
  case Nil
  then show ?case by (auto simp: replaced_def)
next
  case (Cons p ps)
  let ?ty = sg_process_stats_vector_init_info
  have rm: "room ?ty (Suc n + 2 ^ 33)" "room ?ty (Suc n + length ps + 2 ^ 33)" "room ?ty (n + length ps + 2 ^ 33)"
    using Cons.prems(5) room_mono by fastforce+
  have tp: "table_printed procs dirs p" "\<forall>p \<in> set ps. table_printed procs dirs p" using Cons.prems(4) by simp_all
  from table_step [OF tp(1) assms(4)] consider
    (gone) nm where "pd_stat (dirs p) = None" "procs p = None" "read_comm (pd_comm (dirs p)) = Done nm" |
    (seen) nm body where "read_comm (pd_comm (dirs p)) = Done nm" "pd_stat (dirs p) = Some body"
      "\<forall>x e. fresh_proc x \<and> sched e = [] \<longrightarrow> (\<exists>st y. linux_item pe nm body (dirs p) x e = Done (st, y, e) \<and> proc_ok y \<and>
          (case procs p of None \<Rightarrow> st = ProcSkipped \<and> fresh_proc y | Some r \<Rightarrow> st = ProcKept \<and> proc_view y = proc_of pe (fst r)))"
    by blast
  then show ?case
  proof cases
    case gone
    then show ?thesis using Cons.IH [OF Cons.prems(1-3) tp(2) rm(3)] by simp
  next
    case seen
    have "word_of_nat (Suc n) = (word_of_nat n + 1 :: size_t)" by simp
    then obtain v1 w1 b1 where u: "VECTOR_UPDATE v (word_of_nat n + 1) ?ty w = Done (Inr (), v1, w1)" "heap_ok w1" "replaced v v1 w w1" "wenv w1 = wenv w"
        "procs_at v1 n b1 w1" "length (contents b1) = Suc n" "take n (contents b1) = take n (contents b)" "room_for ?ty b \<longrightarrow> room_for ?ty b1"
      using resize_procs [OF Cons.prems(1-3), of "Suc n"] rm(1) by (auto simp del: of_nat_Suc)
    obtain x where x: "read_item v1 n w1 = Done x" "fresh_proc x"
      using write_proc [OF u(2,5,6), of x for x] raw_init_fresh by (metis fresh_proc_def)
    have e1: "sched (wenv w1) = []" using u(4) Cons.prems(2) by simp
    obtain st y where y: "linux_item pe nm body (dirs p) x (wenv w1) = Done (st, y, wenv w1)" "proc_ok y"
        "case procs p of None \<Rightarrow> st = ProcSkipped \<and> fresh_proc y | Some r \<Rightarrow> st = ProcKept \<and> proc_view y = proc_of pe (fst r)"
      using seen(3) x(2) e1 by blast
    obtain b2 where b2: "write_item v1 n y w1 = Done (vstore v1 b2 w1)" "heap_ok (vstore v1 b2 w1)" "vload v1 (vstore v1 b2 w1) = Done b2"
        "vec_ok ?ty proc_ok b2" "contents b2 = take n (contents b) @ [y]" "length (slots b2) = length (slots b1)"
      using write_proc [OF u(2,5,6) y(2)] u(7) by auto
    let ?w = "vstore v1 b2 w1"
    have sev: "set_env (wenv w1) w1 = w1" by (simp add: set_env_def)
    have nb: "n \<le> length (contents b)" using Cons.prems(3) by (simp add: procs_at_def)
    have v1: "blocks w1 v1 \<noteq> None" using u(5) by (simp add: procs_at_def vload_Done_iff)
    have rp: "replaced v v1 w ?w" using u(3) by (auto simp: replaced_def)
    have rf: "room_for ?ty b \<longrightarrow> room_for ?ty b2" using u(8) b2(6) by (simp add: room_for_def)
    have e2: "sched (wenv ?w) = []" "wenv ?w = wenv w" using e1 u(4) by simp_all
    have fin: ?thesis if
      i: "linux_pids pe dirs (p # ps) n v w = linux_pids pe dirs ps k v1 ?w" "procs_at v1 k b2 ?w" "room ?ty (k + length ps + 2 ^ 33)"
        "k + length (proc_rows pe procs ps) = n + length (proc_rows pe procs (p # ps))"
        "map proc_view (take k (contents b2)) @ proc_rows pe procs ps = map proc_view (take n (contents b)) @ proc_rows pe procs (p # ps)" for k
    proof -
      obtain v' w' b' where r: "linux_pids pe dirs ps k v1 ?w = Done (SG_ERROR_NONE, k + length (proc_rows pe procs ps), v', w')" "heap_ok w'"
         "replaced v1 v' ?w w'" "wenv w' = wenv ?w" "procs_at v' (k + length (proc_rows pe procs ps)) b' w'"
         "map proc_view (take (k + length (proc_rows pe procs ps)) (contents b')) = map proc_view (take k (contents b2)) @ proc_rows pe procs ps"
         "room_for ?ty b2 \<longrightarrow> room_for ?ty b'"
        using Cons.IH [OF b2(2) e2(1) i(2) tp(2) i(3)] by (elim exE conjE)
      have "replaced v v' w w'" by (rule replaced_trans [OF rp r(3)]) (use v1 b2(3) in \<open>simp add: vload_Done_iff\<close>)
      with r e2(2) rf show ?thesis unfolding i(1) i(4) [symmetric] i(5) [symmetric] by (intro exI [of _ v'] exI [of _ w'] exI [of _ b']) simp
    qed
    show ?thesis
    proof (cases "procs p")
      case None
      have "linux_pids pe dirs (p # ps) n v w = linux_pids pe dirs ps n v1 ?w"
        using seen(1,2) u(1) x(1) y b2(1) None sev by simp
      moreover have "procs_at v1 n b2 ?w" using b2(3,4,5) nb y(3) None by (simp add: procs_at_def)
      ultimately show ?thesis using fin [of n] rm(3) None b2(5) nb by simp
    next
      case (Some r)
      have "linux_pids pe dirs (p # ps) n v w = linux_pids pe dirs ps (Suc n) v1 ?w"
        using seen(1,2) u(1) x(1) y b2(1) Some sev by simp
      moreover have "procs_at v1 (Suc n) b2 ?w" using b2(3,4,5) nb by (simp add: procs_at_def)
      ultimately show ?thesis using fin [of "Suc n"] rm(2) Some b2(5) nb y(3) by simp
    qed
  qed
qed

lemma proc_pages_ok:
  assumes "heap_ok w" "sched (wenv w) = []" "procs_at v n b w" "0 < pe_ticks pe" "\<forall>p \<in> set (concat pgs). table_printed procs dirs p"
    and "[] \<notin> set pgs" "room sg_process_stats_vector_init_info (n + length (concat pgs) + 2 ^ 33)"
  shows "\<exists>v' w' b'. proc_pages (linux_pids pe dirs) pgs n v w = Done (SG_ERROR_NONE, n + length (proc_rows pe procs (concat pgs)), v', w') \<and>
     heap_ok w' \<and> replaced v v' w w' \<and> wenv w' = wenv w \<and> procs_at v' (n + length (proc_rows pe procs (concat pgs))) b' w' \<and>
     map proc_view (take (n + length (proc_rows pe procs (concat pgs))) (contents b')) =
       map proc_view (take n (contents b)) @ proc_rows pe procs (concat pgs) \<and>
     (room_for sg_process_stats_vector_init_info b \<longrightarrow> room_for sg_process_stats_vector_init_info b')"
  using assms(1-3,5-)
proof (induction pgs arbitrary: n v w b)
  case Nil
  then show ?case by (auto simp: replaced_def)
next
  case (Cons pg pgs)
  let ?ty = sg_process_stats_vector_init_info and ?k = "n + length (proc_rows pe procs pg)"
  have k: "?k \<le> n + length pg" using length_proc_rows [of pe procs pg] by simp
  have rm: "room ?ty (n + length pg + 2 ^ 33)" using room_mono [OF Cons.prems(6), of "n + length pg + 2 ^ 33"] by simp
  have rm2: "room ?ty (?k + length (concat pgs) + 2 ^ 33)" using room_mono [OF Cons.prems(6), of "?k + length (concat pgs) + 2 ^ 33"] k by simp
  obtain v1 w1 b1 where u: "VECTOR_UPDATE v (word_of_nat (n + length pg)) ?ty w = Done (Inr (), v1, w1)" "heap_ok w1" "replaced v v1 w w1"
      "wenv w1 = wenv w" "procs_at v1 n b1 w1" "length (contents b1) = n + length pg" "take n (contents b1) = take n (contents b)"
      "room_for ?ty b \<longrightarrow> room_for ?ty b1"
    using resize_procs [OF Cons.prems(1-3), of "n + length pg"] rm Cons.prems(5) by auto
  have e1: "sched (wenv w1) = []" using u(4) Cons.prems(2) by simp
  have "\<forall>p \<in> set pg. table_printed procs dirs p" using Cons.prems(4) by simp
  from linux_pids_ok [OF u(2) e1 u(5) assms(4) this rm] obtain v2 w2 b2 where
    l: "linux_pids pe dirs pg n v1 w1 = Done (SG_ERROR_NONE, ?k, v2, w2)" "heap_ok w2" "replaced v1 v2 w1 w2" "wenv w2 = wenv w1"
       "procs_at v2 ?k b2 w2" "map proc_view (take ?k (contents b2)) = map proc_view (take n (contents b1)) @ proc_rows pe procs pg"
       "room_for ?ty b1 \<longrightarrow> room_for ?ty b2"
    by (elim exE conjE)
  have e2: "sched (wenv w2) = []" using l(4) e1 by simp
  have hy: "\<forall>p \<in> set (concat pgs). table_printed procs dirs p" "[] \<notin> set pgs" using Cons.prems(4,5) by auto
  obtain v' w' b' where r: "proc_pages (linux_pids pe dirs) pgs ?k v2 w2 = Done (SG_ERROR_NONE, ?k + length (proc_rows pe procs (concat pgs)), v', w')"
     "heap_ok w'" "replaced v2 v' w2 w'" "wenv w' = wenv w2" "procs_at v' (?k + length (proc_rows pe procs (concat pgs))) b' w'"
     "map proc_view (take (?k + length (proc_rows pe procs (concat pgs))) (contents b')) =
        map proc_view (take ?k (contents b2)) @ proc_rows pe procs (concat pgs)" "room_for ?ty b2 \<longrightarrow> room_for ?ty b'"
    using Cons.IH [OF l(2) e2 l(5) hy rm2] by (elim exE conjE)
  have live: "blocks w1 v1 \<noteq> None" "blocks w2 v2 \<noteq> None" using u(5) l(5) by (simp_all add: procs_at_def vload_Done_iff)
  have "replaced v v' w w'"
    by (rule replaced_trans [OF replaced_trans [OF u(3) l(3)] r(3)]) (use live in simp_all)
  moreover have "proc_pages (linux_pids pe dirs) (pg # pgs) n v w = proc_pages (linux_pids pe dirs) pgs ?k v2 w2" using u(1) l(1) by simp
  moreover have "n + length (proc_rows pe procs (concat (pg # pgs))) = ?k + length (proc_rows pe procs (concat pgs))" by simp
  ultimately show ?case using r u(4,7,8) l(4,6,7) by (intro exI [of _ v'] exI [of _ w'] exI [of _ b']) (simp add: add.assoc)
qed

lemma trim_procs_ok:
  assumes "heap_ok w" "sched (wenv w) = []" "procs_at v n b w" "n \<noteq> 0" "room sg_process_stats_vector_init_info (n + 2 ^ 33)"
  shows "\<exists>v' w' b'. trim_procs n v w = Done (SG_ERROR_NONE, v', w') \<and> heap_ok w' \<and> replaced v v' w w' \<and> wenv w' = wenv w \<and>
     vload v' w' = Done b' \<and> vec_ok sg_process_stats_vector_init_info proc_ok b' \<and> contents b' = take n (contents b) \<and>
     (room_for sg_process_stats_vector_init_info b \<longrightarrow> room_for sg_process_stats_vector_init_info b')"
proof -
  let ?ty = sg_process_stats_vector_init_info
  have b: "vload v w = Done b" "vec_ok ?ty proc_ok b" "n \<le> length (contents b)" using assms(3) by (simp_all add: procs_at_def)
  have v: "v \<noteq> 0" using b(1) by (simp add: vload_Done_iff)
  show ?thesis
  proof (cases "word_of_nat n = used_count (hdr b)")
    case True
    have "length (contents b) = n" using length_contents [OF b(2)] psv.unat_count [OF assms(5)] True by simp
    then show ?thesis using True b v assms(1) by (auto simp: trim_procs_def replaced_def)
  next
    case False
    obtain v' w' b' where r: "VECTOR_UPDATE v (word_of_nat n) ?ty w = Done (Inr (), v', w')" "heap_ok w'" "replaced v v' w w'" "wenv w' = wenv w"
        "procs_at v' n b' w'" "length (contents b') = n" "take n (contents b') = take n (contents b)" "room_for ?ty b \<longrightarrow> room_for ?ty b'"
      using resize_procs [OF assms(1-3) order_refl assms(4,5)] by (elim exE conjE)
    then show ?thesis using False b(1) v by (auto simp: trim_procs_def procs_at_def)
  qed
qed

section \<open>The gathering function\<close>

definition proc_feasible :: "nat \<Rightarrow> int \<Rightarrow> string \<Rightarrow> u32 list \<Rightarrow> proc_table \<Rightarrow> (u32 \<Rightarrow> proc_dir) \<Rightarrow> bool" where
  "proc_feasible psz ticks uptime ps procs dirs \<longleftrightarrow> 20 \<le> psz \<and> 0 < ticks \<and> scan_proc_uptime uptime \<noteq> None \<and>
     (\<forall>p \<in> set ps. table_printed procs dirs p) \<and> (\<exists>p \<in> set ps. procs p \<noteq> None) \<and> room sg_process_stats_vector_init_info (length ps + 2 ^ 33)"

text \<open>What the reader knows of the system.\<close>

definition linux_env :: "string \<Rightarrow> int \<Rightarrow> nat \<Rightarrow> time_t \<Rightarrow> proc_env" where
  "linux_env uptime ticks psz now =
     \<lparr>pe_uptime = the (scan_proc_uptime uptime), pe_ticks = ticks, pe_pagesize = word_of_nat psz, pe_now = now\<rparr>"

lemma proc_rows_nonempty: "p \<in> set ps \<Longrightarrow> procs p \<noteq> None \<Longrightarrow> proc_rows pe procs ps \<noteq> []"
  by (simp add: proc_rows_def List.map_filter_def filter_empty_conv del: not_None_eq) blast

lemma get_process_stats_law:
  assumes f: "proc_feasible psz ticks uptime (dir_pids junk nms) procs dirs" and w: "heap_ok w" "sched (wenv w) = []"
    and v: "vec_at sg_process_stats_vector_init_info proc_ok v [] w"
  shows "\<exists>v' w' xs. sg_get_process_stats_linux (Some uptime) ticks psz junk (Some (nms, 0)) dirs now v w = Done (SG_ERROR_NONE, v', w') \<and>
     heap_ok w' \<and> sched (wenv w') = [] \<and> replaced v v' w w' \<and> v' \<noteq> 0 \<and> vec_at sg_process_stats_vector_init_info proc_ok v' xs w' \<and>
     (roomy sg_process_stats_vector_init_info v w \<longrightarrow> roomy sg_process_stats_vector_init_info v' w') \<and>
     map proc_view xs = proc_rows (linux_env uptime ticks psz now) procs (dir_pids junk nms)"
proof -
  let ?ty = sg_process_stats_vector_init_info and ?ps = "dir_pids junk nms" and ?pe = "linux_env uptime ticks psz now"
  let ?n = "length (proc_rows ?pe procs ?ps)"
  have a: "20 \<le> psz" "0 < pe_ticks ?pe" "scan_proc_uptime uptime = Some (pe_uptime ?pe)" "\<forall>p \<in> set ?ps. table_printed procs dirs p"
      "room ?ty (length ?ps + 2 ^ 33)" "?n \<noteq> 0" "?ps \<noteq> []"
    using f proc_rows_nonempty [of _ ?ps procs ?pe] by (auto simp: proc_feasible_def linux_env_def)
  obtain chain where c: "scan_proc_dir psz junk ''/proc'' (Some (nms, 0)) (wenv w) = Done (Some chain, wenv w)" "chain_ok psz chain" "concat chain = ?ps"
    using scan_proc_dir_ok [OF a(1) w(2), of junk "''/proc''" nms 0] by auto
  have ne: "[] \<notin> set chain" using c(2,3) a(7) by (auto simp: chain_ok_def)
  obtain b where b: "vload v w = Done b" "vec_ok ?ty proc_ok b" "contents b = []" using v by (auto simp: vec_at_def)
  then have at: "procs_at v 0 b w" by (simp add: procs_at_def)
  have hy: "\<forall>p \<in> set (concat chain). table_printed procs dirs p" "room ?ty (0 + length (concat chain) + 2 ^ 33)" using a(4,5) c(3) by simp_all
  obtain v1 w1 b1 where p: "proc_pages (linux_pids ?pe dirs) chain 0 v w = Done (SG_ERROR_NONE, ?n, v1, w1)" "heap_ok w1" "replaced v v1 w w1"
     "wenv w1 = wenv w" "procs_at v1 ?n b1 w1" "map proc_view (take ?n (contents b1)) = proc_rows ?pe procs ?ps" "room_for ?ty b \<longrightarrow> room_for ?ty b1"
    using proc_pages_ok [OF w at a(2) hy(1) ne hy(2)] unfolding c(3) by auto
  have rm: "room ?ty (?n + 2 ^ 33)" using room_mono [OF a(5), of "?n + 2 ^ 33"] length_proc_rows [of ?pe procs ?ps] by simp
  have sc1: "sched (wenv w1) = []" using p(4) w(2) by simp
  obtain v2 w2 b2 where t: "trim_procs ?n v1 w1 = Done (SG_ERROR_NONE, v2, w2)" "heap_ok w2" "replaced v1 v2 w1 w2" "wenv w2 = wenv w1"
     "vload v2 w2 = Done b2" "vec_ok ?ty proc_ok b2" "contents b2 = take ?n (contents b1)" "room_for ?ty b1 \<longrightarrow> room_for ?ty b2"
    using trim_procs_ok [OF p(2) sc1 p(5) a(6) rm] by (elim exE conjE)
  have env: "\<lparr>pe_uptime = pe_uptime ?pe, pe_ticks = ticks, pe_pagesize = word_of_nat psz, pe_now = now\<rparr> = ?pe" by (simp add: linux_env_def)
  have sev: "set_env (wenv w) w = w" by (simp add: set_env_def)
  have run: "sg_get_process_stats_linux (Some uptime) ticks psz junk (Some (nms, 0)) dirs now v w = Done (SG_ERROR_NONE, v2, w2)"
    using a(3) c(1) p(1) t(1) env sev by (simp add: sg_get_process_stats_linux_def proc_scanned_def)
  have "replaced v v2 w w2"
    by (rule replaced_trans [OF p(3) t(3)]) (use p(5) in \<open>simp add: procs_at_def vload_Done_iff\<close>)
  moreover have "roomy ?ty v w \<longrightarrow> roomy ?ty v2 w2" using b(1) p(7) t(5,8) by (simp add: roomy_def vload_Done_iff)
  moreover have "v2 \<noteq> 0" using t(5) by (simp add: vload_Done_iff)
  moreover have "vec_at ?ty proc_ok v2 (contents b2) w2" using t(5,6) by (auto simp: vec_at_def)
  ultimately show ?thesis using run t(2,4,7) p(4,6) w(2) by (intro exI [of _ v2] exI [of _ w2] exI [of _ "contents b2"]) simp
qed

interpretation psm: multi_source sg_process_stats_vector_init_info proc_ok proc_view
    "sg_get_process_stats_linux (Some uptime) ticks psz junk (Some (nms, 0)) dirs now"
    "Some (proc_rows (linux_env uptime ticks psz now) procs (dir_pids junk nms))" "proc_feasible psz ticks uptime (dir_pids junk nms) procs dirs" False
  for uptime ticks psz junk nms dirs now procs
proof
  let ?ty = sg_process_stats_vector_init_info and ?rows = "proc_rows (linux_env uptime ticks psz now) procs (dir_pids junk nms)"
    and ?fn = "sg_get_process_stats_linux (Some uptime) ticks psz junk (Some (nms, 0)) dirs now"
  show "room ?ty (16 + 2 ^ 32)" by (simp add: room_def sg_process_stats_vector_init_info_def)
  fix w v assume f: "proc_feasible psz ticks uptime (dir_pids junk nms) procs dirs" and w: "heap_ok w" and v: "vec_at ?ty proc_ok v [] w"
    and m: "False \<or> sched (wenv w) = []"
  then have sc: "sched (wenv w) = []" by simp
  obtain v' w' xs where r: "?fn v w = Done (SG_ERROR_NONE, v', w')"
     "heap_ok w'" "sched (wenv w') = []" "replaced v v' w w'" "v' \<noteq> 0" "vec_at ?ty proc_ok v' xs w'"
     "roomy ?ty v w \<longrightarrow> roomy ?ty v' w'" "map proc_view xs = ?rows"
    using get_process_stats_law [OF f w sc v, of now] by (elim exE conjE)
  have "length xs = length ?rows" using arg_cong [OF r(8), of length] by simp
  with r show "\<exists>rc v' w'. ?fn v w = Done (rc, v', w') \<and> heap_ok w' \<and> replaced v v' w w' \<and>
       (v' \<noteq> 0 \<longrightarrow> (\<exists>xs. vec_at ?ty proc_ok v' xs w' \<and> (roomy ?ty v w \<longrightarrow> roomy ?ty v' w') \<and>
          (rc = SG_ERROR_NONE \<longrightarrow> (\<exists>vs. Some ?rows = Some vs \<and> length xs = length vs)) \<and>
          (rc = SG_ERROR_NONE \<and> sched (wenv w) = [] \<longrightarrow> Some ?rows = Some (map proc_view xs)))) \<and>
       (sched (wenv w) = [] \<longrightarrow> (rc = SG_ERROR_NONE \<longleftrightarrow> Some ?rows \<noteq> None) \<and> sched (wenv w') = []) \<and>
       (if rc = SG_ERROR_NONE then v' \<noteq> 0 else error (err (wenv w')) = rc)"
    by (intro exI [of _ SG_ERROR_NONE] exI [of _ v'] exI [of _ w']) auto
qed

section \<open>Properties\<close>

text \<open>What an item holds of a process whose name has no closing parenthesis; the percentage of processor time, a
  rounded quotient, is left out.\<close>

lemma proc_of_fields:
  assumes "proc_view x = proc_of (linux_env uptime ticks psz now) p" "CHR '')'' \<notin> set (lp_comm p)"
  shows "process_name (proc_view x) = CStr (lp_comm p @ [NUL]) \<and>
     proctitle (proc_view x) = CStr ((if lp_args p = [] then ''['' @ lp_comm p @ '']'' else join_args (lp_args p)) @ [NUL]) \<and>
     pid x = word_of_int (lp_pid p) \<and> parent x = word_of_int (lp_ppid p) \<and> pgid x = word_of_int (lp_pgrp p) \<and>
     uid x = word_of_nat (fst (lp_uids p)) \<and> euid x = word_of_nat (fst (snd (lp_uids p))) \<and>
     gid x = word_of_nat (fst (lp_gids p)) \<and> egid x = word_of_nat (fst (snd (lp_gids p))) \<and>
     context_switches x = word_of_nat (lp_vol p) + word_of_nat (lp_nonvol p) \<and>
     voluntary_context_switches x = word_of_nat (lp_vol p) \<and> involuntary_context_switches x = word_of_nat (lp_nonvol p) \<and>
     proc_size x = word_of_nat (lp_vsize p) \<and> proc_resident x = (word_of_nat (lp_rss p) + 3) * word_of_nat psz \<and>
     start_time x = now - the (scan_proc_uptime uptime) + word_of_nat (lp_start p) div word_of_int ticks \<and>
     time_spent x = (word_of_nat (lp_utime p) + word_of_nat (lp_stime p)) div word_of_int ticks \<and> nice x = word_of_int (lp_nice p) \<and>
     state x = (if lp_state p = CHR ''S'' then SG_PROCESS_STATE_SLEEPING else if lp_state p = CHR ''R'' then SG_PROCESS_STATE_RUNNING
       else if lp_state p = CHR ''Z'' then SG_PROCESS_STATE_ZOMBIE
       else if lp_state p = CHR ''T'' \<or> lp_state p = CHR ''D'' then SG_PROCESS_STATE_STOPPED else SG_PROCESS_STATE_UNKNOWN) \<and>
     ps_systime x = now"
proof -
  have "bare_name (lp_comm p) = lp_comm p" using assms(2) by (auto simp: bare_name_def dest: in_set_dropD)
  with assms(1) show ?thesis
    by (cases x) (simp add: proc_view_def proc_of_def linux_env_def linux_title_def linux_state_def)
qed

text \<open>C28: \<^verbatim>\<open>sg_get_process_stats\<close> on Linux, memory sufficing, the clock rate being positive, pages having at least 20 bytes and
  \<^verbatim>\<open>/proc/uptime\<close> being readable, for
  a \<^verbatim>\<open>/proc\<close> in which at least one process lives and every process the directory names has either vanished or
  has its four files in the layout of the kernel, with a name of at most seven gaps and no closing
  parenthesis and with arguments of at least two characters each, one for the last: the thread's snapshot
  has one item for every process that has not vanished, in the order of the directory and however many pages
  of ids there are, with name, title, ids, sizes, times, context switches, niceness and state as printed;
  the resident size counts three pages more than printed. Blanks in the name of a process do not shift the
  fields.\<close>

theorem sg_get_process_stats_linux_correct:
  assumes "heap_ok w" "sched (wenv w) = []" "proc_feasible psz ticks uptime (dir_pids junk nms) procs dirs"
    and "g SG_PROC_STAT_IDX = 0 \<or> vec_at sg_process_stats_vector_init_info proc_ok (g SG_PROC_STAT_IDX) ys w"
    and "\<forall>r \<in> set (List.map_filter procs (dir_pids junk nms)). CHR '')'' \<notin> set (lp_comm (fst r))"
  shows "\<exists>p n g' w' xs. sg_get_process_stats (sg_get_process_stats_linux (Some uptime) ticks psz junk (Some (nms, 0)) dirs now) (Some g) w =
       Done ((p, n), Some g', w') \<and> heap_ok w' \<and> p = g' SG_PROC_STAT_IDX \<and> p \<noteq> 0 \<and> error (err (wenv w')) = SG_ERROR_NONE \<and>
     vec_at sg_process_stats_vector_init_info proc_ok p xs w' \<and> unat n = length xs \<and>
     list_all2 (\<lambda>x r. let p = fst r in
       process_name (proc_view x) = CStr (lp_comm p @ [NUL]) \<and>
       proctitle (proc_view x) = CStr ((if lp_args p = [] then ''['' @ lp_comm p @ '']'' else join_args (lp_args p)) @ [NUL]) \<and>
       pid x = word_of_int (lp_pid p) \<and> parent x = word_of_int (lp_ppid p) \<and> pgid x = word_of_int (lp_pgrp p) \<and>
       uid x = word_of_nat (fst (lp_uids p)) \<and> euid x = word_of_nat (fst (snd (lp_uids p))) \<and>
       gid x = word_of_nat (fst (lp_gids p)) \<and> egid x = word_of_nat (fst (snd (lp_gids p))) \<and>
       context_switches x = word_of_nat (lp_vol p) + word_of_nat (lp_nonvol p) \<and>
       voluntary_context_switches x = word_of_nat (lp_vol p) \<and> involuntary_context_switches x = word_of_nat (lp_nonvol p) \<and>
       proc_size x = word_of_nat (lp_vsize p) \<and> proc_resident x = (word_of_nat (lp_rss p) + 3) * word_of_nat psz \<and>
       start_time x = now - the (scan_proc_uptime uptime) + word_of_nat (lp_start p) div word_of_int ticks \<and>
       time_spent x = (word_of_nat (lp_utime p) + word_of_nat (lp_stime p)) div word_of_int ticks \<and> nice x = word_of_int (lp_nice p) \<and>
       state x = (if lp_state p = CHR ''S'' then SG_PROCESS_STATE_SLEEPING else if lp_state p = CHR ''R'' then SG_PROCESS_STATE_RUNNING
         else if lp_state p = CHR ''Z'' then SG_PROCESS_STATE_ZOMBIE
         else if lp_state p = CHR ''T'' \<or> lp_state p = CHR ''D'' then SG_PROCESS_STATE_STOPPED else SG_PROCESS_STATE_UNKNOWN) \<and>
       ps_systime x = now) xs (List.map_filter procs (dir_pids junk nms))"
proof -
  let ?rs = "List.map_filter procs (dir_pids junk nms)" and ?pe = "linux_env uptime ticks psz now"
  have mem: "False \<or> sched (wenv w) = []" using assms(2) by simp
  have "\<exists>p n g' w' xs. sg_get_process_stats (sg_get_process_stats_linux (Some uptime) ticks psz junk (Some (nms, 0)) dirs now) (Some g) w =
       Done ((p, n), Some g', w') \<and> heap_ok w' \<and> p = g' SG_PROC_STAT_IDX \<and> p \<noteq> 0 \<and> error (err (wenv w')) = SG_ERROR_NONE \<and>
     vec_at sg_process_stats_vector_init_info proc_ok p xs w' \<and> unat n = length xs \<and>
     map proc_view xs = map (\<lambda>r. proc_of ?pe (fst r)) ?rs"
    using psm.access_ok [where g = g and idx = SG_PROC_STAT_IDX and now = now, OF assms(3,1,4) mem] assms(2)
    unfolding sg_get_process_stats_def proc_rows_def
    by (elim exE conjE) (auto split: if_splits)
  then obtain p n g' w' xs where r: "sg_get_process_stats (sg_get_process_stats_linux (Some uptime) ticks psz junk (Some (nms, 0)) dirs now) (Some g) w =
       Done ((p, n), Some g', w')" "heap_ok w'" "p = g' SG_PROC_STAT_IDX" "p \<noteq> 0" "error (err (wenv w')) = SG_ERROR_NONE"
     "vec_at sg_process_stats_vector_init_info proc_ok p xs w'" "unat n = length xs"
     "map proc_view xs = map (\<lambda>r. proc_of ?pe (fst r)) ?rs"
    by (elim exE conjE)
  have "list_all2 (\<lambda>x r. proc_view x = proc_of ?pe (fst r)) xs ?rs"
    using r(8) by (simp only: list.rel_eq [symmetric] list.rel_map)
  then have m: "list_all2 (\<lambda>x r. proc_view x = proc_of ?pe (fst r) \<and> CHR '')'' \<notin> set (lp_comm (fst r))) xs ?rs"
    by (rule list.rel_mono_strong) (use assms(5) in blast)
  show ?thesis
    unfolding Let_def
    by (rule exI [of _ p], rule exI [of _ n], rule exI [of _ g'], rule exI [of _ w'], rule exI [of _ xs], intro conjI)
      (fact r(1), fact r(2), fact r(3), fact r(4), fact r(5), fact r(6), fact r(7),
       rule list_all2_mono [OF m], elim conjE, erule (1) proc_of_fields)
qed

definition example_proc :: lproc where
  "example_proc =
     \<lparr>lp_pid = 1, lp_comm = ''a b'', lp_state = CHR ''S'', lp_ppid = 0, lp_pgrp = 1, lp_mid1 = [1, 0, -1, 5, 0, 0, 0, 0], lp_utime = 7,
      lp_stime = 5, lp_mid2 = [0, 0, 2], lp_nice = -5, lp_mid3 = [1, 0], lp_start = 2, lp_vsize = 9, lp_rss = 4, lp_rest = '' 8'',
      lp_uids = (0, 5, 0, 0), lp_gids = (0, 6, 0, 0), lp_vol = 3, lp_nonvol = 4, lp_args = [''/bin/ab'', ''-v'']\<rparr>"

definition example_noise :: noise where
  "example_noise = ([''Name:''], [], [''VmSize:''], [], [])"

definition example_pieces :: "string list" where
  "example_pieces = [''/bin/ab'' @ [NUL], ''-v'' @ [NUL]]"

definition example_procs :: proc_table where
  "example_procs p = (if p = 1 then Some (example_proc, example_noise, example_pieces) else None)"

definition example_dirs :: "u32 \<Rightarrow> proc_dir" where
  "example_dirs p =
     (if p = 1 then printed_dir example_proc example_noise example_pieces
      else \<lparr>pd_comm = None, pd_stat = None, pd_status = None, pd_cmdline = None\<rparr>)"

lemma example_digits:
  "dec_string 0 = ''0''" "dec_string 3 = ''3''" "dec_string 4 = ''4''" "dec_string 5 = ''5''" "dec_string 6 = ''6''"
  by code_simp+

lemma example_proc_ok: "lproc_ok example_proc example_noise example_pieces"
  by (simp add: lproc_ok_def example_proc_def stat_ok_def status_ok_def title_ok_def example_noise_def example_pieces_def quiet_def line_ok_def
      id_line_def switch_line_def example_digits is_space_def is_digit_def no_digit_def cmdline_def nul_free_def)

lemma example_pids: "dir_pids 9 [''.'', ''1'', ''self'', ''7''] = [1, 7]"
  by (simp add: dir_pids_def dir_pid_def map_filter_simps scan_int_def is_space_def is_digit_def to_ll_def)

lemma example_proc_feasible:
  "proc_feasible 4096 100 ''100.73 50.00'' (dir_pids 9 [''.'', ''1'', ''self'', ''7'']) example_procs example_dirs"
proof -
  have "scan_proc_uptime ''100.73 50.00'' = Some 100"
    by (simp add: scan_proc_uptime_def scan_int_def is_space_def is_digit_def to_ll_def)
  moreover have "table_printed example_procs example_dirs p" for p
    using example_proc_ok by (simp add: table_printed_def example_procs_def example_dirs_def vanished_def read_comm_def)
  moreover have "room sg_process_stats_vector_init_info (2 + 2 ^ 33)" by (simp add: room_def sg_process_stats_vector_init_info_def)
  ultimately show ?thesis unfolding example_pids by (simp add: proc_feasible_def example_procs_def example_noise_def)
qed

lemma example_rows: "List.map_filter example_procs (dir_pids 9 [''.'', ''1'', ''self'', ''7'']) = [(example_proc, example_noise, example_pieces)]"
  unfolding example_pids by (simp add: map_filter_simps example_procs_def)

lemma sg_get_process_stats_linux_correct_witness:
  "\<exists>p n g' w' x. sg_get_process_stats (sg_get_process_stats_linux (Some ''100.73 50.00'') 100 4096 9 (Some ([''.'', ''1'', ''self'', ''7''], 0)) example_dirs 500)
       (Some (\<lambda>i. 0)) (world_of [] (proc_of (linux_env ''1'' 1 1 0) example_proc)) = Done ((p, n), Some g', w') \<and>
     vec_at sg_process_stats_vector_init_info proc_ok p [x] w' \<and>
     process_name (proc_view x) = CStr (''a b'' @ [NUL]) \<and> proctitle (proc_view x) = CStr (''/bin/ab -v'' @ [NUL]) \<and>
     pid x = 1 \<and> euid x = 5 \<and> proc_resident x = 28672 \<and> state x = SG_PROCESS_STATE_SLEEPING"
proof -
  let ?w = "world_of [] (proc_of (linux_env ''1'' 1 1 0) example_proc)" and ?g = "\<lambda>i. 0 :: nat"
  have sc: "sched (wenv ?w) = []" by (simp add: world_of_def fresh_env_def)
  have nm: "\<forall>r \<in> set (List.map_filter example_procs (dir_pids 9 [''.'', ''1'', ''self'', ''7''])). CHR '')'' \<notin> set (lp_comm (fst r))"
    unfolding example_rows by (simp add: example_proc_def)
  have g: "?g SG_PROC_STAT_IDX = 0 \<or> vec_at sg_process_stats_vector_init_info proc_ok (?g SG_PROC_STAT_IDX) [] ?w" by simp
  show ?thesis
    using sg_get_process_stats_linux_correct [where now = 500 and g = ?g, OF world_of_ok sc example_proc_feasible g nm]
    unfolding example_rows list_all2_Cons2 list_all2_Nil2
  proof (elim exE conjE, goal_cases)
    case (1 p n g' w' xs x zs)
    then show ?case
      by (intro exI [of _ p] exI [of _ n] exI [of _ g'] exI [of _ w'] exI [of _ x]) (simp add: example_proc_def Let_def)
  qed
qed

text \<open>C30: A line of \<^verbatim>\<open>/proc/N/stat\<close> in the layout of the kernel, with values that fit their types, is read back, the
  name of the process skipped: for every name of up to 14 characters, whatever blanks and parentheses it
  holds, and for longer ones with no more than seven gaps, the ten values are those that were printed.\<close>

theorem stat_line_read_back:
  assumes "length (lp_mid1 p) = 8" "length (lp_mid2 p) = 3" "length (lp_mid3 p) = 2" "lp_rest p = [] \<or> \<not> is_digit (hd (lp_rest p))"
    and "\<bar>lp_pid p\<bar> < 2 ^ 63" "\<bar>lp_ppid p\<bar> < 2 ^ 63" "\<bar>lp_pgrp p\<bar> < 2 ^ 63" "\<bar>lp_nice p\<bar> < 2 ^ 63" "lp_utime p < 2 ^ 64"
    and "lp_stime p < 2 ^ 64" "lp_start p < 2 ^ 64" "lp_vsize p < 2 ^ 64" "lp_rss p < 2 ^ 64" "\<not> is_space (lp_state p)"
    and "length (lp_comm p) \<le> 14 \<or> gaps (lp_comm p) \<le> 7"
  shows "sscanf (proc_stat_fmt (Some (lp_comm p))) (stat_line p) =
    [VNum (word_of_int (lp_pid p)), VStr [lp_state p], VNum (word_of_int (lp_ppid p)), VNum (word_of_int (lp_pgrp p)),
     VNum (word_of_nat (lp_utime p)), VNum (word_of_nat (lp_stime p)), VNum (word_of_int (lp_nice p)), VNum (word_of_nat (lp_start p)),
     VNum (word_of_nat (lp_vsize p)), VNum (word_of_nat (lp_rss p))]"
  by (rule scan_stat_line) (use assms gaps_bound [of "lp_comm p"] in \<open>auto simp: stat_ok_def no_digit_def\<close>)

lemma stat_line_read_back_witness:
  "map val_num (sscanf (proc_stat_fmt (Some ''a b'')) (stat_line example_proc)) = [1, 0, 0, 1, 7, 5, word_of_int (-5), 2, 9, 4]"
  using stat_line_read_back [of example_proc] by (simp add: example_proc_def is_space_def is_digit_def)

text \<open>A name of 15 characters that starts and ends with a gap needs one directive more than \<^verbatim>\<open>comm_jmp\<close> has room for.\<close>

lemma comm_jmp_full: "gaps '' a a a a a a a '' = 8 \<and> length (comm_jmp '' a a a a a a a '') = 31"
  by (simp add: comm_jmp_def jmp_cat_def is_space_def)

text \<open>\<^verbatim>\<open>adjust_procname_cmndline\<close> on Linux turns the arguments of a process, each ended by a NUL, into the line of the
  arguments separated by blanks, within the buffer, when every argument but the last has at least two
  characters and the last at least one.\<close>

theorem adjust_procname_cmndline_joins:
  assumes "args_ok args"
  shows "\<exists>buf. adjust_procname_cmndline (concat (map (\<lambda>a. a @ [NUL]) args) @ [NUL]) (length (concat (map (\<lambda>a. a @ [NUL]) args))) = Done buf \<and>
     length buf = Suc (length (concat (map (\<lambda>a. a @ [NUL]) args))) \<and> strval buf = join_args args"
  using adjust_args [OF assms] unfolding cmdline_def .

lemma adjust_procname_cmndline_joins_witness:
  "\<exists>buf. adjust_procname_cmndline (''sh'' @ [NUL] @ ''-c'' @ [NUL] @ ''x'' @ [NUL, NUL]) 8 = Done buf \<and> strval buf = ''sh -c x''"
proof -
  have "length (concat (map (\<lambda>a. a @ [NUL]) [''sh'', ''-c'', ''x''])) = 8" by simp
  with adjust_procname_cmndline_joins [of "[''sh'', ''-c'', ''x'']"] obtain buf where
    "adjust_procname_cmndline (concat (map (\<lambda>a. a @ [NUL]) [''sh'', ''-c'', ''x'']) @ [NUL]) 8 = Done buf" "strval buf = join_args [''sh'', ''-c'', ''x'']"
    by (simp only: ) auto
  then show ?thesis by simp
qed

section \<open>Counts of a reading\<close>

text \<open>The vector of the counts: none yet, or one with room for an item.\<close>

definition count_room :: "addr \<Rightarrow> sg_process_count world \<Rightarrow> bool" where
  "count_room v w \<longleftrightarrow> v = 0 \<or> (\<exists>b. vload v w = Done b \<and> slots b \<noteq> [])"

lemma create_count:
  assumes "heap_ok w" "sched (wenv w) = []"
  shows "\<exists>v w' b. VECTOR_CREATE sg_process_count_vector_init_info 1 w = Done (v, w') \<and> v \<noteq> 0 \<and> vload v w' = Done b \<and> slots b \<noteq> [] \<and> wenv w' = wenv w"
proof -
  let ?ty = sg_process_count_vector_init_info
  have c: "VECTOR_CREATE ?ty 1 w = sg_vector_create_int 0 1 0 ?ty w"
    by (simp add: VECTOR_CREATE_def sg_vector_create_def block_shift_loop.simps)
  have "room ?ty (rounded (unat (max 1 0 :: size_t)) (unat (0 :: size_t)))"
    by (simp add: rounded_def room_def sg_process_count_vector_init_info_def VECTOR_INIT_INFO_EMPTY_INIT_def)
  from pcv.create_int_len [OF assms(1) _ _ this] obtain v w' where "sg_vector_create_int 0 1 0 ?ty w = Done (v, w')"
      "v = 0 \<and> blocks w' = blocks w \<and> error (err (wenv w')) = SG_ERROR_MALLOC \<and> sched (wenv w) \<noteq> [] \<or>
       v = next_addr w \<and> (sched (wenv w) = [] \<longrightarrow> wenv w' = wenv w) \<and>
      (\<exists>b. blocks w' = (blocks w)(v \<mapsto> b) \<and> length (slots b) = rounded (unat (max 1 0 :: size_t)) (unat (0 :: size_t)))"
    by auto
  moreover have "next_addr w \<noteq> 0" using assms(1) by (simp add: heap_ok_def)
  ultimately show ?thesis using c assms(2) by (auto simp: vload_Done_iff rounded_def)
qed

text \<open>Counting what the source delivers.\<close>

lemma count_of_eq:
  assumes "count_room (g SG_PROC_COUNT_IDX) (pw_counts w)" "heap_ok (pw_counts w)" "sched (wenv (pw_stats w)) = []"
    and src: "\<And>c. \<exists>v g' sw xs. count_source reader pcs (g(SG_PROC_COUNT_IDX := c)) (pw_stats w) = Done (v, g', sw) \<and> g' SG_PROC_COUNT_IDX = c \<and>
       v \<noteq> 0 \<and> vec_at sg_process_stats_vector_init_info proc_ok v xs sw \<and> xs \<noteq> [] \<and> Q xs"
  shows "\<exists>p g' w' xs. sg_get_process_count_of reader pcs (Some g) w = Done (p, Some g', w') \<and> p \<noteq> 0 \<and> Q xs \<and> xs \<noteq> [] \<and>
     read_item p 0 (pw_counts w') = Done \<lparr>pc_total = word_of_nat (length xs), running = in_state SG_PROCESS_STATE_RUNNING xs,
       sleeping = in_state SG_PROCESS_STATE_SLEEPING xs, stopped = in_state SG_PROCESS_STATE_STOPPED xs,
       zombie = in_state SG_PROCESS_STATE_ZOMBIE xs, unknown = in_state SG_PROCESS_STATE_UNKNOWN xs, pc_systime = ps_systime (hd xs)\<rparr>"
proof -
  let ?cw = "pw_counts (to_counts w)"
  have h: "heap_ok ?cw" "sched (wenv ?cw) = []" "wenv ?cw = wenv (pw_stats w)" using assms(2,3) by (simp_all add: to_counts_def)
  obtain c cw b where c: "(if g SG_PROC_COUNT_IDX = 0
        then andthen (VECTOR_CREATE sg_process_count_vector_init_info 1 ?cw) (\<lambda>(v, cw). Done (g(SG_PROC_COUNT_IDX := v), cw))
        else Done (g, ?cw)) = Done (g(SG_PROC_COUNT_IDX := c), cw)" "c \<noteq> 0" "vload c cw = Done b" "slots b \<noteq> []" "wenv cw = wenv (pw_stats w)"
  proof (cases "g SG_PROC_COUNT_IDX = 0")
    case True
    obtain v w' b where "VECTOR_CREATE sg_process_count_vector_init_info 1 ?cw = Done (v, w')" "v \<noteq> 0" "vload v w' = Done b" "slots b \<noteq> []" "wenv w' = wenv ?cw"
      using create_count [OF h(1,2)] by (elim exE conjE)
    with True that [of v w' b] h(3) show ?thesis by simp
  next
    case False
    then obtain b where "vload (g SG_PROC_COUNT_IDX) (pw_counts w) = Done b" "slots b \<noteq> []" using assms(1) by (auto simp: count_room_def)
    with False that [of "g SG_PROC_COUNT_IDX" ?cw b] show ?thesis by (simp add: to_counts_def vload_set_env)
  qed
  obtain v g' sw xs where g': "count_source reader pcs (g(SG_PROC_COUNT_IDX := c)) (pw_stats w) = Done (v, g', sw)" "g' SG_PROC_COUNT_IDX = c" "v \<noteq> 0"
      "vec_at sg_process_stats_vector_init_info proc_ok v xs sw" "xs \<noteq> []" "Q xs"
    using src by blast
  have pw: "pw_stats (to_procs (w\<lparr>pw_counts := cw\<rparr>)) = pw_stats w" using c(5) by (simp add: to_procs_def set_env_def)
  let ?w2 = "to_counts ((to_procs (w\<lparr>pw_counts := cw\<rparr>))\<lparr>pw_stats := sw\<rparr>)"
  have w2: "pw_counts ?w2 = set_env (wenv sw) cw" "pw_stats ?w2 = sw" by (simp_all add: to_counts_def to_procs_def)
  have rd: "read_item c 0 (pw_counts ?w2) = Done (slots b ! 0)" using c(2-4) by (simp add: w2 read_item_def vload_set_env)
  let ?k = "\<lparr>pc_total = word_of_nat (length xs), running = in_state SG_PROCESS_STATE_RUNNING xs,
       sleeping = in_state SG_PROCESS_STATE_SLEEPING xs, stopped = in_state SG_PROCESS_STATE_STOPPED xs,
       zombie = in_state SG_PROCESS_STATE_ZOMBIE xs, unknown = in_state SG_PROCESS_STATE_UNKNOWN xs, pc_systime = ps_systime (hd xs)\<rparr>"
  let ?cw2 = "vstore c (b\<lparr>slots := (slots b)[0 := ?k]\<rparr>) (set_env (wenv sw) cw)"
  have wr: "write_item c 0 ?k (pw_counts ?w2) = Done ?cw2" using c(2-4) by (simp add: w2 write_item_def vload_set_env)
  have "sg_get_process_count_of reader pcs (Some g) w = Done (c, Some g', ?w2\<lparr>pw_counts := ?cw2\<rparr>)"
    using c(1,2) g'(1-3) rd wr pw count_int_eq [OF g'(4,5)] by (simp add: sg_get_process_count_of_def Let_def)
  moreover have "read_item c 0 ?cw2 = Done ?k" using c(2,4) by (simp add: read_item_def vload_vstore)
  ultimately show ?thesis using c(2) g'(5,6) by (intro exI [of _ c] exI [of _ g'] exI [of _ "?w2\<lparr>pw_counts := ?cw2\<rparr>"] exI [of _ xs]) simp
qed

lemma in_state_view: "in_state s xs = in_state s (map proc_view xs)"
  by (simp add: in_state_def filter_map comp_def proc_view_def)

lemma linux_states: "linux_state c \<noteq> NoState k"
  by (simp add: linux_state_def)

lemma linux_count_source:
  assumes "heap_ok w" "sched (wenv w) = []" "proc_feasible psz ticks uptime (dir_pids junk nms) procs dirs"
    and "g SG_PROC_STAT_IDX = 0 \<or> vec_at sg_process_stats_vector_init_info proc_ok (g SG_PROC_STAT_IDX) ys w"
  shows "\<exists>v g' sw xs. count_source (sg_get_process_stats_linux (Some uptime) ticks psz junk (Some (nms, 0)) dirs now) sg_entire_process_count
       (g(SG_PROC_COUNT_IDX := c)) w = Done (v, g', sw) \<and> g' SG_PROC_COUNT_IDX = c \<and> v \<noteq> 0 \<and>
     vec_at sg_process_stats_vector_init_info proc_ok v xs sw \<and> xs \<noteq> [] \<and>
     map proc_view xs = proc_rows (linux_env uptime ticks psz now) procs (dir_pids junk nms)"
proof -
  let ?g = "g(SG_PROC_COUNT_IDX := c)"
  have ix: "?g SG_PROC_STAT_IDX = g SG_PROC_STAT_IDX" "SG_PROC_COUNT_IDX \<noteq> SG_PROC_STAT_IDX" by (simp_all add: SG_PROC_STAT_IDX_def SG_PROC_COUNT_IDX_def)
  have mem: "False \<or> sched (wenv w) = []" using assms(2) by simp
  have at: "?g SG_PROC_STAT_IDX = 0 \<or> vec_at sg_process_stats_vector_init_info proc_ok (?g SG_PROC_STAT_IDX) ys w" using assms(4) ix by simp
  let ?ty = sg_process_stats_vector_init_info and ?rows = "proc_rows (linux_env uptime ticks psz now) procs (dir_pids junk nms)"
    and ?rd = "sg_get_process_stats_linux (Some uptime) ticks psz junk (Some (nms, 0)) dirs now"
  have ne: "?rows \<noteq> []"
    using assms(3) proc_rows_nonempty [of _ "dir_pids junk nms" procs "linux_env uptime ticks psz now"] by (auto simp: proc_feasible_def simp del: not_None_eq)
  obtain p n g' w' where r: "MULTI_COMP_ACCESS ?ty ?rd SG_PROC_STAT_IDX (Some ?g) w = Done ((p, n), Some g', w')" "\<forall>j. j \<noteq> SG_PROC_STAT_IDX \<longrightarrow> g' j = ?g j"
      "sched (wenv w) = [] \<longrightarrow> (p \<noteq> 0 \<longleftrightarrow> Some ?rows \<noteq> None) \<and> sched (wenv w') = []"
      "if p = 0 then n = 0 \<and> error (err (wenv w')) \<noteq> SG_ERROR_NONE
       else p = g' SG_PROC_STAT_IDX \<and> error (err (wenv w')) = SG_ERROR_NONE \<and>
        (\<exists>xs vs. vec_at ?ty proc_ok p xs w' \<and> unat n = length xs \<and> Some ?rows = Some vs \<and> length xs = length vs \<and>
          (sched (wenv w) = [] \<longrightarrow> map proc_view xs = vs))"
    using psm.access_ok [where g = ?g and idx = SG_PROC_STAT_IDX and now = now, OF assms(3,1) at mem]
    by (elim exE conjE) (rule that)
  have p: "p \<noteq> 0" using r(3) assms(2) by simp
  then obtain xs where x: "p = g' SG_PROC_STAT_IDX" "vec_at ?ty proc_ok p xs w'" "map proc_view xs = ?rows" using r(4) assms(2) by auto
  have "xs \<noteq> []" using x(3) ne by auto
  moreover have "g' SG_PROC_COUNT_IDX = c" using r(2) ix by simp
  moreover have "count_source (sg_get_process_stats_linux (Some uptime) ticks psz junk (Some (nms, 0)) dirs now) sg_entire_process_count ?g w = Done (p, g', w')"
    using r(1) x(1) by (simp add: count_source_def sg_get_process_stats_def)
  ultimately show ?thesis using p x(2,3) by blast
qed

lemma linux_state_iff:
  "linux_state c = SG_PROCESS_STATE_RUNNING \<longleftrightarrow> c \<in> {CHR ''R''}" "linux_state c = SG_PROCESS_STATE_SLEEPING \<longleftrightarrow> c \<in> {CHR ''S''}"
  "linux_state c = SG_PROCESS_STATE_STOPPED \<longleftrightarrow> c \<in> {CHR ''T'', CHR ''D''}" "linux_state c = SG_PROCESS_STATE_ZOMBIE \<longleftrightarrow> c \<in> {CHR ''Z''}"
  "linux_state c = SG_PROCESS_STATE_UNKNOWN \<longleftrightarrow> c \<in> - {CHR ''R'', CHR ''S'', CHR ''T'', CHR ''D'', CHR ''Z''}"
  by (auto simp: linux_state_def)

lemma in_state_rows: "in_state st (map (\<lambda>r. proc_of pe (fst r)) rs) = word_of_nat (length (filter (\<lambda>r. linux_state (lp_state (fst r)) = st) rs))"
  by (simp add: in_state_def filter_map comp_def proc_of_def)

text \<open>C29: \<^verbatim>\<open>sg_get_process_count_of(sg_entire_process_count)\<close> on Linux, memory sufficing and under the conditions on \<^verbatim>\<open>/proc\<close>
  of the snapshot of processes (a live process, files in the layout of the kernel, arguments of at least two
  characters but the last, names of at most seven gaps): the total is the number of processes just read, and
  the count of each state the number of those whose letter in \<^verbatim>\<open>stat\<close> stands for it: R running, S sleeping, T
  and D stopped, Z zombie, any other unknown; together they are the total. The item is written although the
  vector that holds it has no item in use.\<close>

theorem sg_get_process_count_of_entire:
  assumes "heap_ok (pw_stats w)" "heap_ok (pw_counts w)" "sched (wenv (pw_stats w)) = []"
    and "proc_feasible psz ticks uptime (dir_pids junk nms) procs dirs" "count_room (g SG_PROC_COUNT_IDX) (pw_counts w)"
    and "g SG_PROC_STAT_IDX = 0 \<or> vec_at sg_process_stats_vector_init_info proc_ok (g SG_PROC_STAT_IDX) ys (pw_stats w)"
  shows "\<exists>p g' w' c. sg_get_process_count_of (sg_get_process_stats_linux (Some uptime) ticks psz junk (Some (nms, 0)) dirs now)
       sg_entire_process_count (Some g) w = Done (p, Some g', w') \<and> p \<noteq> 0 \<and> read_item p 0 (pw_counts w') = Done c \<and>
     (let rs = List.map_filter procs (dir_pids junk nms);
          count = (\<lambda>A. word_of_nat (length (filter (\<lambda>r. lp_state (fst r) \<in> A) rs))) in
      pc_total c = word_of_nat (length rs) \<and> running c = count {CHR ''R''} \<and> sleeping c = count {CHR ''S''} \<and>
      stopped c = count {CHR ''T'', CHR ''D''} \<and> zombie c = count {CHR ''Z''} \<and>
      unknown c = count (- {CHR ''R'', CHR ''S'', CHR ''T'', CHR ''D'', CHR ''Z''}) \<and> pc_systime c = now) \<and>
     pc_total c = running c + sleeping c + stopped c + zombie c + unknown c"
proof -
  let ?rd = "sg_get_process_stats_linux (Some uptime) ticks psz junk (Some (nms, 0)) dirs now"
  let ?rows = "proc_rows (linux_env uptime ticks psz now) procs (dir_pids junk nms)"
  let ?c = "\<lambda>xs. \<lparr>pc_total = word_of_nat (length xs), running = in_state SG_PROCESS_STATE_RUNNING xs,
       sleeping = in_state SG_PROCESS_STATE_SLEEPING xs, stopped = in_state SG_PROCESS_STATE_STOPPED xs,
       zombie = in_state SG_PROCESS_STATE_ZOMBIE xs, unknown = in_state SG_PROCESS_STATE_UNKNOWN xs, pc_systime = ps_systime (hd xs)\<rparr>"
  obtain p g' w' xs where r: "sg_get_process_count_of ?rd sg_entire_process_count (Some g) w = Done (p, Some g', w')" "p \<noteq> 0"
     "map proc_view xs = ?rows" "xs \<noteq> []" "read_item p 0 (pw_counts w') = Done (?c xs)"
    using count_of_eq [where g = g and Q = "\<lambda>xs. map proc_view xs = ?rows", OF assms(5,2,3) linux_count_source [where g = g and now = now, OF assms(1,3,4,6)]]
    by (elim exE conjE) blast
  have len: "length xs = length ?rows" using arg_cong [OF r(3), of length] by simp
  have "\<forall>y \<in> set ?rows. ps_systime y = now \<and> (\<forall>k. state y \<noteq> NoState k)"
    by (auto simp: proc_rows_def proc_of_def linux_env_def linux_states)
  then have ys: "\<forall>x \<in> set xs. ps_systime (proc_view x) = now \<and> (\<forall>k. state (proc_view x) \<noteq> NoState k)" unfolding r(3) [symmetric] by simp
  then have st: "\<forall>x \<in> set xs. ps_systime x = now \<and> (\<forall>k. state x \<noteq> NoState k)" by (simp add: proc_view_def)
  have now: "ps_systime (hd xs) = now" using st r(4) by simp
  have sum: "word_of_nat (length xs) = in_state SG_PROCESS_STATE_RUNNING xs + in_state SG_PROCESS_STATE_SLEEPING xs +
     in_state SG_PROCESS_STATE_STOPPED xs + in_state SG_PROCESS_STATE_ZOMBIE xs + in_state SG_PROCESS_STATE_UNKNOWN xs"
    by (rule states_add_up) (use st in simp)
  have eq: "in_state s xs = word_of_nat (length (filter (\<lambda>r. linux_state (lp_state (fst r)) = s) (List.map_filter procs (dir_pids junk nms))))" for s
    using in_state_view [of s xs] unfolding r(3) proc_rows_def in_state_rows by simp
  have n: "length xs = length (List.map_filter procs (dir_pids junk nms))" using len by (simp add: proc_rows_def)
  show ?thesis
    unfolding Let_def linux_state_iff [symmetric]
    by (rule exI [of _ p], rule exI [of _ g'], rule exI [of _ w'], rule exI [of _ "?c xs"])
      (use r(1,2,5) now sum eq n in simp)
qed

lemma sg_get_process_count_of_entire_witness:
  "\<exists>p g' w' c. sg_get_process_count_of (sg_get_process_stats_linux (Some ''100.73 50.00'') 100 4096 9 (Some ([''.'', ''1'', ''self'', ''7''], 0)) example_dirs 500)
       sg_entire_process_count (Some (\<lambda>i. 0))
       \<lparr>pw_stats = world_of [] (proc_of (linux_env ''1'' 1 1 0) example_proc), pw_counts = world_of [] \<lparr>pc_total = 0, running = 0, sleeping = 0, stopped = 0, zombie = 0, unknown = 0, pc_systime = 0\<rparr>\<rparr> = Done (p, Some g', w') \<and>
     read_item p 0 (pw_counts w') = Done c \<and> pc_total c = 1 \<and> sleeping c = 1 \<and> running c = 0 \<and> pc_systime c = 500"
proof -
  let ?w = "\<lparr>pw_stats = world_of [] (proc_of (linux_env ''1'' 1 1 0) example_proc), pw_counts = world_of [] \<lparr>pc_total = 0, running = 0, sleeping = 0, stopped = 0, zombie = 0, unknown = 0, pc_systime = 0\<rparr>\<rparr>" and ?g = "\<lambda>i. 0 :: nat"
  have h: "heap_ok (pw_stats ?w)" "heap_ok (pw_counts ?w)" "sched (wenv (pw_stats ?w)) = []" "count_room (?g SG_PROC_COUNT_IDX) (pw_counts ?w)"
    by (simp_all add: world_of_ok count_room_def) (simp add: world_of_def fresh_env_def)
  have g: "?g SG_PROC_STAT_IDX = 0 \<or> vec_at sg_process_stats_vector_init_info proc_ok (?g SG_PROC_STAT_IDX) [] (pw_stats ?w)" by simp
  show ?thesis
    using sg_get_process_count_of_entire [where now = 500 and g = ?g, OF h(1-3) example_proc_feasible h(4) g]
    unfolding example_rows Let_def
  proof (elim exE conjE, goal_cases)
    case (1 p g' w' c)
    then show ?case
      by (intro exI [of _ p] exI [of _ g'] exI [of _ w'] exI [of _ c]) (simp add: example_proc_def)
  qed
qed

end
