(* ===== verification/User_Stats.thy ===== *)
theory User_Stats
  imports Snapshots Access_Multi Globals_Safety
begin

text \<open>
  Users who are logged in (\<^verbatim>\<open>user_stats.c\<close>): the item type, the readers over the records of \<^verbatim>\<open>utmpx\<close> and \<^verbatim>\<open>utmp\<close>, of the
  file \<^verbatim>\<open>utmp\<close> and of Windows, the lock they take, and what \<^verbatim>\<open>sg_get_user_stats\<close> delivers.
\<close>

section \<open>Items\<close>

record sg_user_stats =
  login_name :: cstr
  record_id :: cstr
  record_id_size :: size_t
  device :: cstr
  hostname :: cstr
  us_pid :: u32
  login_time :: time_t
  us_systime :: time_t

definition sg_user_stats_item_init :: "sg_user_stats \<Rightarrow> sg_user_stats" where
  "sg_user_stats_item_init d =
     d\<lparr>login_name := CNull, record_id := CNull, record_id_size := 0, device := CNull, hostname := CNull, login_time := 0, us_systime := 0\<rparr>"

definition sg_user_stats_item_destroy :: "sg_user_stats vector_destroy_function" where
  "sg_user_stats_item_destroy d =
     andthen (free_field (login_name d)) (\<lambda>p. let d = d\<lparr>login_name := p\<rparr> in
     andthen (free_field (record_id d)) (\<lambda>p. let d = d\<lparr>record_id := p\<rparr> in
     andthen (free_field (device d)) (\<lambda>p. let d = d\<lparr>device := p\<rparr> in
     andthen (free_field (hostname d)) (\<lambda>p. Done (d\<lparr>hostname := p\<rparr>)))))"

definition sg_user_stats_vector_init_info :: "sg_user_stats sg_vector_init_info" where
  "sg_user_stats_vector_init_info =
     \<lparr>item_size = 64, init_fn = Fn ''sg_user_stats_item_init'' sg_user_stats_item_init, copy_fn = NullFn,
      compute_diff_fn = NullFn, compare_fn = NullFn,
      destroy_fn = Fn ''sg_user_stats_item_destroy'' sg_user_stats_item_destroy\<rparr>"

definition SG_USER_STATS_NOW_IDX :: nat where "SG_USER_STATS_NOW_IDX = 0"

section \<open>Records\<close>

text \<open>A member of a record: an array of bytes within it, or a pointer. \<^verbatim>\<open>SG_LUPDATE_IF\<close> tells them apart.\<close>

datatype memb = Arr string | Ptr cstr

fun SG_LUPDATE_IF :: "cstr \<Rightarrow> memb \<Rightarrow> env \<Rightarrow> (sg_error \<times> cstr \<times> env) outcome" where
  "SG_LUPDATE_IF tgt (Arr b) e = sg_lupdate_string tgt (CStr b) (length b) e"
| "SG_LUPDATE_IF tgt (Ptr p) e = sg_update_string tgt p e"

text \<open>
  \<^verbatim>\<open>struct utmpx\<close>. \<open>utx_host\<close> is \<open>None\<close> where the platform has no such member; \<open>utx_syslen\<close> is its \<^verbatim>\<open>ut_syslen\<close> where it has
  one.
\<close>

record utmpx =
  utx_type :: int
  utx_user :: memb
  utx_host :: "memb option"
  utx_syslen :: "nat option"
  utx_line :: memb
  utx_id :: string
  utx_pid :: u32
  utx_sec :: time_t

text \<open>\<^verbatim>\<open>struct utmp\<close>, where every member but the line may be missing; \<open>ut_user\<close> is \<^verbatim>\<open>ut_user\<close> or \<^verbatim>\<open>ut_name\<close>.\<close>

record utmp =
  ut_type :: "int option"
  ut_user :: "memb option"
  ut_host :: "memb option"
  ut_line :: memb
  ut_id :: "string option"
  ut_pid :: "u32 option"
  ut_time :: "time_t option"

definition USER_PROCESS :: int where "USER_PROCESS = 7"

definition utmp_wanted :: "utmp \<Rightarrow> bool" where
  "utmp_wanted u =
     (case ut_type u of
        Some k \<Rightarrow> k = USER_PROCESS
      | None \<Rightarrow>
          (case ut_user u of
             None \<Rightarrow> True
           | Some (Arr b) \<Rightarrow> b \<noteq> [] \<and> hd b \<noteq> NUL
           | Some (Ptr p) \<Rightarrow> cstr_val p \<noteq> Some []))"

section \<open>One user\<close>

text \<open>An update of a field; a failure is returned as the error recorded.\<close>

definition put_field ::
  "(sg_user_stats \<Rightarrow> cstr) \<Rightarrow> (cstr \<Rightarrow> sg_user_stats \<Rightarrow> sg_user_stats) \<Rightarrow> (cstr \<Rightarrow> env \<Rightarrow> (sg_error \<times> cstr \<times> env) outcome)
    \<Rightarrow> sg_user_stats \<Rightarrow> env \<Rightarrow> (sg_error \<times> sg_user_stats \<times> env) outcome" where
  "put_field get put upd x e =
     andthen (upd (get x) e) (\<lambda>(rc, p, e).
       if rc \<noteq> SG_ERROR_NONE then Done (sg_get_error (Some (err e)), put p x, e) else Done (SG_ERROR_NONE, put p x, e))"

text \<open>Updates joined by \<^verbatim>\<open>||\<close>: the first failure ends them.\<close>

fun put_fields :: "(sg_user_stats \<Rightarrow> env \<Rightarrow> (sg_error \<times> sg_user_stats \<times> env) outcome) list
    \<Rightarrow> sg_user_stats \<Rightarrow> env \<Rightarrow> (sg_error \<times> sg_user_stats \<times> env) outcome" where
  "put_fields [] x e = Done (SG_ERROR_NONE, x, e)"
| "put_fields (f # fs) x e = andthen (f x e) (\<lambda>(rc, x, e). if rc \<noteq> SG_ERROR_NONE then Done (rc, x, e) else put_fields fs x e)"

definition put_login :: "memb \<Rightarrow> sg_user_stats \<Rightarrow> env \<Rightarrow> (sg_error \<times> sg_user_stats \<times> env) outcome" where
  "put_login m = put_field login_name (\<lambda>p. login_name_update (\<lambda>_. p)) (\<lambda>p. SG_LUPDATE_IF p m)"

definition put_device :: "memb \<Rightarrow> sg_user_stats \<Rightarrow> env \<Rightarrow> (sg_error \<times> sg_user_stats \<times> env) outcome" where
  "put_device m = put_field device (\<lambda>p. device_update (\<lambda>_. p)) (\<lambda>p. SG_LUPDATE_IF p m)"

definition put_hostname :: "memb \<Rightarrow> nat option \<Rightarrow> sg_user_stats \<Rightarrow> env \<Rightarrow> (sg_error \<times> sg_user_stats \<times> env) outcome" where
  "put_hostname m syslen =
     put_field hostname (\<lambda>p. hostname_update (\<lambda>_. p))
       (\<lambda>p. case syslen of
              None \<Rightarrow> SG_LUPDATE_IF p m
            | Some k \<Rightarrow> sg_lupdate_string p (case m of Arr b \<Rightarrow> CStr b | Ptr q \<Rightarrow> q) (k + 1))"

definition put_record_id :: "string \<Rightarrow> sg_user_stats \<Rightarrow> env \<Rightarrow> (sg_error \<times> sg_user_stats \<times> env) outcome" where
  "put_record_id b = put_field record_id (\<lambda>p. record_id_update (\<lambda>_. p)) (\<lambda>p. sg_update_mem p (CStr b) (word_of_nat (length b)))"

definition opt_field :: "('m \<Rightarrow> 'f) \<Rightarrow> 'm option \<Rightarrow> 'f list" where
  "opt_field f m = (case m of None \<Rightarrow> [] | Some m \<Rightarrow> [f m])"

definition opt_set :: "('m \<Rightarrow> 'a \<Rightarrow> 'a) \<Rightarrow> 'm option \<Rightarrow> 'a \<Rightarrow> 'a" where
  "opt_set f m x = (case m of None \<Rightarrow> x | Some m \<Rightarrow> f m x)"

definition put_utmpx :: "time_t \<Rightarrow> utmpx \<Rightarrow> sg_user_stats \<Rightarrow> env \<Rightarrow> (sg_error \<times> sg_user_stats \<times> env) outcome" where
  "put_utmpx now u x e =
     andthen (put_fields ([put_login (utx_user u)] @ opt_field (\<lambda>m. put_hostname m (utx_syslen u)) (utx_host u) @
          [put_device (utx_line u), put_record_id (utx_id u)]) x e) (\<lambda>(rc, x, e).
       if rc \<noteq> SG_ERROR_NONE then Done (rc, x, e)
       else Done (SG_ERROR_NONE,
              x\<lparr>record_id_size := word_of_nat (length (utx_id u)), us_pid := utx_pid u, login_time := utx_sec u, us_systime := now\<rparr>, e))"

definition put_utmp :: "time_t \<Rightarrow> utmp \<Rightarrow> sg_user_stats \<Rightarrow> env \<Rightarrow> (sg_error \<times> sg_user_stats \<times> env) outcome" where
  "put_utmp now u x e =
     andthen (put_fields ([put_device (ut_line u)] @ opt_field put_login (ut_user u) @
          opt_field (\<lambda>m. put_hostname m None) (ut_host u) @ opt_field put_record_id (ut_id u)) x e) (\<lambda>(rc, x, e).
       if rc \<noteq> SG_ERROR_NONE then Done (rc, x, e)
       else
         let x = opt_set (\<lambda>b x. x\<lparr>record_id_size := word_of_nat (length b)\<rparr>) (ut_id u) x;
             x = opt_set (\<lambda>p x. x\<lparr>us_pid := p\<rparr>) (ut_pid u) x;
             x = opt_set (\<lambda>tm x. x\<lparr>login_time := tm\<rparr>) (ut_time u) x
         in Done (SG_ERROR_NONE, x\<lparr>us_systime := now\<rparr>, e))"

definition put_win32_user :: "time_t \<Rightarrow> string \<Rightarrow> sg_user_stats \<Rightarrow> env \<Rightarrow> (sg_error \<times> sg_user_stats \<times> env) outcome" where
  "put_win32_user now nm x e =
     andthen (put_field login_name (\<lambda>p. login_name_update (\<lambda>_. p)) (\<lambda>p. sg_update_string p (CStr (nm @ [NUL]))) x e) (\<lambda>(rc, x, e).
       if rc \<noteq> SG_ERROR_NONE then Done (rc, x, e) else Done (SG_ERROR_NONE, x\<lparr>us_systime := now\<rparr>, e))"

section \<open>The readers\<close>

text \<open>
  What \<^verbatim>\<open>getutxent\<close> and \<^verbatim>\<open>getutent\<close> deliver until they return NULL; \<open>None\<close> where the platform lacks them. \<^verbatim>\<open>utmp\<close> is
  asked when \<^verbatim>\<open>utmpx\<close> shows no user.
\<close>

definition user_utmp :: "utmpx list option \<Rightarrow> utmp list option \<Rightarrow> time_t \<Rightarrow> sg_user_stats multi_int" where
  "user_utmp xs us now v w =
     (let ty = sg_user_stats_vector_init_info;
          users = filter (\<lambda>u. utx_type u = USER_PROCESS) (case xs of None \<Rightarrow> [] | Some l \<Rightarrow> l)
      in andthen (fill_rows ty (put_utmpx now) users 0 v w) (\<lambda>(rc, v, w).
           if rc \<noteq> SG_ERROR_NONE \<or> users \<noteq> [] then Done (rc, v, w)
           else fill_rows ty (put_utmp now) (filter utmp_wanted (case us of None \<Rightarrow> [] | Some l \<Rightarrow> l)) 0 v w))"

text \<open>
  The same function in a build with threads, where every return has its own release of the lock \<^verbatim>\<open>utmp\<close>: the
  one of \<^verbatim>\<open>VECTOR_UPDATE_ERROR_CLEANUP\<close> when the vector cannot grow, the one behind a string that cannot be
  updated, and the one at the end. A row loop returns \<open>Inl\<close> with the code when the function returned inside it.
  The lock is taken only where there is \<^verbatim>\<open>utmpx\<close>; the codes of the two lock functions are not looked at.
\<close>

definition user_unlock :: "comp_init list \<Rightarrow> thread \<Rightarrow> 'r \<Rightarrow> gstate \<Rightarrow> ('r \<times> gstate) outcome" where
  "user_unlock ct t r s = andthen (sg_unlock_mutex ct t ''utmp'' s) (\<lambda>(_, s). Done (r, s))"

fun users_rows ::
  "comp_init list \<Rightarrow> thread \<Rightarrow> ('r \<Rightarrow> sg_user_stats \<Rightarrow> env \<Rightarrow> (sg_error \<times> sg_user_stats \<times> env) outcome) \<Rightarrow> 'r list \<Rightarrow> nat
    \<Rightarrow> addr \<Rightarrow> sg_user_stats world \<Rightarrow> gstate \<Rightarrow> (((sg_error + unit) \<times> addr \<times> sg_user_stats world) \<times> gstate) outcome" where
  "users_rows ct t put [] n v w s = Done ((Inr (), v, w), s)"
| "users_rows ct t put (r # rs) n v w s =
     andthen (VECTOR_UPDATE v (word_of_nat n + 1) sg_user_stats_vector_init_info w) (\<lambda>(res, v, w).
       case res of
         Inl rc \<Rightarrow> user_unlock ct t (Inl rc, v, w) s
       | Inr _ \<Rightarrow>
           andthen (read_item v n w) (\<lambda>x.
           andthen (put r x (wenv w)) (\<lambda>(rc, x, e).
           andthen (write_item v n x (set_env e w)) (\<lambda>w.
             if rc \<noteq> SG_ERROR_NONE then user_unlock ct t (Inl rc, v, w) s
             else users_rows ct t put rs (Suc n) v w s))))"

definition user_locked ::
  "comp_init list \<Rightarrow> thread \<Rightarrow> utmpx list option \<Rightarrow> utmp list option \<Rightarrow> time_t \<Rightarrow> addr \<Rightarrow> sg_user_stats world \<Rightarrow> gstate
    \<Rightarrow> ((sg_error \<times> addr \<times> sg_user_stats world) \<times> gstate) outcome" where
  "user_locked ct t xs us now v w s =
     (let users = filter (\<lambda>u. utx_type u = USER_PROCESS) (case xs of None \<Rightarrow> [] | Some l \<Rightarrow> l) in
      andthen (case xs of None \<Rightarrow> Done (SG_ERROR_NONE, s) | Some _ \<Rightarrow> sg_lock_mutex ct t ''utmp'' s) (\<lambda>(_, s).
      andthen (users_rows ct t (put_utmpx now) users 0 v w s) (\<lambda>((res, v, w), s).
        case res of
          Inl rc \<Rightarrow> Done ((rc, v, w), s)
        | Inr _ \<Rightarrow>
            if users \<noteq> [] then user_unlock ct t (SG_ERROR_NONE, v, w) s
            else
              andthen (users_rows ct t (put_utmp now) (filter utmp_wanted (case us of None \<Rightarrow> [] | Some l \<Rightarrow> l)) 0 v w s)
                (\<lambda>((res, v, w), s).
                  case res of
                    Inl rc \<Rightarrow> Done ((rc, v, w), s)
                  | Inr _ \<Rightarrow> user_unlock ct t (SG_ERROR_NONE, v, w) s))))"

text \<open>Where there is only the file, which \<open>None\<close> says cannot be opened; the records have no type.\<close>

definition user_file :: "string \<Rightarrow> utmp list option \<Rightarrow> time_t \<Rightarrow> sg_user_stats multi_int" where
  "user_file path entries now v w =
     (case entries of
        None \<Rightarrow> Done (SG_ERROR_OPEN, v, set_env (SET_ERROR_WITH_ERRNO SG_ERROR_OPEN (Some path) (wenv w)) w)
      | Some us \<Rightarrow> fill_rows sg_user_stats_vector_init_info (put_utmp now) (filter utmp_wanted us) 0 v w)"

text \<open>Windows: the answers of \<^verbatim>\<open>NetWkstaUserEnum\<close>, each with its users, or none when it left the buffer NULL.\<close>

datatype net_status = NERR_Success | ERROR_MORE_DATA | NetOther

fun user_win32 :: "time_t \<Rightarrow> (net_status \<times> string list option) list \<Rightarrow> nat \<Rightarrow> sg_user_stats multi_int" where
  "user_win32 now [] n v w = Fault NonTermination"
| "user_win32 now ((st, buf) # rest) n v w =
     (if st = NetOther then
        Done (SG_ERROR_PERMISSION, v, set_env (SET_ERROR SG_ERROR_PERMISSION (Some ''User enum'') (wenv w)) w)
      else
        let names = (case buf of None \<Rightarrow> [] | Some l \<Rightarrow> l) in
        andthen (fill_rows sg_user_stats_vector_init_info (put_win32_user now) names n v w) (\<lambda>(rc, v, w).
          if rc \<noteq> SG_ERROR_NONE then Done (rc, v, w)
          else if st = ERROR_MORE_DATA then user_win32 now rest (n + length names) v w
          else Done (SG_ERROR_NONE, v, w)))"

definition sg_get_user_stats :: "sg_user_stats multi_int \<Rightarrow> sg_user_stats access" where
  "sg_get_user_stats reader = MULTI_COMP_ACCESS sg_user_stats_vector_init_info reader SG_USER_STATS_NOW_IDX"

section \<open>The item type meets the interface of the vectors\<close>

definition user_ok :: "sg_user_stats \<Rightarrow> bool" where
  "user_ok x \<longleftrightarrow> cstr_ok (login_name x) \<and> record_id x \<noteq> CFreed \<and> cstr_ok (device x) \<and> cstr_ok (hostname x)"

lemma free_field_live: "p \<noteq> CFreed \<Longrightarrow> free_field p = Done (if p = CNull then CNull else CFreed)"
  by (cases p) (auto simp: free_field_def c_free_def)

interpretation usv: vec_items sg_user_stats_vector_init_info user_ok
  by unfold_locales (auto simp: sg_user_stats_vector_init_info_def user_ok_def sg_user_stats_item_init_def
      sg_user_stats_item_destroy_def free_field_ok free_field_live Let_def)

section \<open>Fields\<close>

fun memb_ok :: "memb \<Rightarrow> bool" where
  "memb_ok (Arr b) \<longleftrightarrow> NUL \<in> set b \<and> length b < 2 ^ 64"
| "memb_ok (Ptr p) \<longleftrightarrow> cstr_ok p"

fun memb_str :: "memb \<Rightarrow> cstr" where
  "memb_str (Arr b) = CStr (strval b @ [NUL])"
| "memb_str (Ptr p) = cstr_copy p"

text \<open>A bound that the source does not reach makes no difference.\<close>

lemma lupdate_short:
  assumes "NUL \<in> set b" "length (strval b) \<le> k"
  shows "sg_lupdate_string p (CStr b) k e = sg_update_string p (CStr b) e"
proof -
  obtain r where b: "b = strval b @ NUL # r" using terminated_split [OF assms(1)] by blast
  have sn: "strnlen b k = Done (length (strval b))" using strnlen_eq [of "strval b" r k] b assms(2) by simp
  have sl: "strlen (CStr b) = Done (length (strval b))" using strlen_eq assms(1) by auto
  show ?thesis by (simp add: sg_lupdate_string_def sg_update_string_def sn sl src_bytes_def cong: cstr.case_cong)
qed

lemma lupdate_if_step:
  assumes "cstr_ok p" "memb_ok m"
  shows "\<exists>rc q e'. SG_LUPDATE_IF p m e = Done (rc, q, e') \<and> cstr_ok q \<and>
     (sched e = [] \<longrightarrow> rc = SG_ERROR_NONE \<and> e' = e) \<and>
     (if rc = SG_ERROR_NONE then q = memb_str m else error (err e') = rc)"
proof (cases m)
  case (Arr b)
  have u: "SG_LUPDATE_IF p m e = sg_update_string p (CStr b) e" "cstr_ok (CStr b)" "cstr_copy (CStr b) = memb_str m"
    using assms(2) Arr length_strval [of b] lupdate_short [of b "length b"] by (auto simp: cstr_copy_def)
  show ?thesis using sg_update_string_step [OF assms(1) u(2), of e] unfolding u(1,3)
    by (elim exE conjE) (intro exI conjI, auto split: if_splits)
next
  case (Ptr q)
  then have u: "cstr_ok q" "SG_LUPDATE_IF p m e = sg_update_string p q e" "cstr_copy q = memb_str m" using assms(2) by simp_all
  show ?thesis using sg_update_string_step [OF assms(1) u(1), of e] unfolding u(2,3)
    by (elim exE conjE) (intro exI conjI, auto split: if_splits)
qed

lemma update_mem_step:
  assumes "p \<noteq> CFreed" "b \<noteq> []" "length b < 2 ^ 64"
  shows "\<exists>rc q e'. sg_update_mem p (CStr b) (word_of_nat (length b)) e = Done (rc, q, e') \<and> q \<noteq> CFreed \<and>
     (sched e = [] \<longrightarrow> rc = SG_ERROR_NONE \<and> e' = e) \<and>
     (if rc = SG_ERROR_NONE then q = CStr b else error (err e') = rc)"
proof -
  have un: "unat (word_of_nat (length b) :: size_t) = length b" by (rule unat_of_nat_size [OF assms(3)])
  then have nz: "(word_of_nat (length b) :: size_t) \<noteq> 0" using assms(2) by (metis length_0_conv unat_0)
  obtain c e' where c: "sg_realloc_choice (word_of_nat (length b)) e = (c, e')" by fastforce
  have r: "sg_realloc p (word_of_nat (length b)) e =
      Done (if c = AFail then CNull else CStr (resize_bytes (junk_char e') (length b) (case p of CStr bs \<Rightarrow> bs | _ \<Rightarrow> [])), e')"
    using assms(1) nz un c by (simp add: sg_realloc_def)
  show ?thesis
  proof (cases "c = AFail")
    case True
    then have "error (err e') = SG_ERROR_MALLOC" "sched e \<noteq> []" using c sg_realloc_choice_fail by fastforce+
    with True r assms(1) show ?thesis by (simp add: sg_update_mem_def sg_get_error_def)
  next
    case False
    moreover have "sched e = [] \<longrightarrow> e' = e" using c sg_realloc_choice_ok by auto
    ultimately show ?thesis using r un by (simp add: sg_update_mem_def src_bytes_def resize_bytes_def)
  qed
qed

text \<open>What an update promises: it does \<open>g\<close> to the item, memory permitting.\<close>

definition field_step :: "(sg_user_stats \<Rightarrow> env \<Rightarrow> (sg_error \<times> sg_user_stats \<times> env) outcome) \<Rightarrow> (sg_user_stats \<Rightarrow> sg_user_stats) \<Rightarrow> bool" where
  "field_step f g \<longleftrightarrow> (\<forall>x e. user_ok x \<longrightarrow> (\<exists>rc y e'. f x e = Done (rc, y, e') \<and> user_ok y \<and>
     (sched e = [] \<longrightarrow> rc = SG_ERROR_NONE \<and> e' = e \<and> y = g x) \<and> (rc \<noteq> SG_ERROR_NONE \<longrightarrow> error (err e') = rc)))"

lemma put_field_step:
  assumes "\<And>x e. user_ok x \<Longrightarrow> \<exists>rc q e'. upd (get x) e = Done (rc, q, e') \<and> ok q \<and>
     (sched e = [] \<longrightarrow> rc = SG_ERROR_NONE \<and> e' = e) \<and> (if rc = SG_ERROR_NONE then q = val else error (err e') = rc)"
    and "\<And>x q. user_ok x \<Longrightarrow> ok q \<Longrightarrow> user_ok (put q x)"
  shows "field_step (put_field get put upd) (put val)"
  unfolding field_step_def
proof (intro allI impI)
  fix x e assume x: "user_ok x"
  obtain rc q e' where u: "upd (get x) e = Done (rc, q, e')" "ok q" "sched e = [] \<longrightarrow> rc = SG_ERROR_NONE \<and> e' = e"
     "if rc = SG_ERROR_NONE then q = val else error (err e') = rc"
    using assms(1) [OF x, of e] by (elim exE conjE)
  then show "\<exists>rc y e'. put_field get put upd x e = Done (rc, y, e') \<and> user_ok y \<and>
     (sched e = [] \<longrightarrow> rc = SG_ERROR_NONE \<and> e' = e \<and> y = put val x) \<and> (rc \<noteq> SG_ERROR_NONE \<longrightarrow> error (err e') = rc)"
    using assms(2) [OF x u(2)] by (auto simp: put_field_def sg_get_error_def)
qed

lemma put_fields_step:
  "list_all2 field_step fs gs \<Longrightarrow> field_step (put_fields fs) (fold (\<lambda>g. g) gs)"
proof (induction fs gs rule: list_all2_induct)
  case Nil
  then show ?case by (simp add: field_step_def)
next
  case (Cons f fs g gs)
  show ?case unfolding field_step_def
  proof (intro allI impI)
    fix x e assume "user_ok x"
    then obtain rc y e1 where f: "f x e = Done (rc, y, e1)" "user_ok y" "sched e = [] \<longrightarrow> rc = SG_ERROR_NONE \<and> e1 = e \<and> y = g x"
        "rc \<noteq> SG_ERROR_NONE \<longrightarrow> error (err e1) = rc"
      using Cons(1) unfolding field_step_def by blast
    obtain rc' z e' where "put_fields fs y e1 = Done (rc', z, e')" "user_ok z"
        "sched e1 = [] \<longrightarrow> rc' = SG_ERROR_NONE \<and> e' = e1 \<and> z = fold (\<lambda>g. g) gs y" "rc' \<noteq> SG_ERROR_NONE \<longrightarrow> error (err e') = rc'"
      using Cons(3) f(2) unfolding field_step_def by blast
    with f show "\<exists>rc y e'. put_fields (f # fs) x e = Done (rc, y, e') \<and> user_ok y \<and>
       (sched e = [] \<longrightarrow> rc = SG_ERROR_NONE \<and> e' = e \<and> y = fold (\<lambda>g. g) (g # gs) x) \<and> (rc \<noteq> SG_ERROR_NONE \<longrightarrow> error (err e') = rc)"
      by auto
  qed
qed

lemma put_login_step: "memb_ok m \<Longrightarrow> field_step (put_login m) (\<lambda>x. x\<lparr>login_name := memb_str m\<rparr>)"
  unfolding put_login_def by (rule put_field_step [where ok = cstr_ok]) (rule lupdate_if_step, auto simp: user_ok_def)

lemma put_device_step: "memb_ok m \<Longrightarrow> field_step (put_device m) (\<lambda>x. x\<lparr>device := memb_str m\<rparr>)"
  unfolding put_device_def by (rule put_field_step [where ok = cstr_ok]) (rule lupdate_if_step, auto simp: user_ok_def)

lemma put_hostname_step: "memb_ok m \<Longrightarrow> field_step (put_hostname m None) (\<lambda>x. x\<lparr>hostname := memb_str m\<rparr>)"
  unfolding put_hostname_def option.case by (rule put_field_step [where ok = cstr_ok]) (rule lupdate_if_step, auto simp: user_ok_def)

lemma put_record_id_step:
  "b \<noteq> [] \<Longrightarrow> length b < 2 ^ 64 \<Longrightarrow> field_step (put_record_id b) (\<lambda>x. x\<lparr>record_id := CStr b\<rparr>)"
  unfolding put_record_id_def
  by (rule put_field_step [where ok = "\<lambda>p. p \<noteq> CFreed"]) (rule update_mem_step, auto simp: user_ok_def)

lemmas field_steps = put_login_step put_device_step put_hostname_step put_record_id_step

section \<open>The readers meet the interfaces\<close>

definition utmpx_ok :: "utmpx \<Rightarrow> bool" where
  "utmpx_ok u \<longleftrightarrow> memb_ok (utx_user u) \<and> (\<exists>h. utx_host u = Some h \<and> memb_ok h) \<and> utx_syslen u = None \<and> memb_ok (utx_line u) \<and>
     utx_id u \<noteq> [] \<and> length (utx_id u) < 2 ^ 64"

definition user_of_utmpx :: "time_t \<Rightarrow> utmpx \<Rightarrow> sg_user_stats" where
  "user_of_utmpx now u =
     \<lparr>login_name = memb_str (utx_user u), record_id = CStr (utx_id u), record_id_size = word_of_nat (length (utx_id u)),
      device = memb_str (utx_line u), hostname = memb_str (the (utx_host u)), us_pid = utx_pid u, login_time = utx_sec u, us_systime = now\<rparr>"

definition utmp_ok :: "utmp \<Rightarrow> bool" where
  "utmp_ok u \<longleftrightarrow> (\<exists>nm h b p tm. ut_user u = Some nm \<and> memb_ok nm \<and> ut_host u = Some h \<and> memb_ok h \<and> memb_ok (ut_line u) \<and>
     ut_id u = Some b \<and> b \<noteq> [] \<and> length b < 2 ^ 64 \<and> ut_pid u = Some p \<and> ut_time u = Some tm)"

definition user_of_utmp :: "time_t \<Rightarrow> utmp \<Rightarrow> sg_user_stats" where
  "user_of_utmp now u =
     \<lparr>login_name = memb_str (the (ut_user u)), record_id = CStr (the (ut_id u)), record_id_size = word_of_nat (length (the (ut_id u))),
      device = memb_str (ut_line u), hostname = memb_str (the (ut_host u)), us_pid = the (ut_pid u), login_time = the (ut_time u), us_systime = now\<rparr>"

lemma fields_then:
  assumes "field_step f g" "user_ok x" "\<And>y. user_ok y \<Longrightarrow> user_ok (h y)"
  shows "\<exists>rc y e'. andthen (f x e) (\<lambda>(rc, x, e). if rc \<noteq> SG_ERROR_NONE then Done (rc, x, e) else Done (SG_ERROR_NONE, h x, e)) = Done (rc, y, e') \<and>
     user_ok y \<and> (sched e = [] \<longrightarrow> rc = SG_ERROR_NONE \<and> e' = e \<and> y = h (g x)) \<and> (rc \<noteq> SG_ERROR_NONE \<longrightarrow> error (err e') = rc)"
proof -
  obtain rc y e' where "f x e = Done (rc, y, e')" "user_ok y" "sched e = [] \<longrightarrow> rc = SG_ERROR_NONE \<and> e' = e \<and> y = g x"
     "rc \<noteq> SG_ERROR_NONE \<longrightarrow> error (err e') = rc"
    using assms(1,2) unfolding field_step_def by blast
  with assms(3) show ?thesis by (cases "rc = SG_ERROR_NONE") auto
qed

interpretation uxr: row_items sg_user_stats_vector_init_info user_ok "\<lambda>x. x" "put_utmpx now" utmpx_ok "user_of_utmpx now" for now
proof
  fix u x e assume u: "utmpx_ok u" and x: "user_ok x"
  then obtain h where h: "utx_host u = Some h" "memb_ok h" "utx_syslen u = None" by (auto simp: utmpx_ok_def)
  let ?gs = "[\<lambda>x. x\<lparr>login_name := memb_str (utx_user u)\<rparr>, \<lambda>x. x\<lparr>hostname := memb_str h\<rparr>, \<lambda>x. x\<lparr>device := memb_str (utx_line u)\<rparr>,
     \<lambda>x. x\<lparr>record_id := CStr (utx_id u)\<rparr>]"
  let ?h = "\<lambda>x. x\<lparr>record_id_size := word_of_nat (length (utx_id u)), us_pid := utx_pid u, login_time := utx_sec u, us_systime := now\<rparr>"
  have ok: "user_ok (?h y)" if "user_ok y" for y using that by (simp add: user_ok_def)
  have eq: "?h (fold (\<lambda>g. g) ?gs x) = user_of_utmpx now u" by (cases x) (simp add: user_of_utmpx_def h(1))
  have "list_all2 field_step ([put_login (utx_user u)] @ opt_field (\<lambda>m. put_hostname m (utx_syslen u)) (utx_host u) @
          [put_device (utx_line u), put_record_id (utx_id u)]) ?gs"
    using u h by (simp add: opt_field_def field_steps utmpx_ok_def)
  from fields_then [OF put_fields_step [OF this] x, where h = ?h, OF ok, of e]
  show "\<exists>rc y e'. put_utmpx now u x e = Done (rc, y, e') \<and> user_ok y \<and>
      (sched e = [] \<longrightarrow> rc = SG_ERROR_NONE \<and> e' = e \<and> y = user_of_utmpx now u) \<and> (rc \<noteq> SG_ERROR_NONE \<longrightarrow> error (err e') = rc)"
    unfolding eq put_utmpx_def by assumption
qed

interpretation uur: row_items sg_user_stats_vector_init_info user_ok "\<lambda>x. x" "put_utmp now" utmp_ok "user_of_utmp now" for now
proof
  fix u x e assume "utmp_ok u" and x: "user_ok x"
  then obtain nm h b p tm where u: "ut_user u = Some nm" "memb_ok nm" "ut_host u = Some h" "memb_ok h" "memb_ok (ut_line u)"
     "ut_id u = Some b" "b \<noteq> []" "length b < 2 ^ 64" "ut_pid u = Some p" "ut_time u = Some tm" by (auto simp: utmp_ok_def)
  let ?gs = "[\<lambda>x. x\<lparr>device := memb_str (ut_line u)\<rparr>, \<lambda>x. x\<lparr>login_name := memb_str nm\<rparr>, \<lambda>x. x\<lparr>hostname := memb_str h\<rparr>,
     \<lambda>x. x\<lparr>record_id := CStr b\<rparr>]"
  let ?h = "\<lambda>x. x\<lparr>record_id_size := word_of_nat (length b), us_pid := p, login_time := tm, us_systime := now\<rparr>"
  have ok: "user_ok (?h y)" if "user_ok y" for y using that by (simp add: user_ok_def)
  have eq: "?h (fold (\<lambda>g. g) ?gs x) = user_of_utmp now u" by (cases x) (simp add: user_of_utmp_def u)
  have "list_all2 field_step ([put_device (ut_line u)] @ opt_field put_login (ut_user u) @
          opt_field (\<lambda>m. put_hostname m None) (ut_host u) @ opt_field put_record_id (ut_id u)) ?gs"
    using u by (simp add: opt_field_def field_steps)
  from fields_then [OF put_fields_step [OF this] x, where h = ?h, OF ok, of e]
  show "\<exists>rc y e'. put_utmp now u x e = Done (rc, y, e') \<and> user_ok y \<and>
      (sched e = [] \<longrightarrow> rc = SG_ERROR_NONE \<and> e' = e \<and> y = user_of_utmp now u) \<and> (rc \<noteq> SG_ERROR_NONE \<longrightarrow> error (err e') = rc)"
    unfolding eq put_utmp_def u opt_set_def option.case Let_def by assumption
qed

text \<open>The users that the records show.\<close>

definition users_shown :: "utmpx list \<Rightarrow> utmp list \<Rightarrow> time_t \<Rightarrow> sg_user_stats list" where
  "users_shown xs us now =
     (let users = filter (\<lambda>u. utx_type u = USER_PROCESS) xs
      in if users \<noteq> [] then map (user_of_utmpx now) users else map (user_of_utmp now) (filter utmp_wanted us))"

definition users_feasible :: "utmpx list \<Rightarrow> utmp list \<Rightarrow> bool" where
  "users_feasible xs us \<longleftrightarrow> list_all utmpx_ok xs \<and> list_all utmp_ok us \<and>
     room sg_user_stats_vector_init_info (length xs + length us + 2 ^ 33)"

interpretation usm: multi_source sg_user_stats_vector_init_info user_ok "\<lambda>x. x" "user_utmp (Some xs) (Some us) now"
    "Some (users_shown xs us now)" "users_feasible xs us" True for xs us now
proof
  let ?ty = sg_user_stats_vector_init_info and ?xs = "filter (\<lambda>u. utx_type u = USER_PROCESS) xs" and ?us = "filter utmp_wanted us"
  show "room ?ty (16 + 2 ^ 32)" by (simp add: room_def sg_user_stats_vector_init_info_def)
  fix w v assume f: "users_feasible xs us" and w: "heap_ok w" "vec_at ?ty user_ok v [] w"
  have "length ?xs \<le> length xs" "length ?us \<le> length us" by simp_all
  then have rm: "room ?ty (length ?xs + 2 ^ 33)" "room ?ty (length ?us + 2 ^ 33)"
    using f room_mono unfolding users_feasible_def by (meson add_le_mono le_add1 le_add2 le_trans order_refl)+
  have ok: "list_all utmpx_ok ?xs" "list_all utmp_ok ?us" using f by (auto simp: users_feasible_def list_all_iff)
  show "\<exists>rc v' w'. user_utmp (Some xs) (Some us) now v w = Done (rc, v', w') \<and> heap_ok w' \<and> replaced v v' w w' \<and>
       (v' \<noteq> 0 \<longrightarrow> (\<exists>ys. vec_at ?ty user_ok v' ys w' \<and> (roomy ?ty v w \<longrightarrow> roomy ?ty v' w') \<and>
          (rc = SG_ERROR_NONE \<longrightarrow> (\<exists>vs. Some (users_shown xs us now) = Some vs \<and> length ys = length vs)) \<and>
          (rc = SG_ERROR_NONE \<and> sched (wenv w) = [] \<longrightarrow> Some (users_shown xs us now) = Some (map (\<lambda>x. x) ys)))) \<and>
       (sched (wenv w) = [] \<longrightarrow> (rc = SG_ERROR_NONE \<longleftrightarrow> Some (users_shown xs us now) \<noteq> None) \<and> sched (wenv w') = []) \<and>
       (if rc = SG_ERROR_NONE then v' \<noteq> 0 else error (err (wenv w')) = rc)"
  proof (cases "?xs = []")
    case True
    then have "user_utmp (Some xs) (Some us) now v w = fill_rows ?ty (put_utmp now) ?us 0 v w"
       "users_shown xs us now = map (user_of_utmp now) ?us"
      by (simp_all add: user_utmp_def users_shown_def)
    then show ?thesis using uur.rows_law [OF rm(2) ok(2) w, of now] by (simp only:)
  next
    case False
    then have "user_utmp (Some xs) (Some us) now v w = fill_rows ?ty (put_utmpx now) ?xs 0 v w"
       "users_shown xs us now = map (user_of_utmpx now) ?xs"
      by (cases "fill_rows ?ty (put_utmpx now) ?xs 0 v w"; auto simp: user_utmp_def users_shown_def Let_def)+
    then show ?thesis using uxr.rows_law [OF rm(1) ok(1) w, of now] by (simp only:)
  qed
qed

section \<open>Properties\<close>

text \<open>C31: \<^verbatim>\<open>sg_get_user_stats\<close> over \<^verbatim>\<open>utmpx\<close> and \<^verbatim>\<open>utmp\<close>, memory sufficing and the members of the records being terminated: the
  thread's snapshot has one item for every record of a user process in \<^verbatim>\<open>utmpx\<close>, in order, with name, host, line,
  id, process and time of the record; when \<^verbatim>\<open>utmpx\<close> has none, the users are those of \<^verbatim>\<open>utmp\<close>.\<close>

theorem sg_get_user_stats_correct:
  assumes "heap_ok w" "sched (wenv w) = []" "users_feasible xs us"
    and "g SG_USER_STATS_NOW_IDX = 0 \<or> vec_at sg_user_stats_vector_init_info user_ok (g SG_USER_STATS_NOW_IDX) ys w"
  shows "\<exists>p n g' w' items. sg_get_user_stats (user_utmp (Some xs) (Some us) now) (Some g) w = Done ((p, n), Some g', w') \<and> heap_ok w' \<and>
     p = g' SG_USER_STATS_NOW_IDX \<and> p \<noteq> 0 \<and> error (err (wenv w')) = SG_ERROR_NONE \<and>
     vec_at sg_user_stats_vector_init_info user_ok p items w' \<and> unat n = length items \<and>
     items = (let users = filter (\<lambda>u. utx_type u = USER_PROCESS) xs
              in if users \<noteq> [] then map (user_of_utmpx now) users else map (user_of_utmp now) (filter utmp_wanted us))"
proof -
  have mem: "True \<or> sched (wenv w) = []" by simp
  show ?thesis
    using usm.access_ok [where g = g and idx = SG_USER_STATS_NOW_IDX and now = now, OF assms(3,1,4) mem] assms(2)
    unfolding sg_get_user_stats_def users_shown_def [symmetric] by (elim exE conjE) (auto split: if_splits)
qed

definition example_utmpx :: "utmpx list" where
  "example_utmpx =
     [\<lparr>utx_type = 2, utx_user = Arr (''reboot'' @ [NUL, NUL]), utx_host = Some (Arr [NUL]), utx_syslen = None, utx_line = Arr (''~'' @ [NUL]),
       utx_id = ''~~'', utx_pid = 0, utx_sec = 5\<rparr>,
      \<lparr>utx_type = 7, utx_user = Arr (''ann'' @ [NUL, NUL]), utx_host = Some (Arr (''h'' @ [NUL])), utx_syslen = None, utx_line = Arr (''tty1'' @ [NUL]),
       utx_id = ''tty1'', utx_pid = 77, utx_sec = 9\<rparr>]"

lemma example_users_feasible: "users_feasible example_utmpx []"
  by (simp add: users_feasible_def example_utmpx_def utmpx_ok_def room_def sg_user_stats_vector_init_info_def)

definition no_user :: sg_user_stats where
  "no_user = \<lparr>login_name = CNull, record_id = CNull, record_id_size = 0, device = CNull, hostname = CNull, us_pid = 0, login_time = 0, us_systime = 0\<rparr>"

lemma sg_get_user_stats_correct_witness:
  "\<exists>p n g' w'. sg_get_user_stats (user_utmp (Some example_utmpx) (Some []) 11) (Some (\<lambda>i. 0)) (world_of [] no_user) = Done ((p, n), Some g', w') \<and>
     vec_at sg_user_stats_vector_init_info user_ok p
       [\<lparr>login_name = CStr (''ann'' @ [NUL]), record_id = CStr ''tty1'', record_id_size = 4, device = CStr (''tty1'' @ [NUL]),
         hostname = CStr (''h'' @ [NUL]), us_pid = 77, login_time = 9, us_systime = 11\<rparr>] w' \<and> unat n = 1"
proof -
  have sc: "sched (wenv (world_of [] no_user)) = []" by (simp add: world_of_def fresh_env_def)
  show ?thesis
    using sg_get_user_stats_correct [OF world_of_ok sc example_users_feasible, of "\<lambda>i. 0" "[]" 11]
    by (auto simp: example_utmpx_def USER_PROCESS_def user_of_utmpx_def strval_def)
qed

text \<open>A free lock is free again once it has been taken and released.\<close>

lemma lock_unlock:
  assumes "locks_ok (required_locks s)" "locks_free (required_locks s)" "nm \<in> mx_name ` set (required_locks s)" "nm \<noteq> ''statgrab''"
  shows "\<exists>s'. sg_lock_mutex ct t nm s = Done (SG_ERROR_NONE, s') \<and> sg_unlock_mutex ct t nm s' = Done (SG_ERROR_NONE, s)"
proof -
  let ?ls = "required_locks s"
  obtain i where b: "bsearch strcmp nm (map mx_name ?ls) = Some i"
    using assms(1,3) bsearch_names_iff by (fastforce simp: locks_ok_def)
  then have i: "i < length ?ls" "mx_name (?ls ! i) = nm" using names.bsearch_Some [of nm "map mx_name ?ls" i] by auto
  then have m: "mx (?ls ! i) = Mx MX_RECURSIVE None" using assms(2,4) by (auto simp: locks_free_def)
  have same: "(?ls ! i)\<lparr>mx := Mx MX_RECURSIVE None\<rparr> = ?ls ! i" using m by (cases "?ls ! i") simp
  let ?s = "set_lock i (Mx MX_RECURSIVE (Some (t, 1))) s"
  have "map mx_name (required_locks ?s) = map mx_name ?ls"
    using i by (intro nth_equalityI) (auto simp: set_lock_def nth_list_update)
  moreover have "set_lock i (Mx MX_RECURSIVE None) ?s = s"
    using i same by (simp add: set_lock_def)
  ultimately show ?thesis
    using b i m by (simp add: sg_lock_mutex_def sg_unlock_mutex_def pthread_mutex_lock_def pthread_mutex_unlock_def)
      (simp add: set_lock_def)
qed

text \<open>A row loop that releases the lock on its error returns does what the plain one does: when it ends
  regularly the lock is still held, otherwise it is released.\<close>

lemma users_rows_fill:
  assumes "fill_rows sg_user_stats_vector_init_info put rs n v w = Done (rc, v', w')" "rc = SG_ERROR_NONE \<longrightarrow> v' \<noteq> 0"
    and un: "sg_unlock_mutex ct t ''utmp'' s1 = Done (SG_ERROR_NONE, s)"
  shows "users_rows ct t put rs n v w s1 =
     Done (if rc = SG_ERROR_NONE then ((Inr (), v', w'), s1) else ((Inl rc, v', w'), s))"
  using assms(1,2)
proof (induction rs arbitrary: n v w)
  case (Cons r rs)
  let ?ty = sg_user_stats_vector_init_info
  obtain res v1 w1 where u: "VECTOR_UPDATE v (word_of_nat n + 1) ?ty w = Done (res, v1, w1)"
    using Cons.prems(1) by (cases "VECTOR_UPDATE v (word_of_nat n + 1) ?ty w") auto
  show ?case
  proof (cases res)
    case (Inl rc')
    then have "v1 = 0" using u
      by (cases "VECTOR_CREATE_OR_RESIZE v (word_of_nat n + 1) ?ty w")
        (auto simp: VECTOR_UPDATE_def c_assert_def split: if_splits outcome.splits elim!: andthen.elims)
    with Cons.prems u Inl un show ?thesis by (auto simp: user_unlock_def)
  next
    case (Inr z)
    obtain x where x: "read_item v1 n w1 = Done x"
      using Cons.prems(1) u Inr by (cases "read_item v1 n w1") auto
    obtain rc' y e where y: "put r x (wenv w1) = Done (rc', y, e)"
      using Cons.prems(1) u Inr x by (cases "put r x (wenv w1)") auto
    obtain w2 where w2: "write_item v1 n y (set_env e w1) = Done w2"
      using Cons.prems(1) u Inr x y by (cases "write_item v1 n y (set_env e w1)") auto
    show ?thesis
    proof (cases "rc' = SG_ERROR_NONE")
      case True
      then have "fill_rows ?ty put rs (Suc n) v1 w2 = Done (rc, v', w')" using Cons.prems(1) u Inr x y w2 by simp
      from Cons.IH [OF this Cons.prems(2)] True u Inr x y w2 show ?thesis by simp
    next
      case False
      with Cons.prems u Inr x y w2 un show ?thesis by (auto simp: user_unlock_def)
    qed
  qed
qed simp

lemma user_locked_result:
  assumes "user_utmp (Some xs) (Some us) now v w = Done (rc, v', w')" "rc = SG_ERROR_NONE \<longrightarrow> v' \<noteq> 0"
    and "sg_lock_mutex ct t ''utmp'' s = Done (SG_ERROR_NONE, s1)" "sg_unlock_mutex ct t ''utmp'' s1 = Done (SG_ERROR_NONE, s)"
  shows "user_locked ct t (Some xs) (Some us) now v w s = Done ((rc, v', w'), s)"
proof -
  let ?ty = sg_user_stats_vector_init_info and ?xs = "filter (\<lambda>u. utx_type u = USER_PROCESS) xs"
  show ?thesis
  proof (cases "?xs = []")
    case True
    then have "fill_rows ?ty (put_utmp now) (filter utmp_wanted us) 0 v w = Done (rc, v', w')"
      using assms(1) by (simp add: user_utmp_def)
    from users_rows_fill [OF this assms(2,4)] True assms(3,4) show ?thesis
      by (auto simp: user_locked_def user_unlock_def)
  next
    case False
    then have "fill_rows ?ty (put_utmpx now) ?xs 0 v w = Done (rc, v', w')"
      using assms(1) by (cases "fill_rows ?ty (put_utmpx now) ?xs 0 v w") (auto simp: user_utmp_def Let_def)
    from users_rows_fill [OF this assms(2,4)] False assms(3,4) show ?thesis
      by (auto simp: user_locked_def user_unlock_def Let_def)
  qed
qed

text \<open>C32: In a build with threads and \<^verbatim>\<open>utmpx\<close>, the reader of the users takes the lock \<^verbatim>\<open>utmp\<close> and releases it on every
  path, the two error returns of each row loop included: whatever the allocator does, over records with
  terminated members and starting from a cleared vector and free, known locks, it returns with the locks as
  before, its code, vector and memory are those of the reader without locking, an error it returns is the
  one recorded, and the vector that was given is the only one that changes.\<close>

theorem user_locked_releases:
  assumes "heap_ok w" "vec_at sg_user_stats_vector_init_info user_ok v [] w" "users_feasible xs us"
    and "locks_ok (required_locks s)" "locks_free (required_locks s)" "''utmp'' \<in> mx_name ` set (required_locks s)"
  shows "\<exists>rc v' w'. user_locked ct t (Some xs) (Some us) now v w s = Done ((rc, v', w'), s) \<and>
     user_utmp (Some xs) (Some us) now v w = Done (rc, v', w') \<and> heap_ok w' \<and> replaced v v' w w' \<and>
     (if rc = SG_ERROR_NONE then v' \<noteq> 0 else error (err (wenv w')) = rc)"
proof -
  obtain s' where l: "sg_lock_mutex ct t ''utmp'' s = Done (SG_ERROR_NONE, s')" "sg_unlock_mutex ct t ''utmp'' s' = Done (SG_ERROR_NONE, s)"
    using lock_unlock [OF assms(4-6)] by auto
  obtain rc v' w' where r: "user_utmp (Some xs) (Some us) now v w = Done (rc, v', w')" "heap_ok w'" "replaced v v' w w'"
     "if rc = SG_ERROR_NONE then v' \<noteq> 0 else error (err (wenv w')) = rc"
    using usm.fill_law [where now = now, OF assms(3,1,2) disjI1 [OF TrueI]] by (elim exE conjE)
  with user_locked_result [OF r(1) _ l] show ?thesis by auto
qed

definition empty_users :: "sg_user_stats vblock" where
  "empty_users = (let b = block_of sg_user_stats_vector_init_info [no_user] in b\<lparr>hdr := (hdr b)\<lparr>used_count := 0\<rparr>\<rparr>)"

lemma empty_users_ok: "vec_ok sg_user_stats_vector_init_info user_ok empty_users" "contents empty_users = []"
proof -
  have "vec_ok sg_user_stats_vector_init_info user_ok (block_of sg_user_stats_vector_init_info [no_user])"
    by (rule block_of_ok) (simp_all add: no_user_def user_ok_def room_def sg_user_stats_vector_init_info_def)
  then show "vec_ok sg_user_stats_vector_init_info user_ok empty_users" "contents empty_users = []"
    by (simp_all add: empty_users_def Let_def vec_ok_def contents_def)
qed

lemma user_locked_releases_witness:
  "\<exists>rc v' w'. user_locked (comp_info False True) 3 (Some example_utmpx) (Some []) 11 1 (world_of [empty_users] no_user)
       ((start_state [])\<lparr>required_locks := [\<lparr>mx_name = ''utmp'', mx = Mx MX_RECURSIVE None\<rparr>]\<rparr>) =
     Done ((rc, v', w'), (start_state [])\<lparr>required_locks := [\<lparr>mx_name = ''utmp'', mx = Mx MX_RECURSIVE None\<rparr>]\<rparr>)"
proof -
  let ?w = "world_of [empty_users] no_user" and ?s = "(start_state [])\<lparr>required_locks := [\<lparr>mx_name = ''utmp'', mx = Mx MX_RECURSIVE None\<rparr>]\<rparr>"
  have v: "vec_at sg_user_stats_vector_init_info user_ok 1 [] ?w" using empty_users_ok by (simp add: vec_at_def vload_world_of)
  have s: "locks_ok (required_locks ?s)" "locks_free (required_locks ?s)" "''utmp'' \<in> mx_name ` set (required_locks ?s)"
    by (simp_all add: locks_ok_single locks_free_def)
  show ?thesis using user_locked_releases [OF world_of_ok v example_users_feasible s, of "comp_info False True" 3 11] by blast
qed

end
