(* ===== verification/Statgrab.thy ===== *)
theory Statgrab
  imports Network_Ifaces User_Stats Host Cpu_Props Swap Load_Page Fs_Select Process_Lines
begin

text \<open>
  The program \<^verbatim>\<open>statgrab\<close> (\<^verbatim>\<open>src/src/statgrab/statgrab.c\<close>): the list of named statistics it builds from what the library
  returns, the selection of sections, the search for the names asked for, printing, the list of file systems and
  the main loop. What the calls of the library return in one round are the \<open>readings\<close>.
\<close>

section \<open>State\<close>

datatype stat_type =
    STAT_TYPE_LONG_LONG | STAT_TYPE_UNSIGNED_LONG_LONG | STAT_TYPE_BYTES | STAT_TYPE_TIME_T | STAT_TYPE_FLOAT | STAT_TYPE_DOUBLE
  | STAT_TYPE_STRING | STAT_TYPE_INT | STAT_TYPE_UNSIGNED | STAT_TYPE_BOOL | STAT_TYPE_DUPLEX

datatype display_mode_type = DISPLAY_LINUX | DISPLAY_BSD | DISPLAY_GRAPHITE | DISPLAY_MRTG | DISPLAY_PLAIN

datatype repeat_mode_type = REPEAT_NONE | REPEAT_ONCE | REPEAT_FOREVER

text \<open>The memory that \<^verbatim>\<open>stat\<close> points to, at the type it was written at. A double is a number or none (not a number).\<close>

datatype stat_val =
    At_ull ull | At_time time_t | At_double "real option" | At_string cstr | At_size size_t | At_int u32 | At_unsigned u32
  | At_updown sg_iface_updown | At_duplex sg_iface_duplex

record stat_item =
  item_name :: string
  item_type :: stat_type
  item_stat :: stat_val

text \<open>What the program does to the outside: it writes, and it sleeps.\<close>

datatype out = Stdout string | Stderr string | Sleep int

text \<open>The variables of the program; \<open>stat_items\<close> are the first \<^verbatim>\<open>num_stats\<close> entries of the array, which is NULL while \<^verbatim>\<open>alloc_stats\<close> is 0.\<close>

record statgrab =
  stat_items :: "stat_item list"
  alloc_stats :: nat
  display_mode :: display_mode_type
  repeat_mode :: repeat_mode_type
  repeat_time :: int
  use_cpu_percent :: bool
  use_diffs :: bool
  float_scale_factor :: int
  bytes_scale_factor :: nat
  graphite_prefix :: "string option"
  graphite_ts :: time_t
  fslist :: "string option"
  sg_env :: env
  outs :: "out list"

definition start_statgrab :: "env \<Rightarrow> statgrab" where
  "start_statgrab e =
     \<lparr>stat_items = [], alloc_stats = 0, display_mode = DISPLAY_LINUX, repeat_mode = REPEAT_NONE, repeat_time = 1, use_cpu_percent = False,
      use_diffs = False, float_scale_factor = 0, bytes_scale_factor = 0, graphite_prefix = None, graphite_ts = 0, fslist = None,
      sg_env = e, outs = []\<rparr>"

text \<open>A program part returns, or ends the program with a status and what was written until then.\<close>

datatype 'a prun = Running 'a | Exited int "out list"

fun pthen :: "'a prun outcome \<Rightarrow> ('a \<Rightarrow> 'b prun outcome) \<Rightarrow> 'b prun outcome" where
  "pthen (Done (Running x)) f = f x"
| "pthen (Done (Exited c os)) f = Done (Exited c os)"
| "pthen (Fault f) g = Fault f"

definition put :: "out \<Rightarrow> statgrab \<Rightarrow> statgrab" where
  "put x p = p\<lparr>outs := outs p @ [x]\<rparr>"

abbreviation NL :: string where "NL \<equiv> [CHR 0x0A]"

definition die :: "string \<Rightarrow> statgrab \<Rightarrow> 'a prun outcome" where
  "die s p = Done (Exited 1 (outs (put (Stderr (''fatal: '' @ s @ NL)) p)))"

text \<open>The number of an error code in the enumeration.\<close>

definition error_number :: "sg_error \<Rightarrow> int" where
  "error_number c = (case c of SG_ERROR_unlisted n \<Rightarrow> int n | _ \<Rightarrow> int (length (takeWhile (\<lambda>d. d \<noteq> c) sg_error_all)))"

definition sg_die :: "(int \<Rightarrow> string option) \<Rightarrow> string \<Rightarrow> int \<Rightarrow> statgrab \<Rightarrow> 'a prun outcome" where
  "sg_die strerror prefix exit_code p =
     (let panic = (\<lambda>what errc. ''panic: '' @ what @ '' ('' @ int_string (error_number errc) @ '', '' @ sg_str_error errc @ '')'' @ NL);
          (errc, det, e) = sg_get_error_details False (Some (err (sg_env p))) (sg_env p);
          msg = (if errc \<noteq> SG_ERROR_NONE then panic ''can't get error details'' errc
                 else case sg_strperror strerror (Some None) det e of
                   (None, _, e) \<Rightarrow> panic ''can't prepare error message'' (sg_get_error (Some (err e)))
                 | (Some m, _, e) \<Rightarrow> prefix @ '': '' @ m @ NL)
      in Done (Exited exit_code (outs (put (Stderr msg) p))))"

section \<open>Adding a statistic\<close>

text \<open>A C string read to its end.\<close>

definition c_str :: "cstr \<Rightarrow> string outcome" where
  "c_str s = andthen (src_bytes s) (\<lambda>bs. andthen (scan_nul bs 0) (\<lambda>k. Done (take (k - 1) bs)))"

abbreviation lit :: "string \<Rightarrow> cstr" where "lit s \<equiv> CStr (s @ [NUL])"

text \<open>The parts of a name: a NULL among them ends the list as the last argument does.\<close>

fun name_parts :: "cstr list \<Rightarrow> string list outcome" where
  "name_parts [] = Done []"
| "name_parts (s # ss) =
     (if s = CNull then Done [] else andthen (c_str s) (\<lambda>t. andthen (name_parts ss) (\<lambda>ts. Done (t # ts))))"

definition underscored :: "string \<Rightarrow> string" where
  "underscored s = map (\<lambda>c. if c = CHR '' '' \<or> c = CHR ''.'' then CHR ''_'' else c) s"

definition joined :: "string list \<Rightarrow> string" where
  "joined ts = butlast (concat (map (\<lambda>t. underscored t @ ''.'') ts))"

definition INCREMENT_STATS :: nat where "INCREMENT_STATS = 64"

definition skipped :: "display_mode_type \<Rightarrow> stat_type \<Rightarrow> bool" where
  "skipped mode ty \<longleftrightarrow> mode = DISPLAY_GRAPHITE \<and> ty \<in> {STAT_TYPE_BOOL, STAT_TYPE_STRING, STAT_TYPE_DUPLEX}"

definition store_stat :: "stat_item \<Rightarrow> statgrab \<Rightarrow> statgrab prun outcome" where
  "store_stat it p =
     (if length (stat_items p) < alloc_stats p then Done (Running (p\<lparr>stat_items := stat_items p @ [it]\<rparr>))
      else Fault (OutOfBounds 0 (length (stat_items p))))"

definition add_stat :: "stat_type \<Rightarrow> stat_val \<Rightarrow> cstr list \<Rightarrow> statgrab \<Rightarrow> statgrab prun outcome" where
  "add_stat ty st parts p =
     (if skipped (display_mode p) ty then Done (Running p)
      else
        andthen (name_parts parts) (\<lambda>ts.
          case next_choice (sg_env p) of (c, e) \<Rightarrow>
            let p = p\<lparr>sg_env := e\<rparr> in
            if c = AFail then die ''out of memory'' p
            else if ts = [] then Fault (OutOfBounds 0 0)
            else
              let it = \<lparr>item_name = joined ts, item_type = ty, item_stat = st\<rparr> in
              if alloc_stats p \<le> length (stat_items p) then
                (case next_choice (sg_env p) of (c, e) \<Rightarrow>
                   let p = p\<lparr>sg_env := e, alloc_stats := alloc_stats p + INCREMENT_STATS\<rparr> in
                   if c = AFail then die ''out of memory'' p else store_stat it p)
              else store_stat it p))"

text \<open>Several calls in a row.\<close>

type_synonym stat_call = "stat_type \<times> stat_val \<times> cstr list"

fun add_stats :: "stat_call list \<Rightarrow> statgrab \<Rightarrow> statgrab prun outcome" where
  "add_stats [] p = Done (Running p)"
| "add_stats ((ty, st, parts) # cs) p = pthen (add_stat ty st parts p) (add_stats cs)"

definition clear_stats :: "statgrab \<Rightarrow> statgrab" where
  "clear_stats p = p\<lparr>stat_items := []\<rparr>"

section \<open>The sections\<close>

record readings =
  r_cpu_stats :: "sg_cpu_stats option"
  r_cpu_stats_diff :: "sg_cpu_stats option"
  r_cpu_percents :: "bool \<Rightarrow> sg_cpu_percents option" \<comment> \<open>of the last difference, or entire\<close>
  r_mem :: "sg_mem_stats option"
  r_load :: "sg_load_stats option"
  r_users :: "sg_user_stats list option"
  r_swap :: "sg_swap_stats option"
  r_host :: "sg_host_info option"
  r_fs :: "sg_fs_stats list option"
  r_disk :: "sg_disk_io_stats list option"
  r_disk_diff :: "sg_disk_io_stats list option"
  r_proc :: "sg_process_count option"
  r_proc_error :: "string option" \<comment> \<open>the message of the failure, if it can be had\<close>
  r_net :: "sg_network_io_stats list option"
  r_net_diff :: "sg_network_io_stats list option"
  r_iface :: "sg_network_iface_stats list option"
  r_page :: "sg_page_stats option"
  r_page_diff :: "sg_page_stats option"
  r_time :: time_t

type_synonym populate = "readings \<Rightarrow> statgrab \<Rightarrow> statgrab prun outcome"

definition populate_const :: populate where
  "populate_const r = add_stats [(STAT_TYPE_INT, At_int 0, [lit ''const'', lit ''0''])]"

text \<open>The fields of one kind of a reading, with the names of their statistics.\<close>

definition calls :: "stat_type \<Rightarrow> cstr list \<Rightarrow> (stat_val \<times> string) list \<Rightarrow> stat_call list" where
  "calls ty pre fs = map (\<lambda>(v, nm). (ty, v, pre @ [lit nm])) fs"

definition percent_calls :: "sg_cpu_percents \<Rightarrow> stat_call list" where
  "percent_calls c =
     calls STAT_TYPE_DOUBLE [lit ''cpu'']
       [(At_double (pc_user c), ''user''), (At_double (pc_kernel c), ''kernel''), (At_double (pc_idle c), ''idle''),
        (At_double (pc_iowait c), ''iowait''), (At_double (pc_swap c), ''swap''), (At_double (pc_nice c), ''nice'')] @
     calls STAT_TYPE_TIME_T [lit ''cpu''] [(At_time (time_taken c), ''time_taken'')]"

definition cpu_calls :: "sg_cpu_stats \<Rightarrow> stat_call list" where
  "cpu_calls c =
     calls STAT_TYPE_UNSIGNED_LONG_LONG [lit ''cpu'']
       [(At_ull (cpu_user c), ''user''), (At_ull (cpu_kernel c), ''kernel''), (At_ull (cpu_idle c), ''idle''),
        (At_ull (cpu_iowait c), ''iowait''), (At_ull (cpu_swap c), ''swap''), (At_ull (cpu_nice c), ''nice''),
        (At_ull (cpu_total c), ''total'')] @
     calls STAT_TYPE_TIME_T [lit ''cpu''] [(At_time (cpu_systime c), ''systime'')]"

definition switch_calls :: "sg_cpu_stats \<Rightarrow> stat_call list" where
  "switch_calls c =
     calls STAT_TYPE_UNSIGNED_LONG_LONG [lit ''cpu'']
       [(At_ull (sg_cpu_stats.context_switches c), ''ctxsw''), (At_ull (sg_cpu_stats.voluntary_context_switches c), ''vctxsw''),
        (At_ull (sg_cpu_stats.involuntary_context_switches c), ''nvctxsw''), (At_ull (syscalls c), ''syscalls''),
        (At_ull (interrupts c), ''intrs''), (At_ull (soft_interrupts c), ''softintrs'')]"

definition opt_calls :: "('a \<Rightarrow> stat_call list) \<Rightarrow> 'a option \<Rightarrow> stat_call list" where
  "opt_calls f x = (case x of None \<Rightarrow> [] | Some y \<Rightarrow> f y)"

definition populate_cpu :: populate where
  "populate_cpu r p =
     (let cpu_s = (if use_diffs p then r_cpu_stats_diff r else r_cpu_stats r) in
      pthen (add_stats (if use_cpu_percent p then opt_calls percent_calls (r_cpu_percents r (use_diffs p)) else opt_calls cpu_calls cpu_s) p)
        (add_stats (opt_calls switch_calls cpu_s)))"

definition mem_calls :: "sg_mem_stats \<Rightarrow> stat_call list" where
  "mem_calls m =
     calls STAT_TYPE_BYTES [lit ''mem'']
       [(At_ull (mem_total m), ''total''), (At_ull (mem_free m), ''free''), (At_ull (mem_used m), ''used''), (At_ull (mem_cache m), ''cache'')]"

definition populate_mem :: populate where
  "populate_mem r = add_stats (opt_calls mem_calls (r_mem r))"

definition load_calls :: "sg_load_stats \<Rightarrow> stat_call list" where
  "load_calls l =
     calls STAT_TYPE_DOUBLE [lit ''load'']
       [(At_double (Some (min1 l)), ''min1''), (At_double (Some (min5 l)), ''min5''), (At_double (Some (min15 l)), ''min15'')]"

definition populate_load :: populate where
  "populate_load r = add_stats (opt_calls load_calls (r_load r))"

definition user_calls :: "sg_user_stats \<Rightarrow> stat_call list" where
  "user_calls u =
     (let pre = [lit ''user'', sg_user_stats.device u] in
      calls STAT_TYPE_STRING pre
        [(At_string (login_name u), ''login_name''), (At_string (sg_user_stats.device u), ''tty''),
         (At_string (sg_user_stats.hostname u), ''from'')] @
      calls STAT_TYPE_TIME_T pre [(At_time (login_time u), ''login_time'')])"

fun user_loop :: "sg_user_stats list \<Rightarrow> statgrab \<Rightarrow> statgrab prun outcome" where
  "user_loop [] p = Done (Running p)"
| "user_loop (u # us) p = andthen (c_str (login_name u)) (\<lambda>_. pthen (add_stats (user_calls u) p) (user_loop us))"

text \<open>The names, each followed by a blank; the last blank becomes the end of the string.\<close>

fun user_names :: "sg_user_stats list \<Rightarrow> string outcome" where
  "user_names [] = Done []"
| "user_names (u # us) = andthen (c_str (login_name u)) (\<lambda>s. andthen (user_names us) (\<lambda>t. Done (s @ '' '' @ t)))"

definition name_list :: "sg_user_stats list \<Rightarrow> statgrab \<Rightarrow> (cstr \<times> statgrab) prun outcome" where
  "name_list us p =
     (case next_choice (sg_env p) of (c, e) \<Rightarrow>
        if c = AFail then Fault NullDeref
        else andthen (user_names us) (\<lambda>s. Done (Running (lit (if us \<noteq> [] then butlast s else s), p\<lparr>sg_env := e\<rparr>))))"

definition populate_user :: populate where
  "populate_user r p =
     (case r_users r of
        None \<Rightarrow> Done (Running p)
      | Some us \<Rightarrow>
          pthen (user_loop us p) (\<lambda>p.
          pthen (name_list us p) (\<lambda>(names, p).
            add_stats [(STAT_TYPE_INT, At_size (word_of_nat (length us)), [lit ''user'', lit ''num'']),
                       (STAT_TYPE_STRING, At_string names, [lit ''user'', lit ''names''])] p)))"

definition swap_calls :: "sg_swap_stats \<Rightarrow> stat_call list" where
  "swap_calls s =
     calls STAT_TYPE_BYTES [lit ''swap''] [(At_ull (swap_total s), ''total''), (At_ull (swap_used s), ''used''), (At_ull (swap_free s), ''free'')]"

definition populate_swap :: populate where
  "populate_swap r = add_stats (opt_calls swap_calls (r_swap r))"

text \<open>The library's five states are all in the table, so that the text for an unexpected state is not needed.\<close>

definition host_states :: "sg_host_state \<Rightarrow> string" where
  "host_states s =
     (case s of
        sg_unknown_configuration \<Rightarrow> ''unknown''
      | sg_physical_host \<Rightarrow> ''physical host''
      | sg_virtual_machine \<Rightarrow> ''virtual machine (full virtualized)''
      | sg_paravirtual_machine \<Rightarrow> ''virtual machine (paravirtualized)''
      | sg_hardware_virtualized \<Rightarrow> ''hardware virtualization'')"

definition general_calls :: "sg_host_info \<Rightarrow> stat_call list" where
  "general_calls h =
     calls STAT_TYPE_STRING [lit ''general'']
       [(At_string (os_name h), ''os_name''), (At_string (os_release h), ''os_release''), (At_string (os_version h), ''os_version''),
        (At_string (host_platform h), ''platform''), (At_string (sg_host_info.hostname h), ''hostname'')] @
     calls STAT_TYPE_UNSIGNED [lit ''general'']
       [(At_unsigned (ncpus h), ''ncpus''), (At_unsigned (maxcpus h), ''ncpus_cfg''), (At_unsigned (bitwidth h), ''bitwidth'')] @
     calls STAT_TYPE_STRING [lit ''general''] [(At_string (lit (host_states (host_state h))), ''hoststate'')] @
     calls STAT_TYPE_TIME_T [lit ''general''] [(At_time (uptime h), ''uptime'')]"

definition populate_general :: populate where
  "populate_general r = add_stats (opt_calls general_calls (r_host r))"

text \<open>The name of a file system: its device without \<^verbatim>\<open>/dev/\<close>, without the colon of a drive letter, and with no slash.\<close>

definition fs_stat_name :: "string \<Rightarrow> string" where
  "fs_stat_name dev =
     (let nm = (if dev = ''/'' then ''root'' else dev);
          nm = (if length nm = 2 \<and> nm ! 1 = CHR '':'' then take 1 nm else nm);
          nm = (if has_prefix ''/dev/'' nm then drop 5 nm else nm)
      in map (\<lambda>c. if c = CHR ''/'' then CHR ''_'' else c) nm)"

definition fs_calls :: "string \<Rightarrow> sg_fs_stats \<Rightarrow> stat_call list" where
  "fs_calls nm d =
     (let pre = [lit ''fs'', lit nm] in
      calls STAT_TYPE_STRING pre
        [(At_string (device_name d), ''device_name''), (At_string (device_canonical d), ''device_canonical''),
         (At_string (fs_type d), ''fs_type''), (At_string (mnt_point d), ''mnt_point'')] @
      calls STAT_TYPE_BYTES pre [(At_ull (fs_size d), ''size''), (At_ull (fs_used d), ''used''), (At_ull (fs_avail d), ''avail'')] @
      calls STAT_TYPE_UNSIGNED_LONG_LONG pre
        [(At_ull (total_inodes d), ''total_inodes''), (At_ull (used_inodes d), ''used_inodes''), (At_ull (free_inodes d), ''free_inodes''),
         (At_ull (avail_inodes d), ''avail_inodes'')] @
      calls STAT_TYPE_BYTES pre [(At_ull (io_size d), ''io_size''), (At_ull (block_size d), ''block_size'')] @
      calls STAT_TYPE_UNSIGNED_LONG_LONG pre
        [(At_ull (total_blocks d), ''total_blocks''), (At_ull (free_blocks d), ''free_blocks''), (At_ull (avail_blocks d), ''avail_blocks''),
         (At_ull (used_blocks d), ''used_blocks'')])"

fun fs_loop :: "sg_fs_stats list \<Rightarrow> statgrab \<Rightarrow> statgrab prun outcome" where
  "fs_loop [] p = Done (Running p)"
| "fs_loop (d # ds) p =
     andthen (c_str (device_name d)) (\<lambda>dev.
       case next_choice (sg_env p) of (c, e) \<Rightarrow>
         let p = p\<lparr>sg_env := e\<rparr> in
         if c = AFail then die ''out of memory'' p else pthen (add_stats (fs_calls (fs_stat_name dev) d) p) (fs_loop ds))"

definition populate_fs :: populate where
  "populate_fs r p = (case r_fs r of None \<Rightarrow> Done (Running p) | Some ds \<Rightarrow> fs_loop ds p)"

definition disk_calls :: "sg_disk_io_stats \<Rightarrow> stat_call list" where
  "disk_calls d =
     (let pre = [lit ''disk'', disk_name d] in
      calls STAT_TYPE_STRING pre [(At_string (disk_name d), ''disk_name'')] @
      calls STAT_TYPE_BYTES pre [(At_ull (read_bytes d), ''read_bytes''), (At_ull (write_bytes d), ''write_bytes'')] @
      calls STAT_TYPE_TIME_T pre [(At_time (dio_systime d), ''systime'')])"

definition populate_disk :: populate where
  "populate_disk r p =
     add_stats (opt_calls (\<lambda>ds. concat (map disk_calls ds)) (if use_diffs p then r_disk_diff r else r_disk r)) p"

definition proc_calls :: "sg_process_count \<Rightarrow> stat_call list" where
  "proc_calls c =
     calls STAT_TYPE_UNSIGNED_LONG_LONG [lit ''proc'']
       [(At_ull (pc_total c), ''total''), (At_ull (running c), ''running''), (At_ull (sleeping c), ''sleeping''),
        (At_ull (stopped c), ''stopped''), (At_ull (zombie c), ''zombie'')]"

definition populate_proc :: populate where
  "populate_proc r p =
     (case r_proc r of
        Some c \<Rightarrow> add_stats (proc_calls c) p
      | None \<Rightarrow> (case r_proc_error r of None \<Rightarrow> Done (Running p) | Some m \<Rightarrow> Done (Running (put (Stderr (m @ NL)) p))))"

definition net_calls :: "sg_network_io_stats \<Rightarrow> stat_call list" where
  "net_calls n =
     (let pre = [lit ''net'', interface_name n] in
      calls STAT_TYPE_STRING pre [(At_string (interface_name n), ''interface_name'')] @
      calls STAT_TYPE_BYTES pre [(At_ull (tx n), ''tx''), (At_ull (rx n), ''rx'')] @
      calls STAT_TYPE_UNSIGNED_LONG_LONG pre
        [(At_ull (ipackets n), ''ipackets''), (At_ull (opackets n), ''opackets''), (At_ull (ierrors n), ''ierrors''),
         (At_ull (oerrors n), ''oerrors''), (At_ull (collisions n), ''collisions'')] @
      calls STAT_TYPE_TIME_T pre [(At_time (nio_systime n), ''systime'')])"

text \<open>Whether an interface has its name from the traffic already.\<close>

fun had_io :: "cstr \<Rightarrow> sg_network_io_stats list \<Rightarrow> bool outcome" where
  "had_io nm [] = Done False"
| "had_io nm (n # ns) =
     andthen (c_str (interface_name n)) (\<lambda>a. andthen (c_str nm) (\<lambda>b. if strcmp a b = 0 then Done True else had_io nm ns))"

definition iface_calls :: "bool \<Rightarrow> sg_network_iface_stats \<Rightarrow> stat_call list" where
  "iface_calls had i =
     (let pre = [lit ''net'', iface_name i] in
      (if had then [] else calls STAT_TYPE_STRING pre [(At_string (iface_name i), ''interface_name'')]) @
      calls STAT_TYPE_UNSIGNED_LONG_LONG pre [(At_ull (speed i), ''speed'')] @
      calls STAT_TYPE_BOOL pre [(At_updown (up i), ''up'')] @
      calls STAT_TYPE_DUPLEX pre [(At_duplex (duplex i), ''duplex'')])"

fun iface_loop :: "sg_network_io_stats list \<Rightarrow> sg_network_iface_stats list \<Rightarrow> statgrab \<Rightarrow> statgrab prun outcome" where
  "iface_loop io [] p = Done (Running p)"
| "iface_loop io (i # is) p =
     andthen (had_io (iface_name i) io) (\<lambda>had. pthen (add_stats (iface_calls had i) p) (iface_loop io is))"

definition populate_net :: populate where
  "populate_net r p =
     (let io = (if use_diffs p then r_net_diff r else r_net r) in
      pthen (add_stats (opt_calls (\<lambda>ns. concat (map net_calls ns)) io) p) (\<lambda>p.
        case r_iface r of None \<Rightarrow> Done (Running p) | Some is \<Rightarrow> iface_loop (case io of None \<Rightarrow> [] | Some ns \<Rightarrow> ns) is p))"

definition page_calls :: "sg_page_stats \<Rightarrow> stat_call list" where
  "page_calls g =
     calls STAT_TYPE_UNSIGNED_LONG_LONG [lit ''page''] [(At_ull (pages_pagein g), ''in''), (At_ull (pages_pageout g), ''out'')] @
     calls STAT_TYPE_TIME_T [lit ''page''] [(At_time (page_systime g), ''systime'')]"

definition populate_page :: populate where
  "populate_page r p = add_stats (opt_calls page_calls (if use_diffs p then r_page_diff r else r_page r)) p"

section \<open>Selection and order\<close>

type_synonym toplevel = "string \<times> populate \<times> bool"

definition toplevels :: "toplevel list" where
  "toplevels =
     [(''const.'', populate_const, False), (''cpu.'', populate_cpu, False), (''mem.'', populate_mem, False), (''load.'', populate_load, False),
      (''user.'', populate_user, False), (''swap.'', populate_swap, False), (''general.'', populate_general, False), (''fs.'', populate_fs, False),
      (''disk.'', populate_disk, False), (''proc.'', populate_proc, False), (''net.'', populate_net, False), (''page.'', populate_page, False)]"

fun mark :: "string \<Rightarrow> toplevel list \<Rightarrow> toplevel list" where
  "mark a [] = []"
| "mark a ((nm, f, b) # ts) = (if has_prefix nm a then (nm, f, True) # ts else (nm, f, b) # mark a ts)"

definition select_interesting :: "string list \<Rightarrow> toplevel list \<Rightarrow> toplevel list" where
  "select_interesting args ts =
     (if args = [] then map (\<lambda>(nm, f, _). (nm, f, True)) ts else foldl (\<lambda>ts a. mark a ts) ts args)"

fun populate_all :: "toplevel list \<Rightarrow> populate" where
  "populate_all [] r p = Done (Running p)"
| "populate_all ((nm, f, b) # ts) r p = (if b then pthen (f r p) (populate_all ts r) else populate_all ts r p)"

definition sort_stats :: "statgrab \<Rightarrow> statgrab" where
  "sort_stats p = (if alloc_stats p = 0 then p else p\<lparr>stat_items := qsort strcmp item_name (stat_items p)\<rparr>)"

definition get_stats :: "toplevel list \<Rightarrow> populate" where
  "get_stats ts r p =
     pthen (populate_all ts r (clear_stats p)) (\<lambda>p.
       let p = sort_stats p in
       Done (Running (if display_mode p = DISPLAY_GRAPHITE then p\<lparr>graphite_ts := r_time r\<rparr> else p)))"

section \<open>Printing\<close>

text \<open>\<^verbatim>\<open>%f\<close>: six digits behind the point, the nearest number, a tie going to the even one.\<close>

definition round_even :: "real \<Rightarrow> nat" where
  "round_even x = (let n = nat \<lfloor>x\<rfloor>; d = x - real n in if d < 1 / 2 \<or> d = 1 / 2 \<and> even n then n else Suc n)"

definition fmt_f :: "real \<Rightarrow> string" where
  "fmt_f x =
     (let n = round_even (\<bar>x\<bar> * 1000000); frac = dec_string (n mod 1000000)
      in (if x < 0 then ''-'' else []) @ dec_string (n div 1000000) @ ''.'' @ replicate (6 - length frac) CHR ''0'' @ frac)"

text \<open>\<^verbatim>\<open>(long)x\<close>: towards zero; a number that does not fit is undefined.\<close>

definition to_long :: "real \<Rightarrow> int outcome" where
  "to_long x =
     (let n = (if x < 0 then \<lceil>x\<rceil> else \<lfloor>x\<rfloor>) in if - (2 ^ 63) \<le> n \<and> n < 2 ^ 63 then Done n else Fault SignedOverflow)"

definition scale_bytes :: "nat \<Rightarrow> ull \<Rightarrow> ull outcome" where
  "scale_bytes k v =
     (if k = 0 then Done v else if 64 < k then Fault (ShiftTooWide (k - 1)) else Done (drop_bit 1 (drop_bit (k - 1) v + 1)))"

text \<open>The number of users is a \<^verbatim>\<open>size_t\<close> that is read as an \<^verbatim>\<open>int\<close>: its low half, where the low bytes come first.\<close>

definition print_stat_value :: "statgrab \<Rightarrow> stat_item \<Rightarrow> string outcome" where
  "print_stat_value p s =
     (case (item_type s, item_stat s) of
        (STAT_TYPE_LONG_LONG, At_ull v) \<Rightarrow> Done (int_string (sint v))
      | (STAT_TYPE_UNSIGNED_LONG_LONG, At_ull v) \<Rightarrow> Done (dec_string (unat v))
      | (STAT_TYPE_BYTES, At_ull v) \<Rightarrow> andthen (scale_bytes (bytes_scale_factor p) v) (\<lambda>v. Done (dec_string (unat v)))
      | (STAT_TYPE_TIME_T, At_time v) \<Rightarrow> Done (int_string (sint v))
      | (STAT_TYPE_DOUBLE, At_double x) \<Rightarrow>
          if float_scale_factor p \<noteq> 0 then
            (case x of None \<Rightarrow> Fault SignedOverflow
             | Some x \<Rightarrow> andthen (to_long (of_int (float_scale_factor p) * x)) (\<lambda>n. Done (int_string n)))
          else Done (case x of None \<Rightarrow> ''nan'' | Some x \<Rightarrow> fmt_f x)
      | (STAT_TYPE_STRING, At_string s) \<Rightarrow> c_str s
      | (STAT_TYPE_INT, At_int v) \<Rightarrow> Done (int_string (sint v))
      | (STAT_TYPE_INT, At_size v) \<Rightarrow> Done (int_string (sint (ucast v :: u32)))
      | (STAT_TYPE_UNSIGNED, At_unsigned v) \<Rightarrow> Done (dec_string (unat v))
      | (STAT_TYPE_BOOL, At_updown u) \<Rightarrow> Done (if u = SG_IFACE_UP then ''true'' else ''false'')
      | (STAT_TYPE_DUPLEX, At_duplex d) \<Rightarrow>
          Done (if d = SG_IFACE_DUPLEX_FULL then ''full'' else if d = SG_IFACE_DUPLEX_HALF then ''half'' else ''unknown'')
      | _ \<Rightarrow> Fault WrongType)"

definition print_head :: "statgrab \<Rightarrow> string \<Rightarrow> string" where
  "print_head p nm =
     (case display_mode p of
        DISPLAY_LINUX \<Rightarrow> nm @ '' = ''
      | DISPLAY_BSD \<Rightarrow> nm @ '': ''
      | DISPLAY_GRAPHITE \<Rightarrow> (case graphite_prefix p of None \<Rightarrow> nm @ '' '' | Some pre \<Rightarrow> pre @ ''.'' @ nm @ '' '')
      | DISPLAY_MRTG \<Rightarrow> []
      | DISPLAY_PLAIN \<Rightarrow> [])"

definition print_stat :: "stat_item \<Rightarrow> statgrab \<Rightarrow> statgrab outcome" where
  "print_stat s p =
     andthen (print_stat_value p s) (\<lambda>v.
       Done (put (Stdout (print_head p (item_name s) @ v @
         (if display_mode p = DISPLAY_GRAPHITE then '' '' @ int_string (sint (graphite_ts p)) else []) @ NL)) p))"

fun print_items :: "stat_item list \<Rightarrow> statgrab \<Rightarrow> statgrab outcome" where
  "print_items [] p = Done p"
| "print_items (s # ss) p = andthen (print_stat s p) (print_items ss)"

text \<open>\<^verbatim>\<open>strncmp(key, item, strlen(key))\<close>\<close>

definition stats_compare :: "string \<Rightarrow> string \<Rightarrow> int" where
  "stats_compare key nm = strcmp key nm"

definition stats_compare_prefix :: "string \<Rightarrow> string \<Rightarrow> int" where
  "stats_compare_prefix key nm = strcmp key (take (length key) nm)"

text \<open>From the place the search found: down to the first entry that compares equal, then up to the last.\<close>

fun range_start :: "(string \<Rightarrow> int) \<Rightarrow> string list \<Rightarrow> nat \<Rightarrow> nat" where
  "range_start cmp nms 0 = (if cmp (nms ! 0) \<noteq> 0 then 1 else 0)"
| "range_start cmp nms (Suc i) = (if cmp (nms ! Suc i) \<noteq> 0 then Suc (Suc i) else range_start cmp nms i)"

definition stats_range :: "(string \<Rightarrow> int) \<Rightarrow> nat \<Rightarrow> stat_item list \<Rightarrow> stat_item list" where
  "stats_range cmp i its =
     takeWhile (\<lambda>it. cmp (item_name it) = 0) (drop (range_start cmp (map item_name its) i) its)"

definition print_named :: "string \<Rightarrow> statgrab \<Rightarrow> statgrab outcome" where
  "print_named nm p =
     (if nm = [] then Fault (OutOfBounds 0 0)
      else
        (let compare = (if last nm = CHR ''.'' then stats_compare_prefix else stats_compare) in
         case (if alloc_stats p = 0 then None else bsearch compare nm (map item_name (stat_items p))) of
           None \<Rightarrow> Done (put (Stderr (''Unknown stat '' @ nm @ NL)) p)
         | Some i \<Rightarrow> print_items (stats_range (compare nm) i (stat_items p)) p))"

fun print_names :: "string list \<Rightarrow> statgrab \<Rightarrow> statgrab outcome" where
  "print_names [] p = Done p"
| "print_names (nm # nms) p = andthen (print_named nm p) (print_names nms)"

definition print_stats :: "string list \<Rightarrow> statgrab \<Rightarrow> statgrab outcome" where
  "print_stats args p = (if args = [] then print_items (stat_items p) p else print_names args p)"

section \<open>The list of file systems\<close>

text \<open>An array of strings with the number of entries it has room for.\<close>

record stack =
  cells :: "string option list"
  cap :: nat

definition STACK_UNIT :: nat where "STACK_UNIT = 4"

definition push_item :: "stack \<Rightarrow> string option \<Rightarrow> nat \<Rightarrow> statgrab \<Rightarrow> (stack \<times> statgrab) prun outcome" where
  "push_item st item items p =
     (let stack_size = items; desired = items div STACK_UNIT * STACK_UNIT; items = items + 1;
          wr = (\<lambda>st p. if stack_size < cap st \<and> stack_size \<le> length (cells st)
                 then Done (Running (st\<lparr>cells := take stack_size (cells st) @ [item] @ drop (Suc stack_size) (cells st)\<rparr>, p))
                 else Fault (OutOfBounds 0 stack_size))
      in if desired < items then
           (let desired = (items div STACK_UNIT + 1) * STACK_UNIT in
            if stack_size \<le> desired then
              (case next_choice (sg_env p) of (c, e) \<Rightarrow>
                 let p = p\<lparr>sg_env := e\<rparr> in if c = AFail then die ''Out of memory'' p else wr (st\<lparr>cap := desired\<rparr>) p)
            else wr st p)
         else wr st p)"

definition strndup :: "string \<Rightarrow> nat \<Rightarrow> env \<Rightarrow> string option \<times> env" where
  "strndup s n e = (case next_choice e of (c, e) \<Rightarrow> (if c = AFail then None else Some (take n s), e))"

definition separator :: "char \<Rightarrow> bool" where
  "separator c \<longleftrightarrow> is_space c \<or> c = CHR '',''"

function split_loop :: "string \<Rightarrow> stack \<Rightarrow> nat \<Rightarrow> statgrab \<Rightarrow> (stack \<times> nat \<times> statgrab) prun outcome" where
  "split_loop l st items p =
     (if l = [] then Done (Running (st, items, p))
      else
        (let n = length (takeWhile (\<lambda>c. \<not> separator c) l); (s, e) = strndup l n (sg_env p) in
         pthen (push_item st s items (p\<lparr>sg_env := e\<rparr>)) (\<lambda>(st, p).
           split_loop (dropWhile separator (dropWhile (\<lambda>c. \<not> separator c) l)) st (Suc items) p)))"
  by pat_completeness auto
termination
proof (relation "measure (\<lambda>(l, st, items, p). length l)", goal_cases)
  case (2 l)
  then have "length (dropWhile separator (dropWhile (\<lambda>c. \<not> separator c) l)) < length l"
    using le_less_trans [OF length_dropWhile_le [of separator "dropWhile (\<lambda>c. \<not> separator c) l"]] length_dropWhile_le [of separator "tl l"]
      length_dropWhile_le [of "\<lambda>c. \<not> separator c" "tl l"]
    by (cases l; cases "separator (hd l)") (auto simp: le_imp_less_Suc intro: le_less_trans [OF length_dropWhile_le])
  then show ?case by simp
qed simp

declare split_loop.simps [simp del]

definition split_list :: "string \<Rightarrow> statgrab \<Rightarrow> (stack \<times> statgrab) prun outcome" where
  "split_list l p =
     pthen (split_loop l \<lparr>cells = [], cap = 0\<rparr> 0 p) (\<lambda>(st, items, p). push_item st None items p)"

text \<open>\<^verbatim>\<open>fsnmcmp\<close> puts NULL last, as the library's own comparison does.\<close>

fun fsnmcmp :: "string option \<Rightarrow> string option \<Rightarrow> int" where
  "fsnmcmp (Some a) (Some b) = strcasecmp a b"
| "fsnmcmp (Some a) None = - 1"
| "fsnmcmp None (Some b) = 1"
| "fsnmcmp None None = 0"

text \<open>The entries before the first NULL.\<close>

fun until_null :: "string option list \<Rightarrow> string list outcome" where
  "until_null [] = Fault (OutOfBounds 0 0)"
| "until_null (None # xs) = Done []"
| "until_null (Some s # xs) = andthen (until_null xs) (\<lambda>ss. Done (s # ss))"

text \<open>The loop over the old list: what is not among the names given is kept.\<close>

fun keep_loop :: "string list \<Rightarrow> string list \<Rightarrow> stack \<Rightarrow> nat \<Rightarrow> statgrab \<Rightarrow> (stack \<times> nat \<times> statgrab) prun outcome" where
  "keep_loop given [] st n p = Done (Running (st, n, p))"
| "keep_loop given (old # olds) st n p =
     (if bsearch fsnmcmp (Some old) (map Some given) = None then
        pthen (push_item st (Some old) n p) (\<lambda>(st, p). keep_loop given olds st (Suc n) p)
      else keep_loop given olds st n p)"

definition set_valid_filesystems :: "(int \<Rightarrow> string option) \<Rightarrow> string \<Rightarrow> fs_table \<Rightarrow> statgrab \<Rightarrow> (fs_table \<times> statgrab) prun outcome" where
  "set_valid_filesystems strerror l t p =
     (let l = dropWhile is_space l;
          finish = (\<lambda>st p. andthen (until_null (cells st)) (\<lambda>names.
            andthen (sg_set_valid_filesystems (Some names) t (sg_env p)) (\<lambda>(rc, t, e).
              let p = p\<lparr>sg_env := e\<rparr> in
              if rc \<noteq> SG_ERROR_NONE then sg_die strerror ''sg_set_valid_filesystems() failed'' 1 p else Done (Running (t, p)))))
      in if l \<noteq> [] \<and> hd l = CHR ''!'' then
           (case fst (sg_get_valid_filesystems t) of
              None \<Rightarrow> sg_die strerror ''sg_get_valid_filesystems()'' 1 p
            | Some arr \<Rightarrow>
                pthen (split_list (dropWhile is_space (tl l)) p) (\<lambda>(st, p).
                andthen (until_null (cells st)) (\<lambda>given.
                andthen (until_null (map cstr_val arr)) (\<lambda>old.
                pthen (keep_loop (qsort fsnmcmp Some given) old \<lparr>cells = [], cap = 0\<rparr> 0 p) (\<lambda>(st, n, p).
                pthen (push_item st None n p) (\<lambda>(st, p). finish st p))))))
         else pthen (split_list l p) (\<lambda>(st, p). finish st p))"

section \<open>The main program\<close>

text \<open>\<^verbatim>\<open>atol\<close> and \<^verbatim>\<open>atoi\<close>; a number that does not fit is undefined.\<close>

definition atol :: "string \<Rightarrow> int outcome" where
  "atol s =
     (let s = dropWhile is_space s; neg = (s \<noteq> [] \<and> hd s = CHR ''-'');
          s = (if s \<noteq> [] \<and> hd s \<in> {CHR ''-'', CHR ''+''} then tl s else s)
      in andthen (atoll_digits 0 s) (\<lambda>v. Done (if neg then - v else v)))"

definition atoi :: "string \<Rightarrow> int outcome" where
  "atoi s = andthen (atol s) (\<lambda>v. if - (2 ^ 31) \<le> v \<and> v < 2 ^ 31 then Done v else Fault SignedOverflow)"

definition usage_text :: "string list" where
  "usage_text =
     [''Usage: statgrab [OPTION]... [STAT]...'', ''Display system statistics.'', '''',
      ''If no STATs are given, all will be displayed. Specify 'STAT.' to display all'', ''statistics starting with that prefix.'', '''',
      ''  -l         Linux sysctl-style output (default)'', ''  -b         BSD sysctl-style output'', ''  -m         MRTG-compatible output'',
      ''  -r         Graphite-compatible output'', ''  -R PREFIX  Graphite-compatible output with STATs prefixed by 'PREFIX.'' @ [CHR 0x27],
      ''  -u         Plain output (only show values)'', ''  -n         Display cumulative stats once (default)'',
      ''  -s         Display stat differences repeatedly'', ''  -o         Display stat differences once'',
      ''  -t DELAY   When repeating, wait DELAY seconds between updates (default 1)'',
      ''  -p         Display CPU usage differences as percentages rather than'', ''             absolute values'',
      ''  -f FACTOR  Display floating-point values as integers scaled by FACTOR'', ''  -F fs-list List of file systems (!) to show'',
      ''  -K         Display byte counts in kibibytes'', ''  -M         Display byte counts in mebibytes'',
      ''  -G         Display byte counts in gibibytes'', '''']"

definition usage :: "string \<Rightarrow> string \<Rightarrow> statgrab \<Rightarrow> 'a prun outcome" where
  "usage ver bugreport p =
     Done (Exited 1 (outs (put (Stdout (concat (map (\<lambda>l. l @ NL) usage_text) @
       ''Version '' @ ver @ '' - report bugs to <'' @ bugreport @ ''>.'' @ NL)) p)))"

text \<open>One option with its argument, as \<^verbatim>\<open>getopt\<close> delivers it.\<close>

definition option_step :: "string \<Rightarrow> string \<Rightarrow> char \<times> string \<Rightarrow> statgrab \<Rightarrow> statgrab prun outcome" where
  "option_step ver bugreport o_arg p =
     (case o_arg of (c, optarg) \<Rightarrow>
        if c = CHR ''l'' then Done (Running (p\<lparr>display_mode := DISPLAY_LINUX\<rparr>))
        else if c = CHR ''b'' then Done (Running (p\<lparr>display_mode := DISPLAY_BSD\<rparr>))
        else if c = CHR ''m'' then Done (Running (p\<lparr>display_mode := DISPLAY_MRTG\<rparr>))
        else if c = CHR ''r'' then Done (Running (p\<lparr>display_mode := DISPLAY_GRAPHITE\<rparr>))
        else if c = CHR ''R'' then Done (Running (p\<lparr>display_mode := DISPLAY_GRAPHITE, graphite_prefix := Some optarg\<rparr>))
        else if c = CHR ''u'' then Done (Running (p\<lparr>display_mode := DISPLAY_PLAIN\<rparr>))
        else if c = CHR ''n'' then Done (Running (p\<lparr>repeat_mode := REPEAT_NONE\<rparr>))
        else if c = CHR ''s'' then Done (Running (p\<lparr>repeat_mode := REPEAT_FOREVER\<rparr>))
        else if c = CHR ''o'' then Done (Running (p\<lparr>repeat_mode := REPEAT_ONCE\<rparr>))
        else if c = CHR ''t'' then andthen (atoi optarg) (\<lambda>n. Done (Running (p\<lparr>repeat_time := n\<rparr>)))
        else if c = CHR ''p'' then Done (Running (p\<lparr>use_cpu_percent := True\<rparr>))
        else if c = CHR ''f'' then andthen (atol optarg) (\<lambda>n. Done (Running (p\<lparr>float_scale_factor := n\<rparr>)))
        else if c = CHR ''F'' then
          (case next_choice (sg_env p) of (ch, e) \<Rightarrow> Done (Running (p\<lparr>sg_env := e, fslist := (if ch = AFail then None else Some optarg)\<rparr>)))
        else if c = CHR ''K'' then Done (Running (p\<lparr>bytes_scale_factor := 10\<rparr>))
        else if c = CHR ''M'' then Done (Running (p\<lparr>bytes_scale_factor := 20\<rparr>))
        else if c = CHR ''G'' then Done (Running (p\<lparr>bytes_scale_factor := 30\<rparr>))
        else usage ver bugreport p)"

fun option_loop :: "string \<Rightarrow> string \<Rightarrow> (char \<times> string) list \<Rightarrow> statgrab \<Rightarrow> statgrab prun outcome" where
  "option_loop ver bugreport [] p = Done (Running p)"
| "option_loop ver bugreport (x # xs) p = pthen (option_step ver bugreport x p) (option_loop ver bugreport xs)"

text \<open>
  What surrounds the program: the build, the options and operands \<^verbatim>\<open>getopt\<close> finds, the message when \<^verbatim>\<open>setvbuf\<close> fails, the system calls of
  \<^verbatim>\<open>sg_drop_privileges\<close>, the table of file system types after \<^verbatim>\<open>sg_init\<close>, and what the library returns in each round.
\<close>

record setting =
  package_version :: string
  package_bugreport :: string
  options :: "(char \<times> string) list"
  operands :: "string list"
  setvbuf_error :: "string option"
  strerror :: "int \<Rightarrow> string option"
  call_setegid :: "nat \<Rightarrow> creds \<Rightarrow> bool \<times> creds"
  call_seteuid :: "nat \<Rightarrow> creds \<Rightarrow> bool \<times> creds"
  credentials :: creds
  fs_types_at_start :: fs_table
  readings_at :: "nat \<Rightarrow> readings"

definition running_on :: "statgrab outcome \<Rightarrow> statgrab prun outcome" where
  "running_on m = andthen m (\<lambda>p. Done (Running p))"

text \<open>One round, and \<open>n\<close> rounds of the loop that has no end.\<close>

definition report :: "toplevel list \<Rightarrow> string list \<Rightarrow> populate" where
  "report ts args r p = pthen (get_stats ts r p) (\<lambda>p. running_on (print_stats args p))"

fun forever :: "toplevel list \<Rightarrow> string list \<Rightarrow> (nat \<Rightarrow> readings) \<Rightarrow> nat \<Rightarrow> nat \<Rightarrow> statgrab \<Rightarrow> statgrab prun outcome" where
  "forever ts args rd 0 k p = Done (Running p)"
| "forever ts args rd (Suc n) k p =
     pthen (report ts args (rd k) p) (\<lambda>p. forever ts args rd n (Suc k) (put (Sleep (repeat_time p)) (put (Stdout NL) p)))"

definition repeat_switch :: "toplevel list \<Rightarrow> string list \<Rightarrow> (nat \<Rightarrow> readings) \<Rightarrow> nat \<Rightarrow> statgrab \<Rightarrow> statgrab prun outcome" where
  "repeat_switch ts args rd rounds p =
     (case repeat_mode p of
        REPEAT_NONE \<Rightarrow> report ts args (rd 0) p
      | REPEAT_ONCE \<Rightarrow> pthen (get_stats ts (rd 0) p) (\<lambda>p. report ts args (rd 1) (put (Sleep (repeat_time p)) p))
      | REPEAT_FOREVER \<Rightarrow> forever ts args rd rounds 0 p)"

definition default_fslist :: string where
  "default_fslist = ''!nfs, nfs3, nfs4, cifs, smbfs, samba, autofs''"

text \<open>\<^verbatim>\<open>main\<close>: with \<^verbatim>\<open>-s\<close> the result is the state after \<open>rounds\<close> rounds, otherwise the end of the program.\<close>

definition statgrab_main :: "setting \<Rightarrow> nat \<Rightarrow> env \<Rightarrow> statgrab prun outcome" where
  "statgrab_main s rounds e =
     (let p = start_statgrab e; args = operands s in
      case setvbuf_error s of
        Some m \<Rightarrow> die m p
      | None \<Rightarrow>
          pthen (option_loop (package_version s) (package_bugreport s) (options s) p) (\<lambda>p.
            if display_mode p = DISPLAY_MRTG \<and> length args \<noteq> 2 then die ''mrtg mode: must specify exactly two stats'' p
            else if display_mode p = DISPLAY_MRTG \<and> repeat_mode p = REPEAT_FOREVER then die ''mrtg mode: cannot repeat display'' p
            else
              let p = p\<lparr>use_diffs := (repeat_mode p \<noteq> REPEAT_NONE)\<rparr>;
                  ts = select_interesting args toplevels
              in case sg_drop_privileges (call_setegid s) (call_seteuid s) (credentials s) (sg_env p) of (rc, _, e) \<Rightarrow>
                let p = p\<lparr>sg_env := e\<rparr> in
                if rc \<noteq> SG_ERROR_NONE then die ''Failed to drop setuid/setgid privileges'' p
                else
                  pthen (set_valid_filesystems (strerror s) (case fslist p of None \<Rightarrow> default_fslist | Some l \<Rightarrow> l) (fs_types_at_start s) p) (\<lambda>(_, p).
                  pthen (repeat_switch ts args (readings_at s) rounds p) (\<lambda>p.
                    if repeat_mode p = REPEAT_FOREVER then Done (Running p)
                    else Done (Exited 0 (outs (if display_mode p = DISPLAY_MRTG then put (Stdout (''statgrab'' @ NL)) (put (Stdout NL) p) else p)))))))"

end
