(* ===== verification/Statgrab_Props.thy ===== *)
theory Statgrab_Props
  imports Statgrab
begin

text \<open>
  What \<^verbatim>\<open>statgrab\<close> prints: the search for a name among the sorted statistics finds exactly those asked for, the sections that are left
  out would not have contributed, and the program goes on reporting for ever when it is told to.
\<close>

section \<open>The search for a key that matches a range\<close>

text \<open>The comparison with the key is positive up to \<open>a\<close>, zero from \<open>a\<close> to \<open>b\<close> and negative behind.\<close>

definition falls_at :: "('k \<Rightarrow> int) \<Rightarrow> 'k list \<Rightarrow> nat \<Rightarrow> nat \<Rightarrow> bool" where
  "falls_at c xs a b \<longleftrightarrow> a \<le> b \<and> b \<le> length xs \<and> (\<forall>i < length xs. (0 < c (xs ! i) \<longleftrightarrow> i < a) \<and> (c (xs ! i) < 0 \<longleftrightarrow> b \<le> i))"

lemma bsearch_from_range:
  assumes "falls_at (cmp key) xs a b" "hi \<le> length xs" "lo \<le> a" "b \<le> hi"
  shows "case bsearch_from cmp key xs lo hi of None \<Rightarrow> a = b | Some i \<Rightarrow> a \<le> i \<and> i < b"
  using assms
proof (induction cmp key xs lo hi rule: bsearch_from.induct)
  case (1 cmp key xs lo hi)
  let ?mid = "(lo + hi) div 2"
  show ?case
  proof (cases "hi \<le> lo")
    case True
    then show ?thesis using "1.prems" by (simp add: bsearch_from.simps [of cmp key xs lo hi] falls_at_def)
  next
    case False
    then have m: "lo \<le> ?mid" "?mid < hi" by auto
    have sg: "0 < cmp key (xs ! ?mid) \<longleftrightarrow> ?mid < a" "cmp key (xs ! ?mid) < 0 \<longleftrightarrow> b \<le> ?mid"
      using "1.prems"(1,2) m(2) unfolding falls_at_def by auto
    consider "b \<le> ?mid" | "?mid < a" | "a \<le> ?mid" "?mid < b" by linarith
    then show ?thesis
    proof cases
      case c: 1
      then have "cmp key (xs ! ?mid) < 0" using sg by simp
      with "1.IH"(1) [OF False refl refl this "1.prems"(1)] "1.prems" m c False show ?thesis
        by (simp add: bsearch_from.simps [of cmp key xs lo hi] Let_def)
    next
      case c: 2
      then have p: "0 < cmp key (xs ! ?mid)" using sg by simp
      then have n: "\<not> cmp key (xs ! ?mid) < 0" by simp
      with "1.IH"(2) [OF False refl refl n p "1.prems"(1)] "1.prems" m c p False show ?thesis
        by (simp add: bsearch_from.simps [of cmp key xs lo hi] Let_def)
    next
      case 3
      with sg False show ?thesis by (simp add: bsearch_from.simps [of cmp key xs lo hi] Let_def)
    qed
  qed
qed

lemma range_start_at:
  assumes "falls_at c xs a b" "a \<le> i" "i < b"
  shows "range_start c xs i = a"
  using assms(2,3)
proof (induction i)
  case 0
  then have "c (xs ! 0) = 0" using assms(1) unfolding falls_at_def by (metis leD le_zero_eq less_le_trans linorder_neqE)
  with 0 show ?case by simp
next
  case (Suc i)
  then have "c (xs ! Suc i) = 0" using assms(1) unfolding falls_at_def by (metis leD less_le_trans linorder_neqE)
  show ?case
  proof (cases "a = Suc i")
    case True
    have "range_start c xs i = Suc i"
    proof (cases i)
      case 0
      then show ?thesis using True Suc.prems assms(1) unfolding falls_at_def by (auto dest: spec [of _ 0])
    next
      case (Suc j)
      have "0 < c (xs ! Suc j)" using True Suc \<open>Suc i < b\<close> assms(1) unfolding falls_at_def by auto
      with Suc show ?thesis by simp
    qed
    with True \<open>c (xs ! Suc i) = 0\<close> show ?thesis by simp
  next
    case False
    with Suc \<open>c (xs ! Suc i) = 0\<close> show ?thesis by simp
  qed
qed

lemma takeWhile_range:
  assumes "falls_at c (map f its) a b"
  shows "takeWhile (\<lambda>x. c (f x) = 0) (drop a its) = filter (\<lambda>x. c (f x) = 0) its"
proof -
  have b: "a \<le> b" "b \<le> length its" and sg: "\<And>i. i < length its \<Longrightarrow> (0 < c (f (its ! i)) \<longleftrightarrow> i < a) \<and> (c (f (its ! i)) < 0 \<longleftrightarrow> b \<le> i)"
    using assms unfolding falls_at_def by auto
  define A B C where "A = take a its" and "B = take (b - a) (drop a its)" and "C = drop b its"
  have s: "drop a its = B @ C" "its = A @ B @ C"
    using b by (simp_all add: A_def B_def C_def) (metis add.commute append_take_drop_id drop_drop le_add_diff_inverse2)+
  have A: "c (f x) \<noteq> 0" if "x \<in> set A" for x
  proof -
    from that obtain i where "i < a" "x = its ! i" using b by (auto simp: A_def in_set_conv_nth)
    with sg [of i] b show ?thesis by auto
  qed
  have B: "c (f x) = 0" if "x \<in> set B" for x
  proof -
    from that obtain i where "i < b - a" "x = its ! (a + i)" using b by (auto simp: B_def in_set_conv_nth)
    moreover have "a + i < b" "a + i < length its" using \<open>i < b - a\<close> b by auto
    ultimately show ?thesis using sg [of "a + i"] by (simp add: not_less)
  qed
  have C: "c (f x) \<noteq> 0" if "x \<in> set C" for x
  proof -
    from that obtain i where "i < length its - b" "x = its ! (b + i)" using b by (auto simp: C_def in_set_conv_nth)
    moreover then have "b + i < length its" by linarith
    ultimately show ?thesis using sg [of "b + i"] by auto
  qed
  have "takeWhile (\<lambda>x. c (f x) = 0) C = []" using C by (cases C) auto
  then have "takeWhile (\<lambda>x. c (f x) = 0) (B @ C) = B" using B by (simp add: takeWhile_append2)
  moreover have "filter (\<lambda>x. c (f x) = 0) (A @ B @ C) = B" using A B C by (simp add: filter_empty_conv filter_id_conv)
  ultimately show ?thesis unfolding s(1) by (simp add: s(2) [symmetric])
qed

text \<open>A comparison that falls along the list has such a range.\<close>

lemma falls_range:
  assumes "sorted_wrt (\<lambda>x y. (c x < 0 \<longrightarrow> c y < 0) \<and> (0 < c y \<longrightarrow> 0 < c x)) xs"
  shows "\<exists>a b. falls_at c xs a b"
proof -
  let ?a = "length (filter (\<lambda>x. 0 < c x) xs)" and ?z = "length (filter (\<lambda>x. c x = 0) xs)"
  have "falls_at c xs ?a (?a + ?z)"
    using assms
  proof (induction xs)
    case (Cons x xs)
    consider "0 < c x" | "c x = 0" | "c x < 0" by linarith
    then show ?case
    proof cases
      case 1
      with Cons show ?thesis by (auto simp: falls_at_def nth_Cons split: nat.splits)
    next
      case 2
      then have "filter (\<lambda>x. 0 < c x) xs = []" using Cons.prems by (auto simp: filter_empty_conv)
      with 2 Cons show ?thesis by (auto simp: falls_at_def nth_Cons split: nat.splits)
    next
      case 3
      then have n: "\<forall>y \<in> set xs. c y < 0" using Cons.prems by auto
      then have "filter (\<lambda>x. 0 < c x) xs = []" "filter (\<lambda>x. c x = 0) xs = []" by (auto simp: filter_empty_conv dest!: bspec)
      moreover have "c (xs ! i) < 0 \<and> \<not> 0 < c (xs ! i)" if "i < length xs" for i using n nth_mem [OF that] by fastforce
      ultimately show ?thesis using 3 by (auto simp: falls_at_def nth_Cons split: nat.splits)
    qed
  qed (simp add: falls_at_def)
  then show ?thesis by blast
qed

lemma strcmp_take: "strcmp a b \<le> 0 \<Longrightarrow> strcmp (take n a) (take n b) \<le> 0"
proof (induction a b arbitrary: n rule: strcmp.induct)
  case (2 b bs n)
  then show ?case by (cases n) auto
next
  case (4 a as b bs n)
  then show ?case by (cases n) (auto split: if_splits)
qed auto

lemma strcmp_falls:
  assumes "strcmp a b \<le> 0"
  shows "(strcmp k a < 0 \<longrightarrow> strcmp k b < 0) \<and> (0 < strcmp k b \<longrightarrow> 0 < strcmp k a)"
proof (cases "a = b")
  case False
  with assms have ab: "strcmp a b < 0" by (simp add: le_less)
  have "0 < strcmp k a" if "0 < strcmp k b"
    using strcmp_trans [OF ab, of k] that strcmp_antisym [of k b] strcmp_antisym [of k a] by simp
  with ab show ?thesis using strcmp_trans by blast
qed simp

lemma stats_fall:
  assumes "cmp_sorted strcmp nms" "compare \<in> {stats_compare, stats_compare_prefix}"
  shows "\<exists>a b. falls_at (compare key) nms a b"
proof -
  have "(compare key x < 0 \<longrightarrow> compare key y < 0) \<and> (0 < compare key y \<longrightarrow> 0 < compare key x)" if "strcmp x y \<le> 0" for x y
    using assms(2) strcmp_falls [OF that] strcmp_falls [OF strcmp_take [OF that, of "length key"]]
    by (auto simp: stats_compare_def stats_compare_prefix_def)
  then have "sorted_wrt (\<lambda>x y. (compare key x < 0 \<longrightarrow> compare key y < 0) \<and> (0 < compare key y \<longrightarrow> 0 < compare key x)) nms"
    by (rule sorted_wrt_mono_rel [OF _ assms(1) [unfolded cmp_sorted_def]])
  then show ?thesis by (rule falls_range)
qed

section \<open>What is printed for a name\<close>

definition wanted :: "string \<Rightarrow> stat_item \<Rightarrow> bool" where
  "wanted nm it \<longleftrightarrow> (if last nm = CHR ''.'' then has_prefix nm (item_name it) else item_name it = nm)"

text \<open>The names in turn: all the statistics the name stands for, or a complaint.\<close>

fun print_spec :: "string list \<Rightarrow> statgrab \<Rightarrow> statgrab outcome" where
  "print_spec [] p = Done p"
| "print_spec (nm # nms) p =
     (let hits = filter (wanted nm) (stat_items p) in
      andthen (if hits = [] then Done (put (Stderr (''Unknown stat '' @ nm @ NL)) p) else print_items hits p) (print_spec nms))"

lemma compare_prefix_0: "stats_compare_prefix key nm = 0 \<longleftrightarrow> has_prefix key nm"
  by (auto simp: stats_compare_prefix_def has_prefix_iff) (metis append_take_drop_id)

lemma print_named_eq:
  assumes "cmp_sorted strcmp (map item_name (stat_items p))" "alloc_stats p = 0 \<longrightarrow> stat_items p = []" "nm \<noteq> []"
  shows "print_named nm p =
     (let hits = filter (wanted nm) (stat_items p)
      in if hits = [] then Done (put (Stderr (''Unknown stat '' @ nm @ NL)) p) else print_items hits p)"
proof -
  define cmp where "cmp = (if last nm = CHR ''.'' then stats_compare_prefix else stats_compare)"
  let ?its = "stat_items p"
  have w: "cmp nm (item_name it) = 0 \<longleftrightarrow> wanted nm it" for it
    by (auto simp: wanted_def cmp_def compare_prefix_0) (auto simp: stats_compare_def)
  have "cmp \<in> {stats_compare, stats_compare_prefix}" by (simp add: cmp_def)
  from stats_fall [OF assms(1) this, of nm] obtain a b where f: "falls_at (cmp nm) (map item_name ?its) a b" by blast
  have fb: "b \<le> length ?its" "a \<le> b" and sg: "\<And>i. i < length ?its \<Longrightarrow> wanted nm (?its ! i) \<longleftrightarrow> a \<le> i \<and> i < b"
    using f w unfolding falls_at_def by (auto simp: w [symmetric] not_less dest!: spec)+
  have fl: "takeWhile (\<lambda>it. cmp nm (item_name it) = 0) (drop a ?its) = filter (wanted nm) ?its"
    using takeWhile_range [OF f] by (simp only: w)
  have bs: "case bsearch cmp nm (map item_name ?its) of None \<Rightarrow> a = b | Some i \<Rightarrow> a \<le> i \<and> i < b"
    using bsearch_from_range [where cmp = cmp and key = nm, OF f, of "length ?its" 0] fb(1) by (simp add: bsearch_def)
  have u: "print_named nm p = (case (if alloc_stats p = 0 then None else bsearch cmp nm (map item_name ?its)) of
      None \<Rightarrow> Done (put (Stderr (''Unknown stat '' @ nm @ NL)) p) | Some i \<Rightarrow> print_items (stats_range (cmp nm) i ?its) p)"
    using assms(3) by (simp only: print_named_def cmp_def Let_def if_False)
  show ?thesis
  proof (cases "bsearch cmp nm (map item_name ?its)")
    case None
    with bs have "filter (wanted nm) ?its = []" using sg by (auto simp: filter_empty_conv in_set_conv_nth)
    with None show ?thesis unfolding u by (simp add: Let_def)
  next
    case (Some i)
    with bs have i: "a \<le> i" "i < b" by simp_all
    have st: "stats_range (cmp nm) i ?its = filter (wanted nm) ?its"
      unfolding stats_range_def range_start_at [OF f i] by (rule fl)
    have "?its ! i \<in> set ?its" "wanted nm (?its ! i)" using i fb sg [of i] by auto
    then have "filter (wanted nm) ?its \<noteq> []" "?its \<noteq> []" by (auto simp: filter_empty_conv)
    with Some assms(2) st show ?thesis unfolding u by (simp add: Let_def)
  qed
qed

text \<open>Printing changes nothing but the output.\<close>

definition only_outs :: "statgrab \<Rightarrow> statgrab \<Rightarrow> bool" where
  "only_outs p q \<longleftrightarrow> (\<exists>os. q = p\<lparr>outs := os\<rparr>)"

lemma only_outs_refl [simp]: "only_outs p p"
  unfolding only_outs_def by (rule exI [of _ "outs p"]) simp

lemma only_outs_trans: "only_outs p q \<Longrightarrow> only_outs q r \<Longrightarrow> only_outs p r"
  by (auto simp: only_outs_def)

lemma only_outs_put [simp]: "only_outs p (put x p)"
  by (auto simp: only_outs_def put_def)

lemma only_outs_fields:
  assumes "only_outs p q"
  shows "stat_items q = stat_items p" "alloc_stats q = alloc_stats p" "display_mode q = display_mode p" "repeat_mode q = repeat_mode p"
    "repeat_time q = repeat_time p" "use_cpu_percent q = use_cpu_percent p" "use_diffs q = use_diffs p" "float_scale_factor q = float_scale_factor p"
    "bytes_scale_factor q = bytes_scale_factor p" "graphite_prefix q = graphite_prefix p" "graphite_ts q = graphite_ts p" "sg_env q = sg_env p"
  using assms by (auto simp: only_outs_def)

lemma print_items_frame: "print_items its p = Done q \<Longrightarrow> only_outs p q"
proof (induction its arbitrary: p)
  case (Cons it its)
  then obtain p' where "print_stat it p = Done p'" "print_items its p' = Done q" by (auto simp: step_simps)
  moreover then have "only_outs p p'" by (auto simp: print_stat_def step_simps)
  ultimately show ?case using Cons.IH only_outs_trans by blast
qed simp

lemma print_names_eq:
  assumes "cmp_sorted strcmp (map item_name (stat_items p))" "alloc_stats p = 0 \<longrightarrow> stat_items p = []" "[] \<notin> set args"
  shows "print_names args p = print_spec args p"
  using assms
proof (induction args arbitrary: p)
  case (Cons nm nms)
  let ?h = "filter (wanted nm) (stat_items p)"
  let ?m = "if ?h = [] then Done (put (Stderr (''Unknown stat '' @ nm @ NL)) p) else print_items ?h p"
  have n: "print_named nm p = ?m" using print_named_eq [OF Cons.prems(1,2)] Cons.prems(3) by (auto simp: Let_def)
  have "print_names nms q = print_spec nms q" if "?m = Done q" for q
  proof -
    have "only_outs p q" using that print_items_frame by (auto split: if_splits)
    from only_outs_fields [OF this] show ?thesis using Cons by auto
  qed
  then show ?case using n by (cases ?m) (simp_all add: Let_def)
qed simp

end
