(* ===== verification/Statgrab_Sections.thy ===== *)
theory Statgrab_Sections
  imports Statgrab_Props
begin

text \<open>
  What the sections of \<^verbatim>\<open>statgrab\<close> add to the list of statistics, whatever the allocator does, and the interface between a section and the
  program (\<open>sections\<close>), met by the twelve sections of the code.
\<close>

section \<open>Adding statistics\<close>

definition part_ok :: "cstr \<Rightarrow> bool" where
  "part_ok s = (case s of CStr bs \<Rightarrow> NUL \<in> set bs | _ \<Rightarrow> False)"

lemma part_ok_simps [simp]: "part_ok (CStr bs) \<longleftrightarrow> NUL \<in> set bs" "\<not> part_ok CNull" "\<not> part_ok CFreed"
  by (simp_all add: part_ok_def)

lemma c_str_ok:
  assumes "part_ok s"
  shows "c_str s = Done (the (cstr_val s))"
proof -
  obtain bs where s: "s = CStr bs" "NUL \<in> set bs" using assms by (cases s) auto
  from terminated_split [OF s(2)] obtain r where r: "bs = strval bs @ NUL # r" by blast
  have "scan_nul bs 0 = Done (Suc (length (strval bs)))" using scan_nul_eq [of "strval bs" r 0] r by simp
  moreover have "take (length (strval bs)) bs = strval bs" by (metis append_eq_conv_conj r)
  ultimately show ?thesis by (simp add: c_str_def src_bytes_def s(1))
qed

lemma name_parts_ok: "list_all part_ok ps \<Longrightarrow> name_parts ps = Done (map (\<lambda>s. the (cstr_val s)) ps)"
  by (induction ps) (auto simp: c_str_ok)

definition call_ok :: "stat_call \<Rightarrow> bool" where
  "call_ok c \<longleftrightarrow> snd (snd c) \<noteq> [] \<and> list_all part_ok (snd (snd c))"

definition item_of :: "stat_call \<Rightarrow> stat_item" where
  "item_of c = (case c of (ty, v, ps) \<Rightarrow> \<lparr>item_name = joined (map (\<lambda>s. the (cstr_val s)) ps), item_type = ty, item_stat = v\<rparr>)"

definition items_of :: "display_mode_type \<Rightarrow> stat_call list \<Rightarrow> stat_item list" where
  "items_of mode cs = map item_of (filter (\<lambda>c. \<not> skipped mode (fst c)) cs)"

lemma items_of_simps [simp]: "items_of mode [] = []" "items_of mode (a @ b) = items_of mode a @ items_of mode b"
  by (simp_all add: items_of_def)

text \<open>The array has room for its entries.\<close>

definition stats_inv :: "statgrab \<Rightarrow> bool" where
  "stats_inv p \<longleftrightarrow> length (stat_items p) \<le> alloc_stats p"

definition no_stdout :: "out list \<Rightarrow> bool" where
  "no_stdout os = list_all (\<lambda>x. case x of Stderr _ \<Rightarrow> True | _ \<Rightarrow> False) os"

text \<open>The allocator has been asked, and has not refused.\<close>

definition spared :: "env \<Rightarrow> env \<Rightarrow> bool" where
  "spared e e' \<longleftrightarrow> (\<exists>used. sched e = used @ sched e' \<and> AFail \<notin> set used)"

lemma spared_refl [simp]: "spared e e"
  by (simp add: spared_def)

lemma spared_trans: "spared e e' \<Longrightarrow> spared e' e'' \<Longrightarrow> spared e e''"
  unfolding spared_def by (metis append.assoc Un_iff set_append)

lemma spared_empty: "spared e e' \<Longrightarrow> sched e = [] \<Longrightarrow> sched e' = []"
  by (simp add: spared_def)

lemma spared_fail: "spared e e' \<Longrightarrow> AFail \<in> set (sched e') \<Longrightarrow> AFail \<in> set (sched e)"
  by (auto simp: spared_def)

lemma next_choice_cases: "next_choice e = (c, e') \<Longrightarrow> (c \<noteq> AFail \<longrightarrow> spared e e') \<and> (c = AFail \<longrightarrow> AFail \<in> set (sched e))"
  by (cases "sched e") (auto simp: next_choice_def spared_def intro: exI [of _ "[c]"] split: list.splits)

definition grown :: "stat_item list \<Rightarrow> statgrab \<Rightarrow> statgrab \<Rightarrow> bool" where
  "grown its p q \<longleftrightarrow> stats_inv q \<and> spared (sg_env p) (sg_env q) \<and>
     (\<exists>a e os. q = p\<lparr>stat_items := stat_items p @ its, alloc_stats := a, sg_env := e, outs := outs p @ os\<rparr> \<and> no_stdout os)"

text \<open>
  A part of the program that adds \<open>its\<close>: it does that, or ends the program because memory failed; \<open>bad\<close> allows the fault of a NULL
  pointer in that case.
\<close>

definition runs :: "bool \<Rightarrow> stat_item list \<Rightarrow> statgrab \<Rightarrow> statgrab prun outcome \<Rightarrow> bool" where
  "runs bad its p m \<longleftrightarrow>
     (case m of
        Done (Running q) \<Rightarrow> grown its p q
      | Done (Exited c os) \<Rightarrow> c = 1 \<and> AFail \<in> set (sched (sg_env p))
      | Fault f \<Rightarrow> bad \<and> f = NullDeref \<and> AFail \<in> set (sched (sg_env p)))"

lemma runs_simps [simp]:
  "runs bad its p (Done (Running q)) \<longleftrightarrow> grown its p q"
  "runs bad its p (Done (Exited c os)) \<longleftrightarrow> c = 1 \<and> AFail \<in> set (sched (sg_env p))"
  "runs bad its p (Fault f) \<longleftrightarrow> bad \<and> f = NullDeref \<and> AFail \<in> set (sched (sg_env p))"
  by (simp_all add: runs_def)

lemma grown_refl: "stats_inv p \<Longrightarrow> grown [] p p"
  unfolding grown_def by (intro conjI exI [of _ "alloc_stats p"] exI [of _ "sg_env p"] exI [of _ "[]"]) (simp_all add: no_stdout_def)

lemma grown_trans:
  assumes "grown a p q" "grown b q r"
  shows "grown (a @ b) p r"
proof -
  obtain x e os where q: "q = p\<lparr>stat_items := stat_items p @ a, alloc_stats := x, sg_env := e, outs := outs p @ os\<rparr>" "no_stdout os"
    "spared (sg_env p) (sg_env q)" using assms(1) unfolding grown_def by blast
  obtain y d os' where r: "r = q\<lparr>stat_items := stat_items q @ b, alloc_stats := y, sg_env := d, outs := outs q @ os'\<rparr>" "no_stdout os'"
    "spared (sg_env q) (sg_env r)" "stats_inv r" using assms(2) unfolding grown_def by blast
  have "r = p\<lparr>stat_items := stat_items p @ a @ b, alloc_stats := y, sg_env := d, outs := outs p @ os @ os'\<rparr>" unfolding r(1) q(1) by simp
  moreover have "no_stdout (os @ os')" using q(2) r(2) by (simp add: no_stdout_def)
  ultimately show ?thesis unfolding grown_def using spared_trans [OF q(3) r(3)] r(4) by blast
qed

lemma grown_fields:
  assumes "grown its p q"
  shows "stat_items q = stat_items p @ its" "display_mode q = display_mode p" "repeat_mode q = repeat_mode p" "repeat_time q = repeat_time p"
    "use_cpu_percent q = use_cpu_percent p" "use_diffs q = use_diffs p" "float_scale_factor q = float_scale_factor p"
    "bytes_scale_factor q = bytes_scale_factor p" "graphite_prefix q = graphite_prefix p" "graphite_ts q = graphite_ts p"
    "stats_inv q" "AFail \<in> set (sched (sg_env q)) \<Longrightarrow> AFail \<in> set (sched (sg_env p))"
  using assms by (auto simp: grown_def intro: spared_fail)

lemma runs_then:
  assumes "runs bad a p m" "\<And>q. grown a p q \<Longrightarrow> runs bad b q (f q)"
  shows "runs bad (a @ b) p (pthen m f)"
proof (cases m)
  case (Done x)
  show ?thesis
  proof (cases x)
    case (Running q)
    with assms(1) Done have g: "grown a p q" by simp
    from assms(2) [OF this] show ?thesis
      using grown_trans [OF g] grown_fields(12) [OF g] Done Running by (auto simp: runs_def split: outcome.splits prun.splits)
  qed (use assms(1) Done in simp)
qed (use assms(1) in simp)

lemma runs_mono: "runs bad its p m \<Longrightarrow> (bad \<Longrightarrow> bad') \<Longrightarrow> runs bad' its p m"
  by (auto simp: runs_def split: outcome.splits prun.splits)

lemma add_stat_runs:
  assumes "stats_inv p" "call_ok (ty, v, ps)"
  shows "runs bad (items_of (display_mode p) [(ty, v, ps)]) p (add_stat ty v ps p)"
proof (cases "skipped (display_mode p) ty")
  case True
  then show ?thesis using grown_refl [OF assms(1)] by (simp add: add_stat_def items_of_def)
next
  case False
  obtain c e where n1: "next_choice (sg_env p) = (c, e)" by fastforce
  obtain c' e' where n2: "next_choice e = (c', e')" by fastforce
  note nc = next_choice_cases [OF n1] next_choice_cases [OF n2]
  let ?it = "item_of (ty, v, ps)"
  have g: "grown [?it] p q"
    if "length (stat_items p) < a" "spared (sg_env p) d" "q = p\<lparr>stat_items := stat_items p @ [?it], alloc_stats := a, sg_env := d\<rparr>" for a d q
    unfolding grown_def using that by (auto simp: stats_inv_def no_stdout_def intro!: exI [of _ a] exI [of _ d] exI [of _ "[]"])
  have g1: "grown [?it] p (p\<lparr>sg_env := e', alloc_stats := alloc_stats p + INCREMENT_STATS, stat_items := stat_items p @ [?it]\<rparr>)"
    if "alloc_stats p \<le> length (stat_items p)" "c \<noteq> AFail" "c' \<noteq> AFail"
  proof (rule g [of "alloc_stats p + INCREMENT_STATS" e'])
    show "length (stat_items p) < alloc_stats p + INCREMENT_STATS" using assms(1) by (simp add: stats_inv_def INCREMENT_STATS_def)
    show "spared (sg_env p) e'" using nc that(2,3) spared_trans by blast
  qed (cases p, simp)
  have g2: "grown [?it] p (p\<lparr>sg_env := e, stat_items := stat_items p @ [?it]\<rparr>)" if "length (stat_items p) < alloc_stats p" "c \<noteq> AFail"
    by (rule g [OF that(1), of e]) (use nc that(2) in simp, cases p, simp)
  have ts: "name_parts ps = Done (map (\<lambda>s. the (cstr_val s)) ps)" "map (\<lambda>s. the (cstr_val s)) ps \<noteq> []"
    using assms(2) name_parts_ok by (auto simp: call_ok_def)
  show ?thesis
  proof (cases "c = AFail")
    case True
    with nc False ts n1 show ?thesis by (simp add: add_stat_def die_def)
  next
    case ok: False
    have eq: "add_stat ty v ps p = (if alloc_stats p \<le> length (stat_items p)
        then (if c' = AFail then die ''out of memory'' (p\<lparr>sg_env := e', alloc_stats := alloc_stats p + INCREMENT_STATS\<rparr>)
              else store_stat ?it (p\<lparr>sg_env := e', alloc_stats := alloc_stats p + INCREMENT_STATS\<rparr>))
        else store_stat ?it (p\<lparr>sg_env := e\<rparr>))"
      using False ok ts n1 n2 by (simp add: add_stat_def Let_def item_of_def)
    have l: "items_of (display_mode p) [(ty, v, ps)] = [?it]" using False by (simp add: items_of_def)
    show ?thesis
    proof (cases "alloc_stats p \<le> length (stat_items p)")
      case True
      with assms(1) have a: "alloc_stats p = length (stat_items p)" by (simp add: stats_inv_def)
      show ?thesis
      proof (cases "c' = AFail")
        case f: True
        with a nc ok show ?thesis unfolding eq l by (auto simp: die_def intro: spared_fail)
      next
        case f: False
        with g1 [OF True ok f] a show ?thesis unfolding eq l by (simp add: store_stat_def INCREMENT_STATS_def)
      qed
    next
      case False
      with g2 ok show ?thesis unfolding eq l by (simp add: store_stat_def)
    qed
  qed
qed

lemma add_stats_runs: "stats_inv p \<Longrightarrow> list_all call_ok cs \<Longrightarrow> runs bad (items_of (display_mode p) cs) p (add_stats cs p)"
proof (induction cs arbitrary: p)
  case Nil
  then show ?case by (simp add: grown_refl)
next
  case (Cons c cs)
  obtain ty v ps where c: "c = (ty, v, ps)" by (cases c) auto
  have "runs bad (items_of (display_mode p) [c] @ items_of (display_mode p) cs) p (pthen (add_stat ty v ps p) (add_stats cs))"
  proof (rule runs_then)
    show "runs bad (items_of (display_mode p) [c]) p (add_stat ty v ps p)" using Cons.prems add_stat_runs c by simp
    show "runs bad (items_of (display_mode p) cs) q (add_stats cs q)" if "grown (items_of (display_mode p) [c]) p q" for q
      using Cons.IH [of q] Cons.prems(2) grown_fields(2,11) [OF that] by simp
  qed
  then show ?case using c items_of_simps(2) [of "display_mode p" "[c]" cs] by simp
qed

section \<open>The twelve sections\<close>

definition user_ok_str :: "sg_user_stats \<Rightarrow> bool" where
  "user_ok_str u \<longleftrightarrow> part_ok (login_name u) \<and> part_ok (sg_user_stats.device u) \<and> part_ok (sg_user_stats.hostname u)"

definition fs_ok_str :: "sg_fs_stats \<Rightarrow> bool" where
  "fs_ok_str d \<longleftrightarrow> part_ok (device_name d) \<and> part_ok (device_canonical d) \<and> part_ok (fs_type d) \<and> part_ok (mnt_point d)"

definition host_ok_str :: "sg_host_info \<Rightarrow> bool" where
  "host_ok_str h \<longleftrightarrow> part_ok (os_name h) \<and> part_ok (os_release h) \<and> part_ok (os_version h) \<and> part_ok (host_platform h) \<and>
     part_ok (sg_host_info.hostname h)"

text \<open>No string that the library returns is NULL.\<close>

definition readings_ok :: "readings \<Rightarrow> bool" where
  "readings_ok r \<longleftrightarrow>
     pred_option (list_all user_ok_str) (r_users r) \<and> pred_option (list_all fs_ok_str) (r_fs r) \<and> pred_option host_ok_str (r_host r) \<and>
     pred_option (list_all (\<lambda>d. part_ok (disk_name d))) (r_disk r) \<and> pred_option (list_all (\<lambda>d. part_ok (disk_name d))) (r_disk_diff r) \<and>
     pred_option (list_all (\<lambda>n. part_ok (interface_name n))) (r_net r) \<and> pred_option (list_all (\<lambda>n. part_ok (interface_name n))) (r_net_diff r) \<and>
     pred_option (list_all (\<lambda>i. part_ok (iface_name i))) (r_iface r)"

text \<open>What a section adds, by its name, in the mode with differences or without and with percentages or without.\<close>

definition net_names :: "sg_network_io_stats list option \<Rightarrow> string set" where
  "net_names io = (\<lambda>n. the (cstr_val (interface_name n))) ` set (case io of None \<Rightarrow> [] | Some ns \<Rightarrow> ns)"

definition section_calls :: "string \<Rightarrow> bool \<Rightarrow> bool \<Rightarrow> readings \<Rightarrow> stat_call list" where
  "section_calls nm df pct r =
     (let cpu = (if df then r_cpu_stats_diff r else r_cpu_stats r); io = (if df then r_net_diff r else r_net r) in
      if nm = ''const.'' then [(STAT_TYPE_INT, At_int 0, [lit ''const'', lit ''0''])]
      else if nm = ''cpu.'' then
        (if pct then opt_calls percent_calls (r_cpu_percents r df) else opt_calls cpu_calls cpu) @ opt_calls switch_calls cpu
      else if nm = ''mem.'' then opt_calls mem_calls (r_mem r)
      else if nm = ''load.'' then opt_calls load_calls (r_load r)
      else if nm = ''user.'' then
        opt_calls (\<lambda>us. concat (map user_calls us) @
          [(STAT_TYPE_INT, At_size (word_of_nat (length us)), [lit ''user'', lit ''num'']),
           (STAT_TYPE_STRING, At_string (lit (butlast (concat (map (\<lambda>u. the (cstr_val (login_name u)) @ '' '') us)))), [lit ''user'', lit ''names''])]) (r_users r)
      else if nm = ''swap.'' then opt_calls swap_calls (r_swap r)
      else if nm = ''general.'' then opt_calls general_calls (r_host r)
      else if nm = ''fs.'' then opt_calls (\<lambda>ds. concat (map (\<lambda>d. fs_calls (fs_stat_name (the (cstr_val (device_name d)))) d) ds)) (r_fs r)
      else if nm = ''disk.'' then opt_calls (\<lambda>ds. concat (map disk_calls ds)) (if df then r_disk_diff r else r_disk r)
      else if nm = ''proc.'' then opt_calls proc_calls (r_proc r)
      else if nm = ''net.'' then
        opt_calls (\<lambda>ns. concat (map net_calls ns)) io @
        opt_calls (\<lambda>is. concat (map (\<lambda>i. iface_calls (the (cstr_val (iface_name i)) \<in> net_names io) i) is)) (r_iface r)
      else if nm = ''page.'' then opt_calls page_calls (if df then r_page_diff r else r_page r)
      else [])"

text \<open>Every call names its section first, and something behind it.\<close>

definition in_section :: "string \<Rightarrow> stat_call \<Rightarrow> bool" where
  "in_section nm c \<longleftrightarrow> call_ok c \<and> 2 \<le> length (snd (snd c)) \<and> hd (snd (snd c)) = lit (butlast nm)"

lemmas call_shapes = percent_calls_def cpu_calls_def switch_calls_def mem_calls_def load_calls_def user_calls_def swap_calls_def general_calls_def
  fs_calls_def disk_calls_def proc_calls_def net_calls_def iface_calls_def page_calls_def

lemma fixed_calls:
  "list_all (in_section ''cpu.'') (percent_calls pct)" "list_all (in_section ''cpu.'') (cpu_calls c)" "list_all (in_section ''cpu.'') (switch_calls c)"
  "list_all (in_section ''mem.'') (mem_calls m)" "list_all (in_section ''load.'') (load_calls l)" "list_all (in_section ''swap.'') (swap_calls sw)"
  "list_all (in_section ''general.'') (general_calls h)" "list_all (in_section ''proc.'') (proc_calls pr)" "list_all (in_section ''page.'') (page_calls pg)"
  by (simp_all add: call_shapes calls_def in_section_def call_ok_def)

lemma named_calls:
  "part_ok (sg_user_stats.device u) \<Longrightarrow> list_all (in_section ''user.'') (user_calls u)"
  "list_all (in_section ''fs.'') (fs_calls nm d)"
  "part_ok (disk_name k) \<Longrightarrow> list_all (in_section ''disk.'') (disk_calls k)"
  "part_ok (interface_name n) \<Longrightarrow> list_all (in_section ''net.'') (net_calls n)"
  "part_ok (iface_name i) \<Longrightarrow> list_all (in_section ''net.'') (iface_calls had i)"
  by (simp_all add: call_shapes calls_def in_section_def call_ok_def)

lemma list_all_concat_map: "(\<And>x. x \<in> set xs \<Longrightarrow> list_all P (f x)) \<Longrightarrow> list_all P (concat (map f xs))"
  by (auto simp: list_all_iff)

lemma opt_calls_all: "(\<And>x. y = Some x \<Longrightarrow> list_all P (f x)) \<Longrightarrow> list_all P (opt_calls f y)"
  by (cases y) (simp_all add: opt_calls_def)

lemma in_section_ok: "list_all (in_section nm) cs \<Longrightarrow> list_all call_ok cs"
  by (auto simp: list_all_iff in_section_def)

lemma readings_okD:
  assumes "readings_ok r"
  shows "r_users r = Some us \<Longrightarrow> u \<in> set us \<Longrightarrow> user_ok_str u" "r_fs r = Some ds \<Longrightarrow> d \<in> set ds \<Longrightarrow> fs_ok_str d"
    "(if df then r_disk_diff r else r_disk r) = Some ks \<Longrightarrow> k \<in> set ks \<Longrightarrow> part_ok (disk_name k)"
    "(if df then r_net_diff r else r_net r) = Some ns \<Longrightarrow> n \<in> set ns \<Longrightarrow> part_ok (interface_name n)"
    "r_iface r = Some is \<Longrightarrow> i \<in> set is \<Longrightarrow> part_ok (iface_name i)" "r_host r = Some h \<Longrightarrow> host_ok_str h"
  using assms by (auto simp: readings_ok_def list_all_iff split: if_splits)

lemma user_names_ok:
  "(\<And>u. u \<in> set us \<Longrightarrow> user_ok_str u) \<Longrightarrow> user_names us = Done (concat (map (\<lambda>u. the (cstr_val (login_name u)) @ '' '') us))"
  by (induction us) (simp_all add: c_str_ok user_ok_str_def)

text \<open>The sections that loop over what they read.\<close>

lemma user_loop_runs:
  assumes "stats_inv p" "\<And>u. u \<in> set us \<Longrightarrow> user_ok_str u"
  shows "runs bad (items_of (display_mode p) (concat (map user_calls us))) p (user_loop us p)"
  using assms
proof (induction us arbitrary: p)
  case (Cons u us)
  have u: "part_ok (login_name u)" "part_ok (sg_user_stats.device u)" using Cons.prems(2) [of u] by (simp_all add: user_ok_str_def)
  have "runs bad (items_of (display_mode p) (user_calls u) @ items_of (display_mode p) (concat (map user_calls us))) p
      (pthen (add_stats (user_calls u) p) (user_loop us))"
  proof (rule runs_then)
    show "runs bad (items_of (display_mode p) (user_calls u)) p (add_stats (user_calls u) p)"
      using Cons.prems(1) in_section_ok [OF named_calls(1) [OF u(2)]] by (rule add_stats_runs)
    show "runs bad (items_of (display_mode p) (concat (map user_calls us))) q (user_loop us q)"
      if "grown (items_of (display_mode p) (user_calls u)) p q" for q
      using Cons.IH [of q] Cons.prems(2) grown_fields(2,11) [OF that] by simp
  qed
  then show ?case using u by (simp add: c_str_ok)
qed (simp add: grown_refl)

lemma fs_loop_runs:
  assumes "stats_inv p" "\<And>d. d \<in> set ds \<Longrightarrow> fs_ok_str d"
  shows "runs bad (items_of (display_mode p) (concat (map (\<lambda>d. fs_calls (fs_stat_name (the (cstr_val (device_name d)))) d) ds))) p (fs_loop ds p)"
  using assms
proof (induction ds arbitrary: p)
  case (Cons d ds)
  let ?nm = "fs_stat_name (the (cstr_val (device_name d)))"
  obtain c e where n: "next_choice (sg_env p) = (c, e)" by fastforce
  have d: "part_ok (device_name d)" using Cons.prems(2) [of d] by (simp add: fs_ok_str_def)
  let ?p = "p\<lparr>sg_env := e\<rparr>"
  show ?case
  proof (cases "c = AFail")
    case True
    with n d next_choice_cases [OF n] show ?thesis by (simp add: c_str_ok die_def)
  next
    case False
    have g: "grown [] p ?p" unfolding grown_def using Cons.prems(1) next_choice_cases [OF n] False
      by (auto simp: stats_inv_def no_stdout_def intro!: exI [of _ "alloc_stats p"] exI [of _ e] exI [of _ "[]"])
    have "runs bad ([] @ items_of (display_mode p) (fs_calls ?nm d) @ items_of (display_mode p) (concat (map (\<lambda>d. fs_calls (fs_stat_name (the (cstr_val (device_name d)))) d) ds)))
       p (pthen (Done (Running ?p)) (\<lambda>p. pthen (add_stats (fs_calls ?nm d) p) (fs_loop ds)))"
    proof (rule runs_then)
      fix q assume q: "grown [] p q"
      show "runs bad (items_of (display_mode p) (fs_calls ?nm d) @ items_of (display_mode p) (concat (map (\<lambda>d. fs_calls (fs_stat_name (the (cstr_val (device_name d)))) d) ds)))
         q (pthen (add_stats (fs_calls ?nm d) q) (fs_loop ds))"
      proof (rule runs_then)
        show "runs bad (items_of (display_mode p) (fs_calls ?nm d)) q (add_stats (fs_calls ?nm d) q)"
          using add_stats_runs [OF grown_fields(11) [OF q] in_section_ok [OF named_calls(2)]] grown_fields(2) [OF q] by simp
        show "runs bad (items_of (display_mode p) (concat (map (\<lambda>d. fs_calls (fs_stat_name (the (cstr_val (device_name d)))) d) ds))) t (fs_loop ds t)"
          if "grown (items_of (display_mode p) (fs_calls ?nm d)) q t" for t
          using Cons.IH [of t] Cons.prems(2) grown_fields(2,11) [OF that] grown_fields(2) [OF q] by simp
      qed
    qed (use g in simp)
    with False n d show ?thesis by (simp add: c_str_ok)
  qed
qed (simp add: grown_refl)

lemma had_io_ok:
  assumes "part_ok nm" "\<And>n. n \<in> set ns \<Longrightarrow> part_ok (interface_name n)"
  shows "had_io nm ns = Done (the (cstr_val nm) \<in> (\<lambda>n. the (cstr_val (interface_name n))) ` set ns)"
  using assms(2) by (induction ns) (auto simp: c_str_ok assms(1))

lemma iface_loop_runs:
  assumes "stats_inv p" "\<And>i. i \<in> set is \<Longrightarrow> part_ok (iface_name i)" "\<And>n. n \<in> set ns \<Longrightarrow> part_ok (interface_name n)"
  shows "runs bad (items_of (display_mode p) (concat (map (\<lambda>i. iface_calls (the (cstr_val (iface_name i)) \<in> (\<lambda>n. the (cstr_val (interface_name n))) ` set ns) i) is)))
     p (iface_loop ns is p)"
  using assms(1,2)
proof (induction "is" arbitrary: p)
  case (Cons i "is")
  let ?h = "\<lambda>i. the (cstr_val (iface_name i)) \<in> (\<lambda>n. the (cstr_val (interface_name n))) ` set ns"
  have i: "part_ok (iface_name i)" using Cons.prems(2) by simp
  have "runs bad (items_of (display_mode p) (iface_calls (?h i) i) @ items_of (display_mode p) (concat (map (\<lambda>i. iface_calls (?h i) i) is))) p
      (pthen (add_stats (iface_calls (?h i) i) p) (iface_loop ns is))"
  proof (rule runs_then)
    show "runs bad (items_of (display_mode p) (iface_calls (?h i) i)) p (add_stats (iface_calls (?h i) i) p)"
      using Cons.prems(1) in_section_ok [OF named_calls(5) [OF i]] by (rule add_stats_runs)
    show "runs bad (items_of (display_mode p) (concat (map (\<lambda>i. iface_calls (?h i) i) is))) q (iface_loop ns is q)"
      if "grown (items_of (display_mode p) (iface_calls (?h i) i)) p q" for q
      using Cons.IH [of q] Cons.prems(2) grown_fields(2,11) [OF that] by simp
  qed
  then show ?case using had_io_ok [OF i assms(3)] by simp
qed (simp add: grown_refl)

text \<open>Every section adds what \<open>section_calls\<close> says of it.\<close>

lemma section_calls_in:
  assumes "readings_ok r" "nm \<in> set (map fst toplevels)"
  shows "list_all (in_section nm) (section_calls nm df pct r)"
proof -
  note ok = readings_okD [OF assms(1)]
  have us: "list_all (in_section ''user.'') (user_calls u)" if "r_users r = Some us" "u \<in> set us" for us u
    using named_calls(1) [of u] ok(1) [OF that] by (simp add: user_ok_str_def)
  have "nm = ''const.'' \<or> nm = ''cpu.'' \<or> nm = ''mem.'' \<or> nm = ''load.'' \<or> nm = ''user.'' \<or> nm = ''swap.'' \<or> nm = ''general.'' \<or>
      nm = ''fs.'' \<or> nm = ''disk.'' \<or> nm = ''proc.'' \<or> nm = ''net.'' \<or> nm = ''page.''"
    using assms(2) by (simp add: toplevels_def)
  then show ?thesis
  proof (elim disjE, goal_cases)
    case 1
    then show ?case by (simp add: section_calls_def in_section_def call_ok_def)
  next
    case 5
    have "list_all (in_section ''user.'') [(STAT_TYPE_INT, At_size n, [lit ''user'', lit ''num'']), (STAT_TYPE_STRING, At_string s, [lit ''user'', lit ''names''])]" for n s
      by (simp add: in_section_def call_ok_def)
    with us 5 show ?case
      by (simp add: section_calls_def) (intro opt_calls_all, simp add: list_all_append, intro list_all_concat_map, blast)
  next
    case 8
    then show ?case by (simp add: section_calls_def) (intro opt_calls_all list_all_concat_map named_calls(2))
  next
    case 9
    have "list_all (in_section ''disk.'') (opt_calls (\<lambda>ds. concat (map disk_calls ds)) (if df then r_disk_diff r else r_disk r))"
      by (intro opt_calls_all list_all_concat_map named_calls(3)) (use ok(3) in blast)
    with 9 show ?case by (simp add: section_calls_def)
  next
    case 11
    have "list_all (in_section ''net.'') (opt_calls (\<lambda>ns. concat (map net_calls ns)) (if df then r_net_diff r else r_net r))"
      by (intro opt_calls_all list_all_concat_map named_calls(4)) (use ok(4) in blast)
    moreover have "list_all (in_section ''net.'') (opt_calls (\<lambda>is. concat (map (\<lambda>i. iface_calls (h i) i) is)) (r_iface r))" for h
      by (intro opt_calls_all list_all_concat_map named_calls(5)) (use ok(5) in blast)
    ultimately show ?case using 11 by (simp add: section_calls_def Let_def list_all_append)
  qed (simp add: section_calls_def Let_def list_all_append; (intro opt_calls_all fixed_calls conjI impI)?)+
qed

lemma populate_runs:
  assumes "stats_inv p" "readings_ok r"
  shows "runs bad (items_of (display_mode p) (section_calls ''const.'' df pct r)) p (populate_const r p)"
    "runs bad (items_of (display_mode p) (section_calls ''mem.'' df pct r)) p (populate_mem r p)"
    "runs bad (items_of (display_mode p) (section_calls ''load.'' df pct r)) p (populate_load r p)"
    "runs bad (items_of (display_mode p) (section_calls ''swap.'' df pct r)) p (populate_swap r p)"
    "runs bad (items_of (display_mode p) (section_calls ''general.'' df pct r)) p (populate_general r p)"
    "runs bad (items_of (display_mode p) (section_calls ''disk.'' (use_diffs p) pct r)) p (populate_disk r p)"
    "runs bad (items_of (display_mode p) (section_calls ''page.'' (use_diffs p) pct r)) p (populate_page r p)"
proof -
  have a: "runs bad (items_of (display_mode p) (section_calls nm d pct r)) p (add_stats (section_calls nm d pct r) p)" if "nm \<in> set (map fst toplevels)" for nm d
    using add_stats_runs [OF assms(1)] in_section_ok [OF section_calls_in [OF assms(2) that]] by blast
  show "runs bad (items_of (display_mode p) (section_calls ''const.'' df pct r)) p (populate_const r p)"
    "runs bad (items_of (display_mode p) (section_calls ''mem.'' df pct r)) p (populate_mem r p)"
    "runs bad (items_of (display_mode p) (section_calls ''load.'' df pct r)) p (populate_load r p)"
    "runs bad (items_of (display_mode p) (section_calls ''swap.'' df pct r)) p (populate_swap r p)"
    "runs bad (items_of (display_mode p) (section_calls ''general.'' df pct r)) p (populate_general r p)"
    "runs bad (items_of (display_mode p) (section_calls ''disk.'' (use_diffs p) pct r)) p (populate_disk r p)"
    "runs bad (items_of (display_mode p) (section_calls ''page.'' (use_diffs p) pct r)) p (populate_page r p)"
    using a [of "''const.''" df] a [of "''mem.''" df] a [of "''load.''" df] a [of "''swap.''" df] a [of "''general.''" df]
      a [of "''disk.''" "use_diffs p"] a [of "''page.''" "use_diffs p"]
    by (simp_all add: toplevels_def section_calls_def Let_def populate_const_def populate_mem_def populate_load_def populate_swap_def
        populate_general_def populate_disk_def populate_page_def)
qed

lemma add_stats_append: "add_stats (a @ b) p = pthen (add_stats a p) (add_stats b)"
proof (induction a arbitrary: p)
  case (Cons c a)
  obtain ty v ps where c: "c = (ty, v, ps)" by (cases c) auto
  have "pthen (pthen m f) g = pthen m (\<lambda>x. pthen (f x) g)" for m :: "statgrab prun outcome" and f and g :: "statgrab \<Rightarrow> statgrab prun outcome"
    by (cases m) (auto split: prun.splits, metis pthen.simps(1,2) prun.exhaust)
  moreover have "add_stats (a @ b) = (\<lambda>p. pthen (add_stats a p) (add_stats b))" using Cons by (intro ext)
  ultimately show ?case by (simp add: c)
qed simp

lemma populate_cpu_runs:
  assumes "stats_inv p" "readings_ok r"
  shows "runs bad (items_of (display_mode p) (section_calls ''cpu.'' (use_diffs p) (use_cpu_percent p) r)) p (populate_cpu r p)"
proof -
  have "runs bad (items_of (display_mode p) (section_calls ''cpu.'' (use_diffs p) (use_cpu_percent p) r)) p (add_stats (section_calls ''cpu.'' (use_diffs p) (use_cpu_percent p) r) p)"
    by (intro add_stats_runs [OF assms(1)] in_section_ok [OF section_calls_in [OF assms(2)]]) (simp add: toplevels_def)
  then show ?thesis by (simp add: section_calls_def Let_def populate_cpu_def add_stats_append del: items_of_simps)
qed

lemma populate_proc_runs:
  assumes "stats_inv p" "readings_ok r"
  shows "runs bad (items_of (display_mode p) (section_calls ''proc.'' df pct r)) p (populate_proc r p)"
proof (cases "r_proc r")
  case None
  have "grown [] p (put (Stderr m) p)" for m
    unfolding grown_def using assms(1) by (auto simp: put_def stats_inv_def no_stdout_def intro!: exI [of _ "alloc_stats p"] exI [of _ "sg_env p"] exI [of _ "[Stderr m]"])
  with None grown_refl [OF assms(1)] show ?thesis by (auto simp: section_calls_def opt_calls_def populate_proc_def split: option.splits)
next
  case (Some c)
  then show ?thesis using add_stats_runs [OF assms(1) in_section_ok [OF fixed_calls(8)]] by (simp add: section_calls_def opt_calls_def populate_proc_def)
qed

lemma populate_fs_runs:
  assumes "stats_inv p" "readings_ok r"
  shows "runs bad (items_of (display_mode p) (section_calls ''fs.'' df pct r)) p (populate_fs r p)"
  using fs_loop_runs [OF assms(1)] readings_okD(2) [OF assms(2)] grown_refl [OF assms(1)]
  by (cases "r_fs r") (simp_all add: section_calls_def opt_calls_def populate_fs_def)

lemma populate_user_runs:
  assumes "stats_inv p" "readings_ok r" "r_users r \<noteq> None \<Longrightarrow> bad"
  shows "runs bad (items_of (display_mode p) (section_calls ''user.'' df pct r)) p (populate_user r p)"
proof (cases "r_users r")
  case None
  then show ?thesis by (simp add: section_calls_def opt_calls_def populate_user_def grown_refl assms(1))
next
  case (Some us)
  note ok = readings_okD(1) [OF assms(2) Some]
  let ?names = "lit (butlast (concat (map (\<lambda>u. the (cstr_val (login_name u)) @ '' '') us)))"
  let ?last = "[(STAT_TYPE_INT, At_size (word_of_nat (length us)), [lit ''user'', lit ''num'']), (STAT_TYPE_STRING, At_string ?names, [lit ''user'', lit ''names''])]"
  have "runs bad (items_of (display_mode p) (concat (map user_calls us)) @ items_of (display_mode p) ?last) p (populate_user r p)"
    unfolding populate_user_def Some option.case
  proof (rule runs_then)
    show "runs bad (items_of (display_mode p) (concat (map user_calls us))) p (user_loop us p)" by (rule user_loop_runs [OF assms(1) ok])
    fix q assume q: "grown (items_of (display_mode p) (concat (map user_calls us))) p q"
    obtain c e where n: "next_choice (sg_env q) = (c, e)" by fastforce
    show "runs bad (items_of (display_mode p) ?last) q (pthen (name_list us q) (\<lambda>(names, p).
        add_stats [(STAT_TYPE_INT, At_size (word_of_nat (length us)), [lit ''user'', lit ''num'']), (STAT_TYPE_STRING, At_string names, [lit ''user'', lit ''names''])] p))"
    proof (cases "c = AFail")
      case True
      with n next_choice_cases [OF n] show ?thesis using assms(3) Some by (simp add: name_list_def)
    next
      case False
      let ?t = "q\<lparr>sg_env := e\<rparr>"
      have nl: "name_list us q = Done (Running (?names, ?t))"
        using n False user_names_ok [OF ok] by (auto simp: name_list_def)
      have t: "stats_inv ?t" "display_mode ?t = display_mode p" using grown_fields(2,11) [OF q] by (simp_all add: stats_inv_def)
      have "list_all call_ok ?last" by (simp add: call_ok_def)
      from add_stats_runs [OF t(1) this, of bad] have a: "runs bad (items_of (display_mode p) ?last) ?t (add_stats ?last ?t)" unfolding t(2) .
      have g: "grown [] q ?t" unfolding grown_def using t(1) next_choice_cases [OF n] False
        by (auto simp: no_stdout_def intro!: exI [of _ "alloc_stats q"] exI [of _ e] exI [of _ "[]"])
      have "runs bad ([] @ items_of (display_mode p) ?last) q (pthen (Done (Running ?t)) (\<lambda>_. add_stats ?last ?t))"
        using g a grown_trans [OF g] grown_fields(12) [OF g] by (auto simp: runs_def split: outcome.splits prun.splits)
      then show ?thesis unfolding nl by simp
    qed
  qed
  then show ?thesis using Some by (simp add: section_calls_def opt_calls_def)
qed

lemma populate_net_runs:
  assumes "stats_inv p" "readings_ok r"
  shows "runs bad (items_of (display_mode p) (section_calls ''net.'' (use_diffs p) pct r)) p (populate_net r p)"
proof -
  let ?io = "if use_diffs p then r_net_diff r else r_net r"
  let ?ns = "case ?io of None \<Rightarrow> [] | Some ns \<Rightarrow> ns"
  let ?a = "opt_calls (\<lambda>ns. concat (map net_calls ns)) ?io"
  let ?b = "opt_calls (\<lambda>is. concat (map (\<lambda>i. iface_calls (the (cstr_val (iface_name i)) \<in> net_names ?io) i) is)) (r_iface r)"
  have ns: "part_ok (interface_name n)" if "n \<in> set ?ns" for n
  proof (cases ?io)
    case (Some ns)
    with that show ?thesis using readings_okD(4) [OF assms(2) Some] by simp
  qed (use that in simp)
  have "list_all call_ok ?a" by (intro in_section_ok [of "''net.''"] opt_calls_all list_all_concat_map named_calls(4)) (use readings_okD(4) [OF assms(2)] in blast)
  note a = add_stats_runs [OF assms(1) this]
  have "runs bad (items_of (display_mode p) ?a @ items_of (display_mode p) ?b) p
     (pthen (add_stats ?a p) (\<lambda>p. case r_iface r of None \<Rightarrow> Done (Running p) | Some is \<Rightarrow> iface_loop ?ns is p))"
  proof (rule runs_then)
    fix q assume q: "grown (items_of (display_mode p) ?a) p q"
    show "runs bad (items_of (display_mode p) ?b) q (case r_iface r of None \<Rightarrow> Done (Running q) | Some is \<Rightarrow> iface_loop ?ns is q)"
    proof (cases "r_iface r")
      case None
      then show ?thesis using grown_refl grown_fields(11) [OF q] by (simp add: opt_calls_def)
    next
      case (Some "is")
      have "runs bad (items_of (display_mode q) (concat (map (\<lambda>i. iface_calls (the (cstr_val (iface_name i)) \<in> (\<lambda>n. the (cstr_val (interface_name n))) ` set ?ns) i) is)))
         q (iface_loop ?ns is q)"
        by (rule iface_loop_runs [OF grown_fields(11) [OF q] readings_okD(5) [OF assms(2) Some] ns])
      then show ?thesis unfolding Some grown_fields(2) [OF q] by (simp add: opt_calls_def net_names_def)
    qed
  qed (rule a)
  then show ?thesis by (simp add: section_calls_def populate_net_def Let_def)
qed

section \<open>The interface of the sections\<close>

definition chosen :: "(string \<Rightarrow> bool \<Rightarrow> bool \<Rightarrow> readings \<Rightarrow> stat_call list) \<Rightarrow> toplevel list \<Rightarrow> statgrab \<Rightarrow> readings \<Rightarrow> stat_item list" where
  "chosen spec ts p r =
     concat (map (\<lambda>(nm, f, b). if b then items_of (display_mode p) (spec nm (use_diffs p) (use_cpu_percent p) r) else []) ts)"

lemma chosen_cong:
  assumes "display_mode q = display_mode p" "use_cpu_percent q = use_cpu_percent p" "use_diffs q = use_diffs p"
  shows "chosen spec ts q r = chosen spec ts p r"
  unfolding chosen_def assms ..

definition same_tops :: "toplevel list \<Rightarrow> toplevel list \<Rightarrow> bool" where
  "same_tops ts us \<longleftrightarrow> map (\<lambda>(nm, f, b). (nm, f)) ts = map (\<lambda>(nm, f, b). (nm, f)) us"

lemma same_tops_in:
  assumes "same_tops ts us" "(nm, f, b) \<in> set ts"
  shows "\<exists>b'. (nm, f, b') \<in> set us"
proof -
  have "(nm, f) \<in> set (map (\<lambda>(nm, f, b). (nm, f)) ts)" using assms(2) by force
  then have "(nm, f) \<in> set (map (\<lambda>(nm, f, b). (nm, f)) us)" using assms(1) by (simp only: same_tops_def)
  then show ?thesis by auto
qed

lemma qsort_Nil [simp]: "qsort cmp f [] = []"
  by (simp add: qsort_def)

text \<open>What the list of statistics and the settings are after a round of gathering.\<close>

definition gathered :: "stat_item list \<Rightarrow> readings \<Rightarrow> statgrab \<Rightarrow> statgrab \<Rightarrow> bool" where
  "gathered its r p q \<longleftrightarrow> stats_inv q \<and> stat_items q = qsort strcmp item_name its \<and> spared (sg_env p) (sg_env q) \<and>
     (\<exists>a e os ts. q = p\<lparr>stat_items := stat_items q, alloc_stats := a, sg_env := e, outs := outs p @ os, graphite_ts := ts\<rparr> \<and> no_stdout os \<and>
       (display_mode p = DISPLAY_GRAPHITE \<longrightarrow> ts = r_time r))"

locale sections =
  fixes tops :: "toplevel list"
    and spec :: "string \<Rightarrow> bool \<Rightarrow> bool \<Rightarrow> readings \<Rightarrow> stat_call list"
    and ok :: "readings \<Rightarrow> bool"
    and risky :: "string \<Rightarrow> readings \<Rightarrow> bool" \<comment> \<open>the sections that do not check an allocation\<close>
  assumes section_runs: "(nm, f, b) \<in> set tops \<Longrightarrow> ok r \<Longrightarrow> stats_inv p \<Longrightarrow>
      runs (risky nm r) (items_of (display_mode p) (spec nm (use_diffs p) (use_cpu_percent p) r)) p (f r p)"
    and section_in: "(nm, f, b) \<in> set tops \<Longrightarrow> ok r \<Longrightarrow> list_all (in_section nm) (spec nm df pct r)"
    and section_name: "(nm, f, b) \<in> set tops \<Longrightarrow> \<exists>s. nm = s @ ''.'' \<and> CHR ''.'' \<notin> set s \<and> CHR '' '' \<notin> set s \<and> nul_free s"
    and section_distinct: "distinct (map fst tops)"
begin

lemma populate_all_runs:
  assumes "\<And>nm f b. (nm, f, b) \<in> set ts \<Longrightarrow> \<exists>b'. (nm, f, b') \<in> set tops" "ok r" "stats_inv p"
    and "\<And>nm f. (nm, f, True) \<in> set ts \<Longrightarrow> risky nm r \<Longrightarrow> bad"
  shows "runs bad (chosen spec ts p r) p (populate_all ts r p)"
  using assms(1,3,4)
proof (induction ts arbitrary: p)
  case Nil
  then show ?case by (simp add: chosen_def grown_refl)
next
  case (Cons t ts)
  obtain nm f b where t: "t = (nm, f, b)" by (cases t) auto
  obtain b' where m: "(nm, f, b') \<in> set tops" using Cons.prems(1) t by fastforce
  have IH: "runs bad (chosen spec ts q r) q (populate_all ts r q)" if "stats_inv q" for q
    by (rule Cons.IH) (use Cons.prems(1,3) that in \<open>meson list.set_intros(2)\<close>)+
  let ?a = "items_of (display_mode p) (spec nm (use_diffs p) (use_cpu_percent p) r)"
  have "runs bad (?a @ chosen spec ts p r) p (pthen (f r p) (populate_all ts r))" if b
  proof (rule runs_then)
    have "risky nm r \<Longrightarrow> bad" using Cons.prems(3) [of nm f] t that by simp
    with section_runs [OF m assms(2) Cons.prems(2)] show "runs bad ?a p (f r p)" by (rule runs_mono)
    show "runs bad (chosen spec ts p r) q (populate_all ts r q)" if "grown ?a p q" for q
      using IH [OF grown_fields(11) [OF that]] chosen_cong [OF grown_fields(2,5,6) [OF that]] by simp
  qed
  moreover have "runs bad (chosen spec ts p r) p (populate_all ts r p)" by (rule IH [OF Cons.prems(2)])
  ultimately show ?case by (simp add: t chosen_def)
qed

end

interpretation sg: sections toplevels section_calls readings_ok "\<lambda>nm r. nm = ''user.'' \<and> r_users r \<noteq> None"
proof
  fix nm f b r p assume m: "(nm, f, b) \<in> set toplevels" and r: "readings_ok r" and p: "stats_inv p"
  show "runs (nm = ''user.'' \<and> r_users r \<noteq> None) (items_of (display_mode p) (section_calls nm (use_diffs p) (use_cpu_percent p) r)) p (f r p)"
    using m unfolding toplevels_def list.set insert_iff empty_iff prod.inject
    by (elim disjE conjE FalseE; hypsubst; intro populate_runs [OF p r] populate_cpu_runs [OF p r] populate_user_runs [OF p r] populate_fs_runs [OF p r]
        populate_proc_runs [OF p r] populate_net_runs [OF p r]; simp)
next
  fix nm f b r df pct assume m: "(nm, f, b) \<in> set toplevels" and r: "readings_ok r"
  have "nm \<in> set (map fst toplevels)" using m by force
  then show "list_all (in_section nm) (section_calls nm df pct r)" by (rule section_calls_in [OF r])
next
  fix nm f b assume "(nm, f, b) \<in> set toplevels"
  then have "nm = butlast nm @ ''.'' \<and> CHR ''.'' \<notin> set (butlast nm) \<and> CHR '' '' \<notin> set (butlast nm) \<and> nul_free (butlast nm)"
    unfolding toplevels_def list.set insert_iff empty_iff prod.inject by (elim disjE conjE FalseE; simp)
  then show "\<exists>s. nm = s @ ''.'' \<and> CHR ''.'' \<notin> set s \<and> CHR '' '' \<notin> set s \<and> nul_free s" by blast
qed (simp add: toplevels_def)

context sections
begin

lemma get_stats_runs:
  assumes "same_tops ts tops" "ok r"
  shows "case get_stats ts r p of
      Done (Running q) \<Rightarrow> gathered (chosen spec ts p r) r p q
    | Done (Exited c os) \<Rightarrow> c = 1 \<and> AFail \<in> set (sched (sg_env p))
    | Fault f \<Rightarrow> (\<exists>nm f. (nm, f, True) \<in> set ts \<and> risky nm r) \<and> f = NullDeref \<and> AFail \<in> set (sched (sg_env p))"
proof -
  let ?bad = "\<exists>nm f. (nm, f, True) \<in> set ts \<and> risky nm r"
  have "\<exists>b'. (nm, f, b') \<in> set tops" if "(nm, f, b) \<in> set ts" for nm f b by (rule same_tops_in [OF assms(1) that])
  then have "runs ?bad (chosen spec ts (clear_stats p) r) (clear_stats p) (populate_all ts r (clear_stats p))"
    by (rule populate_all_runs [OF _ assms(2)]) (assumption, simp add: stats_inv_def clear_stats_def, blast)
  moreover have "chosen spec ts (clear_stats p) r = chosen spec ts p r" by (rule chosen_cong) (simp_all add: clear_stats_def)
  ultimately have m: "runs ?bad (chosen spec ts p r) (clear_stats p) (populate_all ts r (clear_stats p))" by simp
  show ?thesis
  proof (cases "populate_all ts r (clear_stats p)")
    case (Done x)
    show ?thesis
    proof (cases x)
      case (Running q)
      with m Done obtain a e os where q: "q = p\<lparr>stat_items := chosen spec ts p r, alloc_stats := a, sg_env := e, outs := outs p @ os\<rparr>"
          "no_stdout os" "stats_inv q" "spared (sg_env p) e"
        by (auto simp: grown_def clear_stats_def)
      have s: "stat_items (sort_stats q) = qsort strcmp item_name (chosen spec ts p r)" "stats_inv (sort_stats q)"
          "sort_stats q = q\<lparr>stat_items := qsort strcmp item_name (chosen spec ts p r)\<rparr>"
        using q(1,3) by (auto simp: sort_stats_def stats_inv_def)
      define t where "t = (if display_mode (sort_stats q) = DISPLAY_GRAPHITE then (sort_stats q)\<lparr>graphite_ts := r_time r\<rparr> else sort_stats q)"
      define g where "g = graphite_ts t"
      have tq: "t = q\<lparr>stat_items := qsort strcmp item_name (chosen spec ts p r), graphite_ts := g\<rparr>"
        unfolding g_def t_def s(3) by (cases q) simp
      have "t = p\<lparr>stat_items := stat_items t, alloc_stats := a, sg_env := e, outs := outs p @ os, graphite_ts := g\<rparr>"
        unfolding tq q(1) by simp
      moreover have "stats_inv t" "stat_items t = qsort strcmp item_name (chosen spec ts p r)" "sg_env t = e"
        using s q(1) unfolding t_def by (auto simp: stats_inv_def)
      moreover have "display_mode p = DISPLAY_GRAPHITE \<longrightarrow> g = r_time r" using s(3) q(1) by (simp add: g_def t_def)
      ultimately have "gathered (chosen spec ts p r) r p t" unfolding gathered_def using q(2,4) by blast
      then show ?thesis using Done Running by (simp add: get_stats_def Let_def t_def)
    qed (use m Done in \<open>simp add: get_stats_def clear_stats_def\<close>)
  qed (use m in \<open>simp add: get_stats_def clear_stats_def\<close>)
qed

text \<open>The name of a statistic starts with that of its section.\<close>

lemma joined_Cons: "ts \<noteq> [] \<Longrightarrow> joined (t # ts) = underscored t @ ''.'' @ joined ts"
proof -
  assume "ts \<noteq> []"
  then have "concat (map (\<lambda>t. underscored t @ ''.'') ts) \<noteq> []" by (cases ts) auto
  then show ?thesis by (simp add: joined_def butlast_append)
qed

lemma section_prefix:
  assumes "(nm, f, b) \<in> set tops" "ok r" "it \<in> set (items_of mode (spec nm df pct r))"
  shows "has_prefix nm (item_name it)"
proof -
  obtain c where c: "c \<in> set (spec nm df pct r)" "it = item_of c" using assms(3) by (auto simp: items_of_def)
  then have "in_section nm c" using section_in [OF assms(1,2)] by (auto simp: list_all_iff)
  then obtain ty v x y zs where cc: "c = (ty, v, x # y # zs)" "x = lit (butlast nm)"
    by (cases c; cases "snd (snd c)"; cases "tl (snd (snd c))") (auto simp: in_section_def)
  obtain s where s: "nm = s @ ''.''" "CHR ''.'' \<notin> set s" "CHR '' '' \<notin> set s" "nul_free s" using section_name [OF assms(1)] by blast
  have "underscored s = s" using s(2,3) by (auto simp: underscored_def intro!: map_idI)
  then have "item_name it = nm @ joined (map (\<lambda>s. the (cstr_val s)) (y # zs))"
    using cc s(1,4) c(2) by (simp add: item_of_def joined_Cons)
  then show ?thesis by (auto simp: has_prefix_iff)
qed

text \<open>A name asked for that matches a statistic names the section of the statistic.\<close>

lemma wanted_section:
  assumes "(nm, f, b) \<in> set tops" "ok r" "it \<in> set (items_of mode (spec nm df pct r))" "wanted a it" "a \<noteq> []"
  shows "has_prefix nm a"
proof -
  obtain u where u: "item_name it = nm @ u" using section_prefix [OF assms(1-3)] by (auto simp: has_prefix_iff)
  obtain s where s: "nm = s @ ''.''" "CHR ''.'' \<notin> set s" using section_name [OF assms(1)] by blast
  show ?thesis
  proof (cases "last a = CHR ''.''")
    case True
    then obtain t where t: "item_name it = a @ t" using assms(4) by (auto simp: wanted_def has_prefix_iff)
    show ?thesis
    proof (cases "length nm \<le> length a")
      case True
      then show ?thesis using t u by (auto simp: has_prefix_iff append_eq_append_conv_if) (metis append_take_drop_id)
    next
      case False
      then have "a = take (length a) s" using t u s(1) by (auto simp: append_eq_append_conv_if split: if_splits)
      then have "set a \<subseteq> set s" by (metis set_take_subset)
      then show ?thesis using True last_in_set [OF assms(5)] s(2) by auto
    qed
  next
    case False
    then show ?thesis using assms(4) u by (auto simp: wanted_def has_prefix_iff)
  qed
qed

text \<open>At most one section is named by an argument, and marking marks it.\<close>

lemma section_unique:
  assumes "(nm, f, b) \<in> set tops" "(nm', f', b') \<in> set tops" "has_prefix nm a" "has_prefix nm' a"
  shows "nm = nm'"
proof -
  obtain s t where s: "nm = s @ ''.''" "CHR ''.'' \<notin> set s" and t: "nm' = t @ ''.''" "CHR ''.'' \<notin> set t"
    using section_name [OF assms(1)] section_name [OF assms(2)] by blast
  have up: "takeWhile (\<lambda>c. c \<noteq> CHR ''.'') (x @ CHR ''.'' # y) = x" if "CHR ''.'' \<notin> set x" for x y
    using that by (induction x) auto
  obtain u where u: "a = s @ CHR ''.'' # u" using assms(3) s(1) by (auto simp: has_prefix_iff)
  obtain v where v: "a = t @ CHR ''.'' # v" using assms(4) t(1) by (auto simp: has_prefix_iff)
  have "s = t" using up [OF s(2), of u] up [OF t(2), of v] unfolding u [symmetric] v [symmetric] by simp
  then show ?thesis using s(1) t(1) by simp
qed

end

lemma same_tops_refl [simp]: "same_tops ts ts"
  by (simp add: same_tops_def)

lemma same_tops_fst:
  assumes "same_tops ts us"
  shows "map fst ts = map fst us"
proof -
  have "map fst (map (\<lambda>(nm, f, b). (nm, f)) ts) = map fst (map (\<lambda>(nm, f, b). (nm, f)) us)" using assms by (simp only: same_tops_def)
  then show ?thesis by (simp add: comp_def case_prod_beta)
qed

lemma same_tops_mark: "same_tops (mark a ts) ts"
  by (induction a ts rule: mark.induct) (auto simp: same_tops_def)

lemma same_tops_all: "same_tops (map (\<lambda>(nm, f, _). (nm, f, True)) ts) ts"
  by (induction ts) (auto simp: same_tops_def)

lemma same_tops_trans: "same_tops a b \<Longrightarrow> same_tops b c \<Longrightarrow> same_tops a c"
  by (simp add: same_tops_def)

lemma same_tops_foldl: "same_tops (foldl (\<lambda>ts a. mark a ts) ts args) ts"
  by (induction args arbitrary: ts) (auto intro: same_tops_trans same_tops_mark)

lemma same_tops_select: "same_tops (select_interesting args ts) ts"
  by (simp add: select_interesting_def same_tops_all same_tops_foldl)

lemma mark_mono: "\<forall>(nm, f, b) \<in> set ts. Q nm \<longrightarrow> b \<Longrightarrow> \<forall>(nm, f, b) \<in> set (mark a ts). Q nm \<longrightarrow> b"
  by (induction a ts rule: mark.induct) auto

lemma foldl_mark_mono: "\<forall>(nm, f, b) \<in> set ts. Q nm \<longrightarrow> b \<Longrightarrow> \<forall>(nm, f, b) \<in> set (foldl (\<lambda>ts a. mark a ts) ts args). Q nm \<longrightarrow> b"
proof (induction args arbitrary: ts)
  case (Cons a args)
  then show ?case using Cons.IH [OF mark_mono [OF Cons.prems]] by simp
qed simp

lemma mark_marks:
  assumes "distinct (map fst ts)" "\<And>nm nm'. nm \<in> set (map fst ts) \<Longrightarrow> nm' \<in> set (map fst ts) \<Longrightarrow> has_prefix nm a \<Longrightarrow> has_prefix nm' a \<Longrightarrow> nm = nm'"
  shows "\<forall>(nm, f, b) \<in> set (mark a ts). has_prefix nm a \<longrightarrow> b"
  using assms
proof (induction a ts rule: mark.induct)
  case (2 a nm f b ts)
  show ?case
  proof (cases "has_prefix nm a")
    case True
    have "\<not> has_prefix nm' a" if "(nm', f', b') \<in> set ts" for nm' f' b'
    proof
      assume "has_prefix nm' a"
      moreover have "nm' \<in> fst ` set ts" using that by force
      ultimately have "nm = nm'" using "2.prems"(2) [of nm nm'] True by auto
      with \<open>nm' \<in> fst ` set ts\<close> "2.prems"(1) show False by simp
    qed
    with True show ?thesis by auto
  next
    case False
    have "distinct (map fst ts)" using "2.prems"(1) by simp
    moreover have "n = n'" if "n \<in> set (map fst ts)" "n' \<in> set (map fst ts)" "has_prefix n a" "has_prefix n' a" for n n'
      using "2.prems"(2) [of n n'] that by simp
    ultimately have "\<forall>(nm, f, b) \<in> set (mark a ts). has_prefix nm a \<longrightarrow> b" by (rule "2.IH" [OF False])
    with False show ?thesis by simp
  qed
qed simp

context sections
begin

lemma select_marks:
  assumes "a \<in> set args" "(nm, f, b) \<in> set (select_interesting args tops)" "has_prefix nm a"
  shows b
proof -
  have u: "nm = nm'" if "nm \<in> set (map fst ts)" "nm' \<in> set (map fst ts)" "has_prefix nm a" "has_prefix nm' a" "same_tops ts tops" for nm nm' a ts
    using that(1-4) section_unique unfolding same_tops_fst [OF that(5)] by fastforce
  have d: "distinct (map fst ts)" if "same_tops ts tops" for ts
    using section_distinct unfolding same_tops_fst [OF that] .
  obtain l r where a: "args = l @ a # r" using assms(1) by (meson split_list)
  let ?ts = "foldl (\<lambda>ts a. mark a ts) tops l"
  have "\<forall>(nm, f, b) \<in> set (mark a ?ts). has_prefix nm a \<longrightarrow> b"
    by (rule mark_marks [OF d [OF same_tops_foldl]]) (use u same_tops_foldl in blast)
  from foldl_mark_mono [OF this, of r] have "\<forall>(nm, f, b) \<in> set (select_interesting args tops). has_prefix nm a \<longrightarrow> b"
    by (simp add: select_interesting_def a)
  with assms(2,3) show ?thesis by blast
qed

text \<open>The sections left out have nothing that was asked for.\<close>

lemma select_complete:
  assumes "ok r" "a \<in> set args" "a \<noteq> []"
  shows "filter (wanted a) (chosen spec (select_interesting args tops) p r) = filter (wanted a) (chosen spec (select_interesting [] tops) p r)"
proof -
  let ?ts = "select_interesting args tops" and ?i = "\<lambda>nm. items_of (display_mode p) (spec nm (use_diffs p) (use_cpu_percent p) r)"
  have "select_interesting [] tops = map (\<lambda>(nm, f, _). (nm, f, True)) ?ts"
  proof -
    have F: "map (\<lambda>(nm, f, _). (nm, f, True)) us = map (\<lambda>(nm, f). (nm, f, True)) (map (\<lambda>(nm, f, b). (nm, f)) us)" for us :: "toplevel list"
      by (induction us) auto
    show ?thesis unfolding F using same_tops_select [of args tops] by (simp only: select_interesting_def [of "[]"] F same_tops_def simp_thms if_True)
  qed
  moreover have "filter (wanted a) (?i nm) = []" if "(nm, f, False) \<in> set ?ts" for nm f
  proof -
    from same_tops_in [OF same_tops_select that] obtain b where m: "(nm, f, b) \<in> set tops" by blast
    have "\<not> has_prefix nm a" using select_marks [OF assms(2) that] by blast
    then show ?thesis using wanted_section [OF m assms(1) _ _ assms(3)] by (auto simp: filter_empty_conv)
  qed
  then have "map (\<lambda>(nm, f, b). filter (wanted a) (if b then ?i nm else [])) ?ts = map (\<lambda>(nm, f, b). filter (wanted a) (?i nm)) ?ts"
    by (intro map_cong) auto
  ultimately show ?thesis
    by (simp add: chosen_def filter_concat comp_def case_prod_beta cong: map_cong)
qed

end

end
