(* ===== verification/Statgrab_Run.thy ===== *)
theory Statgrab_Run
  imports Statgrab_Sections
begin

text \<open>
  What a round of \<^verbatim>\<open>statgrab\<close> prints, the types of the statistics, the loop that has no end, and the program from the options to the end.
\<close>

section \<open>The order of the statistics\<close>

lemma filter_insert_by:
  "cmp_sorted strcmp (map f ys) \<Longrightarrow> filter P (insert_by strcmp f x ys) = (if P x then insert_by strcmp f x (filter P ys) else filter P ys)"
proof (induction ys)
  case (Cons y ys)
  show ?case
  proof (cases "strcmp (f x) (f y) \<le> 0")
    case True
    have "strcmp (f x) (f z) \<le> 0" if "z \<in> set ys" for z using Cons.prems that strcmp_le_trans [OF True] by (auto simp: cmp_sorted_def)
    then have "insert_by strcmp f x (filter P ys) = x # filter P ys"
      using filter_is_subset [of P ys] by (cases "filter P ys") auto
    with True show ?thesis by simp
  next
    case False
    with Cons show ?thesis by (simp add: cmp_sorted_def)
  qed
qed simp

lemma filter_qsort: "filter P (qsort strcmp f xs) = qsort strcmp f (filter P xs)"
proof (induction xs)
  case (Cons x xs)
  then show ?case using filter_insert_by [OF names.sorted_qsort, of P f x xs] by (simp add: qsort_def)
qed simp

section \<open>The types of the statistics\<close>

text \<open>
  The type a statistic is printed at is the one its memory was written at. The state of an interface, an
  enumeration, is read through a pointer to \<^verbatim>\<open>int\<close> for \<^verbatim>\<open>STAT_TYPE_BOOL\<close>; the two are taken to be represented alike,
  as they are where the compiler represents enumerations by \<^verbatim>\<open>int\<close>.
\<close>

fun fits :: "stat_type \<Rightarrow> stat_val \<Rightarrow> bool" where
  "fits STAT_TYPE_UNSIGNED_LONG_LONG (At_ull _) = True"
| "fits STAT_TYPE_BYTES (At_ull _) = True"
| "fits STAT_TYPE_TIME_T (At_time _) = True"
| "fits STAT_TYPE_DOUBLE (At_double _) = True"
| "fits STAT_TYPE_STRING (At_string _) = True"
| "fits STAT_TYPE_INT (At_int _) = True"
| "fits STAT_TYPE_UNSIGNED (At_unsigned _) = True"
| "fits STAT_TYPE_BOOL (At_updown _) = True"
| "fits STAT_TYPE_DUPLEX (At_duplex _) = True"
| "fits _ _ = False"

definition typed :: "stat_call \<Rightarrow> bool" where
  "typed c \<longleftrightarrow> fits (fst c) (fst (snd c)) \<or> (\<exists>n. c = (STAT_TYPE_INT, At_size n, [lit ''user'', lit ''num'']))"

definition no_null :: "stat_val \<Rightarrow> bool" where
  "no_null v \<longleftrightarrow> (case v of At_string s \<Rightarrow> part_ok s | _ \<Rightarrow> True)"

definition sound :: "stat_call \<Rightarrow> bool" where
  "sound c \<longleftrightarrow> typed c \<and> no_null (fst (snd c))"

lemma sound_fixed:
  "list_all sound (percent_calls pct)" "list_all sound (cpu_calls c)" "list_all sound (switch_calls c)" "list_all sound (mem_calls m)"
  "list_all sound (load_calls l)" "list_all sound (swap_calls sw)" "list_all sound (proc_calls pr)" "list_all sound (page_calls pg)"
  "host_ok_str h \<Longrightarrow> list_all sound (general_calls h)" "user_ok_str u \<Longrightarrow> list_all sound (user_calls u)"
  "fs_ok_str d \<Longrightarrow> list_all sound (fs_calls nm d)" "part_ok (disk_name k) \<Longrightarrow> list_all sound (disk_calls k)"
  "part_ok (interface_name n) \<Longrightarrow> list_all sound (net_calls n)" "part_ok (iface_name i) \<Longrightarrow> list_all sound (iface_calls had i)"
  by (simp_all add: call_shapes calls_def sound_def typed_def no_null_def host_ok_str_def user_ok_str_def fs_ok_str_def host_states_def
      split: sg_host_state.splits)

lemma section_sound:
  assumes "readings_ok r" "nm \<in> set (map fst toplevels)"
  shows "list_all sound (section_calls nm df pct r)"
proof -
  note ok = readings_okD [OF assms(1)]
  have "nm = ''const.'' \<or> nm = ''cpu.'' \<or> nm = ''mem.'' \<or> nm = ''load.'' \<or> nm = ''user.'' \<or> nm = ''swap.'' \<or> nm = ''general.'' \<or>
      nm = ''fs.'' \<or> nm = ''disk.'' \<or> nm = ''proc.'' \<or> nm = ''net.'' \<or> nm = ''page.''"
    using assms(2) by (simp add: toplevels_def)
  then show ?thesis
  proof (elim disjE, goal_cases)
    case 1
    then show ?case by (simp add: section_calls_def sound_def typed_def no_null_def)
  next
    case 5
    have "list_all sound [(STAT_TYPE_INT, At_size n, [lit ''user'', lit ''num'']), (STAT_TYPE_STRING, At_string (lit s), [lit ''user'', lit ''names''])]" for n s
      by (simp add: sound_def typed_def no_null_def)
    moreover have "list_all sound (concat (map user_calls us))" if "r_users r = Some us" for us
      by (intro list_all_concat_map sound_fixed(10) ok(1) [OF that])
    ultimately show ?case using 5 by (simp add: section_calls_def) (intro opt_calls_all, simp)
  next
    case 7
    then show ?case by (simp add: section_calls_def) (intro opt_calls_all sound_fixed(9) ok(6))
  next
    case 8
    then show ?case by (simp add: section_calls_def) (intro opt_calls_all list_all_concat_map sound_fixed(11) ok(2))
  next
    case 9
    have "list_all sound (opt_calls (\<lambda>ds. concat (map disk_calls ds)) (if df then r_disk_diff r else r_disk r))"
      by (intro opt_calls_all list_all_concat_map sound_fixed(12)) (use ok(3) in blast)
    with 9 show ?case by (simp add: section_calls_def)
  next
    case 11
    have "list_all sound (opt_calls (\<lambda>ns. concat (map net_calls ns)) (if df then r_net_diff r else r_net r))"
      by (intro opt_calls_all list_all_concat_map sound_fixed(13)) (use ok(4) in blast)
    moreover have "list_all sound (opt_calls (\<lambda>is. concat (map (\<lambda>i. iface_calls (h i) i) is)) (r_iface r))" for h
      by (intro opt_calls_all list_all_concat_map sound_fixed(14)) (use ok(5) in blast)
    ultimately show ?case using 11 by (simp add: section_calls_def Let_def list_all_append)
  qed (simp add: section_calls_def Let_def list_all_append; (intro opt_calls_all sound_fixed(1-8) conjI impI)?)+
qed

section \<open>Lines\<close>

definition item_line :: "statgrab \<Rightarrow> stat_item \<Rightarrow> string outcome" where
  "item_line p it =
     andthen (print_stat_value p it) (\<lambda>v. Done (print_head p (item_name it) @ v @
       (if display_mode p = DISPLAY_GRAPHITE then '' '' @ int_string (sint (graphite_ts p)) else []) @ NL))"

definition stat_line :: "statgrab \<Rightarrow> stat_item \<Rightarrow> string" where
  "stat_line p it = (case item_line p it of Done l \<Rightarrow> l | Fault _ \<Rightarrow> [])"

definition same_format :: "statgrab \<Rightarrow> statgrab \<Rightarrow> bool" where
  "same_format p q \<longleftrightarrow> display_mode q = display_mode p \<and> float_scale_factor q = float_scale_factor p \<and> bytes_scale_factor q = bytes_scale_factor p \<and>
     graphite_prefix q = graphite_prefix p \<and> (display_mode p = DISPLAY_GRAPHITE \<longrightarrow> graphite_ts q = graphite_ts p)"

lemma same_format_line:
  assumes "same_format p q"
  shows "item_line q it = item_line p it"
proof -
  have e: "display_mode q = display_mode p" "float_scale_factor q = float_scale_factor p" "bytes_scale_factor q = bytes_scale_factor p"
      "graphite_prefix q = graphite_prefix p" and ts: "display_mode p = DISPLAY_GRAPHITE \<Longrightarrow> graphite_ts q = graphite_ts p"
    using assms by (simp_all add: same_format_def)
  have "print_stat_value q it = print_stat_value p it" "print_head q (item_name it) = print_head p (item_name it)"
    unfolding print_stat_value_def print_head_def e by (rule refl)+
  then show ?thesis using e(1) ts by (simp add: item_line_def)
qed

lemma stat_line_cong: "same_format p q \<Longrightarrow> stat_line q = stat_line p"
  by (simp add: fun_eq_iff stat_line_def same_format_line [of p q])

definition printable :: "statgrab \<Rightarrow> stat_item \<Rightarrow> bool" where
  "printable p it \<longleftrightarrow> (\<exists>l. item_line p it = Done l)"

lemma print_items_lines:
  assumes "list_all (printable p) its" "same_format p q"
  shows "print_items its q = Done (q\<lparr>outs := outs q @ map (Stdout \<circ> stat_line p) its\<rparr>)"
  using assms
proof (induction its arbitrary: q)
  case (Cons it its)
  obtain l where l: "item_line p it = Done l" using Cons.prems(1) by (auto simp: printable_def)
  have "print_stat it q = andthen (item_line q it) (\<lambda>l. Done (put (Stdout l) q))"
    by (cases "print_stat_value q it") (simp_all add: print_stat_def item_line_def)
  then have "print_stat it q = Done (put (Stdout l) q)" using l same_format_line [OF Cons.prems(2)] by simp
  moreover have "same_format p (put (Stdout l) q)" using Cons.prems(2) by (simp add: same_format_def put_def)
  ultimately show ?case using Cons l by (simp add: put_def stat_line_def)
qed simp

text \<open>Statistics of the right type, with no NULL string, can be printed when doubles are not scaled.\<close>

lemma sound_printable:
  assumes "sound c" "float_scale_factor p = 0" "bytes_scale_factor p \<le> 64"
  shows "printable p (item_of c)"
proof -
  obtain ty v ps where c: "c = (ty, v, ps)" by (cases c) auto
  have "\<exists>s. print_stat_value p (item_of c) = Done s"
    using assms unfolding c sound_def typed_def
    by (cases "(ty, v)" rule: fits.cases)
      (auto simp: item_of_def print_stat_value_def no_null_def scale_bytes_def c_str_ok)
  then show ?thesis by (auto simp: printable_def item_line_def)
qed

section \<open>A round\<close>

definition stdouts :: "out list \<Rightarrow> string list" where
  "stdouts os = concat (map (\<lambda>x. case x of Stdout s \<Rightarrow> [s] | _ \<Rightarrow> []) os)"

lemma stdouts_simps [simp]: "stdouts [] = []" "stdouts (a @ b) = stdouts a @ stdouts b" "stdouts (map (Stdout \<circ> f) xs) = map f xs"
    "stdouts (x # os) = (case x of Stdout s \<Rightarrow> [s] | _ \<Rightarrow> []) @ stdouts os"
  by (simp_all add: stdouts_def comp_def)

lemma no_stdout_stdouts: "no_stdout os \<Longrightarrow> stdouts os = []"
  by (induction os) (auto simp: no_stdout_def split: out.splits)

text \<open>All the statistics there are, in the order of their names, and those of them that the names on the command line stand for.\<close>

definition all_stats :: "statgrab \<Rightarrow> readings \<Rightarrow> stat_item list" where
  "all_stats p r = qsort strcmp item_name (chosen section_calls (select_interesting [] toplevels) p r)"

definition asked :: "string list \<Rightarrow> stat_item list \<Rightarrow> stat_item list" where
  "asked args its = (if args = [] then its else concat (map (\<lambda>a. filter (wanted a) its) args))"

lemma print_spec_lines:
  assumes "list_all (printable p) (stat_items q)" "same_format p q"
  shows "\<exists>os. print_spec args q = Done (q\<lparr>outs := outs q @ os\<rparr>) \<and> stdouts os = map (stat_line p) (concat (map (\<lambda>a. filter (wanted a) (stat_items q)) args))"
  using assms
proof (induction args arbitrary: q)
  case Nil
  show ?case by (rule exI [of _ "[]"]) simp
next
  case (Cons a args)
  let ?h = "filter (wanted a) (stat_items q)"
  have pr: "list_all (printable p) ?h" using Cons.prems(1) by (auto simp: list_all_iff)
  obtain os where os: "(if ?h = [] then Done (put (Stderr (''Unknown stat '' @ a @ NL)) q) else print_items ?h q) = Done (q\<lparr>outs := outs q @ os\<rparr>)"
      "stdouts os = map (stat_line p) ?h"
  proof (cases "?h = []")
    case True
    then show ?thesis by (intro that [of "[Stderr (''Unknown stat '' @ a @ NL)]"]) (simp_all add: put_def)
  next
    case False
    then show ?thesis using print_items_lines [OF pr Cons.prems(2)] by (intro that [of "map (Stdout \<circ> stat_line p) ?h"]) simp_all
  qed
  let ?q = "q\<lparr>outs := outs q @ os\<rparr>"
  have "list_all (printable p) (stat_items ?q)" "same_format p ?q" using Cons.prems by (simp_all add: same_format_def)
  from Cons.IH [OF this] obtain os' where "print_spec args ?q = Done (?q\<lparr>outs := outs ?q @ os'\<rparr>)"
      "stdouts os' = map (stat_line p) (concat (map (\<lambda>a. filter (wanted a) (stat_items q)) args))" by auto
  with os show ?case by (intro exI [of _ "os @ os'"]) (simp add: Let_def)
qed

lemma chosen_sound: "readings_ok r \<Longrightarrow> it \<in> set (chosen section_calls ts p r) \<Longrightarrow> same_tops ts toplevels \<Longrightarrow> \<exists>c. sound c \<and> it = item_of c"
proof -
  assume r: "readings_ok r" and it: "it \<in> set (chosen section_calls ts p r)" and ts: "same_tops ts toplevels"
  then obtain nm f b c where "(nm, f, b) \<in> set ts" "c \<in> set (section_calls nm (use_diffs p) (use_cpu_percent p) r)" "it = item_of c"
    by (auto simp: chosen_def items_of_def split: if_splits)
  moreover then have "nm \<in> set (map fst ts)" by force
  then have "nm \<in> set (map fst toplevels)" unfolding same_tops_fst [OF ts] .
  ultimately show ?thesis using section_sound [OF r] by (metis list_all_iff)
qed

text \<open>What stays as it is over a round.\<close>

definition kept :: "statgrab \<Rightarrow> statgrab \<Rightarrow> bool" where
  "kept p q \<longleftrightarrow> (\<exists>its a e os ts. q = p\<lparr>stat_items := its, alloc_stats := a, sg_env := e, outs := os, graphite_ts := ts\<rparr>)"

lemma report_lines:
  assumes "readings_ok r" "sched (sg_env p) = []" "float_scale_factor p = 0" "bytes_scale_factor p \<le> 64" "[] \<notin> set args"
  shows "\<exists>q. report (select_interesting args toplevels) args r p = Done (Running q) \<and> kept p q \<and> sched (sg_env q) = [] \<and>
     stdouts (outs q) = stdouts (outs p) @ map (stat_line (p\<lparr>graphite_ts := r_time r\<rparr>)) (asked args (all_stats p r))"
proof -
  let ?ts = "select_interesting args toplevels" and ?p = "p\<lparr>graphite_ts := r_time r\<rparr>"
  let ?its = "qsort strcmp item_name (chosen section_calls ?ts p r)"
  obtain q where q: "get_stats ?ts r p = Done (Running q)" "gathered (chosen section_calls ?ts p r) r p q"
    using sg.get_stats_runs [OF same_tops_select assms(1), of args p] assms(2) by (auto split: outcome.splits prun.splits)
  obtain a e os ts where qe: "q = p\<lparr>stat_items := stat_items q, alloc_stats := a, sg_env := e, outs := outs p @ os, graphite_ts := ts\<rparr>" "no_stdout os"
      "display_mode p = DISPLAY_GRAPHITE \<longrightarrow> ts = r_time r" and it: "stat_items q = ?its" and inv: "stats_inv q" and sc: "sched (sg_env q) = []"
    using q(2) assms(2) spared_empty unfolding gathered_def by blast
  have fields: "outs q = outs p @ os" "graphite_ts q = ts" "display_mode q = display_mode p" "float_scale_factor q = float_scale_factor p"
      "bytes_scale_factor q = bytes_scale_factor p" "graphite_prefix q = graphite_prefix p"
    by (subst qe(1), simp)+
  have fm: "same_format ?p q" using qe(3) fields by (simp add: same_format_def)
  have pr: "list_all (printable ?p) ?its"
    unfolding list_all_iff
  proof
    fix it assume "it \<in> set ?its"
    then obtain c where "sound c" "it = item_of c" using chosen_sound [OF assms(1) _ same_tops_select, of it args p] by auto
    then show "printable ?p it" using sound_printable [of c ?p] assms(3,4) by simp
  qed
  have kept: "kept p (q\<lparr>outs := x\<rparr>)" for x unfolding kept_def
    by (intro exI [of _ "stat_items q"] exI [of _ a] exI [of _ e] exI [of _ x] exI [of _ ts], subst qe(1), cases p) simp
  obtain x where x: "print_stats args q = Done (q\<lparr>outs := outs q @ x\<rparr>)" "stdouts x = map (stat_line ?p) (asked args ?its)"
  proof (cases "args = []")
    case True
    then show ?thesis using print_items_lines [OF pr fm] it by (intro that [of "map (Stdout \<circ> stat_line ?p) ?its"]) (simp_all add: print_stats_def asked_def)
  next
    case False
    have "print_names args q = print_spec args q"
      using inv it names.sorted_qsort [of item_name] assms(5) by (intro print_names_eq) (auto simp: stats_inv_def)
    with print_spec_lines [of ?p q args] pr fm it False that show ?thesis by (auto simp: print_stats_def asked_def)
  qed
  have "asked args ?its = asked args (all_stats p r)"
  proof (cases "args = []")
    case False
    have "filter (wanted a) ?its = filter (wanted a) (all_stats p r)" if "a \<in> set args" for a
    proof -
      have "a \<noteq> []" using that assms(5) by auto
      from sg.select_complete [OF assms(1) that this, of p] show ?thesis by (simp add: filter_qsort all_stats_def)
    qed
    then show ?thesis using False by (simp add: asked_def cong: map_cong)
  qed (simp add: asked_def all_stats_def)
  with x q(1) kept sc qe(2) fields(1) show ?thesis
    by (intro exI [of _ "q\<lparr>outs := outs q @ x\<rparr>"]) (simp add: report_def running_on_def no_stdout_stdouts)
qed

section \<open>Properties\<close>

definition no_readings :: readings where
  "no_readings =
     \<lparr>r_cpu_stats = None, r_cpu_stats_diff = None, r_cpu_percents = (\<lambda>_. None), r_mem = None, r_load = None, r_users = None, r_swap = None,
      r_host = None, r_fs = None, r_disk = None, r_disk_diff = None, r_proc = None, r_proc_error = None, r_net = None, r_net_diff = None,
      r_iface = None, r_page = None, r_page_diff = None, r_time = 60\<rparr>"

definition some_readings :: readings where
  "some_readings = no_readings\<lparr>r_mem := Some \<lparr>mem_total = 1536, mem_free = 512, mem_used = 1024, mem_cache = 0, mem_systime = 60\<rparr>,
     r_users := Some [\<lparr>login_name = lit ''ann'', record_id = CNull, record_id_size = 0, device = lit ''tty.1'', hostname = lit ''host'', us_pid = 7,
       login_time = 9, us_systime = 60\<rparr>]\<rparr>"

lemma some_readings_ok: "readings_ok some_readings"
  by (simp add: readings_ok_def some_readings_def no_readings_def user_ok_str_def)

abbreviation kib_run :: statgrab where
  "kib_run \<equiv> (start_statgrab (fresh_env []))\<lparr>bytes_scale_factor := 10\<rparr>"

lemma kib_run_fields: "sched (sg_env kib_run) = []" "float_scale_factor kib_run = 0" "bytes_scale_factor kib_run \<le> 64" "outs kib_run = []"
  by (simp_all add: start_statgrab_def fresh_env_def)

lemma some_lines:
  "map (stat_line (kib_run\<lparr>graphite_ts := r_time some_readings\<rparr>)) (asked [''mem.'', ''user.tty_1.tty'', ''cpu.''] (all_stats kib_run some_readings)) =
     [''mem.cache = 0'' @ NL, ''mem.free = 1'' @ NL, ''mem.total = 2'' @ NL, ''mem.used = 1'' @ NL, ''user.tty_1.tty = tty.1'' @ NL]"
  by code_simp

text \<open>C5: A round of \<^verbatim>\<open>statgrab\<close> without \<^verbatim>\<open>-f\<close>, memory sufficing, no string of the library's answers being NULL, no name on the
  command line being empty and the unit of bytes being at most 2^64: although only the sections that a name on the command line starts with are
  fetched, and each name is looked up by a binary search in the sorted list whose result is widened to a range, what is printed is one line for
  each statistic among all the statistics there are that has the name, or, for a name that ends in a point, starts with it, name by name and in
  the order of the names; with no name on the command line it is a line for every statistic.\<close>

theorem report_prints_what_was_asked:
  assumes "readings_ok r" "sched (sg_env p) = []" "float_scale_factor p = 0" "bytes_scale_factor p \<le> 64" "[] \<notin> set args"
  shows "\<exists>q. report (select_interesting args toplevels) args r p = Done (Running q) \<and>
     stdouts (outs q) = stdouts (outs p) @ map (stat_line (p\<lparr>graphite_ts := r_time r\<rparr>)) (asked args (all_stats p r))"
  using report_lines [OF assms] by blast

lemma report_prints_what_was_asked_witness:
  "\<exists>q. report (select_interesting [''mem.'', ''user.tty_1.tty'', ''cpu.''] toplevels) [''mem.'', ''user.tty_1.tty'', ''cpu.''] some_readings kib_run = Done (Running q) \<and>
     stdouts (outs q) = [''mem.cache = 0'' @ NL, ''mem.free = 1'' @ NL, ''mem.total = 2'' @ NL, ''mem.used = 1'' @ NL, ''user.tty_1.tty = tty.1'' @ NL]"
  using report_prints_what_was_asked [OF some_readings_ok kib_run_fields(1-3), of "[''mem.'', ''user.tty_1.tty'', ''cpu.'']"]
  unfolding some_lines kib_run_fields(4) by simp

text \<open>C37: Every statistic of the list is printed at the type its memory was written at, whatever the allocator does, but one: the number of users
  is a \<^verbatim>\<open>size_t\<close> that is printed as an \<^verbatim>\<open>int\<close>.\<close>

theorem stats_are_typed:
  assumes "readings_ok r" "get_stats (select_interesting args toplevels) r p = Done (Running q)" "it \<in> set (stat_items q)"
  shows "fits (item_type it) (item_stat it) \<or>
     item_name it = ''user.num'' \<and> item_type it = STAT_TYPE_INT \<and> (\<exists>n. item_stat it = At_size n)"
proof -
  have "it \<in> set (chosen section_calls (select_interesting args toplevels) p r)"
    using sg.get_stats_runs [OF same_tops_select assms(1), of args p] assms(2,3) by (simp add: gathered_def)
  from chosen_sound [OF assms(1) this same_tops_select] obtain c where c: "sound c" "it = item_of c" by blast
  then consider "fits (fst c) (fst (snd c))" | n where "c = (STAT_TYPE_INT, At_size n, [lit ''user'', lit ''num''])"
    unfolding sound_def typed_def by blast
  then show ?thesis
  proof cases
    case 1
    then show ?thesis by (cases c) (simp add: c(2) item_of_def)
  next
    case 2
    then show ?thesis by (simp add: c(2) item_of_def joined_def underscored_def strval_def)
  qed
qed

lemma some_stats:
  "case get_stats (select_interesting [''user.''] toplevels) some_readings kib_run of
     Done (Running q) \<Rightarrow> map item_name (stat_items q) =
       [''user.names'', ''user.num'', ''user.tty_1.from'', ''user.tty_1.login_name'', ''user.tty_1.login_time'', ''user.tty_1.tty'']
   | _ \<Rightarrow> False"
  by code_simp

lemma stats_are_typed_witness:
  "\<exists>q it. get_stats (select_interesting [''user.''] toplevels) some_readings kib_run = Done (Running q) \<and> it \<in> set (stat_items q) \<and>
     item_name it = ''user.names'' \<and> fits (item_type it) (item_stat it)"
proof -
  obtain q where q: "get_stats (select_interesting [''user.''] toplevels) some_readings kib_run = Done (Running q)" "''user.names'' \<in> set (map item_name (stat_items q))"
    using some_stats by (auto split: outcome.splits prun.splits)
  then obtain it where it: "it \<in> set (stat_items q)" "item_name it = ''user.names''" by auto
  from stats_are_typed [OF some_readings_ok q(1) it(1)] it q(1) show ?thesis by auto
qed

text \<open>C35: With \<^verbatim>\<open>-s\<close> and without \<^verbatim>\<open>-f\<close> the program goes on for ever as long as memory suffices, no string of the library's
  answers is NULL, no name on the command line is empty and the unit of bytes is at most 2^64: for every number of rounds it comes through that
  many, and what it has printed then are the lines of the statistics asked for of each round, an empty line after each.\<close>

theorem forever_goes_on:
  assumes "\<And>k. readings_ok (rd k)" "sched (sg_env p) = []" "float_scale_factor p = 0" "bytes_scale_factor p \<le> 64" "[] \<notin> set args"
  shows "\<forall>n k. \<exists>q. forever (select_interesting args toplevels) args rd n k p = Done (Running q) \<and>
     stdouts (outs q) = stdouts (outs p) @
       concat (map (\<lambda>i. map (stat_line (p\<lparr>graphite_ts := r_time (rd i)\<rparr>)) (asked args (all_stats p (rd i))) @ [NL]) [k..<k + n])"
proof (intro allI)
  fix n k
  let ?ls = "\<lambda>p i. map (stat_line (p\<lparr>graphite_ts := r_time (rd i)\<rparr>)) (asked args (all_stats p (rd i)))"
  show "\<exists>q. forever (select_interesting args toplevels) args rd n k p = Done (Running q) \<and>
     stdouts (outs q) = stdouts (outs p) @ concat (map (\<lambda>i. ?ls p i @ [NL]) [k..<k + n])"
    using assms(2-4)
  proof (induction n arbitrary: k p)
    case (Suc n)
    obtain q where q: "report (select_interesting args toplevels) args (rd k) p = Done (Running q)" "kept p q" "sched (sg_env q) = []"
        "stdouts (outs q) = stdouts (outs p) @ ?ls p k"
      using report_lines [OF assms(1) Suc.prems assms(5), of k] by blast
    let ?t = "put (Sleep (repeat_time q)) (put (Stdout NL) q)"
    have t: "sched (sg_env ?t) = []" "float_scale_factor ?t = 0" "bytes_scale_factor ?t \<le> 64" using q(2,3) Suc.prems by (auto simp: put_def kept_def)
    have ls: "?ls ?t i = ?ls p i" for i
    proof -
      have "same_format (p\<lparr>graphite_ts := g\<rparr>) (?t\<lparr>graphite_ts := g\<rparr>)" for g using q(2) by (auto simp: same_format_def put_def kept_def)
      then have "stat_line (?t\<lparr>graphite_ts := g\<rparr>) = stat_line (p\<lparr>graphite_ts := g\<rparr>)" for g by (rule stat_line_cong)
      moreover have "all_stats ?t (rd i) = all_stats p (rd i)" unfolding all_stats_def
        using q(2) by (subst chosen_cong [of ?t p]) (auto simp: put_def kept_def)
      ultimately show ?thesis by simp
    qed
    obtain u where "forever (select_interesting args toplevels) args rd n (Suc k) ?t = Done (Running u)"
        "stdouts (outs u) = stdouts (outs ?t) @ concat (map (\<lambda>i. ?ls p i @ [NL]) [Suc k..<Suc k + n])"
      using Suc.IH [OF t, of "Suc k"] unfolding ls by blast
    moreover have "[k..<k + Suc n] = k # [Suc k..<Suc k + n]" by (simp add: upt_rec)
    ultimately show ?case using q(1,4) by (simp add: put_def)
  qed simp
qed

lemma forever_goes_on_witness:
  "\<exists>q. forever (select_interesting [''mem.'', ''user.tty_1.tty'', ''cpu.''] toplevels) [''mem.'', ''user.tty_1.tty'', ''cpu.''] (\<lambda>_. some_readings) 2 0 kib_run = Done (Running q) \<and>
     stdouts (outs q) =
       [''mem.cache = 0'' @ NL, ''mem.free = 1'' @ NL, ''mem.total = 2'' @ NL, ''mem.used = 1'' @ NL, ''user.tty_1.tty = tty.1'' @ NL, NL,
        ''mem.cache = 0'' @ NL, ''mem.free = 1'' @ NL, ''mem.total = 2'' @ NL, ''mem.used = 1'' @ NL, ''user.tty_1.tty = tty.1'' @ NL, NL]"
proof -
  have "[0..<0 + 2] = [0, 1 :: nat]" by (simp add: upt_rec)
  with forever_goes_on [OF some_readings_ok kib_run_fields(1-3), of "[''mem.'', ''user.tty_1.tty'', ''cpu.'']", THEN spec, THEN spec, of 2 0]
  show ?thesis unfolding some_lines kib_run_fields(4) by simp
qed

text \<open>C36: Whatever the allocator does, and provided no string of the library's answers is NULL: when gathering comes
  to its end, no allocation was refused on the way, the list holds the statistics of all sections of
  interest, none left out, sorted by name, within the memory it was given; otherwise an allocation was
  refused and the program has ended with status 1, or, only when the users are of interest and could be
  read, a NULL pointer was written through: the allocation of the list of their names is not checked.\<close>

theorem get_stats_any_allocator:
  assumes "readings_ok r"
  shows "case get_stats (select_interesting args toplevels) r p of
      Done (Running q) \<Rightarrow>
        length (stat_items q) \<le> alloc_stats q \<and> cmp_sorted strcmp (map item_name (stat_items q)) \<and>
        mset (stat_items q) = mset (chosen section_calls (select_interesting args toplevels) p r) \<and>
        (\<exists>used. sched (sg_env p) = used @ sched (sg_env q) \<and> AFail \<notin> set used)
    | Done (Exited c os) \<Rightarrow> c = 1 \<and> AFail \<in> set (sched (sg_env p))
    | Fault f \<Rightarrow> f = NullDeref \<and> AFail \<in> set (sched (sg_env p)) \<and> r_users r \<noteq> None \<and>
        (\<exists>pop. (''user.'', pop, True) \<in> set (select_interesting args toplevels))"
  using sg.get_stats_runs [OF same_tops_select assms, of args p] names.sorted_qsort [of item_name] mset_qsort [of strcmp item_name]
  by (auto simp: gathered_def stats_inv_def spared_def split: outcome.splits prun.splits)

lemma get_stats_any_allocator_witness:
  "get_stats (select_interesting [''mem.''] toplevels) some_readings (start_statgrab (fresh_env [AMove, AFail])) =
     Done (Exited 1 [Stderr (''fatal: out of memory'' @ NL)])"
proof -
  let ?m = "get_stats (select_interesting [''mem.''] toplevels) some_readings (start_statgrab (fresh_env [AMove, AFail]))"
  have "case ?m of Done (Running q) \<Rightarrow> False | Done (Exited c os) \<Rightarrow> os = [Stderr (''fatal: out of memory'' @ NL)] | Fault f \<Rightarrow> False" by code_simp
  with get_stats_any_allocator [OF some_readings_ok, where args = "[''mem.'']" and p = "start_statgrab (fresh_env [AMove, AFail])"]
  show ?thesis by (simp split: outcome.splits prun.splits)
qed

end
