(* ===== verification/Statgrab_Main.thy ===== *)
theory Statgrab_Main
  imports Statgrab_Run
begin

text \<open>
  The arguments of \<^verbatim>\<open>statgrab\<close>: byte counts in larger units, the list of file systems, which is taken apart and handed to the
  library, and the program as a whole.
\<close>

section \<open>Units\<close>

text \<open>C38: A byte count shown in units of \<open>2 ^ k\<close> bytes is the count rounded to the nearest number of units, and the shifts and the
  addition that compute it do not overflow.\<close>

theorem scale_bytes_rounds:
  assumes "2 \<le> k" "k \<le> 64"
  shows "\<exists>u. scale_bytes k v = Done u \<and> unat u = (unat v + 2 ^ (k - 1)) div 2 ^ k \<and>
     \<bar>int (unat v) - 2 ^ k * int (unat u)\<bar> \<le> 2 ^ (k - 1)"
proof -
  let ?h = "2 ^ (k - 1) :: nat"
  have h: "2 ^ k = 2 * ?h" using assms(1) by (simp flip: power_Suc)
  have db: "unat (drop_bit n w) = unat w div 2 ^ n" for n and w :: ull unfolding unat_drop_bit_eq by (rule drop_bit_eq_div)
  have hi: "2 ^ k = 2 * (2 ^ (k - 1) :: int)" using assms(1) by (simp flip: power_Suc)
  have a: "unat (drop_bit (k - 1) v) = unat v div ?h" by (rule db)
  have "unat v div ?h \<le> unat v div 2" using assms(1) by (intro div_le_mono2) (simp_all add: self_le_power)
  then have "unat v div ?h < 2 ^ 64 - 1" using unsigned_less [of v, where ?'a = nat] by simp
  then have b: "unat (drop_bit (k - 1) v + 1) = unat v div ?h + 1"
    using a by (subst unat_add_lem [THEN iffD1]) simp_all
  have u: "unat (drop_bit 1 (drop_bit (k - 1) v + 1)) = (unat v div ?h + 1) div 2" using b by (simp only: db power_one_right)
  have e: "(unat v div ?h + 1) div 2 = (unat v + ?h) div 2 ^ k" by (simp add: h div_mult2_eq mult.commute [of 2])
  have "\<bar>int n - 2 * int m * int ((n + m) div (2 * m))\<bar> \<le> int m" if "0 < m" for n m :: nat
  proof -
    define d where "d = (n + m) div (2 * m)"
    have "2 * m * d + (n + m) mod (2 * m) = n + m" unfolding d_def by (rule mult_div_mod_eq)
    moreover have "(n + m) mod (2 * m) < 2 * m" using that by simp
    ultimately have "2 * m * d \<le> n + m" "n + m < 2 * m * d + 2 * m" by linarith+
    then have "int (2 * m * d) \<le> int (n + m)" "int (n + m) < int (2 * m * d + 2 * m)" by linarith+
    then show ?thesis unfolding d_def [symmetric] by simp
  qed
  from this [of ?h "unat v"] have d: "\<bar>int (unat v) - 2 ^ k * int ((unat v + ?h) div 2 ^ k)\<bar> \<le> 2 ^ (k - 1)" by (simp add: h hi)
  let ?u = "drop_bit 1 (drop_bit (k - 1) v + 1)"
  have ue: "unat ?u = (unat v + ?h) div 2 ^ k" using u e by (rule trans)
  have "scale_bytes k v = Done ?u" using assms by (simp add: scale_bytes_def)
  with ue d show ?thesis by (intro exI [of _ ?u] conjI) (simp_all only: ue)
qed

lemma scale_bytes_rounds_witness: "\<exists>u. scale_bytes 10 1536 = Done u \<and> unat u = 2"
  using scale_bytes_rounds [of 10 1536] by auto

section \<open>Lists of names\<close>

lemma next_choice_rest: "sched e = [] \<Longrightarrow> next_choice e = (AMove, e)"
  by (simp add: next_choice_def)

lemma push_item_eq:
  assumes "length (cells st) = items"
  shows "push_item st x items p =
     (case next_choice (sg_env p) of (c, e) \<Rightarrow>
        if c = AFail then die ''Out of memory'' (p\<lparr>sg_env := e\<rparr>)
        else Done (Running (\<lparr>cells = cells st @ [x], cap = (Suc items div 4 + 1) * 4\<rparr>, p\<lparr>sg_env := e\<rparr>)))"
proof -
  have "items < (Suc items div 4 + 1) * 4" "items div 4 * 4 < Suc items" "items \<le> (Suc items div 4 + 1) * 4" by simp_all
  then show ?thesis using assms by (cases st) (simp add: push_item_def Let_def STACK_UNIT_def split: prod.splits)
qed

text \<open>The names of a list: what stands between blanks and commas.\<close>

function tokens :: "string \<Rightarrow> string list" where
  "tokens l = (if l = [] then [] else takeWhile (\<lambda>c. \<not> separator c) l # tokens (dropWhile separator (dropWhile (\<lambda>c. \<not> separator c) l)))"
  by pat_completeness auto
termination
proof (relation "measure length", goal_cases)
  case (2 l)
  then show ?case
    using length_dropWhile_le [of separator "dropWhile (\<lambda>c. \<not> separator c) l"] length_dropWhile_le [of separator "tl l"]
      length_dropWhile_le [of "\<lambda>c. \<not> separator c" "tl l"]
    by (cases l; cases "separator (hd l)") (auto simp: le_imp_less_Suc intro: le_less_trans [OF length_dropWhile_le])
qed simp

declare tokens.simps [simp del]

lemma tokens_Nil [simp]: "tokens [] = []"
  by (simp add: tokens.simps)

lemma split_loop_Nil [simp]: "split_loop [] st items p = Done (Running (st, items, p))"
  by (simp add: split_loop.simps)

lemma split_loop_eq:
  "length (cells st) = items \<Longrightarrow> sched (sg_env p) = [] \<Longrightarrow>
     \<exists>st'. split_loop l st items p = Done (Running (st', items + length (tokens l), p)) \<and> cells st' = cells st @ map Some (tokens l)"
proof (induction l arbitrary: st items rule: tokens.induct)
  case (1 l)
  show ?case
  proof (cases "l = []")
    case True
    then show ?thesis using "1.prems" by simp
  next
    case False
    let ?w = "takeWhile (\<lambda>c. \<not> separator c) l" and ?r = "dropWhile separator (dropWhile (\<lambda>c. \<not> separator c) l)"
    let ?st = "\<lparr>cells = cells st @ [Some ?w], cap = (Suc items div 4 + 1) * 4\<rparr>"
    have "take (length ?w) l = ?w" by (metis takeWhile_dropWhile_id append_eq_conv_conj)
    then have "strndup l (length ?w) (sg_env p) = (Some ?w, sg_env p)"
      using next_choice_rest [OF "1.prems"(2)] by (simp add: strndup_def)
    then have "split_loop l st items p = split_loop ?r ?st (Suc items) p"
      using False push_item_eq [OF "1.prems"(1)] next_choice_rest [OF "1.prems"(2)] by (subst split_loop.simps) (simp add: Let_def)
    moreover obtain st' where "split_loop ?r ?st (Suc items) p = Done (Running (st', Suc items + length (tokens ?r), p))"
        "cells st' = cells ?st @ map Some (tokens ?r)"
      using "1.IH" [OF False, of ?st "Suc items"] "1.prems" by auto
    ultimately show ?thesis using False by (simp add: tokens.simps [of l])
  qed
qed

lemma split_list_eq:
  assumes "sched (sg_env p) = []"
  shows "\<exists>st. split_list l p = Done (Running (st, p)) \<and> cells st = map Some (tokens l) @ [None]"
proof -
  obtain st where st: "split_loop l \<lparr>cells = [], cap = 0\<rparr> 0 p = Done (Running (st, length (tokens l), p))" "cells st = map Some (tokens l)"
    using split_loop_eq [of "\<lparr>cells = [], cap = 0\<rparr>" 0 p l] assms by auto
  then have "length (cells st) = length (tokens l)" by simp
  from push_item_eq [OF this] next_choice_rest [OF assms] st show ?thesis by (simp add: split_list_def)
qed

lemma tokens_joined:
  assumes "list_all (\<lambda>(w, s). w \<noteq> [] \<and> list_all (\<lambda>c. \<not> separator c) w \<and> s \<noteq> [] \<and> list_all separator s) ws" "w \<noteq> []" "list_all (\<lambda>c. \<not> separator c) w"
  shows "tokens (concat (map (\<lambda>(w, s). w @ s) ws) @ w) = map fst ws @ [w]"
  using assms(1)
proof (induction ws)
  case Nil
  have "takeWhile (\<lambda>c. \<not> separator c) w = w" "dropWhile (\<lambda>c. \<not> separator c) w = []" using assms(3) by (auto simp: list_all_iff)
  then show ?case using assms(2) by (simp add: tokens.simps [of w] del: dropWhile_eq_Nil_conv takeWhile_eq_all_conv)
next
  case (Cons x ws)
  obtain u s where x: "x = (u, s)" by fastforce
  let ?r = "concat (map (\<lambda>(w, s). w @ s) ws) @ w"
  have u: "u \<noteq> []" "list_all (\<lambda>c. \<not> separator c) u" and s: "s \<noteq> []" "list_all separator s" using Cons.prems x by auto
  have "takeWhile (\<lambda>c. \<not> separator c) (u @ s @ ?r) = u" "dropWhile (\<lambda>c. \<not> separator c) (u @ s @ ?r) = s @ ?r"
    using u(2) s by (auto simp: list_all_iff takeWhile_append2 dropWhile_append2 neq_Nil_conv)
  moreover have "dropWhile separator (s @ ?r) = ?r"
  proof -
    have "?r \<noteq> [] \<and> \<not> separator (hd ?r)"
      using assms(2,3) Cons.prems by (cases ws) (auto simp: list_all_iff neq_Nil_conv)
    then have "dropWhile separator ?r = ?r" by (cases ?r) auto
    then show ?thesis using s(2) by (simp add: dropWhile_append2 list_all_iff)
  qed
  ultimately show ?case using Cons u(1) by (simp add: x tokens.simps [of "u @ s @ ?r"])
qed

section \<open>File systems\<close>

lemma fsnmcmp_eq: "fsnmcmp = cmp_valid_fs"
proof (intro ext)
  show "fsnmcmp a b = cmp_valid_fs a b" for a b by (cases a; cases b) simp_all
qed

lemma until_null_names [simp]: "until_null (map Some xs @ None # ys) = Done xs"
  by (induction xs) auto

lemma given_search:
  "bsearch fsnmcmp (Some nm) (map Some (qsort fsnmcmp Some given)) = None \<longleftrightarrow> map tolower nm \<notin> map tolower ` set given"
proof -
  have "cmp_sorted cmp_valid_fs (map Some (qsort cmp_valid_fs Some given))" by (rule types.sorted_qsort)
  from types.bsearch_None_iff [OF this, of "Some nm"] show ?thesis unfolding fsnmcmp_eq by (auto simp: cmp_valid_fs_0)
qed

lemma keep_loop_eq:
  assumes "sched (sg_env p) = []"
  shows "length (cells st) = n \<Longrightarrow>
     \<exists>st'. keep_loop (qsort fsnmcmp Some given) olds st n p =
       Done (Running (st', n + length (filter (\<lambda>s. map tolower s \<notin> map tolower ` set given) olds), p)) \<and>
       cells st' = cells st @ map Some (filter (\<lambda>s. map tolower s \<notin> map tolower ` set given) olds)"
proof (induction olds arbitrary: st n)
  case (Cons s olds)
  show ?case
  proof (cases "map tolower s \<in> map tolower ` set given")
    case True
    then obtain y where "bsearch fsnmcmp (Some s) (map Some (qsort fsnmcmp Some given)) = Some y" using given_search by blast
    with True Cons.IH [OF Cons.prems] show ?thesis by simp
  next
    case False
    let ?st = "\<lparr>cells = cells st @ [Some s], cap = (Suc n div 4 + 1) * 4\<rparr>"
    have b: "bsearch fsnmcmp (Some s) (map Some (qsort fsnmcmp Some given)) = None" using given_search False by blast
    have "push_item st (Some s) n p = Done (Running (?st, p))" using push_item_eq [OF Cons.prems] next_choice_rest [OF assms] by simp
    moreover obtain st' where "keep_loop (qsort fsnmcmp Some given) olds ?st (Suc n) p =
        Done (Running (st', Suc n + length (filter (\<lambda>s. map tolower s \<notin> map tolower ` set given) olds), p))"
        "cells st' = cells ?st @ map Some (filter (\<lambda>s. map tolower s \<notin> map tolower ` set given) olds)"
      using Cons.IH [of ?st "Suc n"] Cons.prems by auto
    ultimately show ?thesis using b False by simp
  qed
qed simp

text \<open>The names the list stands for: those given, or, after an exclamation mark, those of the library's that are not given.\<close>

definition listed :: "string list \<Rightarrow> string \<Rightarrow> string list" where
  "listed old l =
     (let l = dropWhile is_space l in
      if l \<noteq> [] \<and> hd l = CHR ''!''
      then filter (\<lambda>s. map tolower s \<notin> map tolower ` set (tokens (dropWhile is_space (tl l)))) old else tokens l)"

lemma set_valid_lemma:
  assumes "sched (sg_env p) = []" "table_ok t" "valid_file_systems t = Some (map (\<lambda>s. CStr (s @ [NUL])) old @ CNull # rest)"
    and "list_all nul_free old" "list_all name_ok (listed old l)"
  shows "\<exists>t' e. set_valid_filesystems msg l t p = Done (Running (t', p\<lparr>sg_env := e\<rparr>)) \<and> sched e = [] \<and> table_ok t' \<and>
     (\<forall>s. is_valid_fs_type t' (CStr (s @ [NUL])) = Done (\<exists>nm \<in> set (listed old l). map tolower nm = map tolower (strval s)))"
proof -
  let ?l = "dropWhile is_space l"
  let ?fin = "\<lambda>st p. andthen (until_null (cells st)) (\<lambda>names.
            andthen (sg_set_valid_filesystems (Some names) t (sg_env p)) (\<lambda>(rc, t, e).
              let p = p\<lparr>sg_env := e\<rparr> in
              if rc \<noteq> SG_ERROR_NONE then sg_die msg ''sg_set_valid_filesystems() failed'' 1 p else Done (Running (t, p))))"
  obtain t' e where s: "sg_set_valid_filesystems (Some (listed old l)) t (sg_env p) = Done (SG_ERROR_NONE, t', e)" "table_ok t'"
      "fs_types t' = map tolower ` set (listed old l)" "sched e = []"
    using set_names [OF assms(2,5), of "sg_env p"] assms(1) by auto
  have fin: "?fin st p = Done (Running (t', p\<lparr>sg_env := e\<rparr>))" if "cells st = map Some (listed old l) @ [None]" for st
    using s(1) that by simp
  have "set_valid_filesystems msg l t p = Done (Running (t', p\<lparr>sg_env := e\<rparr>))"
  proof (cases "?l \<noteq> [] \<and> hd ?l = CHR ''!''")
    case True
    let ?g = "tokens (dropWhile is_space (tl ?l))"
    obtain st where st: "split_list (dropWhile is_space (tl ?l)) p = Done (Running (st, p))" "cells st = map Some ?g @ [None]"
      using split_list_eq [OF assms(1)] by blast
    have old: "until_null (map cstr_val (map (\<lambda>s. CStr (s @ [NUL])) old @ CNull # rest)) = Done old"
    proof -
      have "map cstr_val (map (\<lambda>s. CStr (s @ [NUL])) old) = map Some old" using assms(4) by (auto simp: list_all_iff)
      then show ?thesis by (simp only: map_append list.map cstr_val_simps until_null_names)
    qed
    obtain st2 where st2: "keep_loop (qsort fsnmcmp Some ?g) old \<lparr>cells = [], cap = 0\<rparr> 0 p = Done (Running (st2, length (listed old l), p))"
        "cells st2 = map Some (listed old l)"
      using keep_loop_eq [OF assms(1), of "\<lparr>cells = [], cap = 0\<rparr>" 0 ?g old] True by (auto simp: listed_def)
    have "length (cells st2) = length (listed old l)" using st2(2) by simp
    from push_item_eq [OF this] obtain st3 where st3: "push_item st2 None (length (listed old l)) p = Done (Running (st3, p))"
        "cells st3 = map Some (listed old l) @ [None]" using next_choice_rest [OF assms(1)] st2(2) by simp
    show ?thesis unfolding set_valid_filesystems_def Let_def sg_get_valid_filesystems_def assms(3)
      using True st old st2(1) st3 fin [OF st3(2)] by (simp add: Let_def)
  next
    case False
    obtain st where st: "split_list ?l p = Done (Running (st, p))" "cells st = map Some (listed old l) @ [None]"
      using split_list_eq [OF assms(1), of ?l] False by (auto simp: listed_def Let_def)
    show ?thesis unfolding set_valid_filesystems_def Let_def using False st(1) fin [OF st(2)] by (auto simp: Let_def)
  qed
  with s(2,4) is_valid_names [OF s(2,3)] show ?thesis by (intro exI [of _ t'] exI [of _ e]) simp
qed

section \<open>Properties\<close>

text \<open>C39: A list of file systems is taken apart into its names, memory sufficing: for names of any number, at least one, none of them empty or
  with a blank or a comma in it, with blanks and commas between them, the array that is built holds the names in order and a NULL behind them.\<close>

theorem split_list_reads_back:
  assumes "list_all (\<lambda>(w, s). w \<noteq> [] \<and> list_all (\<lambda>c. \<not> separator c) w \<and> s \<noteq> [] \<and> list_all separator s) ws" "w \<noteq> []" "list_all (\<lambda>c. \<not> separator c) w"
    and "sched (sg_env p) = []"
  shows "\<exists>st. split_list (concat (map (\<lambda>(w, s). w @ s) ws) @ w) p = Done (Running (st, p)) \<and> cells st = map (Some \<circ> fst) ws @ [Some w, None]"
  using split_list_eq [OF assms(4)] tokens_joined [OF assms(1-3)] by (metis (no_types, lifting) append.assoc append_Cons append_Nil list.simps(8,9) map_append map_map)

lemma split_list_reads_back_witness:
  "\<exists>st. split_list ''nfs, cifs'' (start_statgrab (fresh_env [])) = Done (Running (st, start_statgrab (fresh_env []))) \<and>
     cells st = [Some ''nfs'', Some ''cifs'', None]"
proof -
  have "list_all (\<lambda>(w, s). w \<noteq> [] \<and> list_all (\<lambda>c. \<not> separator c) w \<and> s \<noteq> [] \<and> list_all separator s) [(''nfs'', '', '')]"
    "list_all (\<lambda>c. \<not> separator c) ''cifs''" by (simp_all add: separator_def is_space_def)
  from split_list_reads_back [OF this(1) _ this(2), of "start_statgrab (fresh_env [])"] show ?thesis by (simp add: start_statgrab_def fresh_env_def)
qed

text \<open>C34: \<^verbatim>\<open>set_valid_filesystems\<close> of the program on top of the library's table of types, memory sufficing, the table being there with a NULL
  behind its last entry and the names being C strings: afterwards the library takes a type for valid if and only if the list names it or, when the
  list begins with an exclamation mark, if it was in the table and the list does not name it; upper and lower case are not distinguished.\<close>

theorem set_valid_filesystems_correct:
  assumes "sched (sg_env p) = []" "table_ok t" "valid_file_systems t = Some (map (\<lambda>s. CStr (s @ [NUL])) old @ CNull # rest)"
    and "list_all nul_free old" "list_all name_ok (listed old l)"
  shows "\<exists>t' p'. set_valid_filesystems msg l t p = Done (Running (t', p')) \<and>
     (\<forall>s. is_valid_fs_type t' (CStr (s @ [NUL])) = Done (\<exists>nm \<in> set (listed old l). map tolower nm = map tolower (strval s)))"
  using set_valid_lemma [OF assms] by blast

lemma set_valid_filesystems_correct_witness:
  "\<exists>t' p'. set_valid_filesystems (\<lambda>_. None) '' ! NFS,cifs'' \<lparr>valid_file_systems = Some [lit ''ext4'', lit ''nfs'', CNull], num_valid_file_systems = 2\<rparr>
       (start_statgrab (fresh_env [])) = Done (Running (t', p')) \<and>
     is_valid_fs_type t' (lit ''ext4'') = Done True \<and> is_valid_fs_type t' (lit ''nfs'') = Done False"
proof -
  let ?t = "\<lparr>valid_file_systems = Some [lit ''ext4'', lit ''nfs'', CNull], num_valid_file_systems = 2\<rparr>"
  have l: "listed [''ext4'', ''nfs''] '' ! NFS,cifs'' = [''ext4'']" by code_simp
  have t: "table_ok ?t"
    by (simp add: table_ok_def cmp_sorted_def strcasecmp_def tolower_def strval_def)
  have v: "valid_file_systems ?t = Some (map (\<lambda>s. CStr (s @ [NUL])) [''ext4'', ''nfs''] @ CNull # [])" by simp
  obtain t' p' where r: "set_valid_filesystems (\<lambda>_. None) '' ! NFS,cifs'' ?t (start_statgrab (fresh_env [])) = Done (Running (t', p'))"
     "\<forall>s. is_valid_fs_type t' (CStr (s @ [NUL])) = Done (\<exists>nm \<in> set [''ext4'']. map tolower nm = map tolower (strval s))"
    using set_valid_filesystems_correct [OF _ t v, of "start_statgrab (fresh_env [])" "'' ! NFS,cifs''" "\<lambda>_. None"]
    unfolding l by (auto simp: start_statgrab_def fresh_env_def name_ok_def)
  have "(\<exists>nm \<in> set [''ext4'']. map tolower nm = map tolower (strval ''ext4''))" "\<not> (\<exists>nm \<in> set [''ext4'']. map tolower nm = map tolower (strval ''nfs''))"
    by (simp_all add: strval_def tolower_def)
  with r(1) spec [OF r(2), of "''ext4''"] spec [OF r(2), of "''nfs''"] show ?thesis by auto
qed

text \<open>Options are accepted in silence.\<close>

lemma option_step_outs: "option_step v b x p = Done (Running q) \<Longrightarrow> outs q = outs p"
  by (cases x) (auto simp: option_step_def usage_def step_simps split: prod.splits if_splits)

lemma option_loop_outs: "option_loop v b xs p = Done (Running q) \<Longrightarrow> outs q = outs p"
proof (induction xs arbitrary: p)
  case (Cons x xs)
  then obtain p' where "option_step v b x p = Done (Running p')" "option_loop v b xs p' = Done (Running q)"
    by (cases "option_step v b x p") (auto, metis pthen.simps(1,2) prun.exhaust outcome.inject(1) prun.distinct(1))
  with Cons.IH option_step_outs show ?case by metis
qed simp

text \<open>C6: The program from its options to its end: when standard output can be set to be buffered by lines, the options are accepted and ask for
  neither repetition (\<^verbatim>\<open>-s\<close>, \<^verbatim>\<open>-o\<close>) nor MRTG's format nor a list of file systems (\<^verbatim>\<open>-F\<close>) nor scaled percentages (\<^verbatim>\<open>-f\<close>), the unit of bytes is at most
  2^64, memory suffices, the privileges can be dropped, the library's table of file system types is there with a NULL behind its last entry, no
  string of the library's answers is NULL and no operand is empty, the program ends with status 0, and what it has printed are the lines of the
  statistics asked for.\<close>

theorem statgrab_main_prints:
  assumes "setvbuf_error s = None" "option_loop (package_version s) (package_bugreport s) (options s) (start_statgrab e) = Done (Running p)"
    and "repeat_mode p = REPEAT_NONE" "display_mode p \<noteq> DISPLAY_MRTG" "fslist p = None" "float_scale_factor p = 0" "bytes_scale_factor p \<le> 64"
    and "sched (sg_env p) = []" "fst (sg_drop_privileges (call_setegid s) (call_seteuid s) (credentials s) (sg_env p)) = SG_ERROR_NONE"
    and "table_ok (fs_types_at_start s)" "valid_file_systems (fs_types_at_start s) = Some (map (\<lambda>s. CStr (s @ [NUL])) old @ CNull # rest)"
    and "list_all name_ok old" "readings_ok (readings_at s 0)" "[] \<notin> set (operands s)"
  shows "\<exists>os. statgrab_main s n e = Done (Exited 0 os) \<and>
     stdouts os = map (stat_line (p\<lparr>graphite_ts := r_time (readings_at s 0)\<rparr>)) (asked (operands s) (all_stats (p\<lparr>use_diffs := False\<rparr>) (readings_at s 0)))"
proof -
  let ?ts = "select_interesting (operands s) toplevels" and ?p = "p\<lparr>use_diffs := False\<rparr>" and ?r = "readings_at s 0"
  obtain c where dr: "sg_drop_privileges (call_setegid s) (call_seteuid s) (credentials s) (sg_env p) = (SG_ERROR_NONE, c, sg_env p)"
    using assms(9) by (auto simp: sg_drop_privileges_def Let_def split: prod.splits if_splits)
  have l: "list_all name_ok (listed old default_fslist)" using assms(12) by (auto simp: list_all_iff listed_def Let_def default_fslist_def is_space_def)
  have nf: "list_all nul_free old" using assms(12) by (auto simp: list_all_iff name_ok_def)
  obtain t' e' where f: "set_valid_filesystems (strerror s) default_fslist (fs_types_at_start s) ?p = Done (Running (t', ?p\<lparr>sg_env := e'\<rparr>))" "sched e' = []"
    using set_valid_lemma [OF _ assms(10,11) nf l, of ?p "strerror s"] assms(8) by auto
  let ?q = "?p\<lparr>sg_env := e'\<rparr>"
  obtain q where q: "report ?ts (operands s) ?r ?q = Done (Running q)" "kept ?q q"
     "stdouts (outs q) = stdouts (outs ?q) @ map (stat_line (?q\<lparr>graphite_ts := r_time ?r\<rparr>)) (asked (operands s) (all_stats ?q ?r))"
    using report_lines [OF assms(13), of ?q "operands s"] f(2) assms(6,7,14) by auto
  have "same_format (p\<lparr>graphite_ts := g\<rparr>) (?q\<lparr>graphite_ts := g\<rparr>)" for g by (simp add: same_format_def)
  then have sl: "stat_line (?q\<lparr>graphite_ts := g\<rparr>) = stat_line (p\<lparr>graphite_ts := g\<rparr>)" for g by (rule stat_line_cong)
  have al: "all_stats ?q ?r = all_stats ?p ?r" unfolding all_stats_def by (subst chosen_cong [of ?q ?p]) simp_all
  have k: "repeat_mode q = REPEAT_NONE" "display_mode q \<noteq> DISPLAY_MRTG" using q(2) assms(3,4) by (auto simp: kept_def)
  have "p\<lparr>use_diffs := (repeat_mode p \<noteq> REPEAT_NONE)\<rparr> = ?p" "?p\<lparr>sg_env := sg_env p\<rparr> = ?p" using assms(3) by simp_all
  then have "statgrab_main s n e = Done (Exited 0 (outs q))"
    using assms(1-5) dr f(1) q(1) k by (simp add: statgrab_main_def Let_def repeat_switch_def)
  moreover have "outs p = []" using option_loop_outs [OF assms(2)] by (simp add: start_statgrab_def)
  ultimately show ?thesis using q(3) unfolding sl al by simp
qed

definition example_setting :: setting where
  "example_setting =
     \<lparr>package_version = ''1'', package_bugreport = ''x'', options = [(CHR ''K'', []), (CHR ''u'', [])], operands = [''mem.total'', ''user.''],
      setvbuf_error = None, strerror = (\<lambda>_. None), call_setegid = (\<lambda>g c. (True, c\<lparr>c_egid := g\<rparr>)), call_seteuid = (\<lambda>u c. (True, c\<lparr>c_euid := u\<rparr>)),
      credentials = \<lparr>c_uid = 1000, c_euid = 0, c_gid = 100, c_egid = 2\<rparr>,
      fs_types_at_start = \<lparr>valid_file_systems = Some [lit ''ext4'', lit ''nfs'', CNull], num_valid_file_systems = 2\<rparr>,
      readings_at = (\<lambda>_. some_readings)\<rparr>"

abbreviation example_run :: statgrab where
  "example_run \<equiv> (start_statgrab (fresh_env []))\<lparr>bytes_scale_factor := 10, display_mode := DISPLAY_PLAIN\<rparr>"

lemma example_lines:
  "map (stat_line (example_run\<lparr>graphite_ts := r_time some_readings\<rparr>)) (asked [''mem.total'', ''user.''] (all_stats (example_run\<lparr>use_diffs := False\<rparr>) some_readings)) =
     map (\<lambda>l. l @ NL) [''2'', ''ann'', ''1'', ''host'', ''ann'', ''9'', ''tty.1'']"
  by code_simp

lemma statgrab_main_prints_witness:
  "\<exists>os. statgrab_main example_setting 0 (fresh_env []) = Done (Exited 0 os) \<and>
     stdouts os = map (\<lambda>l. l @ NL) [''2'', ''ann'', ''1'', ''host'', ''ann'', ''9'', ''tty.1'']"
proof -
  have o: "option_loop (package_version example_setting) (package_bugreport example_setting) (options example_setting) (start_statgrab (fresh_env [])) = Done (Running example_run)"
    by (simp add: example_setting_def option_step_def)
  have t: "table_ok (fs_types_at_start example_setting)"
    by (simp add: example_setting_def table_ok_def cmp_sorted_def strcasecmp_def tolower_def strval_def)
  have v: "valid_file_systems (fs_types_at_start example_setting) = Some (map (\<lambda>s. CStr (s @ [NUL])) [''ext4'', ''nfs''] @ CNull # [])" by (simp add: example_setting_def)
  have f: "repeat_mode example_run = REPEAT_NONE" "display_mode example_run \<noteq> DISPLAY_MRTG" "fslist example_run = None" "float_scale_factor example_run = 0"
      "bytes_scale_factor example_run \<le> 64" "sched (sg_env example_run) = []" "outs example_run = []"
    by (simp_all add: start_statgrab_def fresh_env_def)
  have d: "fst (sg_drop_privileges (call_setegid example_setting) (call_seteuid example_setting) (credentials example_setting) (sg_env example_run)) = SG_ERROR_NONE"
    by (simp add: example_setting_def sg_drop_privileges_def)
  have s: "setvbuf_error example_setting = None" "readings_at example_setting 0 = some_readings" "operands example_setting = [''mem.total'', ''user.'']"
    "list_all name_ok [''ext4'', ''nfs'']" "[] \<notin> set (operands example_setting)" by (simp_all add: example_setting_def name_ok_def)
  have r: "readings_ok (readings_at example_setting 0)" using some_readings_ok s(2) by simp
  show ?thesis
    using statgrab_main_prints [OF s(1) o f(1-6) d t v s(4) r s(5), of 0] unfolding s(2,3) example_lines by simp
qed

end
