(* ===== verification/Spec2Isabelle.thy ===== *)
theory Spec2Isabelle
  imports Snapshots Globals_Protocol Disk_Platforms Swap Host Network_Ifaces Fs_Select Process_Props User_Stats Statgrab_Main
begin

text \<open>
  A verification library for libstatgrab (\<^verbatim>\<open>src/src/libstatgrab\<close>) and its program \<^verbatim>\<open>statgrab\<close> (\<^verbatim>\<open>src/src/statgrab\<close>).

  The program. libstatgrab reports statistics of the operating system. A component manager
  (\<^verbatim>\<open>globals.c\<close>) initialises the components, lays out one block of thread local storage in which every
  component has its slice, and runs a table of named locks. Every statistics component keeps, per thread, a
  few vectors (\<^verbatim>\<open>vector.c\<close>); its public functions are generated by the macros of \<^verbatim>\<open>globals.h\<close> from a
  gathering function, which reads the platform and fills a vector, and, for differences, from the functions
  of its item type. All parts record errors in the thread's error state (\<^verbatim>\<open>error.c\<close>) and use the string,
  memory and file helpers of \<^verbatim>\<open>tools.c\<close>.

  Common ground.
    \<^item> \<open>Prelude\<close>: widths of the C types, the outcome of a C computation (a value, or the undefined
      behaviour it runs into: NULL or freed memory used, access out of bounds, a loop that does not end),
      C strings, \<^verbatim>\<open>strcmp\<close>, decimal printing.
    \<^item> \<open>Errors\<close> (\<^verbatim>\<open>error.c\<close>, \<^verbatim>\<open>error.h\<close>): codes, messages, the last-error record, and the environment \<open>env\<close>: the
      answers of the allocator still to come, \<^verbatim>\<open>errno\<close>, the error record, the byte found in fresh memory.
    \<^item> \<open>Cstring\<close>, \<open>Tools\<close> (\<^verbatim>\<open>tools.c\<close>, \<^verbatim>\<open>tools.h\<close>): \<^verbatim>\<open>strlcpy\<close>, \<^verbatim>\<open>strlcat\<close>, \<^verbatim>\<open>sg_update_string\<close> and its
      relatives, \<^verbatim>\<open>sg_f_read_line\<close>, the device map of Solaris, privileges, bit sets.
    \<^item> \<open>C_Search\<close>: \<^verbatim>\<open>bsearch\<close> and \<^verbatim>\<open>qsort\<close>; \<open>C_Scan\<close>: \<^verbatim>\<open>sscanf\<close> as the readers use it, with lemmas that what
      was printed is scanned back.

  Vectors (\<^verbatim>\<open>vector.c\<close>, \<^verbatim>\<open>vector.h\<close>).
    \<^item> \<open>Vector\<close>: every operation over a heap of blocks (header, bytes, slots) with the item functions as
      function pointers.
    \<^item> \<open>Vector_Safety\<close>, \<open>Vector_Clone\<close>: for every item type that meets the locales \<open>vec_items\<close>, \<open>copy_items\<close> and
      so on, no operation faults, the block invariant is kept, the contents are as specified and no other
      block changes. \<open>Items\<close>, \<open>Disk_Items\<close>, \<open>Network_Items\<close> interpret the locales on the item functions of
      \<^verbatim>\<open>disk_stats.c\<close> and \<^verbatim>\<open>network_stats.c\<close>; \<open>Snapshots\<close> states the results for them: the difference of two
      snapshots refines the subtraction of the items with equal keys.

  The component manager (\<^verbatim>\<open>globals.c\<close>).
    \<^item> \<open>Globals\<close>: the state (pthread mutexes, lock table, thread local blocks, counter of initialisations)
      and the operations. \<open>Globals_Safety\<close>: what one initialisation does. \<open>Globals_Protocol\<close>: sequences of
      calls of several threads: mutual exclusion of the named locks, nesting of initialisation and shutdown.

  The generated functions (\<^verbatim>\<open>globals.h\<close>).
    \<^item> \<open>Access\<close>: the functions of the macros, over the gathering function they are given. \<open>Access_Easy\<close>,
      \<open>Access_Multi\<close>: locales for what a gathering function owes (\<open>easy_source\<close>, \<open>easy_diff\<close>, \<open>row_items\<close>,
      \<open>multi_source\<close>, \<open>multi_diff\<close>) and what the public functions then promise; \<open>Access_Sized\<close>: the same for vectors whose
      size is known before they are filled. \<open>Readings\<close>: gathering functions
      that read the platform into one item (\<open>reading_source\<close>), and the scanning of lines of \<^verbatim>\<open>/proc\<close>.

  The statistics components. What a system call reports is an argument of the reader (a failure is
  \<open>None\<close> or the error); the text of a file in \<^verbatim>\<open>/proc\<close> is a string, read line by line as \<^verbatim>\<open>fgets\<close> does with the
  buffer of the code. The theorems about Linux speak of texts in the layout of the kernel: \<^verbatim>\<open>/proc/meminfo\<close> with its
  numbers right-justified in one column, \<^verbatim>\<open>/proc/net/dev\<close> with padded names and sixteen padded columns,
  \<^verbatim>\<open>/proc/diskstats\<close> with padded device numbers, the four files of a process. Most of them assume that
  memory suffices (no answer of the allocator is a refusal); the ones that hold for every allocator say so.
    \<^item> \<open>Disk_Read\<close> (\<^verbatim>\<open>disk_stats.c\<close>): disk traffic on Linux, Solaris and Windows; \<open>Disk_Platforms\<close>: on AIX, Darwin, HP-UX and the BSDs.
      The readers meet \<open>multi_diff\<close>; the loop of HP-UX over batches, which the model bounds by fuel, ends with more fuel than disks.
    \<^item> \<open>Valid_Fs\<close> (\<^verbatim>\<open>disk_stats.c\<close>): the table of valid file system types, its initialisation from what the platform
      reports and the binary search in it, which decides membership in a set of names.
    \<^item> \<open>Fs_Read\<close>, \<open>Fs_Select\<close> (\<^verbatim>\<open>disk_stats.c\<close>): the list of mounts, the sizes of a file system, the selection of the
      valid ones, and what \<^verbatim>\<open>sg_get_fs_stats\<close> delivers.
    \<^item> \<open>Network_Read\<close> (\<^verbatim>\<open>network_stats.c\<close>): network traffic on Linux (with the regular expression that takes
      \<^verbatim>\<open>/proc/net/dev\<close> apart) and Solaris; \<open>Network_Traffic\<close>: on the BSDs, AIX, HP-UX and Windows; \<open>Network_Ifaces\<close>: the
      state of the interfaces on all platforms, and what \<^verbatim>\<open>sg_get_network_iface_stats\<close> delivers on Linux.
    \<^item> \<open>Process_Items\<close>, \<open>Process_Read\<close> (\<^verbatim>\<open>process_stats.c\<close>): the pages of process ids, command lines, comparisons and
      counts; the readers of Linux and Solaris. \<open>Process_Lines\<close>, \<open>Process_Props\<close>: what the kernel prints for a
      process is read back, and what \<^verbatim>\<open>sg_get_process_stats\<close> and \<^verbatim>\<open>sg_get_process_count_of\<close> deliver.
    \<^item> \<open>User_Stats\<close> (\<^verbatim>\<open>user_stats.c\<close>): the users on all platforms; the reader with its lock, which it releases separately on each error
      path and at the end, does what the reader without locking does and leaves the locks as they were.
    \<^item> \<open>Host\<close> (\<^verbatim>\<open>os_info.c\<close>): host information on all Unix platforms, the tables of architectures.
    \<^item> \<open>Cpu\<close>, \<open>Cpu_Props\<close> (\<^verbatim>\<open>cpu_stats.c\<close>): all Unix platforms, differences, percentages (over the real numbers: the
      rounding of doubles is not modelled).
    \<^item> \<open>Load_Page\<close> (\<^verbatim>\<open>load_stats.c\<close>, \<^verbatim>\<open>page_stats.c\<close>), \<open>Memory\<close> (\<^verbatim>\<open>memory_stats.c\<close>), \<open>Swap\<close> (\<^verbatim>\<open>swap_stats.c\<close>): all
      platforms.

  The program \<^verbatim>\<open>statgrab\<close> (\<^verbatim>\<open>statgrab.c\<close>). What the library returns in a round is a record of readings, in the types of the components above.
    \<^item> \<open>Statgrab\<close>: the variables of the program as a record, the list of statistics and the sections that fill it, selection, sorting,
      searching and printing, the list of file systems, options and main loop.
    \<^item> \<open>Statgrab_Props\<close>: a binary search widened to a range finds the range of equal keys. \<open>Statgrab_Sections\<close>: what each section adds; the
      locale \<open>sections\<close> is what the program relies on, and the twelve sections meet it. \<open>Statgrab_Run\<close>: what a round prints, the types
      of the statistics, what gathering comes to when the allocator refuses, the loop for ever. \<open>Statgrab_Main\<close>: units, lists of names, the table of file systems, the program as a whole.

  Bounds and fuel. Counters are 64-bit words with wrap-around; sizes are 64-bit; where a theorem speaks of
  numbers, it bounds them explicitly. Recursion of the model is structural or has a measure; loops that the
  code cannot bound (\<^verbatim>\<open>fgets\<close> into a buffer of one byte, a lock that is never released) are faults of the
  model, and the theorems show they do not arise. Vectors are assumed to have room for the rows of a
  reading, which 64-bit addresses give.

  Not modelled: the log4cplus output of the macros; doubles, which are real numbers here (or none, after a
  division by zero); the search for the configuration of the log; system calls and the contents of the
  kernel's tables, which are arguments; the Windows performance counters (\<^verbatim>\<open>win32.c\<close>); the mount lists of the
  BSDs, AIX and Windows; the processes of
  HP-UX, AIX, the BSDs and Windows and \<^verbatim>\<open>sg_get_process_count_r\<close>; the program
  \<^verbatim>\<open>saidar\<close>, which draws on a terminal, examples and tests.
\<close>

end
